(* ===== verification/Prelude.thy ===== *)
theory Prelude
  imports Main "HOL-Library.Word" "HOL-Library.Multiset"
begin

text \<open>
  Shared by every component: the names of the machine types, the outcome of a C
  operation, and the lemmas on outcomes and array accesses the component proofs use.

  A C operation either ends normally with a value (\<open>Inr\<close>) or it does something the C
  program gives no meaning to, or never ends (\<open>Inl\<close> of a \<open>fault\<close>).  Return codes of the
  source (-1, NULL, 0) are ordinary values.
\<close>

unbundle bit_operations_syntax

section \<open>Machine types\<close>

type_synonym u8 = "8 word"
type_synonym u16 = "16 word"
type_synonym u32 = "32 word"
type_synonym i32 = "32 word"  \<comment> \<open>read as two's complement with \<open>sint\<close>\<close>
type_synonym addr = "32 word"

abbreviation (input) NULL :: addr where "NULL \<equiv> 0"

section \<open>Outcomes\<close>

datatype fault =
    NullDeref      \<comment> \<open>an access through a null pointer\<close>
  | OutOfBounds    \<comment> \<open>an access outside the array it names\<close>
  | Spin           \<comment> \<open>a loop that waits for a condition nothing in the run establishes\<close>
  | Unreachable    \<comment> \<open>\<open>__builtin_unreachable\<close> is reached\<close>
  | CoreReset      \<comment> \<open>the program has reset the core (a write of the key to AIRCR)\<close>
  | DivByZero      \<comment> \<open>an integer division by zero (DIV_0_TRP is set at start-up)\<close>
  | Undefined      \<comment> \<open>C gives the expression no value\<close>

type_synonym 'a res = "fault + 'a"

definition bnd :: "'a res \<Rightarrow> ('a \<Rightarrow> 'b res) \<Rightarrow> 'b res" where
  "bnd m f = (case m of Inl e \<Rightarrow> Inl e | Inr x \<Rightarrow> f x)"

lemma bnd_simps [simp]: "bnd (Inl e) f = Inl e" "bnd (Inr x) f = f x"
  by (simp_all add: bnd_def)

lemma bnd_cong [fundef_cong]:
  "m = m' \<Longrightarrow> (\<And>x. m' = Inr x \<Longrightarrow> f x = f' x) \<Longrightarrow> bnd m f = bnd m' f'"
  by (simp add: bnd_def split: sum.split)

text \<open>Evaluates a sequence of operations from the front, without simplifying what follows.\<close>

lemma bnd_weak_cong: "m = m' \<Longrightarrow> bnd m f = bnd m' f"
  by simp

lemma bnd_eq_Inr: "bnd m f = Inr y \<longleftrightarrow> (\<exists>x. m = Inr x \<and> f x = Inr y)"
  by (cases m) auto

lemma bnd_InrE:
  assumes "bnd m f = Inr y"
  obtains x where "m = Inr x" and "f x = Inr y"
  using assms by (auto simp: bnd_eq_Inr)

lemma bnd_assoc: "bnd (bnd m f) g = bnd m (\<lambda>x. bnd (f x) g)"
  by (cases m) auto

section \<open>Arrays\<close>

text \<open>
  A C array is a list; an index is a C \<open>int\<close>, and an access outside the array is a
  fault.
\<close>

definition rd :: "'a list \<Rightarrow> int \<Rightarrow> 'a res" where
  "rd A i = (if 0 \<le> i \<and> i < int (length A) then Inr (A ! nat i) else Inl OutOfBounds)"

definition wr :: "'a list \<Rightarrow> int \<Rightarrow> 'a \<Rightarrow> 'a list res" where
  "wr A i v = (if 0 \<le> i \<and> i < int (length A) then Inr (A[nat i := v]) else Inl OutOfBounds)"

lemma rd_in [simp]: "0 \<le> i \<Longrightarrow> i < int (length A) \<Longrightarrow> rd A i = Inr (A ! nat i)"
  by (simp add: rd_def)

lemma wr_in [simp]: "0 \<le> i \<Longrightarrow> i < int (length A) \<Longrightarrow> wr A i v = Inr (A[nat i := v])"
  by (simp add: wr_def)

lemma rd_eq_Inr: "rd A i = Inr x \<longleftrightarrow> 0 \<le> i \<and> i < int (length A) \<and> x = A ! nat i"
  by (auto simp: rd_def)

lemma wr_eq_Inr: "wr A i v = Inr B \<longleftrightarrow> 0 \<le> i \<and> i < int (length A) \<and> B = A[nat i := v]"
  by (auto simp: wr_def)

lemma mset_swap_list:
  "i < length A \<Longrightarrow> j < length A \<Longrightarrow> mset (A[i := A ! j, j := A ! i]) = mset A"
  by (metis mset_swap)

end
