(* ===== verification/Machine.thy ===== *)
theory Machine
  imports Prelude
begin

text \<open>
  The machine the C code runs on, as far as the code sees it: the memory-mapped
  registers it reaches through \<open>READ_REGISTER\<close> and \<open>WRITE_REGISTER\<close>
  (\<open>os/include/lang.h\<close>, \<open>os/arch/f401/include/lang.h\<close>), and the build configuration
  (\<open>os/Makefile\<close>).

  The hardware behind a volatile register is not part of the program.  It is a parameter
  of every run: \<open>inputs s a\<close> lists the values the hardware presents at the next reads of
  register \<open>a\<close>; when the list is empty a read gives what the register holds
  (\<open>mmio s a\<close>), as a plain configuration register does.  \<open>writes\<close> records every write in
  program order.
\<close>

section \<open>State\<close>

text \<open>The global variables of the peripheral drivers.\<close>

record driver_globals =
  timer_configurations :: "(u32 \<times> addr) list"
  dma_interrupt_action :: u32
  adc_registerset :: addr
  crc_regs :: addr
  i2c_regs :: addr

record machine =
  mmio :: "addr \<Rightarrow> u32"
  inputs :: "addr \<Rightarrow> u32 list"
  writes :: "(addr \<times> u32) list"
  DEBUG :: nat
  SYSTICK :: bool
  drv :: driver_globals

section \<open>Register maps\<close>

text \<open>
  A register map is a C struct of words: the list of its members in the order of their
  declaration.  \<open>reg m base f\<close> is \<open>&((m*) base)->f\<close>.
\<close>

definition reg :: "string list \<Rightarrow> addr \<Rightarrow> string \<Rightarrow> addr" where
  "reg m base f = base + 4 * of_nat (length (takeWhile (\<lambda>g. g \<noteq> f) m))"

text \<open>\<open>x << n\<close>; a shift by the width or more (which C leaves undefined) gives 0, as \<open>LSL\<close> does.\<close>

definition shl :: "u32 \<Rightarrow> u32 \<Rightarrow> u32" where
  "shl x n = push_bit (unat n) x"

section \<open>Register access\<close>

definition READ_REGISTER :: "addr \<Rightarrow> 'z machine_scheme \<Rightarrow> u32 \<times> 'z machine_scheme" where
  "READ_REGISTER a s =
     (case inputs s a of
        [] \<Rightarrow> (mmio s a, s)
      | v # vs \<Rightarrow> (v, s\<lparr>inputs := (inputs s)(a := vs)\<rparr>))"

definition WRITE_REGISTER :: "addr \<Rightarrow> u32 \<Rightarrow> 'z machine_scheme \<Rightarrow> 'z machine_scheme" where
  "WRITE_REGISTER a v s =
     s\<lparr>mmio := (mmio s)(a := v), writes := writes s @ [(a, v)]\<rparr>"

text \<open>\<open>WRITE_REGISTER(a, f(READ_REGISTER(a)))\<close>, the shape most driver code has.\<close>

definition MODIFY_REGISTER :: "addr \<Rightarrow> (u32 \<Rightarrow> u32) \<Rightarrow> 'z machine_scheme \<Rightarrow> 'z machine_scheme" where
  "MODIFY_REGISTER a f s = (let (v, s1) = READ_REGISTER a s in WRITE_REGISTER a (f v) s1)"

definition SET_BIT :: "addr \<Rightarrow> u32 \<Rightarrow> 'z machine_scheme \<Rightarrow> 'z machine_scheme" where
  "SET_BIT a bits s = MODIFY_REGISTER a (\<lambda>v. v OR bits) s"

definition CLEAR_BIT :: "addr \<Rightarrow> u32 \<Rightarrow> 'z machine_scheme \<Rightarrow> 'z machine_scheme" where
  "CLEAR_BIT a bits s = MODIFY_REGISTER a (\<lambda>v. v AND NOT bits) s"

definition FLUSH_REGISTER :: "addr \<Rightarrow> 'z machine_scheme \<Rightarrow> 'z machine_scheme" where
  "FLUSH_REGISTER a s = MODIFY_REGISTER a (\<lambda>v. v AND NOT 0xFFFFFFFF) s"

text \<open>
  A busy-wait \<open>while (!p(READ_REGISTER(a)));\<close>.  Each read consumes one presented value;
  when none is left and the value the register holds fails the test, the loop never ends.
\<close>

function poll :: "addr \<Rightarrow> (u32 \<Rightarrow> bool) \<Rightarrow> 'z machine_scheme \<Rightarrow> 'z machine_scheme res" where
  "poll a p s =
     (let (v, s1) = READ_REGISTER a s in
      if p v then Inr s1 else if inputs s a = [] then Inl Spin else poll a p s1)"
  by pat_completeness auto
termination
  by (relation "measure (\<lambda>(a, p, s). length (inputs s a))")
     (auto simp: READ_REGISTER_def split: list.splits)

declare poll.simps [simp del]

section \<open>SysTick on and off\<close>

text \<open>
  The inline assembly \<open>ST_DISABLE\<close> and \<open>ST_ENABLE\<close> (\<open>os/include/core/exception.h\<close>)
  clears and sets bit 0 of the word at 0xE000E000 + 16.
\<close>

abbreviation STK_CTRL :: addr where "STK_CTRL \<equiv> 0xE000E010"

definition ST_DISABLE :: "'z machine_scheme \<Rightarrow> 'z machine_scheme" where
  "ST_DISABLE s = MODIFY_REGISTER STK_CTRL (\<lambda>v. v AND NOT 1) s"

definition ST_ENABLE :: "'z machine_scheme \<Rightarrow> 'z machine_scheme" where
  "ST_ENABLE s = MODIFY_REGISTER STK_CTRL (\<lambda>v. v OR 1) s"

section \<open>Lemmas\<close>

named_theorems reg_defs \<open>definitions of the register operations\<close>

lemmas [reg_defs] = MODIFY_REGISTER_def READ_REGISTER_def WRITE_REGISTER_def SET_BIT_def
  CLEAR_BIT_def FLUSH_REGISTER_def ST_DISABLE_def ST_ENABLE_def

lemma READ_plain [simp]: "inputs s a = [] \<Longrightarrow> READ_REGISTER a s = (mmio s a, s)"
  by (simp add: READ_REGISTER_def)

lemma WRITE_sel [simp]:
  "mmio (WRITE_REGISTER a v s) = (mmio s)(a := v)"
  "inputs (WRITE_REGISTER a v s) = inputs s"
  "writes (WRITE_REGISTER a v s) = writes s @ [(a, v)]"
  "DEBUG (WRITE_REGISTER a v s) = DEBUG s"
  "SYSTICK (WRITE_REGISTER a v s) = SYSTICK s"
  "drv (WRITE_REGISTER a v s) = drv s"
  "machine.more (WRITE_REGISTER a v s) = machine.more s"
  by (simp_all add: WRITE_REGISTER_def)

lemma MODIFY_plain [simp]:
  "inputs s a = [] \<Longrightarrow> MODIFY_REGISTER a f s = WRITE_REGISTER a (f (mmio s a)) s"
  by (simp add: MODIFY_REGISTER_def)

lemma MODIFY_shape:
  "\<exists>m i w. MODIFY_REGISTER a f s = s\<lparr>mmio := m, inputs := i, writes := w\<rparr>"
proof -
  have "MODIFY_REGISTER a f s = s\<lparr>mmio := mmio (MODIFY_REGISTER a f s),
          inputs := inputs (MODIFY_REGISTER a f s), writes := writes (MODIFY_REGISTER a f s)\<rparr>"
    by (cases s) (simp add: MODIFY_REGISTER_def READ_REGISTER_def WRITE_REGISTER_def
        split: list.split)
  then show ?thesis by blast
qed

lemma MODIFY_sel [simp]:
  "DEBUG (MODIFY_REGISTER a f s) = DEBUG s"
  "SYSTICK (MODIFY_REGISTER a f s) = SYSTICK s"
  "drv (MODIFY_REGISTER a f s) = drv s"
  "machine.more (MODIFY_REGISTER a f s) = machine.more s"
  using MODIFY_shape [of a f s] by auto

lemma MODIFY_other [simp]: "b \<noteq> a \<Longrightarrow> mmio (MODIFY_REGISTER a f s) b = mmio s b"
  by (cases "inputs s a")
     (auto simp: MODIFY_REGISTER_def READ_REGISTER_def WRITE_REGISTER_def)

lemma poll_now:
  "inputs s a = [] \<Longrightarrow> poll a p s = (if p (mmio s a) then Inr s else Inl Spin)"
  by (subst poll.simps) simp

lemma poll_shape:
  "poll a p s = Inr s' \<Longrightarrow> \<exists>vs. s' = s\<lparr>inputs := (inputs s)(a := vs)\<rparr>"
proof (induction a p s rule: poll.induct)
  case (1 a p s)
  show ?case
  proof (cases "inputs s a")
    case Nil
    with "1.prems" show ?thesis
      by (intro exI [of _ "[]"]) (auto simp: poll_now fun_upd_idem split: if_splits)
  next
    case (Cons v vs)
    let ?s1 = "s\<lparr>inputs := (inputs s)(a := vs)\<rparr>"
    have r: "READ_REGISTER a s = (v, ?s1)" by (simp add: READ_REGISTER_def Cons)
    show ?thesis
    proof (cases "p v")
      case True
      with "1.prems" r have "s' = ?s1" by (subst (asm) poll.simps) simp
      then show ?thesis by blast
    next
      case False
      with "1.prems" r Cons have rec: "poll a p ?s1 = Inr s'" by (subst (asm) poll.simps) simp
      have ne: "inputs s a \<noteq> []" using Cons by simp
      from "1.IH" [OF r [symmetric] refl False ne rec] obtain us where
        "s' = ?s1\<lparr>inputs := (inputs ?s1)(a := us)\<rparr>" by blast
      moreover have "(inputs ?s1)(a := us) = (inputs s)(a := us)" by (rule ext) simp
      ultimately have "s' = s\<lparr>inputs := (inputs s)(a := us)\<rparr>" by (simp only:) simp
      then show ?thesis by blast
    qed
  qed
qed

lemma inputs_MODIFY: "inputs (MODIFY_REGISTER a f s) = (inputs s)(a := tl (inputs s a))"
  by (cases "inputs s a") (auto simp: MODIFY_REGISTER_def READ_REGISTER_def WRITE_REGISTER_def)

lemma READ_inputs_le: "length (inputs (snd (READ_REGISTER a s)) b) \<le> length (inputs s b)"
  by (auto simp: READ_REGISTER_def split: list.split)

lemma READ_inputs_less: "inputs s a \<noteq> [] \<Longrightarrow> length (inputs (snd (READ_REGISTER a s)) a) < length (inputs s a)"
  by (auto simp: READ_REGISTER_def split: list.split)

text \<open>What a busy-wait does with the presented values.\<close>

lemma poll_prefix:
  "inputs s a = xs @ v # rest \<Longrightarrow> \<forall>x\<in>set xs. \<not> p x \<Longrightarrow> p v \<Longrightarrow>
   poll a p s = Inr (s\<lparr>inputs := (inputs s)(a := rest)\<rparr>)"
proof (induction xs arbitrary: s)
  case Nil
  then show ?case by (subst poll.simps) (simp add: READ_REGISTER_def)
next
  case (Cons x xs)
  let ?s = "s\<lparr>inputs := (inputs s)(a := xs @ v # rest)\<rparr>"
  have "poll a p s = poll a p ?s" using Cons.prems by (subst poll.simps) (simp add: READ_REGISTER_def)
  also have "\<dots> = Inr (?s\<lparr>inputs := (inputs ?s)(a := rest)\<rparr>)" using Cons.prems by (intro Cons.IH) simp_all
  also have "?s\<lparr>inputs := (inputs ?s)(a := rest)\<rparr> = s\<lparr>inputs := (inputs s)(a := rest)\<rparr>"
    by (simp del: fun_upd_apply)
  finally show ?case .
qed

lemma poll_never:
  "\<forall>v\<in>set (inputs s a). \<not> p v \<Longrightarrow> \<not> p (mmio s a) \<Longrightarrow> poll a p s = Inl Spin"
proof (induction "inputs s a" arbitrary: s)
  case Nil
  then show ?case by (simp add: poll_now)
next
  case (Cons x xs)
  let ?s = "s\<lparr>inputs := (inputs s)(a := xs)\<rparr>"
  have "poll a p s = poll a p ?s" using Cons.hyps(2) [symmetric] Cons.prems
    by (subst poll.simps) (simp add: READ_REGISTER_def)
  also have "\<dots> = Inl Spin" using Cons.hyps(2) [symmetric] Cons.prems by (intro Cons.hyps(1)) simp_all
  finally show ?case .
qed

lemma poll_fault: "poll a p s = Inl e \<Longrightarrow> e = Spin"
proof (induction a p s rule: poll.induct)
  case (1 a p s)
  obtain v s1 where r: "READ_REGISTER a s = (v, s1)" by fastforce
  show ?case
    using "1.prems" "1.IH" [OF r [symmetric] refl] r by (subst (asm) poll.simps) (auto split: if_splits)
qed

end
