(* ===== verification/Allocator.thy ===== *)
theory Allocator
  imports Machine
begin

text \<open>
  \<open>os/src/memory.c\<close> and \<open>os/include/memory.h\<close>: the chunk allocator.  A table of 64
  words, at the start of the free RAM, describes the chunks behind it; each word packs an
  occupied bit, a 15-bit chunk size and a 16-bit offset from \<open>USEABLE_MEM_START\<close>.
\<close>

section \<open>Table entries (union MemoryEntry)\<close>

definition is_occupied :: "u32 \<Rightarrow> bool" where
  "is_occupied e \<longleftrightarrow> e AND 1 \<noteq> 0"

definition chunk_size :: "u32 \<Rightarrow> 15 word" where
  "chunk_size e = ucast (drop_bit 1 e)"

definition base_offset :: "u32 \<Rightarrow> u16" where
  "base_offset e = ucast (drop_bit 16 e)"

definition set_is_occupied :: "1 word \<Rightarrow> u32 \<Rightarrow> u32" where
  "set_is_occupied v e = (e AND NOT 1) OR ucast v"

definition set_chunk_size :: "15 word \<Rightarrow> u32 \<Rightarrow> u32" where
  "set_chunk_size v e = (e AND NOT 0xFFFE) OR push_bit 1 (ucast v)"

definition set_base_offset :: "u16 \<Rightarrow> u32 \<Rightarrow> u32" where
  "set_base_offset v e = (e AND 0xFFFF) OR push_bit 16 (ucast v)"

lemma bit_1: "bit (1 :: u32) n \<longleftrightarrow> n = 0"
  by (simp add: bit_1_iff)

lemma bit_0xFFFE: "bit (0xFFFE :: u32) n \<longleftrightarrow> 1 \<le> n \<and> n < 16"
proof -
  have "(0xFFFE :: u32) = push_bit 1 (mask 15)" by (simp add: mask_eq_exp_minus_1)
  then have "bit (0xFFFE :: u32) n \<longleftrightarrow> bit (push_bit 1 (mask 15 :: u32)) n" by (rule arg_cong)
  also have "\<dots> \<longleftrightarrow> 1 \<le> n \<and> n < 16" unfolding bit_push_bit_iff bit_mask_iff by auto
  finally show ?thesis .
qed

lemma bit_0xFFFF: "bit (0xFFFF :: u32) n \<longleftrightarrow> n < 16"
proof -
  have "(0xFFFF :: u32) = mask 16" by (simp add: mask_eq_exp_minus_1)
  then have "bit (0xFFFF :: u32) n \<longleftrightarrow> bit (mask 16 :: u32) n" by (rule arg_cong)
  also have "\<dots> \<longleftrightarrow> n < 16" unfolding bit_mask_iff by auto
  finally show ?thesis .
qed

lemma is_occupied_bit: "is_occupied e \<longleftrightarrow> bit e 0"
  by (simp add: is_occupied_def bit_0 even_iff_mod_2_eq_zero and_one_eq odd_iff_mod_2_eq_one)

lemma entry_bits:
  "bit (chunk_size e) n \<longleftrightarrow> n < 15 \<and> bit e (n + 1)"
  "bit (base_offset e) n \<longleftrightarrow> n < 16 \<and> bit e (n + 16)"
  "bit (set_is_occupied v e) n \<longleftrightarrow> (if n = 0 then bit v 0 else bit e n)"
  "bit (set_chunk_size c e) n \<longleftrightarrow> (if 1 \<le> n \<and> n < 16 then bit c (n - 1) else bit e n)"
  "bit (set_base_offset b e) n \<longleftrightarrow> (if 16 \<le> n then n < 32 \<and> bit b (n - 16) else bit e n)"
  subgoal by (auto simp: chunk_size_def bit_simps)
  subgoal by (auto simp: base_offset_def bit_simps add.commute)
  subgoal by (cases n) (auto simp: set_is_occupied_def bit_simps bit_1 dest: bit_imp_le_length)
  subgoal
    unfolding set_chunk_size_def bit_or_iff bit_and_iff bit_not_iff bit_push_bit_iff bit_0xFFFE
      bit_unsigned_iff
    by (auto dest: bit_imp_le_length)
  subgoal
    unfolding set_base_offset_def bit_or_iff bit_and_iff bit_push_bit_iff bit_0xFFFF
      bit_unsigned_iff
    by (auto dest: bit_imp_le_length)
  done

lemma bit_1word: "bit (v :: 1 word) 0 \<longleftrightarrow> v = 1"
proof
  assume "bit v 0"
  then show "v = 1" by (intro bit_word_eqI) (simp add: bit_1_iff)
qed (simp add: bit_1_iff)

lemma entry_fields [simp]:
  "chunk_size (set_chunk_size c e) = c"
  "base_offset (set_chunk_size c e) = base_offset e"
  "is_occupied (set_chunk_size c e) = is_occupied e"
  "chunk_size (set_base_offset b e) = chunk_size e"
  "base_offset (set_base_offset b e) = b"
  "is_occupied (set_base_offset b e) = is_occupied e"
  "chunk_size (set_is_occupied v e) = chunk_size e"
  "base_offset (set_is_occupied v e) = base_offset e"
  "is_occupied (set_is_occupied v e) \<longleftrightarrow> v = 1"
  subgoal by (rule bit_word_eqI) (auto simp: entry_bits)
  subgoal by (rule bit_word_eqI) (auto simp: entry_bits)
  subgoal by (simp add: is_occupied_bit entry_bits)
  subgoal by (rule bit_word_eqI) (auto simp: entry_bits)
  subgoal by (rule bit_word_eqI) (auto simp: entry_bits)
  subgoal by (simp add: is_occupied_bit entry_bits)
  subgoal by (rule bit_word_eqI) (auto simp: entry_bits)
  subgoal by (rule bit_word_eqI) (auto simp: entry_bits)
  subgoal by (auto simp: is_occupied_bit entry_bits bit_1word)
  done

lemma entry_eqI:
  assumes "is_occupied d = is_occupied e" "chunk_size d = chunk_size e"
    "base_offset d = base_offset e"
  shows "d = e"
proof (rule bit_word_eqI)
  fix n assume n: "n < LENGTH(32)"
  have s: "bit d (m + 1) = bit e (m + 1)" if "m < 15" for m
    using assms(2) entry_bits(1) [of d m] entry_bits(1) [of e m] that by simp
  have b: "bit d (m + 16) = bit e (m + 16)" if "m < 16" for m
    using assms(3) entry_bits(2) [of d m] entry_bits(2) [of e m] that by simp
  show "bit d n = bit e n"
  proof (cases "n = 0")
    case True
    with assms(1) show ?thesis by (simp add: is_occupied_bit)
  next
    case False
    then show ?thesis
      using s [of "n - 1"] b [of "n - 16"] n by (cases "n < 16") auto
  qed
qed


section \<open>State\<close>

record MemoryStatisticLocal =
  num_of_allocs :: u32
  num_of_deallocs :: u32
  ram_size :: u32

text \<open>
  \<open>MEM_TABLE\<close> is the array of words at \<open>MEM_TABLE_START\<close>.  \<open>lock_r1\<close> is what register r1
  holds when \<open>lock_mutex\<close> is entered: the assembly stores it into the mutex.
\<close>

record alloc_state = machine +
  MEM_TABLE :: "u32 list"
  MEM_TABLE_START :: addr
  USEABLE_MEM_START :: addr
  mutex :: u32
  lock_r1 :: u32
  mstat_local :: MemoryStatisticLocal

abbreviation (input) NUM_OF_SLOTS :: nat where "NUM_OF_SLOTS \<equiv> 64"

section \<open>The mutex (os/src/mutex.s)\<close>

text \<open>
  \<open>lock_mutex\<close> in a run without interference: it loops while the mutex reads 1, then
  stores r1.  The interleaved protocol is the subject of theory \<open>Mutex\<close>.
\<close>

definition lock_mutex :: "'z alloc_state_scheme \<Rightarrow> 'z alloc_state_scheme res" where
  "lock_mutex s = (if mutex s = 1 then Inl Spin else Inr (s\<lparr>mutex := lock_r1 s\<rparr>))"

definition release_mutex :: "'z alloc_state_scheme \<Rightarrow> 'z alloc_state_scheme" where
  "release_mutex s = s\<lparr>mutex := 0\<rparr>"

section \<open>Rounding loops\<close>

text \<open>\<open>while (x % m != 0) x++;\<close> on an unsigned value of any width.\<close>

function round_loop :: "'a::len word \<Rightarrow> 'a word \<Rightarrow> 'a word" where
  "round_loop m x = (if x mod m = 0 then x else round_loop m (x + 1))"
  by pat_completeness auto
termination
proof (relation "measure (\<lambda>(m, x). unat (- x))", goal_cases)
  case (2 m x)
  then have "x \<noteq> 0" by auto
  then have "- x \<noteq> 0" by simp
  then have "unat (- x - 1) < unat (- x)"
    by (metis diff_add_cancel less_add_one linorder_not_less measure_unat)
  then show ?case by simp
qed simp

declare round_loop.simps [simp del]

section \<open>Operations\<close>

definition init_allocator ::
  "u32 \<Rightarrow> u32 \<Rightarrow> 'z alloc_state_scheme \<Rightarrow> 'z alloc_state_scheme" where
  "init_allocator start_os_section ram s =
     (let start = round_loop 8 start_os_section in
      s\<lparr>MEM_TABLE_START := start,
        USEABLE_MEM_START := start + 4 * of_nat NUM_OF_SLOTS,
        MEM_TABLE := replicate NUM_OF_SLOTS 0x0000FFFE,
        mutex := 0,
        mstat_local := (mstat_local s)\<lparr>ram_size := ram\<rparr>\<rparr>)"

definition count_alloc :: "'z alloc_state_scheme \<Rightarrow> 'z alloc_state_scheme" where
  "count_alloc s =
     (if DEBUG s \<noteq> 0
      then s\<lparr>mstat_local := (mstat_local s)\<lparr>num_of_allocs := num_of_allocs (mstat_local s) + 1\<rparr>\<rparr>
      else s)"

definition count_dealloc :: "'z alloc_state_scheme \<Rightarrow> 'z alloc_state_scheme" where
  "count_dealloc s =
     (if DEBUG s \<noteq> 0
      then s\<lparr>mstat_local := (mstat_local s)\<lparr>num_of_deallocs := num_of_deallocs (mstat_local s) + 1\<rparr>\<rparr>
      else s)"

text \<open>The entry the reuse branch of \<open>allocate\<close> writes.\<close>

definition reuse_entry :: "u32 \<Rightarrow> u32" where
  "reuse_entry e =
     (let old_size = chunk_size e;
          e1 = set_is_occupied 0 (set_chunk_size 0 e)
      in (e1 AND 0xFFFF0000) OR (push_bit 1 (ucast old_size) OR 1))"

text \<open>
  The entry the branch for a fresh chunk writes: offset and size are cut to their fields,
  and the rounding to 8 happens inside the 15-bit field.
\<close>

definition fresh_entry :: "u32 \<Rightarrow> u32 \<Rightarrow> u32 \<Rightarrow> u32" where
  "fresh_entry next_useable_chunk sz e =
     (let e1 = set_base_offset (ucast next_useable_chunk) e;
          e2 = set_chunk_size (ucast sz) e1;
          e3 = set_chunk_size (round_loop 8 (chunk_size e2)) e2
      in set_is_occupied 1 e3)"

function allocate_loop ::
  "u32 \<Rightarrow> nat \<Rightarrow> u32 \<Rightarrow> 'z alloc_state_scheme \<Rightarrow> (addr \<times> 'z alloc_state_scheme) res" where
  "allocate_loop sz index next_useable_chunk s =
     (if index < NUM_OF_SLOTS then
        bnd (rd (MEM_TABLE s) (int index)) (\<lambda>e.
          if is_occupied e
          then allocate_loop sz (index + 1) (next_useable_chunk + ucast (chunk_size e)) s
          else if chunk_size e \<noteq> 0x7FFF \<and> sz \<le> ucast (chunk_size e) then
            bnd (wr (MEM_TABLE s) (int index) (reuse_entry e)) (\<lambda>T.
              let s1 = release_mutex (count_alloc (s\<lparr>MEM_TABLE := T\<rparr>))
              in Inr (drop_bit 16 (reuse_entry e) + USEABLE_MEM_START s, s1))
          else if sz \<le> ucast (chunk_size e) then
            bnd (wr (MEM_TABLE s) (int index) (fresh_entry next_useable_chunk sz e)) (\<lambda>T.
              let s1 = ST_ENABLE (release_mutex (count_alloc (s\<lparr>MEM_TABLE := T\<rparr>)))
              in Inr (ucast (base_offset (fresh_entry next_useable_chunk sz e))
                        + USEABLE_MEM_START s, s1))
          else allocate_loop sz (index + 1) (next_useable_chunk + ucast (chunk_size e)) s)
      else Inr (NULL, ST_ENABLE (release_mutex s)))"
  by pat_completeness auto
termination
  by (relation "measure (\<lambda>(z, index, n, s). NUM_OF_SLOTS - index)") auto

declare allocate_loop.simps [simp del]

text \<open>The early return for an impossible size leaves the mutex locked and SysTick off.\<close>

definition allocate :: "u32 \<Rightarrow> 'z alloc_state_scheme \<Rightarrow> (addr \<times> 'z alloc_state_scheme) res" where
  "allocate sz s =
     bnd (lock_mutex (ST_DISABLE s)) (\<lambda>s1.
       if sz = 0 \<or> 32768 < sz then Inr (NULL, s1)
       else allocate_loop (round_loop 4 sz) 0 0 s1)"

function deallocate_loop ::
  "u32 \<Rightarrow> nat \<Rightarrow> 'z alloc_state_scheme \<Rightarrow> (u32 \<times> 'z alloc_state_scheme) res" where
  "deallocate_loop address_offset index s =
     (if index < NUM_OF_SLOTS then
        bnd (rd (MEM_TABLE s) (int index)) (\<lambda>alloc_entry.
          if drop_bit 16 alloc_entry = address_offset then
            bnd (wr (MEM_TABLE s) (int index) (alloc_entry AND NOT 1)) (\<lambda>T.
              Inr (1, release_mutex ((count_dealloc s)\<lparr>MEM_TABLE := T\<rparr>)))
          else deallocate_loop address_offset (index + 1) s)
      else Inr (0, release_mutex s))"
  by pat_completeness auto
termination
  by (relation "measure (\<lambda>(a, index, s). NUM_OF_SLOTS - index)") auto

declare deallocate_loop.simps [simp del]

definition deallocate :: "addr \<Rightarrow> 'z alloc_state_scheme \<Rightarrow> (u32 \<times> 'z alloc_state_scheme) res" where
  "deallocate address s =
     bnd (lock_mutex s) (\<lambda>s1. deallocate_loop (address - USEABLE_MEM_START s) 0 s1)"

end
