(* ===== verification/Allocator_Spec.thy ===== *)
theory Allocator_Spec
  imports Allocator
begin

text \<open>
  What the allocator of theory \<open>Allocator\<close> promises: its table invariant, a closed form of
  the search loop, and the contract of \<open>allocate\<close> and \<open>deallocate\<close> as a locale that
  clients use, interpreted on the model's own operations.
\<close>

section \<open>Rounding\<close>

definition align_nat :: "nat \<Rightarrow> nat \<Rightarrow> nat" where
  "align_nat m n = (n + (m - 1)) div m * m"

lemma align_nat_dvd [simp]: "m dvd align_nat m n"
  by (simp add: align_nat_def)

lemma align_nat_bounds: "0 < m \<Longrightarrow> n \<le> align_nat m n \<and> align_nat m n < n + m"
proof -
  assume m: "0 < m"
  have "align_nat m n + (n + (m - 1)) mod m = n + (m - 1)"
    unfolding align_nat_def by (rule div_mult_mod_eq)
  moreover have "(n + (m - 1)) mod m < m" using m by simp
  ultimately show ?thesis using m by linarith
qed

lemma align_nat_unique:
  assumes "0 < m" "m dvd r" "n \<le> r" "r < n + m"
  shows "align_nat m n = r"
proof -
  obtain k where k: "r = m * k" using assms(2) by blast
  obtain l where l: "align_nat m n = m * l" using align_nat_dvd by blast
  have "m * l < m * (k + 1)" "m * k < m * (l + 1)"
    using align_nat_bounds [OF assms(1), of n] assms(3,4) by (simp_all flip: k l)
  then have "l < k + 1" "k < l + 1" by (simp_all only: mult_less_cancel1)
  then have "k = l" by simp
  with k l show ?thesis by simp
qed

lemma round_loop_unat:
  fixes x m :: "'a::len word"
  assumes "0 < unat m" "align_nat (unat m) (unat x) < 2 ^ LENGTH('a)"
  shows "unat (round_loop m x) = align_nat (unat m) (unat x)"
  using assms
proof (induction m x rule: round_loop.induct)
  case (1 m x)
  show ?case
  proof (cases "x mod m = 0")
    case True
    then have "unat m dvd unat x" by (metis mod_0_imp_dvd unat_0 unat_mod_distrib)
    then have "align_nat (unat m) (unat x) = unat x"
      using "1.prems" by (intro align_nat_unique) auto
    with True show ?thesis by (simp add: round_loop.simps [of m x])
  next
    case False
    then have nd: "\<not> unat m dvd unat x"
      by (metis dvd_eq_mod_eq_0 unat_eq_zero unat_mod_distrib)
    then have "unat x \<noteq> align_nat (unat m) (unat x)" by (metis align_nat_dvd)
    with align_nat_bounds [OF "1.prems"(1), of "unat x"]
    have lt: "unat x + 1 \<le> align_nat (unat m) (unat x)" by simp
    then have x1: "unat (x + 1) = unat x + 1"
      using "1.prems"(2) by (simp add: unat_word_ariths)
    have al: "align_nat (unat m) (unat x + 1) = align_nat (unat m) (unat x)"
      using align_nat_bounds [OF "1.prems"(1), of "unat x"] lt "1.prems"(1)
      by (intro align_nat_unique) auto
    from "1.IH" [OF False "1.prems"(1)] "1.prems"(2) x1 al False show ?thesis
      by (simp add: round_loop.simps [of m x])
  qed
qed

section \<open>Entries\<close>

abbreviation FREE_ENTRY :: u32 where "FREE_ENTRY \<equiv> 0x0000FFFE"

abbreviation chunk_len :: "u32 \<Rightarrow> nat" where "chunk_len e \<equiv> unat (chunk_size e)"
abbreviation chunk_off :: "u32 \<Rightarrow> nat" where "chunk_off e \<equiv> unat (base_offset e)"

lemma FREE_ENTRY_fields [simp]:
  "\<not> is_occupied FREE_ENTRY" "chunk_size FREE_ENTRY = 0x7FFF" "base_offset FREE_ENTRY = 0"
  by (simp_all add: is_occupied_def chunk_size_def base_offset_def)

lemma chunk_len_bound: "chunk_len e < 32768"
  using unsigned_less [of "chunk_size e"] by simp

lemma chunk_off_bound: "chunk_off e < 65536"
  using unsigned_less [of "base_offset e"] by simp

lemma reuse_entry_eq: "reuse_entry e = set_is_occupied 1 e"
proof (rule bit_word_eqI)
  fix n assume n: "n < LENGTH(32)"
  have high: "bit (0xFFFF0000 :: u32) n \<longleftrightarrow> 16 \<le> n"
  proof -
    have "(0xFFFF0000 :: u32) = NOT 0xFFFF" by simp
    then have "bit (0xFFFF0000 :: u32) n \<longleftrightarrow> bit (NOT 0xFFFF :: u32) n" by (rule arg_cong)
    also have "\<dots> \<longleftrightarrow> 16 \<le> n" unfolding bit_not_iff bit_0xFFFF using n by auto
    finally show ?thesis .
  qed
  show "bit (reuse_entry e) n = bit (set_is_occupied 1 e) n"
    unfolding reuse_entry_def Let_def bit_or_iff bit_and_iff bit_push_bit_iff bit_unsigned_iff
      entry_bits bit_1 high
    using n by (auto simp: bit_1_iff)
qed

lemma drop_base_offset: "drop_bit 16 e = ucast (base_offset e)" for e :: u32
  unfolding base_offset_def
  by (rule bit_word_eqI) (auto simp: bit_simps dest: bit_imp_le_length)

lemma clear_occupied: "e AND NOT 1 = set_is_occupied 0 e" for e :: u32
  by (simp add: set_is_occupied_def)

lemma fresh_entry_fields:
  "is_occupied (fresh_entry n sz e)"
  "base_offset (fresh_entry n sz e) = ucast n"
  "chunk_size (fresh_entry n sz e) = round_loop 8 (ucast sz)"
  by (simp_all add: fresh_entry_def Let_def)

lemma fresh_entry_len:
  assumes "unat sz \<le> 32760"
  shows "chunk_len (fresh_entry n sz e) = align_nat 8 (unat sz)"
proof -
  have "align_nat 8 (unat sz) < 32768"
    using assms by (simp add: align_nat_def)
  moreover have "unat (ucast sz :: 15 word) = unat sz"
    using assms by (simp add: unsigned_ucast_eq take_bit_nat_eq_self)
  ultimately show ?thesis
    using round_loop_unat [of "8 :: 15 word" "ucast sz"] by (simp add: fresh_entry_fields)
qed


section \<open>The search loop in closed form\<close>

text \<open>A chunk that is free and large enough is taken again; the first one wins.\<close>

definition fits :: "u32 \<Rightarrow> u32 \<Rightarrow> bool" where
  "fits sz e \<longleftrightarrow> \<not> is_occupied e \<and> unat sz \<le> chunk_len e"

fun first_fit :: "u32 \<Rightarrow> u32 list \<Rightarrow> nat option" where
  "first_fit sz [] = None"
| "first_fit sz (e # es) = (if fits sz e then Some 0 else map_option Suc (first_fit sz es))"

lemma first_fit_Some:
  "first_fit sz es = Some i \<Longrightarrow> i < length es \<and> fits sz (es ! i)"
  by (induction es arbitrary: i) (auto split: if_splits)

lemma first_fit_None: "first_fit sz es = None \<longleftrightarrow> (\<forall>e\<in>set es. \<not> fits sz e)"
  by (induction es) auto

definition total_len :: "u32 list \<Rightarrow> nat" where
  "total_len es = sum_list (map chunk_len es)"

lemma total_simps [simp]:
  "total_len [] = 0" "total_len (e # es) = chunk_len e + total_len es" "total_len (es @ fs) = total_len es + total_len fs"
  by (simp_all add: total_len_def)

lemma le_ucast_chunk: "sz \<le> (ucast (chunk_size e) :: u32) \<longleftrightarrow> unat sz \<le> chunk_len e"
  using chunk_len_bound [of e]
  by (simp add: word_le_nat_alt unsigned_ucast_eq take_bit_nat_eq_self)

definition reuse_result :: "nat \<Rightarrow> 'z alloc_state_scheme \<Rightarrow> addr \<times> 'z alloc_state_scheme" where
  "reuse_result i s =
     (let e = set_is_occupied 1 (MEM_TABLE s ! i)
      in (ucast (base_offset e) + USEABLE_MEM_START s,
          release_mutex (count_alloc (s\<lparr>MEM_TABLE := (MEM_TABLE s)[i := e]\<rparr>))))"

definition fresh_result ::
  "u32 \<Rightarrow> nat \<Rightarrow> u32 \<Rightarrow> 'z alloc_state_scheme \<Rightarrow> addr \<times> 'z alloc_state_scheme" where
  "fresh_result sz i off s =
     (let e = fresh_entry off sz (MEM_TABLE s ! i)
      in (ucast (base_offset e) + USEABLE_MEM_START s,
          ST_ENABLE (release_mutex (count_alloc (s\<lparr>MEM_TABLE := (MEM_TABLE s)[i := e]\<rparr>)))))"

lemma allocate_loop_closed_gen:
  assumes "MEM_TABLE s = pre @ es @ replicate k FREE_ENTRY"
    and "length pre + length es + k = NUM_OF_SLOTS"
    and "\<forall>e\<in>set es. chunk_size e \<noteq> 0x7FFF" and "unat sz \<le> 32767"
  shows "allocate_loop sz (length pre) n s =
    Inr (case first_fit sz es of
           Some i \<Rightarrow> reuse_result (length pre + i) s
         | None \<Rightarrow> if k = 0 then (NULL, ST_ENABLE (release_mutex s))
                   else fresh_result sz (length pre + length es) (n + of_nat (total_len es)) s)"
  using assms
proof (induction es arbitrary: pre n)
  case Nil
  show ?case
  proof (cases "k = 0")
    case True
    with Nil show ?thesis by (simp add: allocate_loop.simps)
  next
    case False
    then have "MEM_TABLE s ! length pre = FREE_ENTRY" using Nil by (simp add: nth_append)
    with Nil False show ?thesis
      by (simp add: allocate_loop.simps [of _ "length pre"] word_le_nat_alt fresh_result_def Let_def)
  qed
next
  case (Cons e es)
  have idx: "MEM_TABLE s ! length pre = e" "length pre < length (MEM_TABLE s)"
    "length pre < NUM_OF_SLOTS"
    using Cons.prems by (simp_all add: nth_append)
  have IH: "allocate_loop sz (length (pre @ [e])) (n + ucast (chunk_size e)) s =
    Inr (case first_fit sz es of
           Some i \<Rightarrow> reuse_result (length (pre @ [e]) + i) s
         | None \<Rightarrow> if k = 0 then (NULL, ST_ENABLE (release_mutex s))
                   else fresh_result sz (length (pre @ [e]) + length es)
                          (n + ucast (chunk_size e) + of_nat (total_len es)) s)"
    using Cons.prems by (intro Cons.IH) auto
  show ?case
  proof (cases "fits sz e")
    case True
    then have "allocate_loop sz (length pre) n s = Inr (reuse_result (length pre) s)"
      using idx Cons.prems(3)
      by (simp add: allocate_loop.simps [of _ "length pre"] fits_def le_ucast_chunk
          reuse_result_def Let_def reuse_entry_eq drop_base_offset)
    with True show ?thesis by simp
  next
    case False
    have ne: "chunk_size e \<noteq> 0x7FFF" using Cons.prems(3) by simp
    have "allocate_loop sz (length pre) n s =
        allocate_loop sz (length (pre @ [e])) (n + ucast (chunk_size e)) s"
      using False ne idx
      by (subst allocate_loop.simps) (auto simp: fits_def le_ucast_chunk)
    with False show ?thesis
      by (simp only: IH) (simp add: add.assoc split: option.split)
  qed
qed


section \<open>The table invariant\<close>

text \<open>
  The used entries fill the table from the front, describe adjacent non-empty chunks whose
  sizes are multiples of 8, and the rest of the table is untouched.
\<close>

fun laid_out :: "nat \<Rightarrow> u32 list \<Rightarrow> bool" where
  "laid_out off [] \<longleftrightarrow> True"
| "laid_out off (e # es) \<longleftrightarrow>
     chunk_off e = off \<and> 0 < chunk_len e \<and> 8 dvd chunk_len e \<and> laid_out (off + chunk_len e) es"

definition used_entries :: "'z alloc_state_scheme \<Rightarrow> u32 list" where
  "used_entries s = takeWhile (\<lambda>e. e \<noteq> FREE_ENTRY) (MEM_TABLE s)"

definition alloc_inv :: "'z alloc_state_scheme \<Rightarrow> bool" where
  "alloc_inv s \<longleftrightarrow>
     length (used_entries s) \<le> NUM_OF_SLOTS \<and>
     MEM_TABLE s = used_entries s @ replicate (NUM_OF_SLOTS - length (used_entries s)) FREE_ENTRY \<and>
     laid_out 0 (used_entries s) \<and> total_len (used_entries s) \<le> 65536 \<and>
     8 dvd unat (USEABLE_MEM_START s) \<and> 0 < unat (USEABLE_MEM_START s) \<and>
     unat (USEABLE_MEM_START s) + 65536 \<le> 2 ^ 32"

lemma laid_out_append [simp]:
  "laid_out off (es @ fs) \<longleftrightarrow> laid_out off es \<and> laid_out (off + total_len es) fs"
  by (induction es arbitrary: off) (auto simp: add.assoc)

lemma laid_out_not_free: "laid_out off es \<Longrightarrow> e \<in> set es \<Longrightarrow> chunk_size e \<noteq> 0x7FFF"
proof (induction es arbitrary: off)
  case (Cons d es)
  show ?case
  proof (cases "e = d")
    case True
    with Cons.prems(1) have "8 dvd chunk_len e" by simp
    moreover have "\<not> 8 dvd unat (0x7FFF :: 15 word)" by simp
    ultimately show ?thesis by metis
  next
    case False
    with Cons show ?thesis by auto
  qed
qed simp

lemma laid_out_no_free_entry: "laid_out off es \<Longrightarrow> FREE_ENTRY \<notin> set es"
  using laid_out_not_free FREE_ENTRY_fields(2) by blast

lemma laid_out_nth:
  "laid_out off es \<Longrightarrow> i < length es \<Longrightarrow> chunk_off (es ! i) = off + total_len (take i es)"
proof (induction es arbitrary: off i)
  case (Cons e es)
  then show ?case by (cases i) auto
qed simp

lemma laid_out_nth_len:
  "laid_out off es \<Longrightarrow> i < length es \<Longrightarrow> 0 < chunk_len (es ! i) \<and> 8 dvd chunk_len (es ! i)"
proof (induction es arbitrary: off i)
  case (Cons e es)
  then show ?case by (cases i) auto
qed simp

lemma laid_out_total_dvd: "laid_out off es \<Longrightarrow> 8 dvd total_len es"
  by (induction es arbitrary: off) auto

lemma total_take_Suc: "i < length es \<Longrightarrow> total_len (take (Suc i) es) = total_len (take i es) + chunk_len (es ! i)"
  by (simp add: take_Suc_conv_app_nth)

lemma total_take_mono: "i \<le> j \<Longrightarrow> total_len (take i es) \<le> total_len (take j es)"
  by (metis le_add1 le_add_diff_inverse take_add total_simps(3))

text \<open>Changing the occupied bit of one entry changes nothing else.\<close>

lemma total_set_occupied [simp]:
  "i < length es \<Longrightarrow> total_len (es[i := set_is_occupied v (es ! i)]) = total_len es"
proof (induction es arbitrary: i)
  case (Cons e es)
  then show ?case by (cases i) auto
qed simp

lemma laid_out_set_occupied [simp]:
  "i < length es \<Longrightarrow> laid_out off (es[i := set_is_occupied v (es ! i)]) = laid_out off es"
proof (induction es arbitrary: off i)
  case (Cons e es)
  then show ?case by (cases i) auto
qed simp

lemma used_entries_eqI:
  assumes "MEM_TABLE s = es @ replicate k FREE_ENTRY" "laid_out 0 es"
  shows "used_entries s = es"
proof -
  have "\<forall>e\<in>set es. e \<noteq> FREE_ENTRY" using laid_out_no_free_entry [OF assms(2)] by blast
  then have "takeWhile (\<lambda>e. e \<noteq> FREE_ENTRY) (es @ replicate k FREE_ENTRY) =
      es @ takeWhile (\<lambda>e. e \<noteq> FREE_ENTRY) (replicate k FREE_ENTRY)"
    by (rule takeWhile_append2 [OF bspec])
  then show ?thesis by (cases k) (simp_all add: used_entries_def assms(1))
qed

lemma alloc_invI:
  assumes "MEM_TABLE s = es @ replicate (NUM_OF_SLOTS - length es) FREE_ENTRY"
    and "length es \<le> NUM_OF_SLOTS" "laid_out 0 es" "total_len es \<le> 65536"
    and "8 dvd unat (USEABLE_MEM_START s)" "0 < unat (USEABLE_MEM_START s)"
      "unat (USEABLE_MEM_START s) + 65536 \<le> 2 ^ 32"
  shows "alloc_inv s" "used_entries s = es"
  using used_entries_eqI [OF assms(1,3)] assms by (simp_all add: alloc_inv_def)


section \<open>What an operation of the allocator may change\<close>

definition alloc_frame :: "'z alloc_state_scheme \<Rightarrow> 'z alloc_state_scheme \<Rightarrow> bool" where
  "alloc_frame s s' \<longleftrightarrow>
     s' = s\<lparr>mmio := mmio s', inputs := inputs s', writes := writes s',
            MEM_TABLE := MEM_TABLE s', mutex := mutex s', mstat_local := mstat_local s'\<rparr>"

lemma MODIFY_alloc_sel [simp]:
  "MEM_TABLE (MODIFY_REGISTER a f s) = MEM_TABLE s"
  "MEM_TABLE_START (MODIFY_REGISTER a f s) = MEM_TABLE_START s"
  "USEABLE_MEM_START (MODIFY_REGISTER a f s) = USEABLE_MEM_START s"
  "mutex (MODIFY_REGISTER a f s) = mutex s"
  "lock_r1 (MODIFY_REGISTER a f s) = lock_r1 s"
  "mstat_local (MODIFY_REGISTER a f s) = mstat_local s"
  using MODIFY_shape [of a f s] by auto

lemma alloc_frame_trans: "alloc_frame s t \<Longrightarrow> alloc_frame t u \<Longrightarrow> alloc_frame s u"
  by (cases s; cases t; cases u) (simp add: alloc_frame_def)

lemma alloc_frame_refl [simp]: "alloc_frame s s"
  by (simp add: alloc_frame_def)

lemma alloc_frame_MODIFY [simp]: "alloc_frame s (MODIFY_REGISTER a f s)"
proof -
  obtain m i w where "MODIFY_REGISTER a f s = s\<lparr>mmio := m, inputs := i, writes := w\<rparr>"
    using MODIFY_shape by blast
  then show ?thesis by (cases s) (simp add: alloc_frame_def)
qed

lemma alloc_frame_simps [simp]:
  "alloc_frame s (ST_DISABLE s)" "alloc_frame s (ST_ENABLE s)" "alloc_frame s (release_mutex s)"
  "alloc_frame s (count_alloc s)" "alloc_frame s (count_dealloc s)"
  "alloc_frame s (s\<lparr>MEM_TABLE := T\<rparr>)" "alloc_frame s (s\<lparr>mutex := m\<rparr>)"
  by (simp_all add: ST_DISABLE_def ST_ENABLE_def)
     (simp_all add: alloc_frame_def release_mutex_def count_alloc_def count_dealloc_def)

lemma alloc_frame_sel:
  assumes "alloc_frame s s'"
  shows "DEBUG s' = DEBUG s" "SYSTICK s' = SYSTICK s" "MEM_TABLE_START s' = MEM_TABLE_START s"
    "USEABLE_MEM_START s' = USEABLE_MEM_START s" "lock_r1 s' = lock_r1 s"
    "alloc_state.more s' = alloc_state.more s"
  using assms by (cases s; cases s'; simp add: alloc_frame_def)+

section \<open>Live chunks\<close>

definition chunk_addr :: "'z alloc_state_scheme \<Rightarrow> u32 \<Rightarrow> addr" where
  "chunk_addr s e = ucast (base_offset e) + USEABLE_MEM_START s"

definition live :: "'z alloc_state_scheme \<Rightarrow> (addr \<times> nat) set" where
  "live s = (\<lambda>e. (chunk_addr s e, chunk_len e)) ` set (filter is_occupied (used_entries s))"

definition disjoint_chunks :: "addr \<times> nat \<Rightarrow> addr \<times> nat \<Rightarrow> bool" where
  "disjoint_chunks c d \<longleftrightarrow>
     unat (fst c) + snd c \<le> unat (fst d) \<or> unat (fst d) + snd d \<le> unat (fst c)"

lemma unat_chunk_addr:
  "alloc_inv s \<Longrightarrow> unat (chunk_addr s e) = chunk_off e + unat (USEABLE_MEM_START s)"
  using chunk_off_bound [of e]
  by (simp add: chunk_addr_def alloc_inv_def unat_word_ariths unsigned_ucast_eq
      take_bit_nat_eq_self)

lemma chunk_addr_inj:
  "alloc_inv s \<Longrightarrow> chunk_addr s d = chunk_addr s e \<Longrightarrow> chunk_off d = chunk_off e"
  using unat_chunk_addr [of s d] unat_chunk_addr [of s e] by simp

lemma laid_out_before:
  assumes "laid_out off es" "i < j" "j < length es"
  shows "chunk_off (es ! i) + chunk_len (es ! i) \<le> chunk_off (es ! j)"
proof -
  have "chunk_off (es ! i) + chunk_len (es ! i) = off + total_len (take (Suc i) es)"
    using assms by (simp add: laid_out_nth total_take_Suc)
  also have "\<dots> \<le> off + total_len (take j es)" using assms(2) by (simp add: total_take_mono)
  also have "\<dots> = chunk_off (es ! j)" using assms by (simp add: laid_out_nth)
  finally show ?thesis .
qed

lemma laid_out_distinct_off:
  assumes "laid_out off es" "i < length es" "j < length es" "chunk_off (es ! i) = chunk_off (es ! j)"
  shows "i = j"
  using laid_out_before [OF assms(1), of i j] laid_out_before [OF assms(1), of j i]
    laid_out_nth_len [OF assms(1), of i] laid_out_nth_len [OF assms(1), of j] assms(2-4)
  by (cases i j rule: linorder_cases) auto

lemma live_memE:
  assumes "(a, n) \<in> live s"
  obtains i where "i < length (used_entries s)" "is_occupied (used_entries s ! i)"
    "a = chunk_addr s (used_entries s ! i)" "n = chunk_len (used_entries s ! i)"
  using assms unfolding live_def by (auto simp: in_set_conv_nth)

lemma live_disjoint:
  assumes inv: "alloc_inv s" and c: "(a, n) \<in> live s" "(b, m) \<in> live s" "(a, n) \<noteq> (b, m)"
  shows "disjoint_chunks (a, n) (b, m)"
proof -
  let ?es = "used_entries s"
  from c(1) obtain i where i: "i < length ?es" "a = chunk_addr s (?es ! i)" "n = chunk_len (?es ! i)"
    by (rule live_memE)
  from c(2) obtain j where j: "j < length ?es" "b = chunk_addr s (?es ! j)" "m = chunk_len (?es ! j)"
    by (rule live_memE)
  have lo: "laid_out 0 ?es" using inv by (simp add: alloc_inv_def)
  have "i \<noteq> j" using c(3) i j by auto
  then show ?thesis
    using laid_out_before [OF lo, of i j] laid_out_before [OF lo, of j i] i j
    by (cases i j rule: linorder_cases)
       (auto simp: disjoint_chunks_def unat_chunk_addr [OF inv])
qed

lemma live_chunk_ok:
  assumes inv: "alloc_inv s" and c: "(a, n) \<in> live s"
  shows "0 < n" "a \<noteq> NULL" "8 dvd unat a" "unat (USEABLE_MEM_START s) \<le> unat a"
proof -
  let ?es = "used_entries s"
  from c obtain i where i: "i < length ?es" "a = chunk_addr s (?es ! i)" "n = chunk_len (?es ! i)"
    by (rule live_memE)
  have lo: "laid_out 0 ?es" using inv by (simp add: alloc_inv_def)
  have ua: "unat a = chunk_off (?es ! i) + unat (USEABLE_MEM_START s)"
    using i by (simp add: unat_chunk_addr [OF inv])
  have "8 dvd chunk_off (?es ! i)"
    using laid_out_nth [OF lo i(1)] lo i(1)
    by (metis add_0 append_take_drop_id laid_out_append laid_out_total_dvd)
  with ua inv show "8 dvd unat a" by (simp add: alloc_inv_def)
  from ua inv have "0 < unat a" by (simp add: alloc_inv_def)
  then show "a \<noteq> NULL" by auto
  show "0 < n" using laid_out_nth_len [OF lo i(1)] i(3) by simp
  show "unat (USEABLE_MEM_START s) \<le> unat a" using ua by simp
qed


section \<open>Allocation\<close>

definition round4 :: "u32 \<Rightarrow> u32" where
  "round4 sz = round_loop 4 sz"

definition locked :: "'z alloc_state_scheme \<Rightarrow> 'z alloc_state_scheme" where
  "locked s = (ST_DISABLE s)\<lparr>mutex := lock_r1 s\<rparr>"

lemma locked_sel [simp]:
  "MEM_TABLE (locked s) = MEM_TABLE s" "USEABLE_MEM_START (locked s) = USEABLE_MEM_START s"
  "used_entries (locked s) = used_entries s" "mutex (locked s) = lock_r1 s"
  by (simp_all add: locked_def ST_DISABLE_def used_entries_def)

lemma alloc_frame_locked [simp]: "alloc_frame s (locked s)"
  unfolding locked_def by (rule alloc_frame_trans [of _ "ST_DISABLE s"]) simp_all

lemma round4_unat:
  assumes "unat sz \<le> 32760"
  shows "unat (round4 sz) = align_nat 4 (unat sz)"
  using assms align_nat_bounds [of 4 "unat sz"] round_loop_unat [of "4 :: u32" sz]
  by (simp add: round4_def)

lemma align_8_4: "align_nat 8 (align_nat 4 n) = align_nat 8 n"
proof (rule sym, rule align_nat_unique)
  have "n \<le> align_nat 4 n" "align_nat 4 n < n + 4" using align_nat_bounds [of 4 n] by simp_all
  moreover have b: "align_nat 4 n \<le> align_nat 8 (align_nat 4 n)"
    "align_nat 8 (align_nat 4 n) < align_nat 4 n + 8" using align_nat_bounds [of 8] by simp_all
  ultimately show "n \<le> align_nat 8 (align_nat 4 n)" by simp
  obtain k where k: "align_nat 4 n = 4 * k" using align_nat_dvd [of 4 n] by blast
  obtain l where l: "align_nat 8 (align_nat 4 n) = 8 * l" using align_nat_dvd [of 8] by blast
  have "8 * l < 4 * k + 8" using b(2) by (simp only: l) (simp only: k)
  moreover have "4 * k < n + 4" using \<open>align_nat 4 n < n + 4\<close> by (simp only: k)
  ultimately have "8 * l < n + 8" by presburger
  then show "align_nat 8 (align_nat 4 n) < n + 8" by (simp add: l)
qed simp_all

lemma round4_le: "unat sz \<le> 32760 \<Longrightarrow> unat (round4 sz) \<le> 32760"
proof -
  assume sz: "unat sz \<le> 32760"
  have "align_nat 4 (unat sz) \<le> align_nat 8 (unat sz)"
    using align_nat_bounds [of 8 "align_nat 4 (unat sz)"] by (simp add: align_8_4)
  also have "align_nat 8 (unat sz) \<le> 32760"
    using sz by (simp add: align_nat_def)
  finally show ?thesis by (simp add: round4_unat [OF sz])
qed

lemma allocate_closed:
  assumes inv: "alloc_inv s" and m: "mutex s \<noteq> 1" and sz: "0 < unat sz" "unat sz \<le> 32760"
  shows "allocate sz s =
    Inr (case first_fit (round4 sz) (used_entries s) of
           Some i \<Rightarrow> reuse_result i (locked s)
         | None \<Rightarrow>
             if length (used_entries s) = NUM_OF_SLOTS
             then (NULL, ST_ENABLE (release_mutex (locked s)))
             else fresh_result (round4 sz) (length (used_entries s))
                    (of_nat (total_len (used_entries s))) (locked s))"
proof -
  let ?es = "used_entries s"
  have "sz \<noteq> 0" "\<not> 32768 < sz" using sz by (auto simp: word_less_nat_alt)
  then have "allocate sz s = allocate_loop (round4 sz) (length ([] :: u32 list)) 0 (locked s)"
    using m by (simp add: allocate_def lock_mutex_def locked_def round4_def ST_DISABLE_def)
  also have "\<dots> = Inr (case first_fit (round4 sz) ?es of
           Some i \<Rightarrow> reuse_result (length ([] :: u32 list) + i) (locked s)
         | None \<Rightarrow> if NUM_OF_SLOTS - length ?es = 0 then (NULL, ST_ENABLE (release_mutex (locked s)))
                   else fresh_result (round4 sz) (length ([] :: u32 list) + length ?es)
                          (0 + of_nat (total_len ?es)) (locked s))"
  proof (rule allocate_loop_closed_gen)
    show "MEM_TABLE (locked s) = [] @ ?es @ replicate (NUM_OF_SLOTS - length ?es) FREE_ENTRY"
      using inv by (simp add: alloc_inv_def)
    show "length ([] :: u32 list) + length ?es + (NUM_OF_SLOTS - length ?es) = NUM_OF_SLOTS"
      using inv by (simp add: alloc_inv_def)
    show "\<forall>e\<in>set ?es. chunk_size e \<noteq> 0x7FFF"
      using inv laid_out_not_free by (auto simp: alloc_inv_def)
    show "unat (round4 sz) \<le> 32767" using round4_le [OF sz(2)] by simp
  qed
  finally show ?thesis using inv by (simp add: alloc_inv_def cong: option.case_cong if_cong)
qed


text \<open>What the reuse and the fresh branch do to the table.\<close>

definition table_room :: "u32 \<Rightarrow> 'z alloc_state_scheme \<Rightarrow> bool" where [simp]:
  "table_room sz s \<longleftrightarrow>
     0 < unat sz \<and> unat sz \<le> 32760 \<and> total_len (used_entries s) + align_nat 8 (unat sz) \<le> 65536"

lemma release_count_sel [simp]:
  "MEM_TABLE (release_mutex s) = MEM_TABLE s"
  "USEABLE_MEM_START (release_mutex s) = USEABLE_MEM_START s"
  "mutex (release_mutex s) = 0"
  "MEM_TABLE (count_alloc s) = MEM_TABLE s"
  "USEABLE_MEM_START (count_alloc s) = USEABLE_MEM_START s"
  "MEM_TABLE (count_dealloc s) = MEM_TABLE s"
  "USEABLE_MEM_START (count_dealloc s) = USEABLE_MEM_START s"
  "MEM_TABLE (ST_ENABLE s) = MEM_TABLE s"
  "USEABLE_MEM_START (ST_ENABLE s) = USEABLE_MEM_START s"
  "mutex (ST_ENABLE s) = mutex s"
  by (simp_all add: release_mutex_def count_alloc_def count_dealloc_def ST_ENABLE_def)

lemma alloc_inv_cong:
  "MEM_TABLE s' = MEM_TABLE s \<Longrightarrow> USEABLE_MEM_START s' = USEABLE_MEM_START s \<Longrightarrow>
   alloc_inv s' = alloc_inv s \<and> live s' = live s \<and> used_entries s' = used_entries s"
  by (simp add: alloc_inv_def live_def used_entries_def chunk_addr_def)

lemma alloc_inv_base:
  assumes "alloc_inv s"
  shows "8 dvd unat (USEABLE_MEM_START s)" "0 < unat (USEABLE_MEM_START s)"
    "unat (USEABLE_MEM_START s) + 65536 \<le> 2 ^ 32"
  using assms unfolding alloc_inv_def by blast+

lemma table_length: "alloc_inv s \<Longrightarrow> length (MEM_TABLE s) = NUM_OF_SLOTS"
proof -
  assume "alloc_inv s"
  then have T: "MEM_TABLE s = used_entries s @ replicate (NUM_OF_SLOTS - length (used_entries s)) FREE_ENTRY"
    and L: "length (used_entries s) \<le> NUM_OF_SLOTS" by (simp_all add: alloc_inv_def)
  show ?thesis by (subst T) (use L in simp)
qed

lemma table_nth:
  assumes "alloc_inv s"
  shows "i < length (used_entries s) \<Longrightarrow> MEM_TABLE s ! i = used_entries s ! i"
    "length (used_entries s) \<le> i \<Longrightarrow> i < NUM_OF_SLOTS \<Longrightarrow> MEM_TABLE s ! i = FREE_ENTRY"
proof -
  have T: "MEM_TABLE s = used_entries s @ replicate (NUM_OF_SLOTS - length (used_entries s)) FREE_ENTRY"
    using assms by (simp add: alloc_inv_def)
  show "i < length (used_entries s) \<Longrightarrow> MEM_TABLE s ! i = used_entries s ! i"
    by (subst T) (simp add: nth_append)
  show "length (used_entries s) \<le> i \<Longrightarrow> i < NUM_OF_SLOTS \<Longrightarrow> MEM_TABLE s ! i = FREE_ENTRY"
    by (subst T) (simp add: nth_append)
qed

lemma filter_update_insert:
  assumes "i < length es" "\<not> P (es ! i)" "P e'"
  shows "set (filter P (es[i := e'])) = insert e' (set (filter P es))"
proof -
  have "es[i := e'] = take i es @ e' # drop (Suc i) es" using assms(1) by (simp add: upd_conv_take_nth_drop)
  moreover have "es = take i es @ es ! i # drop (Suc i) es" using assms(1) by (simp add: id_take_nth_drop)
  then have "set (filter P es) = set (filter P (take i es)) \<union> set (filter P (drop (Suc i) es))"
    using assms(2) by (metis (no_types, lifting) filter.simps(2) filter_append set_append)
  ultimately show ?thesis using assms(3) by auto
qed

lemma set_occupied_chunk [simp]:
  "chunk_addr s (set_is_occupied v e) = chunk_addr s e"
  by (simp add: chunk_addr_def)

lemma live_update:
  assumes "alloc_inv s" "i < length (used_entries s)" "\<not> is_occupied (used_entries s ! i)"
    and T: "MEM_TABLE s' = (MEM_TABLE s)[i := set_is_occupied 1 (used_entries s ! i)]"
    and U: "USEABLE_MEM_START s' = USEABLE_MEM_START s"
  shows "alloc_inv s'"
    "live s' = insert (chunk_addr s (used_entries s ! i), chunk_len (used_entries s ! i)) (live s)"
    "used_entries s' = (used_entries s)[i := set_is_occupied 1 (used_entries s ! i)]"
proof -
  let ?es = "used_entries s" and ?es' = "(used_entries s)[i := set_is_occupied 1 (used_entries s ! i)]"
  have M: "MEM_TABLE s' = ?es' @ replicate (NUM_OF_SLOTS - length ?es') FREE_ENTRY"
    using assms(1,2) T by (simp add: alloc_inv_def list_update_append)
  have "alloc_inv s' \<and> used_entries s' = ?es'"
    using assms(1,2) U alloc_invI [OF M] by (simp add: alloc_inv_def)
  then show "alloc_inv s'" and used: "used_entries s' = ?es'" by simp_all
  have "set (filter is_occupied ?es') = insert (set_is_occupied 1 (?es ! i)) (set (filter is_occupied ?es))"
    using assms(2,3) by (intro filter_update_insert) auto
  then show "live s' = insert (chunk_addr s (?es ! i), chunk_len (?es ! i)) (live s)"
    unfolding live_def used by (simp add: chunk_addr_def U)
qed

lemma live_fresh:
  assumes "alloc_inv s" "length (used_entries s) < NUM_OF_SLOTS"
    and e: "is_occupied e" "chunk_off e = total_len (used_entries s)" "0 < chunk_len e" "8 dvd chunk_len e"
      "total_len (used_entries s) + chunk_len e \<le> 65536"
    and T: "MEM_TABLE s' = (MEM_TABLE s)[length (used_entries s) := e]"
    and U: "USEABLE_MEM_START s' = USEABLE_MEM_START s"
  shows "alloc_inv s'" "live s' = insert (chunk_addr s e, chunk_len e) (live s)"
    "used_entries s' = used_entries s @ [e]"
proof -
  let ?es = "used_entries s"
  have "replicate (NUM_OF_SLOTS - length ?es) FREE_ENTRY =
      FREE_ENTRY # replicate (NUM_OF_SLOTS - length (?es @ [e])) FREE_ENTRY"
    using assms(2) by (simp flip: replicate_Suc add: Suc_diff_Suc)
  then have M: "MEM_TABLE s' = (?es @ [e]) @ replicate (NUM_OF_SLOTS - length (?es @ [e])) FREE_ENTRY"
    using assms(1) T by (simp add: alloc_inv_def list_update_append)
  have lo: "laid_out 0 (?es @ [e])" "total_len (?es @ [e]) \<le> 65536"
    using assms(1) e(2-5) by (simp_all add: alloc_inv_def)
  have len: "length (?es @ [e]) \<le> NUM_OF_SLOTS" using assms(2) by simp
  have "alloc_inv s' \<and> used_entries s' = ?es @ [e]"
    using alloc_invI [OF M len lo, unfolded U] alloc_inv_base [OF assms(1)] by blast
  then show "alloc_inv s'" and used: "used_entries s' = ?es @ [e]" by simp_all
  show "live s' = insert (chunk_addr s e, chunk_len e) (live s)"
  proof -
    have "set (filter is_occupied (?es @ [e])) = insert e (set (filter is_occupied ?es))"
      using e(1) by auto
    then show ?thesis unfolding live_def used by (simp only: image_insert chunk_addr_def U)
  qed
qed

lemma live_not_occupied:
  assumes "alloc_inv s" "i < length (used_entries s)" "\<not> is_occupied (used_entries s ! i)"
  shows "(chunk_addr s (used_entries s ! i), n) \<notin> live s"
proof
  let ?es = "used_entries s"
  assume "(chunk_addr s (?es ! i), n) \<in> live s"
  then obtain j where j: "j < length ?es" "is_occupied (?es ! j)"
    "chunk_addr s (?es ! i) = chunk_addr s (?es ! j)" by (rule live_memE)
  have lo: "laid_out 0 ?es" using assms(1) by (simp add: alloc_inv_def)
  have "i = j"
    by (rule laid_out_distinct_off [OF lo assms(2) j(1) chunk_addr_inj [OF assms(1) j(3)]])
  with j assms(3) show False by simp
qed

lemma live_below_total:
  assumes "alloc_inv s" "(a, n) \<in> live s"
  shows "unat a + n \<le> unat (USEABLE_MEM_START s) + total_len (used_entries s)"
proof -
  let ?es = "used_entries s"
  from assms(2) obtain i where i: "i < length ?es" "a = chunk_addr s (?es ! i)" "n = chunk_len (?es ! i)"
    by (rule live_memE)
  have lo: "laid_out 0 ?es" using assms(1) by (simp add: alloc_inv_def)
  have "chunk_off (?es ! i) + chunk_len (?es ! i) = total_len (take (Suc i) ?es)"
    using i lo by (simp add: laid_out_nth [OF lo] total_take_Suc)
  also have "\<dots> \<le> total_len ?es" using total_take_mono [of "Suc i" "length ?es" ?es] i by simp
  finally show ?thesis using i by (simp add: unat_chunk_addr [OF assms(1)])
qed

section \<open>The contract of allocate\<close>

lemma align8_le: "unat sz \<le> 32760 \<Longrightarrow> align_nat 8 (unat sz) \<le> 32760"
  by (simp add: align_nat_def)

lemma reuse_result_spec:
  assumes inv: "alloc_inv s" and fit: "first_fit sz (used_entries s) = Some i"
    and r: "reuse_result i s = (p, s')"
  shows "alloc_inv s'" "mutex s' = 0" "alloc_frame s s'" "p \<noteq> NULL"
    "\<exists>n \<ge> unat sz. (\<forall>k. (p, k) \<notin> live s) \<and> live s' = insert (p, n) (live s)"
    "total_len (used_entries s') = total_len (used_entries s)"
    "length (used_entries s') = length (used_entries s)"
proof -
  let ?e = "used_entries s ! i"
  have i: "i < length (used_entries s)" and f: "\<not> is_occupied ?e" "unat sz \<le> chunk_len ?e"
    using first_fit_Some [OF fit] by (auto simp: fits_def)
  have e: "MEM_TABLE s ! i = ?e" by (rule table_nth(1) [OF inv i])
  have p: "p = chunk_addr s ?e"
    and s': "s' = release_mutex (count_alloc (s\<lparr>MEM_TABLE := (MEM_TABLE s)[i := set_is_occupied 1 ?e]\<rparr>))"
    using r by (auto simp: reuse_result_def Let_def e chunk_addr_def)
  have T: "MEM_TABLE s' = (MEM_TABLE s)[i := set_is_occupied 1 ?e]"
    and U: "USEABLE_MEM_START s' = USEABLE_MEM_START s" and m: "mutex s' = 0"
    by (simp_all add: s')
  note L = live_update [OF inv i f(1) T U]
  show "alloc_inv s'" by (rule L)
  show "mutex s' = 0" by (rule m)
  show "alloc_frame s s'"
    unfolding s' by (rule alloc_frame_trans [OF _ alloc_frame_trans]) (rule alloc_frame_simps)+
  show "\<exists>n \<ge> unat sz. (\<forall>k. (p, k) \<notin> live s) \<and> live s' = insert (p, n) (live s)"
    unfolding p L(2) using live_not_occupied [OF inv i f(1)] f(2) by blast
  show "total_len (used_entries s') = total_len (used_entries s)"
    unfolding L(3) using i by simp
  show "length (used_entries s') = length (used_entries s)" unfolding L(3) by simp
  have "(p, chunk_len ?e) \<in> live s'" unfolding L(2) p by simp
  with live_chunk_ok(2) [OF L(1)] show "p \<noteq> NULL" by blast
qed

lemma fresh_result_spec:
  assumes inv: "alloc_inv s" and room: "length (used_entries s) < NUM_OF_SLOTS"
      "0 < unat sz" "unat sz \<le> 32760" "total_len (used_entries s) + align_nat 8 (unat sz) \<le> 65536"
    and r: "fresh_result sz (length (used_entries s)) (of_nat (total_len (used_entries s))) s = (p, s')"
  shows "alloc_inv s'" "mutex s' = 0" "alloc_frame s s'" "p \<noteq> NULL"
    "\<exists>n \<ge> unat sz. (\<forall>k. (p, k) \<notin> live s) \<and> live s' = insert (p, n) (live s)"
    "total_len (used_entries s') = total_len (used_entries s) + align_nat 8 (unat sz)"
    "length (used_entries s') = length (used_entries s) + 1"
proof -
  let ?T = "total_len (used_entries s)"
  let ?e = "fresh_entry (of_nat ?T) sz (MEM_TABLE s ! length (used_entries s))"
  have len: "chunk_len ?e = align_nat 8 (unat sz)" by (rule fresh_entry_len [OF room(3)])
  have pos: "0 < chunk_len ?e" "unat sz \<le> chunk_len ?e"
    using align_nat_bounds [of 8 "unat sz"] room(2) len by simp_all
  have dvd: "8 dvd chunk_len ?e" unfolding len by (rule align_nat_dvd)
  have "?T < 65536" using room(4) pos(1) len by simp
  then have off: "chunk_off ?e = ?T"
    by (simp add: fresh_entry_fields unsigned_ucast_eq take_bit_nat_eq_self unsigned_of_nat)
  have p: "p = chunk_addr s ?e"
    and s': "s' = ST_ENABLE (release_mutex (count_alloc (s\<lparr>MEM_TABLE := (MEM_TABLE s)[length (used_entries s) := ?e]\<rparr>)))"
    using r by (auto simp: fresh_result_def Let_def chunk_addr_def)
  have T: "MEM_TABLE s' = (MEM_TABLE s)[length (used_entries s) := ?e]"
    and U: "USEABLE_MEM_START s' = USEABLE_MEM_START s" and m: "mutex s' = 0"
    by (simp_all add: s')
  have tot: "?T + chunk_len ?e \<le> 65536" using room(4) len by simp
  note L = live_fresh [OF inv room(1) fresh_entry_fields(1) off pos(1) dvd tot T U]
  show "alloc_inv s'" by (rule L)
  show "mutex s' = 0" by (rule m)
  show "alloc_frame s s'"
    unfolding s'
    by (rule alloc_frame_trans [OF _ alloc_frame_trans [OF _ alloc_frame_trans]])
       (rule alloc_frame_simps)+
  have "(p, k) \<notin> live s" for k
  proof
    assume k: "(p, k) \<in> live s"
    have "unat p + k \<le> unat (USEABLE_MEM_START s) + ?T" by (rule live_below_total [OF inv k])
    moreover have "unat p = ?T + unat (USEABLE_MEM_START s)" unfolding p unat_chunk_addr [OF inv] off ..
    ultimately show False using live_chunk_ok(1) [OF inv k] by simp
  qed
  then show "\<exists>n \<ge> unat sz. (\<forall>k. (p, k) \<notin> live s) \<and> live s' = insert (p, n) (live s)"
    using pos(2) L(2) unfolding p by blast
  show "total_len (used_entries s') = ?T + align_nat 8 (unat sz)"
    unfolding L(3) using len by simp
  show "length (used_entries s') = length (used_entries s) + 1" unfolding L(3) by simp
  have "(p, chunk_len ?e) \<in> live s'" unfolding L(2) p by simp
  with live_chunk_ok(2) [OF L(1)] show "p \<noteq> NULL" by blast
qed
lemma locked_same [simp]: "alloc_inv (locked s) = alloc_inv s" "live (locked s) = live s"
  using alloc_inv_cong [of "locked s" s] by simp_all

lemma allocate_run:
  assumes inv: "alloc_inv s" and m: "mutex s \<noteq> 1" and room: "table_room sz s"
  obtains (reused) p s' where "allocate sz s = Inr (p, s')"
      "\<exists>i. first_fit (round4 sz) (used_entries s) = Some i \<and> reuse_result i (locked s) = (p, s')"
  | (full) "allocate sz s = Inr (NULL, ST_ENABLE (release_mutex (locked s)))"
      "length (used_entries s) = NUM_OF_SLOTS" "first_fit (round4 sz) (used_entries s) = None"
  | (fresh) p s' where "allocate sz s = Inr (p, s')"
      "length (used_entries s) < NUM_OF_SLOTS" "first_fit (round4 sz) (used_entries s) = None"
      "fresh_result (round4 sz) (length (used_entries s)) (of_nat (total_len (used_entries s))) (locked s) = (p, s')"
proof (cases "first_fit (round4 sz) (used_entries s)")
  case (Some i)
  then show ?thesis
    using allocate_closed [OF inv m] room by (intro reused [of _ _] exI [of _ i]) (auto simp: prod_eq_iff)
next
  case None
  have "length (used_entries s) \<le> NUM_OF_SLOTS" using inv by (simp add: alloc_inv_def)
  with None show ?thesis
    using allocate_closed [OF inv m] room
    by (cases "length (used_entries s) = NUM_OF_SLOTS")
       (auto intro: full fresh simp: prod_eq_iff)
qed

lemma allocate_contract:
  assumes inv: "alloc_inv s" and m: "mutex s \<noteq> 1" and room: "table_room sz s"
  obtains p s' where "allocate sz s = Inr (p, s')" "alloc_inv s'" "mutex s' = 0" "alloc_frame s s'"
    "p = NULL \<longleftrightarrow> length (used_entries s) = NUM_OF_SLOTS \<and> first_fit (round4 sz) (used_entries s) = None"
    "p = NULL \<longrightarrow> live s' = live s"
    "p \<noteq> NULL \<longrightarrow> (\<exists>n \<ge> unat sz. (\<forall>k. (p, k) \<notin> live s) \<and> live s' = insert (p, n) (live s))"
    "total_len (used_entries s') \<le> total_len (used_entries s) + align_nat 8 (unat sz)"
    "length (used_entries s') \<le> length (used_entries s) + 1"
proof -
  have r: "unat sz \<le> unat (round4 sz)" "align_nat 8 (unat (round4 sz)) = align_nat 8 (unat sz)"
      "0 < unat (round4 sz)" "unat (round4 sz) \<le> 32760"
    using room align_nat_bounds [of 4 "unat sz"] round4_le [of sz]
    by (simp_all add: round4_unat align_8_4)
  from inv m room show ?thesis
  proof (cases rule: allocate_run)
    case (reused p s')
    then obtain i where f: "first_fit (round4 sz) (used_entries s) = Some i"
      and res: "reuse_result i (locked s) = (p, s')" by blast
    have "alloc_inv (locked s)" "first_fit (round4 sz) (used_entries (locked s)) = Some i"
      using inv f by simp_all
    note R = reuse_result_spec [OF this res, simplified locked_same locked_sel]
    show ?thesis
      using R f le_trans [OF r(1)]
      by (intro that [OF reused(1) R(1,2) alloc_frame_trans [OF alloc_frame_locked R(3)]]) auto
  next
    case full
    let ?s' = "ST_ENABLE (release_mutex (locked s))"
    have C: "alloc_inv ?s' = alloc_inv s \<and> live ?s' = live s \<and> used_entries ?s' = used_entries s"
      by (rule alloc_inv_cong) simp_all
    have F: "alloc_frame s ?s'"
      by (rule alloc_frame_trans [OF alloc_frame_locked alloc_frame_trans [of _ "release_mutex (locked s)"]]) simp_all
    show ?thesis
      using C inv full(2,3) by (intro that [OF full(1) _ _ F]) simp_all
  next
    case (fresh p s')
    have "alloc_inv (locked s)" "length (used_entries (locked s)) < NUM_OF_SLOTS"
      "0 < unat (round4 sz)" "unat (round4 sz) \<le> 32760"
      "total_len (used_entries (locked s)) + align_nat 8 (unat (round4 sz)) \<le> 65536"
      using inv room fresh(2) r by simp_all
    note R = fresh_result_spec [OF this, simplified locked_same locked_sel, OF fresh(4)]
    show ?thesis
      using R fresh(2) le_trans [OF r(1)] r(2)
      by (intro that [OF fresh(1) R(1,2) alloc_frame_trans [OF alloc_frame_locked R(3)]]) auto
  qed
qed

section \<open>The contract of deallocate\<close>

fun find_entry :: "u32 \<Rightarrow> u32 list \<Rightarrow> nat option" where
  "find_entry a [] = None"
| "find_entry a (e # es) = (if drop_bit 16 e = a then Some 0 else map_option Suc (find_entry a es))"

lemma deallocate_loop_closed_gen:
  assumes "MEM_TABLE s = pre @ es" "length pre + length es = NUM_OF_SLOTS"
  shows "deallocate_loop a (length pre) s =
    Inr (case find_entry a es of
           None \<Rightarrow> (0, release_mutex s)
         | Some i \<Rightarrow> (1, release_mutex ((count_dealloc s)\<lparr>MEM_TABLE := pre @ es[i := set_is_occupied 0 (es ! i)]\<rparr>)))"
  using assms
proof (induction es arbitrary: pre)
  case Nil
  then show ?case by (simp add: deallocate_loop.simps)
next
  case (Cons e es)
  have idx: "MEM_TABLE s ! length pre = e" "length pre < length (MEM_TABLE s)" "length pre < NUM_OF_SLOTS"
    using Cons.prems by simp_all
  show ?case
  proof (cases "drop_bit 16 e = a")
    case True
    with idx Cons.prems(1) show ?thesis
      by (simp add: deallocate_loop.simps [of _ "length pre"] clear_occupied [simplified] list_update_append)
  next
    case False
    have "deallocate_loop a (length pre) s = deallocate_loop a (length (pre @ [e])) s"
      using False idx by (simp add: deallocate_loop.simps [of _ "length pre"])
    with False Cons.IH [of "pre @ [e]"] Cons.prems show ?thesis
      by (simp split: option.split)
  qed
qed


lemma deallocate_closed:
  assumes inv: "alloc_inv s" and m: "mutex s \<noteq> 1"
  shows "deallocate a s =
    (let s1 = s\<lparr>mutex := lock_r1 s\<rparr> in
     Inr (case find_entry (a - USEABLE_MEM_START s) (MEM_TABLE s) of
            None \<Rightarrow> (0, release_mutex s1)
          | Some i \<Rightarrow> (1, release_mutex ((count_dealloc s1)
                \<lparr>MEM_TABLE := (MEM_TABLE s)[i := set_is_occupied 0 (MEM_TABLE s ! i)]\<rparr>))))"
proof -
  have "length (MEM_TABLE s) = NUM_OF_SLOTS" by (rule table_length [OF inv])
  then show ?thesis
    using m deallocate_loop_closed_gen [of "s\<lparr>mutex := lock_r1 s\<rparr>" "[]" "MEM_TABLE s"]
    by (simp add: deallocate_def lock_mutex_def Let_def split: option.split)
qed

lemma find_entry_Some:
  "find_entry a es = Some i \<Longrightarrow> i < length es \<and> drop_bit 16 (es ! i) = a"
  by (induction es arbitrary: i) (auto split: if_splits)

lemma find_entry_first:
  "find_entry a es = Some i \<Longrightarrow> j < i \<Longrightarrow> drop_bit 16 (es ! j) \<noteq> a"
proof (induction es arbitrary: i j)
  case (Cons e es)
  then show ?case by (cases j) (auto split: if_splits)
qed simp

lemma find_entry_None: "find_entry a es = None \<longleftrightarrow> (\<forall>e\<in>set es. drop_bit 16 e \<noteq> a)"
  by (induction es) auto

lemma find_entry_addr: "drop_bit 16 e = a - USEABLE_MEM_START s \<longleftrightarrow> chunk_addr s e = a"
  unfolding drop_base_offset chunk_addr_def by (auto simp: algebra_simps)

lemma filter_update_remove:
  assumes "i < length es" "\<not> P e'"
    "\<And>j. j < length es \<Longrightarrow> g (es ! j) = g (es ! i) \<Longrightarrow> j = i"
  shows "g ` set (filter P (es[i := e'])) = {y \<in> g ` set (filter P es). y \<noteq> g (es ! i)}"
proof -
  let ?l = "take i es" and ?r = "drop (Suc i) es"
  have u: "es[i := e'] = ?l @ e' # ?r" using assms(1) by (simp add: upd_conv_take_nth_drop)
  have e: "es = ?l @ es ! i # ?r" using assms(1) by (simp add: id_take_nth_drop)
  have ne: "g d \<noteq> g (es ! i)" if "d \<in> set ?l \<union> set ?r" for d
  proof
    assume g: "g d = g (es ! i)"
    from that consider j where "j < i" "d = es ! j" | j where "j < length ?r" "d = es ! (Suc i + j)"
      using assms(1) by (auto simp: in_set_conv_nth)
    then show False
    proof cases
      case (1 j)
      with assms(3) [of j] assms(1) g show False by simp
    next
      case (2 j)
      then have "Suc i + j < length es" by auto
      with 2 assms(3) [of "Suc i + j"] g show False by simp
    qed
  qed
  have "set (filter P es) = set (filter P ?l) \<union> set (filter P [es ! i]) \<union> set (filter P ?r)"
    by (subst e) (auto simp del: append_take_drop_id)
  moreover have "set (filter P (es[i := e'])) = set (filter P ?l) \<union> set (filter P ?r)"
    unfolding u using assms(2) by simp
  ultimately show ?thesis using ne by (auto split: if_splits)
qed

text \<open>The occupied bit of entry \<open>i\<close> cleared, for a chunk in use and for an unused entry.\<close>

lemma release_used_entry:
  assumes inv: "alloc_inv s" and i: "i < length (used_entries s)" "chunk_addr s (MEM_TABLE s ! i) = a"
    and s': "MEM_TABLE s' = (MEM_TABLE s)[i := set_is_occupied 0 (MEM_TABLE s ! i)]" "USEABLE_MEM_START s' = USEABLE_MEM_START s"
  shows "alloc_inv s' \<and> live s' = {c \<in> live s. fst c \<noteq> a} \<and> total_len (used_entries s') = total_len (used_entries s) \<and>
    length (used_entries s') = length (used_entries s)"
proof -
  let ?es = "used_entries s" and ?es' = "(used_entries s)[i := set_is_occupied 0 (used_entries s ! i)]"
  have lo: "laid_out 0 ?es" and T: "MEM_TABLE s = ?es @ replicate (NUM_OF_SLOTS - length ?es) FREE_ENTRY"
    using inv by (simp_all add: alloc_inv_def)
  have d: "MEM_TABLE s ! i = ?es ! i" by (rule table_nth(1) [OF inv i(1)])
  have M: "MEM_TABLE s' = ?es' @ replicate (NUM_OF_SLOTS - length ?es') FREE_ENTRY"
    using T d i(1) s'(1) by (simp add: list_update_append)
  have "length ?es' \<le> NUM_OF_SLOTS" "laid_out 0 ?es'" "total_len ?es' \<le> 65536"
    using inv i(1) by (simp_all add: alloc_inv_def)
  note R = alloc_invI [OF M this, unfolded s'(2), OF alloc_inv_base [OF inv]]
  let ?g = "\<lambda>e. (chunk_addr s e, chunk_len e)"
  have inj: "j = i" if "j < length ?es" "chunk_addr s (?es ! j) = a" for j
    by (rule laid_out_distinct_off [OF lo that(1) i(1) chunk_addr_inj [OF inv]]) (simp add: that(2) i(2) flip: d)
  have "live s' = ?g ` set (filter is_occupied ?es')"
    unfolding live_def R(2) chunk_addr_def s'(2) ..
  also have "\<dots> = {y \<in> ?g ` set (filter is_occupied ?es). y \<noteq> ?g (?es ! i)}"
  proof (rule filter_update_remove [OF i(1)])
    fix j assume j: "j < length ?es" and g: "?g (?es ! j) = ?g (?es ! i)"
    from g have "chunk_addr s (?es ! j) = chunk_addr s (?es ! i)" by (rule Pair_inject)
    then show "j = i" using inj [OF j] i(2) d by simp
  qed simp
  also have "\<dots> = {c \<in> live s. c \<noteq> ?g (?es ! i)}" by (simp only: live_def)
  also have "\<dots> = {c \<in> live s. fst c \<noteq> a}"
  proof -
    have "c \<noteq> ?g (?es ! i) \<longleftrightarrow> fst c \<noteq> a" if c: "c \<in> live s" for c
    proof -
      obtain x n where x: "c = (x, n)" by (cases c)
      from c [unfolded x] obtain j where "j < length ?es" "x = chunk_addr s (?es ! j)" "n = chunk_len (?es ! j)"
        by (rule live_memE)
      then show ?thesis using inj [of j] i(2) d x by auto
    qed
    then show ?thesis by blast
  qed
  finally show ?thesis using R i(1) by simp
qed

lemma release_free_entry:
  assumes inv: "alloc_inv s" and i: "i < length (MEM_TABLE s)" "\<not> i < length (used_entries s)"
    and s': "MEM_TABLE s' = (MEM_TABLE s)[i := set_is_occupied 0 (MEM_TABLE s ! i)]" "USEABLE_MEM_START s' = USEABLE_MEM_START s"
  shows "alloc_inv s' = alloc_inv s \<and> live s' = live s \<and> used_entries s' = used_entries s"
proof -
  have "MEM_TABLE s ! i = FREE_ENTRY" using table_nth(2) [OF inv, of i] i table_length [OF inv] by simp
  then have "set_is_occupied 0 (MEM_TABLE s ! i) = MEM_TABLE s ! i" by (simp add: set_is_occupied_def)
  then have "MEM_TABLE s' = MEM_TABLE s" using s'(1) by (simp add: list_update_id)
  then show ?thesis by (intro alloc_inv_cong) (simp_all add: s'(2))
qed

lemma no_live_chunk:
  assumes "\<And>j. j < length (used_entries s) \<Longrightarrow> chunk_addr s (used_entries s ! j) \<noteq> a"
  shows "{c \<in> live s. fst c \<noteq> a} = live s"
proof -
  have "fst c \<noteq> a" if "c \<in> live s" for c
    using that assms by (cases c) (auto elim!: live_memE)
  then show ?thesis by blast
qed

lemma deallocate_contract:
  assumes inv: "alloc_inv s" and m: "mutex s \<noteq> 1"
  obtains r s' where "deallocate a s = Inr (r, s')" "alloc_inv s'" "mutex s' = 0" "alloc_frame s s'"
    "live s' = {c \<in> live s. fst c \<noteq> a}"
    "r = (if \<exists>e\<in>set (MEM_TABLE s). chunk_addr s e = a then 1 else 0)"
    "total_len (used_entries s') = total_len (used_entries s)" "length (used_entries s') = length (used_entries s)"
proof -
  let ?s1 = "s\<lparr>mutex := lock_r1 s\<rparr>" and ?es = "used_entries s"
  show ?thesis
  proof (cases "find_entry (a - USEABLE_MEM_START s) (MEM_TABLE s)")
    case None
    let ?s' = "release_mutex ?s1"
    have C: "alloc_inv ?s' = alloc_inv s \<and> live ?s' = live s \<and> used_entries ?s' = ?es"
      by (rule alloc_inv_cong) (simp_all add: release_mutex_def)
    have no: "\<forall>e\<in>set (MEM_TABLE s). chunk_addr s e \<noteq> a"
      using None unfolding find_entry_None find_entry_addr .
    have "chunk_addr s (?es ! j) \<noteq> a" if j: "j < length ?es" for j
    proof -
      have "j < length (MEM_TABLE s)" using inv j unfolding alloc_inv_def table_length [OF inv] by simp
      then have "MEM_TABLE s ! j \<in> set (MEM_TABLE s)" by (rule nth_mem)
      then show ?thesis using no unfolding table_nth(1) [OF inv j] by blast
    qed
    then have "{c \<in> live s. fst c \<noteq> a} = live s" by (rule no_live_chunk)
    then show ?thesis
      using C no inv deallocate_closed [OF inv m, of a] None
      by (intro that [of 0 ?s']) (auto simp: Let_def intro: alloc_frame_trans [of _ ?s1])
  next
    case (Some i)
    let ?d = "MEM_TABLE s ! i"
    let ?s' = "release_mutex ((count_dealloc ?s1)\<lparr>MEM_TABLE := (MEM_TABLE s)[i := set_is_occupied 0 ?d]\<rparr>)"
    have i: "i < length (MEM_TABLE s)" "chunk_addr s ?d = a"
      using find_entry_Some [OF Some] unfolding find_entry_addr by auto
    have F1: "alloc_frame s ?s1" and F2: "alloc_frame ?s1 (count_dealloc ?s1)" by simp_all
    have F: "alloc_frame s ?s'"
      by (rule alloc_frame_trans [OF F1 alloc_frame_trans [OF F2 alloc_frame_trans]]) (rule alloc_frame_simps)+
    have D: "deallocate a s = Inr (1, ?s')"
      using deallocate_closed [OF inv m, of a] Some by (simp add: Let_def)
    have r: "(if \<exists>e\<in>set (MEM_TABLE s). chunk_addr s e = a then 1 else 0) = (1 :: u32)"
      using i by (auto intro: bexI [of _ ?d])
    have U: "USEABLE_MEM_START ?s' = USEABLE_MEM_START s" "MEM_TABLE ?s' = (MEM_TABLE s)[i := set_is_occupied 0 ?d]"
      by (simp_all add: release_mutex_def count_dealloc_def)
    have "alloc_inv ?s' \<and> live ?s' = {c \<in> live s. fst c \<noteq> a} \<and> total_len (used_entries ?s') = total_len ?es \<and>
        length (used_entries ?s') = length ?es"
    proof (cases "i < length ?es")
      case True
      show ?thesis by (rule release_used_entry [OF inv True i(2) U(2,1)])
    next
      case False
      have "chunk_addr s (?es ! j) \<noteq> a" if "j < length ?es" for j
        using find_entry_first [OF Some, of j] that False table_nth(1) [OF inv that]
        unfolding find_entry_addr by simp
      then show ?thesis
        using release_free_entry [OF inv i(1) False U(2,1)] no_live_chunk [of s a] inv by simp
    qed
    then show ?thesis using F D by (intro that [of 1 ?s', unfolded r]) simp_all
  qed
qed


section \<open>The allocator as an interface\<close>

text \<open>
  What a client of the allocator may rely on: a request either fails and changes no chunk,
  or hands out a chunk at an address no live chunk has; freeing an address removes the
  chunk there and no other; live chunks never overlap.
\<close>

locale chunk_allocator =
  fixes inv :: "'s \<Rightarrow> bool"
    and room :: "u32 \<Rightarrow> 's \<Rightarrow> bool"
    and alloc :: "u32 \<Rightarrow> 's \<Rightarrow> (addr \<times> 's) res"
    and free :: "addr \<Rightarrow> 's \<Rightarrow> (u32 \<times> 's) res"
    and chunks :: "'s \<Rightarrow> (addr \<times> nat) set"
  assumes alloc_ok: "inv s \<Longrightarrow> room n s \<Longrightarrow>
      \<exists>p s'. alloc n s = Inr (p, s') \<and> inv s' \<and>
        (p = NULL \<and> chunks s' = chunks s \<or>
         p \<noteq> NULL \<and> (\<exists>k \<ge> unat n. (\<forall>j. (p, j) \<notin> chunks s) \<and> chunks s' = insert (p, k) (chunks s)))"
    and free_ok: "inv s \<Longrightarrow>
      \<exists>r s'. free p s = Inr (r, s') \<and> inv s' \<and> chunks s' = {c \<in> chunks s. fst c \<noteq> p}"
    and apart: "inv s \<Longrightarrow> c \<in> chunks s \<Longrightarrow> d \<in> chunks s \<Longrightarrow> c \<noteq> d \<Longrightarrow> disjoint_chunks c d"
begin

lemma alloc_cases:
  assumes "inv s" "room n s" "alloc n s = Inr (p, s')"
  obtains (failed) "p = NULL" "inv s'" "chunks s' = chunks s"
  | (ok) k where "p \<noteq> NULL" "inv s'" "unat n \<le> k" "\<forall>j. (p, j) \<notin> chunks s"
      "chunks s' = insert (p, k) (chunks s)"
  using alloc_ok [OF assms(1,2)] assms(3) by auto

lemma alloc_then_free:
  assumes "inv s" "room n s" "alloc n s = Inr (p, s1)" "p \<noteq> NULL"
  shows "\<exists>r s2. free p s1 = Inr (r, s2) \<and> inv s2 \<and> chunks s2 = chunks s"
  using assms(1-3)
proof (cases rule: alloc_cases)
  case (ok k)
  from free_ok [OF ok(2), of p] obtain r s2 where
    "free p s1 = Inr (r, s2)" "inv s2" "chunks s2 = {c \<in> chunks s1. fst c \<noteq> p}" by blast
  moreover have "{c \<in> chunks s1. fst c \<noteq> p} = chunks s" using ok(4,5) by auto
  ultimately show ?thesis by auto
qed (use assms(4) in simp)

lemma alloc_disjoint:
  assumes "inv s" "room n s" "alloc n s = Inr (p, s1)" "p \<noteq> NULL" "(q, m) \<in> chunks s"
  shows "\<exists>k \<ge> unat n. (p, k) \<in> chunks s1 \<and> (q, m) \<in> chunks s1 \<and> disjoint_chunks (p, k) (q, m)"
  using assms(1-3)
proof (cases rule: alloc_cases)
  case (ok k)
  then have "(p, k) \<in> chunks s1" "(q, m) \<in> chunks s1" "(p, k) \<noteq> (q, m)" using assms(5) by auto
  with ok(3) apart [OF ok(2)] show ?thesis by blast
qed (use assms(4) in simp)

lemma free_keeps:
  assumes "inv s" "free p s = Inr (r, s')" "(q, m) \<in> chunks s" "q \<noteq> p"
  shows "(q, m) \<in> chunks s'"
  using free_ok [OF assms(1), of p] assms(2-4) by auto

end

interpretation table: chunk_allocator "\<lambda>s. alloc_inv s \<and> mutex s \<noteq> 1" table_room allocate deallocate live
proof unfold_locales
  fix s :: "'a alloc_state_scheme" and n
  assume s: "alloc_inv s \<and> mutex s \<noteq> 1" "table_room n s"
  obtain p s' where A: "allocate n s = Inr (p, s')" "alloc_inv s'" "mutex s' = 0"
    "p = NULL \<longrightarrow> live s' = live s"
    "p \<noteq> NULL \<longrightarrow> (\<exists>k \<ge> unat n. (\<forall>j. (p, j) \<notin> live s) \<and> live s' = insert (p, k) (live s))"
    by (rule allocate_contract [OF conjunct1 [OF s(1)] conjunct2 [OF s(1)] s(2)])
  then show "\<exists>p s'. allocate n s = Inr (p, s') \<and> (alloc_inv s' \<and> mutex s' \<noteq> 1) \<and>
      (p = NULL \<and> live s' = live s \<or>
       p \<noteq> NULL \<and> (\<exists>k \<ge> unat n. (\<forall>j. (p, j) \<notin> live s) \<and> live s' = insert (p, k) (live s)))"
    using A(4,5) by (intro exI [of _ p] exI [of _ s']) (cases "p = NULL"; simp)
next
  fix s :: "'a alloc_state_scheme" and p
  assume s: "alloc_inv s \<and> mutex s \<noteq> 1"
  obtain r s' where "deallocate p s = Inr (r, s')" "alloc_inv s'" "mutex s' = 0"
    "live s' = {c \<in> live s. fst c \<noteq> p}"
    by (rule deallocate_contract [OF conjunct1 [OF s] conjunct2 [OF s], of p])
  then show "\<exists>r s'. deallocate p s = Inr (r, s') \<and> (alloc_inv s' \<and> mutex s' \<noteq> 1) \<and>
      live s' = {c \<in> live s. fst c \<noteq> p}"
    by auto
next
  fix s :: "'a alloc_state_scheme" and c d
  assume "alloc_inv s \<and> mutex s \<noteq> 1" "c \<in> live s" "d \<in> live s" "c \<noteq> d"
  then show "disjoint_chunks c d" using live_disjoint by (cases c; cases d) blast
qed

lemma init_allocator_inv:
  assumes "0 < unat start" "unat start + 65800 \<le> 2 ^ 32"
  shows "alloc_inv (init_allocator start ram s)" "live (init_allocator start ram s) = {}"
    "mutex (init_allocator start ram s) = 0" "used_entries (init_allocator start ram s) = []"
proof -
  let ?s = "init_allocator start ram s"
  let ?r = "round_loop 8 start"
  have al: "unat ?r = align_nat 8 (unat start)"
    using round_loop_unat [of "8 :: u32" start] assms align_nat_bounds [of 8 "unat start"] by simp
  have b: "0 < unat ?r" "unat ?r < unat start + 8"
    using align_nat_bounds [of 8 "unat start"] assms(1) unfolding al by simp_all
  have d: "8 dvd unat ?r" unfolding al by simp
  have U: "USEABLE_MEM_START ?s = ?r + 256" by (simp add: init_allocator_def Let_def)
  have u: "unat (USEABLE_MEM_START ?s) = unat ?r + 256"
    using b(2) assms(2) unfolding U by (simp add: unat_word_ariths)
  have "8 dvd unat ?r + 256" using d by (simp add: dvd_add)
  then have base: "8 dvd unat (USEABLE_MEM_START ?s)" "0 < unat (USEABLE_MEM_START ?s)"
    "unat (USEABLE_MEM_START ?s) + 65536 \<le> 2 ^ 32"
    unfolding u using b(2) assms(2) by simp_all
  have M: "MEM_TABLE ?s = [] @ replicate (NUM_OF_SLOTS - length ([] :: u32 list)) FREE_ENTRY"
    by (simp add: init_allocator_def Let_def)
  show "alloc_inv ?s" by (rule alloc_invI(1) [OF M _ _ _ base]) simp_all
  show used: "used_entries ?s = []" by (rule alloc_invI(2) [OF M _ _ _ base]) simp_all
  then show "live ?s = {}" by (simp add: live_def)
  show "mutex ?s = 0" by (simp add: init_allocator_def Let_def)
qed

section \<open>A budget of slots and bytes\<close>

text \<open>\<open>alloc_room s k b\<close>: \<open>k\<close> more requests of \<open>b\<close> bytes in all cannot fail.\<close>

definition alloc_room :: "'z alloc_state_scheme \<Rightarrow> nat \<Rightarrow> nat \<Rightarrow> bool" where
  "alloc_room s k b \<longleftrightarrow> alloc_inv s \<and> mutex s \<noteq> 1 \<and>
     length (used_entries s) + k \<le> NUM_OF_SLOTS \<and> total_len (used_entries s) + b \<le> 65536"

lemma alloc_step:
  assumes room: "alloc_room s (Suc k) (align_nat 8 (unat sz) + b)" and sz: "0 < unat sz" "unat sz \<le> 32760"
  obtains p s' n where "allocate sz s = Inr (p, s')" "p \<noteq> NULL" "alloc_frame s s'" "alloc_room s' k b"
    "unat sz \<le> n" "p \<notin> fst ` live s" "live s' = insert (p, n) (live s)"
proof -
  have pre: "alloc_inv s" "mutex s \<noteq> 1" "table_room sz s"
    using room sz by (simp_all add: alloc_room_def)
  obtain p s' where A: "allocate sz s = Inr (p, s')" "alloc_inv s'" "mutex s' = 0" "alloc_frame s s'"
    "p = NULL \<longleftrightarrow> length (used_entries s) = NUM_OF_SLOTS \<and> first_fit (round4 sz) (used_entries s) = None"
    "p \<noteq> NULL \<longrightarrow> (\<exists>n \<ge> unat sz. (\<forall>k. (p, k) \<notin> live s) \<and> live s' = insert (p, n) (live s))"
    "total_len (used_entries s') \<le> total_len (used_entries s) + align_nat 8 (unat sz)"
    "length (used_entries s') \<le> length (used_entries s) + 1"
    by (rule allocate_contract [OF pre])
  have p: "p \<noteq> NULL" using A(5) room by (simp add: alloc_room_def)
  then obtain n where n: "unat sz \<le> n" "\<forall>k. (p, k) \<notin> live s" "live s' = insert (p, n) (live s)"
    using A(6) by blast
  have "alloc_room s' k b" using A(2,3,7,8) room by (simp add: alloc_room_def)
  moreover have "p \<notin> fst ` live s" using n(2) by force
  ultimately show ?thesis using that A(1,4) p n by blast
qed

lemma dealloc_step:
  assumes "alloc_room s k b"
  obtains r s' where "deallocate a s = Inr (r, s')" "alloc_frame s s'" "alloc_room s' k b"
    "live s' = {c \<in> live s. fst c \<noteq> a}"
proof -
  have "alloc_inv s" "mutex s \<noteq> 1" using assms by (simp_all add: alloc_room_def)
  from this obtain r s' where "deallocate a s = Inr (r, s')" "alloc_inv s'" "mutex s' = 0" "alloc_frame s s'"
    "live s' = {c \<in> live s. fst c \<noteq> a}" "total_len (used_entries s') = total_len (used_entries s)"
    "length (used_entries s') = length (used_entries s)"
    by (rule deallocate_contract [of s a])
  then show ?thesis using assms that by (simp add: alloc_room_def)
qed

section \<open>Properties\<close>

text \<open>A state right after start-up, at which the properties are applied.\<close>

definition reset_machine :: alloc_state where
  "reset_machine = \<lparr>mmio = (\<lambda>_. 0), inputs = (\<lambda>_. []), writes = [], DEBUG = 1, SYSTICK = False,
     drv = \<lparr>timer_configurations = [], dma_interrupt_action = 0, adc_registerset = 0,
            crc_regs = 0, i2c_regs = 0\<rparr>,
     MEM_TABLE = [], MEM_TABLE_START = 0, USEABLE_MEM_START = 0, mutex = 0, lock_r1 = 1,
     mstat_local = \<lparr>num_of_allocs = 0, num_of_deallocs = 0, ram_size = 0\<rparr>\<rparr>"

definition boot_alloc :: alloc_state where
  "boot_alloc = init_allocator 0x20000401 0x18000 reset_machine"

lemma boot_alloc_inv:
  "alloc_inv boot_alloc" "live boot_alloc = {}" "mutex boot_alloc = 0" "used_entries boot_alloc = []"
  unfolding boot_alloc_def by (rule init_allocator_inv; simp)+

text \<open>
  C8. \<open>allocate\<close>, from a well-formed table with room for the request and a free mutex,
  returns; the table stays well formed and the mutex free.  It returns NULL exactly when
  every slot is used and no free chunk fits, and then changes no chunk.  Otherwise it
  returns an 8-aligned address no live chunk has, of a chunk at least as large as asked
  for, disjoint from every live chunk, and every other live chunk stays as it was.
\<close>
theorem allocate_correct:
  assumes "alloc_inv s" "mutex s \<noteq> 1" "table_room sz s"
  shows "\<exists>p s'. allocate sz s = Inr (p, s') \<and> alloc_inv s' \<and> mutex s' = 0 \<and>
    (p = NULL \<longleftrightarrow> length (used_entries s) = NUM_OF_SLOTS \<and>
                 (\<forall>e\<in>set (used_entries s). \<not> fits (round4 sz) e)) \<and>
    (p = NULL \<longrightarrow> live s' = live s) \<and>
    (p \<noteq> NULL \<longrightarrow> (\<exists>n \<ge> unat sz. live s' = insert (p, n) (live s) \<and> 8 dvd unat p \<and>
        (\<forall>c\<in>live s. fst c \<noteq> p \<and> disjoint_chunks (p, n) c)))"
proof -
  from assms obtain p s' where A: "allocate sz s = Inr (p, s')" "alloc_inv s'" "mutex s' = 0"
    "p = NULL \<longleftrightarrow> length (used_entries s) = NUM_OF_SLOTS \<and> first_fit (round4 sz) (used_entries s) = None"
    "p = NULL \<longrightarrow> live s' = live s"
    "p \<noteq> NULL \<longrightarrow> (\<exists>n \<ge> unat sz. (\<forall>k. (p, k) \<notin> live s) \<and> live s' = insert (p, n) (live s))"
    by (rule allocate_contract)
  have "\<exists>n \<ge> unat sz. live s' = insert (p, n) (live s) \<and> 8 dvd unat p \<and>
        (\<forall>c\<in>live s. fst c \<noteq> p \<and> disjoint_chunks (p, n) c)" if p: "p \<noteq> NULL"
  proof -
    from A(6) p obtain n where n: "unat sz \<le> n" "\<forall>k. (p, k) \<notin> live s" "live s' = insert (p, n) (live s)"
      by blast
    have "fst c \<noteq> p \<and> disjoint_chunks (p, n) c" if c: "c \<in> live s" for c
    proof -
      have "c \<noteq> (p, n)" "fst c \<noteq> p" using n(2) c by (cases c; auto)+
      then show ?thesis using table.apart [of s' "(p, n)" c] A(2,3) n(3) c by auto
    qed
    then show ?thesis using n live_chunk_ok(3) [OF A(2), of p n] by blast
  qed
  then show ?thesis using A(1-5) by (intro exI [of _ p] exI [of _ s']) (simp add: first_fit_None)
qed

theorem allocate_correct_witness:
  "\<exists>p s'. allocate 100 boot_alloc = Inr (p, s') \<and> alloc_inv s' \<and> p \<noteq> NULL \<and>
    (\<exists>n \<ge> 100. live s' = {(p, n)} \<and> 8 dvd unat p)"
  using allocate_correct [of boot_alloc 100] boot_alloc_inv by (auto simp: align_nat_def)

text \<open>
  C9. \<open>deallocate\<close>, from a well-formed table with a free mutex, returns, keeps the table
  well formed and the mutex free, and ends exactly the live chunk at the address it is
  given, if there is one.  Its result is 1 exactly when some slot of the table, in use or
  not, describes that address, so a second release of the same chunk also answers 1.
\<close>
theorem deallocate_correct:
  assumes "alloc_inv s" "mutex s \<noteq> 1"
  shows "\<exists>r s'. deallocate a s = Inr (r, s') \<and> alloc_inv s' \<and> mutex s' = 0 \<and>
    live s' = {c \<in> live s. fst c \<noteq> a} \<and>
    r = (if \<exists>e\<in>set (MEM_TABLE s). chunk_addr s e = a then 1 else 0)"
  using assms by (rule deallocate_contract [of s a]) blast

theorem deallocate_correct_witness:
  "\<exists>r s'. deallocate NULL boot_alloc = Inr (r, s') \<and> alloc_inv s' \<and> live s' = {}"
  using deallocate_correct [of boot_alloc NULL] boot_alloc_inv by auto

text \<open>
  Releasing a chunk just handed out restores the set of live chunks, and the first
  operation after it still succeeds (the invariant and the free mutex are back).
\<close>
theorem allocate_deallocate_roundtrip:
  assumes "alloc_inv s" "mutex s \<noteq> 1" "table_room sz s" "allocate sz s = Inr (p, s1)" "p \<noteq> NULL"
  shows "\<exists>r s2. deallocate p s1 = Inr (r, s2) \<and> alloc_inv s2 \<and> mutex s2 \<noteq> 1 \<and> live s2 = live s"
  using table.alloc_then_free [of s sz p s1] assms by simp

theorem allocate_deallocate_roundtrip_witness:
  "\<exists>p s1 r s2. allocate 100 boot_alloc = Inr (p, s1) \<and> deallocate p s1 = Inr (r, s2) \<and> live s2 = {}"
proof -
  have pre: "alloc_inv boot_alloc" "mutex boot_alloc \<noteq> 1" "table_room 100 boot_alloc"
    using boot_alloc_inv by (simp_all add: align_nat_def)
  obtain p s1 where a: "allocate 100 boot_alloc = Inr (p, s1)"
    "p = NULL \<longleftrightarrow> length (used_entries boot_alloc) = NUM_OF_SLOTS \<and>
      first_fit (round4 100) (used_entries boot_alloc) = None"
    by (rule allocate_contract [OF pre])
  have "p \<noteq> NULL" using a(2) boot_alloc_inv(4) by simp
  from allocate_deallocate_roundtrip [OF pre a(1) this] a(1) boot_alloc_inv(2) show ?thesis by auto
qed

text \<open>
  The early return for size 0 (or above 32768) leaves the mutex as \<open>lock_mutex\<close> set it
  and SysTick off: when r1 holds 1 on entry, every later \<open>allocate\<close> spins for ever.
\<close>
theorem allocate_zero_blocks:
  assumes "mutex s \<noteq> 1" "lock_r1 s = 1" "sz = 0 \<or> 32768 < sz"
  shows "\<exists>s'. allocate sz s = Inr (NULL, s') \<and> MEM_TABLE s' = MEM_TABLE s \<and>
    (\<forall>n. allocate n s' = Inl Spin)"
  using assms by (simp add: allocate_def lock_mutex_def ST_DISABLE_def)

theorem allocate_zero_blocks_witness:
  "\<exists>s'. allocate 0 boot_alloc = Inr (NULL, s') \<and> (\<forall>n. allocate n s' = Inl Spin)"
proof -
  have "lock_r1 boot_alloc = 1"
    by (simp add: boot_alloc_def init_allocator_def reset_machine_def Let_def)
  then show ?thesis using allocate_zero_blocks [of boot_alloc 0] boot_alloc_inv(3) by auto
qed

end
