(* ===== verification/Timer.thy ===== *)
theory Timer
  imports Machine
begin

text \<open>
  The timer driver, \<open>os/arch/f401/src/tim2_5.c\<close> and \<open>os/arch/f401/include/tim2_5.h\<close>:
  register addresses, the prescaler computation in single precision, and every operation
  the scheduler uses.  \<open>timer_pwm_init\<close> is in theory \<open>Peripherals\<close>.
\<close>

section \<open>Registers\<close>

definition RccRegisterMap :: "string list" where
  "RccRegisterMap =
     [''cr'', ''pllcfgr'', ''cfgr'', ''cir'', ''ahb1rstr'', ''ahb2rstr'', ''reserved0'', ''reserved1'',
      ''apb1rstr'', ''apb2rstr'', ''reserved2'', ''reserved3'', ''ahb1enr'', ''ahb2enr'', ''reserved4'',
      ''reserved5'', ''apb1enr'', ''apb2enr'', ''reserved6'', ''reserved7'', ''ahb1lpenr'', ''ahb2lpenr'',
      ''reserved8'', ''reserved9'', ''apb1lpenr'', ''apb2lpenr'', ''reserved10'', ''reserved11'',
      ''bdcr'', ''csr'', ''reserved12'', ''reserved13'', ''sscgrg'', ''plli2scfgr'', ''dckcfgr'']"

definition timer25RegisterMap :: "string list" where
  "timer25RegisterMap =
     [''cr1'', ''cr2'', ''smcr'', ''dier'', ''sr'', ''egr'', ''ccmr1'', ''ccmr2'', ''ccer'', ''cnt'', ''psc'',
      ''arr'', ''reserverd'', ''ccr1'', ''ccr2'', ''ccr3'', ''ccr4'', ''reserverd1'', ''dcr'', ''dmar'',
      ''tim2_or'', ''tim5_orccr4'']"

abbreviation (input) RccBaseAdress :: addr where "RccBaseAdress \<equiv> 0x40023800"
abbreviation (input) tim2Base :: addr where "tim2Base \<equiv> 0x40000000"
abbreviation (input) tim3Base :: addr where "tim3Base \<equiv> 0x40000400"
abbreviation (input) tim4Base :: addr where "tim4Base \<equiv> 0x40000800"
abbreviation (input) ahbFrequency :: u32 where "ahbFrequency \<equiv> 16000000"

abbreviation rcc :: "string \<Rightarrow> addr" where "rcc f \<equiv> reg RccRegisterMap RccBaseAdress f"
abbreviation tim :: "addr \<Rightarrow> string \<Rightarrow> addr" where "tim base f \<equiv> reg timer25RegisterMap base f"

lemma rcc_addrs [simp]:
  "rcc ''apb1rstr'' = 0x40023820" "rcc ''ahb1enr'' = 0x40023830"
  "rcc ''apb1enr'' = 0x40023840" "rcc ''apb2enr'' = 0x40023844"
  by (simp_all add: reg_def RccRegisterMap_def)

lemma tim_addrs [simp]:
  "tim b ''cr1'' = b" "tim b ''dier'' = b + 0x0C" "tim b ''sr'' = b + 0x10" "tim b ''egr'' = b + 0x14"
  "tim b ''ccmr1'' = b + 0x18" "tim b ''ccmr2'' = b + 0x1C" "tim b ''ccer'' = b + 0x20"
  "tim b ''cnt'' = b + 0x24" "tim b ''psc'' = b + 0x28" "tim b ''arr'' = b + 0x2C"
  "tim b ''ccr1'' = b + 0x34" "tim b ''ccr2'' = b + 0x38" "tim b ''ccr3'' = b + 0x3C"
  "tim b ''ccr4'' = b + 0x40"
  by (simp_all add: reg_def timer25RegisterMap_def)

definition get_timx_base :: "u32 \<Rightarrow> addr" where
  "get_timx_base tim_nr =
     (if tim_nr = 2 then tim2Base else if tim_nr = 3 then tim3Base
      else if tim_nr = 4 then tim4Base else 0)"

lemma get_timx_base_simps [simp]:
  "get_timx_base 2 = tim2Base" "get_timx_base 3 = tim3Base" "get_timx_base 4 = tim4Base"
  by (simp_all add: get_timx_base_def)

section \<open>Operations\<close>

definition reset_timer :: "u32 \<Rightarrow> 'z machine_scheme \<Rightarrow> 'z machine_scheme" where
  "reset_timer tim_nr s =
     CLEAR_BIT (rcc ''apb1rstr'') (shl 1 (tim_nr - 2)) (SET_BIT (rcc ''apb1rstr'') (shl 1 (tim_nr - 2)) s)"

definition timer_start :: "u32 \<Rightarrow> 'z machine_scheme \<Rightarrow> 'z machine_scheme" where
  "timer_start tim_nr s = SET_BIT (tim (get_timx_base tim_nr) ''cr1'') 1 s"

definition timer_stop :: "u32 \<Rightarrow> 'z machine_scheme \<Rightarrow> 'z machine_scheme" where
  "timer_stop tim_nr s = CLEAR_BIT (tim (get_timx_base tim_nr) ''cr1'') 1 s"

definition set_udis :: "u32 \<Rightarrow> 'z machine_scheme \<Rightarrow> 'z machine_scheme" where
  "set_udis tim_nr s = MODIFY_REGISTER (tim (get_timx_base tim_nr) ''cr1'') (\<lambda>v. v OR 2) s"

definition set_ccr :: "u32 \<Rightarrow> u32 \<Rightarrow> u32 \<Rightarrow> 'z machine_scheme \<Rightarrow> 'z machine_scheme" where
  "set_ccr tim_nr ccr_value ccr_nr s =
     (let tim_base = get_timx_base tim_nr in
      if ccr_nr = 1 then WRITE_REGISTER (tim tim_base ''ccr1'') ccr_value s
      else if ccr_nr = 2 then WRITE_REGISTER (tim tim_base ''ccr2'') ccr_value s
      else if ccr_nr = 3 then WRITE_REGISTER (tim tim_base ''ccr3'') ccr_value s
      else if ccr_nr = 4 then WRITE_REGISTER (tim tim_base ''ccr4'') ccr_value s
      else s)"

definition generate_ue :: "u32 \<Rightarrow> 'z machine_scheme \<Rightarrow> 'z machine_scheme" where
  "generate_ue tim_nr s = MODIFY_REGISTER (tim (get_timx_base tim_nr) ''egr'') (\<lambda>v. v OR 1) s"

definition set_prescaler :: "u32 \<Rightarrow> u32 \<Rightarrow> 'z machine_scheme \<Rightarrow> 'z machine_scheme" where
  "set_prescaler tim_nr psc_value s = WRITE_REGISTER (tim (get_timx_base tim_nr) ''psc'') psc_value s"

definition timer_set_sr :: "u32 \<Rightarrow> u32 \<Rightarrow> 'z machine_scheme \<Rightarrow> 'z machine_scheme" where
  "timer_set_sr tim_nr updated_value s = WRITE_REGISTER (tim (get_timx_base tim_nr) ''sr'') updated_value s"

definition timer_set_arr :: "u32 \<Rightarrow> u32 \<Rightarrow> 'z machine_scheme \<Rightarrow> 'z machine_scheme" where
  "timer_set_arr tim_nr arr s = WRITE_REGISTER (tim (get_timx_base tim_nr) ''arr'') arr s"

definition timer_get_sr :: "u32 \<Rightarrow> 'z machine_scheme \<Rightarrow> u32 \<times> 'z machine_scheme" where
  "timer_get_sr tim_nr s = READ_REGISTER (tim (get_timx_base tim_nr) ''sr'') s"

definition timer_read_counter :: "u32 \<Rightarrow> 'z machine_scheme \<Rightarrow> u32 \<times> 'z machine_scheme" where
  "timer_read_counter tim_nr s = READ_REGISTER (tim (get_timx_base tim_nr) ''cnt'') s"

definition timer_flush_counter :: "u32 \<Rightarrow> 'z machine_scheme \<Rightarrow> 'z machine_scheme" where
  "timer_flush_counter tim_nr s = FLUSH_REGISTER (tim (get_timx_base tim_nr) ''cnt'') s"

definition enable_ccx_ir :: "u32 \<Rightarrow> u32 \<Rightarrow> 'z machine_scheme \<Rightarrow> 'z machine_scheme" where
  "enable_ccx_ir tim_nr ccr_nr s =
     MODIFY_REGISTER (tim (get_timx_base tim_nr) ''dier'') (\<lambda>v. v OR shl 1 ccr_nr) s"

section \<open>The prescaler\<close>

text \<open>
  A positive single-precision number is \<open>m * 2 ^ e\<close> with \<open>2^23 \<le> m < 2^24\<close>.
  \<open>scale\<close> brings a quotient of integers into that range by powers of two; at most 200 steps
  are needed for quotients between \<open>2^-126\<close> and \<open>2^128\<close>.  \<open>f32_quot\<close> is the quotient rounded
  to nearest, ties to even, as the FPU and the soft-float library both do.
\<close>

type_synonym f32 = "int \<times> int"

fun scale :: "nat \<Rightarrow> int \<Rightarrow> int \<Rightarrow> int \<Rightarrow> int \<times> int \<times> int" where
  "scale 0 p q e = (p, q, e)"
| "scale (Suc k) p q e =
     (if p < q * 8388608 then scale k (2 * p) q (e - 1)
      else if q * 16777216 \<le> p then scale k p (2 * q) (e + 1)
      else (p, q, e))"

definition round_even :: "int \<Rightarrow> int \<Rightarrow> int" where
  "round_even p q =
     (let d = p div q; r = p mod q in
      if 2 * r < q \<or> (2 * r = q \<and> even d) then d else d + 1)"

definition f32_quot :: "int \<Rightarrow> int \<Rightarrow> f32" where
  "f32_quot p q =
     (let (p', q', e) = scale 200 p q 0; m = round_even p' q'
      in if m = 16777216 then (8388608, e + 1) else (m, e))"

definition f32_of_int :: "int \<Rightarrow> f32" where
  "f32_of_int n = f32_quot n 1"

text \<open>\<open>m * 2 ^ e / (n * 2 ^ d)\<close>, rounded once.\<close>

definition f32_div :: "f32 \<Rightarrow> f32 \<Rightarrow> f32" where
  "f32_div x y =
     (let (m, e) = x; (n, d) = y; k = e - d
      in if 0 \<le> k then f32_quot (m * 2 ^ nat k) n else f32_quot m (n * 2 ^ nat (- k)))"

definition f32_trunc :: "f32 \<Rightarrow> int" where
  "f32_trunc x = (let (m, e) = x in if 0 \<le> e then m * 2 ^ nat e else m div 2 ^ nat (- e))"

text \<open>
  \<open>cycle_length = 0\<close> makes the quotient infinite, whose conversion to \<open>unsigned int\<close> C
  leaves undefined; a cycle above one second makes the target frequency 0, the divisor of
  the next division.
\<close>

definition timer_get_prescaler :: "u32 \<Rightarrow> u32 \<Rightarrow> u32 res" where
  "timer_get_prescaler tim_nr cycle_length =
     (if cycle_length = 0 then Inl Undefined
      else let target_frequency = word_of_int (f32_trunc
                 (f32_div (f32_of_int 1)
                    (f32_div (f32_of_int (uint cycle_length)) (f32_of_int 1000000)))) :: u32
           in if target_frequency = 0 then Inl DivByZero
              else Inr (ahbFrequency div target_frequency - 1))"

section \<open>Initialisation\<close>

definition set_timer_configuration :: "u32 \<Rightarrow> 'z machine_scheme \<Rightarrow> 'z machine_scheme res" where
  "set_timer_configuration tim_nr s =
     bnd (wr (timer_configurations (drv s)) (uint tim_nr) (tim_nr, get_timx_base tim_nr)) (\<lambda>c.
       Inr (s\<lparr>drv := (drv s)\<lparr>timer_configurations := c\<rparr>\<rparr>))"

text \<open>\<open>for (i = 1; i <= 4; i++) set_ccr(tim_nr, ccr[i], i)\<close>, with \<open>k\<close> iterations left.\<close>

fun set_ccrs :: "nat \<Rightarrow> u32 \<Rightarrow> u32 list \<Rightarrow> 'z machine_scheme \<Rightarrow> 'z machine_scheme res" where
  "set_ccrs 0 tim_nr ccr s = Inr s"
| "set_ccrs (Suc k) tim_nr ccr s =
     bnd (rd ccr (4 - int k)) (\<lambda>v. set_ccrs k tim_nr ccr (set_ccr tim_nr v (4 - of_nat k) s))"

definition timer_init :: "u32 \<Rightarrow> u32 list \<Rightarrow> u32 \<Rightarrow> 'z machine_scheme \<Rightarrow> 'z machine_scheme res" where
  "timer_init tim_nr ccr cycle_length s =
     (let s1 = reset_timer tim_nr (MODIFY_REGISTER (rcc ''apb1enr'') (\<lambda>v. v OR shl 1 (tim_nr - 2)) s) in
      bnd (timer_get_prescaler tim_nr cycle_length) (\<lambda>psc.
      bnd (set_ccrs 4 tim_nr ccr (set_udis tim_nr (generate_ue tim_nr (set_prescaler tim_nr psc s1)))) (\<lambda>s2.
        set_timer_configuration tim_nr (timer_flush_counter tim_nr s2))))"

section \<open>The prescaler values the scheduler asks for\<close>

text \<open>
  One tick per microsecond is exact.  One tick per millisecond is not: \<open>1.0f / 0.001f\<close> rounds
  to 999.99994, which truncates to 999.
\<close>

lemma prescaler_values:
  "timer_get_prescaler n 1 = Inr 15"
  "timer_get_prescaler n 1000 = Inr 16015"
  unfolding timer_get_prescaler_def by code_simp+

end
