(* ===== verification/Kernel_State.thy ===== *)
theory Kernel_State
  imports Allocator_Spec Timer
begin

text \<open>
  The state of the kernel: the objects of \<open>data/queue.h\<close>, \<open>data/list.h\<close> and
  \<open>process/tcb.h\<close> in typed heaps, the CPU registers the exception code touches, byte memory
  for task stacks, and the global variables of the scheduler, the runtime and the interrupt
  handlers.  A typed heap gives every address an object of its type, as the C program sees
  it through a typed pointer; a freed object keeps its contents until the address is
  written again, as it does in RAM.  An access through NULL is a fault.
\<close>

section \<open>Objects\<close>

record Node =
  nxt :: addr
  prv :: addr
  tdata :: addr

record Queue =
  q_size :: u32
  head :: addr
  tail :: addr

record SingleLinkedNode =
  s_next :: addr
  s_data :: addr

record SList =
  l_size :: i32
  l_head :: addr

datatype TaskState = READY | WAITING | FINISHED | DEAD | INVALID

record TaskLifetimeData =
  voluntary_interrupts :: u32
  forced_interrupts :: u32
  cpu_time :: u32

record Tcb =
  pid :: u8
  tstate :: TaskState
  is_external :: bool
  stack_size :: u16
  sp :: u32
  codesection_lower_bound :: i32
  codesection_upper_bound :: i32
  stacksection_lower_bound :: i32
  code_section :: u32
  join_pid :: u16   \<comment> \<open>a \<open>short\<close>\<close>
  parent_task :: addr
  child_tasks :: addr
  lifetime_info :: TaskLifetimeData

text \<open>
  Sizes of the C types on the target (ILP32, natural alignment).  The array
  \<open>lifetime_info\<close> has one element when \<open>DEBUG\<close> is 1 or 2, and none otherwise.
\<close>

abbreviation (input) sizeof_Queue :: u32 where "sizeof_Queue \<equiv> 12"
abbreviation (input) sizeof_Node :: u32 where "sizeof_Node \<equiv> 12"
abbreviation (input) sizeof_SList :: u32 where "sizeof_SList \<equiv> 8"
abbreviation (input) sizeof_SingleLinkedNode :: u32 where "sizeof_SingleLinkedNode \<equiv> 8"
abbreviation (input) sizeof_CpuRegister :: u32 where "sizeof_CpuRegister \<equiv> 64"
abbreviation (input) sizeof_ProcessStats :: u32 where "sizeof_ProcessStats \<equiv> 20"

definition sizeof_Tcb :: "nat \<Rightarrow> u32" where
  "sizeof_Tcb dbg = (if dbg = 1 \<or> dbg = 2 then 52 else 40)"

definition zero_Tcb :: Tcb where
  "zero_Tcb = \<lparr>pid = 0, tstate = READY, is_external = False, stack_size = 0, sp = 0,
     codesection_lower_bound = 0, codesection_upper_bound = 0, stacksection_lower_bound = 0,
     code_section = 0, join_pid = 0, parent_task = 0, child_tasks = 0,
     lifetime_info = \<lparr>voluntary_interrupts = 0, forced_interrupts = 0, cpu_time = 0\<rparr>\<rparr>"

section \<open>Global variables\<close>

datatype PanicTypes =
  NO_PANIC | OUT_OF_MEMORY | SCHEDULER_NOT_INITIALIZED | MEMORY_DEALLOC_FAILED | ACCESS_ON_NULL

record ProcessStats =
  num_of_hardfaults :: "4 word"
  num_of_finished_tasks :: "4 word"
  clean_up_requests :: "4 word"
  num_of_failed_tasks :: "4 word"
  num_of_systick_interrupts :: u32
  num_of_svcalls :: u32
  num_of_pendsv :: u32
  panic_state :: PanicTypes

text \<open>The fields are \<open>signed char\<close>; they reach \<open>wakeup_pid(unsigned int)\<close> sign-extended.\<close>

record KernelPids =
  idle_task :: u8
  transfer_handler_pid :: u8
  statistic_manager :: u8
  generic_printer :: u8
  external_io_runner_pid :: u8

definition pid_arg :: "u8 \<Rightarrow> u32" where
  "pid_arg p = scast p"

record TaskInformation =
  task_size :: u32
  start_adress :: addr

record TransferInfo =
  ti_start_adress :: addr
  ti_length :: u32

datatype RebootTypes =
    RebootRequestedByOperator  \<comment> \<open>also \<open>RebootRequestedByOperatorKeepStat\<close>: both are \<open>1 << 0\<close>\<close>
  | RebootAfterHardFault | RebootAfterUsageFault | RebootAfterKernelError | IsColdStart

record BootFlags =
  isColdStart :: bool
  reboot_type :: RebootTypes

datatype IoChannel = OsInternalIo | ModExternalIo

record MemoryLifetime =
  ml_num_of_allocs :: u32
  ml_num_of_deallocs :: u32
  ml_ram_size :: u32
  total_byte_alloced :: u32
  total_byte_used :: u32

record OsMetaInformation =
  git_hash :: u32
  magic :: u32
  debug_mode :: u16
  systick_enabled :: u16
  os_version :: u32
  gcc_version :: u32

record ProcessLifetime =
  tasks_cleanup_pending :: u8
  pl_failed_tasks :: u8
  pl_finished_tasks :: u8
  pl_waiting_tasks :: u8
  pl_running_tasks :: u8

record OsLifetime =
  version_number :: u16
  size_of_struct :: u16
  memoryStat :: MemoryLifetime
  osMeta :: OsMetaInformation
  processStat :: ProcessLifetime

text \<open>Interrupt and serial state: \<open>uart_isr.c\<close>, \<open>gpio_isr.c\<close>, \<open>adc_isr.c\<close>, \<open>runtime.c\<close>.\<close>

record IoState =
  rx_state :: u32
  uart_rx_buffer :: "u8 list"
  bytes_received :: u8
  hostIsNotified :: bool
  in_buffer :: u32
  byte_in_id :: u32
  transfer_list :: "TransferInfo list"
  num_of_waiting_transfers :: u32
  io_handler :: addr
  type_of_io_handler :: IoChannel
  subtasks :: "addr list"
  exti_isr_handler :: "addr list"
  exti_pos_vector_table :: u32
  adc_isr_callback :: addr
  adc_pos_vector_table :: u32

text \<open>
  The CPU as exceptions see it: r4 to r11, the process and main stack pointers, the link
  register and PRIMASK.  \<open>svc_pending\<close> says that \<open>svc 0\<close> has been executed.
\<close>

record Cpu =
  r4_11 :: "u32 list"
  psp :: u32
  msp :: u32
  lr :: u32
  primask :: bool
  svc_pending :: bool

text \<open>Addresses the linker assigns, and the linker script's symbols.\<close>

record Symbols =
  finish_task_addr :: addr
  idle_runner_addr :: addr
  external_io_runner_addr :: addr
  stat_addr :: addr
  empty_isr_addr :: addr
  enable_exti_addr :: addr
  enable_adc_addr :: addr
  rx_state_addr :: addr
  internal_rx_state_addr :: addr
  ebss :: addr
  edata :: addr
  sidata :: addr
  sym_ram_size :: u32
  stack_top :: addr

section \<open>The state\<close>

record kernel = alloc_state +
  nodes :: "addr \<Rightarrow> Node"
  queues :: "addr \<Rightarrow> Queue"
  tcbs :: "addr \<Rightarrow> Tcb"
  snodes :: "addr \<Rightarrow> SingleLinkedNode"
  slists :: "addr \<Rightarrow> SList"
  mem :: "addr \<Rightarrow> u8"
  cpu :: Cpu
  running_tasks :: addr
  waiting_tasks :: addr
  currently_running :: addr
  task_to_preserve :: addr
  process_stats :: ProcessStats
  kernel_pids :: KernelPids
  pid_of_sleeping_task :: u32
  tInfo :: TaskInformation
  boot_flags :: BootFlags
  lifetime_statistic :: OsLifetime
  io :: IoState
  syms :: Symbols

section \<open>Access through typed pointers\<close>

definition node_at :: "addr \<Rightarrow> kernel \<Rightarrow> Node res" where
  "node_at p s = (if p = NULL then Inl NullDeref else Inr (nodes s p))"

definition queue_at :: "addr \<Rightarrow> kernel \<Rightarrow> Queue res" where
  "queue_at p s = (if p = NULL then Inl NullDeref else Inr (queues s p))"

definition tcb_at :: "addr \<Rightarrow> kernel \<Rightarrow> Tcb res" where
  "tcb_at p s = (if p = NULL then Inl NullDeref else Inr (tcbs s p))"

definition snode_at :: "addr \<Rightarrow> kernel \<Rightarrow> SingleLinkedNode res" where
  "snode_at p s = (if p = NULL then Inl NullDeref else Inr (snodes s p))"

definition slist_at :: "addr \<Rightarrow> kernel \<Rightarrow> SList res" where
  "slist_at p s = (if p = NULL then Inl NullDeref else Inr (slists s p))"

definition upd_node :: "addr \<Rightarrow> (Node \<Rightarrow> Node) \<Rightarrow> kernel \<Rightarrow> kernel res" where
  "upd_node p f s =
     (if p = NULL then Inl NullDeref else Inr (s\<lparr>nodes := (nodes s)(p := f (nodes s p))\<rparr>))"

definition upd_queue :: "addr \<Rightarrow> (Queue \<Rightarrow> Queue) \<Rightarrow> kernel \<Rightarrow> kernel res" where
  "upd_queue p f s =
     (if p = NULL then Inl NullDeref else Inr (s\<lparr>queues := (queues s)(p := f (queues s p))\<rparr>))"

definition upd_tcb :: "addr \<Rightarrow> (Tcb \<Rightarrow> Tcb) \<Rightarrow> kernel \<Rightarrow> kernel res" where
  "upd_tcb p f s =
     (if p = NULL then Inl NullDeref else Inr (s\<lparr>tcbs := (tcbs s)(p := f (tcbs s p))\<rparr>))"

definition upd_snode :: "addr \<Rightarrow> (SingleLinkedNode \<Rightarrow> SingleLinkedNode) \<Rightarrow> kernel \<Rightarrow> kernel res" where
  "upd_snode p f s =
     (if p = NULL then Inl NullDeref else Inr (s\<lparr>snodes := (snodes s)(p := f (snodes s p))\<rparr>))"

definition upd_slist :: "addr \<Rightarrow> (SList \<Rightarrow> SList) \<Rightarrow> kernel \<Rightarrow> kernel res" where
  "upd_slist p f s =
     (if p = NULL then Inl NullDeref else Inr (s\<lparr>slists := (slists s)(p := f (slists s p))\<rparr>))"

lemmas typed_access = node_at_def queue_at_def tcb_at_def snode_at_def slist_at_def
  upd_node_def upd_queue_def upd_tcb_def upd_snode_def upd_slist_def

section \<open>Bytes and words of memory\<close>

definition ld32 :: "(addr \<Rightarrow> u8) \<Rightarrow> addr \<Rightarrow> u32" where
  "ld32 m a = ucast (m a) OR push_bit 8 (ucast (m (a + 1))) OR
              push_bit 16 (ucast (m (a + 2))) OR push_bit 24 (ucast (m (a + 3)))"

definition st32 :: "addr \<Rightarrow> u32 \<Rightarrow> (addr \<Rightarrow> u8) \<Rightarrow> addr \<Rightarrow> u8" where
  "st32 a v m = m(a := ucast v, a + 1 := ucast (drop_bit 8 v), a + 2 := ucast (drop_bit 16 v),
                  a + 3 := ucast (drop_bit 24 v))"

section \<open>Small operations of the kernel\<close>

text \<open>\<open>core/panic.c\<close>\<close>

definition invoke_panic :: "PanicTypes \<Rightarrow> kernel \<Rightarrow> kernel" where
  "invoke_panic panic_type s = s\<lparr>process_stats := (process_stats s)\<lparr>panic_state := panic_type\<rparr>\<rparr>"

text \<open>\<open>hw/cpu.h\<close>\<close>

abbreviation (input) Icsr :: addr where "Icsr \<equiv> 0xE000ED04"
abbreviation (input) PendSVSet :: u32 where "PendSVSet \<equiv> 28"
abbreviation (input) AIRCR :: addr where "AIRCR \<equiv> 0xE000ED0C"

definition set_pendsv :: "kernel \<Rightarrow> kernel" where
  "set_pendsv s = MODIFY_REGISTER Icsr (\<lambda>v. v OR shl 1 PendSVSet) s"

definition enable_irq :: "kernel \<Rightarrow> kernel" where
  "enable_irq s = s\<lparr>cpu := (cpu s)\<lparr>primask := False\<rparr>\<rparr>"

definition disable_irq :: "kernel \<Rightarrow> kernel" where
  "disable_irq s = s\<lparr>cpu := (cpu s)\<lparr>primask := True\<rparr>\<rparr>"

text \<open>
  \<open>soft_reset\<close> does not return: the write of the key and VECTRESET to AIRCR resets the core,
  and the source marks what follows as unreachable.
\<close>

definition soft_reset :: "kernel \<Rightarrow> 'a res" where
  "soft_reset s =
     (let s1 = WRITE_REGISTER AIRCR 0x05FA0001 s
      in if mmio s1 AIRCR = 0x05FA0001 then Inl CoreReset else Inl Unreachable)"

text \<open>\<open>core/exception_svc.h\<close>: \<open>r6\<close> carries the number, \<open>r9\<close> the parameter.\<close>

datatype TrapType =
    execPspTask | printMsg | yieldTask | svc_std | svc_ste | svc_reset | execPriv | wakeupPid
  | setExtIoCallback | getIoBuffer | wakeupIoHandler | disableIrReception | enableIrReception

fun trap_number :: "TrapType \<Rightarrow> u32" where
  "trap_number execPspTask = 0"
| "trap_number printMsg = 1"
| "trap_number yieldTask = 2"
| "trap_number svc_std = 3"
| "trap_number svc_ste = 4"
| "trap_number svc_reset = 5"
| "trap_number execPriv = 6"
| "trap_number wakeupPid = 7"
| "trap_number setExtIoCallback = 8"
| "trap_number getIoBuffer = 9"
| "trap_number wakeupIoHandler = 10"
| "trap_number disableIrReception = 11"
| "trap_number enableIrReception = 12"

definition svcall :: "u32 \<Rightarrow> kernel \<Rightarrow> kernel" where
  "svcall n s = s\<lparr>cpu := (cpu s)\<lparr>r4_11 := (r4_11 (cpu s))[2 := n], svc_pending := True\<rparr>\<rparr>"

definition svcall_param :: "u32 \<Rightarrow> u32 \<Rightarrow> kernel \<Rightarrow> kernel" where
  "svcall_param n param s =
     s\<lparr>cpu := (cpu s)\<lparr>r4_11 := (r4_11 (cpu s))[2 := n, 5 := param], svc_pending := True\<rparr>\<rparr>"

lemma trap_number_inj [simp]: "trap_number a = trap_number b \<longleftrightarrow> a = b"
  by (cases a; cases b) simp_all

end
