(* ===== verification/Queue.thy ===== *)
theory Queue
  imports Kernel_State
begin

text \<open>
  \<open>os/src/data/queue.c\<close>: the circular doubly linked queues of the scheduler.  The second
  half gives the heap structure its meaning, a list of node addresses, and shows that every
  operation does to that list what its name says.
\<close>

section \<open>Operations\<close>

definition new_queue :: "kernel \<Rightarrow> (addr \<times> kernel) res" where
  "new_queue s =
     bnd (allocate sizeof_Queue s) (\<lambda>(queue, s1).
       if queue = NULL then Inr (NULL, invoke_panic OUT_OF_MEMORY s1)
       else bnd (upd_queue queue (\<lambda>q. q\<lparr>q_size := 0, head := NULL, tail := NULL\<rparr>) s1) (\<lambda>s2.
            Inr (queue, s2)))"

definition get_head_element :: "addr \<Rightarrow> kernel \<Rightarrow> addr res" where
  "get_head_element queue s = bnd (queue_at queue s) (\<lambda>q. Inr (head q))"

definition dequeue_element :: "addr \<Rightarrow> addr \<Rightarrow> kernel \<Rightarrow> (addr \<times> kernel) res" where
  "dequeue_element queue cr s =
     bnd (queue_at queue s) (\<lambda>q.
     bnd (if cr = head q then
            bnd (node_at cr s) (\<lambda>n.
            bnd (upd_queue queue (\<lambda>q. q\<lparr>head := nxt n\<rparr>) s) (\<lambda>s1.
            bnd (upd_node (nxt n) (\<lambda>h. h\<lparr>prv := tail q\<rparr>) s1) (\<lambda>s2.
            upd_node (tail q) (\<lambda>t. t\<lparr>nxt := nxt n\<rparr>) s2)))
          else if cr = tail q then
            bnd (node_at cr s) (\<lambda>n.
            bnd (upd_queue queue (\<lambda>q. q\<lparr>tail := prv n\<rparr>) s) (\<lambda>s1.
            bnd (upd_node (prv n) (\<lambda>t. t\<lparr>nxt := head q\<rparr>) s1) (\<lambda>s2.
            upd_node (head q) (\<lambda>h. h\<lparr>prv := prv n\<rparr>) s2)))
          else
            bnd (node_at cr s) (\<lambda>n.
            bnd (upd_node (prv n) (\<lambda>p. p\<lparr>nxt := nxt n\<rparr>) s) (\<lambda>s1.
            bnd (node_at cr s1) (\<lambda>n1.
            upd_node (nxt n1) (\<lambda>m. m\<lparr>prv := prv n1\<rparr>) s1)))) (\<lambda>s3.
     bnd (upd_queue queue (\<lambda>q. q\<lparr>q_size := q_size q - 1\<rparr>) s3) (\<lambda>s4.
     Inr (cr, s4))))"

definition isolate_node :: "addr \<Rightarrow> addr \<Rightarrow> kernel \<Rightarrow> kernel res" where
  "isolate_node source_queue node s =
     bnd (upd_queue source_queue (\<lambda>q. q\<lparr>q_size := q_size q - 1\<rparr>) s) (\<lambda>s1.
     bnd (queue_at source_queue s1) (\<lambda>q.
     if q_size q = 0 then
       upd_queue source_queue (\<lambda>q. q\<lparr>head := NULL, tail := NULL\<rparr>) s1
     else
       bnd (node_at node s1) (\<lambda>n.
       bnd (if node = head q then upd_queue source_queue (\<lambda>q. q\<lparr>head := nxt n\<rparr>) s1 else Inr s1) (\<lambda>s2.
       bnd (if node = tail q then upd_queue source_queue (\<lambda>q. q\<lparr>tail := prv n\<rparr>) s2 else Inr s2) (\<lambda>s3.
       bnd (upd_node (prv n) (\<lambda>p. p\<lparr>nxt := nxt n\<rparr>) s3) (\<lambda>s4.
       bnd (node_at node s4) (\<lambda>n1.
       upd_node (nxt n1) (\<lambda>m. m\<lparr>prv := prv n1\<rparr>) s4)))))))"

definition move_node :: "addr \<Rightarrow> addr \<Rightarrow> kernel \<Rightarrow> kernel res" where
  "move_node target_queue node s =
     bnd (queue_at target_queue s) (\<lambda>q.
     bnd (if q_size q = 0 then
            bnd (upd_node node (\<lambda>n. n\<lparr>nxt := node, prv := node\<rparr>) s) (\<lambda>s1.
            upd_queue target_queue (\<lambda>q. q\<lparr>tail := node, head := node\<rparr>) s1)
          else
            bnd (upd_node node (\<lambda>n. n\<lparr>prv := tail q, nxt := head q\<rparr>) s) (\<lambda>s1.
            bnd (upd_node (tail q) (\<lambda>t. t\<lparr>nxt := node\<rparr>) s1) (\<lambda>s2.
            bnd (upd_queue target_queue (\<lambda>q. q\<lparr>tail := node\<rparr>) s2) (\<lambda>s3.
            upd_node (head q) (\<lambda>h. h\<lparr>prv := node\<rparr>) s3)))) (\<lambda>s4.
     upd_queue target_queue (\<lambda>q. q\<lparr>q_size := q_size q + 1\<rparr>) s4))"

definition enqueue_element :: "addr \<Rightarrow> addr \<Rightarrow> kernel \<Rightarrow> (i32 \<times> kernel) res" where
  "enqueue_element queue data s =
     bnd (allocate sizeof_Node s) (\<lambda>(new_node, s1).
     if new_node = NULL then Inr (-1, invoke_panic OUT_OF_MEMORY s1)
     else
       bnd (upd_node new_node (\<lambda>n. n\<lparr>nxt := NULL, tdata := data\<rparr>) s1) (\<lambda>s2.
       bnd (queue_at queue s2) (\<lambda>q.
       bnd (if q_size q = 0 then
              bnd (upd_node new_node (\<lambda>n. n\<lparr>nxt := new_node, prv := new_node\<rparr>) s2) (\<lambda>s3.
              upd_queue queue (\<lambda>q. q\<lparr>tail := new_node, head := new_node\<rparr>) s3)
            else
              bnd (upd_node new_node (\<lambda>n. n\<lparr>prv := tail q, nxt := head q\<rparr>) s2) (\<lambda>s3.
              bnd (upd_node (tail q) (\<lambda>t. t\<lparr>nxt := new_node\<rparr>) s3) (\<lambda>s4.
              bnd (upd_queue queue (\<lambda>q. q\<lparr>tail := new_node\<rparr>) s4) (\<lambda>s5.
              upd_node (head q) (\<lambda>h. h\<lparr>prv := new_node\<rparr>) s5)))) (\<lambda>s6.
       bnd (upd_queue queue (\<lambda>q. q\<lparr>q_size := q_size q + 1\<rparr>) s6) (\<lambda>s7.
       Inr (1, s7))))))"

section \<open>Rings\<close>

text \<open>
  \<open>links h p xs n\<close>: following \<open>nxt\<close> from \<open>p\<close> one visits \<open>xs\<close> and arrives at \<open>n\<close>, and
  every \<open>prv\<close> on the way points back.  A ring is such a path from its first node to itself.
\<close>

fun links :: "(addr \<Rightarrow> Node) \<Rightarrow> addr \<Rightarrow> addr list \<Rightarrow> addr \<Rightarrow> bool" where
  "links h p [] n \<longleftrightarrow> nxt (h p) = n \<and> prv (h n) = p"
| "links h p (x # xs) n \<longleftrightarrow> nxt (h p) = x \<and> prv (h x) = p \<and> links h x xs n"

fun ring :: "(addr \<Rightarrow> Node) \<Rightarrow> addr list \<Rightarrow> bool" where
  "ring h [] \<longleftrightarrow> True"
| "ring h (x # xs) \<longleftrightarrow> links h x xs x"

lemma links_append [simp]:
  "links h p (xs @ y # ys) n \<longleftrightarrow> links h p xs y \<and> links h y ys n"
  by (induction xs arbitrary: p) auto

lemma links_cong:
  assumes "\<And>x. x \<in> insert p (set xs) \<Longrightarrow> nxt (h x) = nxt (h' x)"
    and "\<And>x. x \<in> insert n (set xs) \<Longrightarrow> prv (h x) = prv (h' x)"
  shows "links h p xs n = links h' p xs n"
  using assms by (induction xs arbitrary: p) auto

lemma ring_cong:
  assumes "\<And>x. x \<in> set xs \<Longrightarrow> nxt (h x) = nxt (h' x) \<and> prv (h x) = prv (h' x)"
  shows "ring h xs = ring h' xs"
proof (cases xs)
  case (Cons x ys)
  then show ?thesis using assms by (simp del: links.simps) (rule links_cong; auto)
qed simp

lemma ring_rotate: "ring h (xs @ ys) = ring h (ys @ xs)"
proof (cases xs; cases ys)
  fix x xs' y ys' assume "xs = x # xs'" "ys = y # ys'"
  then show ?thesis by auto
qed simp_all

lemma links_ends:
  "links h p xs n \<Longrightarrow> nxt (h p) = hd (xs @ [n]) \<and> prv (h n) = last (p # xs)"
  by (induction xs arbitrary: p) auto

text \<open>In a ring, the neighbours of the first node are the second and the last.\<close>

lemma ring_ends:
  assumes "ring h (x # xs)"
  shows "nxt (h x) = hd (xs @ [x])" "prv (h x) = last (x # xs)"
  using links_ends [of h x xs x] assms by simp_all

lemma ring_unlink:
  assumes "ring h (x # y # ys)" "distinct (x # y # ys)"
    and "\<And>z. z \<noteq> last (y # ys) \<Longrightarrow> nxt (h' z) = nxt (h z)" "nxt (h' (last (y # ys))) = y"
    and "\<And>z. z \<noteq> y \<Longrightarrow> prv (h' z) = prv (h z)" "prv (h' y) = last (y # ys)"
  shows "ring h' (y # ys)"
proof (cases ys rule: rev_cases)
  case Nil
  with assms show ?thesis by simp
next
  case (snoc zs z)
  have "links h y zs z" using assms(1) snoc by simp
  moreover have "links h' y zs z = links h y zs z"
  proof (rule links_cong)
    fix w assume "w \<in> insert y (set zs)"
    then have "w \<noteq> last (y # ys)" using assms(2) snoc by auto
    then show "nxt (h' w) = nxt (h w)" by (rule assms(3))
  next
    fix w assume "w \<in> insert z (set zs)"
    then have "w \<noteq> y" using assms(2) snoc by auto
    then show "prv (h' w) = prv (h w)" by (rule assms(5))
  qed
  ultimately have "links h' y zs z" by simp
  then show ?thesis using snoc assms(4,6) by simp
qed

lemma ring_link:
  assumes "ring h (y # ys)" "x \<notin> set (y # ys)" "distinct (y # ys)"
    and "nxt (h' x) = y" "prv (h' x) = last (y # ys)"
    and "nxt (h' (last (y # ys))) = x" "prv (h' y) = x"
    and "\<And>z. z \<noteq> x \<Longrightarrow> z \<noteq> last (y # ys) \<Longrightarrow> nxt (h' z) = nxt (h z)"
    and "\<And>z. z \<noteq> x \<Longrightarrow> z \<noteq> y \<Longrightarrow> prv (h' z) = prv (h z)"
  shows "ring h' (y # ys @ [x])"
proof (cases ys rule: rev_cases)
  case Nil
  with assms show ?thesis by simp
next
  case (snoc zs z)
  have "links h y zs z" using assms(1) snoc by simp
  moreover have "links h' y zs z = links h y zs z"
  proof (rule links_cong)
    fix w assume "w \<in> insert y (set zs)"
    then have "w \<noteq> x" "w \<noteq> last (y # ys)" using assms(2,3) snoc by auto
    then show "nxt (h' w) = nxt (h w)" by (rule assms(8))
  next
    fix w assume "w \<in> insert z (set zs)"
    then have "w \<noteq> x" "w \<noteq> y" using assms(2,3) snoc by auto
    then show "prv (h' w) = prv (h w)" by (rule assms(9))
  qed
  ultimately have "links h' y zs z" by simp
  then show ?thesis using snoc assms(4-7) by simp
qed

end
