(* ===== verification/Queue_Spec.thy ===== *)
theory Queue_Spec
  imports Queue
begin

text \<open>
  The meaning of a queue (\<open>is_queue\<close>: the list of its nodes, from head to tail) and the
  contract of \<open>isolate_node\<close>, \<open>move_node\<close>, \<open>dequeue_element\<close> and \<open>enqueue_element\<close> over it,
  stated once as the locale \<open>task_queue\<close>.
\<close>

section \<open>The list a queue holds\<close>

definition is_queue :: "kernel \<Rightarrow> addr \<Rightarrow> addr list \<Rightarrow> bool" where
  "is_queue s q xs \<longleftrightarrow>
     q \<noteq> NULL \<and> NULL \<notin> set xs \<and> distinct xs \<and> unat (q_size (queues s q)) = length xs \<and>
     ring (nodes s) xs \<and>
     head (queues s q) = (if xs = [] then NULL else hd xs) \<and>
     tail (queues s q) = (if xs = [] then NULL else last xs)"

lemma is_queueI:
  assumes "xs \<noteq> []" "q \<noteq> NULL" "NULL \<notin> set xs" "distinct xs" "ring (nodes s) xs"
    "unat (q_size (queues s q)) = length xs" "head (queues s q) = hd xs" "tail (queues s q) = last xs"
  shows "is_queue s q xs"
  using assms by (simp add: is_queue_def)

lemma is_queue_cong:
  assumes "queues s' q = queues s q"
    and "\<And>x. x \<in> set xs \<Longrightarrow> nxt (nodes s' x) = nxt (nodes s x) \<and> prv (nodes s' x) = prv (nodes s x)"
  shows "is_queue s' q xs = is_queue s q xs"
  using assms ring_cong [of xs "nodes s'" "nodes s"] by (simp add: is_queue_def)

lemma is_queue_unique:
  assumes "is_queue s q xs" "is_queue s q ys"
  shows "xs = ys"
proof -
  have gen: "links h p xs n \<Longrightarrow> links h p ys n \<Longrightarrow> length xs = length ys \<Longrightarrow> xs = ys" for h p xs ys n
  proof (induction xs arbitrary: p ys)
    case (Cons x xs)
    then show ?case by (cases ys) auto
  qed simp
  have len: "length xs = length ys" using assms by (simp add: is_queue_def)
  show ?thesis
  proof (cases xs)
    case Nil
    with len show ?thesis by simp
  next
    case (Cons x xs')
    then obtain y ys' where ys: "ys = y # ys'" using len by (cases ys) auto
    have "x = y" using assms Cons ys by (simp add: is_queue_def)
    moreover have "xs' = ys'"
      using assms Cons ys len \<open>x = y\<close> by (intro gen [of "nodes s" x _ x]) (auto simp: is_queue_def)
    ultimately show ?thesis using Cons ys by simp
  qed
qed

text \<open>An operation on links changes only \<open>next\<close> and \<open>prev\<close> of nodes, and queue headers.\<close>

definition links_only :: "kernel \<Rightarrow> kernel \<Rightarrow> bool" where
  "links_only s s' \<longleftrightarrow>
     s' = s\<lparr>nodes := nodes s', queues := queues s'\<rparr> \<and> (\<forall>n. tdata (nodes s' n) = tdata (nodes s n))"

lemma links_only_refl [simp]: "links_only s s"
  by (simp add: links_only_def)

lemma links_only_trans: "links_only s t \<Longrightarrow> links_only t u \<Longrightarrow> links_only s u"
  by (cases s; cases t; cases u) (simp add: links_only_def)

lemma links_only_sel:
  assumes "links_only s s'"
  shows "tcbs s' = tcbs s" "tdata (nodes s' n) = tdata (nodes s n)" "cpu s' = cpu s"
    "running_tasks s' = running_tasks s" "waiting_tasks s' = waiting_tasks s"
    "currently_running s' = currently_running s" "task_to_preserve s' = task_to_preserve s"
    "process_stats s' = process_stats s" "kernel_pids s' = kernel_pids s"
    "pid_of_sleeping_task s' = pid_of_sleeping_task s" "io s' = io s" "syms s' = syms s"
    "MEM_TABLE s' = MEM_TABLE s" "mutex s' = mutex s" "slists s' = slists s" "snodes s' = snodes s"
    "DEBUG s' = DEBUG s" "SYSTICK s' = SYSTICK s" "drv s' = drv s" "mmio s' = mmio s"
    "inputs s' = inputs s" "mem s' = mem s" "USEABLE_MEM_START s' = USEABLE_MEM_START s"
    "lock_r1 s' = lock_r1 s" "writes s' = writes s"
  using assms by (cases s; cases s'; simp add: links_only_def)+

section \<open>isolate\<close>

text \<open>What the two operations write, in the branch for a queue that is not empty.\<close>

lemma Queue_same:
  "tail Q = t \<Longrightarrow> Q\<lparr>q_size := a, head := h, tail := t\<rparr> = Q\<lparr>q_size := a, head := h\<rparr>"
  "head Q = h \<Longrightarrow> Q\<lparr>q_size := a, head := h, tail := t\<rparr> = Q\<lparr>q_size := a, tail := t\<rparr>"
  "head Q = h \<Longrightarrow> tail Q = t \<Longrightarrow> Q\<lparr>q_size := a, head := h, tail := t\<rparr> = Q\<lparr>q_size := a\<rparr>"
  by (cases Q; simp)+

lemma isolate_run:
  assumes "q \<noteq> 0" "q_size (queues s q) - 1 \<noteq> 0" "x \<noteq> 0" "nxt (nodes s x) = y" "prv (nodes s x) = l"
    "l \<noteq> x" "y \<noteq> 0" "l \<noteq> 0"
  shows "isolate_node q x s = Inr (s\<lparr>
     nodes := ((nodes s)(l := (nodes s l)\<lparr>nxt := y\<rparr>))(y := (((nodes s)(l := (nodes s l)\<lparr>nxt := y\<rparr>)) y)\<lparr>prv := l\<rparr>),
     queues := (queues s)(q := (queues s q)\<lparr>q_size := q_size (queues s q) - 1,
        head := if x = head (queues s q) then y else head (queues s q),
        tail := if x = tail (queues s q) then l else tail (queues s q)\<rparr>)\<rparr>)"
proof -
  have E: "isolate_node q x s = Inr (s\<lparr>
     nodes := ((nodes s)(l := (nodes s l)\<lparr>nxt := y\<rparr>))(y := (((nodes s)(l := (nodes s l)\<lparr>nxt := y\<rparr>)) y)\<lparr>prv := l\<rparr>),
     queues := (queues s)(q := 
       if x = head (queues s q) then
         if x = tail (queues s q) then (queues s q)\<lparr>q_size := q_size (queues s q) - 1, head := y, tail := l\<rparr>
         else (queues s q)\<lparr>q_size := q_size (queues s q) - 1, head := y\<rparr>
       else if x = tail (queues s q) then (queues s q)\<lparr>q_size := q_size (queues s q) - 1, tail := l\<rparr>
         else (queues s q)\<lparr>q_size := q_size (queues s q) - 1\<rparr>)\<rparr>)"
    using assms unfolding isolate_node_def typed_access
    by (cases "x = head (queues s q)"; cases "x = tail (queues s q)")
       (simp_all cong: bnd_weak_cong del: fun_upd_apply add: fun_upd_same fun_upd_other)
  show ?thesis unfolding E by (simp add: Queue_same)
qed
lemma move_run:
  assumes "q \<noteq> 0" "q_size (queues s q) \<noteq> 0" "x \<noteq> 0" "head (queues s q) = y" "tail (queues s q) = l"
    "y \<noteq> 0" "l \<noteq> 0"
  shows "move_node q x s = Inr (s\<lparr>
     nodes := (let h1 = (nodes s)(x := (nodes s x)\<lparr>prv := l, nxt := y\<rparr>); h2 = h1(l := (h1 l)\<lparr>nxt := x\<rparr>)
               in h2(y := (h2 y)\<lparr>prv := x\<rparr>)),
     queues := (queues s)(q := (queues s q)\<lparr>tail := x, q_size := q_size (queues s q) + 1\<rparr>)\<rparr>)"
  using assms unfolding move_node_def typed_access Let_def
  by (simp cong: bnd_weak_cong del: fun_upd_apply add: fun_upd_same)


text \<open>
  Unlinking a node: the successor list is read off the ring rotated to start at the node.
\<close>

lemma queue_neighbours:
  assumes "is_queue s q (xs @ x # ys)" "ys @ xs = y # zs"
  shows "nxt (nodes s x) = y" "prv (nodes s x) = last (y # zs)" "x \<noteq> NULL" "y \<noteq> NULL"
    "last (y # zs) \<noteq> NULL" "last (y # zs) \<noteq> x" "y \<noteq> x" "y \<in> set (xs @ ys)" "last (y # zs) \<in> set (xs @ ys)"
    "q_size (queues s q) - 1 \<noteq> 0" "q \<noteq> NULL" "ring (nodes s) (x # y # zs)" "distinct (x # y # zs)"
    "xs = [] \<Longrightarrow> tail (queues s q) = last (y # zs)" "ys = [] \<Longrightarrow> head (queues s q) = y"
    "x = head (queues s q) \<longleftrightarrow> xs = []" "x = tail (queues s q) \<longleftrightarrow> ys = []"
proof -
  let ?Q = "queues s q" and ?h = "nodes s"
  have Q: "q \<noteq> NULL" "NULL \<notin> set (xs @ x # ys)" "distinct (xs @ x # ys)"
      "unat (q_size ?Q) = length (xs @ x # ys)" "ring ?h (xs @ x # ys)"
      "head ?Q = hd (xs @ [x])" "tail ?Q = last (x # ys)"
    using assms(1) by (cases xs; simp add: is_queue_def)+
  show R: "ring ?h (x # y # zs)" using Q(5) ring_rotate [of ?h xs "x # ys"] assms(2) by simp
  have set: "set (y # zs) = set (xs @ ys)" using arg_cong [OF assms(2), of set] by auto
  have dist: "distinct (ys @ xs)" "x \<notin> set (ys @ xs)" using Q(3) by auto
  show D: "distinct (x # y # zs)" using dist unfolding assms(2) by simp
  show "nxt (?h x) = y" "prv (?h x) = last (y # zs)" using ring_ends [OF R] by simp_all
  have l: "last (y # zs) \<in> set (y # zs)" by (rule last_in_set) simp
  show "last (y # zs) \<in> set (xs @ ys)" using l unfolding set .
  show y: "y \<in> set (xs @ ys)" using set by auto
  have "x \<noteq> NULL" "NULL \<notin> set (y # zs)" using Q(2) set by auto
  with l show "x \<noteq> NULL" "y \<noteq> NULL" "last (y # zs) \<noteq> NULL" by (auto simp del: last.simps)
  show "last (y # zs) \<noteq> x" "y \<noteq> x" using l D by (auto simp del: last.simps)
  have "length (ys @ xs) = Suc (length zs)" using assms(2) by simp
  then have "unat (q_size ?Q) = Suc (Suc (length zs))" using Q(4) by simp
  then show "q_size ?Q - 1 \<noteq> 0" by (metis Suc_inject diff_add_cancel add_0 old.nat.distinct(2) unat_1 One_nat_def)
  show "q \<noteq> NULL" by (rule Q(1))
  show "xs = [] \<Longrightarrow> tail ?Q = last (y # zs)" using Q(7) assms(2) by simp
  show "ys = [] \<Longrightarrow> head ?Q = y" using Q(6) assms(2) by simp
  show "x = head ?Q \<longleftrightarrow> xs = []" using Q(3,6) by (cases xs) auto
  show "x = tail ?Q \<longleftrightarrow> ys = []" using Q(3,7) by (cases ys rule: rev_cases) auto
qed

lemma unlink_queue:
  assumes q: "is_queue s q (xs @ x # ys)" "ys @ xs = y # zs"
    and n: "\<And>z. z \<noteq> last (y # zs) \<Longrightarrow> nxt (nodes s' z) = nxt (nodes s z)"
      "nxt (nodes s' (last (y # zs))) = y"
      "\<And>z. z \<noteq> y \<Longrightarrow> prv (nodes s' z) = prv (nodes s z)" "prv (nodes s' y) = last (y # zs)"
    and h: "q_size (queues s' q) = q_size (queues s q) - 1"
      "head (queues s' q) = (if x = head (queues s q) then y else head (queues s q))"
      "tail (queues s' q) = (if x = tail (queues s q) then last (y # zs) else tail (queues s q))"
  shows "is_queue s' q (xs @ ys)"
proof -
  let ?Q = "queues s q" and ?h = "nodes s"
  have Q: "q \<noteq> NULL" "NULL \<notin> set (xs @ x # ys)" "distinct (xs @ x # ys)"
      "unat (q_size ?Q) = length (xs @ x # ys)"
      "head ?Q = hd (xs @ [x])" "tail ?Q = last (x # ys)"
    using q(1) by (cases xs; simp add: is_queue_def)+
  have ne: "xs @ ys \<noteq> []" using q(2) by auto
  show ?thesis
  proof (rule is_queueI [OF ne Q(1)])
    show "NULL \<notin> set (xs @ ys)" "distinct (xs @ ys)" using Q(2,3) by auto
    have "ring (nodes s') (y # zs)"
      by (rule ring_unlink [OF queue_neighbours(12,13) [OF q] n])
    then show "ring (nodes s') (xs @ ys)" using ring_rotate [of "nodes s'" xs ys] q(2) by simp
    show "unat (q_size (queues s' q)) = length (xs @ ys)"
      unfolding h(1) using Q(4) by (subst unat_minus_one) auto
    show "head (queues s' q) = hd (xs @ ys)"
      unfolding h(2) queue_neighbours(16) [OF q] using Q(5) q(2) by (cases xs) auto
    show "tail (queues s' q) = last (xs @ ys)"
      unfolding h(3) queue_neighbours(17) [OF q] using Q(6) q(2) by (cases ys rule: rev_cases) auto
  qed
qed

lemma isolate_node_ok:
  assumes "is_queue s q (xs @ x # ys)"
  obtains s' where "isolate_node q x s = Inr s'" "is_queue s' q (xs @ ys)" "links_only s s'"
    "\<forall>n. n \<notin> set (xs @ ys) \<longrightarrow> nodes s' n = nodes s n" "\<forall>p. p \<noteq> q \<longrightarrow> queues s' p = queues s p"
proof -
  let ?Q = "queues s q" and ?h = "nodes s"
  show ?thesis
  proof (cases "ys @ xs")
    case Nil
    then have "unat (q_size ?Q) = unat (1 :: u32)" "q \<noteq> NULL"
      using assms by (auto simp: is_queue_def)
    moreover from this(1) have "q_size ?Q = 1" by (rule iffD2 [OF word_unat_eq_iff])
    ultimately have "q_size ?Q - 1 = 0" "q \<noteq> NULL" by simp_all
    with Nil show ?thesis
      by (intro that [of "s\<lparr>queues := (queues s)(q := ?Q\<lparr>q_size := 0, head := 0, tail := 0\<rparr>)\<rparr>"])
         (auto simp: isolate_node_def typed_access is_queue_def links_only_def)
  next
    case (Cons y zs)
    note nb = queue_neighbours [OF assms Cons]
    obtain l where l: "l = last (y # zs)" by blast
    let ?h' = "(?h(l := (?h l)\<lparr>nxt := y\<rparr>))(y := ((?h(l := (?h l)\<lparr>nxt := y\<rparr>)) y)\<lparr>prv := l\<rparr>)"
    let ?Q' = "?Q\<lparr>q_size := q_size ?Q - 1, head := if x = head ?Q then y else head ?Q,
                tail := if x = tail ?Q then l else tail ?Q\<rparr>"
    let ?s' = "s\<lparr>nodes := ?h', queues := (queues s)(q := ?Q')\<rparr>"
    have run: "isolate_node q x s = Inr ?s'"
      by (rule isolate_run [OF nb(11,10,3,1) nb(2) [folded l] nb(6) [folded l] nb(4) nb(5) [folded l]])
    have "is_queue ?s' q (xs @ ys)"
      by (rule unlink_queue [OF assms Cons, folded l]) auto
    moreover have "links_only s ?s'" unfolding links_only_def by simp
    moreover have "\<forall>n. n \<notin> set (xs @ ys) \<longrightarrow> nodes ?s' n = nodes s n"
      using nb(8) nb(9) [folded l] by auto
    ultimately show ?thesis using run by (intro that [of ?s']) auto
  qed
qed

section \<open>dequeue\<close>

text \<open>
  \<open>dequeue_element\<close> unlinks like \<open>isolate_node\<close>, but has no case for the last node of a queue:
  at least two nodes must be linked.
\<close>

lemma unlink_done:
  assumes q: "is_queue s q (xs @ x # ys)" "ys @ xs = y # zs" and l: "l = last (y # zs)"
    and r: "r = Inr (x, s\<lparr>nodes := h', queues := (queues s)(q := Q')\<rparr>)"
    and n: "\<And>z. z \<noteq> l \<Longrightarrow> nxt (h' z) = nxt (nodes s z)" "nxt (h' l) = y"
      "\<And>z. z \<noteq> y \<Longrightarrow> prv (h' z) = prv (nodes s z)" "prv (h' y) = l"
      "\<And>z. tdata (h' z) = tdata (nodes s z)" "\<And>z. z \<noteq> l \<Longrightarrow> z \<noteq> y \<Longrightarrow> h' z = nodes s z"
    and h: "q_size Q' = q_size (queues s q) - 1"
      "head Q' = (if x = head (queues s q) then y else head (queues s q))"
      "tail Q' = (if x = tail (queues s q) then l else tail (queues s q))"
  shows "\<exists>s'. r = Inr (x, s') \<and> is_queue s' q (xs @ ys) \<and> links_only s s' \<and>
    (\<forall>n. n \<notin> set (xs @ ys) \<longrightarrow> nodes s' n = nodes s n) \<and> (\<forall>p. p \<noteq> q \<longrightarrow> queues s' p = queues s p)"
proof (intro exI conjI)
  let ?s' = "s\<lparr>nodes := h', queues := (queues s)(q := Q')\<rparr>"
  show "r = Inr (x, ?s')" by (rule r)
  show "is_queue ?s' q (xs @ ys)"
    by (rule unlink_queue [OF q, folded l]) (use n h in simp_all)
  show "links_only s ?s'" unfolding links_only_def using n(5) by simp
  show "\<forall>n. n \<notin> set (xs @ ys) \<longrightarrow> nodes ?s' n = nodes s n"
  proof (intro allI impI)
    fix m assume "m \<notin> set (xs @ ys)"
    then have "m \<noteq> l" "m \<noteq> y" using queue_neighbours(8,9) [OF q, folded l] by auto
    then show "nodes ?s' m = nodes s m" using n(6) by simp
  qed
  show "\<forall>p. p \<noteq> q \<longrightarrow> queues ?s' p = queues s p" by simp
qed

lemma dequeue_element_ok:
  assumes "is_queue s q (xs @ x # ys)" "xs @ ys \<noteq> []"
  shows "\<exists>s'. dequeue_element q x s = Inr (x, s') \<and> is_queue s' q (xs @ ys) \<and> links_only s s' \<and>
    (\<forall>n. n \<notin> set (xs @ ys) \<longrightarrow> nodes s' n = nodes s n) \<and> (\<forall>p. p \<noteq> q \<longrightarrow> queues s' p = queues s p)"
proof -
  let ?Q = "queues s q" and ?h = "nodes s"
  obtain y zs where Cons: "ys @ xs = y # zs" using assms(2) by (cases "ys @ xs") auto
  note nb = queue_neighbours [OF assms(1) Cons]
  obtain l where l: "l = last (y # zs)" by blast
  have b: "nxt (?h x) = y" "prv (?h x) = l" "x \<noteq> NULL" "y \<noteq> NULL" "l \<noteq> NULL" "l \<noteq> x" "q \<noteq> NULL"
    using nb unfolding l by blast+
  note fin = unlink_done [OF assms(1) Cons l]
  let ?ny = "?h(y := (?h y)\<lparr>prv := l\<rparr>)" and ?nl = "?h(l := (?h l)\<lparr>nxt := y\<rparr>)"
  show ?thesis
  proof (cases "x = head ?Q")
    case True
    then have t: "tail ?Q = l" "x \<noteq> tail ?Q" using nb(14,16,17) assms(2) unfolding l by auto
    show ?thesis
    proof (rule fin [where h' = "?ny(l := (?ny l)\<lparr>nxt := y\<rparr>)" and Q' = "?Q\<lparr>head := y, q_size := q_size ?Q - 1\<rparr>"])
      show "dequeue_element q x s = Inr (x, s\<lparr>nodes := ?ny(l := (?ny l)\<lparr>nxt := y\<rparr>),
          queues := (queues s)(q := ?Q\<lparr>head := y, q_size := q_size ?Q - 1\<rparr>)\<rparr>)"
        using b t True unfolding dequeue_element_def typed_access
        by (simp cong: bnd_weak_cong del: fun_upd_apply add: fun_upd_same)
    qed (use t True in auto)
  next
    case head: False
    show ?thesis
    proof (cases "x = tail ?Q")
      case True
      then have t: "head ?Q = y" using nb(15,17) unfolding l by auto
      show ?thesis
      proof (rule fin [where h' = "?nl(y := (?nl y)\<lparr>prv := l\<rparr>)" and Q' = "?Q\<lparr>tail := l, q_size := q_size ?Q - 1\<rparr>"])
        show "dequeue_element q x s = Inr (x, s\<lparr>nodes := ?nl(y := (?nl y)\<lparr>prv := l\<rparr>),
            queues := (queues s)(q := ?Q\<lparr>tail := l, q_size := q_size ?Q - 1\<rparr>)\<rparr>)"
          using b t True head unfolding dequeue_element_def typed_access
          by (simp cong: bnd_weak_cong del: fun_upd_apply add: fun_upd_same)
      qed (use t True head in auto)
    next
      case tail: False
      show ?thesis
      proof (rule fin [where h' = "?nl(y := (?nl y)\<lparr>prv := l\<rparr>)" and Q' = "?Q\<lparr>q_size := q_size ?Q - 1\<rparr>"])
        show "dequeue_element q x s = Inr (x, s\<lparr>nodes := ?nl(y := (?nl y)\<lparr>prv := l\<rparr>),
            queues := (queues s)(q := ?Q\<lparr>q_size := q_size ?Q - 1\<rparr>)\<rparr>)"
          using b head tail unfolding dequeue_element_def typed_access
          by (simp cong: bnd_weak_cong del: fun_upd_apply add: fun_upd_same fun_upd_other)
      qed (use tail head in auto)
    qed
  qed
qed

section \<open>move\<close>

lemma move_node_ok:
  assumes "is_queue s q xs" "x \<notin> set xs" "x \<noteq> NULL" "length xs + 1 < 2 ^ 32"
  obtains s' where "move_node q x s = Inr s'" "is_queue s' q (xs @ [x])" "links_only s s'"
    "\<forall>n. n \<notin> set (xs @ [x]) \<longrightarrow> nodes s' n = nodes s n" "\<forall>p. p \<noteq> q \<longrightarrow> queues s' p = queues s p"
proof -
  let ?Q = "queues s q" and ?h = "nodes s"
  have Q: "q \<noteq> NULL" "NULL \<notin> set xs" "distinct xs" "unat (q_size ?Q) = length xs" "ring ?h xs"
    using assms(1) by (simp_all add: is_queue_def)
  have size: "unat (q_size ?Q + 1) = length (xs @ [x])"
    using Q(4) assms(4) by (simp add: unat_word_ariths)
  show ?thesis
  proof (cases xs)
    case Nil
    then have z: "q_size ?Q = 0" using Q(4) by (simp add: unat_eq_zero)
    let ?s' = "s\<lparr>nodes := ?h(x := (?h x)\<lparr>nxt := x, prv := x\<rparr>),
                 queues := (queues s)(q := ?Q\<lparr>tail := x, head := x, q_size := 1\<rparr>)\<rparr>"
    have "move_node q x s = Inr ?s'"
      using Q(1) assms(3) z by (simp add: move_node_def typed_access)
    then show ?thesis
      using Nil Q(1) assms(3)
      by (intro that [of ?s']) (auto simp: is_queue_def links_only_def)
  next
    case (Cons y ys)
    let ?l = "last (y # ys)"
    have hq: "head ?Q = y" "tail ?Q = ?l" using assms(1) Cons by (simp_all add: is_queue_def)
    have nz: "q_size ?Q \<noteq> 0" using Q(4) Cons by (auto simp: unat_eq_zero [symmetric])
    have nn: "y \<noteq> NULL" "?l \<noteq> NULL" "x \<noteq> y" "x \<noteq> ?l" "?l \<in> set (y # ys)"
      using Q(2) assms(2) Cons last_in_set [of "y # ys"] by (auto simp del: last.simps)
    let ?h1 = "?h(x := (?h x)\<lparr>prv := ?l, nxt := y\<rparr>)"
    let ?h2 = "?h1(?l := (?h1 ?l)\<lparr>nxt := x\<rparr>)"
    let ?h' = "?h2(y := (?h2 y)\<lparr>prv := x\<rparr>)"
    let ?s' = "s\<lparr>nodes := ?h', queues := (queues s)(q := ?Q\<lparr>tail := x, q_size := q_size ?Q + 1\<rparr>)\<rparr>"
    have run: "move_node q x s = Inr ?s'"
      using move_run [OF Q(1) nz assms(3) hq nn(1,2)] unfolding Let_def .
    have "ring ?h' (y # ys @ [x])"
      using Q(3,5) assms(2) nn Cons by (intro ring_link [of ?h]) auto
    moreover have "distinct (y # ys @ [x])" "NULL \<notin> set (y # ys @ [x])"
      using Q(2,3) assms(2,3) Cons by auto
    ultimately have "is_queue ?s' q (xs @ [x])"
      using Q(1) size Cons hq(1) by (simp del: fun_upd_apply ring.simps add: is_queue_def fun_upd_same)
    moreover have "links_only s ?s'" by (auto simp: links_only_def)
    moreover have "\<forall>n. n \<notin> set (xs @ [x]) \<longrightarrow> nodes ?s' n = nodes s n"
      using nn(5) Cons by auto
    ultimately show ?thesis using run by (intro that [of ?s']) auto
  qed
qed

section \<open>enqueue\<close>

text \<open>
  \<open>enqueue_element\<close> repeats the body of \<open>move_node\<close> on a node it has just allocated.
\<close>

lemma enqueue_as_move:
  "enqueue_element q data s =
     bnd (allocate sizeof_Node s) (\<lambda>(new_node, s1).
     if new_node = NULL then Inr (-1, invoke_panic OUT_OF_MEMORY s1)
     else bnd (upd_node new_node (\<lambda>n. n\<lparr>nxt := NULL, tdata := data\<rparr>) s1) (\<lambda>s2.
          bnd (move_node q new_node s2) (\<lambda>s3. Inr (1, s3))))"
  unfolding enqueue_element_def move_node_def bnd_assoc by simp

lemma alloc_frame_kernel:
  assumes "alloc_frame s (s' :: kernel)"
  shows "nodes s' = nodes s" "queues s' = queues s" "tcbs s' = tcbs s" "snodes s' = snodes s"
    "slists s' = slists s" "mem s' = mem s" "cpu s' = cpu s" "running_tasks s' = running_tasks s"
    "waiting_tasks s' = waiting_tasks s" "currently_running s' = currently_running s"
    "task_to_preserve s' = task_to_preserve s" "process_stats s' = process_stats s"
    "kernel_pids s' = kernel_pids s" "pid_of_sleeping_task s' = pid_of_sleeping_task s"
    "tInfo s' = tInfo s" "boot_flags s' = boot_flags s" "io s' = io s" "syms s' = syms s"
    "drv s' = drv s" "lifetime_statistic s' = lifetime_statistic s"
  using assms by (cases s; cases s'; simp add: alloc_frame_def)+

text \<open>The nodes of a queue are live chunks of the heap.\<close>

definition owns :: "kernel \<Rightarrow> addr set \<Rightarrow> bool" where
  "owns s A \<longleftrightarrow> A \<subseteq> fst ` live s"

lemma owns_mono: "owns s A \<Longrightarrow> live s \<subseteq> live s' \<Longrightarrow> owns s' A"
  by (auto simp: owns_def)

lemma enqueue_element_ok:
  assumes q: "is_queue s q xs" "owns s (set xs)" "length xs + 1 < 2 ^ 32"
    and a: "alloc_inv s" "mutex s \<noteq> 1" "table_room sizeof_Node s"
  obtains (ok) p s' k where "enqueue_element q data s = Inr (1, s')" "p \<notin> fst ` live s" "p \<noteq> NULL"
      "is_queue s' q (xs @ [p])" "tdata (nodes s' p) = data"
      "alloc_inv s'" "mutex s' = 0" "live s' = insert (p, k) (live s)"
      "\<exists>s1. alloc_frame s s1 \<and> s' = s1\<lparr>nodes := nodes s', queues := queues s'\<rparr>"
      "\<forall>n. n \<notin> insert p (set xs) \<longrightarrow> nodes s' n = nodes s n"
      "\<forall>n. n \<noteq> p \<longrightarrow> tdata (nodes s' n) = tdata (nodes s n)"
      "\<forall>p. p \<noteq> q \<longrightarrow> queues s' p = queues s p"
  | (full) s1 where "enqueue_element q data s = Inr (-1, invoke_panic OUT_OF_MEMORY s1)"
      "alloc_frame s s1" "alloc_inv s1" "mutex s1 = 0" "live s1 = live s"
proof -
  obtain p s1 where A: "allocate sizeof_Node s = Inr (p, s1)" "alloc_inv s1" "mutex s1 = 0" "alloc_frame s s1"
    "p = NULL \<longrightarrow> live s1 = live s"
    "p \<noteq> NULL \<longrightarrow> (\<exists>n \<ge> unat sizeof_Node. (\<forall>k. (p, k) \<notin> live s) \<and> live s1 = insert (p, n) (live s))"
    by (rule allocate_contract [OF a])
  note K = alloc_frame_kernel [OF A(4)]
  show ?thesis
  proof (cases "p = NULL")
    case True
    then show ?thesis using A by (intro full [of s1]) (simp_all add: enqueue_as_move)
  next
    case False
    then obtain k where k: "\<forall>k. (p, k) \<notin> live s" "live s1 = insert (p, k) (live s)" using A(6) by blast
    have pn: "p \<notin> fst ` live s" using k(1) by force
    let ?s2 = "s1\<lparr>nodes := (nodes s1)(p := (nodes s1 p)\<lparr>nxt := NULL, tdata := data\<rparr>)\<rparr>"
    have px: "p \<notin> set xs" using pn q(2) by (auto simp: owns_def)
    have "is_queue ?s2 q xs = is_queue s q xs"
      by (rule is_queue_cong) (use px K(1,2) in auto)
    with q(1) have q2: "is_queue ?s2 q xs" by simp
    obtain s' where m: "move_node q p ?s2 = Inr s'" "is_queue s' q (xs @ [p])" "links_only ?s2 s'"
      "\<forall>n. n \<notin> set (xs @ [p]) \<longrightarrow> nodes s' n = nodes ?s2 n" "\<forall>r. r \<noteq> q \<longrightarrow> queues s' r = queues ?s2 r"
      by (rule move_node_ok [OF q2 px False q(3)])
    have run: "enqueue_element q data s = Inr (1, s')"
      using A(1) False m(1) unfolding enqueue_as_move upd_node_def
      by (simp cong: bnd_weak_cong del: fun_upd_apply)
    have cong: "alloc_inv s' = alloc_inv s1 \<and> live s' = live s1 \<and> used_entries s' = used_entries s1"
      using links_only_sel(13,23) [OF m(3)] by (intro alloc_inv_cong) simp_all
    have td: "tdata (nodes s' n) = tdata (nodes ?s2 n)" for n by (rule links_only_sel(2) [OF m(3)])
    show ?thesis
    proof (rule ok [OF run pn False m(2)])
      show "tdata (nodes s' p) = data" using td [of p] by simp
      show "alloc_inv s'" "live s' = insert (p, k) (live s)" using cong A(2) k(2) by simp_all
      show "mutex s' = 0" using links_only_sel(14) [OF m(3)] A(3) by simp
      show "\<exists>s1. alloc_frame s s1 \<and> s' = s1\<lparr>nodes := nodes s', queues := queues s'\<rparr>"
        using A(4) m(3) by (intro exI [of _ s1]) (simp add: links_only_def)
      show "\<forall>n. n \<notin> insert p (set xs) \<longrightarrow> nodes s' n = nodes s n" using m(4) K(1) by auto
      show "\<forall>n. n \<noteq> p \<longrightarrow> tdata (nodes s' n) = tdata (nodes s n)" using td K(1) by simp
      show "\<forall>r. r \<noteq> q \<longrightarrow> queues s' r = queues s r" using m(5) K(2) by simp
    qed
  qed
qed


section \<open>Task queues as an interface\<close>

text \<open>
  What the scheduler relies on: taking a node out of a queue and putting one at its end are
  the list operations they seem, touch no other queue, and keep everything else.
\<close>

locale task_queue =
  fixes view :: "'s \<Rightarrow> 'q \<Rightarrow> 'n list \<Rightarrow> bool"
    and take_out :: "'q \<Rightarrow> 'n \<Rightarrow> 's \<Rightarrow> 's res"
    and put :: "'q \<Rightarrow> 'n \<Rightarrow> 's \<Rightarrow> 's res"
    and keeps :: "'s \<Rightarrow> 's \<Rightarrow> bool"
    and valid :: "'n \<Rightarrow> bool"
    and capacity :: nat
  assumes take_ok: "view s q (xs @ x # ys) \<Longrightarrow>
      \<exists>s'. take_out q x s = Inr s' \<and> view s' q (xs @ ys) \<and> keeps s s' \<and>
        (\<forall>p zs. p \<noteq> q \<longrightarrow> set zs \<inter> set (xs @ x # ys) = {} \<longrightarrow> view s p zs \<longrightarrow> view s' p zs)"
    and put_ok: "view s q xs \<Longrightarrow> x \<notin> set xs \<Longrightarrow> valid x \<Longrightarrow> length xs < capacity \<Longrightarrow>
      \<exists>s'. put q x s = Inr s' \<and> view s' q (xs @ [x]) \<and> keeps s s' \<and>
        (\<forall>p zs. p \<noteq> q \<longrightarrow> set zs \<inter> set (x # xs) = {} \<longrightarrow> view s p zs \<longrightarrow> view s' p zs)"
    and view_nodes: "view s q xs \<Longrightarrow> distinct xs \<and> (\<forall>x\<in>set xs. valid x)"
    and keeps_trans: "keeps s t \<Longrightarrow> keeps t u \<Longrightarrow> keeps s u"
begin

text \<open>Moving a node from one queue to the end of another.\<close>

lemma transfer:
  assumes "view s p (xs @ x # ys)" "view s q zs" "p \<noteq> q" "set (xs @ x # ys) \<inter> set zs = {}"
    "length zs < capacity"
  obtains t s' where "take_out p x s = Inr t" "put q x t = Inr s'" "view s' p (xs @ ys)"
    "view s' q (zs @ [x])" "keeps s t" "keeps s s'"
proof -
  from take_ok [OF assms(1)] obtain t where t: "take_out p x s = Inr t" "view t p (xs @ ys)" "keeps s t"
    "\<forall>r us. r \<noteq> p \<longrightarrow> set us \<inter> set (xs @ x # ys) = {} \<longrightarrow> view s r us \<longrightarrow> view t r us" by blast
  have "set zs \<inter> set (xs @ x # ys) = {}" using assms(4) by (simp only: Int_commute)
  with t(4) assms(2,3) have "view t q zs" by (metis (no_types, lifting))
  moreover have "x \<notin> set zs" "valid x" using assms(4) view_nodes [OF assms(1)] by auto
  ultimately obtain s' where s': "put q x t = Inr s'" "view s' q (zs @ [x])" "keeps t s'"
    "\<forall>r us. r \<noteq> q \<longrightarrow> set us \<inter> set (x # zs) = {} \<longrightarrow> view t r us \<longrightarrow> view s' r us"
    using put_ok [of t q zs x] assms(5) by blast
  have "x \<notin> set (xs @ ys)" using view_nodes [OF assms(1)] by auto
  then have "set (xs @ ys) \<inter> set (x # zs) = {}" using assms(4) by auto
  with s'(4) t(2) assms(3) have "view s' p (xs @ ys)" by (metis (no_types, lifting))
  with that t(1,3) s'(1-3) keeps_trans show ?thesis by blast
qed

end

interpretation fifo: task_queue is_queue isolate_node move_node links_only "\<lambda>x. x \<noteq> NULL" "2 ^ 32 - 1"
proof unfold_locales
  fix s q xs x ys assume q: "is_queue s q (xs @ x # ys)"
  obtain s' where I: "isolate_node q x s = Inr s'" "is_queue s' q (xs @ ys)" "links_only s s'"
    "\<forall>n. n \<notin> set (xs @ ys) \<longrightarrow> nodes s' n = nodes s n" "\<forall>p. p \<noteq> q \<longrightarrow> queues s' p = queues s p"
    by (rule isolate_node_ok [OF q])
  have "is_queue s' p zs" if "p \<noteq> q" "set zs \<inter> set (xs @ x # ys) = {}" "is_queue s p zs" for p zs
  proof -
    have "is_queue s' p zs = is_queue s p zs"
      using that(1,2) I(4,5) by (intro is_queue_cong) auto
    with that(3) show ?thesis by simp
  qed
  with I show "\<exists>s'. isolate_node q x s = Inr s' \<and> is_queue s' q (xs @ ys) \<and> links_only s s' \<and>
      (\<forall>p zs. p \<noteq> q \<longrightarrow> set zs \<inter> set (xs @ x # ys) = {} \<longrightarrow> is_queue s p zs \<longrightarrow> is_queue s' p zs)"
    by blast
next
  fix s q xs x assume q: "is_queue s q xs" "x \<notin> set xs" "x \<noteq> NULL" "length xs < 2 ^ 32 - 1"
  then have "length xs + 1 < 2 ^ 32" by simp
  then obtain s' where I: "move_node q x s = Inr s'" "is_queue s' q (xs @ [x])" "links_only s s'"
    "\<forall>n. n \<notin> set (xs @ [x]) \<longrightarrow> nodes s' n = nodes s n" "\<forall>p. p \<noteq> q \<longrightarrow> queues s' p = queues s p"
    by (rule move_node_ok [OF q(1-3)])
  have "is_queue s' p zs" if "p \<noteq> q" "set zs \<inter> set (x # xs) = {}" "is_queue s p zs" for p zs
  proof -
    have "is_queue s' p zs = is_queue s p zs"
      using that(1,2) I(4,5) by (intro is_queue_cong) auto
    with that(3) show ?thesis by simp
  qed
  with I show "\<exists>s'. move_node q x s = Inr s' \<and> is_queue s' q (xs @ [x]) \<and> links_only s s' \<and>
      (\<forall>p zs. p \<noteq> q \<longrightarrow> set zs \<inter> set (x # xs) = {} \<longrightarrow> is_queue s p zs \<longrightarrow> is_queue s' p zs)"
    by blast
next
  fix s q xs assume "is_queue s q xs"
  then show "distinct xs \<and> (\<forall>x\<in>set xs. x \<noteq> NULL)" by (auto simp: is_queue_def)
next
  fix s t u assume "links_only s t" "links_only t u"
  then show "links_only s u" by (rule links_only_trans)
qed

end
