(* ===== verification/Scheduler.thy ===== *)
theory Scheduler
  imports Queue_Spec
begin

text \<open>
  The scheduler: \<open>os/include/process/scheduler.h\<close> (the operations inlined everywhere) and
  \<open>os/src/process/scheduler.c\<close>.
\<close>

section \<open>Helpers\<close>

text \<open>\<open>n->data\<close> as a task control block.\<close>

definition tcb_of :: "addr \<Rightarrow> kernel \<Rightarrow> Tcb res" where
  "tcb_of n s = bnd (node_at n s) (\<lambda>nd. tcb_at (tdata nd) s)"

definition upd_tcb_of :: "addr \<Rightarrow> (Tcb \<Rightarrow> Tcb) \<Rightarrow> kernel \<Rightarrow> kernel res" where
  "upd_tcb_of n f s = bnd (node_at n s) (\<lambda>nd. upd_tcb (tdata nd) f s)"

definition size_of_queue :: "addr \<Rightarrow> kernel \<Rightarrow> u32 res" where
  "size_of_queue q s = bnd (queue_at q s) (\<lambda>Q. Inr (q_size Q))"

text \<open>A task's pid, a \<open>char\<close>, as it is compared with an \<open>unsigned int\<close>.\<close>

definition pid_of :: "Tcb \<Rightarrow> u32" where
  "pid_of t = ucast (pid t)"

abbreviation (input) TimerForGlobalCounting :: u32 where "TimerForGlobalCounting \<equiv> 2"
abbreviation (input) TimerForTaskSleep :: u32 where "TimerForTaskSleep \<equiv> 3"
abbreviation (input) ResolutionForSleepFunction :: u32 where "ResolutionForSleepFunction \<equiv> 1000"
abbreviation (input) DmaTransferedExternalTask :: u32 where "DmaTransferedExternalTask \<equiv> 1"

section \<open>scheduler.h\<close>

definition block_current_task :: "kernel \<Rightarrow> kernel res" where
  "block_current_task s =
     bnd (upd_tcb_of (currently_running s) (\<lambda>t. t\<lparr>tstate := WAITING\<rparr>) (disable_irq s)) (\<lambda>s1.
     bnd (node_at (currently_running s1) s1) (\<lambda>cr.
     let q = prv cr;
         s2 = s1\<lparr>task_to_preserve := currently_running s1\<rparr> in
     bnd (isolate_node (running_tasks s2) (currently_running s2) s2) (\<lambda>s3.
     bnd (move_node (waiting_tasks s3) (currently_running s3) s3) (\<lambda>s4.
     bnd (size_of_queue (running_tasks s4) s4) (\<lambda>sz.
     Inr (svcall (trap_number yieldTask)
            (enable_irq (s4\<lparr>currently_running := if 0 < sz then q else NULL\<rparr>))))))))"

text \<open>\<open>for (i = 0; i < waiting_tasks->size; i++)\<close>, with \<open>k\<close> iterations left.\<close>

fun wakeup_loop :: "nat \<Rightarrow> u32 \<Rightarrow> addr \<Rightarrow> kernel \<Rightarrow> (addr \<times> kernel) res" where
  "wakeup_loop 0 p q s = Inr (NULL, s)"
| "wakeup_loop (Suc k) p q s =
     bnd (tcb_of q s) (\<lambda>t.
     if pid_of t = p then
       bnd (isolate_node (waiting_tasks s) q s) (\<lambda>s1.
       bnd (move_node (running_tasks s1) q s1) (\<lambda>s2.
       bnd (upd_tcb_of q (\<lambda>t. t\<lparr>tstate := READY\<rparr>) s2) (\<lambda>s3.
       Inr (q, s3))))
     else bnd (node_at q s) (\<lambda>n. wakeup_loop k p (nxt n) s))"

definition wakeup_pid :: "u32 \<Rightarrow> kernel \<Rightarrow> (addr \<times> kernel) res" where
  "wakeup_pid p s =
     bnd (get_head_element (waiting_tasks s) s) (\<lambda>q.
     if q = NULL then Inr (NULL, s)
     else bnd (size_of_queue (waiting_tasks s) s) (\<lambda>sz. wakeup_loop (unat sz) p q s))"

text \<open>\<open>scheduler.c\<close>: the workaround the scheduler falls back to.\<close>

fun force_loop :: "nat \<Rightarrow> addr \<Rightarrow> kernel \<Rightarrow> kernel res" where
  "force_loop 0 q s = Inr s"
| "force_loop (Suc k) q s =
     bnd (tcb_of q s) (\<lambda>t.
     if pid_of t = 0 then
       bnd (upd_tcb_of q (\<lambda>t. t\<lparr>tstate := READY\<rparr>) s) (\<lambda>s1.
       Inr (s1\<lparr>currently_running := q, task_to_preserve := q\<rparr>))
     else bnd (node_at q s) (\<lambda>n. force_loop k (nxt n) s))"

definition force_pid0_into_running :: "kernel \<Rightarrow> kernel res" where
  "force_pid0_into_running s =
     bnd (get_head_element (running_tasks s) s) (\<lambda>q.
     bnd (size_of_queue (running_tasks s) s) (\<lambda>sz. force_loop (unat sz) q s))"

text \<open>The round-robin search; \<open>True\<close> when a READY task has been selected.\<close>

fun switch_loop :: "nat \<Rightarrow> kernel \<Rightarrow> (bool \<times> kernel) res" where
  "switch_loop 0 s = Inr (False, s)"
| "switch_loop (Suc k) s =
     bnd (node_at (currently_running s) s) (\<lambda>cr.
     let s1 = s\<lparr>currently_running := nxt cr\<rparr> in
     bnd (tcb_of (currently_running s1) s1) (\<lambda>n.
     if tstate n = READY then Inr (True, s1\<lparr>task_to_preserve := currently_running s1\<rparr>)
     else switch_loop k s1))"

definition switch_task :: "kernel \<Rightarrow> kernel res" where
  "switch_task s =
     (if currently_running s = NULL then
        bnd (wakeup_pid (pid_arg (idle_task (kernel_pids s))) s) (\<lambda>(q, s1).
        let s2 = s1\<lparr>currently_running := q\<rparr> in
        bnd (if q = NULL then force_pid0_into_running s2 else Inr s2) (\<lambda>s3.
        Inr (s3\<lparr>task_to_preserve := currently_running s3\<rparr>)))
      else
        bnd (if dma_interrupt_action (drv s) AND DmaTransferedExternalTask \<noteq> 0
             then bnd (wakeup_pid (pid_arg (idle_task (kernel_pids s))) s) (\<lambda>(q, s1). Inr s1)
             else Inr s) (\<lambda>s1.
        bnd (size_of_queue (running_tasks s1) s1) (\<lambda>sz.
        bnd (switch_loop (unat sz) s1) (\<lambda>(found, s2).
        if found then Inr s2
        else
          bnd (wakeup_pid (pid_arg (idle_task (kernel_pids s2))) s2) (\<lambda>(q, s3).
          let s4 = s3\<lparr>currently_running := q, task_to_preserve := q\<rparr> in
          if q = NULL then force_pid0_into_running s4 else Inr s4)))))"

section \<open>scheduler.c\<close>

fun pending_loop :: "nat \<Rightarrow> u8 \<Rightarrow> kernel \<Rightarrow> u8 res" where
  "pending_loop 0 c s = Inr c"
| "pending_loop (Suc k) c s =
     bnd (tcb_of (currently_running s) s) (\<lambda>n.
     pending_loop k (if tstate n = FINISHED then c + 1 else c) s)"

definition update_process_statistic :: "ProcessLifetime \<Rightarrow> kernel \<Rightarrow> ProcessLifetime res" where
  "update_process_statistic pl s =
     bnd (size_of_queue (waiting_tasks s) s) (\<lambda>wsz.
     bnd (size_of_queue (running_tasks s) s) (\<lambda>rsz.
     bnd (pending_loop (unat rsz) 0 s) (\<lambda>num_of_pending_tasks.
     Inr (pl\<lparr>pl_waiting_tasks := ucast wsz,
             tasks_cleanup_pending := num_of_pending_tasks,
             pl_running_tasks := ucast rsz - num_of_pending_tasks,
             pl_finished_tasks := ucast (num_of_finished_tasks (process_stats s)),
             pl_failed_tasks := ucast (num_of_failed_tasks (process_stats s))\<rparr>))))"

definition zero_ProcessStats :: ProcessStats where
  "zero_ProcessStats = \<lparr>num_of_hardfaults = 0, num_of_finished_tasks = 0, clean_up_requests = 0,
     num_of_failed_tasks = 0, num_of_systick_interrupts = 0, num_of_svcalls = 0, num_of_pendsv = 0,
     panic_state = NO_PANIC\<rparr>"

definition minus_one_KernelPids :: KernelPids where
  "minus_one_KernelPids = \<lparr>idle_task = -1, transfer_handler_pid = -1, statistic_manager = -1,
     generic_printer = -1, external_io_runner_pid = -1\<rparr>"

definition init_scheduler :: "kernel \<Rightarrow> (i32 \<times> kernel) res" where
  "init_scheduler s =
     bnd (new_queue (s\<lparr>currently_running := NULL\<rparr>)) (\<lambda>(q1, s1).
     let s2 = s1\<lparr>running_tasks := q1\<rparr> in
     if q1 = NULL then Inr (-1, s2)
     else bnd (new_queue s2) (\<lambda>(q2, s3).
          let s4 = s3\<lparr>waiting_tasks := q2\<rparr> in
          if q2 = NULL then Inr (-1, s4)
          else Inr (0, s4\<lparr>process_stats := zero_ProcessStats, kernel_pids := minus_one_KernelPids\<rparr>)))"

definition insert_scheduled_task :: "addr \<Rightarrow> kernel \<Rightarrow> (i32 \<times> kernel) res" where
  "insert_scheduled_task tcb s =
     bnd (tcb_at tcb s) (\<lambda>t.
     case tstate t of
       READY \<Rightarrow> bnd (enqueue_element (running_tasks s) tcb s) (\<lambda>(r, s1).
                if sint r < 0 then Inr (-1, s1) else Inr (1, s1))
     | WAITING \<Rightarrow> bnd (enqueue_element (waiting_tasks s) tcb s) (\<lambda>(r, s1).
                if sint r < 0 then Inr (-1, s1) else Inr (1, s1))
     | _ \<Rightarrow> Inr (-1, s))"

definition reboot :: "RebootTypes \<Rightarrow> kernel \<Rightarrow> kernel res" where
  "reboot t s = soft_reset (s\<lparr>boot_flags := (boot_flags s)\<lparr>reboot_type := t\<rparr>\<rparr>)"

fun running_loop :: "nat \<Rightarrow> u32 \<Rightarrow> addr \<Rightarrow> kernel \<Rightarrow> bool res" where
  "running_loop 0 p q s = Inr False"
| "running_loop (Suc k) p q s =
     bnd (tcb_of q s) (\<lambda>t.
     if pid_of t = p then Inr True
     else bnd (node_at q s) (\<lambda>n. running_loop k p (nxt n) s))"

definition is_task_currently_running :: "u32 \<Rightarrow> kernel \<Rightarrow> bool res" where
  "is_task_currently_running p s =
     bnd (size_of_queue (running_tasks s) s) (\<lambda>sz.
     running_loop (unat sz) p (currently_running s) s)"

definition invalidate_current_task :: "kernel \<Rightarrow> kernel res" where
  "invalidate_current_task s =
     bnd (upd_tcb_of (currently_running s) (\<lambda>t. t\<lparr>tstate := INVALID\<rparr>) s) (\<lambda>s1.
     let ps = process_stats s1;
         ps1 = (if DEBUG s1 \<noteq> 0 then ps\<lparr>num_of_failed_tasks := num_of_failed_tasks ps + 1\<rparr> else ps) in
     Inr (s1\<lparr>process_stats := ps1\<lparr>clean_up_requests := clean_up_requests ps1 + 1\<rparr>\<rparr>))"

fun available_loop :: "nat \<Rightarrow> u32 \<Rightarrow> addr \<Rightarrow> kernel \<Rightarrow> bool res" where
  "available_loop 0 p q s = Inr False"
| "available_loop (Suc k) p q s =
     bnd (tcb_of q s) (\<lambda>t.
     if pid_of t = p \<and> tstate t = READY then Inr True
     else bnd (node_at q s) (\<lambda>n. available_loop k p (nxt n) s))"

definition check_tasks_availability :: "u32 \<Rightarrow> kernel \<Rightarrow> bool res" where
  "check_tasks_availability p s =
     bnd (get_head_element (waiting_tasks s) s) (\<lambda>q.
     if q = NULL then Inr False
     else bnd (size_of_queue (waiting_tasks s) s) (\<lambda>sz. available_loop (unat sz) p q s))"

definition join_task :: "u32 \<Rightarrow> kernel \<Rightarrow> kernel res" where
  "join_task pid_to_wait_for s =
     bnd (check_tasks_availability pid_to_wait_for s) (\<lambda>av.
     if \<not> av then Inr s
     else bnd (upd_tcb_of (currently_running s) (\<lambda>t. t\<lparr>join_pid := ucast pid_to_wait_for\<rparr>) s)
            block_current_task)"

text \<open>
  The recursion over a task tree, and the walk along a child list, with fuel; when it runs
  out (a cyclic or endless structure) the outcome is \<open>Spin\<close>.
\<close>

fun kill_all_child_tasksR :: "nat \<Rightarrow> addr \<Rightarrow> kernel \<Rightarrow> kernel res"
  and kill_walk :: "nat \<Rightarrow> addr \<Rightarrow> kernel \<Rightarrow> kernel res" where
  "kill_all_child_tasksR 0 parent s = Inl Spin"
| "kill_all_child_tasksR (Suc k) parent s =
     bnd (tcb_at parent s) (\<lambda>p.
     bnd (slist_at (child_tasks p) s) (\<lambda>l.
     if l_size l = 0 then Inr s else kill_walk k (l_head l) s))"
| "kill_walk 0 q s = Inl Spin"
| "kill_walk (Suc k) q s =
     (if q = NULL then Inr s
      else bnd (snode_at q s) (\<lambda>n.
           bnd (kill_all_child_tasksR k (s_data n) s) (\<lambda>s1.
           bnd (upd_tcb (s_data n) (\<lambda>t. t\<lparr>tstate := INVALID\<rparr>) s1) (\<lambda>s2.
           bnd (snode_at q s2) (\<lambda>n2. kill_walk k (s_next n2) s2)))))"

definition kill_all_child_tasks :: "nat \<Rightarrow> kernel \<Rightarrow> kernel res" where
  "kill_all_child_tasks fuel s =
     bnd (tcb_of (currently_running s) s) (\<lambda>t.
     bnd (slist_at (child_tasks t) s) (\<lambda>l.
     bnd (snode_at (l_head l) s) (\<lambda>q. kill_all_child_tasksR fuel (s_data q) s)))"

fun kill_child_walk :: "nat \<Rightarrow> u32 \<Rightarrow> addr \<Rightarrow> kernel \<Rightarrow> kernel res" where
  "kill_child_walk 0 p q s = Inl Spin"
| "kill_child_walk (Suc k) p q s =
     (if q = NULL then Inr s
      else bnd (snode_at q s) (\<lambda>n.
           bnd (tcb_at (s_data n) s) (\<lambda>t.
           if pid_of t = p then upd_tcb (s_data n) (\<lambda>t. t\<lparr>tstate := INVALID\<rparr>) s
           else kill_child_walk k p (s_next n) s)))"

text \<open>\<open>a ? (List_t*) !parent : parent->child_tasks\<close>: the cast of the negation is the middle operand.\<close>

definition kill_child_task :: "nat \<Rightarrow> u32 \<Rightarrow> addr \<Rightarrow> kernel \<Rightarrow> kernel res" where
  "kill_child_task fuel pid_of_child parent s =
     bnd (tcb_of (currently_running s) s) (\<lambda>t.
     bnd (if child_tasks t \<noteq> NULL then Inr (if parent = NULL then 1 else 0)
          else bnd (tcb_at parent s) (\<lambda>p. Inr (child_tasks p))) (\<lambda>child_tasks.
     bnd (slist_at child_tasks s) (\<lambda>l.
     if l_size l = 0 then Inr s else kill_child_walk fuel pid_of_child (l_head l) s)))"

definition read_global_timer :: "kernel \<Rightarrow> u32 \<times> kernel" where
  "read_global_timer s = timer_read_counter TimerForGlobalCounting s"

text \<open>
  \<open>timer_init\<close> reads \<open>ccr[1]\<close> to \<open>ccr[4]\<close> of a four-element literal: \<open>junk1\<close> and \<open>junk2\<close> are the
  words that follow the two literals on the stack.
\<close>

definition run_scheduler :: "u32 \<Rightarrow> u32 \<Rightarrow> kernel \<Rightarrow> (i32 \<times> kernel) res" where
  "run_scheduler junk1 junk2 s =
     bnd (timer_init TimerForTaskSleep [0, 0, 0, 0, junk1] ResolutionForSleepFunction s) (\<lambda>s1.
     bnd (timer_init TimerForGlobalCounting [0, 0, 0, 0, junk2] 1 (enable_ccx_ir TimerForTaskSleep 1 s1)) (\<lambda>s2.
     let s3 = timer_start TimerForGlobalCounting (timer_flush_counter TimerForGlobalCounting s2) in
     bnd (size_of_queue (running_tasks s3) s3) (\<lambda>sz.
     bnd (if sz = 0 then wakeup_pid (pid_arg (idle_task (kernel_pids s3))) s3 else Inr (1, s3)) (\<lambda>(w, s4).
     if sz = 0 \<and> w = NULL then Inr (-1, invoke_panic SCHEDULER_NOT_INITIALIZED s4)
     else bnd (get_head_element (running_tasks s4) s4) (\<lambda>h.
          let s5 = s4\<lparr>currently_running := h\<rparr> in
          if h = NULL then Inr (-1, invoke_panic SCHEDULER_NOT_INITIALIZED s5)
          else Inr (0, s5\<lparr>task_to_preserve := h\<rparr>))))))"

text \<open>Loading and storing r4 to r11 (\<open>ldmfd r2!, {r4-r11}\<close> and \<open>stmdb r2!, {r4-r11}\<close>).\<close>

definition load_r4_11 :: "addr \<Rightarrow> kernel \<Rightarrow> u32 list" where
  "load_r4_11 a s = map (\<lambda>i. ld32 (mem s) (a + 4 * of_nat i)) [0..<8]"

definition pendsv_isr :: "kernel \<Rightarrow> kernel res" where
  "pendsv_isr s =
     (let s1 = disable_irq s;
          s2 = (if DEBUG s1 \<noteq> 0
                then s1\<lparr>process_stats := (process_stats s1)\<lparr>num_of_pendsv := num_of_pendsv (process_stats s1) + 1\<rparr>\<rparr>
                else s1) in
      bnd (upd_tcb_of (task_to_preserve s2) (\<lambda>t. t\<lparr>sp := psp (cpu s2)\<rparr>) s2) (\<lambda>s3.
      bnd (switch_task s3) (\<lambda>s4.
      bnd (tcb_of (currently_running s4) s4) (\<lambda>t.
      let r2 = sp t;
          s5 = enable_irq s4;
          s6 = s5\<lparr>cpu := (cpu s5)\<lparr>r4_11 := load_r4_11 r2 s5\<rparr>\<rparr>;
          s7 = ST_ENABLE s6 in
      Inr (s7\<lparr>cpu := (cpu s7)\<lparr>psp := r2 + 32\<rparr>\<rparr>)))))"

definition dealloc_or_panic :: "addr \<Rightarrow> kernel \<Rightarrow> kernel res" where
  "dealloc_or_panic a s =
     bnd (deallocate a s) (\<lambda>(r, s1). Inr (if r = 0 then invoke_panic MEMORY_DEALLOC_FAILED s1 else s1))"

definition clean_up_task :: "addr \<Rightarrow> addr \<Rightarrow> kernel \<Rightarrow> kernel res" where
  "clean_up_task t obsolete_node s =
     bnd (tcb_at t s) (\<lambda>tcb.
     bnd (if is_external tcb then dealloc_or_panic (code_section tcb) s else Inr s) (\<lambda>s1.
     bnd (dealloc_or_panic (stacksection_lower_bound tcb) s1) (\<lambda>s2.
     bnd (dealloc_or_panic t s2) (\<lambda>s3.
     bnd (dequeue_element (running_tasks s3) obsolete_node s3) (\<lambda>(old_element, s4).
     dealloc_or_panic old_element s4)))))"

text \<open>
  The loop bound is re-read in every iteration, and \<open>clean_up_task\<close> lowers it; \<open>k\<close> bounds
  the iterations (the size on entry is enough, because the size never grows here).
\<close>

fun search_loop :: "nat \<Rightarrow> u32 \<Rightarrow> addr \<Rightarrow> kernel \<Rightarrow> kernel res" where
  "search_loop 0 j q s = Inr s"
| "search_loop (Suc k) j q s =
     bnd (size_of_queue (running_tasks s) s) (\<lambda>sz.
     if j < sz then
       bnd (node_at q s) (\<lambda>n.
       bnd (tcb_at (tdata n) s) (\<lambda>t.
       bnd (if tstate t = FINISHED \<or> tstate t = INVALID then
              bnd (clean_up_task (tdata n) q s) (\<lambda>s1.
              Inr (s1\<lparr>process_stats := (process_stats s1)\<lparr>clean_up_requests := clean_up_requests (process_stats s1) - 1\<rparr>\<rparr>))
            else Inr s) (\<lambda>s2.
       bnd (node_at q s2) (\<lambda>n2. search_loop k (j + 1) (nxt n2) s2))))
     else Inr s)"

definition search_invalidate_tasks :: "kernel \<Rightarrow> kernel res" where
  "search_invalidate_tasks s =
     bnd (size_of_queue (running_tasks s) s) (\<lambda>sz.
     search_loop (unat sz) 0 (currently_running s) s)"

definition finish_task :: "kernel \<Rightarrow> kernel res" where
  "finish_task s =
     bnd (upd_tcb_of (currently_running s) (\<lambda>t. t\<lparr>tstate := FINISHED\<rparr>) s) (\<lambda>s1.
     bnd (tcb_of (currently_running s1) s1) (\<lambda>t.
     bnd (tcb_at (parent_task t) s1) (\<lambda>p.
     bnd (if (scast (join_pid p) :: u32) = ucast (pid t)
          then bnd (wakeup_pid (pid_of p) s1) (\<lambda>(q, s2). Inr s2) else Inr s1) (\<lambda>s2.
     let ps = process_stats s2;
         ps1 = (if DEBUG s2 \<noteq> 0 then ps\<lparr>num_of_finished_tasks := num_of_finished_tasks ps + 1\<rparr> else ps) in
     Inr (set_pendsv (s2\<lparr>process_stats := ps1\<lparr>clean_up_requests := clean_up_requests ps1 + 1\<rparr>\<rparr>))))))"

definition task_sleep :: "u32 \<Rightarrow> kernel \<Rightarrow> kernel res" where
  "task_sleep requested_time_to_sleep s =
     bnd (tcb_of (currently_running s) s) (\<lambda>t.
     block_current_task
       (timer_start TimerForTaskSleep
         (timer_flush_counter TimerForTaskSleep
           (set_ccr TimerForTaskSleep requested_time_to_sleep 1
             (s\<lparr>pid_of_sleeping_task := pid_of t\<rparr>)))))"

end
