(* ===== verification/Scheduler_Spec.thy ===== *)
theory Scheduler_Spec
  imports Scheduler
begin

text \<open>
  What the scheduler keeps true and does: the two queues hold disjoint lists of tasks, every
  operation moves the tasks it should, and the switch is a round robin over the READY tasks.
\<close>

section \<open>The invariant of the two queues\<close>

definition task :: "kernel \<Rightarrow> addr \<Rightarrow> Tcb" where
  "task s n = tcbs s (tdata (nodes s n))"

definition sched_ok :: "kernel \<Rightarrow> addr list \<Rightarrow> addr list \<Rightarrow> bool" where
  "sched_ok s R W \<longleftrightarrow>
     is_queue s (running_tasks s) R \<and> is_queue s (waiting_tasks s) W \<and>
     running_tasks s \<noteq> waiting_tasks s \<and> set R \<inter> set W = {} \<and>
     (\<forall>n\<in>set R \<union> set W. tdata (nodes s n) \<noteq> NULL) \<and>
     inj_on (\<lambda>n. tdata (nodes s n)) (set R \<union> set W) \<and>
     (\<forall>n\<in>set R. tstate (task s n) \<noteq> WAITING) \<and> (\<forall>n\<in>set W. tstate (task s n) \<noteq> READY) \<and>
     length R + length W < 2 ^ 32 - 1"

lemma sched_okD:
  assumes "sched_ok s R W"
  shows "is_queue s (running_tasks s) R" "is_queue s (waiting_tasks s) W"
    "running_tasks s \<noteq> waiting_tasks s" "set R \<inter> set W = {}"
    "\<And>n. n \<in> set R \<union> set W \<Longrightarrow> tdata (nodes s n) \<noteq> NULL"
    "inj_on (\<lambda>n. tdata (nodes s n)) (set R \<union> set W)"
    "\<And>n. n \<in> set R \<Longrightarrow> tstate (task s n) \<noteq> WAITING"
    "\<And>n. n \<in> set W \<Longrightarrow> tstate (task s n) \<noteq> READY"
    "length R + length W < 2 ^ 32 - 1" "distinct R" "distinct W"
    "\<And>n. n \<in> set R \<union> set W \<Longrightarrow> n \<noteq> NULL"
  using assms unfolding sched_ok_def is_queue_def by blast+

text \<open>A queue as the scheduler's loops walk it.\<close>

lemma queue_size: "is_queue s q xs \<Longrightarrow> size_of_queue q s = Inr (q_size (queues s q)) \<and> unat (q_size (queues s q)) = length xs"
  by (simp add: is_queue_def size_of_queue_def queue_at_def)

lemma queue_head: "is_queue s q xs \<Longrightarrow> get_head_element q s = Inr (if xs = [] then NULL else hd xs)"
  by (simp add: is_queue_def get_head_element_def queue_at_def)

lemma queue_next:
  assumes "is_queue s q (xs @ x # ys)"
  shows "nxt (nodes s x) = hd (ys @ xs @ [x])" "prv (nodes s x) = last (x # ys @ xs)"
proof -
  have "ring (nodes s) (x # ys @ xs)"
    using assms ring_rotate [of "nodes s" xs "x # ys"] by (simp add: is_queue_def)
  from ring_ends [OF this] show "nxt (nodes s x) = hd (ys @ xs @ [x])" "prv (nodes s x) = last (x # ys @ xs)"
    by simp_all
qed

lemma tcb_of_task:
  "n \<noteq> NULL \<Longrightarrow> tdata (nodes s n) \<noteq> NULL \<Longrightarrow> tcb_of n s = Inr (task s n)"
  by (simp add: tcb_of_def node_at_def tcb_at_def task_def)

lemma upd_tcb_of_task:
  "n \<noteq> NULL \<Longrightarrow> tdata (nodes s n) \<noteq> NULL \<Longrightarrow>
   upd_tcb_of n f s = Inr (s\<lparr>tcbs := (tcbs s)(tdata (nodes s n) := f (task s n))\<rparr>)"
  by (simp add: upd_tcb_of_def node_at_def upd_tcb_def task_def)

section \<open>Changes that leave the queues alone\<close>

text \<open>
  \<open>same_queues s s'\<close>: the two states agree on everything \<open>sched_ok\<close> reads, task states aside.
\<close>

definition same_queues :: "kernel \<Rightarrow> kernel \<Rightarrow> bool" where
  "same_queues s s' \<longleftrightarrow> nodes s' = nodes s \<and> queues s' = queues s \<and>
     running_tasks s' = running_tasks s \<and> waiting_tasks s' = waiting_tasks s"

lemma same_queues_is_queue: "same_queues s s' \<Longrightarrow> is_queue s' q xs = is_queue s q xs"
  by (simp add: same_queues_def is_queue_def)

lemma sched_ok_same:
  assumes "sched_ok s R W" "same_queues s s'"
    "\<And>n. n \<in> set R \<Longrightarrow> tstate (task s' n) \<noteq> WAITING" "\<And>n. n \<in> set W \<Longrightarrow> tstate (task s' n) \<noteq> READY"
  shows "sched_ok s' R W"
proof -
  have "running_tasks s' = running_tasks s" "waiting_tasks s' = waiting_tasks s" "nodes s' = nodes s"
    using assms(2) by (simp_all add: same_queues_def)
  then show ?thesis
    using assms(1,3,4) unfolding sched_ok_def same_queues_is_queue [OF assms(2)] by simp
qed

lemma sched_ok_tcbs:
  assumes "sched_ok s R W" "same_queues s s'" "tcbs s' = tcbs s"
  shows "sched_ok s' R W"
proof (rule sched_ok_same [OF assms(1,2)])
  have "task s' n = task s n" for n using assms(2,3) by (simp add: task_def same_queues_def)
  then show "n \<in> set R \<Longrightarrow> tstate (task s' n) \<noteq> WAITING" "n \<in> set W \<Longrightarrow> tstate (task s' n) \<noteq> READY" for n
    using sched_okD(7,8) [OF assms(1)] by simp_all
qed

lemma same_queues_simps [simp]:
  "same_queues s (disable_irq s)" "same_queues s (enable_irq s)"
  "same_queues s (s\<lparr>currently_running := c\<rparr>)" "same_queues s (s\<lparr>task_to_preserve := c\<rparr>)"
  "same_queues s (s\<lparr>tcbs := t\<rparr>)" "same_queues s (svcall n s)"
  "same_queues s (invoke_panic p s)" "same_queues s (s\<lparr>process_stats := ps\<rparr>)"
  "same_queues s (s\<lparr>cpu := c'\<rparr>)" "same_queues s s"
  by (simp_all add: same_queues_def disable_irq_def enable_irq_def svcall_def invoke_panic_def)

lemma same_queues_trans: "same_queues s t \<Longrightarrow> same_queues t u \<Longrightarrow> same_queues s u"
  by (simp add: same_queues_def)

section \<open>Moving a task between the queues\<close>

text \<open>Instances of the queue contract, with the scheduler's invariant carried along.\<close>

lemma move_to_waiting:
  assumes ok: "sched_ok s (as @ c # bs) W"
    and tcb: "same_queues s s1" "\<And>n. n \<in> set (as @ bs) \<Longrightarrow> tstate (task s1 n) \<noteq> WAITING"
      "\<And>n. n \<in> set (c # W) \<Longrightarrow> tstate (task s1 n) \<noteq> READY"
  obtains t s' where "isolate_node (running_tasks s1) c s1 = Inr t" "links_only s1 t"
    "move_node (waiting_tasks t) c t = Inr s'" "links_only s1 s'" "sched_ok s' (as @ bs) (W @ [c])"
proof -
  note D = sched_okD [OF ok]
  have e: "running_tasks s1 = running_tasks s" "waiting_tasks s1 = waiting_tasks s" "nodes s1 = nodes s"
    using tcb(1) by (simp_all add: same_queues_def)
  have q: "is_queue s1 (running_tasks s1) (as @ c # bs)" "is_queue s1 (waiting_tasks s1) W"
    using D(1,2) unfolding same_queues_is_queue [OF tcb(1)] e .
  have "running_tasks s1 \<noteq> waiting_tasks s1" "length W < 2 ^ 32 - 1" using D(3,9) e by simp_all
  from fifo.transfer [OF q this(1) D(4) this(2)] obtain t s' where
    I: "isolate_node (running_tasks s1) c s1 = Inr t" "move_node (waiting_tasks s1) c t = Inr s'"
      "is_queue s' (running_tasks s1) (as @ bs)" "is_queue s' (waiting_tasks s1) (W @ [c])"
      "links_only s1 t" "links_only s1 s'" by blast
  have l: "running_tasks s' = running_tasks s1" "waiting_tasks s' = waiting_tasks s1"
    "waiting_tasks t = waiting_tasks s1" "\<And>n. tdata (nodes s' n) = tdata (nodes s n)" "tcbs s' = tcbs s1"
    using links_only_sel [OF I(6)] links_only_sel [OF I(5)] e by simp_all
  have tk: "task s' n = task s1 n" for n using l(4,5) e by (simp add: task_def)
  have U: "set (as @ bs) \<union> set (W @ [c]) = set (as @ c # bs) \<union> set W" by auto
  have "sched_ok s' (as @ bs) (W @ [c])"
    unfolding sched_ok_def U l
  proof (intro conjI)
    show "set (as @ bs) \<inter> set (W @ [c]) = {}" using D(4,10) by auto
    show "\<forall>n\<in>set (as @ bs). tstate (task s' n) \<noteq> WAITING" using tcb(2) tk by simp
    show "\<forall>n\<in>set (W @ [c]). tstate (task s' n) \<noteq> READY" using tcb(3) tk by simp
    show "length (as @ bs) + length (W @ [c]) < 2 ^ 32 - 1" using D(9) by simp
  qed (use I(3,4) D(3,5,6) e in simp_all)
  with I l(3) that show ?thesis by simp
qed

lemma move_to_running:
  assumes ok: "sched_ok s R (as @ c # bs)"
  obtains t s2 where "isolate_node (waiting_tasks s) c s = Inr t" "links_only s t"
    "move_node (running_tasks t) c t = Inr s2" "links_only s s2"
    "is_queue s2 (running_tasks s) (R @ [c])" "is_queue s2 (waiting_tasks s) (as @ bs)"
proof -
  note D = sched_okD [OF ok]
  have "waiting_tasks s \<noteq> running_tasks s" "length R < 2 ^ 32 - 1" "set (as @ c # bs) \<inter> set R = {}"
    using D(3,4,9) by auto
  from fifo.transfer [OF D(2,1) this(1,3,2)] obtain t s' where
    I: "isolate_node (waiting_tasks s) c s = Inr t" "move_node (running_tasks s) c t = Inr s'"
      "is_queue s' (waiting_tasks s) (as @ bs)" "is_queue s' (running_tasks s) (R @ [c])"
      "links_only s t" "links_only s s'" by blast
  with that links_only_sel(4) [OF I(5)] show ?thesis by simp
qed

section \<open>block\<close>

text \<open>Setting a task's state, seen from the other tasks.\<close>

lemma task_upd:
  assumes "inj_on (\<lambda>n. tdata (nodes s n)) A" "n \<in> A" "c \<in> A"
  shows "task (s\<lparr>tcbs := (tcbs s)(tdata (nodes s c) := t)\<rparr>) n = (if n = c then t else task s n)"
  using assms by (auto simp: task_def dest: inj_onD)

theorem block_current_task_ok:
  assumes ok: "sched_ok s (as @ c # bs) W" and c: "currently_running s = c"
  obtains s' where "block_current_task s = Inr s'" "sched_ok s' (as @ bs) (W @ [c])"
    "tcbs s' = (tcbs s)(tdata (nodes s c) := (task s c)\<lparr>tstate := WAITING\<rparr>)"
    "currently_running s' = (if as @ bs = [] then NULL else last (bs @ as))"
    "task_to_preserve s' = c" "\<forall>n. tdata (nodes s' n) = tdata (nodes s n)"
    "cpu s' = (cpu s)\<lparr>primask := False, r4_11 := (r4_11 (cpu s))[2 := 2], svc_pending := True\<rparr>"
    "mem s' = mem s" "drv s' = drv s" "kernel_pids s' = kernel_pids s"
    "pid_of_sleeping_task s' = pid_of_sleeping_task s"
proof -
  note D = sched_okD [OF ok]
  have cn: "c \<noteq> NULL" "tdata (nodes s c) \<noteq> NULL" using D(5,12) [of c] by auto
  let ?T = "(tcbs s)(tdata (nodes s c) := (task s c)\<lparr>tstate := WAITING\<rparr>)"
  let ?s1 = "(disable_irq s)\<lparr>tcbs := ?T, task_to_preserve := c\<rparr>"
  have sq: "same_queues s ?s1" by (simp add: same_queues_def disable_irq_def)
  have tk: "task ?s1 n = (if n = c then (task s c)\<lparr>tstate := WAITING\<rparr> else task s n)"
    if "n \<in> set (as @ c # bs) \<union> set W" for n
    using task_upd [OF D(6) that, of c "(task s c)\<lparr>tstate := WAITING\<rparr>"]
    by (simp add: task_def disable_irq_def)
  have r: "tstate (task ?s1 n) \<noteq> WAITING" if n: "n \<in> set (as @ bs)" for n
  proof -
    have nc: "n \<noteq> c" "n \<in> set (as @ c # bs)" using n D(10) by auto
    have "task ?s1 n = task s n" by (rule tk [OF UnI1 [OF nc(2)], unfolded if_not_P [OF nc(1)]])
    with D(7) [OF nc(2)] show ?thesis by (simp only: not_False_eq_True)
  qed
  have w: "tstate (task ?s1 n) \<noteq> READY" if n: "n \<in> set (c # W)" for n
  proof -
    have "task ?s1 n = (if n = c then (task s c)\<lparr>tstate := WAITING\<rparr> else task s n)"
      using n by (intro tk) auto
    with n D(8) [of n] show ?thesis by (auto simp only: set_simps insert_iff split: if_splits) simp_all
  qed
  from ok sq r w obtain t s4 where I: "isolate_node (running_tasks ?s1) c ?s1 = Inr t" "links_only ?s1 t"
    "move_node (waiting_tasks t) c t = Inr s4" "links_only ?s1 s4" "sched_ok s4 (as @ bs) (W @ [c])"
    by (rule move_to_waiting)
  note L = links_only_sel [OF I(4)]
  have L': "running_tasks s4 = running_tasks s" "waiting_tasks s4 = waiting_tasks s" "currently_running t = c"
    "cpu s4 = (cpu s)\<lparr>primask := True\<rparr>" "task_to_preserve s4 = c" "tcbs s4 = ?T"
    using L links_only_sel(6) [OF I(2)] c by (simp_all add: disable_irq_def)
  have sz: "size_of_queue (running_tasks s) s4 = Inr (q_size (queues s4 (running_tasks s)))"
    "unat (q_size (queues s4 (running_tasks s))) = length (as @ bs)"
    using queue_size [OF sched_okD(1) [OF I(5)]] L'(1) by simp_all
  then have pos: "0 < q_size (queues s4 (running_tasks s)) \<longleftrightarrow> as @ bs \<noteq> []"
    by (simp add: word_less_nat_alt)
  have prv: "prv (nodes s c) = last (c # bs @ as)" by (rule queue_next(2) [OF D(1)])
  let ?q = "if as @ bs = [] then NULL else last (bs @ as)"
  let ?s' = "svcall (trap_number yieldTask) (enable_irq (s4\<lparr>currently_running := ?q\<rparr>))"
  have u: "upd_tcb_of c (\<lambda>t. t\<lparr>tstate := WAITING\<rparr>) (disable_irq s) = Inr ((disable_irq s)\<lparr>tcbs := ?T\<rparr>)"
    using upd_tcb_of_task [of c "disable_irq s"] cn by (simp add: task_def disable_irq_def)
  have cr: "currently_running ((disable_irq s)\<lparr>tcbs := ?T\<rparr>) = c" "currently_running ?s1 = c"
    "node_at c ((disable_irq s)\<lparr>tcbs := ?T\<rparr>) = Inr (nodes s c)"
    using c cn by (simp_all add: disable_irq_def node_at_def)
  have "(if 0 < q_size (queues s4 (running_tasks s)) then prv (nodes s c) else NULL) = ?q"
    using pos prv by auto
  then have run: "block_current_task s = Inr ?s'"
    unfolding block_current_task_def c
    by (simp only: u bnd_simps cr Let_def I(1,3) L' sz(1))
  show ?thesis
  proof (rule that [OF run])
    show "sched_ok ?s' (as @ bs) (W @ [c])"
      by (rule sched_ok_tcbs [OF I(5)]) (simp_all add: same_queues_def svcall_def enable_irq_def)
  qed (use L L' in \<open>simp_all add: svcall_def enable_irq_def disable_irq_def\<close>)
qed

section \<open>Walking a ring\<close>

lemma find_mem: "find P xs = Some x \<Longrightarrow> x \<in> set xs \<and> P x"
  by (induction xs) (auto split: if_splits)

text \<open>Waking a task changes only links and task control blocks.\<close>

definition wake_frame :: "kernel \<Rightarrow> kernel \<Rightarrow> bool" where
  "wake_frame s s' \<longleftrightarrow> s' = s\<lparr>nodes := nodes s', queues := queues s', tcbs := tcbs s'\<rparr>"

lemma wake_frame_sel:
  assumes "wake_frame s s'"
  shows "cpu s' = cpu s" "mem s' = mem s" "running_tasks s' = running_tasks s"
    "waiting_tasks s' = waiting_tasks s" "currently_running s' = currently_running s"
    "task_to_preserve s' = task_to_preserve s" "process_stats s' = process_stats s"
    "kernel_pids s' = kernel_pids s" "pid_of_sleeping_task s' = pid_of_sleeping_task s"
    "io s' = io s" "syms s' = syms s" "MEM_TABLE s' = MEM_TABLE s" "mutex s' = mutex s"
    "slists s' = slists s" "snodes s' = snodes s" "DEBUG s' = DEBUG s" "SYSTICK s' = SYSTICK s"
    "drv s' = drv s" "mmio s' = mmio s" "inputs s' = inputs s"
    "USEABLE_MEM_START s' = USEABLE_MEM_START s" "tInfo s' = tInfo s" "boot_flags s' = boot_flags s"
    "writes s' = writes s" "lock_r1 s' = lock_r1 s" "lifetime_statistic s' = lifetime_statistic s"
  using assms by (cases s; cases s'; simp add: wake_frame_def)+

lemma wake_frame_refl [simp]: "wake_frame s s"
  by (simp add: wake_frame_def)

text \<open>
  \<open>walk s q xs\<close>: starting at \<open>q\<close> and following \<open>next\<close>, the loops of the scheduler meet the
  tasks \<open>xs\<close> in order.
\<close>

fun walk :: "kernel \<Rightarrow> addr \<Rightarrow> addr list \<Rightarrow> bool" where
  "walk s q [] \<longleftrightarrow> True"
| "walk s q (x # xs) \<longleftrightarrow>
     q = x \<and> x \<noteq> NULL \<and> tdata (nodes s x) \<noteq> NULL \<and> walk s (nxt (nodes s x)) xs"

lemma walk_links:
  "links (nodes s) p xs n \<Longrightarrow> \<forall>x\<in>set xs. x \<noteq> NULL \<and> tdata (nodes s x) \<noteq> NULL \<Longrightarrow>
   walk s (nxt (nodes s p)) xs"
  by (induction xs arbitrary: p) auto

lemma walk_queue:
  assumes "is_queue s q (xs @ ys)" "\<forall>x\<in>set (xs @ ys). tdata (nodes s x) \<noteq> NULL" "ys \<noteq> []"
  shows "walk s (hd ys) (ys @ xs)"
proof -
  obtain y zs where ys: "ys = y # zs" using assms(3) by (cases ys) auto
  have "ring (nodes s) (y # zs @ xs)"
    using assms(1) ring_rotate [of "nodes s" xs "y # zs"] by (simp add: is_queue_def ys)
  then have l: "links (nodes s) y (zs @ xs) y" by simp
  have nn: "\<forall>x\<in>set (xs @ ys). x \<noteq> NULL" using assms(1) by (auto simp: is_queue_def)
  have "walk s (nxt (nodes s y)) (zs @ xs)"
    by (rule walk_links [OF l]) (use assms(2) nn ys in auto)
  then show ?thesis using assms(2) nn ys by auto
qed

lemma walk_head:
  assumes "is_queue s q xs" "\<forall>x\<in>set xs. tdata (nodes s x) \<noteq> NULL" "xs \<noteq> []"
  shows "walk s (hd xs) xs"
  using walk_queue [of s q "[]" xs] assms by simp

lemma walk_step:
  "walk s q (x # xs) \<Longrightarrow> q = x \<and> tcb_of x s = Inr (task s x) \<and> node_at x s = Inr (nodes s x)"
  by (simp add: tcb_of_task node_at_def)

section \<open>wakeup\<close>

text \<open>What \<open>wakeup_pid\<close> does with the node it has found.\<close>

definition wake_node :: "addr \<Rightarrow> kernel \<Rightarrow> (addr \<times> kernel) res" where
  "wake_node q s =
     bnd (isolate_node (waiting_tasks s) q s) (\<lambda>s1.
     bnd (move_node (running_tasks s1) q s1) (\<lambda>s2.
     bnd (upd_tcb_of q (\<lambda>t. t\<lparr>tstate := READY\<rparr>) s2) (\<lambda>s3.
     Inr (q, s3))))"

lemma wakeup_loop_find:
  "walk s q xs \<Longrightarrow>
   wakeup_loop (length xs) p q s =
     (case find (\<lambda>n. pid_of (task s n) = p) xs of None \<Rightarrow> Inr (NULL, s) | Some n \<Rightarrow> wake_node n s)"
proof (induction xs arbitrary: q)
  case (Cons x xs)
  note W = walk_step [OF Cons.prems]
  show ?case
  proof (cases "pid_of (task s x) = p")
    case True
    with W show ?thesis by (simp add: wake_node_def)
  next
    case False
    with W Cons show ?thesis by simp
  qed
qed simp

lemma wake_node_ok:
  assumes ok: "sched_ok s R (as @ c # bs)"
  obtains s' where "wake_node c s = Inr (c, s')" "sched_ok s' (R @ [c]) (as @ bs)"
    "tcbs s' = (tcbs s)(tdata (nodes s c) := (task s c)\<lparr>tstate := READY\<rparr>)"
    "\<forall>n. tdata (nodes s' n) = tdata (nodes s n)"
    "wake_frame s s'"
proof -
  note D = sched_okD [OF ok]
  have cn: "c \<noteq> NULL" "tdata (nodes s c) \<noteq> NULL" using D(5,12) [of c] by auto
  from ok obtain t s2 where I: "isolate_node (waiting_tasks s) c s = Inr t" "links_only s t"
    "move_node (running_tasks t) c t = Inr s2" "links_only s s2"
    "is_queue s2 (running_tasks s) (R @ [c])" "is_queue s2 (waiting_tasks s) (as @ bs)"
    by (rule move_to_running)
  note L = links_only_sel [OF I(4)]
  have tk2: "task s2 n = task s n" for n using L(1,2) by (simp add: task_def)
  let ?T = "(tcbs s)(tdata (nodes s c) := (task s c)\<lparr>tstate := READY\<rparr>)"
  let ?s' = "s2\<lparr>tcbs := ?T\<rparr>"
  have run: "wake_node c s = Inr (c, ?s')"
    using I(1,3) upd_tcb_of_task [of c s2 "\<lambda>t. t\<lparr>tstate := READY\<rparr>"] cn L(1,2) tk2
    by (simp add: wake_node_def)
  have U: "set (R @ [c]) \<union> set (as @ bs) = set R \<union> set (as @ c # bs)" by auto
  have tk: "task ?s' n = (if n = c then (task s c)\<lparr>tstate := READY\<rparr> else task s n)"
    if "n \<in> set R \<union> set (as @ c # bs)" for n
    using task_upd [OF D(6) that, of c "(task s c)\<lparr>tstate := READY\<rparr>"] L(2) by (simp add: task_def)
  have "sched_ok ?s' (R @ [c]) (as @ bs)"
    unfolding sched_ok_def U
  proof (intro conjI)
    show "set (R @ [c]) \<inter> set (as @ bs) = {}" using D(4,11) by auto
    show "\<forall>n\<in>set (R @ [c]). tstate (task ?s' n) \<noteq> WAITING"
    proof
      fix n assume n: "n \<in> set (R @ [c])"
      then have "task ?s' n = (if n = c then (task s c)\<lparr>tstate := READY\<rparr> else task s n)" by (intro tk) auto
      with n D(7) [of n] show "tstate (task ?s' n) \<noteq> WAITING" by (cases "n = c") simp_all
    qed
    show "\<forall>n\<in>set (as @ bs). tstate (task ?s' n) \<noteq> READY"
    proof
      fix n assume n: "n \<in> set (as @ bs)"
      then have "task ?s' n = (if n = c then (task s c)\<lparr>tstate := READY\<rparr> else task s n)" by (intro tk) auto
      moreover have "n \<noteq> c" "n \<in> set (as @ c # bs)" using n D(11) by auto
      ultimately show "tstate (task ?s' n) \<noteq> READY" using D(8) [of n] by simp
    qed
    show "is_queue ?s' (running_tasks ?s') (R @ [c])" "is_queue ?s' (waiting_tasks ?s') (as @ bs)"
      using I(5,6) L(4,5) by (simp_all add: is_queue_def)
    show "length (R @ [c]) + length (as @ bs) < 2 ^ 32 - 1" using D(9) by simp
  qed (use D(3,5,6) L in simp_all)
  moreover have "wake_frame s ?s'"
    using I(4) unfolding links_only_def wake_frame_def by (cases s; cases s2) simp
  ultimately show ?thesis using run L(2) by (intro that [of ?s']) simp_all
qed

lemma wakeup_pid_find:
  assumes ok: "sched_ok s R W"
  shows "wakeup_pid p s =
    (case find (\<lambda>n. pid_of (task s n) = p) W of None \<Rightarrow> Inr (NULL, s) | Some n \<Rightarrow> wake_node n s)"
proof (cases "W = []")
  case True
  then show ?thesis using queue_head [OF sched_okD(2) [OF ok]] by (simp add: wakeup_pid_def)
next
  case False
  note D = sched_okD [OF ok]
  have "walk s (hd W) W" by (rule walk_head [OF D(2)]) (use D(5) False in auto)
  moreover have "hd W \<noteq> NULL" using D(12) [of "hd W"] False by simp
  ultimately show ?thesis
    using queue_head [OF D(2)] queue_size [OF D(2)] False wakeup_loop_find [of s "hd W" W p]
    by (simp add: wakeup_pid_def)
qed

lemma wakeup_pid_cases:
  assumes ok: "sched_ok s R W"
  obtains (none) "wakeup_pid p s = Inr (NULL, s)" "\<forall>n\<in>set W. pid_of (task s n) \<noteq> p"
  | (woken) as c bs s' where "W = as @ c # bs" "pid_of (task s c) = p" "\<forall>n\<in>set as. pid_of (task s n) \<noteq> p"
      "wakeup_pid p s = Inr (c, s')" "c \<noteq> NULL" "sched_ok s' (R @ [c]) (as @ bs)"
      "tcbs s' = (tcbs s)(tdata (nodes s c) := (task s c)\<lparr>tstate := READY\<rparr>)"
      "\<forall>n. tdata (nodes s' n) = tdata (nodes s n)"
      "wake_frame s s'"
proof (cases "\<exists>n\<in>set W. pid_of (task s n) = p")
  case False
  then have "find (\<lambda>n. pid_of (task s n) = p) W = None" by (auto simp: find_None_iff)
  with False show ?thesis using wakeup_pid_find [OF ok, of p] by (intro none) auto
next
  case True
  then obtain as c bs where W: "W = as @ c # bs" "pid_of (task s c) = p" "\<forall>n\<in>set as. pid_of (task s n) \<noteq> p"
    using split_list_first_prop [of W "\<lambda>n. pid_of (task s n) = p"] by auto
  have f: "find (\<lambda>n. pid_of (task s n) = p) W = Some c"
    unfolding W(1) using W(2,3) by (induction as) auto
  from ok W(1) have ok': "sched_ok s R (as @ c # bs)" by simp
  then obtain s' where S: "wake_node c s = Inr (c, s')" "sched_ok s' (R @ [c]) (as @ bs)"
    "tcbs s' = (tcbs s)(tdata (nodes s c) := (task s c)\<lparr>tstate := READY\<rparr>)"
    "\<forall>n. tdata (nodes s' n) = tdata (nodes s n)"
    "wake_frame s s'"
    by (rule wake_node_ok)
  have "c \<noteq> NULL" using sched_okD(12) [OF ok', of c] by simp
  with W S f show ?thesis using wakeup_pid_find [OF ok, of p] by (intro woken) auto
qed

text \<open>
  \<open>waiter p s W\<close>: the first waiting task with pid \<open>p\<close>.  \<open>woke q s R W s' R' W'\<close>: the waiting task \<open>q\<close>
  (none, if it is \<open>None\<close>) has been moved to the end of the running queue and made READY, no other task has
  changed, and the running task is the same.
\<close>

definition waiter :: "u32 \<Rightarrow> kernel \<Rightarrow> addr list \<Rightarrow> addr option" where
  "waiter p s W = find (\<lambda>n. pid_of (task s n) = p) W"

definition woke :: "addr option \<Rightarrow> kernel \<Rightarrow> addr list \<Rightarrow> addr list \<Rightarrow> kernel \<Rightarrow> addr list \<Rightarrow> addr list \<Rightarrow> bool" where
  "woke q s R W s' R' W' \<longleftrightarrow>
     (\<forall>n. tdata (nodes s' n) = tdata (nodes s n)) \<and> currently_running s' = currently_running s \<and>
     (case q of
        None \<Rightarrow> R' = R \<and> W' = W \<and> tcbs s' = tcbs s
      | Some c \<Rightarrow> \<exists>as bs. W = as @ c # bs \<and> R' = R @ [c] \<and> W' = as @ bs \<and>
          tcbs s' = (tcbs s)(tdata (nodes s c) := (task s c)\<lparr>tstate := READY\<rparr>))"

lemma woke_none [simp]: "woke None s R W s R W"
  by (simp add: woke_def)

lemma woke_cong:
  assumes "woke q s R W s' R' W'" "tcbs t = tcbs s" "currently_running t = currently_running s" "nodes t = nodes s"
    "tcbs t' = tcbs s'" "currently_running t' = currently_running s'" "nodes t' = nodes s'"
  shows "woke q t R W t' R' W'"
  using assms by (simp add: woke_def task_def split: option.splits)

lemma woke_set: "woke q s R W s' R' W' \<Longrightarrow> set R' \<union> set W' = set R \<union> set W"
  by (auto simp: woke_def split: option.splits)

lemma waiter_mem: "waiter p s W = Some n \<Longrightarrow> n \<in> set W \<and> pid_of (task s n) = p"
  by (auto simp: waiter_def find_Some_iff)

lemma waiter_cong: "(\<And>n. n \<in> set W \<Longrightarrow> pid (task t n) = pid (task s n)) \<Longrightarrow> waiter p t W = waiter p s W"
  unfolding waiter_def by (rule find_cong) (simp_all add: pid_of_def)

lemma wakeup_returns:
  assumes "sched_ok s R W"
  shows "\<exists>q s'. wakeup_pid p s = Inr (q, s')"
  using assms by (cases rule: wakeup_pid_cases [where p = p]) auto

lemma wakeup_woke:
  assumes ok: "sched_ok s R W" and w: "wakeup_pid p s = Inr (q, s')"
  shows "\<exists>R' W'. sched_ok s' R' W' \<and> woke (waiter p s W) s R W s' R' W' \<and> wake_frame s s'"
  using ok
proof (cases rule: wakeup_pid_cases [where p = p])
  case none
  then have "s' = s" "waiter p s W = None" using w by (auto simp: waiter_def find_None_iff)
  then show ?thesis using ok woke_none wake_frame_refl by metis
next
  case (woken as c bs t)
  have "waiter p s W = Some c"
    unfolding waiter_def woken(1) using woken(2,3) by (induction as) auto
  moreover have "woke (Some c) s R W t (R @ [c]) (as @ bs)"
    unfolding woke_def option.case using woken(1,7,8) wake_frame_sel(5) [OF woken(9)] by blast
  ultimately show ?thesis using woken(4,6,9) w by auto
qed

section \<open>The workaround for pid 0\<close>

lemma force_loop_find:
  "walk s q xs \<Longrightarrow>
   force_loop (length xs) q s =
     (case find (\<lambda>n. pid_of (task s n) = 0) xs of
        None \<Rightarrow> Inr s
      | Some n \<Rightarrow> Inr (s\<lparr>tcbs := (tcbs s)(tdata (nodes s n) := (task s n)\<lparr>tstate := READY\<rparr>),
                        currently_running := n, task_to_preserve := n\<rparr>))"
proof (induction xs arbitrary: q)
  case (Cons x xs)
  note W = walk_step [OF Cons.prems]
  have x: "x \<noteq> NULL" "tdata (nodes s x) \<noteq> NULL" using Cons.prems by simp_all
  show ?case
  proof (cases "pid_of (task s x) = 0")
    case True
    with W x show ?thesis by (simp add: upd_tcb_of_task)
  next
    case False
    with W Cons show ?thesis by simp
  qed
qed simp

lemma set_ready_ok:
  assumes ok: "sched_ok s R W" and n: "n \<in> set R"
  shows "sched_ok (s\<lparr>tcbs := (tcbs s)(tdata (nodes s n) := (task s n)\<lparr>tstate := READY\<rparr>),
                     currently_running := c, task_to_preserve := p\<rparr>) R W"
    (is "sched_ok ?s' R W")
proof (rule sched_ok_same [OF ok])
  note D = sched_okD [OF ok]
  show "same_queues s ?s'" by (simp add: same_queues_def)
  have tk: "task ?s' m = (if m = n then (task s n)\<lparr>tstate := READY\<rparr> else task s m)"
    if "m \<in> set R \<union> set W" for m
    using task_upd [OF D(6) that, of n "(task s n)\<lparr>tstate := READY\<rparr>"] n by (simp add: task_def)
  show "tstate (task ?s' m) \<noteq> WAITING" if m: "m \<in> set R" for m
    using tk [OF UnI1 [OF m]] D(7) [OF m] by (cases "m = n") simp_all
  show "tstate (task ?s' m) \<noteq> READY" if m: "m \<in> set W" for m
  proof -
    have "m \<noteq> n" using m n D(4) by auto
    with tk [OF UnI2 [OF m]] D(8) [OF m] show ?thesis by simp
  qed
qed

lemma force_pid0_ok:
  assumes ok: "sched_ok s R W" and i: "i \<in> set R" "pid_of (task s i) = 0"
  obtains n where "n \<in> set R" "pid_of (task s n) = 0"
    "force_pid0_into_running s =
       Inr (s\<lparr>tcbs := (tcbs s)(tdata (nodes s n) := (task s n)\<lparr>tstate := READY\<rparr>),
              currently_running := n, task_to_preserve := n\<rparr>)"
proof -
  note D = sched_okD [OF ok]
  have ne: "R \<noteq> []" using i by auto
  have w: "walk s (hd R) R" by (rule walk_head [OF D(1)]) (use D(5) ne in auto)
  obtain n where f: "find (\<lambda>n. pid_of (task s n) = 0) R = Some n"
  proof (cases "find (\<lambda>n. pid_of (task s n) = 0) R")
    case None
    with i show ?thesis by (auto simp: find_None_iff)
  qed
  then have "n \<in> set R" "pid_of (task s n) = 0" by (auto simp: find_Some_iff)
  moreover have "force_pid0_into_running s =
      Inr (s\<lparr>tcbs := (tcbs s)(tdata (nodes s n) := (task s n)\<lparr>tstate := READY\<rparr>),
             currently_running := n, task_to_preserve := n\<rparr>)"
    using queue_head [OF D(1)] queue_size [OF D(1)] ne force_loop_find [OF w] f
    by (simp add: force_pid0_into_running_def)
  ultimately show ?thesis by (rule that)
qed

section \<open>The switch\<close>

lemma walk_links_back:
  "links (nodes s) p xs n \<Longrightarrow> \<forall>x\<in>set (xs @ [n]). x \<noteq> NULL \<and> tdata (nodes s x) \<noteq> NULL \<Longrightarrow>
   walk s (nxt (nodes s p)) (xs @ [n])"
  by (induction xs arbitrary: p) auto

lemma walk_after:
  assumes ok: "sched_ok s (as @ c # bs) W"
  shows "walk s (nxt (nodes s c)) (bs @ as @ [c])"
proof -
  note D = sched_okD [OF ok]
  have "ring (nodes s) (c # bs @ as)"
    using D(1) ring_rotate [of "nodes s" as "c # bs"] by (simp add: is_queue_def)
  then have l: "links (nodes s) c (bs @ as) c" by simp
  have v: "\<forall>x\<in>set ((bs @ as) @ [c]). x \<noteq> NULL \<and> tdata (nodes s x) \<noteq> NULL" using D(5,12) by auto
  show ?thesis using walk_links_back [OF l v] by simp
qed

definition ready :: "kernel \<Rightarrow> addr \<Rightarrow> bool" where
  "ready s n \<longleftrightarrow> tstate (task s n) = READY"

lemma switch_loop_find:
  assumes "walk s (nxt (nodes s c)) xs" "currently_running s = c" "c \<noteq> NULL"
  shows "switch_loop (length xs) s =
     (case find (ready s) xs of
        None \<Rightarrow> Inr (False, s\<lparr>currently_running := last (c # xs)\<rparr>)
      | Some n \<Rightarrow> Inr (True, s\<lparr>currently_running := n, task_to_preserve := n\<rparr>))"
  using assms
proof (induction xs arbitrary: s c)
  case Nil
  then show ?case by simp
next
  case (Cons x xs)
  let ?s1 = "s\<lparr>currently_running := x\<rparr>"
  have x: "nxt (nodes s c) = x" "x \<noteq> NULL" "tdata (nodes s x) \<noteq> NULL" "walk s (nxt (nodes s x)) xs"
    using Cons.prems(1) by simp_all
  have t: "tcb_of x ?s1 = Inr (task s x)" using x(2,3) by (simp add: tcb_of_task task_def)
  have tk: "task ?s1 = task s" by (rule ext) (simp add: task_def)
  have rd: "ready ?s1 = ready s" by (rule ext) (simp add: ready_def tk)
  have w: "walk ?s1 q xs = walk s q xs" for q xs by (induction xs arbitrary: q) simp_all
  have step: "switch_loop (length (x # xs)) s =
      (if ready s x then Inr (True, ?s1\<lparr>task_to_preserve := x\<rparr>) else switch_loop (length xs) ?s1)"
    using Cons.prems(2,3) x(1) t by (simp add: node_at_def ready_def)
  show ?case
  proof (cases "ready s x")
    case True
    then show ?thesis by (simp only: step) simp
  next
    case False
    have "switch_loop (length xs) ?s1 =
       (case find (ready ?s1) xs of
          None \<Rightarrow> Inr (False, ?s1\<lparr>currently_running := last (x # xs)\<rparr>)
        | Some n \<Rightarrow> Inr (True, ?s1\<lparr>currently_running := n, task_to_preserve := n\<rparr>))"
      using x(2,4) w by (intro Cons.IH) simp_all
    with False show ?thesis by (simp only: step rd) (simp split: option.split)
  qed
qed

lemma switch_search:
  assumes ok: "sched_ok s (as @ c # bs) W" and c: "currently_running s = c"
  obtains sz where "size_of_queue (running_tasks s) s = Inr sz"
    "switch_loop (unat sz) s =
      (case find (ready s) (bs @ as @ [c]) of
         None \<Rightarrow> Inr (False, s)
       | Some n \<Rightarrow> Inr (True, s\<lparr>currently_running := n, task_to_preserve := n\<rparr>))"
proof -
  note D = sched_okD [OF ok]
  have cn: "c \<noteq> NULL" using D(12) [of c] by simp
  obtain sz where sz: "size_of_queue (running_tasks s) s = Inr sz" "unat sz = length (bs @ as @ [c])"
    using queue_size [OF D(1)] by auto
  have "s\<lparr>currently_running := c\<rparr> = s" using c by simp
  then have "switch_loop (unat sz) s =
      (case find (ready s) (bs @ as @ [c]) of
         None \<Rightarrow> Inr (False, s)
       | Some n \<Rightarrow> Inr (True, s\<lparr>currently_running := n, task_to_preserve := n\<rparr>))"
    unfolding sz(2) using switch_loop_find [OF walk_after [OF ok] c cn]
    by (simp only: last.simps last_append append_is_Nil_conv list.distinct if_False if_True simp_thms)
  with sz(1) show ?thesis by (rule that)
qed

text \<open>
  The round robin: with a task running and no DMA transfer to report, the switch selects
  the first READY task after it, in ring order, the running task itself last.
\<close>

lemma switch_task_selects:
  assumes ok: "sched_ok s (as @ c # bs) W" and c: "currently_running s = c"
    and d: "dma_interrupt_action (drv s) AND 1 = 0"
    and f: "find (ready s) (bs @ as @ [c]) = Some n"
  shows "switch_task s = Inr (s\<lparr>currently_running := n, task_to_preserve := n\<rparr>)"
proof -
  have "c \<noteq> NULL" using sched_okD(12) [OF ok, of c] by simp
  from switch_search [OF ok c] obtain sz where sz: "size_of_queue (running_tasks s) s = Inr sz"
    "switch_loop (unat sz) s = Inr (True, s\<lparr>currently_running := n, task_to_preserve := n\<rparr>)"
    unfolding f by auto
  with d c \<open>c \<noteq> NULL\<close> show ?thesis by (simp add: switch_task_def)
qed

text \<open>The idle task: pid 0, and the kernel knows it.\<close>

definition has_idle :: "kernel \<Rightarrow> addr set \<Rightarrow> bool" where
  "has_idle s A \<longleftrightarrow> idle_task (kernel_pids s) = 0 \<and> (\<exists>i\<in>A. pid (task s i) = 0)"

text \<open>The selected task is READY, runs, and its context is the one saved next.\<close>

definition selected :: "kernel \<Rightarrow> addr list \<Rightarrow> bool" where
  "selected s R \<longleftrightarrow> currently_running s \<in> set R \<and> ready s (currently_running s) \<and>
     task_to_preserve s = currently_running s"

lemma force_selects:
  assumes ok: "sched_ok s R W" and i: "i \<in> set R" "pid (task s i) = 0"
  shows "\<exists>s'. force_pid0_into_running s = Inr s' \<and> sched_ok s' R W \<and> selected s' R"
proof -
  have "pid_of (task s i) = 0" using i(2) by (simp add: pid_of_def)
  from force_pid0_ok [OF ok i(1) this] obtain n where n: "n \<in> set R" "pid_of (task s n) = 0"
    "force_pid0_into_running s =
       Inr (s\<lparr>tcbs := (tcbs s)(tdata (nodes s n) := (task s n)\<lparr>tstate := READY\<rparr>),
              currently_running := n, task_to_preserve := n\<rparr>)" by blast
  with set_ready_ok [OF ok n(1)] show ?thesis by (auto simp: selected_def ready_def task_def)
qed

text \<open>The last resort of the switch: wake the idle task, or force it.\<close>

lemma idle_fallback:
  assumes ok: "sched_ok s R W" and idle: "has_idle s (set R \<union> set W)"
  obtains (woken) q s1 R' W' where "wakeup_pid (pid_arg (idle_task (kernel_pids s))) s = Inr (q, s1)" "q \<noteq> NULL"
      "sched_ok s1 R' W'" "q \<in> set R'" "ready s1 q" "mset (R' @ W') = mset (R @ W)" "set R \<subseteq> set R'"
  | (forced) i where "wakeup_pid (pid_arg (idle_task (kernel_pids s))) s = Inr (NULL, s)"
      "i \<in> set R" "pid (task s i) = 0"
  using ok
proof (cases rule: wakeup_pid_cases [where p = "pid_arg (idle_task (kernel_pids s))"])
  case none
  from idle obtain i where i: "i \<in> set R \<union> set W" "pid (task s i) = 0" "idle_task (kernel_pids s) = 0"
    by (auto simp: has_idle_def)
  then have "i \<notin> set W" using none(2) by (auto simp: pid_of_def pid_arg_def)
  with i none(1) show ?thesis by (intro forced [of i]) auto
next
  case (woken as c bs s')
  then have "ready s' c" by (simp add: ready_def task_def)
  with woken show ?thesis by (intro that(1) [of c s' "R @ [c]" "as @ bs"]) auto
qed

lemma switch_core:
  assumes ok: "sched_ok s R W" and c: "currently_running s \<in> set R" and idle: "has_idle s (set R \<union> set W)"
  shows "\<exists>s' R' W'.
     bnd (size_of_queue (running_tasks s) s) (\<lambda>sz.
     bnd (switch_loop (unat sz) s) (\<lambda>(found, s2).
     if found then Inr s2
     else
       bnd (wakeup_pid (pid_arg (idle_task (kernel_pids s2))) s2) (\<lambda>(q, s3).
       let s4 = s3\<lparr>currently_running := q, task_to_preserve := q\<rparr> in
       if q = NULL then force_pid0_into_running s4 else Inr s4))) = Inr s' \<and>
     sched_ok s' R' W' \<and> selected s' R' \<and> mset (R' @ W') = mset (R @ W) \<and> set R \<subseteq> set R'"
proof -
  obtain as bs where R: "R = as @ currently_running s # bs" using split_list [OF c] by blast
  from ok have ok': "sched_ok s (as @ currently_running s # bs) W" by (simp only: R)
  from switch_search [OF ok' refl] obtain sz where
    sz: "size_of_queue (running_tasks s) s = Inr sz"
      "switch_loop (unat sz) s =
      (case find (ready s) (bs @ as @ [currently_running s]) of
         None \<Rightarrow> Inr (False, s)
       | Some n \<Rightarrow> Inr (True, s\<lparr>currently_running := n, task_to_preserve := n\<rparr>))" by blast
  show ?thesis
  proof (cases "find (ready s) (bs @ as @ [currently_running s])")
    case (Some n)
    let ?s' = "s\<lparr>currently_running := n, task_to_preserve := n\<rparr>"
    have "n \<in> set R" "ready s n" using find_mem [OF Some] by (subst R, auto)
    moreover have "sched_ok ?s' R W" by (rule sched_ok_tcbs [OF ok]) (simp_all add: same_queues_def)
    ultimately have "sched_ok ?s' R W \<and> selected ?s' R \<and> mset (R @ W) = mset (R @ W) \<and> set R \<subseteq> set R"
      by (simp add: selected_def ready_def task_def)
    moreover have run: "bnd (size_of_queue (running_tasks s) s) (\<lambda>sz. bnd (switch_loop (unat sz) s) f) =
        f (True, ?s')" for f :: "bool \<times> kernel \<Rightarrow> kernel res"
      using sz Some by simp
    ultimately show ?thesis unfolding run bnd_simps prod.case if_True by blast
  next
    case None
    have run: "bnd (size_of_queue (running_tasks s) s) (\<lambda>sz. bnd (switch_loop (unat sz) s) f) =
        f (False, s)" for f :: "bool \<times> kernel \<Rightarrow> kernel res"
      using sz None by simp
    from ok idle show ?thesis
    proof (cases rule: idle_fallback)
      case (woken q s1 R' W')
      let ?s' = "s1\<lparr>currently_running := q, task_to_preserve := q\<rparr>"
      have "sched_ok ?s' R' W'" by (rule sched_ok_tcbs [OF woken(3)]) (simp_all add: same_queues_def)
      moreover have "selected ?s' R'" using woken(4,5) by (simp add: selected_def ready_def task_def)
      ultimately show ?thesis unfolding run using woken(1,2,6,7) by auto
    next
      case (forced i)
      let ?s4 = "s\<lparr>currently_running := NULL, task_to_preserve := NULL\<rparr>"
      have "sched_ok ?s4 R W" by (rule sched_ok_tcbs [OF ok]) (simp_all add: same_queues_def)
      moreover have "pid (task ?s4 i) = 0" using forced(3) by (simp add: task_def)
      ultimately obtain s' where "force_pid0_into_running ?s4 = Inr s'" "sched_ok s' R W" "selected s' R"
        using force_selects [of ?s4 R W i] forced(2) by blast
      then show ?thesis unfolding run using forced(1) by auto
    qed
  qed
qed

lemma switch_task_ok:
  assumes ok: "sched_ok s R W" and c: "currently_running s = NULL \<or> currently_running s \<in> set R"
    and idle: "has_idle s (set R \<union> set W)"
  shows "\<exists>s' R' W'. switch_task s = Inr s' \<and> sched_ok s' R' W' \<and> selected s' R' \<and>
    mset (R' @ W') = mset (R @ W) \<and> set R \<subseteq> set R'"
proof (cases "currently_running s = NULL")
  case True
  from ok idle show ?thesis
  proof (cases rule: idle_fallback)
    case (woken q s1 R' W')
    let ?s' = "s1\<lparr>currently_running := q, task_to_preserve := q\<rparr>"
    have "sched_ok ?s' R' W'" by (rule sched_ok_tcbs [OF woken(3)]) (simp_all add: same_queues_def)
    moreover have "selected ?s' R'" using woken(4,5) by (simp add: selected_def ready_def task_def)
    moreover have "switch_task s = Inr ?s'" using True woken(1,2) by (simp add: switch_task_def)
    ultimately show ?thesis using woken(6,7) by blast
  next
    case (forced i)
    let ?s4 = "s\<lparr>currently_running := NULL\<rparr>"
    have "sched_ok ?s4 R W" by (rule sched_ok_tcbs [OF ok]) (simp_all add: same_queues_def)
    moreover have "pid (task ?s4 i) = 0" using forced(3) by (simp add: task_def)
    ultimately obtain s' where s': "force_pid0_into_running ?s4 = Inr s'" "sched_ok s' R W" "selected s' R"
      using force_selects [of ?s4 R W i] forced(2) by blast
    have "s'\<lparr>task_to_preserve := currently_running s'\<rparr> = s'"
      using s'(3) by (simp add: selected_def)
    then have "switch_task s = Inr s'" using True forced(1) s'(1) by (simp add: switch_task_def)
    with s' show ?thesis by blast
  qed
next
  case False
  with c have cR: "currently_running s \<in> set R" by simp
  show ?thesis
  proof (cases "dma_interrupt_action (drv s) AND DmaTransferedExternalTask = 0")
    case True
    with switch_core [OF ok cR idle] False show ?thesis by (simp add: switch_task_def)
  next
    case dma: False
    from ok show ?thesis
    proof (cases rule: wakeup_pid_cases [where p = "pid_arg (idle_task (kernel_pids s))"])
      case none
      with switch_core [OF ok cR idle] False dma show ?thesis by (simp add: switch_task_def)
    next
      case (woken as i bs s1)
      have "currently_running s1 \<in> set (R @ [i])" "currently_running s1 \<noteq> NULL"
        using wake_frame_sel(5) [OF woken(9)] cR False by simp_all
      moreover have "has_idle s1 (set (R @ [i]) \<union> set (as @ bs))"
      proof -
        have "pid (task s1 n) = pid (task s n)" for n
          using woken(7,8) by (simp add: task_def)
        moreover have "set (R @ [i]) \<union> set (as @ bs) = set R \<union> set W" unfolding woken(1) by auto
        ultimately show ?thesis using idle wake_frame_sel(8) [OF woken(9)] by (simp add: has_idle_def)
      qed
      moreover have "mset ((R @ [i]) @ as @ bs) = mset (R @ W)" using woken(1) by simp
      ultimately show ?thesis
        using switch_core [OF woken(6)] False dma woken(4) by (simp add: switch_task_def) blast
    qed
  qed
qed

end
