(* ===== verification/Scheduler_Props.thy ===== *)
theory Scheduler_Props
  imports Scheduler_Spec
begin

text \<open>
  The properties of the scheduler: blocking, waking, the round robin and its fairness, the
  removal of finished tasks, and what \<open>join_task\<close> does not do.
\<close>

section \<open>Fairness of the round robin\<close>

fun switches :: "nat \<Rightarrow> kernel \<Rightarrow> kernel res" where
  "switches 0 s = Inr s"
| "switches (Suc k) s = bnd (switch_task s) (switches k)"

text \<open>\<open>after R c xs\<close>: \<open>xs\<close> is the ring \<open>R\<close> read from the successor of \<open>c\<close> to \<open>c\<close>.\<close>

definition after :: "addr list \<Rightarrow> addr \<Rightarrow> addr list \<Rightarrow> bool" where
  "after R c xs \<longleftrightarrow> (\<exists>as bs. R = as @ c # bs \<and> xs = bs @ as @ [c])"

lemma after_exists: "c \<in> set R \<Longrightarrow> \<exists>xs. after R c xs \<and> set xs = set R \<and> length xs = length R"
proof -
  assume "c \<in> set R"
  then obtain as bs where "R = as @ c # bs" using split_list by metis
  then show ?thesis by (intro exI [of _ "bs @ as @ [c]"]) (auto simp: after_def)
qed

lemma after_step:
  assumes "after R c (us @ m # vs)"
  shows "after R m (vs @ us @ [m])"
proof -
  from assms obtain as bs where R: "R = as @ c # bs" and o: "us @ m # vs = bs @ as @ [c]"
    by (auto simp: after_def)
  from o consider (bs) b where "bs = us @ m # b" "vs = b @ as @ [c]"
    | (as) a b where "us = bs @ a" "as = a @ m # b" "vs = b @ [c]"
    | (c) "us = bs @ as" "m = c" "vs = []"
    by (auto simp: append_eq_append_conv2 append_eq_Cons_conv Cons_eq_append_conv)
  then show ?thesis
  proof cases
    case bs
    then show ?thesis unfolding after_def R
      by (intro exI [of _ "as @ c # us"] exI [of _ b]) simp
  next
    case as
    then show ?thesis unfolding after_def R
      by (intro exI [of _ a] exI [of _ "b @ c # bs"]) simp
  next
    case c
    then show ?thesis unfolding after_def R by (intro exI [of _ as] exI [of _ bs]) simp
  qed
qed

lemma switch_after:
  assumes "sched_ok s R W" "after R (currently_running s) xs" "dma_interrupt_action (drv s) AND 1 = 0"
    "find (ready s) xs = Some n"
  shows "switch_task s = Inr (s\<lparr>currently_running := n, task_to_preserve := n\<rparr>)"
proof -
  from assms(2) obtain as bs where R: "R = as @ currently_running s # bs"
    "xs = bs @ as @ [currently_running s]" by (auto simp: after_def)
  show ?thesis
    using assms(1,3,4) unfolding R by (intro switch_task_selects [OF _ refl]) simp_all
qed

lemma find_split:
  "(\<exists>x\<in>set xs. P x) \<Longrightarrow> \<exists>us x vs. xs = us @ x # vs \<and> (\<forall>u\<in>set us. \<not> P u) \<and> P x \<and> find P xs = Some x"
proof (induction xs)
  case (Cons y ys)
  show ?case
  proof (cases "P y")
    case True
    then show ?thesis by (intro exI [of _ "[]"] exI [of _ y] exI [of _ ys]) simp
  next
    case False
    with Cons obtain us x vs where "ys = us @ x # vs" "\<forall>u\<in>set us. \<not> P u" "P x" "find P ys = Some x" by auto
    with False show ?thesis by (intro exI [of _ "y # us"] exI [of _ x] exI [of _ vs]) simp
  qed
qed simp

lemma reaches_ready:
  assumes "sched_ok s R W" "after R (currently_running s) (us @ n # vs)"
    "dma_interrupt_action (drv s) AND 1 = 0" "ready s n"
  shows "\<exists>k s'. k \<le> length us + 1 \<and> switches k s = Inr s' \<and> currently_running s' = n"
  using assms
proof (induction "length us" arbitrary: us vs s rule: less_induct)
  case less
  show ?case
  proof (cases "\<exists>x\<in>set us. ready s x")
    case False
    then have "find (ready s) (us @ n # vs) = Some n" using less.prems(4) by (induction us) auto
    from switch_after [OF less.prems(1-3) this] show ?thesis by (intro exI [of _ 1]) simp
  next
    case True
    from find_split [OF this] obtain u1 m u2 where u: "us = u1 @ m # u2" "ready s m" "find (ready s) us = Some m"
      by blast
    have "find (ready s) (us @ n # vs) = Some m" using u(3) by (induction us) (auto split: if_splits)
    note sw = switch_after [OF less.prems(1-3) this]
    let ?t = "s\<lparr>currently_running := m, task_to_preserve := m\<rparr>"
    have "after R m ((u2 @ n # vs) @ u1 @ [m])"
      using less.prems(2) unfolding u(1) by (intro after_step) simp
    then have "after R (currently_running ?t) (u2 @ n # (vs @ u1 @ [m]))" by simp
    moreover have "sched_ok ?t R W" by (rule sched_ok_tcbs [OF less.prems(1)]) (simp_all add: same_queues_def)
    moreover have "ready ?t n" using less.prems(4) by (simp add: ready_def task_def)
    ultimately obtain k s' where k: "k \<le> length u2 + 1" "switches k ?t = Inr s'" "currently_running s' = n"
      using less.hyps [of u2 ?t "vs @ u1 @ [m]"] less.prems(3) u(1) by auto
    then show ?thesis using sw u(1) by (intro exI [of _ "Suc k"] exI [of _ s']) simp
  qed
qed

section \<open>Cleaning up\<close>

lemma sched_ok_alloc:
  "sched_ok s R W \<Longrightarrow> alloc_frame s s' \<Longrightarrow> sched_ok s' R W"
  by (rule sched_ok_tcbs) (simp_all add: same_queues_def alloc_frame_kernel)

lemma dealloc_or_panic_ok:
  assumes "alloc_inv s" "mutex s \<noteq> 1"
  obtains s1 s' where "dealloc_or_panic a s = Inr s'" "alloc_inv s'" "mutex s' \<noteq> 1"
    "live s' = {c \<in> live s. fst c \<noteq> a}" "alloc_frame s s1" "s' = s1 \<or> s' = invoke_panic MEMORY_DEALLOC_FAILED s1"
proof -
  from assms obtain r s1 where D: "deallocate a s = Inr (r, s1)" "alloc_inv s1" "mutex s1 = 0"
    "alloc_frame s s1" "live s1 = {c \<in> live s. fst c \<noteq> a}" by (rule deallocate_contract)
  let ?s' = "if r = 0 then invoke_panic MEMORY_DEALLOC_FAILED s1 else s1"
  have "alloc_inv ?s' = alloc_inv s1 \<and> live ?s' = live s1 \<and> used_entries ?s' = used_entries s1"
    by (rule alloc_inv_cong) (simp_all add: invoke_panic_def)
  then show ?thesis using D by (intro that [of ?s' s1]) (simp_all add: dealloc_or_panic_def invoke_panic_def)
qed

text \<open>What releasing memory leaves untouched.\<close>

definition kept :: "kernel \<Rightarrow> kernel \<Rightarrow> bool" where
  "kept s s' \<longleftrightarrow> nodes s' = nodes s \<and> queues s' = queues s \<and> tcbs s' = tcbs s \<and>
     running_tasks s' = running_tasks s \<and> waiting_tasks s' = waiting_tasks s \<and>
     currently_running s' = currently_running s \<and> task_to_preserve s' = task_to_preserve s \<and>
     kernel_pids s' = kernel_pids s \<and> slists s' = slists s \<and> snodes s' = snodes s \<and> cpu s' = cpu s \<and> io s' = io s \<and>
     clean_up_requests (process_stats s') = clean_up_requests (process_stats s)"

lemma kept_sched_ok: "sched_ok s R W \<Longrightarrow> kept s s' \<Longrightarrow> sched_ok s' R W"
  by (rule sched_ok_tcbs) (simp_all add: same_queues_def kept_def)

lemma kept_trans: "kept s t \<Longrightarrow> kept t u \<Longrightarrow> kept s u"
  by (simp add: kept_def)

lemma dealloc_or_panic_kept:
  assumes "alloc_inv s" "mutex s \<noteq> 1"
  shows "\<exists>s'. dealloc_or_panic a s = Inr s' \<and> alloc_inv s' \<and> mutex s' \<noteq> 1 \<and>
    live s' = {c \<in> live s. fst c \<noteq> a} \<and> kept s s'"
proof -
  from assms obtain s1 s' where D: "dealloc_or_panic a s = Inr s'" "alloc_inv s'" "mutex s' \<noteq> 1"
    "live s' = {c \<in> live s. fst c \<noteq> a}" "alloc_frame s s1"
    "s' = s1 \<or> s' = invoke_panic MEMORY_DEALLOC_FAILED s1" by (rule dealloc_or_panic_ok)
  have "kept s s1" using alloc_frame_kernel [OF D(5)] by (simp add: kept_def)
  then have "kept s s'" using D(6) by (auto simp: kept_def invoke_panic_def)
  with D show ?thesis by blast
qed

text \<open>The memory that is released with a task.\<close>

definition chunks_of :: "kernel \<Rightarrow> addr \<Rightarrow> addr set" where
  "chunks_of s n = {tdata (nodes s n), stacksection_lower_bound (task s n), n} \<union>
     (if is_external (task s n) then {code_section (task s n)} else {})"

lemma clean_up_task_ok:
  assumes ok: "sched_ok s (as @ n # bs) W" "as @ bs \<noteq> []" and a: "alloc_inv s" "mutex s \<noteq> 1"
  obtains s' where "clean_up_task (tdata (nodes s n)) n s = Inr s'" "sched_ok s' (as @ bs) W"
    "alloc_inv s'" "mutex s' \<noteq> 1" "nodes s' n = nodes s n" "tcbs s' = tcbs s"
    "\<forall>m. tdata (nodes s' m) = tdata (nodes s m)" "currently_running s' = currently_running s"
    "clean_up_requests (process_stats s') = clean_up_requests (process_stats s)"
    "kernel_pids s' = kernel_pids s"
    "live s' = {c \<in> live s. fst c \<notin> chunks_of s n}"
    "slists s' = slists s" "snodes s' = snodes s" "cpu s' = cpu s" "task_to_preserve s' = task_to_preserve s" "io s' = io s"
proof -
  note D = sched_okD [OF ok(1)]
  let ?t = "tdata (nodes s n)" and ?T = "task s n"
  have tn: "?t \<noteq> NULL" using D(5) [of n] by simp
  then have T: "tcb_at ?t s = Inr ?T" by (simp add: tcb_at_def task_def)
  have "\<exists>s1. (if is_external ?T then dealloc_or_panic (code_section ?T) s else Inr s) = Inr s1 \<and>
      alloc_inv s1 \<and> mutex s1 \<noteq> 1 \<and> kept s s1 \<and>
      live s1 = {c \<in> live s. fst c \<notin> (if is_external ?T then {code_section ?T} else {})}"
    using dealloc_or_panic_kept [OF a, of "code_section ?T"] a by (auto simp: kept_def)
  then obtain s1 where s1: "(if is_external ?T then dealloc_or_panic (code_section ?T) s else Inr s) = Inr s1"
      "alloc_inv s1" "mutex s1 \<noteq> 1" "kept s s1"
      "live s1 = {c \<in> live s. fst c \<notin> (if is_external ?T then {code_section ?T} else {})}" by blast
  obtain s2 where s2: "dealloc_or_panic (stacksection_lower_bound ?T) s1 = Inr s2" "alloc_inv s2" "mutex s2 \<noteq> 1"
      "live s2 = {c \<in> live s1. fst c \<noteq> stacksection_lower_bound ?T}" "kept s1 s2"
    using dealloc_or_panic_kept [OF s1(2,3)] by blast
  obtain s3 where s3: "dealloc_or_panic ?t s2 = Inr s3" "alloc_inv s3" "mutex s3 \<noteq> 1"
      "live s3 = {c \<in> live s2. fst c \<noteq> ?t}" "kept s2 s3"
    using dealloc_or_panic_kept [OF s2(2,3)] by blast
  have k3: "kept s s3" using s1(4) s2(5) s3(5) kept_trans by blast
  note ok3 = kept_sched_ok [OF ok(1) k3]
  from dequeue_element_ok [OF sched_okD(1) [OF ok3] ok(2)] obtain s4 where
    s4: "dequeue_element (running_tasks s3) n s3 = Inr (n, s4)" "is_queue s4 (running_tasks s3) (as @ bs)"
      "links_only s3 s4" "\<forall>m. m \<notin> set (as @ bs) \<longrightarrow> nodes s4 m = nodes s3 m"
      "\<forall>p. p \<noteq> running_tasks s3 \<longrightarrow> queues s4 p = queues s3 p" by blast
  note L = links_only_sel [OF s4(3)]
  note D3 = sched_okD [OF ok3]
  have "is_queue s4 (waiting_tasks s3) W = is_queue s3 (waiting_tasks s3) W"
    using s4(4,5) D3(3,4) by (intro is_queue_cong) auto
  then have W4: "is_queue s4 (waiting_tasks s3) W" using D3(2) by simp
  have tk: "task s4 m = task s3 m" for m using L(1,2) by (simp add: task_def)
  have sub: "set (as @ bs) \<union> set W \<subseteq> set (as @ n # bs) \<union> set W" by auto
  have ok4: "sched_ok s4 (as @ bs) W"
    unfolding sched_ok_def L tk
  proof (intro conjI)
    show "set (as @ bs) \<inter> set W = {}" using D3(4) by auto
    show "inj_on (\<lambda>m. tdata (nodes s3 m)) (set (as @ bs) \<union> set W)" by (rule inj_on_subset [OF D3(6) sub])
    show "length (as @ bs) + length W < 2 ^ 32 - 1" using D3(9) by simp
    show "\<forall>m\<in>set (as @ bs) \<union> set W. tdata (nodes s3 m) \<noteq> NULL" using D3(5) sub by blast
    show "\<forall>m\<in>set (as @ bs). tstate (task s3 m) \<noteq> WAITING" using D3(7) by simp
    show "\<forall>m\<in>set W. tstate (task s3 m) \<noteq> READY" using D3(8) by simp
  qed (use s4(2) W4 D3(3) in simp_all)
  have a4: "alloc_inv s4 = alloc_inv s3 \<and> live s4 = live s3 \<and> used_entries s4 = used_entries s3"
    using L by (intro alloc_inv_cong) simp_all
  have "alloc_inv s4" "mutex s4 \<noteq> 1" using a4 s3(2,3) L by simp_all
  from dealloc_or_panic_kept [OF this, of n] obtain s5 where
    s5: "dealloc_or_panic n s4 = Inr s5" "alloc_inv s5" "mutex s5 \<noteq> 1"
      "live s5 = {c \<in> live s4. fst c \<noteq> n}" "kept s4 s5" by blast
  show ?thesis
  proof (rule that)
    show "clean_up_task ?t n s = Inr s5"
      using T s1(1) s2(1) s3(1) s4(1) s5(1) by (simp add: clean_up_task_def)
    show "sched_ok s5 (as @ bs) W" by (rule kept_sched_ok [OF ok4 s5(5)])
    have "n \<notin> set (as @ bs)" using D(10) by simp
    then show "nodes s5 n = nodes s n" using s5(5) s4(4) k3 by (simp add: kept_def)
    show "tcbs s5 = tcbs s" "currently_running s5 = currently_running s"
      "clean_up_requests (process_stats s5) = clean_up_requests (process_stats s)"
      "kernel_pids s5 = kernel_pids s" "slists s5 = slists s" "snodes s5 = snodes s" "cpu s5 = cpu s"
      "task_to_preserve s5 = task_to_preserve s" "io s5 = io s"
      using s5(5) k3 L by (simp_all add: kept_def)
    show "\<forall>m. tdata (nodes s5 m) = tdata (nodes s m)" using s5(5) k3 L by (simp add: kept_def)
    show "live s5 = {c \<in> live s. fst c \<notin> chunks_of s n}"
      unfolding chunks_of_def using s5(4) a4 s3(4) s2(4) s1(5) by auto
  qed (use s5 in simp_all)
qed


definition finished :: "kernel \<Rightarrow> addr \<Rightarrow> bool" where
  "finished s n \<longleftrightarrow> tstate (task s n) = FINISHED \<or> tstate (task s n) = INVALID"

text \<open>One iteration of the search.\<close>

lemma search_step:
  assumes ok: "sched_ok s R W" and q: "q \<in> set R" and j: "j < q_size (queues s (running_tasks s))"
  shows "search_loop (Suc k) j q s =
    (if finished s q then
       bnd (clean_up_task (tdata (nodes s q)) q s) (\<lambda>s1.
       let s2 = s1\<lparr>process_stats := (process_stats s1)\<lparr>clean_up_requests := clean_up_requests (process_stats s1) - 1\<rparr>\<rparr>
       in search_loop k (j + 1) (nxt (nodes s1 q)) s2)
     else search_loop k (j + 1) (nxt (nodes s q)) s)"
proof -
  have n: "q \<noteq> NULL" "tdata (nodes s q) \<noteq> NULL" using sched_okD(5,12) [OF ok, of q] q by auto
  have sz: "size_of_queue (running_tasks s) s = Inr (q_size (queues s (running_tasks s)))"
    using queue_size [OF sched_okD(1) [OF ok]] by simp
  have t: "node_at q s = Inr (nodes s q)" "tcb_at (tdata (nodes s q)) s = Inr (task s q)"
    using n by (simp_all add: node_at_def tcb_at_def task_def)
  show ?thesis
  proof (cases "finished s q")
    case True
    then have f: "tstate (task s q) = FINISHED \<or> tstate (task s q) = INVALID" by (simp add: finished_def)
    show ?thesis using sz t j n True f
      by (cases "clean_up_task (tdata (nodes s q)) q s")
         (simp_all add: Let_def node_at_def cong: bnd_weak_cong)
  next
    case False
    then have "\<not> (tstate (task s q) = FINISHED \<or> tstate (task s q) = INVALID)" by (simp add: finished_def)
    then show ?thesis using sz t j False by (simp cong: bnd_weak_cong)
  qed
qed

lemma search_loop_ok:
  assumes "sched_ok s R W" "q \<in> set R" "currently_running s \<in> set R" "ready s (currently_running s)"
    "alloc_inv s" "mutex s \<noteq> 1"
  shows "\<exists>s' R'. search_loop k j q s = Inr s' \<and> sched_ok s' R' W \<and> alloc_inv s' \<and> mutex s' \<noteq> 1 \<and>
    set R' \<subseteq> set R \<and> (\<forall>n\<in>set R - set R'. finished s n) \<and>
    currently_running s' = currently_running s \<and> kernel_pids s' = kernel_pids s \<and> tcbs s' = tcbs s \<and>
    (\<forall>n. tdata (nodes s' n) = tdata (nodes s n)) \<and> live s' \<subseteq> live s \<and>
    {c \<in> live s. \<forall>n\<in>set R - set R'. fst c \<notin> chunks_of s n} \<subseteq> live s' \<and>
    slists s' = slists s \<and> snodes s' = snodes s \<and> cpu s' = cpu s \<and>
    task_to_preserve s' = task_to_preserve s \<and> io s' = io s \<and>
    clean_up_requests (process_stats s') + of_nat (length R) =
      clean_up_requests (process_stats s) + of_nat (length R') \<and>
    (0 < k \<longrightarrow> j < q_size (queues s (running_tasks s)) \<longrightarrow> finished s q \<longrightarrow> q \<notin> set R')"
  using assms
proof (induction k arbitrary: j q s R)
  case 0
  then show ?case by (intro exI [of _ s] exI [of _ R]) simp
next
  case (Suc k)
  note ok = Suc.prems(1)
  note D = sched_okD [OF ok]
  have sz: "size_of_queue (running_tasks s) s = Inr (q_size (queues s (running_tasks s)))"
    using queue_size [OF D(1)] by simp
  have split: "\<exists>as bs. R = as @ q # bs" by (rule split_list [OF Suc.prems(2)])
  show ?case
  proof (cases "j < q_size (queues s (running_tasks s))")
    case False
    then show ?thesis using sz Suc.prems by (intro exI [of _ s] exI [of _ R]) simp
  next
    case True
    note step = search_step [OF ok Suc.prems(2) True, of k]
    from split obtain as bs where R: "R = as @ q # bs" by blast
    have nx: "nxt (nodes s q) = hd (bs @ as @ [q])" using queue_next(1) D(1) unfolding R by blast
    show ?thesis
    proof (cases "finished s q")
      case False
      have "nxt (nodes s q) \<in> set R" unfolding nx R by (cases bs; cases as) auto
      from Suc.IH [OF ok this Suc.prems(3-6), of "j + 1"] show ?thesis
        unfolding step using False by simp blast
    next
      case fin: True
      let ?c = "currently_running s"
      have "?c \<noteq> q" using fin Suc.prems(4) by (auto simp: finished_def ready_def)
      then have c: "?c \<in> set (as @ bs)" using Suc.prems(3) R by auto
      then have ne: "as @ bs \<noteq> []" by auto
      from ok have ok': "sched_ok s (as @ q # bs) W" by (simp only: R)
      from ok' ne Suc.prems(5,6) obtain s1 where C: "clean_up_task (tdata (nodes s q)) q s = Inr s1"
        "sched_ok s1 (as @ bs) W" "alloc_inv s1" "mutex s1 \<noteq> 1" "nodes s1 q = nodes s q" "tcbs s1 = tcbs s"
        "\<forall>m. tdata (nodes s1 m) = tdata (nodes s m)" "currently_running s1 = ?c"
        "clean_up_requests (process_stats s1) = clean_up_requests (process_stats s)"
        "kernel_pids s1 = kernel_pids s"
        "live s1 = {c \<in> live s. fst c \<notin> chunks_of s q}" "slists s1 = slists s" "snodes s1 = snodes s"
        "cpu s1 = cpu s" "task_to_preserve s1 = task_to_preserve s" "io s1 = io s"
        by (rule clean_up_task_ok)
      let ?s2 = "s1\<lparr>process_stats := (process_stats s1)\<lparr>clean_up_requests := clean_up_requests (process_stats s1) - 1\<rparr>\<rparr>"
      have ok2: "sched_ok ?s2 (as @ bs) W" by (rule sched_ok_tcbs [OF C(2)]) (simp_all add: same_queues_def)
      have a2: "alloc_inv ?s2 = alloc_inv s1 \<and> live ?s2 = live s1 \<and> used_entries ?s2 = used_entries s1"
        by (rule alloc_inv_cong) simp_all
      have nx2: "nxt (nodes s1 q) \<in> set (as @ bs)" unfolding C(5) nx using ne by (cases bs; cases as) auto
      have tk: "task ?s2 n = task s n" for n using C(6,7) by (simp add: task_def)
      then have f2: "finished ?s2 n = finished s n" "ready ?s2 n = ready s n" for n
        by (simp_all add: finished_def ready_def)
      have ch: "chunks_of ?s2 n = chunks_of s n" for n using tk [of n] C(7) by (simp add: chunks_of_def)
      obtain s' R' where S: "search_loop k (j + 1) (nxt (nodes s1 q)) ?s2 = Inr s'" "sched_ok s' R' W"
        "alloc_inv s'" "mutex s' \<noteq> 1" "set R' \<subseteq> set (as @ bs)" "\<forall>n\<in>set (as @ bs) - set R'. finished ?s2 n"
        "currently_running s' = currently_running ?s2" "kernel_pids s' = kernel_pids ?s2" "tcbs s' = tcbs ?s2"
        "\<forall>n. tdata (nodes s' n) = tdata (nodes ?s2 n)" "live s' \<subseteq> live ?s2"
        "{c \<in> live ?s2. \<forall>n\<in>set (as @ bs) - set R'. fst c \<notin> chunks_of ?s2 n} \<subseteq> live s'"
        "slists s' = slists ?s2" "snodes s' = snodes ?s2" "cpu s' = cpu ?s2"
        "task_to_preserve s' = task_to_preserve ?s2"
        "clean_up_requests (process_stats s') + of_nat (length (as @ bs)) =
          clean_up_requests (process_stats ?s2) + of_nat (length R')" "io s' = io ?s2"
        using Suc.IH [OF ok2 nx2, of "j + 1"] c C(3,4,8) a2 f2(2) Suc.prems(4) by auto
      have "finished s n" if "n \<in> set R - set R'" for n
        using that S(6) fin f2(1) unfolding R by (cases "n = q") auto
      moreover have "search_loop (Suc k) j q s = Inr s'" unfolding step using fin C(1) S(1) by (simp add: Let_def)
      moreover have "clean_up_requests (process_stats s') + of_nat (length R) =
          clean_up_requests (process_stats s) + of_nat (length R')"
        using S(17) C(9) unfolding R by (simp add: algebra_simps)
      moreover have "live s' \<subseteq> live s" using S(11) a2 C(11) by auto
      moreover have q': "q \<notin> set R'" using S(5) D(10) unfolding R by auto
      moreover have "{c \<in> live s. \<forall>n\<in>set R - set R'. fst c \<notin> chunks_of s n} \<subseteq> live s'"
        using S(12) a2 C(11) q' unfolding ch R by auto
      ultimately show ?thesis
        using S(2-5,7-10,13-16,18) C(6-8,10,12-16) by (intro exI [of _ s'] exI [of _ R']) (auto simp: R)
    qed
  qed
qed

text \<open>A pass over the whole ring removes at least one task when there is one to remove.\<close>

lemma search_progress:
  assumes "sched_ok s R W" "currently_running s \<in> set R" "ready s (currently_running s)"
    "alloc_inv s" "mutex s \<noteq> 1" "walk s q xs" "set xs \<subseteq> set R" "length xs \<le> k"
    "unat j + length xs \<le> length R" "\<exists>n\<in>set xs. finished s n" "search_loop k j q s = Inr s'" "sched_ok s' R' W"
  shows "length R' < length R"
  using assms
proof (induction k arbitrary: j q xs)
  case 0
  then show ?case by auto
next
  case (Suc k)
  then obtain x ys where xs: "xs = x # ys" by (cases xs) auto
  have q: "q = x" "q \<in> set R" "walk s (nxt (nodes s q)) ys" using Suc.prems(6,7) xs by auto
  note D = sched_okD [OF Suc.prems(1)]
  have len: "unat (q_size (queues s (running_tasks s))) = length R" using queue_size [OF D(1)] by simp
  then have j: "j < q_size (queues s (running_tasks s))"
    using Suc.prems(9) xs by (simp add: word_less_nat_alt)
  note step = search_step [OF Suc.prems(1) q(2) j, of k]
  note [simp del] = search_loop.simps
  show ?case
  proof (cases "finished s q")
    case False
    have "unat (j + 1) + length ys \<le> length R"
    proof (cases "unat (j + 1) = 0")
      case True
      then show ?thesis using Suc.prems(9) xs by simp
    next
      case False
      then have "1 + j \<noteq> 0" by (simp add: unat_eq_zero add.commute)
      from unatSuc [OF this] have "unat (j + 1) = unat j + 1" by (simp add: add.commute)
      then show ?thesis using Suc.prems(9) xs by simp
    qed
    moreover have "search_loop k (j + 1) (nxt (nodes s q)) s = Inr s'"
      using Suc.prems(11) step False by simp
    moreover have "\<exists>n\<in>set ys. finished s n" using Suc.prems(10) False xs q(1) by auto
    ultimately show ?thesis
      using Suc.IH [OF Suc.prems(1-5) q(3)] Suc.prems(7,8,12) xs by auto
  next
    case True
    from search_loop_ok [OF Suc.prems(1) q(2) Suc.prems(2-5), of "Suc k" j] Suc.prems(11) j True
    obtain R'' where R'': "sched_ok s' R'' W" "set R'' \<subseteq> set R" "q \<notin> set R''" by auto
    have "R'' = R'" using is_queue_unique [OF sched_okD(1) [OF R''(1)] sched_okD(1) [OF Suc.prems(12)]] .
    with R''(2,3) q(2) have "set R' \<subset> set R" by blast
    then show ?thesis
      using psubset_card_mono [of "set R" "set R'"] D(10) sched_okD(10) [OF Suc.prems(12)]
      by (simp add: distinct_card)
  qed
qed

end
