(* ===== verification/Demo.thy ===== *)
theory Demo
  imports Scheduler_Props
begin

text \<open>
  Concrete states: the kernel right after \<open>init_allocator\<close>, and one with three tasks in the
  running queue and the idle task in the waiting queue.  The properties of the kernel are
  applied there.
\<close>

definition zero_kernel :: kernel where
  "zero_kernel =
     \<lparr>mmio = (\<lambda>_. 0), inputs = (\<lambda>_. []), writes = [], DEBUG = 1, SYSTICK = False,
      drv = \<lparr>timer_configurations = replicate 5 (0, 0), dma_interrupt_action = 0, adc_registerset = 0,
             crc_regs = 0, i2c_regs = 0\<rparr>,
      MEM_TABLE = [], MEM_TABLE_START = 0, USEABLE_MEM_START = 0, mutex = 0, lock_r1 = 1,
      mstat_local = \<lparr>num_of_allocs = 0, num_of_deallocs = 0, ram_size = 0\<rparr>,
      nodes = (\<lambda>_. \<lparr>nxt = 0, prv = 0, tdata = 0\<rparr>),
      queues = (\<lambda>_. \<lparr>q_size = 0, head = 0, tail = 0\<rparr>),
      tcbs = (\<lambda>_. zero_Tcb),
      snodes = (\<lambda>_. \<lparr>s_next = 0, s_data = 0\<rparr>),
      slists = (\<lambda>_. \<lparr>l_size = 0, l_head = 0\<rparr>),
      mem = (\<lambda>_. 0),
      cpu = \<lparr>r4_11 = replicate 8 0, psp = 0, msp = 0, lr = 0xFFFFFFFD, primask = False, svc_pending = False\<rparr>,
      running_tasks = 0, waiting_tasks = 0, currently_running = 0, task_to_preserve = 0,
      process_stats = zero_ProcessStats, kernel_pids = minus_one_KernelPids,
      pid_of_sleeping_task = 0,
      tInfo = \<lparr>task_size = 0, start_adress = 0\<rparr>,
      boot_flags = \<lparr>isColdStart = True, reboot_type = IsColdStart\<rparr>,
      lifetime_statistic =
        \<lparr>version_number = 0, size_of_struct = 0,
         memoryStat = \<lparr>ml_num_of_allocs = 0, ml_num_of_deallocs = 0, ml_ram_size = 0,
                       total_byte_alloced = 0, total_byte_used = 0\<rparr>,
         osMeta = \<lparr>git_hash = 0, magic = 0, debug_mode = 0, systick_enabled = 0, os_version = 0,
                   gcc_version = 0\<rparr>,
         processStat = \<lparr>tasks_cleanup_pending = 0, pl_failed_tasks = 0, pl_finished_tasks = 0,
                        pl_waiting_tasks = 0, pl_running_tasks = 0\<rparr>\<rparr>,
      io = \<lparr>rx_state = 0, uart_rx_buffer = replicate 4 0, bytes_received = 0, hostIsNotified = False,
            in_buffer = 0, byte_in_id = 0,
            transfer_list = replicate 5 \<lparr>ti_start_adress = 0, ti_length = 0\<rparr>,
            num_of_waiting_transfers = 0, io_handler = 0, type_of_io_handler = OsInternalIo,
            subtasks = replicate 3 0, exti_isr_handler = replicate 6 0, exti_pos_vector_table = 0,
            adc_isr_callback = 0, adc_pos_vector_table = 0\<rparr>,
      syms = \<lparr>finish_task_addr = 0x08000101, idle_runner_addr = 0x08000201,
              external_io_runner_addr = 0x08000301, stat_addr = 0x08000401, empty_isr_addr = 0x08000501,
              enable_exti_addr = 0x08000601, enable_adc_addr = 0x08000701, rx_state_addr = 0x20000010, internal_rx_state_addr = 0x20000014,
              ebss = 0x20000401, edata = 0x20000100, sidata = 0x08004000, sym_ram_size = 0x18000,
              stack_top = 0x20018000\<rparr>\<rparr>"

definition start_kernel :: kernel where
  "start_kernel = init_allocator 0x20000401 0x18000 zero_kernel"

definition demo_kernel :: kernel where
  "demo_kernel = start_kernel\<lparr>
     running_tasks := 0x10, waiting_tasks := 0x20,
     queues := (\<lambda>_. \<lparr>q_size = 0, head = 0, tail = 0\<rparr>)
       (0x10 := \<lparr>q_size = 3, head = 0x100, tail = 0x300\<rparr>, 0x20 := \<lparr>q_size = 1, head = 0x400, tail = 0x400\<rparr>),
     nodes := (\<lambda>_. \<lparr>nxt = 0, prv = 0, tdata = 0\<rparr>)
       (0x100 := \<lparr>nxt = 0x200, prv = 0x300, tdata = 0x1100\<rparr>,
        0x200 := \<lparr>nxt = 0x300, prv = 0x100, tdata = 0x1200\<rparr>,
        0x300 := \<lparr>nxt = 0x100, prv = 0x200, tdata = 0x1300\<rparr>,
        0x400 := \<lparr>nxt = 0x400, prv = 0x400, tdata = 0x1400\<rparr>),
     tcbs := (\<lambda>_. zero_Tcb)
       (0x1100 := zero_Tcb\<lparr>pid := 1, parent_task := 0x1400, child_tasks := 0x30\<rparr>,
        0x1200 := zero_Tcb\<lparr>pid := 2, parent_task := 0x1400, child_tasks := 0x30, tstate := FINISHED\<rparr>,
        0x1300 := zero_Tcb\<lparr>pid := 3, parent_task := 0x1400, child_tasks := 0x30\<rparr>,
        0x1400 := zero_Tcb\<lparr>pid := 0, tstate := WAITING, join_pid := -1, child_tasks := 0x30\<rparr>),
     currently_running := 0x100, task_to_preserve := 0x100,
     kernel_pids := minus_one_KernelPids\<lparr>idle_task := 0\<rparr>\<rparr>"

lemma start_kernel_inv:
  "alloc_inv start_kernel" "live start_kernel = {}" "mutex start_kernel = 0"
  "used_entries start_kernel = []" "DEBUG start_kernel = 1" "SYSTICK start_kernel = False"
proof -
  have p: "0 < unat (0x20000401 :: u32)" "unat (0x20000401 :: u32) + 65800 \<le> 2 ^ 32" by simp_all
  show "alloc_inv start_kernel" "live start_kernel = {}" "mutex start_kernel = 0"
    "used_entries start_kernel = []"
    unfolding start_kernel_def by (rule init_allocator_inv [OF p])+
  show "DEBUG start_kernel = 1" "SYSTICK start_kernel = False"
    by (simp_all add: start_kernel_def init_allocator_def zero_kernel_def Let_def)
qed

lemma start_kernel_sel:
  "drv start_kernel = drv zero_kernel" "cpu start_kernel = cpu zero_kernel" "inputs start_kernel = (\<lambda>_. [])"
  "process_stats start_kernel = zero_ProcessStats" "mmio start_kernel = (\<lambda>_. 0)"
  "slists start_kernel = slists zero_kernel" "syms start_kernel = syms zero_kernel"
  "io start_kernel = io zero_kernel" "mem start_kernel = (\<lambda>_. 0)" "tInfo start_kernel = tInfo zero_kernel"
  "lock_r1 start_kernel = 1"
  by (simp_all add: start_kernel_def init_allocator_def zero_kernel_def Let_def)

lemma demo_kernel_sel:
  "running_tasks demo_kernel = 0x10" "waiting_tasks demo_kernel = 0x20"
  "currently_running demo_kernel = 0x100" "task_to_preserve demo_kernel = 0x100"
  "dma_interrupt_action (drv demo_kernel) = 0" "idle_task (kernel_pids demo_kernel) = 0"
  "cpu demo_kernel = cpu zero_kernel" "inputs demo_kernel = (\<lambda>_. [])" "DEBUG demo_kernel = 1"
  "process_stats demo_kernel = zero_ProcessStats" "MEM_TABLE demo_kernel = MEM_TABLE start_kernel"
  "USEABLE_MEM_START demo_kernel = USEABLE_MEM_START start_kernel" "mutex demo_kernel = 0"
  "syms demo_kernel = syms zero_kernel" "io demo_kernel = io zero_kernel" "mem demo_kernel = (\<lambda>_. 0)"
  using start_kernel_inv(3,5) start_kernel_sel
  by (simp_all add: demo_kernel_def zero_kernel_def)

lemma demo_task:
  "tdata (nodes demo_kernel 0x100) = 0x1100" "tdata (nodes demo_kernel 0x200) = 0x1200"
  "tdata (nodes demo_kernel 0x300) = 0x1300" "tdata (nodes demo_kernel 0x400) = 0x1400"
  "task demo_kernel 0x100 = zero_Tcb\<lparr>pid := 1, parent_task := 0x1400, child_tasks := 0x30\<rparr>"
  "task demo_kernel 0x200 = zero_Tcb\<lparr>pid := 2, parent_task := 0x1400, child_tasks := 0x30, tstate := FINISHED\<rparr>"
  "task demo_kernel 0x300 = zero_Tcb\<lparr>pid := 3, parent_task := 0x1400, child_tasks := 0x30\<rparr>"
  "task demo_kernel 0x400 = zero_Tcb\<lparr>pid := 0, tstate := WAITING, join_pid := -1, child_tasks := 0x30\<rparr>"
  by (simp_all add: demo_kernel_def task_def)

lemma demo_sched_ok: "sched_ok demo_kernel [0x100, 0x200, 0x300] [0x400]"
proof -
  have q: "is_queue demo_kernel 0x10 [0x100, 0x200, 0x300]" "is_queue demo_kernel 0x20 [0x400]"
    by (simp_all add: is_queue_def demo_kernel_def)
  show ?thesis
    unfolding sched_ok_def demo_kernel_sel
    using q by (simp add: demo_task zero_Tcb_def)
qed

lemma demo_alloc: "alloc_inv demo_kernel" "mutex demo_kernel \<noteq> 1" "used_entries demo_kernel = []" "live demo_kernel = {}"
  using alloc_inv_cong [of demo_kernel start_kernel] start_kernel_inv demo_kernel_sel by simp_all

lemma demo_ready:
  "ready demo_kernel 0x100" "\<not> ready demo_kernel 0x200" "ready demo_kernel 0x300"
  by (simp_all add: ready_def demo_task zero_Tcb_def)

lemma demo_idle: "has_idle demo_kernel (set [0x100, 0x200, 0x300] \<union> set [0x400])"
  by (simp add: has_idle_def demo_kernel_sel demo_task zero_Tcb_def)

end
