(* ===== verification/Kernel_Properties.thy ===== *)
theory Kernel_Properties
  imports Demo
begin

text \<open>
  The properties of the queues and of the scheduler, each with an application at the states
  of theory \<open>Demo\<close>.
\<close>

section \<open>Queues\<close>

text \<open>
  \<open>isolate_node\<close> on a queue that holds \<open>xs @ x # ys\<close> returns with the queue holding
  \<open>xs @ ys\<close>, in that order (head, tail, size and every link right, the empty queue included),
  no other node of the heap and no other queue header changed.
\<close>
theorem isolate_node_correct:
  assumes "is_queue s q (xs @ x # ys)"
  shows "\<exists>s'. isolate_node q x s = Inr s' \<and> is_queue s' q (xs @ ys) \<and> links_only s s' \<and>
    (\<forall>n. n \<notin> set (xs @ ys) \<longrightarrow> nodes s' n = nodes s n) \<and> (\<forall>p. p \<noteq> q \<longrightarrow> queues s' p = queues s p)"
  using assms by (rule isolate_node_ok) blast

theorem isolate_node_correct_witness:
  "\<exists>s'. isolate_node 0x10 0x200 demo_kernel = Inr s' \<and> is_queue s' 0x10 [0x100, 0x300]"
proof -
  have "is_queue demo_kernel 0x10 ([0x100] @ 0x200 # [0x300])"
    using sched_okD(1) [OF demo_sched_ok] by (simp add: demo_kernel_sel)
  from isolate_node_correct [OF this] show ?thesis by auto
qed

text \<open>
  Moving a node from one queue to another (\<open>isolate_node\<close>, then \<open>move_node\<close>, as
  blocking and waking do) appends it to the second list, and the two lists stay disjoint.
\<close>
theorem queue_transfer_correct:
  assumes "is_queue s p (xs @ x # ys)" "is_queue s q zs" "p \<noteq> q"
    "set (xs @ x # ys) \<inter> set zs = {}" "length zs < 2 ^ 32 - 1"
  shows "\<exists>t s'. isolate_node p x s = Inr t \<and> move_node q x t = Inr s' \<and>
    is_queue s' p (xs @ ys) \<and> is_queue s' q (zs @ [x]) \<and> links_only s s'"
  using assms by (rule fifo.transfer) blast

theorem queue_transfer_correct_witness:
  "\<exists>t s'. isolate_node 0x10 0x300 demo_kernel = Inr t \<and> move_node 0x20 0x300 t = Inr s' \<and>
    is_queue s' 0x10 [0x100, 0x200] \<and> is_queue s' 0x20 [0x400, 0x300]"
proof -
  have "is_queue demo_kernel 0x10 ([0x100, 0x200] @ 0x300 # [])" "is_queue demo_kernel 0x20 [0x400]"
    using sched_okD(1,2) [OF demo_sched_ok] by (simp_all add: demo_kernel_sel)
  from queue_transfer_correct [OF this] show ?thesis by auto
qed

text \<open>
  \<open>enqueue_element\<close> either finds no memory, answers -1, records the panic and leaves the
  queue alone, or appends one node: one whose address no live chunk had, holding the data.
\<close>
theorem enqueue_element_correct:
  assumes "is_queue s q xs" "owns s (set xs)" "length xs + 1 < 2 ^ 32"
    "alloc_inv s" "mutex s \<noteq> 1" "table_room sizeof_Node s"
  shows "\<exists>r s'. enqueue_element q data s = Inr (r, s') \<and> alloc_inv s' \<and>
    (r = -1 \<and> is_queue s' q xs \<and> live s' = live s \<and> panic_state (process_stats s') = OUT_OF_MEMORY \<or>
     r = 1 \<and> (\<exists>p. p \<noteq> NULL \<and> p \<notin> fst ` live s \<and> is_queue s' q (xs @ [p]) \<and> tdata (nodes s' p) = data \<and>
                  owns s' (set (xs @ [p]))))"
  using assms
proof (cases rule: enqueue_element_ok [where data = data])
  case (ok p s' k)
  have "owns s' (set (xs @ [p]))" using assms(2) ok(8) by (auto simp: owns_def)
  with ok show ?thesis by (intro exI [of _ 1] exI [of _ s']) auto
next
  case (full s1)
  let ?s' = "invoke_panic OUT_OF_MEMORY s1"
  have "alloc_inv ?s' = alloc_inv s1 \<and> live ?s' = live s1 \<and> used_entries ?s' = used_entries s1"
    by (rule alloc_inv_cong) (simp_all add: invoke_panic_def)
  moreover have "is_queue ?s' q xs = is_queue s q xs"
    by (rule is_queue_cong) (simp_all add: invoke_panic_def alloc_frame_kernel [OF full(2)])
  ultimately show ?thesis using assms(1) full
    by (intro exI [of _ "-1"] exI [of _ ?s']) (simp add: invoke_panic_def)
qed

theorem enqueue_element_correct_witness:
  "\<exists>r s'. enqueue_element 0x30 0x1500 demo_kernel = Inr (r, s') \<and> (r = -1 \<or> r = 1)"
proof -
  have "is_queue demo_kernel 0x30 []" by (simp add: is_queue_def demo_kernel_def)
  from enqueue_element_correct [OF this, where data = "0x1500"] demo_alloc show ?thesis
    by (auto simp: owns_def align_nat_def)
qed

section \<open>Blocking, waking, switching\<close>

text \<open>
  C13. \<open>block_current_task\<close> moves the running task to the end of the waiting queue in state
  WAITING, changes no other task, steps back to its predecessor in the ring (or to NULL when it
  was the only one), remembers the blocked task as the one to save, and yields.
\<close>
theorem block_current_task_correct:
  assumes "sched_ok s (as @ c # bs) W" "currently_running s = c"
  shows "\<exists>s'. block_current_task s = Inr s' \<and> sched_ok s' (as @ bs) (W @ [c]) \<and>
    task s' c = (task s c)\<lparr>tstate := WAITING\<rparr> \<and>
    (\<forall>n\<in>set (as @ bs @ W). task s' n = task s n) \<and>
    currently_running s' = (if as @ bs = [] then NULL else last (bs @ as)) \<and>
    task_to_preserve s' = c \<and> svc_pending (cpu s') \<and> r4_11 (cpu s') = (r4_11 (cpu s))[2 := trap_number yieldTask]"
proof -
  from assms obtain s' where B: "block_current_task s = Inr s'" "sched_ok s' (as @ bs) (W @ [c])"
    "tcbs s' = (tcbs s)(tdata (nodes s c) := (task s c)\<lparr>tstate := WAITING\<rparr>)"
    "currently_running s' = (if as @ bs = [] then NULL else last (bs @ as))"
    "task_to_preserve s' = c" "\<forall>n. tdata (nodes s' n) = tdata (nodes s n)"
    "cpu s' = (cpu s)\<lparr>primask := False, r4_11 := (r4_11 (cpu s))[2 := 2], svc_pending := True\<rparr>"
    by (rule block_current_task_ok)
  note D = sched_okD [OF assms(1)]
  have "task s' n = task s n" if n: "n \<in> set (as @ bs @ W)" for n
  proof -
    have "n \<noteq> c" "n \<in> set (as @ c # bs) \<union> set W" "c \<in> set (as @ c # bs) \<union> set W"
      using n D(4,10) by auto
    then have "tdata (nodes s n) \<noteq> tdata (nodes s c)" using inj_onD [OF D(6)] by blast
    then show ?thesis using B(3,6) by (simp add: task_def)
  qed
  moreover have "task s' c = (task s c)\<lparr>tstate := WAITING\<rparr>" using B(3,6) by (simp add: task_def)
  ultimately show ?thesis using B by (intro exI [of _ s']) simp
qed

theorem block_current_task_correct_witness:
  "\<exists>s'. block_current_task demo_kernel = Inr s' \<and> sched_ok s' [0x200, 0x300] [0x400, 0x100] \<and>
    currently_running s' = 0x300"
  using block_current_task_correct [of demo_kernel "[]" "0x100" "[0x200, 0x300]" "[0x400]"]
    demo_sched_ok demo_kernel_sel(3) by auto

text \<open>
  C15. \<open>wakeup_pid\<close> moves the first waiting task with the pid to the end of the running queue
  in state READY and returns its node; with no such task it returns NULL and changes nothing.
\<close>
theorem wakeup_pid_correct:
  assumes "sched_ok s R W"
  shows "((\<forall>n\<in>set W. pid_of (task s n) \<noteq> p) \<and> wakeup_pid p s = Inr (NULL, s)) \<or>
    (\<exists>as c bs s'. W = as @ c # bs \<and> pid_of (task s c) = p \<and> (\<forall>n\<in>set as. pid_of (task s n) \<noteq> p) \<and>
       wakeup_pid p s = Inr (c, s') \<and> sched_ok s' (R @ [c]) (as @ bs) \<and> ready s' c \<and>
       currently_running s' = currently_running s)"
  using assms
proof (cases rule: wakeup_pid_cases [where p = p])
  case (woken as c bs s')
  then have "ready s' c" by (simp add: ready_def task_def)
  with woken wake_frame_sel(5) [OF woken(9)] show ?thesis by blast
qed blast

theorem wakeup_pid_correct_witness:
  "\<exists>s'. wakeup_pid 0 demo_kernel = Inr (0x400, s') \<and> sched_ok s' [0x100, 0x200, 0x300, 0x400] []"
  using wakeup_pid_correct [OF demo_sched_ok, of 0]
  by (auto simp: Cons_eq_append_conv pid_of_def demo_task zero_Tcb_def)

text \<open>
  C12. With a task running and no finished DMA transfer to report, \<open>switch_task\<close> selects the
  first READY task after it in ring order, itself last, and changes nothing else.
\<close>
theorem switch_task_round_robin:
  assumes "sched_ok s (as @ c # bs) W" "currently_running s = c"
    "dma_interrupt_action (drv s) AND 1 = 0" "find (ready s) (bs @ as @ [c]) = Some n"
  shows "switch_task s = Inr (s\<lparr>currently_running := n, task_to_preserve := n\<rparr>)"
  using assms by (rule switch_task_selects)

theorem switch_task_round_robin_witness:
  "switch_task demo_kernel = Inr (demo_kernel\<lparr>currently_running := 0x300, task_to_preserve := 0x300\<rparr>)"
  using switch_task_round_robin [of demo_kernel "[]" "0x100" "[0x200, 0x300]" "[0x400]" "0x300"]
    demo_sched_ok demo_ready demo_kernel_sel by simp

text \<open>
  C10. \<open>switch_task\<close> never fails while the idle task (pid 0) exists in one of the queues:
  whatever is running, or nothing, and whatever the DMA reports, it ends with a READY task of
  the running queue selected and marked as the one to save next, and no task is lost or doubled.
\<close>
theorem switch_task_total:
  assumes "sched_ok s R W" "currently_running s = NULL \<or> currently_running s \<in> set R"
    "has_idle s (set R \<union> set W)"
  shows "\<exists>s' R' W'. switch_task s = Inr s' \<and> sched_ok s' R' W' \<and> selected s' R' \<and>
    mset (R' @ W') = mset (R @ W)"
  using switch_task_ok [OF assms] by blast

theorem switch_task_total_witness:
  "\<exists>s' R' W'. switch_task demo_kernel = Inr s' \<and> sched_ok s' R' W' \<and> selected s' R'"
  using switch_task_total [OF demo_sched_ok _ demo_idle] demo_kernel_sel(3) by auto

text \<open>
  The round robin starves no one: a READY task of the running queue is selected after at
  most as many switches as the queue has tasks.
\<close>
theorem round_robin_fair:
  assumes "sched_ok s R W" "currently_running s \<in> set R" "dma_interrupt_action (drv s) AND 1 = 0"
    "n \<in> set R" "ready s n"
  shows "\<exists>k s'. k \<le> length R \<and> switches k s = Inr s' \<and> currently_running s' = n"
proof -
  from after_exists [OF assms(2)] obtain xs where
    xs: "after R (currently_running s) xs" "set xs = set R" "length xs = length R" by blast
  with assms(4) obtain us vs where "xs = us @ n # vs" by (metis split_list)
  moreover from this xs(1) have "after R (currently_running s) (us @ n # vs)" by simp
  from reaches_ready [OF assms(1) this assms(3,5)] obtain k s' where
    "k \<le> length us + 1" "switches k s = Inr s'" "currently_running s' = n" by blast
  moreover have "length us + 1 \<le> length R" using xs(3) calculation(1) by simp
  ultimately show ?thesis by (intro exI [of _ k] exI [of _ s']) simp
qed

theorem round_robin_fair_witness:
  "\<exists>k s'. k \<le> length [0x100, 0x200, 0x300 :: addr] \<and> switches k demo_kernel = Inr s' \<and>
    currently_running s' = 0x300"
  using round_robin_fair [OF demo_sched_ok, of "0x300"] demo_ready(3) demo_kernel_sel by simp

text \<open>
  C14. Blocking and then switching runs the successor: while no finished DMA transfer is to be reported (bit 0 of
  \<open>dma_interrupt_action\<close> is clear; otherwise the switch wakes the idle task first) and some task that stays in
  the ring is READY, after \<open>block_current_task\<close> the switch selects the first READY task that followed the
  blocked one in the ring, as the comment on stepping back to the predecessor promises.
\<close>
theorem block_then_switch:
  assumes "sched_ok s (as @ c # bs) W" "currently_running s = c"
    "dma_interrupt_action (drv s) AND 1 = 0" "find (ready s) (bs @ as) = Some n"
  shows "\<exists>s1 s2. block_current_task s = Inr s1 \<and> switch_task s1 = Inr s2 \<and> currently_running s2 = n"
proof -
  from assms(1,2) obtain s1 where B: "block_current_task s = Inr s1" "sched_ok s1 (as @ bs) (W @ [c])"
    "tcbs s1 = (tcbs s)(tdata (nodes s c) := (task s c)\<lparr>tstate := WAITING\<rparr>)"
    "currently_running s1 = (if as @ bs = [] then NULL else last (bs @ as))"
    "task_to_preserve s1 = c" "\<forall>n. tdata (nodes s1 n) = tdata (nodes s n)"
    "cpu s1 = (cpu s)\<lparr>primask := False, r4_11 := (r4_11 (cpu s))[2 := 2], svc_pending := True\<rparr>"
    "mem s1 = mem s" "drv s1 = drv s"
    by (rule block_current_task_ok)
  note D = sched_okD [OF assms(1)]
  have "ready s1 m = ready s m" if "m \<in> set (bs @ as)" for m
  proof -
    have "m \<noteq> c" "m \<in> set (as @ c # bs) \<union> set W" "c \<in> set (as @ c # bs) \<union> set W"
      using that D(4,10) by auto
    then have "tdata (nodes s m) \<noteq> tdata (nodes s c)" using inj_onD [OF D(6)] by blast
    then show ?thesis using B(3,6) by (simp add: task_def ready_def)
  qed
  then have f: "find (ready s1) (bs @ as) = Some n" using assms(4) by (metis (no_types, lifting) find_cong)
  have "bs @ as \<noteq> []" using assms(4) by auto
  then have l: "currently_running s1 = last (bs @ as)" using B(4) by auto
  have "after (as @ bs) (last (bs @ as)) (bs @ as)"
  proof (cases as rule: rev_cases)
    case Nil
    then show ?thesis using \<open>bs @ as \<noteq> []\<close> unfolding after_def
      by (intro exI [of _ "butlast bs"] exI [of _ "[]"]) simp
  next
    case (snoc us u)
    then show ?thesis unfolding after_def by (intro exI [of _ us] exI [of _ bs]) simp
  qed
  then have "switch_task s1 = Inr (s1\<lparr>currently_running := n, task_to_preserve := n\<rparr>)"
    using switch_after [OF B(2)] l assms(3) B(9) f by simp
  with B(1) show ?thesis by simp
qed

theorem block_then_switch_witness:
  "\<exists>s1 s2. block_current_task demo_kernel = Inr s1 \<and> switch_task s1 = Inr s2 \<and> currently_running s2 = 0x300"
  using block_then_switch [of demo_kernel "[]" "0x100" "[0x200, 0x300]" "[0x400]" "0x300"]
    demo_sched_ok demo_ready demo_kernel_sel by simp

section \<open>Ending tasks\<close>

text \<open>
  C22. One pass of \<open>search_invalidate_tasks\<close> in the idle task returns with both queues and the
  heap well formed.  Only FINISHED or INVALID tasks are removed, the request counter (4 bits
  wide) drops by the number removed, the running task stays, and if there was anything to
  remove at least one task is gone (not always all: the loop bound shrinks as it runs).
\<close>
theorem search_invalidate_tasks_correct:
  assumes "sched_ok s R W" "currently_running s \<in> set R" "ready s (currently_running s)"
    "alloc_inv s" "mutex s \<noteq> 1"
  shows "\<exists>s' R'. search_invalidate_tasks s = Inr s' \<and> sched_ok s' R' W \<and> alloc_inv s' \<and>
    set R' \<subseteq> set R \<and> (\<forall>n\<in>set R - set R'. finished s n) \<and> currently_running s' = currently_running s \<and>
    clean_up_requests (process_stats s') + of_nat (length R) =
      clean_up_requests (process_stats s) + of_nat (length R') \<and>
    ((\<exists>n\<in>set R. finished s n) \<longrightarrow> length R' < length R)"
proof -
  let ?c = "currently_running s"
  note D = sched_okD [OF assms(1)]
  have run: "search_invalidate_tasks s = search_loop (length R) 0 ?c s"
    using queue_size [OF D(1)] by (simp add: search_invalidate_tasks_def)
  from search_loop_ok [OF assms(1,2) assms(2-5), of "length R" 0] obtain s' R' where
    S: "search_loop (length R) 0 ?c s = Inr s'" "sched_ok s' R' W" "alloc_inv s'" "set R' \<subseteq> set R"
      "\<forall>n\<in>set R - set R'. finished s n" "currently_running s' = ?c"
      "clean_up_requests (process_stats s') + of_nat (length R) =
        clean_up_requests (process_stats s) + of_nat (length R')" by blast
  obtain as bs where R: "R = as @ ?c # bs" using split_list [OF assms(2)] by blast
  have q: "is_queue s (running_tasks s) (as @ ?c # bs)" using D(1) R by simp
  have d: "\<forall>x\<in>set (as @ ?c # bs). tdata (nodes s x) \<noteq> NULL" using D(5) R by auto
  have w: "walk s ?c ((?c # bs) @ as)" using walk_queue [OF q d] by simp
  have sR: "set ((?c # bs) @ as) = set R" "length ((?c # bs) @ as) = length R"
    using arg_cong [OF R, of set] arg_cong [OF R, of length] by auto
  have "length R' < length R" if "\<exists>n\<in>set R. finished s n"
  proof (rule search_progress [OF assms(1-5) w _ _ _ _ S(1,2)])
    show "set ((?c # bs) @ as) \<subseteq> set R" "length ((?c # bs) @ as) \<le> length R"
      "unat (0 :: u32) + length ((?c # bs) @ as) \<le> length R" "\<exists>n\<in>set ((?c # bs) @ as). finished s n"
      using that unfolding sR by simp_all
  qed
  then show ?thesis unfolding run using S by blast
qed

theorem search_invalidate_tasks_correct_witness:
  "\<exists>s' R'. search_invalidate_tasks demo_kernel = Inr s' \<and> sched_ok s' R' [0x400] \<and>
    length R' < length [0x100, 0x200, 0x300 :: addr]"
proof -
  have c: "currently_running demo_kernel \<in> set [0x100, 0x200, 0x300]"
    "ready demo_kernel (currently_running demo_kernel)"
    using demo_ready(1) by (simp_all add: demo_kernel_sel)
  have "\<exists>n\<in>set [0x100, 0x200, 0x300]. finished demo_kernel n"
    by (simp add: finished_def demo_task zero_Tcb_def)
  with search_invalidate_tasks_correct [OF demo_sched_ok c demo_alloc(1,2)] show ?thesis by blast
qed

lemma available_loop_none:
  "walk s q xs \<Longrightarrow> \<forall>n\<in>set xs. tstate (task s n) \<noteq> READY \<Longrightarrow> available_loop (length xs) p q s = Inr False"
proof (induction xs arbitrary: q)
  case (Cons x xs)
  note W = walk_step [OF Cons.prems(1)]
  from W Cons show ?case by simp
qed simp

lemma join_task_returns:
  assumes "sched_ok s R W"
  shows "join_task p s = Inr s"
proof -
  note D = sched_okD [OF assms]
  have "check_tasks_availability p s = Inr False"
  proof (cases "W = []")
    case True
    then show ?thesis using queue_head [OF D(2)] by (simp add: check_tasks_availability_def)
  next
    case False
    have "walk s (hd W) W" by (rule walk_head [OF D(2)]) (use D(5) False in auto)
    from available_loop_none [OF this] have "available_loop (length W) p (hd W) s = Inr False"
      using D(8) by simp
    moreover have "hd W \<noteq> NULL" using D(12) [of "hd W"] False by simp
    ultimately show ?thesis using queue_head [OF D(2)] queue_size [OF D(2)] False
      by (simp add: check_tasks_availability_def)
  qed
  then show ?thesis by (simp add: join_task_def)
qed

text \<open>
  \<open>join_task\<close> never waits: it looks for a READY task in the waiting queue, where the
  invariant lets no READY task be, so it returns at once for every pid, whether or not that
  task is still running.
\<close>
theorem join_task_never_waits:
  assumes "sched_ok s R W"
  shows "join_task p s = Inr s"
  using assms by (rule join_task_returns)

theorem join_task_never_waits_witness: "join_task 3 demo_kernel = Inr demo_kernel"
  using join_task_never_waits [OF demo_sched_ok] .

text \<open>\<open>finish_task\<close> once the waiting parent, if any, has been woken.\<close>

lemma set_pendsv_writes: "\<exists>v. writes (set_pendsv s) = writes s @ [(Icsr, v OR shl 1 PendSVSet)]"
  by (auto simp: set_pendsv_def MODIFY_REGISTER_def READ_REGISTER_def WRITE_REGISTER_def split: list.split)

lemma finish_task_tail:
  assumes u: "upd_tcb_of (currently_running s) (\<lambda>t. t\<lparr>tstate := FINISHED\<rparr>) s = Inr s1"
    and tc: "tcb_of (currently_running s) s1 = Inr T" and pt: "tcb_at (parent_task T) s1 = Inr P"
    and cr: "currently_running s1 = currently_running s"
    and j: "(if (scast (join_pid P) :: u32) = ucast (pid T)
             then bnd (wakeup_pid (pid_of P) s1) (\<lambda>(q, s2). Inr s2) else Inr s1) = Inr s2"
  shows "\<exists>s' v. finish_task s = Inr s' \<and> kept s2 (s'\<lparr>process_stats := process_stats s2\<rparr>) \<and>
    clean_up_requests (process_stats s') = clean_up_requests (process_stats s2) + 1 \<and>
    writes s' = writes s2 @ [(Icsr, v OR shl 1 PendSVSet)]"
proof -
  let ?ps = "if DEBUG s2 \<noteq> 0 then (process_stats s2)\<lparr>num_of_finished_tasks := num_of_finished_tasks (process_stats s2) + 1\<rparr>
             else process_stats s2"
  let ?s3 = "s2\<lparr>process_stats := ?ps\<lparr>clean_up_requests := clean_up_requests ?ps + 1\<rparr>\<rparr>"
  have "finish_task s = Inr (set_pendsv ?s3)"
    using u tc pt cr j by (simp add: finish_task_def Let_def)
  moreover have k: "kept ?s3 (set_pendsv ?s3)"
    using MODIFY_shape [of Icsr "\<lambda>v. v OR shl 1 PendSVSet" ?s3]
    by (auto simp: kept_def set_pendsv_def)
  moreover obtain v where "writes (set_pendsv ?s3) = writes ?s3 @ [(Icsr, v OR shl 1 PendSVSet)]"
    using set_pendsv_writes by blast
  ultimately show ?thesis by (intro exI [of _ "set_pendsv ?s3"] exI [of _ v]) (simp add: kept_def)
qed

lemma finish_task_ok:
  assumes ok: "sched_ok s R W" and c: "currently_running s \<in> set R"
    and p: "parent_task (task s (currently_running s)) \<noteq> NULL"
      "parent_task (task s (currently_running s)) \<noteq> tdata (nodes s (currently_running s))"
  defines "P \<equiv> tcbs s (parent_task (task s (currently_running s)))"
  shows "\<exists>s' R' W'. finish_task s = Inr s' \<and> sched_ok s' R' W' \<and>
    tstate (task s' (currently_running s)) = FINISHED \<and>
    clean_up_requests (process_stats s') = clean_up_requests (process_stats s) + 1 \<and>
    set R' \<union> set W' = set R \<union> set W \<and>
    set R \<subseteq> set R' \<and> currently_running s' = currently_running s \<and> task_to_preserve s' = task_to_preserve s \<and>
    woke (if (scast (join_pid P) :: u32) = ucast (pid (task s (currently_running s))) then waiter (pid_of P) s W else None)
      (s\<lparr>tcbs := (tcbs s)(tdata (nodes s (currently_running s)) := (task s (currently_running s))\<lparr>tstate := FINISHED\<rparr>)\<rparr>) R W s' R' W' \<and>
    (\<exists>v. writes s' = writes s @ [(Icsr, v OR shl 1 PendSVSet)])"
proof -
  let ?c = "currently_running s" and ?T = "task s (currently_running s)"
  note D = sched_okD [OF ok]
  have cn: "?c \<noteq> NULL" "tdata (nodes s ?c) \<noteq> NULL" using D(5,12) c by auto
  let ?s1 = "s\<lparr>tcbs := (tcbs s)(tdata (nodes s ?c) := ?T\<lparr>tstate := FINISHED\<rparr>)\<rparr>"
  have u: "upd_tcb_of ?c (\<lambda>t. t\<lparr>tstate := FINISHED\<rparr>) s = Inr ?s1"
    by (rule upd_tcb_of_task [OF cn])
  have tk: "task ?s1 m = (if m = ?c then ?T\<lparr>tstate := FINISHED\<rparr> else task s m)" if "m \<in> set R \<union> set W" for m
    by (rule task_upd [OF D(6) that]) (use c in simp)
  have tc: "tcb_of ?c ?s1 = Inr (?T\<lparr>tstate := FINISHED\<rparr>)"
    using cn by (simp add: tcb_of_def node_at_def tcb_at_def)
  have pt: "tcb_at (parent_task (?T\<lparr>tstate := FINISHED\<rparr>)) ?s1 = Inr P"
    using p by (simp add: tcb_at_def P_def)
  have cW: "m \<noteq> ?c" if "m \<in> set W" for m using that c D(4) by auto
  have ok1: "sched_ok ?s1 R W"
  proof (rule sched_ok_same [OF ok])
    show "same_queues s ?s1" by simp
    show "tstate (task ?s1 m) \<noteq> WAITING" if m: "m \<in> set R" for m
      using tk [OF UnI1 [OF m]] D(7) [OF m] by (cases "m = ?c") simp_all
    show "tstate (task ?s1 m) \<noteq> READY" if m: "m \<in> set W" for m
      using tk [OF UnI2 [OF m]] D(8) [OF m] cW [OF m] by simp
  qed
  have wt: "waiter q ?s1 W = waiter q s W" for q
    by (rule waiter_cong) (use tk cW in simp)
  let ?m = "(scast (join_pid P) :: u32) = ucast (pid ?T)"
  let ?q = "if ?m then waiter (pid_of P) s W else None"
  have "\<exists>s2 R' W'. (if ?m then bnd (wakeup_pid (pid_of P) ?s1) (\<lambda>(q, s2). Inr s2) else Inr ?s1) = Inr s2 \<and>
      sched_ok s2 R' W' \<and> woke ?q ?s1 R W s2 R' W' \<and> wake_frame ?s1 s2"
  proof (cases ?m)
    case True
    from wakeup_returns [OF ok1, of "pid_of P"] obtain q s2 where w: "wakeup_pid (pid_of P) ?s1 = Inr (q, s2)" by blast
    from wakeup_woke [OF ok1 w] show ?thesis unfolding if_P [OF True] wt w bnd_simps prod.case by blast
  next
    case False
    then show ?thesis unfolding if_not_P [OF False] using ok1 by (intro exI [of _ ?s1] exI [of _ R] exI [of _ W]) simp
  qed
  then obtain s2 R' W' where j: "(if ?m then bnd (wakeup_pid (pid_of P) ?s1) (\<lambda>(q, s2). Inr s2) else Inr ?s1) = Inr s2"
    and s2: "sched_ok s2 R' W'" "woke ?q ?s1 R W s2 R' W'" "wake_frame ?s1 s2" by blast
  have "(if (scast (join_pid P) :: u32) = ucast (pid (?T\<lparr>tstate := FINISHED\<rparr>))
      then bnd (wakeup_pid (pid_of P) ?s1) (\<lambda>(q, s2). Inr s2) else Inr ?s1) = Inr s2" using j by simp
  from finish_task_tail [OF u tc pt _ this] obtain s' v where F: "finish_task s = Inr s'"
    "kept s2 (s'\<lparr>process_stats := process_stats s2\<rparr>)" "clean_up_requests (process_stats s') = clean_up_requests (process_stats s2) + 1"
    "writes s' = writes s2 @ [(Icsr, v OR shl 1 PendSVSet)]" by auto
  note wf = wake_frame_sel [OF s2(3)]
  have k: "nodes s' = nodes s2" "tcbs s' = tcbs s2" "currently_running s' = ?c" "task_to_preserve s' = task_to_preserve s"
    "same_queues s2 s'" using F(2) wf by (simp_all add: kept_def same_queues_def)
  have ok': "sched_ok s' R' W'" by (rule sched_ok_tcbs [OF s2(1) k(5,2)])
  have wk: "woke ?q ?s1 R W s' R' W'" by (rule woke_cong [OF s2(2)]) (use k wf in simp_all)
  have st: "tstate (task s' ?c) = FINISHED"
  proof (cases ?q)
    case None
    then show ?thesis using wk tk [of ?c] c by (simp add: woke_def task_def)
  next
    case (Some n)
    with wk have n: "n \<in> set W" and t': "tcbs s' = (tcbs ?s1)(tdata (nodes s n) := (task ?s1 n)\<lparr>tstate := READY\<rparr>)"
      "\<forall>m. tdata (nodes s' m) = tdata (nodes s m)"
      by (auto simp: woke_def)
    have "tdata (nodes s n) \<noteq> tdata (nodes s ?c)" using inj_onD [OF D(6), of n ?c] c n cW by auto
    then show ?thesis using t' tk [of ?c] c by (simp add: task_def)
  qed
  have un: "set R' \<union> set W' = set R \<union> set W" "set R \<subseteq> set R'"
    using woke_set [OF wk] wk by (auto simp: woke_def split: option.splits)
  have cu: "clean_up_requests (process_stats s') = clean_up_requests (process_stats s) + 1"
    "\<exists>v. writes s' = writes s @ [(Icsr, v OR shl 1 PendSVSet)]" using F(3,4) wf(7,24) by auto
  show ?thesis
    by (rule exI [of _ s'], rule exI [of _ R'], rule exI [of _ W'])
       (intro conjI F(1) ok' st cu un k(3,4) wk)
qed

text \<open>
  C23. \<open>finish_task\<close>, for a task in the running queue whose parent is neither NULL nor the task itself: the
  task becomes FINISHED, one clean-up request is added (modulo 16), and the last thing written is the PendSV
  request to the interrupt control register.  If the pid its parent has joined on is this task's, the first
  waiting task with the parent's pid (if there is one) is moved to the end of the running queue and made READY;
  otherwise the queues stay as they are.  No other task changes.
\<close>
theorem finish_task_correct:
  assumes ok: "sched_ok s R W" and c: "currently_running s \<in> set R"
    and p: "parent_task (task s (currently_running s)) \<noteq> NULL"
      "parent_task (task s (currently_running s)) \<noteq> tdata (nodes s (currently_running s))"
  defines "P \<equiv> tcbs s (parent_task (task s (currently_running s)))"
  defines "q \<equiv> if (scast (join_pid P) :: u32) = ucast (pid (task s (currently_running s)))
               then find (\<lambda>n. pid_of (task s n) = pid_of P) W else None"
  shows "\<exists>s' v. finish_task s = Inr s' \<and>
    tstate (task s' (currently_running s)) = FINISHED \<and>
    clean_up_requests (process_stats s') = clean_up_requests (process_stats s) + 1 \<and>
    writes s' = writes s @ [(0xE000ED04, v OR shl 1 28)] \<and>
    (case q of None \<Rightarrow> sched_ok s' R W | Some n \<Rightarrow> sched_ok s' (R @ [n]) (remove1 n W) \<and> ready s' n) \<and>
    (\<forall>m\<in>set R \<union> set W. m \<noteq> currently_running s \<longrightarrow> q \<noteq> Some m \<longrightarrow> task s' m = task s m)"
proof -
  let ?c = "currently_running s"
  let ?s1 = "s\<lparr>tcbs := (tcbs s)(tdata (nodes s ?c) := (task s ?c)\<lparr>tstate := FINISHED\<rparr>)\<rparr>"
  note fin = finish_task_ok [OF ok c p, unfolded waiter_def, folded P_def, folded q_def]
  from fin obtain s' R' W' v where F: "finish_task s = Inr s'" "sched_ok s' R' W'"
    "tstate (task s' ?c) = FINISHED" "clean_up_requests (process_stats s') = clean_up_requests (process_stats s) + 1"
    "woke q ?s1 R W s' R' W'" "writes s' = writes s @ [(Icsr, v OR shl 1 PendSVSet)]"
    by (elim exE conjE) (rule that)
  note D = sched_okD [OF ok]
  have dif: "tdata (nodes s m) \<noteq> tdata (nodes s n)" if "m \<noteq> n" "m \<in> set R \<union> set W" "n \<in> set R \<union> set W" for m n
    using inj_onD [OF D(6) _ that(2,3)] that(1) by auto
  have "(case q of None \<Rightarrow> sched_ok s' R W | Some n \<Rightarrow> sched_ok s' (R @ [n]) (remove1 n W) \<and> ready s' n) \<and>
    (\<forall>m\<in>set R \<union> set W. m \<noteq> ?c \<longrightarrow> q \<noteq> Some m \<longrightarrow> task s' m = task s m)"
  proof (cases q)
    case None
    then show ?thesis using F(2,5) dif c by (simp add: woke_def task_def)
  next
    case (Some n)
    with F(5) obtain as bs where n: "W = as @ n # bs" "R' = R @ [n]" "W' = as @ bs"
      "tcbs s' = (tcbs ?s1)(tdata (nodes s n) := (task ?s1 n)\<lparr>tstate := READY\<rparr>)" "\<forall>m. tdata (nodes s' m) = tdata (nodes s m)"
      by (auto simp: woke_def)
    have "n \<notin> set as" using D(11) unfolding n(1) by simp
    then have "remove1 n W = W'" unfolding n(1,3) by (simp add: remove1_append)
    moreover have "ready s' n" using n(4,5) by (simp add: ready_def task_def)
    moreover have "task s' m = task s m" if "m \<in> set R \<union> set W" "m \<noteq> ?c" "m \<noteq> n" for m
      using n(4,5) dif [OF that(2) that(1)] dif [OF that(3) that(1)] c n(1) by (simp add: task_def)
    ultimately show ?thesis using F(2) Some unfolding n(2) by simp
  qed
  then show ?thesis using F(1,3,4,6) by (intro exI [of _ s'] exI [of _ v] conjI) simp_all
qed

theorem finish_task_correct_witness:
  "\<exists>s' v. finish_task demo_kernel = Inr s' \<and> tstate (task s' 0x100) = FINISHED \<and>
    clean_up_requests (process_stats s') = 1 \<and> last (writes s') = (0xE000ED04, v OR shl 1 28)"
  using finish_task_correct [OF demo_sched_ok]
  by (auto simp: demo_kernel_sel demo_task zero_Tcb_def zero_ProcessStats_def)

text \<open>
  C36. \<open>kill_child_task\<close> kills no one: with a child list on the running task (every task has
  one) and a parent given, the operand of \<open>?:\<close> is the negation of the pointer, and the code
  dereferences NULL.
\<close>
theorem kill_child_task_derefs_null:
  assumes "tcb_of (currently_running s) s = Inr t" "child_tasks t \<noteq> NULL" "parent \<noteq> NULL"
  shows "kill_child_task fuel p parent s = Inl NullDeref"
  using assms by (simp add: kill_child_task_def slist_at_def)

theorem kill_child_task_derefs_null_witness:
  "kill_child_task 10 3 0x1400 demo_kernel = Inl NullDeref"
proof (rule kill_child_task_derefs_null)
  show "tcb_of (currently_running demo_kernel) demo_kernel =
      Inr (zero_Tcb\<lparr>pid := 1, parent_task := 0x1400, child_tasks := 0x30\<rparr>)"
    using tcb_of_task [of "0x100" demo_kernel] by (simp add: demo_kernel_sel demo_task)
qed simp_all

end
