(* ===== verification/Quicksort.thy ===== *)
theory Quicksort
  imports Prelude
begin

text \<open>
  \<open>os/src/data/quicksort.c\<close>: Lomuto partition and recursive quicksort over an array of
  C \<open>int\<close>s, with the order given by a comparator function.  An index is an \<open>int\<close> of HOL;
  every access is checked against the array's bounds.
\<close>

section \<open>Operations\<close>

definition int_comparator :: "i32 \<Rightarrow> i32 \<Rightarrow> i32" where
  "int_comparator a b =
     (if sint b < sint a then 1 else if sint a < sint b then -1 else 0)"

definition swapi :: "i32 list \<Rightarrow> int \<Rightarrow> int \<Rightarrow> i32 list res" where
  "swapi A a b =
     bnd (rd A a) (\<lambda>t.
     bnd (rd A b) (\<lambda>v.
     bnd (wr A a v) (\<lambda>A1.
     wr A1 b t)))"

text \<open>The loop of \<open>make_partition\<close>: its variables are \<open>i\<close>, \<open>j\<close> and the array.\<close>

function partition_loop ::
  "(i32 \<Rightarrow> i32 \<Rightarrow> i32) \<Rightarrow> i32 \<Rightarrow> int \<Rightarrow> int \<Rightarrow> int \<Rightarrow> i32 list \<Rightarrow> (int \<times> i32 list) res" where
  "partition_loop cmp pivot hi i j A =
     (if j < hi then
        bnd (rd A j) (\<lambda>x.
          if cmp x pivot = 0 \<or> cmp x pivot = -1
          then bnd (swapi A (i + 1) j) (\<lambda>A'. partition_loop cmp pivot hi (i + 1) (j + 1) A')
          else partition_loop cmp pivot hi i (j + 1) A)
      else Inr (i, A))"
  by pat_completeness auto
termination
  by (relation "measure (\<lambda>(cmp, pivot, hi, i, j, A). nat (hi - j))") auto

declare partition_loop.simps [simp del]

definition make_partition ::
  "i32 list \<Rightarrow> int \<Rightarrow> int \<Rightarrow> (i32 \<Rightarrow> i32 \<Rightarrow> i32) \<Rightarrow> (int \<times> i32 list) res" where
  "make_partition A lo hi cmp =
     bnd (rd A hi) (\<lambda>pivot.
     bnd (partition_loop cmp pivot hi (lo - 1) lo A) (\<lambda>(i, A1).
     bnd (swapi A1 (i + 1) hi) (\<lambda>A2.
     Inr (i + 1, A2))))"

section \<open>The partition stays inside its range\<close>

lemma swapi_in:
  assumes "0 \<le> a" "a < int (length A)" "0 \<le> b" "b < int (length A)"
  shows "swapi A a b = Inr (A[nat a := A ! nat b, nat b := A ! nat a])"
  using assms by (simp add: swapi_def)

lemma partition_loop_index:
  "partition_loop cmp pivot hi i j A = Inr (k, B) \<Longrightarrow> i < j \<Longrightarrow> j \<le> hi \<Longrightarrow> i \<le> k \<and> k < hi"
proof (induction cmp pivot hi i j A rule: partition_loop.induct)
  case (1 cmp pivot hi i j A)
  show ?case
  proof (cases "j < hi")
    case False
    with 1 show ?thesis by (simp add: partition_loop.simps [of _ _ _ _ j])
  next
    case True
    with "1.prems"(1) obtain x where x: "rd A j = Inr x"
      by (auto simp: partition_loop.simps [of _ _ _ _ j] elim: bnd_InrE)
    show ?thesis
    proof (cases "cmp x pivot = 0 \<or> cmp x pivot = -1")
      case le: True
      with True x "1.prems"(1) obtain A' where
        A': "swapi A (i + 1) j = Inr A'" and
        rec: "partition_loop cmp pivot hi (i + 1) (j + 1) A' = Inr (k, B)"
        by (auto simp: partition_loop.simps [of _ _ _ _ j] elim: bnd_InrE)
      from "1.IH"(1) [OF True x le A' rec] "1.prems" True show ?thesis by simp
    next
      case gt: False
      with True x "1.prems"(1) have rec: "partition_loop cmp pivot hi i (j + 1) A = Inr (k, B)"
        by (simp add: partition_loop.simps [of _ _ _ _ j])
      from "1.IH"(2) [OF True x gt rec] "1.prems" True show ?thesis by simp
    qed
  qed
qed

lemma make_partition_index:
  assumes "make_partition A lo hi cmp = Inr (p, B)" "lo \<le> hi"
  shows "lo \<le> p \<and> p \<le> hi"
proof -
  from assms(1) obtain i A1 where
    "partition_loop cmp (A ! nat hi) hi (lo - 1) lo A = Inr (i, A1)" and p: "p = i + 1"
    by (auto simp: make_partition_def bnd_eq_Inr rd_eq_Inr)
  from partition_loop_index [OF this(1)] assms(2) have "lo - 1 \<le> i \<and> i < hi" by simp
  with p show ?thesis by simp
qed

function quicksortR ::
  "i32 list \<Rightarrow> int \<Rightarrow> int \<Rightarrow> (i32 \<Rightarrow> i32 \<Rightarrow> i32) \<Rightarrow> i32 list res" where
  "quicksortR A lo hi cmp =
     (if hi \<le> lo \<or> lo < 0 then Inr A
      else
        bnd (make_partition A lo hi cmp) (\<lambda>(p, A1).
        bnd (quicksortR A1 lo (p - 1) cmp) (\<lambda>A2.
        quicksortR A2 (p + 1) hi cmp)))"
  by pat_completeness auto
termination
  by (relation "measure (\<lambda>(A, lo, hi, cmp). nat (hi - lo + 1))")
     (auto dest!: make_partition_index)

declare quicksortR.simps [simp del]

definition quicksort ::
  "i32 list \<Rightarrow> int \<Rightarrow> int \<Rightarrow> (i32 \<Rightarrow> i32 \<Rightarrow> i32) \<Rightarrow> i32 list res" where
  "quicksort A lo hi cmp = quicksortR A lo hi cmp"


section \<open>What a rearrangement of a range keeps\<close>

definition rearranges :: "int \<Rightarrow> int \<Rightarrow> 'a list \<Rightarrow> 'a list \<Rightarrow> bool" where
  "rearranges lo hi A B \<longleftrightarrow>
     mset B = mset A \<and> (\<forall>m. 0 \<le> m \<and> (m < lo \<or> hi < m) \<longrightarrow> B ! nat m = A ! nat m)"

definition sorted_range :: "('a \<Rightarrow> 'a \<Rightarrow> bool) \<Rightarrow> int \<Rightarrow> int \<Rightarrow> 'a list \<Rightarrow> bool" where
  "sorted_range le lo hi A \<longleftrightarrow>
     (\<forall>m n. lo \<le> m \<and> m \<le> n \<and> n \<le> hi \<longrightarrow> le (A ! nat m) (A ! nat n))"

lemma rearranges_refl [simp]: "rearranges lo hi A A"
  by (simp add: rearranges_def)

lemma rearranges_length: "rearranges lo hi A B \<Longrightarrow> length B = length A"
  unfolding rearranges_def by (metis size_mset)

lemma rearranges_mono:
  "rearranges lo hi A B \<Longrightarrow> lo' \<le> lo \<Longrightarrow> hi \<le> hi' \<Longrightarrow> rearranges lo' hi' A B"
  by (auto simp: rearranges_def)

lemma rearranges_trans:
  "rearranges lo hi A B \<Longrightarrow> rearranges lo hi B C \<Longrightarrow> rearranges lo hi A C"
  by (simp add: rearranges_def)

lemma rearranges_swap:
  assumes "0 \<le> lo" "lo \<le> a" "a \<le> hi" "lo \<le> b" "b \<le> hi" "hi < int (length A)"
  shows "rearranges lo hi A (A[nat a := A ! nat b, nat b := A ! nat a])"
  using assms by (auto simp: rearranges_def mset_swap_list nth_list_update nat_eq_iff)

lemma range_image: "0 \<le> lo \<Longrightarrow> hi < int (length A) \<Longrightarrow>
   (\<lambda>m. A ! nat m) ` {lo..hi} = set (take (nat (hi + 1) - nat lo) (drop (nat lo) A))"
proof -
  assume lo: "0 \<le> lo" and hi: "hi < int (length A)"
  let ?n = "nat (hi + 1) - nat lo" and ?D = "drop (nat lo) A"
  have "set (take ?n ?D) = (\<lambda>k. ?D ! k) ` {..<?n}"
    using lo hi nth_image [of ?n ?D] by (simp add: lessThan_atLeast0)
  also have "\<dots> = (\<lambda>m. A ! nat m) ` {lo..hi}"
  proof (rule set_eqI, rule iffI)
    fix x assume "x \<in> (\<lambda>k. ?D ! k) ` {..<?n}"
    then obtain k where "k < ?n" "x = ?D ! k" by auto
    with lo hi have "x = A ! nat (lo + int k)" "lo + int k \<in> {lo..hi}"
      by (auto simp: nat_add_distrib)
    then show "x \<in> (\<lambda>m. A ! nat m) ` {lo..hi}" by blast
  next
    fix x assume "x \<in> (\<lambda>m. A ! nat m) ` {lo..hi}"
    then obtain m where m: "lo \<le> m" "m \<le> hi" "x = A ! nat m" by auto
    with lo hi have "x = ?D ! nat (m - lo)" "nat (m - lo) < ?n"
      by (auto simp: nat_diff_distrib)
    then show "x \<in> (\<lambda>k. ?D ! k) ` {..<?n}" by blast
  qed
  finally show ?thesis ..
qed

text \<open>The elements inside the range are the same, in another order.\<close>

lemma rearranges_range_mset:
  assumes r: "rearranges lo hi A B" and b: "0 \<le> lo" "lo \<le> hi + 1" "hi < int (length A)"
  shows "mset (take (nat (hi + 1) - nat lo) (drop (nat lo) B)) =
         mset (take (nat (hi + 1) - nat lo) (drop (nat lo) A))"
proof -
  let ?l = "nat lo" and ?h = "nat (hi + 1)"
  have len: "length B = length A" by (rule rearranges_length [OF r])
  have split3: "C = take ?l C @ take (?h - ?l) (drop ?l C) @ drop ?h C" for C :: "'a list"
  proof -
    have "?l + (?h - ?l) = ?h" using b by simp
    then have "drop ?l C = take (?h - ?l) (drop ?l C) @ drop ?h C"
      by (metis append_take_drop_id drop_drop add.commute)
    then show ?thesis by (metis append_take_drop_id)
  qed
  have out: "B ! m = A ! m" if "m < ?l \<or> ?h \<le> m" for m
    using r b that unfolding rearranges_def
    by (metis nat_int int_nat_eq zless_nat_conj linorder_not_less nat_less_iff
        of_nat_0_le_iff zless_nat_eq_int_zless le_nat_iff add1_zle_eq)
  have "take ?l B = take ?l A"
    by (rule nth_equalityI) (auto simp: len out)
  moreover have "drop ?h B = drop ?h A"
    by (rule nth_equalityI) (auto simp: len out)
  moreover have "mset B = mset A" using r by (simp add: rearranges_def)
  ultimately show ?thesis
    by (metis split3 [of A] split3 [of B] mset_append add_left_cancel add_right_cancel)
qed

lemma rearranges_range_image:
  assumes "rearranges lo hi A B" "0 \<le> lo" "lo \<le> hi + 1" "hi < int (length A)"
  shows "(\<lambda>m. B ! nat m) ` {lo..hi} = (\<lambda>m. A ! nat m) ` {lo..hi}"
  using rearranges_range_mset [OF assms] assms
  by (metis range_image rearranges_length set_mset_mset)

lemma rearranges_all:
  assumes "rearranges lo hi A B" "0 \<le> lo" "lo \<le> hi + 1" "hi < int (length A)"
    and "\<forall>m\<in>{lo..hi}. P (A ! nat m)" and "m \<in> {lo..hi}"
  shows "P (B ! nat m)"
  using rearranges_range_image [OF assms(1-4)] assms(5,6) by (metis imageE imageI)


section \<open>The partition splits its range\<close>

text \<open>The test of the loop: the comparator says "equal" or "less".\<close>

definition cmp_le :: "(i32 \<Rightarrow> i32 \<Rightarrow> i32) \<Rightarrow> i32 \<Rightarrow> i32 \<Rightarrow> bool" where
  "cmp_le cmp x y \<longleftrightarrow> cmp x y = 0 \<or> cmp x y = -1"

lemma partition_loop_step:
  assumes "0 \<le> j" "j < hi" "hi < int (length A)"
  shows "partition_loop cmp pivot hi i j A =
    (if cmp_le cmp (A ! nat j) pivot
     then bnd (swapi A (i + 1) j) (partition_loop cmp pivot hi (i + 1) (j + 1))
     else partition_loop cmp pivot hi i (j + 1) A)"
  using assms by (simp add: partition_loop.simps [of _ _ _ _ j] cmp_le_def)

definition splits_at :: "(i32 \<Rightarrow> i32 \<Rightarrow> i32) \<Rightarrow> i32 \<Rightarrow> int \<Rightarrow> int \<Rightarrow> int \<Rightarrow> i32 list \<Rightarrow> bool" where
  "splits_at cmp pivot lo k hi A \<longleftrightarrow>
     (\<forall>m. lo \<le> m \<and> m \<le> k \<longrightarrow> cmp_le cmp (A ! nat m) pivot) \<and>
     (\<forall>m. k < m \<and> m < hi \<longrightarrow> \<not> cmp_le cmp (A ! nat m) pivot)"

lemma splits_at_swap:
  assumes "splits_at cmp pivot lo i j A" "cmp_le cmp (A ! nat j) pivot"
    and "0 \<le> lo" "lo - 1 \<le> i" "i < j" "j < int (length A)"
  shows "splits_at cmp pivot lo (i + 1) (j + 1)
           (A[nat (i + 1) := A ! nat j, nat j := A ! nat (i + 1)])"
  using assms unfolding splits_at_def
  by (auto simp: nth_list_update nat_eq_iff)

lemma splits_at_skip:
  assumes "splits_at cmp pivot lo i j A" "\<not> cmp_le cmp (A ! nat j) pivot"
  shows "splits_at cmp pivot lo i (j + 1) A"
  using assms unfolding splits_at_def by (metis zle_add1_eq_le order_le_less)

lemma partition_loop_correct:
  assumes "0 \<le> lo" "lo - 1 \<le> i" "i < j" "lo \<le> j" "j \<le> hi" "hi < int (length A)"
    and "splits_at cmp pivot lo i j A"
  shows "\<exists>k B. partition_loop cmp pivot hi i j A = Inr (k, B) \<and> i \<le> k \<and> k < hi \<and>
           rearranges lo (hi - 1) A B \<and> splits_at cmp pivot lo k hi B"
  using assms
proof (induction cmp pivot hi i j A rule: partition_loop.induct)
  case (1 cmp pivot hi i j A)
  show ?case
  proof (cases "j < hi")
    case False
    then have "partition_loop cmp pivot hi i j A = Inr (i, A)"
      by (simp add: partition_loop.simps [of _ _ _ _ j])
    with "1.prems" False show ?thesis by auto
  next
    case True
    have j: "0 \<le> j" "j < int (length A)" and rdj: "rd A j = Inr (A ! nat j)"
      using "1.prems" by simp_all
    show ?thesis
    proof (cases "cmp_le cmp (A ! nat j) pivot")
      case le: True
      let ?A = "A[nat (i + 1) := A ! nat j, nat j := A ! nat (i + 1)]"
      have sw: "swapi A (i + 1) j = Inr ?A" using "1.prems" j by (intro swapi_in) auto
      have re: "rearranges lo (hi - 1) A ?A"
        using "1.prems" True by (intro rearranges_swap) auto
      have "\<exists>k B. partition_loop cmp pivot hi (i + 1) (j + 1) ?A = Inr (k, B) \<and> i + 1 \<le> k \<and>
              k < hi \<and> rearranges lo (hi - 1) ?A B \<and> splits_at cmp pivot lo k hi B"
        using "1.prems" True j le
        by (intro "1.IH"(1) [OF True rdj le [unfolded cmp_le_def] sw] splits_at_swap) auto
      with re show ?thesis
        unfolding partition_loop_step [OF j(1) True \<open>hi < int (length A)\<close>]
        by (fastforce simp: le sw intro: rearranges_trans)
    next
      case gt: False
      have "\<exists>k B. partition_loop cmp pivot hi i (j + 1) A = Inr (k, B) \<and> i \<le> k \<and>
              k < hi \<and> rearranges lo (hi - 1) A B \<and> splits_at cmp pivot lo k hi B"
        using "1.prems" True gt
        by (intro "1.IH"(2) [OF True rdj gt [unfolded cmp_le_def]] splits_at_skip) auto
      with gt show ?thesis
        unfolding partition_loop_step [OF j(1) True \<open>hi < int (length A)\<close>] by simp
    qed
  qed
qed

lemma make_partition_correct:
  assumes "0 \<le> lo" "lo \<le> hi" "hi < int (length A)"
  shows "\<exists>p B. make_partition A lo hi cmp = Inr (p, B) \<and> lo \<le> p \<and> p \<le> hi \<and>
           rearranges lo hi A B \<and> B ! nat p = A ! nat hi \<and>
           (\<forall>m. lo \<le> m \<and> m < p \<longrightarrow> cmp_le cmp (B ! nat m) (B ! nat p)) \<and>
           (\<forall>m. p < m \<and> m \<le> hi \<longrightarrow> \<not> cmp_le cmp (B ! nat m) (B ! nat p))"
proof -
  have "splits_at cmp (A ! nat hi) lo (lo - 1) lo A" by (auto simp: splits_at_def)
  from partition_loop_correct [OF assms(1) _ _ _ assms(2,3) this] assms
  obtain k C where
    loop: "partition_loop cmp (A ! nat hi) hi (lo - 1) lo A = Inr (k, C)" and
    k: "lo - 1 \<le> k" "k < hi" and re: "rearranges lo (hi - 1) A C" and
    sp: "splits_at cmp (A ! nat hi) lo k hi C" by auto
  have len: "length C = length A" by (rule rearranges_length [OF re])
  have Chi: "C ! nat hi = A ! nat hi" using re assms by (simp add: rearranges_def)
  let ?B = "C[nat (k + 1) := C ! nat hi, nat hi := C ! nat (k + 1)]"
  have sw: "swapi C (k + 1) hi = Inr ?B"
    using assms k by (intro swapi_in) (simp_all add: len)
  have reB: "rearranges lo hi A ?B"
  proof (rule rearranges_trans)
    show "rearranges lo hi A C" by (rule rearranges_mono [OF re]) simp_all
    show "rearranges lo hi C ?B" using assms k by (intro rearranges_swap) (simp_all add: len)
  qed
  have nth: "?B ! nat m = (if m = hi then C ! nat (k + 1) else if m = k + 1 then A ! nat hi
               else C ! nat m)" if "lo \<le> m" "m \<le> hi" for m
    using that assms k by (auto simp: nth_list_update nat_eq_iff len Chi)
  have piv: "?B ! nat (k + 1) = A ! nat hi" using nth [of "k + 1"] k Chi by auto
  have low: "cmp_le cmp (?B ! nat m) (A ! nat hi)" if "lo \<le> m" "m < k + 1" for m
    using that sp nth [of m] k by (simp add: splits_at_def)
  have high: "\<not> cmp_le cmp (?B ! nat m) (A ! nat hi)" if "k + 1 < m" "m \<le> hi" for m
    using that sp nth [of m] k assms by (auto simp: splits_at_def)
  have "make_partition A lo hi cmp = Inr (k + 1, ?B)"
    using assms by (simp add: make_partition_def loop sw)
  moreover have "lo \<le> k + 1 \<and> k + 1 \<le> hi" using k by simp
  ultimately show ?thesis
    using reB piv low high
    by (intro exI [of _ "k + 1"] exI [of _ ?B] conjI allI impI) (simp_all only: piv, simp_all)
qed

section \<open>Quicksort sorts, for every comparator that keeps the contract\<close>

text \<open>
  What \<open>quicksort\<close> asks of its \<open>comparator\<close> argument: "equal or less" is a total preorder.
\<close>

locale comparator =
  fixes cmp :: "i32 \<Rightarrow> i32 \<Rightarrow> i32"
  assumes cmp_total: "cmp_le cmp x y \<or> cmp_le cmp y x"
    and cmp_trans: "cmp_le cmp x y \<Longrightarrow> cmp_le cmp y z \<Longrightarrow> cmp_le cmp x z"
begin

lemma sorted_join:
  assumes "sorted_range (cmp_le cmp) lo (p - 1) A" "sorted_range (cmp_le cmp) (p + 1) hi A"
    and "\<forall>m. lo \<le> m \<and> m < p \<longrightarrow> cmp_le cmp (A ! nat m) (A ! nat p)"
    and "\<forall>m. p < m \<and> m \<le> hi \<longrightarrow> cmp_le cmp (A ! nat p) (A ! nat m)"
  shows "sorted_range (cmp_le cmp) lo hi A"
  unfolding sorted_range_def
proof (intro allI impI)
  fix m n assume mn: "lo \<le> m \<and> m \<le> n \<and> n \<le> hi"
  consider "n < p" | "p < m" | "m \<le> p" "p \<le> n" by linarith
  then show "cmp_le cmp (A ! nat m) (A ! nat n)"
  proof cases
    case 1
    with mn assms(1) show ?thesis by (auto simp: sorted_range_def)
  next
    case 2
    with mn assms(2) show ?thesis by (auto simp: sorted_range_def)
  next
    case 3
    have "cmp_le cmp (A ! nat m) (A ! nat p)"
      using 3 mn assms(3) cmp_total by (cases "m = p") auto
    moreover have "cmp_le cmp (A ! nat p) (A ! nat n)"
      using 3 mn assms(4) cmp_total by (cases "n = p") auto
    ultimately show ?thesis by (rule cmp_trans)
  qed
qed

lemma quicksortR_correct:
  assumes "0 \<le> lo" "hi < int (length A)"
  shows "\<exists>B. quicksortR A lo hi cmp = Inr B \<and> rearranges lo hi A B \<and>
           sorted_range (cmp_le cmp) lo hi B"
  using assms
proof (induction "nat (hi - lo + 1)" arbitrary: A lo hi rule: less_induct)
  case less
  show ?case
  proof (cases "hi \<le> lo")
    case True
    then have "sorted_range (cmp_le cmp) lo hi A"
      using cmp_total unfolding sorted_range_def by (metis order_antisym order_trans)
    with True show ?thesis by (simp add: quicksortR.simps [of A])
  next
    case False
    with less.prems obtain p B where
      part: "make_partition A lo hi cmp = Inr (p, B)" and p: "lo \<le> p" "p \<le> hi" and
      re1: "rearranges lo hi A B" and
      low: "\<forall>m. lo \<le> m \<and> m < p \<longrightarrow> cmp_le cmp (B ! nat m) (B ! nat p)" and
      high: "\<forall>m. p < m \<and> m \<le> hi \<longrightarrow> \<not> cmp_le cmp (B ! nat m) (B ! nat p)"
      using make_partition_correct [of lo hi A cmp] by auto
    have lenB: "length B = length A" by (rule rearranges_length [OF re1])
    obtain C where
      q1: "quicksortR B lo (p - 1) cmp = Inr C" and re2: "rearranges lo (p - 1) B C" and
      s2: "sorted_range (cmp_le cmp) lo (p - 1) C"
      using less.hyps [of "p - 1" lo B] less.prems False p lenB by auto
    have lenC: "length C = length A" using rearranges_length [OF re2] lenB by simp
    obtain D where
      q2: "quicksortR C (p + 1) hi cmp = Inr D" and re3: "rearranges (p + 1) hi C D" and
      s3: "sorted_range (cmp_le cmp) (p + 1) hi D"
      using less.hyps [of hi "p + 1" C] less.prems False p lenC by auto
    have eqC: "C ! nat m = B ! nat m" if "p \<le> m" for m
      using re2 that less.prems p by (auto simp: rearranges_def)
    have eqD: "D ! nat m = C ! nat m" if "0 \<le> m" "m \<le> p" for m
      using re3 that by (auto simp: rearranges_def)
    have res: "quicksortR A lo hi cmp = Inr D"
      using False less.prems by (simp add: quicksortR.simps [of A] part q1 q2)
    have re: "rearranges lo hi A D"
      using re1 rearranges_mono [OF re2, of lo hi] rearranges_mono [OF re3, of lo hi] p
      by (auto intro: rearranges_trans)
    have sD: "sorted_range (cmp_le cmp) lo (p - 1) D"
      using s2 less.prems eqD unfolding sorted_range_def by auto
    have lowC: "cmp_le cmp (C ! nat m) (B ! nat p)" if "m \<in> {lo..p - 1}" for m
      using rearranges_all [OF re2 less.prems(1), of "\<lambda>x. cmp_le cmp x (B ! nat p)"]
        low p lenB less.prems that by auto
    have highD: "\<not> cmp_le cmp (D ! nat m) (B ! nat p)" if "m \<in> {p + 1..hi}" for m
      using rearranges_all [OF re3, of "\<lambda>x. \<not> cmp_le cmp x (B ! nat p)"]
        high p lenC less.prems that eqC by auto
    have Dp: "D ! nat p = B ! nat p" using eqD [of p] eqC [of p] p less.prems by simp
    have "sorted_range (cmp_le cmp) lo hi D"
    proof (rule sorted_join [OF sD s3])
      show "\<forall>m. lo \<le> m \<and> m < p \<longrightarrow> cmp_le cmp (D ! nat m) (D ! nat p)"
        using lowC eqD less.prems Dp by auto
      show "\<forall>m. p < m \<and> m \<le> hi \<longrightarrow> cmp_le cmp (D ! nat p) (D ! nat m)"
        using highD cmp_total Dp by (metis add1_zle_eq atLeastAtMost_iff)
    qed
    with res re show ?thesis by blast
  qed
qed

lemma quicksort_correct:
  assumes "0 \<le> lo" "hi < int (length A)"
  shows "\<exists>B. quicksort A lo hi cmp = Inr B \<and> rearranges lo hi A B \<and>
           sorted_range (cmp_le cmp) lo hi B"
  using quicksortR_correct [OF assms] by (simp add: quicksort_def)

end

section \<open>The comparator on plain integers keeps the contract\<close>

lemma cmp_le_int: "cmp_le int_comparator x y \<longleftrightarrow> sint x \<le> sint y"
  by (auto simp: cmp_le_def int_comparator_def)

interpretation int_cmp: comparator int_comparator
  by unfold_locales (auto simp: cmp_le_int)

end
