(* ===== verification/Memory_Ops.thy ===== *)
theory Memory_Ops
  imports Kernel_State Quicksort
begin

text \<open>
  The rest of \<open>os/src/memory.c\<close>: byte operations on RAM, the comparators of the chunk table,
  its defragmentation, and the memory statistic.  The allocator itself is in theory
  \<open>Allocator\<close>.
\<close>

section \<open>Bytes\<close>

definition swap :: "addr \<Rightarrow> (addr \<Rightarrow> u8) \<Rightarrow> addr \<Rightarrow> u8" where
  "swap buffer m =
     (let tmp = m buffer;
          m1 = m(buffer := m (buffer + 3));
          m2 = m1(buffer + 3 := tmp);
          tmp = m2 (buffer + 1);
          m3 = m2(buffer + 1 := m2 (buffer + 2))
      in m3(buffer + 2 := tmp))"

definition swap_endianess :: "addr \<Rightarrow> (addr \<Rightarrow> u8) \<Rightarrow> addr \<Rightarrow> u8" where
  "swap_endianess buffer m =
     (let tmp = m buffer;
          m1 = m(buffer := m (buffer + 1));
          m2 = m1(buffer + 1 := tmp);
          tmp = m2 (buffer + 2);
          m3 = m2(buffer + 2 := m2 (buffer + 3))
      in m3(buffer + 3 := tmp))"

fun memset_loop :: "nat \<Rightarrow> addr \<Rightarrow> u8 \<Rightarrow> (addr \<Rightarrow> u8) \<Rightarrow> addr \<Rightarrow> u8" where
  "memset_loop 0 dest_1 pattern m = m"
| "memset_loop (Suc k) dest_1 pattern m = memset_loop k (dest_1 + 1) pattern (m(dest_1 := pattern))"

definition memset_byte :: "addr \<Rightarrow> u32 \<Rightarrow> u8 \<Rightarrow> kernel \<Rightarrow> kernel" where
  "memset_byte dest number_of_bytes pattern s =
     s\<lparr>mem := memset_loop (unat number_of_bytes) dest pattern (mem s)\<rparr>"

section \<open>Comparators\<close>

text \<open>\<open>a >> 16\<close> on an \<open>int\<close> is the arithmetic shift.\<close>

definition offset_comparator :: "i32 \<Rightarrow> i32 \<Rightarrow> i32" where
  "offset_comparator a b =
     (let offset_a = signed_drop_bit 16 a; offset_b = signed_drop_bit 16 b in
      if sint offset_b < sint offset_a then 1 else if sint offset_a < sint offset_b then -1 else 0)"

definition size_comparator :: "i32 \<Rightarrow> i32 \<Rightarrow> i32" where
  "size_comparator a b =
     (let size_a = drop_bit 1 (a AND 0xFFFE); size_b = drop_bit 1 (b AND 0xFFFE) in
      if size_b < size_a then 1 else if size_a < size_b then -1 else 0)"

section \<open>defrag\<close>

text \<open>\<open>while (*(MEM_TABLE_START + ++i) != 0xFFFE);\<close>\<close>

function find_default :: "u32 list \<Rightarrow> int \<Rightarrow> int res" where
  "find_default T i =
     bnd (rd T (i + 1)) (\<lambda>e. if e \<noteq> 0xFFFE then find_default T (i + 1) else Inr (i + 1))"
  by pat_completeness auto
termination
  by (relation "measure (\<lambda>(T, i). nat (int (length T) - i))") (auto simp: rd_eq_Inr)

text \<open>The search for the end of the free run: the loop \<open>while (1)\<close>.\<close>

function free_run :: "u32 list \<Rightarrow> int \<Rightarrow> int \<Rightarrow> int res" where
  "free_run T highest_used_entry offset_index =
     bnd (rd T offset_index) (\<lambda>e.
       if e AND 1 = 1 \<or> highest_used_entry < offset_index then Inr offset_index
       else free_run T highest_used_entry (offset_index + 1))"
  by pat_completeness auto
termination
  by (relation "measure (\<lambda>(T, h, i). nat (int (length T) - i))") (auto simp: rd_eq_Inr)

function sum_sizes :: "u32 list \<Rightarrow> int \<Rightarrow> int \<Rightarrow> u32 \<Rightarrow> u32 res" where
  "sum_sizes T k offset_index new_size =
     (if k < offset_index
      then bnd (rd T k) (\<lambda>e. sum_sizes T (k + 1) offset_index (new_size + drop_bit 1 (e AND 0xFFFE)))
      else Inr new_size)"
  by pat_completeness auto
termination
  by (relation "measure (\<lambda>(T, k, i, n). nat (i - k))") auto

function relocate :: "int \<Rightarrow> int \<Rightarrow> int \<Rightarrow> u32 list \<Rightarrow> u32 list res" where
  "relocate highest_used_entry new_location_start offset_index T =
     (if new_location_start < highest_used_entry + 1
      then bnd (rd T offset_index) (\<lambda>e.
           bnd (wr T new_location_start e) (\<lambda>T1.
           relocate highest_used_entry (new_location_start + 1) (offset_index + 1) T1))
      else Inr T)"
  by pat_completeness auto
termination
  by (relation "measure (\<lambda>(h, n, i, T). nat (h + 1 - n))") auto

declare find_default.simps [simp del] free_run.simps [simp del] sum_sizes.simps [simp del]
  relocate.simps [simp del]

function merge_loop :: "int \<Rightarrow> int \<Rightarrow> u32 list \<Rightarrow> u32 list res" where
  "merge_loop highest_used_entry base_index T =
     (if base_index < highest_used_entry then
        bnd (rd T base_index) (\<lambda>mementry_ptr_1.
        bnd (if mementry_ptr_1 AND 1 \<noteq> 1 \<and> mementry_ptr_1 \<noteq> 0xFFFE then
               bnd (free_run T highest_used_entry (base_index + 1)) (\<lambda>offset_index.
               if offset_index = base_index + 1 then Inr T
               else
                 bnd (sum_sizes T base_index offset_index 0) (\<lambda>new_size.
                 bnd (wr T base_index (mementry_ptr_1 AND NOT 0xFFFF)) (\<lambda>T1.
                 bnd (rd T1 base_index) (\<lambda>e.
                 bnd (wr T1 base_index (e OR push_bit 1 new_size)) (\<lambda>T2.
                 relocate highest_used_entry (base_index + 1) offset_index T2)))))
             else Inr T) (\<lambda>T3.
        merge_loop highest_used_entry (base_index + 1) T3))
      else Inr T)"
  by pat_completeness auto
termination
  by (relation "measure (\<lambda>(h, b, T). nat (h - b))") auto

declare merge_loop.simps [simp del]

definition defrag :: "'z alloc_state_scheme \<Rightarrow> 'z alloc_state_scheme res" where
  "defrag s =
     bnd (lock_mutex s) (\<lambda>s1.
     bnd (find_default (MEM_TABLE s1) (-1)) (\<lambda>h.
     let highest_used_entry = h - 1 in
     bnd (quicksort (MEM_TABLE s1) 0 highest_used_entry offset_comparator) (\<lambda>T.
     bnd (merge_loop highest_used_entry 0 T) (\<lambda>T1.
     Inr (release_mutex (s1\<lparr>MEM_TABLE := T1\<rparr>))))))"

section \<open>update_memory_statistic\<close>

abbreviation (input) RAM_START :: addr where "RAM_START \<equiv> 0x20000000"

fun alloced_loop :: "nat \<Rightarrow> nat \<Rightarrow> u32 \<Rightarrow> kernel \<Rightarrow> u32 res" where
  "alloced_loop 0 index acc s = Inr acc"
| "alloced_loop (Suc k) index acc s =
     bnd (rd (MEM_TABLE s) (int index)) (\<lambda>entry.
     alloced_loop k (index + 1)
       (if entry AND 1 = 1 then acc + drop_bit 1 (entry AND 0xFFFE) else acc) s)"

definition update_memory_statistic :: "MemoryLifetime \<Rightarrow> kernel \<Rightarrow> (MemoryLifetime \<times> kernel) res" where
  "update_memory_statistic li s =
     (let tb = (RAM_START + ml_ram_size li) - msp (cpu s);
          tb = tb + (MEM_TABLE_START s - RAM_START);
          tb = tb + of_nat NUM_OF_SLOTS * 4;
          ml = li\<lparr>ml_ram_size := ram_size (mstat_local s),
                             ml_num_of_allocs := num_of_allocs (mstat_local s),
                             ml_num_of_deallocs := num_of_deallocs (mstat_local s)\<rparr> in
      bnd (alloced_loop NUM_OF_SLOTS 0 tb s) (\<lambda>tb.
      bnd (deallocate NULL s) (\<lambda>(r, s1).
      Inr (ml\<lparr>total_byte_alloced := tb, total_byte_used := 0\<rparr>, s1))))"

section \<open>What the byte operations do\<close>

lemma memset_loop_apply:
  "n \<le> 2 ^ 32 \<Longrightarrow> memset_loop n a p m x = (if unat (x - a) < n then p else m x)"
proof (induction n arbitrary: a m)
  case (Suc n)
  have "unat (x - (a + 1)) < n \<or> x = a \<longleftrightarrow> unat (x - a) < Suc n"
  proof (cases "x = a")
    case False
    then have "x - a \<noteq> 0" by simp
    then have "unat (x - a - 1) = unat (x - a) - 1" "0 < unat (x - a)"
      by (simp_all add: unat_minus_one unat_gt_0)
    then show ?thesis using False by (auto simp: algebra_simps)
  qed simp
  moreover have "x = a \<Longrightarrow> \<not> unat (x - (a + 1)) < n"
    using Suc.prems by (simp add: unsigned_minus_1_eq_mask mask_eq_exp_minus_1)
  moreover have "memset_loop n (a + 1) p (m(a := p)) x = (if unat (x - (a + 1)) < n then p else (m(a := p)) x)"
    using Suc.prems by (intro Suc.IH) simp
  ultimately show ?case by auto
qed simp

lemma memset_byte_sel [simp]:
  "mem (memset_byte a n p s) x = (if unat (x - a) < unat n then p else mem s x)"
  using memset_loop_apply [of "unat n" a p "mem s" x] unsigned_less [of n, where ?'a = nat]
  by (simp add: memset_byte_def)

lemma ld32_bit:
  "n < 32 \<Longrightarrow> bit (ld32 m a) n \<longleftrightarrow> bit (m (a + of_nat (n div 8))) (n mod 8)"
proof -
  assume "n < 32"
  then consider "n < 8" | "8 \<le> n" "n < 16" | "16 \<le> n" "n < 24" | "24 \<le> n" "n < 32" by linarith
  then show ?thesis
  proof cases
    case 1
    then show ?thesis by (simp add: ld32_def bit_simps)
  next
    case 2
    then have "n div 8 = 1" "n mod 8 = n - 8" by (simp_all add: div_nat_eqI mod_if)
    with 2 show ?thesis by (auto simp: ld32_def bit_simps dest: bit_imp_le_length)
  next
    case 3
    then have "n div 8 = 2" "n mod 8 = n - 16" by (simp_all add: div_nat_eqI mod_if)
    with 3 show ?thesis by (auto simp: ld32_def bit_simps dest: bit_imp_le_length)
  next
    case 4
    then have "n div 8 = 3" "n mod 8 = n - 24" by (simp_all add: div_nat_eqI mod_if)
    with 4 show ?thesis by (auto simp: ld32_def bit_simps dest: bit_imp_le_length)
  qed
qed

lemma ld32_cong:
  "m a = m' a' \<Longrightarrow> m (a + 1) = m' (a' + 1) \<Longrightarrow> m (a + 2) = m' (a' + 2) \<Longrightarrow> m (a + 3) = m' (a' + 3) \<Longrightarrow>
   ld32 m a = ld32 m' a'"
  by (simp add: ld32_def)

lemma ld32_st32 [simp]: "ld32 (st32 a v m) a = v"
proof -
  have "st32 a v m a = ucast v" "st32 a v m (a + 1) = ucast (drop_bit 8 v)"
    "st32 a v m (a + 2) = ucast (drop_bit 16 v)" "st32 a v m (a + 3) = ucast (drop_bit 24 v)"
    by (simp_all add: st32_def)
  then have b: "bit (ld32 (st32 a v m) a) n \<longleftrightarrow>
      (if n < 8 then bit v n else if n < 16 then bit v (8 + (n - 8)) else if n < 24 then bit v (16 + (n - 16))
       else bit v (24 + (n - 24)))" if "n < 32" for n
    using that unfolding ld32_def by (auto simp: bit_simps)
  show ?thesis
  proof (rule bit_word_eqI)
    fix n assume "n < LENGTH(32)"
    then show "bit (ld32 (st32 a v m) a) n \<longleftrightarrow> bit v n"
      by (subst b) (auto simp: not_less)
  qed
qed

lemma st32_other:
  "4 \<le> unat (x - a) \<Longrightarrow> st32 a v m x = m x"
proof -
  assume u: "4 \<le> unat (x - a)"
  have "unat (1 :: u32) = 1" "unat (2 :: u32) = 2" "unat (3 :: u32) = 3" by simp_all
  then have "x - a \<noteq> 0" "x - a \<noteq> 1" "x - a \<noteq> 2" "x - a \<noteq> 3" using u by auto
  then have "x \<noteq> a" "x \<noteq> a + 1" "x \<noteq> a + 2" "x \<noteq> a + 3" by (auto simp: algebra_simps)
  then show ?thesis by (simp add: st32_def)
qed

lemma ld32_zero: "\<forall>i<4. m (a + of_nat i) = 0 \<Longrightarrow> ld32 m a = 0"
proof -
  assume z: "\<forall>i<4. m (a + of_nat i) = 0"
  have "m a = 0" "m (a + 1) = 0" "m (a + 2) = 0" "m (a + 3) = 0"
    using spec [OF z, of 0] spec [OF z, of 1] spec [OF z, of 2] spec [OF z, of 3] by simp_all
  then show ?thesis by (simp add: ld32_def)
qed

section \<open>Comparators as orders\<close>

lemma cmp_le_offset:
  "cmp_le offset_comparator x y \<longleftrightarrow> sint (signed_drop_bit 16 x) \<le> sint (signed_drop_bit 16 y)"
  by (auto simp: cmp_le_def offset_comparator_def Let_def)

interpretation offset_cmp: comparator offset_comparator
  by unfold_locales (auto simp: cmp_le_offset)

lemma cmp_le_size:
  "cmp_le size_comparator x y \<longleftrightarrow> drop_bit 1 (x AND 0xFFFE) \<le> drop_bit 1 (y AND 0xFFFE)"
  by (auto simp: cmp_le_def size_comparator_def Let_def)

interpretation size_cmp: comparator size_comparator
  by unfold_locales (auto simp: cmp_le_size)

end
