(* ===== verification/Gpio.thy ===== *)
theory Gpio
  imports Timer
begin

text \<open>
  Pins and external interrupt lines of the F401: \<open>os/arch/f401/src/gpio.c\<close>, \<open>exti.c\<close>,
  \<open>syscfg.c\<close> and the operations inlined from \<open>gpio/gpio.h\<close>.  A \<open>GpioObject_t\<close> is a record; an
  operation that writes through the pointer returns it updated.
\<close>

section \<open>Objects and registers\<close>

record GpioObject =
  port :: u8
  pin :: u32
  base_adress :: addr
  gpio_regs :: addr

definition GpioRegisters :: "string list" where
  "GpioRegisters = [''moder'', ''otyper'', ''ospeedr'', ''pupdr'', ''idr'', ''odr'', ''bsrr'', ''lckr'', ''afrl'', ''afrh'']"

datatype SpeedModes = Low | Medium | Fast | High
datatype PullTypes = Nothing | PullUp | PullDown
datatype OutputTypes = PushPull | OpenDrain
datatype ModerTypes = InputMode | GeneralPurposeOutputMode | AlternateFunctionMode | AnalogMode

fun speed_value :: "SpeedModes \<Rightarrow> u32" where
  "speed_value Low = 0" | "speed_value Medium = 1" | "speed_value Fast = 2" | "speed_value High = 3"

fun pull_value :: "PullTypes \<Rightarrow> u32" where
  "pull_value Nothing = 0" | "pull_value PullUp = 1" | "pull_value PullDown = 2"

fun otype_value :: "OutputTypes \<Rightarrow> u32" where
  "otype_value PushPull = 0" | "otype_value OpenDrain = 1"

fun moder_value :: "ModerTypes \<Rightarrow> u32" where
  "moder_value InputMode = 0" | "moder_value GeneralPurposeOutputMode = 1"
| "moder_value AlternateFunctionMode = 2" | "moder_value AnalogMode = 3"

abbreviation (input) GpioABase :: addr where "GpioABase \<equiv> 0x40020000"
abbreviation (input) GpioBBase :: addr where "GpioBBase \<equiv> 0x40020400"
abbreviation (input) GpioCBase :: addr where "GpioCBase \<equiv> 0x40020800"
abbreviation (input) GpioDBase :: addr where "GpioDBase \<equiv> 0x40020C00"

abbreviation gpio :: "GpioObject \<Rightarrow> string \<Rightarrow> addr" where
  "gpio t f \<equiv> reg GpioRegisters (gpio_regs t) f"

lemma gpio_addrs [simp]:
  "reg GpioRegisters b ''moder'' = b" "reg GpioRegisters b ''otyper'' = b + 4"
  "reg GpioRegisters b ''ospeedr'' = b + 8" "reg GpioRegisters b ''pupdr'' = b + 12"
  "reg GpioRegisters b ''idr'' = b + 16" "reg GpioRegisters b ''odr'' = b + 20"
  "reg GpioRegisters b ''afrl'' = b + 32" "reg GpioRegisters b ''afrh'' = b + 36"
  by (simp_all add: reg_def GpioRegisters_def)

section \<open>gpio.c\<close>

text \<open>Ports are characters: 'A' is 65.\<close>

definition gpio_set_registermap :: "GpioObject \<Rightarrow> GpioObject" where
  "gpio_set_registermap t =
     t\<lparr>gpio_regs :=
         (if port t = 65 then GpioABase else if port t = 66 then GpioBBase
          else if port t = 67 then GpioCBase else if port t = 68 then GpioDBase else GpioABase)\<rparr>"

definition init_gpio :: "GpioObject \<Rightarrow> 'z machine_scheme \<Rightarrow> GpioObject \<times> 'z machine_scheme" where
  "init_gpio t s =
     (let s1 =
        (if port t = 65 then MODIFY_REGISTER (rcc ''ahb1enr'') (\<lambda>v. v OR shl 1 0) s
         else if port t = 66 then MODIFY_REGISTER (rcc ''ahb1enr'') (\<lambda>v. v OR shl 1 1) s
         else if port t = 67 then MODIFY_REGISTER (rcc ''ahb1enr'') (\<lambda>v. v OR shl 1 2) s
         else if port t = 68 then MODIFY_REGISTER (rcc ''ahb1enr'') (\<lambda>v. v OR shl 1 3) s
         else s)
      in (gpio_set_registermap t, s1))"

definition set_moder :: "GpioObject \<Rightarrow> ModerTypes \<Rightarrow> 'z machine_scheme \<Rightarrow> 'z machine_scheme" where
  "set_moder t moder s =
     MODIFY_REGISTER (gpio t ''moder'') (\<lambda>v. v OR shl (moder_value moder) (pin t * 2))
       (MODIFY_REGISTER (gpio t ''moder'') (\<lambda>v. v AND NOT (shl 3 (pin t * 2))) s)"

definition into_af :: "GpioObject \<Rightarrow> u32 \<Rightarrow> 'z machine_scheme \<Rightarrow> 'z machine_scheme" where
  "into_af t af_number s =
     (if pin t < 8 then
        MODIFY_REGISTER (gpio t ''afrl'') (\<lambda>v. v OR shl af_number (pin t * 4))
          (MODIFY_REGISTER (gpio t ''afrl'') (\<lambda>v. v AND NOT (shl 0xF (pin t * 4))) s)
      else
        (let p = pin t - 8 in
         MODIFY_REGISTER (gpio t ''afrh'') (\<lambda>v. v OR shl af_number (p * 4))
           (MODIFY_REGISTER (gpio t ''afrh'') (\<lambda>v. v AND NOT (shl 0xF (p * 4))) s)))"

definition set_speed :: "GpioObject \<Rightarrow> SpeedModes \<Rightarrow> 'z machine_scheme \<Rightarrow> 'z machine_scheme" where
  "set_speed t speed s =
     MODIFY_REGISTER (gpio t ''ospeedr'') (\<lambda>v. v OR shl (speed_value speed) (pin t * 2))
       (MODIFY_REGISTER (gpio t ''ospeedr'') (\<lambda>v. v AND NOT (shl 3 (pin t * 2))) s)"

definition set_pupdr :: "GpioObject \<Rightarrow> PullTypes \<Rightarrow> 'z machine_scheme \<Rightarrow> 'z machine_scheme" where
  "set_pupdr t pull_type s =
     MODIFY_REGISTER (gpio t ''pupdr'') (\<lambda>v. v OR shl (pull_value pull_type) (pin t * 2))
       (MODIFY_REGISTER (gpio t ''pupdr'') (\<lambda>v. v AND NOT (shl 3 (pin t * 2))) s)"

text \<open>The mask is two bits wide at a one-bit stride.\<close>

definition set_otyper :: "GpioObject \<Rightarrow> OutputTypes \<Rightarrow> 'z machine_scheme \<Rightarrow> 'z machine_scheme" where
  "set_otyper t otype s =
     MODIFY_REGISTER (gpio t ''otyper'') (\<lambda>v. v OR shl (otype_value otype) (pin t))
       (MODIFY_REGISTER (gpio t ''otyper'') (\<lambda>v. v AND NOT (shl 3 (pin t))) s)"

definition toggle_output_pin :: "GpioObject \<Rightarrow> 'z machine_scheme \<Rightarrow> 'z machine_scheme" where
  "toggle_output_pin t s = MODIFY_REGISTER (gpio t ''odr'') (\<lambda>v. v AND NOT (shl 1 (ucast (port t)))) s"

definition set_pin_on :: "GpioObject \<Rightarrow> 'z machine_scheme \<Rightarrow> 'z machine_scheme" where
  "set_pin_on t s = MODIFY_REGISTER (gpio t ''odr'') (\<lambda>v. v OR shl 1 (pin t)) s"

definition set_pin_off :: "GpioObject \<Rightarrow> 'z machine_scheme \<Rightarrow> 'z machine_scheme" where
  "set_pin_off t s = MODIFY_REGISTER (gpio t ''odr'') (\<lambda>v. v AND NOT (shl 1 (pin t))) s"

definition set_pin_bulk :: "GpioObject \<Rightarrow> u32 \<Rightarrow> 'z machine_scheme \<Rightarrow> 'z machine_scheme" where
  "set_pin_bulk t bits s = WRITE_REGISTER (gpio t ''odr'') bits s"

definition read_pin :: "GpioObject \<Rightarrow> 'z machine_scheme \<Rightarrow> u32 \<times> 'z machine_scheme" where
  "read_pin t s = (let (v, s1) = READ_REGISTER (gpio t ''idr'') s in (v AND shl 1 (pin t), s1))"

section \<open>exti.c\<close>

definition ExtiRegisterMap :: "string list" where
  "ExtiRegisterMap = [''imr1'', ''emr1'', ''rtsr1'', ''ftsr1'', ''swier1'', ''pr1'', ''imr2'', ''emr2'', ''rtsr2'',
     ''ftsr2'', ''swier2'', ''pr2'']"

abbreviation (input) ExtiBaseRegister :: addr where "ExtiBaseRegister \<equiv> 0x40013C00"
abbreviation exti :: "string \<Rightarrow> addr" where "exti f \<equiv> reg ExtiRegisterMap ExtiBaseRegister f"

lemma exti_addrs [simp]:
  "exti ''imr1'' = 0x40013C00" "exti ''emr1'' = 0x40013C04" "exti ''rtsr1'' = 0x40013C08"
  "exti ''ftsr1'' = 0x40013C0C" "exti ''pr1'' = 0x40013C14"
  by (simp_all add: reg_def ExtiRegisterMap_def)

definition exti_activate_ir_line :: "GpioObject \<Rightarrow> 'z machine_scheme \<Rightarrow> 'z machine_scheme" where
  "exti_activate_ir_line g s =
     MODIFY_REGISTER (exti ''emr1'') (\<lambda>v. v OR shl 1 (pin g))
       (MODIFY_REGISTER (exti ''imr1'') (\<lambda>v. v OR shl 1 (pin g)) s)"

definition exti_detect_rising_edge :: "GpioObject \<Rightarrow> 'z machine_scheme \<Rightarrow> 'z machine_scheme" where
  "exti_detect_rising_edge g s = MODIFY_REGISTER (exti ''rtsr1'') (\<lambda>v. v OR shl 1 (pin g)) s"

definition exti_detect_falling_edge :: "GpioObject \<Rightarrow> 'z machine_scheme \<Rightarrow> 'z machine_scheme" where
  "exti_detect_falling_edge g s = MODIFY_REGISTER (exti ''ftsr1'') (\<lambda>v. v OR shl 1 (pin g)) s"

definition exti_acknowledge_interrupt :: "GpioObject \<Rightarrow> 'z machine_scheme \<Rightarrow> 'z machine_scheme" where
  "exti_acknowledge_interrupt g s = MODIFY_REGISTER (exti ''pr1'') (\<lambda>v. v OR shl 1 (pin g)) s"

section \<open>syscfg.c\<close>

definition SysCfgRegisterMap :: "string list" where
  "SysCfgRegisterMap = [''memrmp'', ''pmc'', ''exticr1'', ''exticr2'', ''exticr3'', ''exticr4'', ''cmpcr'']"

abbreviation (input) SysCfgBaseAdress :: addr where "SysCfgBaseAdress \<equiv> 0x40013800"
abbreviation syscfg :: "string \<Rightarrow> addr" where "syscfg f \<equiv> reg SysCfgRegisterMap SysCfgBaseAdress f"

lemma syscfg_addrs [simp]:
  "syscfg ''exticr1'' = 0x40013808" "syscfg ''exticr2'' = 0x4001380C"
  "syscfg ''exticr3'' = 0x40013810" "syscfg ''exticr4'' = 0x40013814"
  by (simp_all add: reg_def SysCfgRegisterMap_def)

definition syscfg_enable_clock :: "'z machine_scheme \<Rightarrow> 'z machine_scheme" where
  "syscfg_enable_clock s = MODIFY_REGISTER (rcc ''apb2enr'') (\<lambda>v. v OR shl 1 14) s"

text \<open>A pin above 15 leaves \<open>target_register\<close> without a value.\<close>

definition syscfg_exti_config_0_3 :: "GpioObject \<Rightarrow> 'z machine_scheme \<Rightarrow> (i32 \<times> 'z machine_scheme) res" where
  "syscfg_exti_config_0_3 g s =
     (let shift = pin g * 4 in
      if port g < 65 \<or> 69 < port g then Inr (-1, s)
      else
        let port_map = ucast (port g) - 65;
            target_register =
              (if pin g < 4 then Some (syscfg ''exticr1'')
               else if 4 \<le> pin g \<and> pin g < 8 then Some (syscfg ''exticr2'')
               else if 8 \<le> pin g \<and> pin g < 12 then Some (syscfg ''exticr3'')
               else if 12 \<le> pin g \<and> pin g \<le> 15 then Some (syscfg ''exticr4'') else None)
        in case target_register of
             None \<Rightarrow> Inl Undefined
           | Some r \<Rightarrow> Inr (1, MODIFY_REGISTER r (\<lambda>v. v OR shl port_map shift) s))"

section \<open>Writing a field of a register\<close>

text \<open>\<open>(v & ~(m << k)) | (x << k)\<close> replaces the field under the mask.\<close>

definition field_write :: "u32 \<Rightarrow> u32 \<Rightarrow> u32 \<Rightarrow> u32 \<Rightarrow> u32" where
  "field_write m k x v = (v AND NOT (shl m k)) OR shl x k"

lemma bit_shl: "bit (shl x k) n \<longleftrightarrow> unat k \<le> n \<and> n < 32 \<and> bit x (n - unat k)"
  by (auto simp: shl_def bit_simps)

lemma bit_low_mask:
  "bit (3 :: u32) n \<longleftrightarrow> n < 2" "bit (0xF :: u32) n \<longleftrightarrow> n < 4"
proof -
  have e: "(3 :: u32) = mask 2" "(0xF :: u32) = mask 4" by (simp_all add: mask_eq_exp_minus_1)
  show "bit (3 :: u32) n \<longleftrightarrow> n < 2" "bit (0xF :: u32) n \<longleftrightarrow> n < 4"
    unfolding e bit_mask_iff by auto
qed

text \<open>With a mask of \<open>w\<close> bits: those bits come from \<open>x\<close>, all others from the old value.\<close>

lemma bit_field_write:
  assumes "\<And>i. bit m i \<longleftrightarrow> i < w" "\<And>i. bit x i \<Longrightarrow> i < w" "n < 32"
  shows "bit (field_write m k x v) n \<longleftrightarrow>
    (if unat k \<le> n \<and> n < unat k + w then bit x (n - unat k) else bit v n)"
  using assms(2) [of "n - unat k"] assms(3)
  by (auto simp: field_write_def bit_shl bit_or_iff bit_and_iff bit_not_iff assms(1))

lemma moder_bits: "bit (moder_value m) i \<Longrightarrow> i < 2"
  using bit_low_mask(1) [of i] by (cases m) (auto simp: bit_1_iff bit_2_iff)

lemma set_moder_write:
  assumes "inputs s (gpio_regs t) = []"
  shows "mmio (set_moder t m s) (gpio_regs t) = field_write 3 (pin t * 2) (moder_value m) (mmio s (gpio_regs t))"
    "r \<noteq> gpio_regs t \<Longrightarrow> mmio (set_moder t m s) r = mmio s r"
  using assms by (simp_all add: set_moder_def field_write_def)

section \<open>Properties\<close>

text \<open>A machine whose registers all read as they were written, at which the driver properties are applied.\<close>

definition quiet_machine :: machine where
  "quiet_machine = \<lparr>mmio = (\<lambda>_. 0), inputs = (\<lambda>_. []), writes = [], DEBUG = 1, SYSTICK = False,
     drv = \<lparr>timer_configurations = replicate 5 (0, 0), dma_interrupt_action = 0, adc_registerset = 0,
            crc_regs = 0, i2c_regs = 0\<rparr>\<rparr>"

text \<open>
  \<open>set_moder\<close> gives the pin its mode (the two bits at twice its number) and leaves the mode of
  every other pin, and every other register, as it was.
\<close>
theorem set_moder_correct:
  assumes "inputs s (gpio_regs t) = []" "pin t < 16"
  shows "(\<forall>n<32. bit (mmio (set_moder t m s) (gpio_regs t)) n \<longleftrightarrow>
      (if n div 2 = unat (pin t) then bit (moder_value m) (n mod 2) else bit (mmio s (gpio_regs t)) n)) \<and>
    (\<forall>r. r \<noteq> gpio_regs t \<longrightarrow> mmio (set_moder t m s) r = mmio s r)"
proof (intro conjI allI impI)
  fix n :: nat assume n: "n < 32"
  have k: "unat (pin t * 2) = 2 * unat (pin t)"
    using assms(2) by (simp add: unat_word_ariths word_less_nat_alt)
  have "bit (mmio (set_moder t m s) (gpio_regs t)) n \<longleftrightarrow>
      (if 2 * unat (pin t) \<le> n \<and> n < 2 * unat (pin t) + 2 then bit (moder_value m) (n - 2 * unat (pin t))
       else bit (mmio s (gpio_regs t)) n)"
    unfolding set_moder_write(1) [OF assms(1)]
    by (subst bit_field_write [where w = 2]) (use bit_low_mask(1) moder_bits n k in auto)
  moreover have "2 * unat (pin t) \<le> n \<and> n < 2 * unat (pin t) + 2 \<longleftrightarrow> n div 2 = unat (pin t)" by auto
  moreover have "n div 2 = unat (pin t) \<Longrightarrow> n - 2 * unat (pin t) = n mod 2" by (metis minus_mult_div_eq_mod)
  ultimately show "bit (mmio (set_moder t m s) (gpio_regs t)) n \<longleftrightarrow>
      (if n div 2 = unat (pin t) then bit (moder_value m) (n mod 2) else bit (mmio s (gpio_regs t)) n)"
    by simp
qed (rule set_moder_write(2) [OF assms(1)])

theorem set_moder_correct_witness:
  "let t = \<lparr>port = 65, pin = 9, base_adress = 0, gpio_regs = 0x40020000\<rparr>;
       s = set_moder t AlternateFunctionMode quiet_machine
   in bit (mmio s 0x40020000) 19 \<and> \<not> bit (mmio s 0x40020000) 18 \<and> \<not> bit (mmio s 0x40020000) 17"
proof -
  let ?t = "\<lparr>port = 65, pin = 9, base_adress = 0, gpio_regs = 0x40020000\<rparr>"
  have "inputs quiet_machine (gpio_regs ?t) = []" "pin ?t < 16" by (simp_all add: quiet_machine_def)
  from set_moder_correct [OF this, of AlternateFunctionMode] show ?thesis
    by (simp add: quiet_machine_def bit_2_iff)
qed

text \<open>
  \<open>syscfg_exti_config_0_3\<close> selects no port for a pin from 8 to 15: the shift is four times the
  pin number, not the number within its register, and the register is written back unchanged.
\<close>
theorem syscfg_high_pin_no_effect:
  assumes "65 \<le> port g" "port g \<le> 69" "8 \<le> pin g" "pin g \<le> 15" "\<forall>a. inputs s a = []"
  shows "\<exists>s'. syscfg_exti_config_0_3 g s = Inr (1, s') \<and> mmio s' = mmio s"
proof -
  have "32 \<le> unat (pin g * 4)"
    using assms(3,4) by (simp add: unat_word_ariths word_le_nat_alt)
  then have z: "shl x (pin g * 4) = 0" for x
    by (intro bit_word_eqI) (simp add: bit_shl)
  have "pin g < 12 \<or> 12 \<le> pin g" by auto
  then show ?thesis
    using assms by (auto simp: syscfg_exti_config_0_3_def Let_def z fun_upd_idem not_less not_le)
qed

theorem syscfg_high_pin_no_effect_witness:
  "\<exists>s'. syscfg_exti_config_0_3 \<lparr>port = 67, pin = 9, base_adress = 0, gpio_regs = 0\<rparr> quiet_machine = Inr (1, s') \<and>
    mmio s' = (\<lambda>_. 0)"
  using syscfg_high_pin_no_effect [of "\<lparr>port = 67, pin = 9, base_adress = 0, gpio_regs = 0\<rparr>" quiet_machine]
  by (auto simp: quiet_machine_def)

end
