(* ===== verification/Uart.thy ===== *)
theory Uart
  imports Gpio
begin

text \<open>
  The serial port and the DMA controller of the F401: \<open>os/arch/f401/src/uart.c\<close>, \<open>dma.c\<close> and
  the operations inlined from \<open>uart.h\<close> and \<open>dma.h\<close>.
\<close>

section \<open>uart.h\<close>

definition UartRegisterMap :: "string list" where
  "UartRegisterMap = [''sr'', ''dr'', ''brr'', ''cr1'', ''cr2'', ''cr3'', ''gtpr'']"

abbreviation (input) Usart1Baseadress :: addr where "Usart1Baseadress \<equiv> 0x40011000"
abbreviation uart :: "string \<Rightarrow> addr" where "uart f \<equiv> reg UartRegisterMap Usart1Baseadress f"
abbreviation (input) USART1_sr :: addr where "USART1_sr \<equiv> 0x40011000"
abbreviation (input) USART1_cr1 :: addr where "USART1_cr1 \<equiv> 0x4001100C"
abbreviation (input) USART1_cr3 :: addr where "USART1_cr3 \<equiv> 0x40011014"
abbreviation (input) UART_TC :: u32 where "UART_TC \<equiv> 6"
abbreviation (input) UART_TXE :: u32 where "UART_TXE \<equiv> 7"
abbreviation (input) UART_ORE :: u32 where "UART_ORE \<equiv> 3"
abbreviation (input) UART_RXNE :: u32 where "UART_RXNE \<equiv> 5"

lemma uart_addrs [simp]:
  "uart ''sr'' = 0x40011000" "uart ''dr'' = 0x40011004" "uart ''brr'' = 0x40011008"
  "uart ''cr1'' = 0x4001100C" "uart ''cr3'' = 0x40011014"
  by (simp_all add: reg_def UartRegisterMap_def)

definition read_data_register :: "'z machine_scheme \<Rightarrow> u32 \<times> 'z machine_scheme" where
  "read_data_register s = READ_REGISTER (Usart1Baseadress OR 4) s"

text \<open>\<open>print(src, length)\<close>, given the bytes at \<open>src\<close>: wait for an empty transmit register, write, repeat.\<close>

fun print_loop :: "u8 list \<Rightarrow> 'z machine_scheme \<Rightarrow> 'z machine_scheme res" where
  "print_loop [] s = Inr s"
| "print_loop (b # bs) s =
     bnd (poll (uart ''sr'') (\<lambda>v. v AND shl 1 UART_TXE \<noteq> 0) s) (\<lambda>s1.
     print_loop bs (WRITE_REGISTER (uart ''dr'') (ucast b) s1))"

definition print :: "u8 list \<Rightarrow> 'z machine_scheme \<Rightarrow> 'z machine_scheme res" where
  "print bytes s =
     bnd (print_loop bytes s) (\<lambda>s1. poll (uart ''sr'') (\<lambda>v. v AND shl 1 UART_TC \<noteq> 0) s1)"

section \<open>dma.c\<close>

definition DmaStreamRegisterMap :: "string list" where
  "DmaStreamRegisterMap = [''dma_sXcr'', ''dma_sXndtr'', ''dma_sXpar'', ''dma_sXm0ar'', ''dma_sXm1ar'', ''dma_sXfcr'']"

abbreviation (input) Dma2BaseAdress :: addr where "Dma2BaseAdress \<equiv> 0x40026400"
abbreviation dma :: "addr \<Rightarrow> string \<Rightarrow> addr" where "dma base f \<equiv> reg DmaStreamRegisterMap base f"

lemma dma_addrs [simp]:
  "dma b ''dma_sXcr'' = b" "dma b ''dma_sXndtr'' = b + 4" "dma b ''dma_sXpar'' = b + 8"
  "dma b ''dma_sXm0ar'' = b + 12"
  by (simp_all add: reg_def DmaStreamRegisterMap_def)

datatype DmaModes = PeripherialToMemory | MemoryToPeripherial | MemoryToMemory
datatype SourcePeripherial = UART | SPI

fun dma_mode_value :: "DmaModes \<Rightarrow> u32" where
  "dma_mode_value PeripherialToMemory = 0" | "dma_mode_value MemoryToPeripherial = 1"
| "dma_mode_value MemoryToMemory = 2"

abbreviation (input) DmaIsIdle :: u32 where "DmaIsIdle \<equiv> 0"
abbreviation (input) DmaTransferedTask :: u32 where "DmaTransferedTask \<equiv> 1"
abbreviation (input) DmaHadTransferError :: u32 where "DmaHadTransferError \<equiv> 2"
abbreviation (input) DmaWaitsForExternalTask :: u32 where "DmaWaitsForExternalTask \<equiv> 8"

record DmaTransferSpecifics =
  dt_tcie :: "1 word"
  dt_minc :: "1 word"
  dt_chsel :: "3 word"
  dt_ndtr :: u16
  dt_stream_number :: "4 word"
  source_address :: u32
  destination_address :: u32
  dma_job_type :: u32

definition get_stream_offset :: "u32 \<Rightarrow> u32" where
  "get_stream_offset stream_no = 0x10 + stream_no * 0x18"

definition set_dma_action :: "u32 \<Rightarrow> 'z machine_scheme \<Rightarrow> 'z machine_scheme" where
  "set_dma_action a s = s\<lparr>drv := (drv s)\<lparr>dma_interrupt_action := a\<rparr>\<rparr>"

definition dma_init :: "'z machine_scheme \<Rightarrow> 'z machine_scheme" where
  "dma_init s = MODIFY_REGISTER (rcc ''ahb1enr'') (\<lambda>v. v OR shl 1 22) (set_dma_action DmaIsIdle s)"

definition dma_transfer ::
  "DmaTransferSpecifics \<Rightarrow> DmaModes \<Rightarrow> SourcePeripherial \<Rightarrow> 'z machine_scheme \<Rightarrow> 'z machine_scheme" where
  "dma_transfer cfg mode source s =
     (let base = Dma2BaseAdress + get_stream_offset (ucast (dt_stream_number cfg));
          (crx_result, s1) = READ_REGISTER (dma base ''dma_sXcr'') s;
          s2 = (if crx_result AND 1 \<noteq> 0 then WRITE_REGISTER (dma base ''dma_sXcr'') (crx_result AND NOT 1) s1 else s1);
          finish = (\<lambda>t.
            let t1 = WRITE_REGISTER (dma base ''dma_sXndtr'') (ucast (dt_ndtr cfg)) t;
                t2 = WRITE_REGISTER (dma base ''dma_sXcr'')
                       (shl (dma_mode_value mode) 6 OR shl (ucast (dt_chsel cfg)) 25 OR
                        shl (ucast (dt_minc cfg)) 10 OR shl (ucast (dt_tcie cfg)) 4) t1
            in MODIFY_REGISTER (dma base ''dma_sXcr'') (\<lambda>v. v OR 1) t2)
      in case mode of
           PeripherialToMemory \<Rightarrow>
             (let src = (case source of UART \<Rightarrow> uart ''dr'' | SPI \<Rightarrow> source_address cfg);
                  s3 = WRITE_REGISTER (dma base ''dma_sXpar'') src s2;
                  s4 = WRITE_REGISTER (dma base ''dma_sXm0ar'') (destination_address cfg) s3;
                  s5 = MODIFY_REGISTER USART1_cr3 (\<lambda>v. v OR shl 1 6) s4;
                  s6 = MODIFY_REGISTER USART1_cr1 (\<lambda>v. v AND NOT (shl 1 5)) s5
              in finish s6)
         | MemoryToPeripherial \<Rightarrow>
             (let s3 = WRITE_REGISTER (dma base ''dma_sXpar'') (source_address cfg) s2;
                  s4 = WRITE_REGISTER (dma base ''dma_sXm0ar'') (destination_address cfg) s3
              in finish s4)
         | MemoryToMemory \<Rightarrow> s2)"

definition dma2_stream5_ir_handler :: "'z machine_scheme \<Rightarrow> 'z machine_scheme" where
  "dma2_stream5_ir_handler s =
     (let (dma_hisr, s1) = READ_REGISTER (Dma2BaseAdress OR 4) s;
          act = dma_interrupt_action (drv s1);
          s2 = (if dma_hisr AND shl 1 9 \<noteq> 0 then set_dma_action DmaHadTransferError s1
                else if dma_hisr AND shl 1 11 \<noteq> 0 \<and> act = DmaWaitsForExternalTask
                then set_dma_action ((act AND NOT DmaWaitsForExternalTask) OR DmaTransferedTask) s1
                else s1);
          s3 = MODIFY_REGISTER (Dma2BaseAdress OR 0x0C) (\<lambda>v. v OR shl 0xF 8) s2;
          s4 = MODIFY_REGISTER USART1_cr3 (\<lambda>v. v AND NOT (shl 1 6)) s3
      in MODIFY_REGISTER USART1_cr1 (\<lambda>v. v OR shl 1 5) s4)"

section \<open>uart.c\<close>

text \<open>
  \<open>get_State\<close> stores the address of \<open>rx_state\<close> into \<open>internal_rx_state\<close> through a supervisor
  call (theory \<open>Exceptions\<close>); the rest of \<open>init_uart\<close> is register traffic.  The pins come from the
  object, which is returned as the code leaves it.
\<close>

definition init_uart :: "GpioObject \<Rightarrow> 'z machine_scheme \<Rightarrow> GpioObject \<times> 'z machine_scheme" where
  "init_uart obj s =
     (let s1 = dma_init s;
          s2 = MODIFY_REGISTER 0xE000E108 (\<lambda>v. v OR shl 1 4) s1;
          (o1, s3) = init_gpio (obj\<lparr>pin := 9, port := 65\<rparr>) s2;
          s4 = set_otyper o1 PushPull (into_af o1 7 (set_moder o1 AlternateFunctionMode s3));
          o2 = o1\<lparr>pin := 10, port := 65\<rparr>;
          s5 = into_af o2 7 (set_moder o2 AlternateFunctionMode (set_moder o2 InputMode s4));
          s6 = MODIFY_REGISTER (rcc ''apb2enr'') (\<lambda>v. v OR shl 1 4) s5;
          s7 = WRITE_REGISTER (uart ''brr'') 1667 s6;
          s8 = MODIFY_REGISTER (uart ''cr1'') (\<lambda>v. v OR 0xC OR shl 1 5) s7;
          s9 = MODIFY_REGISTER (uart ''cr1'') (\<lambda>v. v OR shl 1 13) s8
      in (o2, MODIFY_REGISTER 0xE000E104 (\<lambda>v. v OR shl 1 5) s9))"

section \<open>What printing does\<close>

text \<open>The values written to the data register, in order.\<close>

definition sent :: "'z machine_scheme \<Rightarrow> u32 list" where
  "sent s = map snd (filter (\<lambda>w. fst w = uart ''dr'') (writes s))"

lemma poll_sent: "poll a p s = Inr s' \<Longrightarrow> sent s' = sent s"
  using poll_shape [of a p s s'] by (auto simp: sent_def)

lemma print_loop_sent: "print_loop bs s = Inr s' \<Longrightarrow> sent s' = sent s @ map ucast bs"
proof (induction bs arbitrary: s)
  case (Cons b bs)
  from Cons.prems obtain s1 where p: "poll (uart ''sr'') (\<lambda>v. v AND shl 1 UART_TXE \<noteq> 0) s = Inr s1"
    and r: "print_loop bs (WRITE_REGISTER (uart ''dr'') (ucast b) s1) = Inr s'"
    by (auto simp: bnd_eq_Inr)
  show ?case using Cons.IH [OF r] poll_sent [OF p] by (simp add: sent_def)
qed simp

lemma poll_ready:
  assumes "inputs s a = []" "p (mmio s a)"
  shows "poll a p s = Inr s"
  using assms by (simp add: poll_now)

lemma print_loop_ready:
  assumes "inputs s (uart ''sr'') = []" "mmio s (uart ''sr'') AND shl 1 UART_TXE \<noteq> 0"
  shows "\<exists>s'. print_loop bs s = Inr s' \<and> inputs s' (uart ''sr'') = [] \<and> mmio s' (uart ''sr'') = mmio s (uart ''sr'')"
  using assms
proof (induction bs arbitrary: s)
  case (Cons b bs)
  have "inputs (WRITE_REGISTER (uart ''dr'') (ucast b) s) (uart ''sr'') = []"
    "mmio (WRITE_REGISTER (uart ''dr'') (ucast b) s) (uart ''sr'') = mmio s (uart ''sr'')"
    using Cons.prems by simp_all
  with Cons.IH [of "WRITE_REGISTER (uart ''dr'') (ucast b) s"] Cons.prems show ?case
    by (simp add: poll_ready)
qed simp

end
