(* ===== verification/Cpu_Ops.thy ===== *)
theory Cpu_Ops
  imports Machine
begin

text \<open>
  \<open>os/src/hw/cpu.c\<close> and the SysTick operations of \<open>os/include/hw/cpu.h\<close>: interrupt controller
  and system timer.
\<close>

section \<open>Operations\<close>

datatype NvicType = NVIC_ENABLE | NVIC_CLEAR | NVIC_SET_PENDING | NVIC_CLEAR_PENDING | NVIC_IS_ACTIVE

fun nvic_base :: "NvicType \<Rightarrow> addr" where
  "nvic_base NVIC_ENABLE = 0xE000E100"
| "nvic_base NVIC_CLEAR = 0xE000E180"
| "nvic_base NVIC_SET_PENDING = 0xE000E200"
| "nvic_base NVIC_CLEAR_PENDING = 0xE000E280"
| "nvic_base NVIC_IS_ACTIVE = 0xE000E300"

definition calculate_nvic_target_register :: "u32 \<Rightarrow> NvicType \<Rightarrow> addr" where
  "calculate_nvic_target_register nvic_number nvic_type =
     nvic_base nvic_type + 4 * (nvic_number div 32)"

definition enable_nvic_interrupt :: "u32 \<Rightarrow> 'z machine_scheme \<Rightarrow> 'z machine_scheme" where
  "enable_nvic_interrupt n s =
     MODIFY_REGISTER (calculate_nvic_target_register n NVIC_ENABLE) (\<lambda>v. v OR shl 1 (n mod 32)) s"

definition clear_nvic_interrupt :: "u32 \<Rightarrow> 'z machine_scheme \<Rightarrow> 'z machine_scheme" where
  "clear_nvic_interrupt n s =
     MODIFY_REGISTER (calculate_nvic_target_register n NVIC_CLEAR_PENDING) (\<lambda>v. v OR shl 1 (n mod 32)) s"

abbreviation (input) STK :: addr where "STK \<equiv> 0xE000E010"

text \<open>\<open>val\<close> is computed from \<open>load\<close>, as the code has it.\<close>

definition init_systick :: "u32 \<Rightarrow> 'z machine_scheme \<Rightarrow> 'z machine_scheme" where
  "init_systick period s =
     (let cycles_until_zero = period * 8000;
          s1 = MODIFY_REGISTER (STK + 4) (\<lambda>v. v AND NOT 0x00FFFFFF) s;
          s2 = WRITE_REGISTER (STK + 4) cycles_until_zero s1;
          (v, s3) = READ_REGISTER (STK + 4) s2;
          s4 = WRITE_REGISTER (STK + 8) (v AND NOT 0x00FFFFFF) s3;
          s5 = MODIFY_REGISTER STK (\<lambda>v. v AND NOT 7) s4
      in MODIFY_REGISTER STK (\<lambda>v. v OR 6) s5)"

definition enable_systick :: "'z machine_scheme \<Rightarrow> 'z machine_scheme" where
  "enable_systick s = MODIFY_REGISTER STK (\<lambda>v. v OR 1) s"

definition disable_systick :: "'z machine_scheme \<Rightarrow> 'z machine_scheme" where
  "disable_systick s = MODIFY_REGISTER STK (\<lambda>v. v AND NOT 1) s"

section \<open>Interrupt numbers\<close>

lemma bit_shl1: "bit (shl 1 k) n \<longleftrightarrow> n = unat k \<and> n < 32"
  by (auto simp: shl_def bit_simps)

text \<open>The interrupt numbers that are enabled: bit \<open>n mod 32\<close> of register \<open>n div 32\<close>.\<close>

definition nvic_enabled :: "nat \<Rightarrow> 'z machine_scheme \<Rightarrow> bool" where
  "nvic_enabled n s \<longleftrightarrow> bit (mmio s (0xE000E100 + 4 * of_nat (n div 32))) (n mod 32)"

text \<open>\<open>enable_nvic_interrupt\<close> enables exactly the requested interrupt.\<close>

lemma enable_nvic_exact:
  assumes n: "unat n < 240" and m: "m < 240" and plain: "\<forall>a. inputs s a = []"
  shows "nvic_enabled m (enable_nvic_interrupt n s) \<longleftrightarrow> m = unat n \<or> nvic_enabled m s"
proof -
  define q where "q = unat n div 32"
  define r where "r = unat n mod 32"
  have q: "n div 32 = of_nat q" "q < 8" using n
    by (simp_all add: q_def word_arith_nat_div div_less_iff_less_mult)
  have r: "unat (n mod 32) = r" by (simp add: r_def unat_mod_distrib)
  have a: "calculate_nvic_target_register n NVIC_ENABLE = 0xE000E100 + 4 * of_nat q"
    by (simp add: calculate_nvic_target_register_def q(1))
  have inj: "4 * of_nat (m div 32) = (4 * of_nat q :: u32) \<longleftrightarrow> m div 32 = q"
  proof
    assume "4 * of_nat (m div 32) = (4 * of_nat q :: u32)"
    then have "(of_nat (4 * (m div 32)) :: u32) = of_nat (4 * q)" by simp
    then have "unat (of_nat (4 * (m div 32)) :: u32) = unat (of_nat (4 * q) :: u32)" by (rule arg_cong)
    moreover have "4 * (m div 32) < 2 ^ 32" "4 * q < 2 ^ 32" using m q(2) by auto
    ultimately have "4 * (m div 32) = 4 * q" by (simp add: unat_of_nat del: of_nat_mult)
    then show "m div 32 = q" by simp
  qed simp
  have "m = unat n \<longleftrightarrow> m div 32 = q \<and> m mod 32 = r"
    unfolding q_def r_def by (metis div_mult_mod_eq)
  then show ?thesis
    using plain unfolding nvic_enabled_def enable_nvic_interrupt_def a
    by (auto simp: inj bit_or_iff bit_shl1 r)
qed

text \<open>Whatever the hardware presents at the read, the requested interrupt is enabled.\<close>

lemma MODIFY_same: "\<exists>v. mmio (MODIFY_REGISTER a f s) a = f v"
  by (auto simp: MODIFY_REGISTER_def READ_REGISTER_def WRITE_REGISTER_def split: list.split)

lemma enable_nvic_sets:
  assumes "unat n < 240"
  shows "nvic_enabled (unat n) (enable_nvic_interrupt n s)"
proof -
  let ?a = "calculate_nvic_target_register n NVIC_ENABLE"
  have "n div 32 = of_nat (unat n div 32)" by (simp add: word_arith_nat_div)
  then have a: "?a = 0xE000E100 + 4 * of_nat (unat n div 32)" by (simp add: calculate_nvic_target_register_def)
  have r: "unat (n mod 32) = unat n mod 32" by (simp add: unat_mod_distrib)
  obtain v where "mmio (enable_nvic_interrupt n s) ?a = v OR shl 1 (n mod 32)"
    unfolding enable_nvic_interrupt_def Let_def using MODIFY_same [of ?a "\<lambda>v. v OR shl 1 (n mod 32)" s] by blast
  moreover have "unat n mod 32 < 32" by simp
  ultimately show ?thesis
    unfolding nvic_enabled_def a [symmetric] by (simp add: bit_or_iff bit_shl1 r)
qed

end
