(* ===== verification/Exceptions.thy ===== *)
theory Exceptions
  imports Scheduler_Props Memory_Ops Uart Cpu_Ops
begin

text \<open>
  Supervisor calls and context switches: \<open>os/src/core/exception.c\<close>,
  \<open>os/include/core/exception_inlines.h\<close> and \<open>exception.h\<close>, with \<open>pendsv_isr\<close> of theory
  \<open>Scheduler\<close>.  The eight words the core stacks on entry of an exception, and unstacks on its
  return, are the hardware's; the code saves and restores r4 to r11 and moves the process
  stack pointer, and that is what is modelled.
\<close>

section \<open>Saving and restoring r4 to r11\<close>

text \<open>\<open>stmdb r2!, {r4-r11}\<close>: the words in ascending order below the pointer.\<close>

fun store_words :: "addr \<Rightarrow> u32 list \<Rightarrow> (addr \<Rightarrow> u8) \<Rightarrow> addr \<Rightarrow> u8" where
  "store_words a [] m = m"
| "store_words a (v # vs) m = store_words (a + 4) vs (st32 a v m)"

definition save_psp_if_threadmode :: "kernel \<Rightarrow> kernel" where
  "save_psp_if_threadmode s =
     (if lr (cpu s) AND 4 \<noteq> 0
      then s\<lparr>mem := store_words (psp (cpu s) - 32) (r4_11 (cpu s)) (mem s),
             cpu := (cpu s)\<lparr>psp := psp (cpu s) - 32\<rparr>\<rparr>
      else s)"

definition restore_psp :: "kernel \<Rightarrow> kernel" where
  "restore_psp s =
     s\<lparr>cpu := (cpu s)\<lparr>r4_11 := load_r4_11 (psp (cpu s)) s, psp := psp (cpu s) + 32\<rparr>\<rparr>"

definition restore_psp_if_threadmode :: "kernel \<Rightarrow> kernel" where
  "restore_psp_if_threadmode s = (if lr (cpu s) AND 4 \<noteq> 0 then restore_psp s else s)"

section \<open>exception.c\<close>

definition uprint :: "addr \<Rightarrow> kernel \<Rightarrow> kernel" where
  "uprint transfer_info s = svcall_param (trap_number printMsg) transfer_info s"

definition execute_priviledged :: "addr \<Rightarrow> kernel \<Rightarrow> kernel" where
  "execute_priviledged function_address s = svcall_param (trap_number execPriv) function_address s"

text \<open>The bytes a C program finds at an address.\<close>

definition mem_bytes :: "addr \<Rightarrow> u32 \<Rightarrow> kernel \<Rightarrow> u8 list" where
  "mem_bytes a n s = map (\<lambda>i. mem s (a + of_nat i)) [0..<unat n]"

definition kprint :: "kernel \<Rightarrow> kernel res" where
  "kprint s =
     (let general_service_register = r4_11 (cpu s) ! 5
      in print (mem_bytes (ld32 (mem s) general_service_register)
                  (ld32 (mem s) (general_service_register + 4)) s) s)"

text \<open>Case \<open>yieldTask\<close>; \<open>printMsg\<close> falls through to it.\<close>

definition yield_case :: "kernel \<Rightarrow> kernel res" where
  "yield_case s =
     bnd (if DEBUG s \<noteq> 0 \<and> currently_running s \<noteq> NULL
          then upd_tcb_of (currently_running s) (\<lambda>t. t\<lparr>lifetime_info :=
                 (lifetime_info t)\<lparr>voluntary_interrupts := voluntary_interrupts (lifetime_info t) + 1\<rparr>\<rparr>) s
          else Inr s) (\<lambda>s1.
     Inr (set_pendsv s1))"

text \<open>\<open>call\<close> runs the function at an address: the target of \<open>execPriv\<close> is any function.\<close>

definition svcall_isr :: "(addr \<Rightarrow> kernel \<Rightarrow> kernel res) \<Rightarrow> kernel \<Rightarrow> kernel res" where
  "svcall_isr call s =
     (let s1 = save_psp_if_threadmode (s\<lparr>cpu := (cpu s)\<lparr>svc_pending := False\<rparr>\<rparr>);
          svc_number = r4_11 (cpu s1) ! 2;
          r9 = r4_11 (cpu s1) ! 5
      in if svc_number = trap_number execPspTask then
           (let s2 = (if SYSTICK s1 then init_systick 200 s1 else s1) in
            bnd (tcb_of (currently_running s2) s2) (\<lambda>t.
            Inr (s2\<lparr>cpu := (cpu s2)\<lparr>r4_11 := load_r4_11 (sp t) s2, psp := sp t + 32, lr := 0xFFFFFFFD\<rparr>\<rparr>)))
         else if svc_number = trap_number printMsg then bnd (kprint s1) yield_case
         else if svc_number = trap_number yieldTask then yield_case s1
         else if svc_number = trap_number svc_std then
           Inr (restore_psp (if SYSTICK s1 then ST_DISABLE s1 else s1))
         else if svc_number = trap_number svc_ste then
           Inr (restore_psp (if SYSTICK s1 then ST_ENABLE s1 else s1))
         else if svc_number = trap_number execPriv then
           bnd (call (r9 OR 1) s1) (\<lambda>s2. Inr (restore_psp s2))
         else if svc_number = trap_number setExtIoCallback then
           Inr (restore_psp (s1\<lparr>io := (io s1)\<lparr>io_handler := r9\<rparr>\<rparr>))
         else if svc_number = trap_number wakeupPid then
           bnd (wakeup_pid r9 s1) (\<lambda>(q, s2). Inr (restore_psp s2))
         else if svc_number = trap_number getIoBuffer then
           Inr (s1\<lparr>mem := st32 r9 (rx_state_addr (syms s1)) (mem s1)\<rparr>)
         else if svc_number = trap_number wakeupIoHandler then
           bnd (wakeup_pid (pid_arg (external_io_runner_pid (kernel_pids s1))) s1) (\<lambda>(q, s2).
           Inr (restore_psp_if_threadmode s2))
         else if svc_number = trap_number disableIrReception then Inr (restore_psp (disable_irq s1))
         else if svc_number = trap_number enableIrReception then Inr (restore_psp (enable_irq s1))
         else Inl Unreachable)"

section \<open>Store and load of consecutive words\<close>

lemma store_words_other:
  assumes "4 * length vs \<le> unat (x - a)"
  shows "store_words a vs m x = m x"
  using assms
proof (induction vs arbitrary: a m)
  case (Cons v vs)
  then have u: "4 * length vs + 4 \<le> unat (x - a)" by simp
  have "unat (4 :: u32) = 4" by simp
  then have le: "4 \<le> x - a" using u by (simp add: word_le_nat_alt)
  have "x - (a + 4) = x - a - 4" by (simp add: algebra_simps)
  then have "unat (x - (a + 4)) = unat (x - a) - 4"
    using unat_sub [OF le] \<open>unat (4 :: u32) = 4\<close> by (simp only:)
  then have "4 * length vs \<le> unat (x - (a + 4))" using u by simp
  with Cons.IH [of "a + 4" "st32 a v m"] st32_other [of x a v m] u show ?case by simp
qed simp

lemma store_words_head:
  assumes "i < 4" "length vs \<le> 8"
  shows "store_words (a + 4) vs m (a + of_nat i) = m (a + of_nat i)"
proof (rule store_words_other)
  have "unat (a + of_nat i - (a + 4)) = 2 ^ 32 + i - 4"
    using assms(1) by (simp add: unat_sub_if' unat_of_nat)
  then show "4 * length vs \<le> unat (a + of_nat i - (a + 4))" using assms by simp
qed

lemma ld32_store_words:
  assumes "i < length vs" "length vs \<le> 8"
  shows "ld32 (store_words a vs m) (a + 4 * of_nat i) = vs ! i"
  using assms
proof (induction vs arbitrary: a m i)
  case (Cons v vs)
  show ?case
  proof (cases i)
    case 0
    have h: "store_words (a + 4) vs (st32 a v m) (a + of_nat j) = st32 a v m (a + of_nat j)" if "j < 4" for j
      using Cons.prems(2) that by (intro store_words_head) simp_all
    have "ld32 (store_words (a + 4) vs (st32 a v m)) a = ld32 (st32 a v m) a"
      using h [of 0] h [of 1] h [of 2] h [of 3] by (intro ld32_cong) simp_all
    then show ?thesis using 0 by simp
  next
    case (Suc j)
    have "ld32 (store_words (a + 4) vs (st32 a v m)) (a + 4 + 4 * of_nat j) = vs ! j"
      using Cons.prems Suc by (intro Cons.IH) simp_all
    then show ?thesis using Suc by (simp add: algebra_simps)
  qed
qed simp

lemma load_store_words:
  assumes "length vs = 8"
  shows "map (\<lambda>i. ld32 (store_words a vs m) (a + 4 * of_nat i)) [0..<8] = vs"
  using assms ld32_store_words [of _ vs a m] by (intro nth_equalityI) simp_all

section \<open>A switch touches no task's context\<close>

text \<open>
  \<open>made_ready A s s'\<close>: queue links, tasks with a pid in \<open>A\<close> made READY and the scheduler's two pointers may
  differ; every other field of every control block, memory, the CPU and the rest are the same.
\<close>

definition made_ready :: "u32 set \<Rightarrow> kernel \<Rightarrow> kernel \<Rightarrow> bool" where
  "made_ready A s s' \<longleftrightarrow>
     s' = s\<lparr>nodes := nodes s', queues := queues s', tcbs := tcbs s',
            currently_running := currently_running s', task_to_preserve := task_to_preserve s'\<rparr> \<and>
     (\<forall>n. tdata (nodes s' n) = tdata (nodes s n)) \<and>
     (\<forall>a. tcbs s' a = tcbs s a \<or> pid_of (tcbs s a) \<in> A \<and> tcbs s' a = (tcbs s a)\<lparr>tstate := READY\<rparr>)"

abbreviation context_kept :: "kernel \<Rightarrow> kernel \<Rightarrow> bool" where
  "context_kept \<equiv> made_ready UNIV"

lemmas context_kept_def = made_ready_def [of UNIV]

lemma made_ready_refl [simp]: "made_ready A s s"
  by (simp add: made_ready_def)

lemma made_ready_trans:
  assumes "made_ready A s t" "made_ready A t u"
  shows "made_ready A s u"
proof -
  have "u = s\<lparr>nodes := nodes u, queues := queues u, tcbs := tcbs u,
              currently_running := currently_running u, task_to_preserve := task_to_preserve u\<rparr>"
    using assms by (cases s; cases t; cases u) (simp add: made_ready_def)
  moreover have "tcbs u a = tcbs s a \<or> pid_of (tcbs s a) \<in> A \<and> tcbs u a = (tcbs s a)\<lparr>tstate := READY\<rparr>" for a
  proof -
    have t: "tcbs t a = tcbs s a \<or> pid_of (tcbs s a) \<in> A \<and> tcbs t a = (tcbs s a)\<lparr>tstate := READY\<rparr>"
      and u: "tcbs u a = tcbs t a \<or> pid_of (tcbs t a) \<in> A \<and> tcbs u a = (tcbs t a)\<lparr>tstate := READY\<rparr>"
      using assms unfolding made_ready_def by blast+
    from u t show ?thesis by (elim disjE) (simp_all add: pid_of_def)
  qed
  ultimately show ?thesis using assms unfolding made_ready_def by auto
qed

lemma made_ready_mono: "made_ready A s s' \<Longrightarrow> A \<subseteq> B \<Longrightarrow> made_ready B s s'"
  by (auto simp: made_ready_def)

lemma context_kept_sel:
  assumes "context_kept s s'"
  shows "mem s' = mem s" "cpu s' = cpu s" "tdata (nodes s' n) = tdata (nodes s n)"
    "sp (tcbs s' a) = sp (tcbs s a)" "DEBUG s' = DEBUG s"
proof -
  show "mem s' = mem s" "cpu s' = cpu s" "DEBUG s' = DEBUG s"
    using assms by (cases s; cases s'; simp add: context_kept_def)+
  show "tdata (nodes s' n) = tdata (nodes s n)" using assms by (simp add: context_kept_def)
  have "tcbs s' a = tcbs s a \<or> tcbs s' a = (tcbs s a)\<lparr>tstate := READY\<rparr>" using assms unfolding context_kept_def by blast
  then show "sp (tcbs s' a) = sp (tcbs s a)" by auto
qed

lemma made_ready_upds [simp]:
  "made_ready A s (s\<lparr>currently_running := c\<rparr>)" "made_ready A s (s\<lparr>task_to_preserve := c\<rparr>)"
  "made_ready A s (s\<lparr>currently_running := c, task_to_preserve := c'\<rparr>)"
  by (simp_all add: made_ready_def)

lemma isolate_made: "isolate_node q n s = Inr s' \<Longrightarrow> made_ready {} s s'"
  by (auto simp: isolate_node_def typed_access bnd_eq_Inr made_ready_def split: if_splits)

lemma move_made: "move_node q n s = Inr s' \<Longrightarrow> made_ready {} s s'"
  by (auto simp: move_node_def typed_access bnd_eq_Inr made_ready_def split: if_splits)

lemma set_state_made:
  "upd_tcb_of q (\<lambda>t. t\<lparr>tstate := READY\<rparr>) s = Inr s' \<Longrightarrow> pid_of (task s q) \<in> A \<Longrightarrow> made_ready A s s'"
  by (auto simp: upd_tcb_of_def typed_access bnd_eq_Inr made_ready_def task_def split: if_splits)

lemma made_ready_none: "made_ready {} s s' \<Longrightarrow> task s' n = task s n"
  by (auto simp: made_ready_def task_def)

lemma tcb_of_Inr: "tcb_of q s = Inr t \<Longrightarrow> t = task s q"
  by (auto simp: tcb_of_def typed_access bnd_eq_Inr task_def split: if_splits)

lemma wakeup_loop_made: "wakeup_loop k p q s = Inr (r, s') \<Longrightarrow> made_ready {p} s s'"
proof (induction k arbitrary: q)
  case (Suc k)
  from Suc.prems obtain t where t: "tcb_of q s = Inr t"
    and r: "(if pid_of t = p then
       bnd (isolate_node (waiting_tasks s) q s) (\<lambda>s1.
       bnd (move_node (running_tasks s1) q s1) (\<lambda>s2.
       bnd (upd_tcb_of q (\<lambda>t. t\<lparr>tstate := READY\<rparr>) s2) (\<lambda>s3. Inr (q, s3))))
     else bnd (node_at q s) (\<lambda>n. wakeup_loop k p (nxt n) s)) = Inr (r, s')"
    by (simp only: wakeup_loop.simps) (erule bnd_InrE)
  show ?case
  proof (cases "pid_of t = p")
    case True
    with r obtain s1 s2 where s: "isolate_node (waiting_tasks s) q s = Inr s1" "move_node (running_tasks s1) q s1 = Inr s2"
      "upd_tcb_of q (\<lambda>t. t\<lparr>tstate := READY\<rparr>) s2 = Inr s'" by (auto simp: bnd_eq_Inr)
    have m: "made_ready {} s s2" by (rule made_ready_trans [OF isolate_made [OF s(1)] move_made [OF s(2)]])
    have "pid_of (task s2 q) \<in> {p}" using made_ready_none [OF m] tcb_of_Inr [OF t] True by simp
    from made_ready_trans [OF made_ready_mono [OF m empty_subsetI] set_state_made [OF s(3) this]] show ?thesis .
  next
    case False
    with r Suc.IH show ?thesis by (auto simp: bnd_eq_Inr)
  qed
qed simp

lemma wakeup_made: "wakeup_pid p s = Inr (q, s') \<Longrightarrow> made_ready {p} s s'"
  by (auto simp: wakeup_pid_def bnd_eq_Inr split: if_splits intro: wakeup_loop_made)

lemma force_loop_made: "force_loop k q s = Inr s' \<Longrightarrow> made_ready {0} s s'"
proof (induction k arbitrary: q)
  case (Suc k)
  then show ?case
    by (auto simp: bnd_eq_Inr split: if_splits dest!: tcb_of_Inr)
       (blast intro: made_ready_trans [OF set_state_made] made_ready_upds)
qed simp

lemma force_made: "force_pid0_into_running s = Inr s' \<Longrightarrow> made_ready {0} s s'"
  by (auto simp: force_pid0_into_running_def bnd_eq_Inr intro: force_loop_made)

lemma switch_loop_made: "switch_loop k s = Inr (b, s') \<Longrightarrow> made_ready {} s s'"
proof (induction k arbitrary: s)
  case (Suc k)
  from Suc.prems obtain cr n where cr: "node_at (currently_running s) s = Inr cr"
    and n: "tcb_of (nxt cr) (s\<lparr>currently_running := nxt cr\<rparr>) = Inr n"
    and r: "if tstate n = READY then Inr (True, s\<lparr>currently_running := nxt cr, task_to_preserve := nxt cr\<rparr>) = (Inr (b, s') :: (bool \<times> kernel) res)
            else switch_loop k (s\<lparr>currently_running := nxt cr\<rparr>) = Inr (b, s')"
    by (auto simp: bnd_eq_Inr Let_def split: if_splits)
  show ?case
  proof (cases "tstate n = READY")
    case True
    with r show ?thesis by auto
  next
    case False
    with r Suc.IH [of "s\<lparr>currently_running := nxt cr\<rparr>"] show ?thesis
      by (auto intro: made_ready_trans [OF made_ready_upds(1)])
  qed
qed simp

text \<open>The last resort: the idle task is woken or forced.\<close>

lemma fallback_made:
  assumes "wakeup_pid p s = Inr (q, s1)" "0 \<in> A" "p \<in> A" "made_ready {} s1 u"
    "(if q = NULL then force_pid0_into_running u else Inr u) = Inr t"
  shows "made_ready A s t"
proof -
  have "made_ready A s s1" using made_ready_mono [OF wakeup_made [OF assms(1)]] assms(3) by simp
  from this made_ready_mono [OF assms(4) empty_subsetI] have u: "made_ready A s u" by (rule made_ready_trans)
  show ?thesis
  proof (cases "q = NULL")
    case True
    with assms(5) have "made_ready {0} u t" by (intro force_made) simp
    then have "made_ready A u t" by (rule made_ready_mono) (use assms(2) in simp)
    with u show ?thesis by (rule made_ready_trans)
  qed (use u assms(5) in simp)
qed

lemma made_ready_pids: "made_ready A s s' \<Longrightarrow> kernel_pids s' = kernel_pids s"
  by (cases s; cases s') (simp add: made_ready_def)

lemma switch_task_made:
  assumes "switch_task s = Inr s'"
  shows "made_ready {0, pid_arg (idle_task (kernel_pids s))} s s'"
proof (cases "currently_running s = NULL")
  case True
  with assms obtain q s1 t where w: "wakeup_pid (pid_arg (idle_task (kernel_pids s))) s = Inr (q, s1)"
    "(if q = NULL then force_pid0_into_running (s1\<lparr>currently_running := q\<rparr>) else Inr (s1\<lparr>currently_running := q\<rparr>)) = Inr t"
    "s' = t\<lparr>task_to_preserve := currently_running t\<rparr>"
    by (auto simp: switch_task_def bnd_eq_Inr Let_def split: if_splits)
  from made_ready_trans [OF fallback_made [OF w(1) _ _ made_ready_upds(1) w(2)] made_ready_upds(2)] show ?thesis
    unfolding w(3) by simp
next
  case False
  let ?A = "{0, pid_arg (idle_task (kernel_pids s))}"
  from False assms have "bnd (if dma_interrupt_action (drv s) AND DmaTransferedExternalTask \<noteq> 0
      then bnd (wakeup_pid (pid_arg (idle_task (kernel_pids s))) s) (\<lambda>(q, s1). Inr s1) else Inr s) (\<lambda>s1.
      bnd (size_of_queue (running_tasks s1) s1) (\<lambda>sz.
      bnd (switch_loop (unat sz) s1) (\<lambda>(found, s2). if found then Inr s2
        else bnd (wakeup_pid (pid_arg (idle_task (kernel_pids s2))) s2) (\<lambda>(q, s3).
             let s4 = s3\<lparr>currently_running := q, task_to_preserve := q\<rparr> in
             if q = NULL then force_pid0_into_running s4 else Inr s4)))) = Inr s'"
    by (simp add: switch_task_def)
  then obtain s1 and sz :: u32 and fs where A: "(if dma_interrupt_action (drv s) AND DmaTransferedExternalTask \<noteq> 0
      then bnd (wakeup_pid (pid_arg (idle_task (kernel_pids s))) s) (\<lambda>(q, s1). Inr s1) else Inr s) = Inr s1"
    and sl0: "switch_loop (unat sz) s1 = Inr fs"
    and r0: "(case fs of (found, s2) \<Rightarrow> if found then Inr s2
        else bnd (wakeup_pid (pid_arg (idle_task (kernel_pids s2))) s2) (\<lambda>(q, s3).
             let s4 = s3\<lparr>currently_running := q, task_to_preserve := q\<rparr> in
             if q = NULL then force_pid0_into_running s4 else Inr s4)) = Inr s'"
    by (elim bnd_InrE) (rule that)
  obtain found s2 where fs: "fs = (found, s2)" by (cases fs) auto
  have k1: "made_ready ?A s s1"
    using A by (auto simp: bnd_eq_Inr split: if_splits intro: made_ready_mono [OF wakeup_made])
  have "made_ready ?A s1 s2" by (rule made_ready_mono [OF switch_loop_made [OF sl0 [unfolded fs]] empty_subsetI])
  with k1 have k2: "made_ready ?A s s2" by (rule made_ready_trans)
  show ?thesis
  proof (cases found)
    case True
    with r0 fs k2 show ?thesis by simp
  next
    case False
    with r0 fs obtain q s3 where w: "wakeup_pid (pid_arg (idle_task (kernel_pids s2))) s2 = Inr (q, s3)"
      "(if q = NULL then force_pid0_into_running (s3\<lparr>currently_running := q, task_to_preserve := q\<rparr>)
        else Inr (s3\<lparr>currently_running := q, task_to_preserve := q\<rparr>)) = Inr s'"
      by (auto simp: bnd_eq_Inr Let_def)
    have "made_ready ?A s2 s'"
      by (rule fallback_made [OF w(1) _ _ made_ready_upds(3) w(2)]) (simp_all add: made_ready_pids [OF k2])
    with k2 show ?thesis by (rule made_ready_trans)
  qed
qed

lemmas isolate_kept = made_ready_mono [OF isolate_made subset_UNIV]
lemmas move_kept = made_ready_mono [OF move_made subset_UNIV]
lemmas wakeup_kept = made_ready_mono [OF wakeup_made subset_UNIV]
lemmas switch_task_kept = made_ready_mono [OF switch_task_made subset_UNIV]

section \<open>The context of a task over a switch\<close>

lemma MODIFY_kernel_sel [simp]:
  fixes s :: kernel
  shows "mem (MODIFY_REGISTER a f s) = mem s" "cpu (MODIFY_REGISTER a f s) = cpu s"
  "nodes (MODIFY_REGISTER a f s) = nodes s" "queues (MODIFY_REGISTER a f s) = queues s"
  "tcbs (MODIFY_REGISTER a f s) = tcbs s" "currently_running (MODIFY_REGISTER a f s) = currently_running s"
  "task_to_preserve (MODIFY_REGISTER a f s) = task_to_preserve s"
  "running_tasks (MODIFY_REGISTER a f s) = running_tasks s"
  "waiting_tasks (MODIFY_REGISTER a f s) = waiting_tasks s"
  "process_stats (MODIFY_REGISTER a f s) = process_stats s"
  "kernel_pids (MODIFY_REGISTER a f s) = kernel_pids s" "io (MODIFY_REGISTER a f s) = io s"
  "syms (MODIFY_REGISTER a f s) = syms s"
  using alloc_frame_kernel [OF alloc_frame_MODIFY [of s a f]] by simp_all

lemma save_then_load:
  assumes "length (r4_11 (cpu s)) = 8"
  shows "load_r4_11 (psp (cpu s) - 32) (s\<lparr>mem := store_words (psp (cpu s) - 32) (r4_11 (cpu s)) (mem s), cpu := c\<rparr>)
         = r4_11 (cpu s)"
  using load_store_words [OF assms] by (simp add: load_r4_11_def)

lemma save_restore:
  assumes "lr (cpu s) AND 4 \<noteq> 0" "length (r4_11 (cpu s)) = 8"
  shows "cpu (restore_psp (save_psp_if_threadmode s)) = cpu s"
  using assms save_then_load [OF assms(2), of "(cpu s)\<lparr>psp := psp (cpu s) - 32\<rparr>"]
  by (simp add: restore_psp_def save_psp_if_threadmode_def)

text \<open>A yielding task: its registers are below its stack pointer, PendSV is pending.\<close>

lemma yield_saves:
  assumes y: "r4_11 (cpu s) ! 2 = trap_number yieldTask" "lr (cpu s) AND 4 \<noteq> 0" "length (r4_11 (cpu s)) = 8"
    and run: "svcall_isr call s = Inr s'"
  shows "load_r4_11 (psp (cpu s) - 32) s' = r4_11 (cpu s)" "psp (cpu s') = psp (cpu s) - 32"
    "task_to_preserve s' = task_to_preserve s" "nodes s' = nodes s"
    "r4_11 (cpu s') = r4_11 (cpu s)" "lr (cpu s') = lr (cpu s)"
proof -
  let ?s1 = "save_psp_if_threadmode (s\<lparr>cpu := (cpu s)\<lparr>svc_pending := False\<rparr>\<rparr>)"
  have e: "yield_case ?s1 = Inr s'"
    using run y(1,2) by (simp add: svcall_isr_def Let_def save_psp_if_threadmode_def)
  then have "mem s' = mem ?s1" "cpu s' = cpu ?s1" "task_to_preserve s' = task_to_preserve ?s1" "nodes s' = nodes ?s1"
    by (auto simp: yield_case_def bnd_eq_Inr set_pendsv_def upd_tcb_of_def typed_access split: if_splits)
  then show "load_r4_11 (psp (cpu s) - 32) s' = r4_11 (cpu s)" "psp (cpu s') = psp (cpu s) - 32"
    "task_to_preserve s' = task_to_preserve s" "nodes s' = nodes s"
    "r4_11 (cpu s') = r4_11 (cpu s)" "lr (cpu s') = lr (cpu s)"
    using y(2) load_store_words [OF y(3)] by (simp_all add: save_psp_if_threadmode_def load_r4_11_def)
qed

text \<open>PendSV: the stack pointer goes to the task to preserve, the selected task's context comes in.\<close>

lemma pendsv_context:
  assumes "pendsv_isr t = Inr t'"
  defines "old \<equiv> tdata (nodes t (task_to_preserve t))" and "n \<equiv> currently_running t'"
  defines "stk \<equiv> (if tdata (nodes t n) = old then psp (cpu t) else sp (task t n))"
  shows "mem t' = mem t" "r4_11 (cpu t') = load_r4_11 stk t" "psp (cpu t') = stk + 32"
    "sp (tcbs t' old) = psp (cpu t)" "\<forall>a. a \<noteq> old \<longrightarrow> sp (tcbs t' a) = sp (tcbs t a)"
    "\<forall>m. tdata (nodes t' m) = tdata (nodes t m)" "lr (cpu t') = lr (cpu t)"
proof -
  let ?s1 = "disable_irq t"
  define s2 where "s2 = (if DEBUG ?s1 \<noteq> 0
      then ?s1\<lparr>process_stats := (process_stats ?s1)\<lparr>num_of_pendsv := num_of_pendsv (process_stats ?s1) + 1\<rparr>\<rparr> else ?s1)"
  have s2: "nodes s2 = nodes t" "tcbs s2 = tcbs t" "mem s2 = mem t" "task_to_preserve s2 = task_to_preserve t"
    "cpu s2 = (cpu t)\<lparr>primask := True\<rparr>"
    by (simp_all add: s2_def disable_irq_def)
  from assms(1) obtain s3 s4 tc where
    u: "upd_tcb_of (task_to_preserve s2) (\<lambda>t. t\<lparr>sp := psp (cpu s2)\<rparr>) s2 = Inr s3"
    and sw: "switch_task s3 = Inr s4" and tc: "tcb_of (currently_running s4) s4 = Inr tc"
    and t': "t' = (let s5 = enable_irq s4; s6 = s5\<lparr>cpu := (cpu s5)\<lparr>r4_11 := load_r4_11 (sp tc) s5\<rparr>\<rparr>;
       s7 = ST_ENABLE s6 in s7\<lparr>cpu := (cpu s7)\<lparr>psp := sp tc + 32\<rparr>\<rparr>)"
    unfolding pendsv_isr_def Let_def s2_def [symmetric]
    by (elim bnd_InrE) (rule that, assumption, assumption, assumption, simp)
  have s3: "s3 = s2\<lparr>tcbs := (tcbs t)(old := (tcbs t old)\<lparr>sp := psp (cpu t)\<rparr>)\<rparr>"
    using u s2 by (auto simp: upd_tcb_of_def typed_access bnd_eq_Inr old_def split: if_splits)
  note k = context_kept_sel [OF switch_task_kept [OF sw]]
  have td: "tdata (nodes s4 m) = tdata (nodes t m)" for m using k(3) s3 s2 by simp
  have spk: "sp (tcbs s4 a) = (if a = old then psp (cpu t) else sp (tcbs t a))" for a
    using k(4) [of a] s3 by simp
  have cr: "currently_running s4 = n" unfolding n_def t' by (simp add: Let_def enable_irq_def ST_ENABLE_def)
  have "tc = tcbs s4 (tdata (nodes s4 n))"
    using tc cr by (auto simp: tcb_of_def typed_access bnd_eq_Inr split: if_splits)
  then have sp: "sp tc = stk" using spk td by (simp add: stk_def task_def)
  have m4: "mem s4 = mem t" "cpu s4 = (cpu t)\<lparr>primask := True\<rparr>" using k(1,2) s3 s2 by simp_all
  show "mem t' = mem t" "r4_11 (cpu t') = load_r4_11 stk t" "psp (cpu t') = stk + 32" "lr (cpu t') = lr (cpu t)"
    using m4 sp unfolding t' by (simp_all add: Let_def enable_irq_def ST_ENABLE_def load_r4_11_def)
  show "sp (tcbs t' old) = psp (cpu t)" "\<forall>a. a \<noteq> old \<longrightarrow> sp (tcbs t' a) = sp (tcbs t a)"
    using spk unfolding t' by (simp_all add: Let_def enable_irq_def ST_ENABLE_def)
  show "\<forall>m. tdata (nodes t' m) = tdata (nodes t m)"
    using td unfolding t' by (simp add: Let_def enable_irq_def ST_ENABLE_def)
qed

end
