(* ===== verification/Irq.thy ===== *)
theory Irq
  imports Exceptions
begin

text \<open>
  The interrupt handlers: \<open>os/src/irq/uart_isr.c\<close>, \<open>tim3_isr.c\<close>, \<open>gpio_isr.c\<close>, \<open>adc_isr.c\<close> and
  \<open>usage_fault.c\<close>.
\<close>

section \<open>The variable behind internal_rx_state\<close>

text \<open>
  \<open>internal_rx_state\<close> is a pointer, set by the supervisor call \<open>getIoBuffer\<close> to the address of
  \<open>rx_state\<close>.
\<close>

definition internal_rx_state :: "kernel \<Rightarrow> addr" where
  "internal_rx_state s = ld32 (mem s) (internal_rx_state_addr (syms s))"

definition store_rx_state :: "u32 \<Rightarrow> kernel \<Rightarrow> kernel res" where
  "store_rx_state v s =
     (let p = internal_rx_state s in
      if p = NULL then Inl NullDeref
      else if p = rx_state_addr (syms s) then Inr (s\<lparr>io := (io s)\<lparr>rx_state := v\<rparr>\<rparr>)
      else Inr (s\<lparr>mem := st32 p v (mem s)\<rparr>))"

definition load_rx_state :: "kernel \<Rightarrow> u32 res" where
  "load_rx_state s =
     (let p = internal_rx_state s in
      if p = NULL then Inl NullDeref
      else if p = rx_state_addr (syms s) then Inr (rx_state (io s))
      else Inr (ld32 (mem s) p))"

text \<open>\<open>*((unsigned int*) uart_rx_buffer)\<close>\<close>

definition rx_word :: "u8 list \<Rightarrow> u32" where
  "rx_word b = ucast (b ! 0) OR push_bit 8 (ucast (b ! 1)) OR push_bit 16 (ucast (b ! 2)) OR push_bit 24 (ucast (b ! 3))"

section \<open>uart_isr.c\<close>

abbreviation (input) BUFFERSIZE :: u8 where "BUFFERSIZE \<equiv> 4"
abbreviation (input) MAX_WAITING_TRANSFERS :: u32 where "MAX_WAITING_TRANSFERS \<equiv> 5"
abbreviation (input) RX_READY :: u32 where "RX_READY \<equiv> 0"
abbreviation (input) PREPARE_TASK_TRANSFER :: u32 where "PREPARE_TASK_TRANSFER \<equiv> 1"
abbreviation (input) REQUEST_STATISTIC :: u32 where "REQUEST_STATISTIC \<equiv> 3"
abbreviation (input) REBOOT :: u32 where "REBOOT \<equiv> 6"

definition init_transfer_handler :: "kernel \<Rightarrow> kernel" where
  "init_transfer_handler s =
     s\<lparr>io := (io s)\<lparr>num_of_waiting_transfers := 0,
                    transfer_list := replicate 5 \<lparr>ti_start_adress = 0, ti_length = 0\<rparr>\<rparr>\<rparr>"

definition setup_transfer :: "addr \<Rightarrow> u32 \<Rightarrow> kernel \<Rightarrow> kernel res" where
  "setup_transfer address len s =
     (if num_of_waiting_transfers (io s) = MAX_WAITING_TRANSFERS then Inr s
      else
        bnd (if num_of_waiting_transfers (io s) = 0
             then bnd (wakeup_pid (pid_arg (transfer_handler_pid (kernel_pids s))) s) (\<lambda>(q, s1). Inr s1)
             else Inr s) (\<lambda>s1.
        bnd (wr (transfer_list (io s1)) (uint (num_of_waiting_transfers (io s1)))
               \<lparr>ti_start_adress = address, ti_length = len\<rparr>) (\<lambda>tl.
        Inr (s1\<lparr>io := (io s1)\<lparr>transfer_list := tl,
                              num_of_waiting_transfers := num_of_waiting_transfers (io s1) + 1\<rparr>\<rparr>))))"

text \<open>One turn of the endless loop of the task \<open>transfer_handler\<close>.\<close>

definition transfer_handler_turn :: "kernel \<Rightarrow> kernel res" where
  "transfer_handler_turn s =
     bnd (if num_of_waiting_transfers (io s) \<noteq> 0 then
            bnd (rd (transfer_list (io s)) (uint (num_of_waiting_transfers (io s) - 1))) (\<lambda>t.
            bnd (print (mem_bytes (ti_start_adress t) (ti_length t) s) s) (\<lambda>s1.
            Inr (s1\<lparr>io := (io s1)\<lparr>num_of_waiting_transfers := num_of_waiting_transfers (io s1) - 1\<rparr>\<rparr>)))
          else Inr s) (\<lambda>s2.
     block_current_task s2)"

definition init_isr :: "kernel \<Rightarrow> kernel res" where
  "init_isr s =
     bnd (store_rx_state RX_READY (s\<lparr>io := (io s)\<lparr>byte_in_id := 4\<rparr>\<rparr>)) (\<lambda>s1.
     Inr (s1\<lparr>io := (io s1)\<lparr>in_buffer := 0, bytes_received := 0, uart_rx_buffer := replicate 4 0\<rparr>\<rparr>))"

definition uart_isr_handler :: "kernel \<Rightarrow> kernel res" where
  "uart_isr_handler s =
     (let (sr, s1) = READ_REGISTER USART1_sr s in
      if sr AND shl 1 UART_ORE \<noteq> 0 then
        bnd (if \<not> hostIsNotified (io s1)
             then bnd (print [-1, -1, -1, -1] s1) (\<lambda>t. Inr (t\<lparr>io := (io t)\<lparr>hostIsNotified := True\<rparr>\<rparr>))
             else Inr s1) (\<lambda>s2.
        let (sr2, s3) = READ_REGISTER USART1_sr s2 in
        bnd (if sr2 AND shl 1 UART_RXNE \<noteq> 0 then
               let (d, t) = read_data_register s3 in
               bnd (wr (uart_rx_buffer (io t)) (uint (bytes_received (io t))) (ucast d)) (\<lambda>b.
               Inr (t\<lparr>io := (io t)\<lparr>uart_rx_buffer := b\<rparr>\<rparr>))
             else Inr s3) (\<lambda>s4.
        Inr (s4\<lparr>io := (io s4)\<lparr>bytes_received := 0\<rparr>\<rparr>)))
      else
        (let s2 = s1\<lparr>io := (io s1)\<lparr>hostIsNotified := False\<rparr>\<rparr>;
             (d, s3) = read_data_register s2 in
         bnd (wr (uart_rx_buffer (io s3)) (uint (bytes_received (io s3))) (ucast d)) (\<lambda>b.
         let s4 = s3\<lparr>io := (io s3)\<lparr>uart_rx_buffer := b, bytes_received := bytes_received (io s3) + 1\<rparr>\<rparr> in
         if bytes_received (io s4) \<noteq> BUFFERSIZE then Inr s4
         else
           bnd (store_rx_state (rx_word b AND 0xFF) s4) (\<lambda>s5.
           bnd (load_rx_state s5) (\<lambda>st.
           bnd (if st = REBOOT then reboot RebootRequestedByOperator s5
                else bnd (wakeup_pid (pid_arg (external_io_runner_pid (kernel_pids s5))) s5) (\<lambda>(q, t). Inr t)) (\<lambda>s6.
           Inr (s6\<lparr>io := (io s6)\<lparr>bytes_received := 0\<rparr>\<rparr>)))))))"

section \<open>tim3_isr.c\<close>

definition tim3_isr_handler :: "kernel \<Rightarrow> kernel res" where
  "tim3_isr_handler s =
     (let (tim_sr, s1) = timer_get_sr 3 s in
      if tim_sr AND shl 1 1 \<noteq> 0 then
        (let s2 = timer_set_sr 3 (tim_sr AND NOT (shl 1 1)) (timer_stop 3 s1) in
         bnd (wakeup_pid (pid_of_sleeping_task s2) s2) (\<lambda>(q, s3). Inr s3))
      else Inr s1)"

section \<open>gpio_isr.c\<close>

abbreviation (input) Exti9_5 :: int where "Exti9_5 \<equiv> 5"

definition enable_cpu_interrupt_exti :: "kernel \<Rightarrow> kernel" where
  "enable_cpu_interrupt_exti s = enable_nvic_interrupt (exti_pos_vector_table (io s)) s"

definition link_exti_src :: "addr \<Rightarrow> GpioObject \<Rightarrow> kernel \<Rightarrow> (GpioObject \<times> kernel) res" where
  "link_exti_src isr_callback g s =
     (let exti_offset = 6 in
      bnd (if pin g \<le> 4 then
             bnd (wr (exti_isr_handler (io s)) (uint (pin g)) isr_callback) (\<lambda>h.
             Inr (s\<lparr>io := (io s)\<lparr>exti_pos_vector_table := pin g + exti_offset, exti_isr_handler := h\<rparr>\<rparr>))
           else if 4 < pin g \<and> pin g < 10 then
             bnd (wr (exti_isr_handler (io s)) Exti9_5 isr_callback) (\<lambda>h.
             Inr (s\<lparr>io := (io s)\<lparr>exti_pos_vector_table := 23, exti_isr_handler := h\<rparr>\<rparr>))
           else Inr s) (\<lambda>s1.
      let (g1, s2) = init_gpio g s1;
          s3 = set_moder g1 InputMode s2
      in Inr (g1, execute_priviledged (enable_exti_addr (syms s3)) s3)))"

definition init_exti_isr_handling :: "kernel \<Rightarrow> kernel" where
  "init_exti_isr_handling s = s\<lparr>io := (io s)\<lparr>exti_isr_handler := replicate 6 (empty_isr_addr (syms s))\<rparr>\<rparr>"

text \<open>
  A call through a pointer variable: through NULL it is a fault.  Before \<open>init_exti_isr_handling\<close> the
  table of the external lines holds zeros, and so does the callback of the converter before \<open>link_adc_src\<close>.
\<close>

definition call_ptr :: "(addr \<Rightarrow> kernel \<Rightarrow> kernel res) \<Rightarrow> addr \<Rightarrow> kernel \<Rightarrow> kernel res" where
  "call_ptr call h s = (if h = NULL then Inl NullDeref else call h s)"

lemma call_ptr [simp]: "call_ptr call NULL s = Inl NullDeref" "h \<noteq> NULL \<Longrightarrow> call_ptr call h s = call h s"
  by (simp_all add: call_ptr_def)

text \<open>The handlers \<open>exti0_isr_handler\<close> to \<open>exti4_isr_handler\<close> and \<open>exti9_5_isr_handler\<close> differ in the line only.\<close>

definition exti_isr :: "(addr \<Rightarrow> kernel \<Rightarrow> kernel res) \<Rightarrow> int \<Rightarrow> kernel \<Rightarrow> kernel res" where
  "exti_isr call line s = bnd (rd (exti_isr_handler (io s)) line) (\<lambda>h. call_ptr call h s)"

definition exti0_isr_handler :: "(addr \<Rightarrow> kernel \<Rightarrow> kernel res) \<Rightarrow> kernel \<Rightarrow> kernel res" where
  "exti0_isr_handler call s = exti_isr call 0 s"

definition exti1_isr_handler :: "(addr \<Rightarrow> kernel \<Rightarrow> kernel res) \<Rightarrow> kernel \<Rightarrow> kernel res" where
  "exti1_isr_handler call s = exti_isr call 1 s"

definition exti2_isr_handler :: "(addr \<Rightarrow> kernel \<Rightarrow> kernel res) \<Rightarrow> kernel \<Rightarrow> kernel res" where
  "exti2_isr_handler call s = exti_isr call 2 s"

definition exti3_isr_handler :: "(addr \<Rightarrow> kernel \<Rightarrow> kernel res) \<Rightarrow> kernel \<Rightarrow> kernel res" where
  "exti3_isr_handler call s = exti_isr call 3 s"

definition exti4_isr_handler :: "(addr \<Rightarrow> kernel \<Rightarrow> kernel res) \<Rightarrow> kernel \<Rightarrow> kernel res" where
  "exti4_isr_handler call s = exti_isr call 4 s"

definition exti9_5_isr_handler :: "(addr \<Rightarrow> kernel \<Rightarrow> kernel res) \<Rightarrow> kernel \<Rightarrow> kernel res" where
  "exti9_5_isr_handler call s = exti_isr call Exti9_5 s"

section \<open>adc_isr.c\<close>

definition enable_cpu_interrupt_adc :: "kernel \<Rightarrow> kernel" where
  "enable_cpu_interrupt_adc s = enable_nvic_interrupt (adc_pos_vector_table (io s)) s"

definition link_adc_src :: "addr \<Rightarrow> kernel \<Rightarrow> kernel" where
  "link_adc_src isr_callback s =
     execute_priviledged (enable_adc_addr (syms s))
       (s\<lparr>io := (io s)\<lparr>adc_isr_callback := isr_callback, adc_pos_vector_table := 18\<rparr>\<rparr>)"

definition adc_isr_handler :: "(addr \<Rightarrow> kernel \<Rightarrow> kernel res) \<Rightarrow> kernel \<Rightarrow> kernel res" where
  "adc_isr_handler call s = call_ptr call (adc_isr_callback (io s)) s"

text \<open>
  What \<open>execPriv\<close> calls: the two functions the kernel passes to \<open>execute_priviledged\<close> (with the
  Thumb bit), and any other address, for which \<open>other\<close> stands.
\<close>

definition priv_call :: "(addr \<Rightarrow> kernel \<Rightarrow> kernel res) \<Rightarrow> addr \<Rightarrow> kernel \<Rightarrow> kernel res" where
  "priv_call other a s =
     (if a = enable_exti_addr (syms s) OR 1 then Inr (enable_cpu_interrupt_exti s)
      else if a = enable_adc_addr (syms s) OR 1 then Inr (enable_cpu_interrupt_adc s)
      else other a s)"

section \<open>usage_fault.c\<close>

text \<open>
  The local \<open>kernel_pids\<close> hides the global one and is initialised with its own address; \<open>at\<close> is
  that address.  The loop reads \<open>sizeof(char*)\<close> = 4 bytes there, \<open>handle_kernel_error\<close> does
  nothing, and the function ends in an endless loop.
\<close>

definition handle_kernel_error :: "u8 \<Rightarrow> kernel \<Rightarrow> kernel" where
  "handle_kernel_error crashed_task s = s"

fun usage_fault_loop :: "nat \<Rightarrow> nat \<Rightarrow> addr \<Rightarrow> kernel \<Rightarrow> kernel res" where
  "usage_fault_loop 0 i loc s = Inr s"
| "usage_fault_loop (Suc k) i loc s =
     bnd (tcb_of (currently_running s) s) (\<lambda>t.
     usage_fault_loop k (i + 1) loc
       (if pid t = mem s (loc + of_nat i) then handle_kernel_error (mem s (loc + of_nat i)) s else s))"

definition usage_fault :: "addr \<Rightarrow> kernel \<Rightarrow> kernel res" where
  "usage_fault loc s = bnd (usage_fault_loop 4 0 loc s) (\<lambda>s1. let (UFSR, s2) = READ_REGISTER 0xE000ED28 s1 in Inl Spin)"

end
