(* ===== verification/SList.thy ===== *)
theory SList
  imports Queue_Spec
begin

text \<open>
  \<open>os/src/data/list.c\<close>: the singly linked list a task keeps of its children.
\<close>

section \<open>Operations\<close>

text \<open>
  A failed allocation is reported with \<open>invoke_panic\<close> and then written through: the code goes
  on with the NULL pointer.
\<close>

definition new_list :: "kernel \<Rightarrow> (addr \<times> kernel) res" where
  "new_list s =
     bnd (allocate sizeof_SList s) (\<lambda>(l, s1).
     let s2 = (if l = NULL then invoke_panic OUT_OF_MEMORY s1 else s1) in
     bnd (upd_slist l (\<lambda>L. L\<lparr>l_size := 0, l_head := NULL\<rparr>) s2) (\<lambda>s3. Inr (l, s3)))"

text \<open>\<open>while (q->next != NULL) q = q->next;\<close> is not bounded: on a cyclic list it has no value.\<close>

partial_function (option) list_end :: "addr \<Rightarrow> kernel \<Rightarrow> addr res option" where
  "list_end q s =
     (if q = NULL then Some (Inl NullDeref)
      else if s_next (snodes s q) = NULL then Some (Inr q)
      else list_end (s_next (snodes s q)) s)"

definition single_list_push :: "addr \<Rightarrow> addr \<Rightarrow> kernel \<Rightarrow> kernel res" where
  "single_list_push list data s =
     bnd (allocate sizeof_SingleLinkedNode s) (\<lambda>(new_node, s1).
     let s2 = (if new_node = NULL then invoke_panic OUT_OF_MEMORY s1 else s1) in
     bnd (upd_snode new_node (\<lambda>n. n\<lparr>s_next := NULL, s_data := data\<rparr>) s2) (\<lambda>s3.
     bnd (slist_at list s3) (\<lambda>l.
     bnd (if l_size l = 0 then upd_slist list (\<lambda>L. L\<lparr>l_head := new_node\<rparr>) s3
          else bnd (case list_end (l_head l) s3 of None \<Rightarrow> Inl Spin | Some r \<Rightarrow> r) (\<lambda>q.
               upd_snode q (\<lambda>n. n\<lparr>s_next := new_node\<rparr>) s3)) (\<lambda>s4.
     upd_slist list (\<lambda>L. L\<lparr>l_size := l_size L + 1\<rparr>) s4))))"

definition single_list_pop :: "addr \<Rightarrow> kernel \<Rightarrow> (addr \<times> kernel) res" where
  "single_list_pop list s =
     bnd (slist_at list s) (\<lambda>l.
     if l_size l = 0 then Inr (NULL, s)
     else bnd (snode_at (l_head l) s) (\<lambda>n.
          bnd (upd_slist list (\<lambda>L. L\<lparr>l_head := s_next n, l_size := l_size L - 1\<rparr>) s) (\<lambda>s1.
          Inr (l_head l, s1))))"

section \<open>The list it holds\<close>

fun chain :: "(addr \<Rightarrow> SingleLinkedNode) \<Rightarrow> addr \<Rightarrow> addr list \<Rightarrow> bool" where
  "chain h p [] \<longleftrightarrow> p = NULL"
| "chain h p (x # xs) \<longleftrightarrow> p = x \<and> x \<noteq> NULL \<and> chain h (s_next (h x)) xs"

definition is_slist :: "kernel \<Rightarrow> addr \<Rightarrow> addr list \<Rightarrow> bool" where
  "is_slist s l xs \<longleftrightarrow>
     l \<noteq> NULL \<and> distinct xs \<and> unat (l_size (slists s l)) = length xs \<and>
     (xs \<noteq> [] \<longrightarrow> chain (snodes s) (l_head (slists s l)) xs)"

lemma chain_cong:
  "(\<And>x. x \<in> set xs \<Longrightarrow> s_next (h x) = s_next (h' x)) \<Longrightarrow> chain h p xs = chain h' p xs"
  by (induction xs arbitrary: p) auto

lemma list_end_chain:
  "chain (snodes s) q xs \<Longrightarrow> xs \<noteq> [] \<Longrightarrow> list_end q s = Some (Inr (last xs))"
proof (induction xs arbitrary: q)
  case (Cons x xs)
  then show ?case by (cases xs) (auto simp: list_end.simps [of q] list_end.simps [of x])
qed simp

lemma chain_snoc:
  assumes "chain h p xs" "xs \<noteq> []" "distinct xs" "y \<notin> set xs" "y \<noteq> NULL" "s_next (h y) = NULL"
  shows "chain (h(last xs := (h (last xs))\<lparr>s_next := y\<rparr>)) p (xs @ [y])"
  using assms
proof (induction xs arbitrary: p)
  case (Cons x xs)
  show ?case
  proof (cases xs)
    case Nil
    with Cons.prems show ?thesis by auto
  next
    case (Cons z zs)
    have "last xs \<noteq> x" using Cons.prems(3) \<open>xs = z # zs\<close> by (metis distinct.simps(2) last_in_set list.distinct(1))
    with Cons.prems Cons.IH [of "s_next (h x)"] \<open>xs = z # zs\<close> show ?thesis by (simp del: last.simps fun_upd_apply add: fun_upd_other last_ConsR)
  qed
qed simp

lemma chain_append_nonnull: "chain h p xs \<Longrightarrow> x \<in> set xs \<Longrightarrow> x \<noteq> NULL"
  by (induction xs arbitrary: p) auto

text \<open>What a list operation may change besides the allocator's own state.\<close>

definition list_frame :: "kernel \<Rightarrow> kernel \<Rightarrow> bool" where
  "list_frame s s' \<longleftrightarrow> (\<exists>s1. alloc_frame s s1 \<and> s' = s1\<lparr>snodes := snodes s', slists := slists s'\<rparr>)"

lemma list_frame_sel:
  assumes "list_frame s s'"
  shows "nodes s' = nodes s" "queues s' = queues s" "tcbs s' = tcbs s" "mem s' = mem s" "cpu s' = cpu s"
    "running_tasks s' = running_tasks s" "waiting_tasks s' = waiting_tasks s"
    "currently_running s' = currently_running s" "task_to_preserve s' = task_to_preserve s"
    "process_stats s' = process_stats s" "kernel_pids s' = kernel_pids s" "tInfo s' = tInfo s"
    "DEBUG s' = DEBUG s" "SYSTICK s' = SYSTICK s" "syms s' = syms s" "io s' = io s" "drv s' = drv s"
    "pid_of_sleeping_task s' = pid_of_sleeping_task s" "boot_flags s' = boot_flags s"
    "USEABLE_MEM_START s' = USEABLE_MEM_START s"
proof -
  from assms obtain s1 where a: "alloc_frame s s1" and s': "s' = s1\<lparr>snodes := snodes s', slists := slists s'\<rparr>"
    by (auto simp: list_frame_def)
  note A = alloc_frame_kernel [OF a] alloc_frame_sel [OF a]
  show "nodes s' = nodes s" "queues s' = queues s" "tcbs s' = tcbs s" "mem s' = mem s" "cpu s' = cpu s"
    "running_tasks s' = running_tasks s" "waiting_tasks s' = waiting_tasks s"
    "currently_running s' = currently_running s" "task_to_preserve s' = task_to_preserve s"
    "process_stats s' = process_stats s" "kernel_pids s' = kernel_pids s" "tInfo s' = tInfo s"
    "DEBUG s' = DEBUG s" "SYSTICK s' = SYSTICK s" "syms s' = syms s" "io s' = io s" "drv s' = drv s"
    "pid_of_sleeping_task s' = pid_of_sleeping_task s" "boot_flags s' = boot_flags s"
    "USEABLE_MEM_START s' = USEABLE_MEM_START s"
    by (subst s', simp add: A)+
qed

lemma alloc_room_cong:
  assumes "MEM_TABLE s' = MEM_TABLE s" "USEABLE_MEM_START s' = USEABLE_MEM_START s" "mutex s' = mutex s"
  shows "alloc_room s' k b = alloc_room s k b" "live s' = live s" "alloc_inv s' = alloc_inv s"
  using alloc_inv_cong [OF assms(1,2)] assms(3) by (simp_all add: alloc_room_def)

lemma single_list_push_ok:
  assumes l: "is_slist s l xs" "owns s (set xs)" "length xs + 1 < 2 ^ 32"
    and room: "alloc_room s (Suc k) (8 + b)"
  obtains p s' n where "single_list_push l d s = Inr s'" "is_slist s' l (xs @ [p])" "p \<notin> fst ` live s"
    "s_data (snodes s' p) = d" "\<forall>x. x \<noteq> p \<longrightarrow> s_data (snodes s' x) = s_data (snodes s x)"
    "\<forall>m. m \<noteq> l \<longrightarrow> slists s' m = slists s m" "\<forall>x. x \<notin> insert p (set xs) \<longrightarrow> snodes s' x = snodes s x"
    "list_frame s s'" "alloc_room s' k b" "live s' = insert (p, n) (live s)"
proof -
  have "alloc_room s (Suc k) (align_nat 8 (unat sizeof_SingleLinkedNode) + b)"
    using room by (simp add: align_nat_def)
  moreover have "0 < unat sizeof_SingleLinkedNode" "unat sizeof_SingleLinkedNode \<le> 32760" by simp_all
  ultimately obtain p s1 n where A: "allocate sizeof_SingleLinkedNode s = Inr (p, s1)"
    "p \<noteq> NULL" "alloc_frame s s1" "alloc_room s1 k b" "unat sizeof_SingleLinkedNode \<le> n"
    "p \<notin> fst ` live s" "live s1 = insert (p, n) (live s)"
    by (rule alloc_step)
  note K = alloc_frame_kernel [OF A(3)]
  have ln: "l \<noteq> NULL" and d: "distinct xs" and sz: "unat (l_size (slists s l)) = length xs"
    and ch: "xs \<noteq> [] \<longrightarrow> chain (snodes s) (l_head (slists s l)) xs" using l(1) by (simp_all add: is_slist_def)
  have px: "p \<notin> set xs" using A(6) l(2) by (auto simp: owns_def)
  let ?h = "(snodes s)(p := (snodes s p)\<lparr>s_next := NULL, s_data := d\<rparr>)"
  let ?s3 = "s1\<lparr>snodes := ?h\<rparr>"
  have z: "l_size (slists s l) = 0 \<longleftrightarrow> xs = []" using sz by (auto simp: unat_eq_zero [symmetric])
  have sz': "unat (l_size (slists s l) + 1) = length xs + 1" using sz l(3) by (simp add: unat_word_ariths)
  let ?h4 = "if xs = [] then ?h else ?h(last xs := (?h (last xs))\<lparr>s_next := p\<rparr>)"
  let ?L = "if xs = [] then (slists s l)\<lparr>l_head := p, l_size := l_size (slists s l) + 1\<rparr>
            else (slists s l)\<lparr>l_size := l_size (slists s l) + 1\<rparr>"
  let ?s' = "s1\<lparr>snodes := ?h4, slists := (slists s)(l := ?L)\<rparr>"
  have lx: "xs \<noteq> [] \<Longrightarrow> last xs \<noteq> NULL" using ch chain_append_nonnull last_in_set by blast
  have ch3: "xs \<noteq> [] \<Longrightarrow> chain ?h (l_head (slists s l)) xs"
    using ch px chain_cong [of xs "snodes s" ?h "l_head (slists s l)"] by fastforce
  have run: "single_list_push l d s = Inr ?s'"
  proof (cases "xs = []")
    case True
    with A(1,2) ln z K(4,5) show ?thesis
      by (simp add: single_list_push_def typed_access Let_def cong: bnd_weak_cong del: fun_upd_apply) (simp add: fun_upd_same)
  next
    case False
    have "list_end (l_head (slists s l)) ?s3 = Some (Inr (last xs))"
      using list_end_chain [of ?s3] ch3 [OF False] False by simp
    with A(1,2) ln z K(4,5) False lx show ?thesis
      by (simp add: single_list_push_def typed_access Let_def cong: bnd_weak_cong del: fun_upd_apply)
  qed
  have "chain ?h4 (l_head (slists ?s' l)) (xs @ [p])"
  proof (cases "xs = []")
    case True
    then show ?thesis using A(2) by simp
  next
    case False
    then show ?thesis using chain_snoc [OF ch3 [OF False] False d px A(2)] by simp
  qed
  then have "is_slist ?s' l (xs @ [p])" using ln d px sz' by (auto simp: is_slist_def simp del: fun_upd_apply) (auto)
  moreover have "list_frame s ?s'" using A(3) by (auto simp: list_frame_def)
  moreover have "alloc_room ?s' k b" "live ?s' = insert (p, n) (live s)"
    using A(4,7) alloc_room_cong [of ?s' s1] by simp_all
  ultimately show ?thesis
    using run A(6) px by (intro that [of ?s' p n]) auto
qed

lemma is_slist_cong:
  "slists s' l = slists s l \<Longrightarrow> (\<And>x. x \<in> set xs \<Longrightarrow> snodes s' x = snodes s x) \<Longrightarrow> is_slist s' l xs = is_slist s l xs"
  using chain_cong [of xs "snodes s'" "snodes s" "l_head (slists s l)"] by (simp add: is_slist_def)

lemma chain_unique: "chain h p xs \<Longrightarrow> chain h p ys \<Longrightarrow> xs = ys"
proof (induction xs arbitrary: p ys)
  case Nil
  then show ?case by (cases ys) auto
next
  case (Cons x xs)
  then show ?case by (cases ys) auto
qed

lemma is_slist_unique:
  assumes "is_slist s l xs" "is_slist s l ys"
  shows "xs = ys"
proof -
  have "length xs = length ys" using assms by (simp add: is_slist_def)
  then show ?thesis using assms chain_unique by (cases "xs = []") (auto simp: is_slist_def)
qed

lemma new_list_ok:
  assumes room: "alloc_room s (Suc k) (8 + b)"
  obtains l s' n where "new_list s = Inr (l, s')" "is_slist s' l []" "l \<notin> fst ` live s" "l \<noteq> NULL"
    "snodes s' = snodes s" "\<forall>m. m \<noteq> l \<longrightarrow> slists s' m = slists s m"
    "list_frame s s'" "alloc_room s' k b" "live s' = insert (l, n) (live s)"
proof -
  have "alloc_room s (Suc k) (align_nat 8 (unat sizeof_SList) + b)"
    using room by (simp add: align_nat_def)
  moreover have "0 < unat sizeof_SList" "unat sizeof_SList \<le> 32760" by simp_all
  ultimately obtain l s1 n where A: "allocate sizeof_SList s = Inr (l, s1)"
    "l \<noteq> NULL" "alloc_frame s s1" "alloc_room s1 k b" "unat sizeof_SList \<le> n"
    "l \<notin> fst ` live s" "live s1 = insert (l, n) (live s)"
    by (rule alloc_step)
  note K = alloc_frame_kernel [OF A(3)]
  let ?s' = "s1\<lparr>slists := (slists s1)(l := (slists s1 l)\<lparr>l_size := 0, l_head := NULL\<rparr>)\<rparr>"
  have "new_list s = Inr (l, ?s')" using A(1,2) by (simp add: new_list_def typed_access Let_def)
  moreover have "list_frame s ?s'" using A(3) by (auto simp: list_frame_def)
  moreover have "alloc_room ?s' k b" "live ?s' = insert (l, n) (live s)"
    using A(4,7) alloc_room_cong [of ?s' s1] by simp_all
  moreover have "is_slist ?s' l []" using A(2) by (simp add: is_slist_def)
  ultimately show ?thesis using A(2,6) K by (intro that [of l ?s' n]) auto
qed

lemma single_list_pop_ok:
  assumes "is_slist s l xs"
  shows "single_list_pop l s =
      (if xs = [] then Inr (NULL, s)
       else Inr (hd xs, s\<lparr>slists := (slists s)(l := (slists s l)\<lparr>l_head := s_next (snodes s (hd xs)),
                                                          l_size := l_size (slists s l) - 1\<rparr>)\<rparr>))"
    and "xs \<noteq> [] \<Longrightarrow> single_list_pop l s = Inr (p, s') \<Longrightarrow> p = hd xs \<and> is_slist s' l (tl xs)"
proof -
  have l: "l \<noteq> NULL" "distinct xs" "unat (l_size (slists s l)) = length xs"
    "xs \<noteq> [] \<longrightarrow> chain (snodes s) (l_head (slists s l)) xs" using assms by (simp_all add: is_slist_def)
  then have z: "l_size (slists s l) = 0 \<longleftrightarrow> xs = []" by (auto simp: unat_eq_zero [symmetric])
  have hd: "xs \<noteq> [] \<Longrightarrow> l_head (slists s l) = hd xs \<and> hd xs \<noteq> NULL" using l(4) by (cases xs) auto
  show run: "single_list_pop l s =
      (if xs = [] then Inr (NULL, s)
       else Inr (hd xs, s\<lparr>slists := (slists s)(l := (slists s l)\<lparr>l_head := s_next (snodes s (hd xs)),
                                                          l_size := l_size (slists s l) - 1\<rparr>)\<rparr>))"
    using l(1) z hd by (simp add: single_list_pop_def typed_access)
  show "p = hd xs \<and> is_slist s' l (tl xs)" if "xs \<noteq> []" "single_list_pop l s = Inr (p, s')"
  proof -
    from that(1) obtain x ys where xs: "xs = x # ys" by (cases xs) auto
    have "unat (l_size (slists s l) - 1) = length ys"
      using l(3) xs by (subst unat_minus_one) auto
    moreover have "chain (snodes s) (s_next (snodes s x)) ys" using l(4) xs by simp
    ultimately show ?thesis using that(2) run xs l(1,2) by (auto simp: is_slist_def)
  qed
qed

end
