(* ===== verification/Task.thy ===== *)
theory Task
  imports SList Memory_Ops Scheduler_Props
begin

text \<open>
  \<open>os/src/process/task.c\<close>: the initial stack frame of a task, and its creation.
\<close>

section \<open>Operations\<close>

abbreviation (input) STACK_SIZE :: u32 where "STACK_SIZE \<equiv> 1536"
abbreviation (input) THUMB_STATE :: u32 where "THUMB_STATE \<equiv> 0x1000000"

text \<open>Offsets in \<open>CpuRegister_t\<close>: r4 to r11 at 0, r0 to r3 at 32, r12 48, lr 52, pc 56, psr 60.\<close>

definition prepare_cpu_register :: "addr \<Rightarrow> u32 \<Rightarrow> addr \<Rightarrow> kernel \<Rightarrow> addr \<times> kernel" where
  "prepare_cpu_register address buffer_size task_function s =
     (let cpu_register = address + buffer_size - sizeof_CpuRegister in
      if cpu_register = NULL then (NULL, invoke_panic OUT_OF_MEMORY s)
      else
        let s1 = memset_byte cpu_register sizeof_CpuRegister 0 s;
            s2 = memset_byte address (STACK_SIZE - sizeof_CpuRegister) 0xA5 s1;
            s3 = s2\<lparr>mem := st32 (cpu_register + 60) THUMB_STATE (mem s2)\<rparr>;
            s4 = s3\<lparr>mem := st32 (cpu_register + 56) task_function (mem s3)\<rparr>;
            s5 = s4\<lparr>mem := st32 (cpu_register + 52) (finish_task_addr (syms s4)) (mem s4)\<rparr>
        in (cpu_register, s5))"

text \<open>Lines 71 to 96: the fields of the new block.  \<open>int\<close> fields take unsigned values unchanged.\<close>

definition fill_tcb :: "addr \<Rightarrow> u32 \<Rightarrow> addr \<Rightarrow> addr \<Rightarrow> kernel \<Rightarrow> kernel res" where
  "fill_tcb tcb ram_location task_stack_start_address cpu_register s =
     bnd (size_of_queue (running_tasks s) s) (\<lambda>rsz.
     bnd (size_of_queue (waiting_tasks s) s) (\<lambda>wsz.
     let p = ucast (rsz + wsz) :: u8 in
     bnd (upd_tcb tcb (\<lambda>t. t\<lparr>pid := p, tstate := (if p = 0 then WAITING else READY),
            stack_size := ucast STACK_SIZE, stacksection_lower_bound := task_stack_start_address\<rparr>) s) (\<lambda>s1.
     bnd (if ram_location \<noteq> 0
          then upd_tcb tcb (\<lambda>t. t\<lparr>is_external := True, codesection_lower_bound := ram_location,
                 codesection_upper_bound := ram_location + task_size (tInfo s1)\<rparr>) s1
          else upd_tcb tcb (\<lambda>t. t\<lparr>is_external := False, codesection_lower_bound := -1,
                 codesection_upper_bound := -1\<rparr>) s1) (\<lambda>s2.
     bnd (upd_tcb tcb (\<lambda>t. t\<lparr>sp := cpu_register, code_section := ram_location, join_pid := -1\<rparr>) s2) (\<lambda>s3.
     if currently_running s3 = NULL then upd_tcb tcb (\<lambda>t. t\<lparr>parent_task := NULL\<rparr>) s3
     else bnd (node_at (currently_running s3) s3) (\<lambda>n.
          upd_tcb tcb (\<lambda>t. t\<lparr>parent_task := tdata n\<rparr>) s3))))))"

text \<open>
  Lines 98 and 99: what is pushed is \<open>&tcb\<close>, the address of the local variable, not the block.
\<close>

definition register_child :: "addr \<Rightarrow> kernel \<Rightarrow> kernel res" where
  "register_child tcb_local s =
     (if currently_running s = NULL then Inr s
      else bnd (tcb_of (currently_running s) s) (\<lambda>t. single_list_push (child_tasks t) tcb_local s))"

text \<open>\<open>tcb_local\<close> is the address of the local variable \<open>tcb\<close>.\<close>

definition create_task :: "addr \<Rightarrow> u32 \<Rightarrow> addr \<Rightarrow> kernel \<Rightarrow> (i32 \<times> kernel) res" where
  "create_task task_function ram_location tcb_local s =
     (let s0 = (if SYSTICK s then ST_DISABLE s else s) in
      bnd (allocate (sizeof_CpuRegister + STACK_SIZE) s0) (\<lambda>(task_stack_start_address, s1).
      if task_stack_start_address = NULL then Inr (-1, invoke_panic OUT_OF_MEMORY s1)
      else
        let (cpu_register, s2) = prepare_cpu_register task_stack_start_address STACK_SIZE task_function s1 in
        if cpu_register = NULL then Inr (-1, s2)
        else
          bnd (allocate (sizeof_Tcb (DEBUG s2)) s2) (\<lambda>(tcb, s3).
          if tcb = NULL then Inr (-1, invoke_panic OUT_OF_MEMORY s3)
          else
            bnd (upd_tcb tcb (\<lambda>_. zero_Tcb) s3) (\<lambda>s4.
            bnd (fill_tcb tcb ram_location task_stack_start_address cpu_register s4) (\<lambda>s5.
            bnd (register_child tcb_local s5) (\<lambda>s6.
            bnd (new_list s6) (\<lambda>(l, s7).
            bnd (upd_tcb tcb (\<lambda>t. t\<lparr>child_tasks := l\<rparr>) s7) (\<lambda>s8.
            bnd (if DEBUG s8 \<noteq> 0
                 then upd_tcb tcb (\<lambda>t. t\<lparr>lifetime_info :=
                        \<lparr>voluntary_interrupts = 0, forced_interrupts = 0, cpu_time = 0\<rparr>\<rparr>) s8
                 else Inr s8) (\<lambda>s9.
            bnd (insert_scheduled_task tcb s9) (\<lambda>(r, s10).
            if r = -1 then Inr (-1, s10)
            else
              let s11 = (if SYSTICK s10 then ST_ENABLE s10 else s10) in
              bnd (tcb_at tcb s11) (\<lambda>t. Inr (ucast (pid t), s11))))))))))))"

section \<open>The frame\<close>

text \<open>What the first switch to the task finds at its stack pointer.\<close>

definition task_frame :: "(addr \<Rightarrow> u8) \<Rightarrow> addr \<Rightarrow> addr \<Rightarrow> addr \<Rightarrow> bool" where
  "task_frame m p fn ret \<longleftrightarrow>
     (\<forall>i<13. ld32 m (p + 4 * of_nat i) = 0) \<and> ld32 m (p + 52) = ret \<and>
     ld32 m (p + 56) = fn \<and> ld32 m (p + 60) = THUMB_STATE"

lemma ld32_st32_other:
  assumes "4 \<le> unat (b - a)" "unat (b - a) + 4 \<le> 2 ^ 32"
  shows "ld32 (st32 a v m) b = ld32 m b"
proof -
  have "unat (b - a + of_nat i) = unat (b - a) + i" if "i < 4" for i
    using assms(2) that by (simp add: unat_word_ariths unat_of_nat)
  then have "4 \<le> unat (b + of_nat i - a)" if "i < 4" for i
    using assms(1) that by (simp add: algebra_simps)
  then have o: "st32 a v m (b + of_nat i) = m (b + of_nat i)" if "i < 4" for i
    using that st32_other by blast
  show ?thesis using o [of 0] o [of 1] o [of 2] o [of 3] by (intro ld32_cong) simp_all
qed

lemma prepare_cpu_register_ok:
  assumes "address + STACK_SIZE - sizeof_CpuRegister \<noteq> NULL"
  obtains s' where
    "prepare_cpu_register address STACK_SIZE fn s = (address + 1472, s')" "s' = s\<lparr>mem := mem s'\<rparr>"
    "task_frame (mem s') (address + 1472) fn (finish_task_addr (syms s))"
    "\<forall>x. 1536 \<le> unat (x - address) \<longrightarrow> mem s' x = mem s x"
    "\<forall>x. unat (x - address) < 1472 \<longrightarrow> mem s' x = 0xA5"
proof -
  let ?p = "address + 1472"
  define m2 where "m2 = mem (memset_byte address 1472 0xA5 (memset_byte ?p 64 0 s))"
  define m5 where "m5 = st32 (?p + 52) (finish_task_addr (syms s)) (st32 (?p + 56) fn (st32 (?p + 60) THUMB_STATE m2))"
  have m2: "m2 x = (if unat (x - address) < 1472 then 0xA5 else if unat (x - ?p) < 64 then 0 else mem s x)" for x
    by (simp add: m2_def)
  have off: "unat (address + 1472 + of_nat i - address) = 1472 + i" "unat (?p + of_nat i - ?p) = i" if "i < 64" for i
    using that by (simp_all add: unat_word_ariths unat_of_nat)
  have z: "m2 (?p + of_nat i) = 0" if "i < 64" for i
    using off [OF that] that by (simp add: m2)
  have run: "prepare_cpu_register address STACK_SIZE fn s = (?p, s\<lparr>mem := m5\<rparr>)"
    using assms by (simp add: prepare_cpu_register_def Let_def m5_def m2_def memset_byte_def ac_simps)
  have far: "st32 (?p + of_nat i) v m x = m x"
    if "1536 \<le> unat (x - address) \<or> unat (x - address) < 1472" "i \<le> 60" for i v m x
  proof (rule st32_other)
    define d :: u32 where "d = of_nat (1472 + i)"
    have e: "x - (?p + of_nat i) = x - address - d" by (simp add: d_def algebra_simps)
    have u: "unat d = 1472 + i" unfolding d_def using that(2) by (simp add: unat_word_ariths unat_of_nat)
    have "unat (x - address - d) = (if d \<le> x - address then unat (x - address) - unat d
        else unat (x - address) + 2 ^ 32 - unat d)"
      using unat_sub_if' [of "x - address" d] by (simp only: word_le_nat_alt) simp
    moreover have "d \<le> x - address \<longleftrightarrow> unat d \<le> unat (x - address)" by (rule word_le_nat_alt)
    ultimately show "4 \<le> unat (x - (?p + of_nat i))"
      using that unfolding e u by (auto split: if_splits)
  qed
  have far': "m5 x = m2 x" if "1536 \<le> unat (x - address) \<or> unat (x - address) < 1472" for x
    using far [OF that, of 52] far [OF that, of 56] far [OF that, of 60] by (simp add: m5_def)
  have near: "unat (?p + of_nat j - (?p + of_nat i)) = (if i \<le> j then j - i else 2 ^ 32 + j - i)"
    if "i \<le> 64" "j \<le> 64" for i j
    using that by (auto simp: unat_sub_if' unat_of_nat)
  have ld: "ld32 (st32 (?p + of_nat i) v m) (?p + of_nat j) = ld32 m (?p + of_nat j)"
    if "i \<le> 60" "j \<le> 60" "i + 4 \<le> j \<or> j + 4 \<le> i" for i j v m
    using near [of i j] that by (intro ld32_st32_other) auto
  have frame: "task_frame m5 ?p fn (finish_task_addr (syms s))"
    unfolding task_frame_def
  proof (intro conjI allI impI)
    fix i :: nat assume i: "i < 13"
    have "ld32 m2 (?p + of_nat (4 * i)) = 0"
    proof (intro ld32_zero allI impI)
      fix k :: nat assume "k < 4"
      then show "m2 (?p + of_nat (4 * i) + of_nat k) = 0"
        using z [of "4 * i + k"] i by (simp add: add.assoc)
    qed
    moreover have "ld32 m5 (?p + of_nat (4 * i)) = ld32 m2 (?p + of_nat (4 * i))"
      using ld [of 52 "4 * i"] ld [of 56 "4 * i"] ld [of 60 "4 * i"] i by (simp add: m5_def)
    ultimately show "ld32 m5 (?p + 4 * of_nat i) = 0" by simp
  next
    show "ld32 m5 (?p + 52) = finish_task_addr (syms s)" by (simp add: m5_def)
    show "ld32 m5 (?p + 56) = fn" using ld [of 52 56] by (simp add: m5_def)
    show "ld32 m5 (?p + 60) = THUMB_STATE" using ld [of 52 60] ld [of 56 60] by (simp add: m5_def)
  qed
  have out: "m5 x = mem s x" if u: "1536 \<le> unat (x - address)" for x
  proof -
    have "unat (x - ?p) = unat (x - address) - 1472"
    proof -
      have "(1472 :: u32) \<le> x - address" using u by (simp add: word_le_nat_alt)
      then have "unat (x - address - 1472) = unat (x - address) - 1472" by (simp add: unat_sub)
      then show ?thesis by (simp add: algebra_simps)
    qed
    then have "\<not> unat (x - ?p) < 64" using u by linarith
    then show ?thesis using far' [of x] m2 [of x] u by simp
  qed
  show ?thesis
    using frame out far' by (intro that [OF run]) (simp_all add: m2)
qed

section \<open>Creation\<close>

text \<open>The contents of the block of a new task.\<close>

definition new_tcb :: "u8 \<Rightarrow> u32 \<Rightarrow> u32 \<Rightarrow> addr \<Rightarrow> addr \<Rightarrow> addr \<Rightarrow> Tcb" where
  "new_tcb p ram tsize stk parent children = zero_Tcb\<lparr>pid := p, tstate := (if p = 0 then WAITING else READY),
     is_external := (ram \<noteq> 0), stack_size := 1536, sp := stk + 1472,
     codesection_lower_bound := (if ram \<noteq> 0 then ram else -1),
     codesection_upper_bound := (if ram \<noteq> 0 then ram + tsize else -1),
     stacksection_lower_bound := stk, code_section := ram, join_pid := -1, parent_task := parent,
     child_tasks := children\<rparr>"

lemma new_tcb_sel [simp]:
  "pid (new_tcb p ram tsize stk parent children) = p"
  "tstate (new_tcb p ram tsize stk parent children) = (if p = 0 then WAITING else READY)"
  "sp (new_tcb p ram tsize stk parent children) = stk + 1472"
  "parent_task (new_tcb p ram tsize stk parent children) = parent"
  "child_tasks (new_tcb p ram tsize stk parent children) = children"
  "stacksection_lower_bound (new_tcb p ram tsize stk parent children) = stk"
  "is_external (new_tcb p ram tsize stk parent children) = (ram \<noteq> 0)"
  "code_section (new_tcb p ram tsize stk parent children) = ram"
  by (simp_all add: new_tcb_def)

lemma new_tcb_child:
  "(new_tcb p ram tsize stk parent c)\<lparr>child_tasks := l\<rparr> = new_tcb p ram tsize stk parent l"
  by (simp add: new_tcb_def)

definition parent_of_new :: "kernel \<Rightarrow> addr" where
  "parent_of_new s = (if currently_running s = NULL then NULL else tdata (nodes s (currently_running s)))"

lemma fill_tcb_ok:
  assumes "is_queue s (running_tasks s) R" "is_queue s (waiting_tasks s) W" "tcb \<noteq> NULL" "tcbs s tcb = zero_Tcb"
  shows "fill_tcb tcb ram stk (stk + 1472) s =
    Inr (s\<lparr>tcbs := (tcbs s)(tcb := new_tcb (of_nat (length R + length W)) ram (task_size (tInfo s)) stk (parent_of_new s) NULL)\<rparr>)"
proof -
  have "q_size (queues s (running_tasks s)) = of_nat (length R)" "q_size (queues s (waiting_tasks s)) = of_nat (length W)"
    using assms(1,2) unfolding is_queue_def by (metis of_nat_unat ucast_id)+
  moreover have "(ucast (of_nat n :: u32) :: u8) = of_nat n" for n
    by (rule bit_word_eqI) (simp add: bit_simps)
  ultimately show ?thesis
    using assms queue_size [OF assms(1)] queue_size [OF assms(2)]
    by (simp add: fill_tcb_def typed_access Let_def new_tcb_def zero_Tcb_def parent_of_new_def
        flip: of_nat_add)
qed

text \<open>What \<open>create_task\<close> needs of the running task: a child list it can extend.\<close>

definition can_register :: "kernel \<Rightarrow> bool" where
  "can_register s \<longleftrightarrow>
     (currently_running s \<noteq> NULL \<longrightarrow>
        tdata (nodes s (currently_running s)) \<noteq> NULL \<and>
        (\<exists>xs. is_slist s (child_tasks (task s (currently_running s))) xs \<and> owns s (set xs) \<and>
              length xs + 1 < 2 ^ 32))"

lemma list_frame_refl: "list_frame s s"
  unfolding list_frame_def by (rule exI [of _ s]) (simp add: alloc_frame_def)

lemma alloc_room_mono: "alloc_room s k b \<Longrightarrow> j \<le> k \<Longrightarrow> a \<le> b \<Longrightarrow> alloc_room s j a"
  by (simp add: alloc_room_def)

text \<open>
  What happens to the lists of children: the list of the running task, if there is one, gets a new
  node that is none of the addresses \<open>A\<close>; every list but that one and \<open>l\<close> is as before.
\<close>

abbreviation child_list :: "kernel \<Rightarrow> addr" where
  "child_list s \<equiv> child_tasks (task s (currently_running s))"

definition child_added :: "kernel \<Rightarrow> kernel \<Rightarrow> addr \<Rightarrow> addr set \<Rightarrow> bool" where
  "child_added s s' l A \<longleftrightarrow>
     (if currently_running s = NULL then (\<forall>m. m \<noteq> l \<longrightarrow> slists s' m = slists s m) \<and> snodes s' = snodes s
      else child_list s \<in> fst ` live s \<longrightarrow>
        (\<exists>xs p. is_slist s (child_list s) xs \<and> is_slist s' (child_list s) (xs @ [p]) \<and>
           p \<notin> fst ` live s \<union> A \<and> p \<in> fst ` live s' \<and>
           (\<forall>m. m \<noteq> l \<and> m \<noteq> child_list s \<longrightarrow> slists s' m = slists s m) \<and>
           (\<forall>x. x \<notin> insert p (set xs) \<longrightarrow> snodes s' x = snodes s x)))"

lemma register_child_ok:
  assumes "can_register s" "alloc_room s (Suc k) (8 + b)"
  obtains s' where "register_child a s = Inr s'" "list_frame s s'" "alloc_room s' k b" "live s \<subseteq> live s'"
    "\<forall>l. child_added s s' l {}"
proof (cases "currently_running s = NULL")
  case True
  then show ?thesis
    using assms(2) by (intro that [of s]) (auto simp: register_child_def list_frame_refl child_added_def elim: alloc_room_mono)
next
  case False
  with assms(1) obtain xs where l: "is_slist s (child_list s) xs" "owns s (set xs)"
    "length xs + 1 < 2 ^ 32" and d: "tdata (nodes s (currently_running s)) \<noteq> NULL"
    by (auto simp: can_register_def)
  from l assms(2) obtain p s' n where P:
    "single_list_push (child_list s) a s = Inr s'" "is_slist s' (child_list s) (xs @ [p])" "p \<notin> fst ` live s"
    "\<forall>m. m \<noteq> child_list s \<longrightarrow> slists s' m = slists s m" "\<forall>x. x \<notin> insert p (set xs) \<longrightarrow> snodes s' x = snodes s x"
    "list_frame s s'" "alloc_room s' k b" "live s' = insert (p, n) (live s)" by (rule single_list_push_ok)
  have "\<forall>l. child_added s s' l {}"
    unfolding child_added_def if_not_P [OF False] using l(1) P by (intro allI impI exI [of _ xs] exI [of _ p]) auto
  then show ?thesis
    using False d P by (intro that [of s']) (auto simp: register_child_def tcb_of_task)
qed

lemma child_added_new_list:
  assumes "\<forall>l. child_added s s1 l {}" "live s \<subseteq> live s1" "l \<notin> fst ` live s1" "live s1 \<subseteq> live s2"
    "snodes s2 = snodes s1" "\<forall>m. m \<noteq> l \<longrightarrow> slists s2 m = slists s1 m"
  shows "child_added s s2 l {l}"
proof (cases "currently_running s = NULL")
  case True
  then show ?thesis using assms(1,5,6) by (auto simp: child_added_def)
next
  case False
  have "\<exists>xs p. is_slist s (child_list s) xs \<and> is_slist s2 (child_list s) (xs @ [p]) \<and>
           p \<notin> fst ` live s \<union> {l} \<and> p \<in> fst ` live s2 \<and>
           (\<forall>m. m \<noteq> l \<and> m \<noteq> child_list s \<longrightarrow> slists s2 m = slists s m) \<and>
           (\<forall>x. x \<notin> insert p (set xs) \<longrightarrow> snodes s2 x = snodes s x)" if c: "child_list s \<in> fst ` live s"
  proof -
    have "child_added s s1 l {}" using assms(1) by blast
    with c False obtain xs p where P: "is_slist s (child_list s) xs" "is_slist s1 (child_list s) (xs @ [p])"
      "p \<notin> fst ` live s" "p \<in> fst ` live s1" "\<forall>m. m \<noteq> l \<and> m \<noteq> child_list s \<longrightarrow> slists s1 m = slists s m"
      "\<forall>x. x \<notin> insert p (set xs) \<longrightarrow> snodes s1 x = snodes s x"
      unfolding child_added_def if_not_P [OF False] by auto
    have "child_list s \<noteq> l" using c assms(2,3) by auto
    then have "is_slist s2 (child_list s) (xs @ [p]) = is_slist s1 (child_list s) (xs @ [p])"
      using assms(5,6) by (intro is_slist_cong) simp_all
    then show ?thesis using P assms(3-6) by (intro exI [of _ xs] exI [of _ p]) auto
  qed
  then show ?thesis unfolding child_added_def if_not_P [OF False] by blast
qed

lemma child_added_frame:
  assumes "child_added s1 s2 l A" "currently_running s1 = currently_running s"
    "currently_running s \<noteq> NULL \<longrightarrow> task s1 (currently_running s) = task s (currently_running s)"
    "slists s1 = slists s" "snodes s1 = snodes s" "live s \<subseteq> live s1"
    "slists s3 = slists s2" "snodes s3 = snodes s2" "live s2 \<subseteq> live s3" "B \<inter> fst ` live s2 \<subseteq> A \<union> fst ` live s1"
  shows "child_added s s3 l B"
proof (cases "currently_running s = NULL")
  case True
  then show ?thesis using assms by (simp add: child_added_def)
next
  case False
  have c: "child_list s1 = child_list s" "child_tasks (task s1 (currently_running s)) = child_list s"
    using assms(2,3) False by simp_all
  have sl: "is_slist s1 a xs = is_slist s a xs" "is_slist s3 a xs = is_slist s2 a xs" for a xs
    using assms(4,5,7,8) by (simp_all add: is_slist_def)
  have "\<exists>xs p. is_slist s (child_list s) xs \<and> is_slist s3 (child_list s) (xs @ [p]) \<and>
           p \<notin> fst ` live s \<union> B \<and> p \<in> fst ` live s3 \<and>
           (\<forall>m. m \<noteq> l \<and> m \<noteq> child_list s \<longrightarrow> slists s3 m = slists s m) \<and>
           (\<forall>x. x \<notin> insert p (set xs) \<longrightarrow> snodes s3 x = snodes s x)" if "child_list s \<in> fst ` live s"
  proof -
    have "child_list s1 \<in> fst ` live s1" using that assms(6) c(1) by auto
    with assms(1) False obtain xs p where "is_slist s1 (child_list s) xs" "is_slist s2 (child_list s) (xs @ [p])"
      "p \<notin> fst ` live s1 \<union> A" "p \<in> fst ` live s2" "\<forall>m. m \<noteq> l \<and> m \<noteq> child_list s \<longrightarrow> slists s2 m = slists s1 m"
      "\<forall>x. x \<notin> insert p (set xs) \<longrightarrow> snodes s2 x = snodes s1 x"
      unfolding child_added_def assms(2) c(2) by auto
    then show ?thesis using assms(4-10) sl by (intro exI [of _ xs] exI [of _ p]) auto
  qed
  then show ?thesis unfolding child_added_def if_not_P [OF False] by blast
qed

lemma enqueue_room:
  assumes "is_queue s q xs" "owns s (set xs)" "length xs + 1 < 2 ^ 32" "alloc_room s (Suc k) (16 + b)"
  obtains p s' n where "enqueue_element q data s = Inr (1, s')" "p \<notin> fst ` live s" "p \<noteq> NULL"
      "is_queue s' q (xs @ [p])" "tdata (nodes s' p) = data"
      "\<exists>s1. alloc_frame s s1 \<and> s' = s1\<lparr>nodes := nodes s', queues := queues s'\<rparr>"
      "\<forall>n. n \<notin> insert p (set xs) \<longrightarrow> nodes s' n = nodes s n"
      "\<forall>n. n \<noteq> p \<longrightarrow> tdata (nodes s' n) = tdata (nodes s n)"
      "\<forall>p. p \<noteq> q \<longrightarrow> queues s' p = queues s p" "live s' = insert (p, n) (live s)" "alloc_room s' k b"
proof -
  have "alloc_room s (Suc k) (align_nat 8 (unat sizeof_Node) + b)"
    using assms(4) by (simp add: align_nat_def)
  moreover have "0 < unat sizeof_Node" "unat sizeof_Node \<le> 32760" by simp_all
  ultimately obtain p1 s1 where A: "allocate sizeof_Node s = Inr (p1, s1)" "p1 \<noteq> NULL" "alloc_room s1 k b"
    by (rule alloc_step)
  have same: "alloc_room s' k b" if "enqueue_element q data s = Inr (1, s')" for s'
  proof -
    have "MEM_TABLE s' = MEM_TABLE s1" "USEABLE_MEM_START s' = USEABLE_MEM_START s1" "mutex s' = mutex s1"
      using that A(1,2) by (auto simp: enqueue_element_def typed_access bnd_eq_Inr split: if_splits)
    then show ?thesis using A(3) alloc_room_cong(1) [of s' s1] by simp
  qed
  have ne: "enqueue_element q data s \<noteq> Inr (-1, t)" for t
    using A by (auto simp: enqueue_element_def bnd_eq_Inr)
  have pre: "alloc_inv s" "mutex s \<noteq> 1" "table_room sizeof_Node s"
    using assms(4) by (auto simp: alloc_room_def align_nat_def)
  from assms(1-3) pre show ?thesis
  proof (cases rule: enqueue_element_ok [where data = data])
    case (ok p s' k)
    then show ?thesis using same [OF ok(1)] by (intro that [of s' p k]) simp_all
  next
    case (full s1)
    with ne show ?thesis by blast
  qed
qed

text \<open>The two chunks of a new task: its stack, with the initial frame, and its control block.\<close>

lemma task_memory:
  assumes "alloc_room s (Suc (Suc k)) (1656 + b)"
  obtains stk s1 s2 t s3 where
    "allocate 1600 s = Inr (stk, s1)" "stk \<noteq> NULL" "stk + 1472 \<noteq> NULL"
    "prepare_cpu_register stk STACK_SIZE fn s1 = (stk + 1472, s2)"
    "allocate (sizeof_Tcb (DEBUG s2)) s2 = Inr (t, s3)" "t \<noteq> NULL" "t \<notin> fst ` live s" "stk \<notin> fst ` live s"
    "live s \<subseteq> live s3" "t \<in> fst ` live s3" "stk \<in> fst ` live s3" "alloc_room s3 k b"
    "alloc_frame (s\<lparr>mem := mem s3\<rparr>) s3"
    "task_frame (mem s3) (stk + 1472) fn (finish_task_addr (syms s))"
    "\<forall>x. 1536 \<le> unat (x - stk) \<longrightarrow> mem s3 x = mem s x" "\<exists>k\<ge>1600. (stk, k) \<in> live s3"
proof -
  have "alloc_room s (Suc (Suc k)) (align_nat 8 (unat (1600 :: u32)) + (56 + b))"
    using assms by (simp add: align_nat_def)
  moreover have "0 < unat (1600 :: u32)" "unat (1600 :: u32) \<le> 32760" by simp_all
  ultimately obtain stk s1 n where A: "allocate 1600 s = Inr (stk, s1)" "stk \<noteq> NULL" "alloc_frame s s1"
    "alloc_room s1 (Suc k) (56 + b)" "unat (1600 :: u32) \<le> n" "stk \<notin> fst ` live s" "live s1 = insert (stk, n) (live s)"
    by (rule alloc_step)
  have inv: "alloc_inv s1" "total_len (used_entries s1) \<le> 65536" using A(4) by (simp_all add: alloc_room_def)
  have "unat stk + 1600 \<le> 2 ^ 32"
    using live_below_total [OF inv(1), of stk n] inv(2) alloc_inv_base(3) [OF inv(1)] A(5,7) by simp
  then have ne: "stk + 1472 \<noteq> NULL" by (simp add: unat_eq_zero [symmetric] unat_word_ariths)
  then have ne': "stk + STACK_SIZE - sizeof_CpuRegister \<noteq> NULL" by (simp add: add.commute)
  from ne' obtain s2 where P: "prepare_cpu_register stk STACK_SIZE fn s1 = (stk + 1472, s2)" "s2 = s1\<lparr>mem := mem s2\<rparr>"
    "task_frame (mem s2) (stk + 1472) fn (finish_task_addr (syms s1))"
    "\<forall>x. 1536 \<le> unat (x - stk) \<longrightarrow> mem s2 x = mem s1 x"
    by (rule prepare_cpu_register_ok)
  have c2: "MEM_TABLE s2 = MEM_TABLE s1" "USEABLE_MEM_START s2 = USEABLE_MEM_START s1" "mutex s2 = mutex s1"
    by (subst P(2), simp)+
  note C2 = alloc_room_cong [OF c2]
  have sz: "0 < unat (sizeof_Tcb (DEBUG s2))" "unat (sizeof_Tcb (DEBUG s2)) \<le> 32760"
    "align_nat 8 (unat (sizeof_Tcb (DEBUG s2))) \<le> 56"
    by (simp_all add: sizeof_Tcb_def align_nat_def)
  have "alloc_room s2 (Suc k) (align_nat 8 (unat (sizeof_Tcb (DEBUG s2))) + b)"
    using alloc_room_mono [OF A(4)] sz(3) unfolding C2(1) by simp
  from this sz(1,2) obtain t s3 m where B: "allocate (sizeof_Tcb (DEBUG s2)) s2 = Inr (t, s3)" "t \<noteq> NULL"
    "alloc_frame s2 s3" "alloc_room s3 k b" "unat (sizeof_Tcb (DEBUG s2)) \<le> m" "t \<notin> fst ` live s2"
    "live s3 = insert (t, m) (live s2)" by (rule alloc_step)
  have m3: "mem s3 = mem s2" by (rule alloc_frame_kernel(6) [OF B(3)])
  have "alloc_frame (s\<lparr>mem := mem s3\<rparr>) s3"
    using A(3) B(3) P(2) unfolding m3 by (cases s; cases s1; cases s2; cases s3) (simp add: alloc_frame_def)
  moreover have "(stk, n) \<in> live s3" "1600 \<le> n" using A(5,7) B(7) C2(2) by simp_all
  then have "\<exists>k\<ge>1600. (stk, k) \<in> live s3" by blast
  ultimately show ?thesis
    using A(1,2,6,7) ne P(1,3,4) B(1,2,4,6,7) alloc_frame_kernel(6,18) [OF A(3)] m3 unfolding C2(2)
    by (intro that [of stk s1 s2 t s3]) (simp_all, auto)
qed

lemma insert_scheduled_task_ok:
  assumes ok: "sched_ok s R W" and own: "owns s (set R \<union> set W)"
    and len: "length R + length W + 1 < 2 ^ 32 - 1" and room: "alloc_room s (Suc k) (16 + b)"
    and t: "t \<noteq> NULL" "tstate (tcbs s t) = READY \<or> tstate (tcbs s t) = WAITING"
      "t \<notin> (\<lambda>n. tdata (nodes s n)) ` (set R \<union> set W)"
  obtains n s' where "insert_scheduled_task t s = Inr (1, s')" "tdata (nodes s' n) = t"
    "sched_ok s' (if tstate (tcbs s t) = READY then R @ [n] else R) (if tstate (tcbs s t) = READY then W else W @ [n])"
    "n \<notin> fst ` live s" "n \<in> fst ` live s'" "live s \<subseteq> live s'"
    "\<exists>s1. alloc_frame s s1 \<and> s' = s1\<lparr>nodes := nodes s', queues := queues s'\<rparr>"
    "\<forall>m. m \<noteq> n \<longrightarrow> tdata (nodes s' m) = tdata (nodes s m)" "alloc_room s' k b"
proof -
  note D = sched_okD [OF ok]
  define rdy where "rdy \<longleftrightarrow> tstate (tcbs s t) = READY"
  define q where "q = (if rdy then running_tasks s else waiting_tasks s)"
  define q' where "q' = (if rdy then waiting_tasks s else running_tasks s)"
  define L where "L = (if rdy then R else W)"
  define L' where "L' = (if rdy then W else R)"
  have Q: "is_queue s q L" "is_queue s q' L'" "q \<noteq> q'" "owns s (set L)" "length L + 1 < 2 ^ 32"
    "set L \<union> set L' = set R \<union> set W" "set L \<inter> set L' = {}"
    using D(1-4) own len by (auto simp: q_def q'_def L_def L'_def owns_def)
  from Q(1,4,5) room obtain n s' j where E: "enqueue_element q t s = Inr (1, s')" "n \<notin> fst ` live s" "n \<noteq> NULL"
      "is_queue s' q (L @ [n])" "tdata (nodes s' n) = t"
      "\<exists>s1. alloc_frame s s1 \<and> s' = s1\<lparr>nodes := nodes s', queues := queues s'\<rparr>"
      "\<forall>m. m \<notin> insert n (set L) \<longrightarrow> nodes s' m = nodes s m"
      "\<forall>m. m \<noteq> n \<longrightarrow> tdata (nodes s' m) = tdata (nodes s m)"
      "\<forall>p. p \<noteq> q \<longrightarrow> queues s' p = queues s p" "live s' = insert (n, j) (live s)" "alloc_room s' k b"
    by (rule enqueue_room)
  from E(6) obtain s1 where F: "alloc_frame s s1" "s' = s1\<lparr>nodes := nodes s', queues := queues s'\<rparr>" by blast
  have G: "tcbs s' = tcbs s" "running_tasks s' = running_tasks s" "waiting_tasks s' = waiting_tasks s"
    by (subst F(2), simp add: alloc_frame_kernel [OF F(1)])+
  have nU: "n \<notin> set R \<union> set W" using E(2) own by (auto simp: owns_def)
  have tk: "task s' m = task s m" if "m \<noteq> n" for m using E(8) G(1) that by (simp add: task_def)
  have tk': "\<forall>m\<in>set R \<union> set W. task s' m = task s m" using tk nU by metis
  have tn: "task s' n = tcbs s t" using E(5) G(1) by (simp add: task_def)
  have "is_queue s' q' L' = is_queue s q' L'"
  proof (rule is_queue_cong)
    show "queues s' q' = queues s q'" using E(9) Q(3) by simp
    fix x assume "x \<in> set L'"
    then have "x \<notin> insert n (set L)" using Q(6,7) nU by auto
    then show "nxt (nodes s' x) = nxt (nodes s x) \<and> prv (nodes s' x) = prv (nodes s x)" using E(7) by simp
  qed
  with Q(2) have Q': "is_queue s' q' L'" by simp
  have inj: "inj_on (\<lambda>m. tdata (nodes s' m)) (insert n (set R \<union> set W))"
  proof -
    have "inj_on (\<lambda>m. tdata (nodes s' m)) (set R \<union> set W)"
      using D(6) E(8) nU by (subst inj_on_cong [where g = "\<lambda>m. tdata (nodes s m)"]) auto
    moreover have "t \<notin> (\<lambda>m. tdata (nodes s' m)) ` (set R \<union> set W)"
      using t(3) E(8) nU by (metis (no_types, lifting) image_cong)
    ultimately show ?thesis using E(5) nU by (simp add: insert_absorb)
  qed
  have nz: "\<forall>m\<in>insert n (set R \<union> set W). tdata (nodes s' m) \<noteq> NULL"
    using D(5) E(5,8) t(1) by (metis insert_iff)
  let ?R = "if rdy then R @ [n] else R"
  let ?W = "if rdy then W else W @ [n]"
  have U: "set ?R \<union> set ?W = insert n (set R \<union> set W)" by auto
  have "sched_ok s' ?R ?W"
    unfolding sched_ok_def U G
  proof (intro conjI)
    show "is_queue s' (running_tasks s) ?R" "is_queue s' (waiting_tasks s) ?W"
      using E(4) Q' by (auto simp: q_def q'_def L_def L'_def)
    show "set ?R \<inter> set ?W = {}" using D(4) nU by auto
    show "\<forall>m\<in>set ?R. tstate (task s' m) \<noteq> WAITING" "\<forall>m\<in>set ?W. tstate (task s' m) \<noteq> READY"
      using D(7,8) tk' tn t(2) by (auto simp: rdy_def)
    show "length ?R + length ?W < 2 ^ 32 - 1" using len by auto
  qed (use D(3) nz inj in simp_all)
  moreover have "insert_scheduled_task t s = Inr (1, s')"
    using t(1,2) E(1) by (auto simp: insert_scheduled_task_def tcb_at_def q_def rdy_def)
  ultimately show ?thesis
    using E(2,5,6,8,10,11) by (intro that [of s' n]) (auto simp: rdy_def)
qed

text \<open>What no step of the creation touches.\<close>

definition rest_of :: "kernel \<Rightarrow> driver_globals \<times> Cpu \<times> Symbols \<times> IoState \<times> bool \<times> nat \<times> ProcessStats \<times> KernelPids \<times> addr \<times> addr" where
  "rest_of s = (drv s, cpu s, syms s, io s, SYSTICK s, DEBUG s, process_stats s, kernel_pids s, USEABLE_MEM_START s,
    task_to_preserve s)"

lemma rest_of_alloc: "alloc_frame s s' \<Longrightarrow> rest_of s' = rest_of s"
  using alloc_frame_kernel [of s s'] alloc_frame_sel [of s s'] by (simp add: rest_of_def)

lemma rest_of_list: "list_frame s s' \<Longrightarrow> rest_of s' = rest_of s"
  using list_frame_sel [of s s'] by (simp add: rest_of_def)

lemma rest_of_upd [simp]:
  "rest_of (s\<lparr>mem := m\<rparr>) = rest_of s" "rest_of (s\<lparr>tcbs := t\<rparr>) = rest_of s"
  "rest_of (s\<lparr>nodes := h, queues := q\<rparr>) = rest_of s"
  by (simp_all add: rest_of_def)

text \<open>
  A stage of the creation: the control block at \<open>t\<close> is \<open>T\<close>, chunks may have been handed out and
  stack memory written; queues, tasks and everything else are as at the start.
\<close>

definition staged :: "kernel \<Rightarrow> addr \<Rightarrow> Tcb \<Rightarrow> kernel \<Rightarrow> bool" where
  "staged s t T s' \<longleftrightarrow>
     same_queues s s' \<and> currently_running s' = currently_running s \<and>
     tcbs s' = (tcbs s)(t := T) \<and> live s \<subseteq> live s' \<and> rest_of s' = rest_of s"

lemma staged_sel:
  assumes "staged s t T s'"
  shows "nodes s' = nodes s" "queues s' = queues s" "running_tasks s' = running_tasks s"
    "waiting_tasks s' = waiting_tasks s" "currently_running s' = currently_running s"
    "tcbs s' = (tcbs s)(t := T)" "live s \<subseteq> live s'" "rest_of s' = rest_of s"
  using assms by (simp_all add: staged_def same_queues_def)

lemma staged_task: "staged s t T s' \<Longrightarrow> tdata (nodes s m) \<noteq> t \<Longrightarrow> task s' m = task s m"
  by (simp add: staged_def same_queues_def task_def)

lemma staged_sched:
  assumes "sched_ok s R W" "staged s t T s'" "t \<notin> (\<lambda>n. tdata (nodes s n)) ` (set R \<union> set W)"
  shows "sched_ok s' R W"
proof -
  have "task s' m = task s m" if "m \<in> set R \<union> set W" for m
    using staged_task [OF assms(2), of m] assms(3) that by auto
  then show ?thesis
    using assms(2) sched_okD(7,8) [OF assms(1)] by (intro sched_ok_same [OF assms(1)]) (auto simp: staged_def)
qed

lemma tcbs_alloc [simp]: "live (s\<lparr>tcbs := f\<rparr>) = live s" "alloc_room (s\<lparr>tcbs := f\<rparr>) k b = alloc_room s k b" for s :: kernel
  using alloc_room_cong [of "s\<lparr>tcbs := f\<rparr>" s] by simp_all

text \<open>Stack and control block: up to the call of \<open>register_child\<close>.\<close>

lemma control_block_ok:
  fixes ram :: u32
  assumes q: "is_queue s (running_tasks s) R" "is_queue s (waiting_tasks s) W"
    and room: "alloc_room s (Suc (Suc k)) (1656 + b)"
  defines "T \<equiv> new_tcb (of_nat (length R + length W)) ram (task_size (tInfo s))"
  obtains stk t s1 s2 s3 s5 where
    "allocate 1600 s = Inr (stk, s1)" "stk \<noteq> NULL" "stk + 1472 \<noteq> NULL"
    "prepare_cpu_register stk STACK_SIZE fn s1 = (stk + 1472, s2)"
    "allocate (sizeof_Tcb (DEBUG s2)) s2 = Inr (t, s3)" "t \<noteq> NULL" "t \<notin> fst ` live s" "stk \<notin> fst ` live s"
    "fill_tcb t ram stk (stk + 1472) (s3\<lparr>tcbs := (tcbs s3)(t := zero_Tcb)\<rparr>) = Inr s5"
    "staged s t (T stk (parent_of_new s) NULL) s5" "slists s5 = slists s" "snodes s5 = snodes s"
    "{t, stk} \<subseteq> fst ` live s5" "alloc_room s5 k b"
    "task_frame (mem s5) (stk + 1472) fn (finish_task_addr (syms s))"
    "\<forall>x. 1536 \<le> unat (x - stk) \<longrightarrow> mem s5 x = mem s x" "\<exists>k\<ge>1600. (stk, k) \<in> live s5"
proof -
  from room obtain stk s1 s2 t s3 where M:
    "allocate 1600 s = Inr (stk, s1)" "stk \<noteq> NULL" "stk + 1472 \<noteq> NULL"
    "prepare_cpu_register stk STACK_SIZE fn s1 = (stk + 1472, s2)"
    "allocate (sizeof_Tcb (DEBUG s2)) s2 = Inr (t, s3)" "t \<noteq> NULL" "t \<notin> fst ` live s" "stk \<notin> fst ` live s"
    "live s \<subseteq> live s3" "t \<in> fst ` live s3" "stk \<in> fst ` live s3" "alloc_room s3 k b"
    "alloc_frame (s\<lparr>mem := mem s3\<rparr>) s3"
    "task_frame (mem s3) (stk + 1472) fn (finish_task_addr (syms s))"
    "\<forall>x. 1536 \<le> unat (x - stk) \<longrightarrow> mem s3 x = mem s x" "\<exists>k\<ge>1600. (stk, k) \<in> live s3"
    by (rule task_memory)
  note K3 = alloc_frame_kernel [OF M(13), simplified]
  define s5 where "s5 = s3\<lparr>tcbs := (tcbs s3)(t := T stk (parent_of_new s) NULL)\<rparr>"
  have "rest_of s5 = rest_of (s\<lparr>mem := mem s3\<rparr>)"
    unfolding s5_def rest_of_upd(2) by (rule rest_of_alloc [OF M(13)])
  then have st: "staged s t (T stk (parent_of_new s) NULL) s5"
    using K3 M(9) by (simp add: staged_def same_queues_def s5_def)
  let ?s4 = "s3\<lparr>tcbs := (tcbs s3)(t := zero_Tcb)\<rparr>"
  have "is_queue ?s4 q xs = is_queue s q xs" for q xs
    by (rule is_queue_cong) (simp_all add: K3)
  then have "is_queue ?s4 (running_tasks ?s4) R" "is_queue ?s4 (waiting_tasks ?s4) W"
    using q by (simp_all add: K3)
  from fill_tcb_ok [OF this M(6)] have "fill_tcb t ram stk (stk + 1472) ?s4 = Inr s5"
    by (simp add: s5_def T_def K3 parent_of_new_def)
  then show ?thesis
    using M K3 st by (intro that [of stk s1 s2 t s3 s5]) (simp_all add: s5_def)
qed

text \<open>The links to the parent and the new task's own list of children.\<close>

lemma can_register_staged:
  assumes "can_register s" "staged s t T s'" "slists s' = slists s" "snodes s' = snodes s"
    and "currently_running s \<noteq> NULL \<longrightarrow> tdata (nodes s (currently_running s)) \<noteq> t"
  shows "can_register s'"
proof (cases "currently_running s = NULL")
  case True
  then show ?thesis by (simp add: can_register_def staged_sel [OF assms(2)])
next
  case False
  with assms(5) have "task s' (currently_running s) = task s (currently_running s)"
    using staged_task [OF assms(2)] by blast
  moreover from False assms(1) obtain xs where "tdata (nodes s (currently_running s)) \<noteq> NULL"
    "is_slist s (child_tasks (task s (currently_running s))) xs" "owns s (set xs)" "length xs + 1 < 2 ^ 32"
    by (auto simp: can_register_def)
  ultimately have "tdata (nodes s' (currently_running s')) \<noteq> NULL"
    "is_slist s' (child_tasks (task s' (currently_running s'))) xs" "owns s' (set xs)" "length xs + 1 < 2 ^ 32"
    using assms(3,4) staged_sel [OF assms(2)] owns_mono by (auto simp: is_slist_def)
  then show ?thesis unfolding can_register_def by blast
qed

lemma family_ok:
  assumes st: "staged s t (T NULL) s5" and reg: "can_register s5" and room: "alloc_room s5 (Suc (Suc k)) (16 + b)"
    and t: "t \<noteq> NULL" and T: "\<And>l. (T NULL)\<lparr>child_tasks := l\<rparr> = T l"
    "\<And>l. (T l)\<lparr>lifetime_info := \<lparr>voluntary_interrupts = 0, forced_interrupts = 0, cpu_time = 0\<rparr>\<rparr> = T l"
  obtains l s6 s7 s9 where "register_child a s5 = Inr s6" "new_list s6 = Inr (l, s7)"
    "upd_tcb t (\<lambda>t. t\<lparr>child_tasks := l\<rparr>) s7 = Inr s9"
    "upd_tcb t (\<lambda>t. t\<lparr>lifetime_info := \<lparr>voluntary_interrupts = 0, forced_interrupts = 0, cpu_time = 0\<rparr>\<rparr>) s9 = Inr s9"
    "staged s t (T l) s9" "mem s9 = mem s5" "live s5 \<subseteq> live s9" "l \<in> fst ` live s9" "alloc_room s9 k b"
    "l \<notin> fst ` live s5" "is_slist s9 l []" "child_added s5 s9 l {l}"
proof -
  have "alloc_room s5 (Suc (Suc k)) (8 + (8 + b))" using room by simp
  from reg this obtain s6 where "register_child a s5 = Inr s6" "list_frame s5 s6" "alloc_room s6 (Suc k) (8 + b)"
    "live s5 \<subseteq> live s6" "\<forall>l. child_added s5 s6 l {}" by (rule register_child_ok)
  note R6 = this
  from R6(3) obtain l s7 m where N7: "new_list s6 = Inr (l, s7)" "list_frame s6 s7" "alloc_room s7 k b"
    "live s7 = insert (l, m) (live s6)" "is_slist s7 l []" "l \<notin> fst ` live s6" "snodes s7 = snodes s6"
    "\<forall>m. m \<noteq> l \<longrightarrow> slists s7 m = slists s6 m" "l \<noteq> NULL" by (rule new_list_ok)
  note K6 = list_frame_sel [OF R6(2)] note K7 = list_frame_sel [OF N7(2)]
  define s9 where "s9 = s7\<lparr>tcbs := (tcbs s7)(t := T l)\<rparr>"
  have "rest_of s9 = rest_of s5"
    unfolding s9_def rest_of_upd(2) rest_of_list [OF N7(2)] by (rule rest_of_list [OF R6(2)])
  then have "staged s t (T l) s9"
    using st R6(4) N7(4) K6 K7 by (auto simp: staged_def same_queues_def s9_def)
  moreover have "upd_tcb t (\<lambda>t. t\<lparr>child_tasks := l\<rparr>) s7 = Inr s9"
    using t T(1) K6(3) K7(3) staged_sel(6) [OF st] by (simp add: upd_tcb_def s9_def)
  moreover have "upd_tcb t (\<lambda>t. t\<lparr>lifetime_info := \<lparr>voluntary_interrupts = 0, forced_interrupts = 0, cpu_time = 0\<rparr>\<rparr>) s9 = Inr s9"
    using t T(2) by (simp add: upd_tcb_def s9_def fun_upd_idem)
  moreover have lv: "live s9 = live s7" using alloc_room_cong [of s9 s7] by (simp add: s9_def)
  moreover have "is_slist s9 l []" using N7(5) by (simp add: s9_def is_slist_def)
  moreover have "child_added s5 s9 l {l}"
    using R6(5,4) N7(6) by (rule child_added_new_list) (use N7(4,7,8) lv in \<open>auto simp: s9_def\<close>)
  moreover have "l \<notin> fst ` live s5" using N7(6) R6(4) by auto
  ultimately show ?thesis
    using R6 N7 K6 K7 by (intro that [of s6 l s7 s9]) (auto simp: s9_def)
qed

text \<open>The entry into its queue.\<close>

lemma place_task_ok:
  assumes ok: "sched_ok s R W" and own: "owns s (set R \<union> set W)" and len: "length R + length W + 1 < 2 ^ 32 - 1"
    and st: "staged s t T s9" and room: "alloc_room s9 (Suc k) (16 + b)" and t: "t \<noteq> NULL"
    "tstate T = READY \<or> tstate T = WAITING" "t \<notin> (\<lambda>n. tdata (nodes s n)) ` (set R \<union> set W)"
  obtains n s10 where "insert_scheduled_task t s9 = Inr (1, s10)" "tdata (nodes s10 n) = t"
    "sched_ok s10 (if tstate T = READY then R @ [n] else R) (if tstate T = READY then W else W @ [n])"
    "n \<notin> set R \<union> set W" "tcbs s10 t = T" "\<forall>m\<in>set R \<union> set W. task s10 m = task s m" "mem s10 = mem s9"
    "currently_running s10 = currently_running s" "rest_of s10 = rest_of s" "n \<in> fst ` live s10" "live s9 \<subseteq> live s10"
    "alloc_room s10 k b" "n \<notin> fst ` live s9" "slists s10 = slists s9" "snodes s10 = snodes s9"
    "\<forall>m\<in>set R \<union> set W. tdata (nodes s10 m) = tdata (nodes s m)"
proof -
  note S9 = staged_sel [OF st]
  have ok9: "sched_ok s9 R W" by (rule staged_sched [OF ok st t(3)])
  have own9: "owns s9 (set R \<union> set W)" by (rule owns_mono [OF own S9(7)])
  have T9: "tcbs s9 t = T" by (simp add: S9(6))
  have t9: "tstate (tcbs s9 t) = READY \<or> tstate (tcbs s9 t) = WAITING" "t \<notin> (\<lambda>n. tdata (nodes s9 n)) ` (set R \<union> set W)"
    using t(2,3) by (simp_all add: T9 S9(1))
  from ok9 own9 len room t(1) t9 obtain n s10 where I: "insert_scheduled_task t s9 = Inr (1, s10)"
    "tdata (nodes s10 n) = t"
    "sched_ok s10 (if tstate (tcbs s9 t) = READY then R @ [n] else R) (if tstate (tcbs s9 t) = READY then W else W @ [n])"
    "n \<notin> fst ` live s9" "n \<in> fst ` live s10" "live s9 \<subseteq> live s10"
    "\<exists>s1. alloc_frame s9 s1 \<and> s10 = s1\<lparr>nodes := nodes s10, queues := queues s10\<rparr>"
    "\<forall>m. m \<noteq> n \<longrightarrow> tdata (nodes s10 m) = tdata (nodes s9 m)" "alloc_room s10 k b"
    by (rule insert_scheduled_task_ok)
  from I(7) obtain s' where F: "alloc_frame s9 s'" "s10 = s'\<lparr>nodes := nodes s10, queues := queues s10\<rparr>" by blast
  have K: "tcbs s10 = tcbs s9" "mem s10 = mem s9" "currently_running s10 = currently_running s9"
    "slists s10 = slists s9" "snodes s10 = snodes s9"
    by (subst F(2), simp add: alloc_frame_kernel [OF F(1)])+
  have rest: "rest_of s10 = rest_of s"
    by (subst F(2)) (simp only: rest_of_upd rest_of_alloc [OF F(1)] S9(8))
  have nU: "n \<notin> set R \<union> set W" using I(4) own9 by (auto simp: owns_def)
  have "task s10 m = task s m" if "m \<in> set R \<union> set W" for m
  proof -
    have "m \<noteq> n" "tdata (nodes s m) \<noteq> t" using that nU t(3) by auto
    then show ?thesis using I(8) K(1) staged_task [OF st] by (simp add: task_def)
  qed
  moreover have "\<forall>m\<in>set R \<union> set W. tdata (nodes s10 m) = tdata (nodes s m)"
    using I(8) nU S9(1) by metis
  ultimately show ?thesis using I K S9 rest nU by (intro that [of s10 n]) (simp_all add: T9)
qed

text \<open>SysTick off at the start and on at the end: the queues, the tasks and the heap stay.\<close>

lemma systick_frame:
  fixes s s' :: kernel
  assumes "s' = (if b then f s else s)" "f = ST_DISABLE \<or> f = ST_ENABLE"
  shows "alloc_frame s s'" "alloc_room s' k c = alloc_room s k c" "live s' = live s"
    "same_queues s s'" "tcbs s' = tcbs s" "currently_running s' = currently_running s" "mem s' = mem s"
    "rest_of s' = rest_of s" "slists s' = slists s" "snodes s' = snodes s" "tInfo s' = tInfo s"
proof -
  show f: "alloc_frame s s'" using assms by auto
  have "MEM_TABLE s' = MEM_TABLE s" "USEABLE_MEM_START s' = USEABLE_MEM_START s" "mutex s' = mutex s"
    using assms by (auto simp: ST_DISABLE_def ST_ENABLE_def)
  from alloc_room_cong [OF this] show "alloc_room s' k c = alloc_room s k c" "live s' = live s" by simp_all
  show "rest_of s' = rest_of s" by (rule rest_of_alloc [OF f])
  show "same_queues s s'" "tcbs s' = tcbs s" "currently_running s' = currently_running s" "mem s' = mem s"
    "slists s' = slists s" "snodes s' = snodes s" "tInfo s' = tInfo s"
    using alloc_frame_kernel [OF f] by (simp_all add: same_queues_def)
qed

text \<open>
  The whole operation: the new task is at the end of its queue, everything else about the two
  queues and their tasks is as before, and its stack holds the initial frame.
\<close>

lemma create_task_ok:
  assumes ok: "sched_ok s R W" and own: "owns s (set R \<union> set W)"
    and own_t: "owns s ((\<lambda>n. tdata (nodes s n)) ` (set R \<union> set W))"
    and cur: "currently_running s \<noteq> NULL \<longrightarrow> currently_running s \<in> set R \<union> set W"
    and reg: "can_register s" and room: "alloc_room s (5 + k) (1688 + b)"
    and len: "length R + length W + 1 < 2 ^ 32 - 1"
  defines "p \<equiv> of_nat (length R + length W) :: u8"
  obtains s' n stk l where
    "create_task fn ram a s = Inr (ucast p, s')"
    "sched_ok s' (if p = 0 then R else R @ [n]) (if p = 0 then W @ [n] else W)" "n \<notin> set R \<union> set W"
    "task s' n = new_tcb p ram (task_size (tInfo s)) stk (parent_of_new s) l"
    "\<forall>m\<in>set R \<union> set W. task s' m = task s m"
    "task_frame (mem s') (stk + 1472) fn (finish_task_addr (syms s))"
    "\<forall>x. 1536 \<le> unat (x - stk) \<longrightarrow> mem s' x = mem s x" "stk \<notin> fst ` live s"
    "live s \<subseteq> live s'" "{n, tdata (nodes s' n), stk, l} \<subseteq> fst ` live s'"
    "{n, tdata (nodes s' n), stk, l} \<inter> fst ` live s = {}" "is_slist s' l []"
    "child_added s s' l {n, tdata (nodes s' n), stk, l}" "\<forall>m\<in>set R \<union> set W. tdata (nodes s' m) = tdata (nodes s m)"
    "currently_running s' = currently_running s" "alloc_room s' k b"
    "drv s' = drv s" "cpu s' = cpu s" "syms s' = syms s" "io s' = io s" "SYSTICK s' = SYSTICK s" "DEBUG s' = DEBUG s"
    "process_stats s' = process_stats s" "kernel_pids s' = kernel_pids s" "USEABLE_MEM_START s' = USEABLE_MEM_START s"
    "\<exists>k\<ge>1600. (stk, k) \<in> live s'" "task_to_preserve s' = task_to_preserve s"
proof -
  let ?U = "set R \<union> set W" and ?T = "\<lambda>stk. new_tcb p ram (task_size (tInfo s)) stk (parent_of_new s)"
  define s0 where "s0 = (if SYSTICK s then ST_DISABLE s else s)"
  note F0 = systick_frame [where f = ST_DISABLE, OF s0_def disjI1 [OF refl]]
  have n0: "nodes s0 = nodes s" using F0(4) by (simp add: same_queues_def)
  have par: "parent_of_new s0 = parent_of_new s" by (simp add: parent_of_new_def F0 n0)
  have tsk0: "task s0 m = task s m" for m by (simp add: task_def F0 n0)
  have own0: "owns s0 ?U" "owns s0 ((\<lambda>n. tdata (nodes s0 n)) ` ?U)" using own own_t n0 F0(3) by (simp_all add: owns_def)
  have reg0: "can_register s0" using reg by (simp add: can_register_def is_slist_def owns_def task_def F0 n0)
  have ok0: "sched_ok s0 R W" by (rule sched_ok_tcbs [OF ok F0(4,5)])
  have "alloc_room s0 (Suc (Suc (3 + k))) (1656 + (32 + b))" using room F0(2) by (simp add: add.assoc)
  from sched_okD(1,2) [OF ok0] this obtain stk t s1 s2 s3 s5 where M:
    "allocate 1600 s0 = Inr (stk, s1)" "stk \<noteq> NULL" "stk + 1472 \<noteq> NULL"
    "prepare_cpu_register stk STACK_SIZE fn s1 = (stk + 1472, s2)"
    "allocate (sizeof_Tcb (DEBUG s2)) s2 = Inr (t, s3)" "t \<noteq> NULL" "t \<notin> fst ` live s0" "stk \<notin> fst ` live s0"
    "fill_tcb t ram stk (stk + 1472) (s3\<lparr>tcbs := (tcbs s3)(t := zero_Tcb)\<rparr>) = Inr s5"
    "staged s0 t (?T stk NULL) s5" "slists s5 = slists s0" "snodes s5 = snodes s0"
    "{t, stk} \<subseteq> fst ` live s5" "alloc_room s5 (3 + k) (32 + b)"
    "task_frame (mem s5) (stk + 1472) fn (finish_task_addr (syms s0))"
    "\<forall>x. 1536 \<le> unat (x - stk) \<longrightarrow> mem s5 x = mem s0 x" "\<exists>k\<ge>1600. (stk, k) \<in> live s5"
    unfolding p_def F0(11) [symmetric] par [symmetric] by (rule control_block_ok [where ram = ram and fn = fn])
  have tU: "t \<notin> (\<lambda>n. tdata (nodes s0 n)) ` ?U" using M(7) own0(2) by (auto simp: owns_def)
  have cur_t: "currently_running s0 \<noteq> NULL \<longrightarrow> tdata (nodes s0 (currently_running s0)) \<noteq> t" using cur tU F0(6) by auto
  from can_register_staged [OF reg0 M(10-12) this] have reg5: "can_register s5" .
  have "alloc_room s5 (Suc (Suc (1 + k))) (16 + (16 + b))" using M(14) by (simp add: numeral_3_eq_3 add.assoc [symmetric])
  from M(10) reg5 this M(6) obtain l s6 s7 s9 where N: "register_child a s5 = Inr s6" "new_list s6 = Inr (l, s7)"
    "upd_tcb t (\<lambda>t. t\<lparr>child_tasks := l\<rparr>) s7 = Inr s9"
    "upd_tcb t (\<lambda>t. t\<lparr>lifetime_info := \<lparr>voluntary_interrupts = 0, forced_interrupts = 0, cpu_time = 0\<rparr>\<rparr>) s9 = Inr s9"
    "staged s0 t (?T stk l) s9" "mem s9 = mem s5" "live s5 \<subseteq> live s9" "l \<in> fst ` live s9" "alloc_room s9 (1 + k) (16 + b)"
    "l \<notin> fst ` live s5" "is_slist s9 l []" "child_added s5 s9 l {l}"
    by (rule family_ok [where T = "?T stk"]) (simp_all add: new_tcb_def zero_Tcb_def)
  have "alloc_room s9 (Suc k) (16 + b)" "tstate (?T stk l) = READY \<or> tstate (?T stk l) = WAITING" using N(9) by simp_all
  from ok0 own0(1) len N(5) this(1) M(6) this(2) tU obtain n s10 where I: "insert_scheduled_task t s9 = Inr (1, s10)"
    "tdata (nodes s10 n) = t"
    "sched_ok s10 (if tstate (?T stk l) = READY then R @ [n] else R) (if tstate (?T stk l) = READY then W else W @ [n])"
    "n \<notin> ?U" "tcbs s10 t = ?T stk l" "\<forall>m\<in>?U. task s10 m = task s0 m" "mem s10 = mem s9"
    "currently_running s10 = currently_running s0" "rest_of s10 = rest_of s0" "n \<in> fst ` live s10" "live s9 \<subseteq> live s10"
    "alloc_room s10 k b" "n \<notin> fst ` live s9" "slists s10 = slists s9" "snodes s10 = snodes s9"
    "\<forall>m\<in>?U. tdata (nodes s10 m) = tdata (nodes s0 m)" by (rule place_task_ok)
  define s11 where "s11 = (if SYSTICK s10 then ST_ENABLE s10 else s10)"
  note F1 = systick_frame [where f = ST_ENABLE, OF s11_def disjI2 [OF refl]]
  have n1: "nodes s11 = nodes s10" using F1(4) by (simp add: same_queues_def)
  have run: "create_task fn ram a s = Inr (ucast p, s11)"
    unfolding create_task_def Let_def s0_def [symmetric]
    using M(1-6,9) N(1-4) I(1,5)
    by (simp add: upd_tcb_def [where f = "\<lambda>_. zero_Tcb"] s11_def [symmetric] tcb_at_def F1(5) cong: bnd_weak_cong)
  have rest: "rest_of s11 = rest_of s" using F0(8) F1(8) I(9) by simp
  show ?thesis
  proof (rule that [OF run])
    show "sched_ok s11 (if p = 0 then R else R @ [n]) (if p = 0 then W @ [n] else W)"
      using sched_ok_tcbs [OF I(3) F1(4,5)] by (cases "p = 0") simp_all
    show "task s11 n = ?T stk l" "\<forall>m\<in>?U. task s11 m = task s m"
      using I(2,5,6) tsk0 by (simp_all add: task_def F1(5) n1)
    show "task_frame (mem s11) (stk + 1472) fn (finish_task_addr (syms s))" "\<forall>x. 1536 \<le> unat (x - stk) \<longrightarrow> mem s11 x = mem s x"
      using M(15,16) F0(7,8) F1(7) I(7) N(6) by (simp_all add: rest_of_def)
    show "stk \<notin> fst ` live s" "live s \<subseteq> live s11" "{n, tdata (nodes s11 n), stk, l} \<subseteq> fst ` live s11"
      "{n, tdata (nodes s11 n), stk, l} \<inter> fst ` live s = {}"
      using M(7) I(13) N(10) staged_sel(7) [OF M(10)] M(8,13) N(7,8) staged_sel(7) [OF N(5)] I(2,10,11) n1 F0(3) F1(3) by auto
    have "live s5 \<subseteq> live s11" using N(7) I(11) F1(3) by auto
    then show "\<exists>k\<ge>1600. (stk, k) \<in> live s11" using M(17) by blast
    show "is_slist s11 l []" using N(11) I(14,15) F1(9,10) by (simp add: is_slist_def)
    show "\<forall>m\<in>?U. tdata (nodes s11 m) = tdata (nodes s m)" using I(16) n0 n1 by simp
    have e: "tdata (nodes s11 n) = t" using I(2) n1 by simp
    show "child_added s s11 l {n, tdata (nodes s11 n), stk, l}"
      unfolding e
    proof (rule child_added_frame [OF N(12)])
      show "currently_running s \<noteq> NULL \<longrightarrow> task s5 (currently_running s) = task s (currently_running s)"
        using cur_t staged_task [OF M(10)] F0(6) tsk0 by metis
      show "live s \<subseteq> live s5" "live s9 \<subseteq> live s11" using staged_sel(7) [OF M(10)] F0(3) F1(3) I(11) by auto
      show "{n, t, stk, l} \<inter> fst ` live s9 \<subseteq> {l} \<union> fst ` live s5" using I(13) M(13) by auto
    qed (use staged_sel(5) [OF M(10)] M(11,12) I(14,15) F0(6,9,10) F1(9,10) in simp_all)
    show "drv s11 = drv s" "cpu s11 = cpu s" "syms s11 = syms s" "io s11 = io s" "SYSTICK s11 = SYSTICK s"
      "DEBUG s11 = DEBUG s" "process_stats s11 = process_stats s" "kernel_pids s11 = kernel_pids s"
      "USEABLE_MEM_START s11 = USEABLE_MEM_START s" "task_to_preserve s11 = task_to_preserve s"
      using rest unfolding rest_of_def prod.inject by simp_all
  qed (use I(4,8,12) F0(6) F1(2,6) in simp_all)
qed

end
