(* ===== verification/Runtime.thy ===== *)
theory Runtime
  imports Irq Task
begin

text \<open>
  \<open>os/src/core/runtime.c\<close>: the idle task, the external io task, the kernel subtasks, the fault
  handlers, and the set-up of the kernel.  The endless loops of the two tasks are modelled by
  one turn each; both end a turn by blocking.
\<close>

section \<open>The statistic\<close>

definition le16 :: "u16 \<Rightarrow> u8 list" where
  "le16 v = [ucast v, ucast (drop_bit 8 v)]"

definition le32 :: "u32 \<Rightarrow> u8 list" where
  "le32 v = [ucast v, ucast (drop_bit 8 v), ucast (drop_bit 16 v), ucast (drop_bit 24 v)]"

text \<open>\<open>OsLifetime_t\<close> in memory: 49 bytes of members and three of padding (written here as 0).\<close>

definition lifetime_bytes :: "OsLifetime \<Rightarrow> u8 list" where
  "lifetime_bytes l =
     le16 (version_number l) @ le16 (size_of_struct l) @
     le32 (ml_num_of_allocs (memoryStat l)) @ le32 (ml_num_of_deallocs (memoryStat l)) @
     le32 (ml_ram_size (memoryStat l)) @ le32 (total_byte_alloced (memoryStat l)) @
     le32 (total_byte_used (memoryStat l)) @
     le32 (git_hash (osMeta l)) @ le32 (magic (osMeta l)) @ le16 (debug_mode (osMeta l)) @
     le16 (systick_enabled (osMeta l)) @ le32 (os_version (osMeta l)) @ le32 (gcc_version (osMeta l)) @
     [tasks_cleanup_pending (processStat l), pl_failed_tasks (processStat l),
      pl_finished_tasks (processStat l), pl_waiting_tasks (processStat l),
      pl_running_tasks (processStat l), 0, 0, 0]"

definition update_statistics :: "kernel \<Rightarrow> kernel res" where
  "update_statistics s =
     bnd (update_memory_statistic (memoryStat (lifetime_statistic s)) s) (\<lambda>(ml, s1).
     let s2 = s1\<lparr>lifetime_statistic := (lifetime_statistic s1)\<lparr>memoryStat := ml\<rparr>\<rparr> in
     bnd (update_process_statistic (processStat (lifetime_statistic s2)) s2) (\<lambda>pl.
     Inr (s2\<lparr>lifetime_statistic := (lifetime_statistic s2)\<lparr>processStat := pl\<rparr>\<rparr>)))"

definition stat :: "kernel \<Rightarrow> kernel res" where
  "stat s = bnd (update_statistics s) (\<lambda>s1. print (lifetime_bytes (lifetime_statistic s1)) s1)"

section \<open>Kernel subtasks\<close>

abbreviation (input) maxNumOfWaitingKernelSubtasks :: nat where "maxNumOfWaitingKernelSubtasks \<equiv> 3"
abbreviation (input) statisticManager :: u32 where "statisticManager \<equiv> 0"

text \<open>
  \<open>while (idx++ < max && subtasks[idx]) {}\<close>: the comparison sees the old index and the array
  the new one, so slot 0 is never looked at and slot 3 can be.
\<close>

function subtask_slot :: "nat \<Rightarrow> addr list \<Rightarrow> nat res" where
  "subtask_slot idx t =
     (if idx < maxNumOfWaitingKernelSubtasks then
        bnd (rd t (int (idx + 1))) (\<lambda>f. if f \<noteq> NULL then subtask_slot (idx + 1) t else Inr (idx + 1))
      else Inr (idx + 1))"
  by pat_completeness auto
termination by (relation "measure (\<lambda>(idx, t). 3 - idx)") auto

declare subtask_slot.simps [simp del]

definition schedule_kernel_subtask :: "u32 \<Rightarrow> kernel \<Rightarrow> kernel res" where
  "schedule_kernel_subtask task_number s =
     bnd (subtask_slot 0 (subtasks (io s))) (\<lambda>idx.
     let subtask = (if task_number = statisticManager then stat_addr (syms s) else NULL) in
     bnd (if idx < maxNumOfWaitingKernelSubtasks
          then bnd (wr (subtasks (io s)) (int idx) subtask) (\<lambda>t. Inr (s\<lparr>io := (io s)\<lparr>subtasks := t\<rparr>\<rparr>))
          else Inr s) (\<lambda>s1.
     bnd (is_task_currently_running (pid_arg (idle_task (kernel_pids s1))) s1) (\<lambda>running.
     if \<not> running
     then bnd (wakeup_pid (pid_arg (idle_task (kernel_pids s1))) s1) (\<lambda>(q, s2). Inr s2)
     else Inr s1)))"

text \<open>The idle task runs the subtasks from slot 1 on; \<open>call\<close> stands for a function not known here.\<close>

definition run_subtask :: "(addr \<Rightarrow> kernel \<Rightarrow> kernel res) \<Rightarrow> addr \<Rightarrow> kernel \<Rightarrow> kernel res" where
  "run_subtask call f s = (if f = stat_addr (syms s) then stat s else call f s)"

fun subtask_loop :: "nat \<Rightarrow> (addr \<Rightarrow> kernel \<Rightarrow> kernel res) \<Rightarrow> nat \<Rightarrow> kernel \<Rightarrow> kernel res" where
  "subtask_loop 0 call idx s = Inr s"
| "subtask_loop (Suc k) call idx s =
     bnd (rd (subtasks (io s)) (int (idx + 1))) (\<lambda>f.
     if f = NULL then Inr s
     else
       bnd (run_subtask call f s) (\<lambda>s1.
       bnd (wr (subtasks (io s1)) (int (idx + 1)) NULL) (\<lambda>t.
       subtask_loop k call (idx + 1) (s1\<lparr>io := (io s1)\<lparr>subtasks := t\<rparr>\<rparr>))))"

fun clear_subtasks :: "nat \<Rightarrow> nat \<Rightarrow> addr list \<Rightarrow> addr list res" where
  "clear_subtasks 0 idx t = Inr t"
| "clear_subtasks (Suc k) idx t = bnd (wr t (int (idx + 1)) NULL) (\<lambda>t1. clear_subtasks k (idx + 1) t1)"

section \<open>The external io task\<close>

text \<open>\<open>call\<close> runs the callback a module has registered, with the received word.\<close>

definition external_io_runner_turn :: "(addr \<Rightarrow> u32 \<Rightarrow> kernel \<Rightarrow> kernel res) \<Rightarrow> kernel \<Rightarrow> kernel res" where
  "external_io_runner_turn call s =
     bnd (if rx_state (io s) < 10 then
            (if rx_state (io s) = PREPARE_TASK_TRANSFER then
               let s1 = s\<lparr>tInfo := (tInfo s)\<lparr>task_size := drop_bit 8 (rx_word (uart_rx_buffer (io s)))\<rparr>\<rparr> in
               bnd (allocate (task_size (tInfo s1)) s1) (\<lambda>(a, s2).
               let s3 = s2\<lparr>tInfo := (tInfo s2)\<lparr>start_adress := a\<rparr>\<rparr>;
                   s4 = (if a = NULL then invoke_panic OUT_OF_MEMORY s3 else s3) in
               bnd (print (le32 (start_adress (tInfo s4))) s4) (\<lambda>s5.
               let dt = \<lparr>dt_tcie = 1, dt_minc = 1, dt_chsel = 4, dt_ndtr = ucast (task_size (tInfo s5)),
                         dt_stream_number = 5, source_address = 0,
                         destination_address = start_adress (tInfo s5),
                         dma_job_type = DmaWaitsForExternalTask\<rparr> in
               Inr (dma_transfer dt PeripherialToMemory UART (set_dma_action DmaWaitsForExternalTask s5))))
             else if rx_state (io s) = REQUEST_STATISTIC then schedule_kernel_subtask statisticManager s
             else Inr (s\<lparr>io := (io s)\<lparr>rx_state := RX_READY\<rparr>\<rparr>))
          else if io_handler (io s) \<noteq> NULL
          then call (io_handler (io s)) (rx_word (uart_rx_buffer (io s))) s
          else Inr s)
       block_current_task"

section \<open>The idle task\<close>

definition zero_OsLifetime :: OsLifetime where
  "zero_OsLifetime =
     \<lparr>version_number = 0, size_of_struct = 0,
      memoryStat = \<lparr>ml_num_of_allocs = 0, ml_num_of_deallocs = 0, ml_ram_size = 0, total_byte_alloced = 0,
                    total_byte_used = 0\<rparr>,
      osMeta = \<lparr>git_hash = 0, magic = 0, debug_mode = 0, systick_enabled = 0, os_version = 0, gcc_version = 0\<rparr>,
      processStat = \<lparr>tasks_cleanup_pending = 0, pl_failed_tasks = 0, pl_finished_tasks = 0,
                     pl_waiting_tasks = 0, pl_running_tasks = 0\<rparr>\<rparr>"

fun create_tasks :: "addr list \<Rightarrow> addr \<Rightarrow> kernel \<Rightarrow> kernel res" where
  "create_tasks [] loc s = Inr s"
| "create_tasks (f # fs) loc s = bnd (create_task f 0 loc s) (\<lambda>(p, s1). create_tasks fs loc s1)"

text \<open>
  What \<open>idle_runner\<close> does before its loop.  \<open>func_ptr\<close> lists the module entry points
  (\<open>externals.h\<close>), \<open>loc\<close> is the address of \<open>create_task\<close>'s local variable.
\<close>

definition idle_runner_init :: "addr list \<Rightarrow> addr \<Rightarrow> kernel \<Rightarrow> kernel res" where
  "idle_runner_init func_ptr loc s =
     bnd (create_tasks func_ptr loc (init_exti_isr_handling s)) (\<lambda>s1.
     let ls = (if reboot_type (boot_flags s1) \<noteq> RebootRequestedByOperator then zero_OsLifetime
               else lifetime_statistic s1);
         meta = (osMeta ls)\<lparr>git_hash := 0xef40060c, os_version := 23032024, gcc_version := 1320,
                            magic := 0x12345678, debug_mode := (if DEBUG s1 \<noteq> 0 then 1 else 0),
                            systick_enabled := (if SYSTICK s1 then 1 else 0)\<rparr>;
         s2 = s1\<lparr>lifetime_statistic := ls\<lparr>osMeta := meta, version_number := 1, size_of_struct := 48\<rparr>\<rparr> in
     bnd (update_statistics s2) (\<lambda>s3.
     bnd (create_task (external_io_runner_addr (syms s3)) 0 loc s3) (\<lambda>(p, s4).
     let s5 = s4\<lparr>kernel_pids := (kernel_pids s4)\<lparr>external_io_runner_pid := ucast p\<rparr>,
                 io := (io s4)\<lparr>type_of_io_handler := OsInternalIo, io_handler := NULL\<rparr>\<rparr> in
     bnd (clear_subtasks maxNumOfWaitingKernelSubtasks 0 (subtasks (io s5))) (\<lambda>t.
     Inr (s5\<lparr>io := (io s5)\<lparr>subtasks := t\<rparr>\<rparr>)))))"

definition idle_runner_turn :: "(addr \<Rightarrow> kernel \<Rightarrow> kernel res) \<Rightarrow> addr \<Rightarrow> kernel \<Rightarrow> kernel res" where
  "idle_runner_turn call loc s =
     bnd (if clean_up_requests (process_stats s) \<noteq> 0 then search_invalidate_tasks s else Inr s) (\<lambda>s1.
     bnd (if dma_interrupt_action (drv s1) AND DmaTransferedTask \<noteq> 0
          then bnd (create_task (start_adress (tInfo s1)) (start_adress (tInfo s1)) loc s1) (\<lambda>(p, s2).
               Inr (set_dma_action DmaIsIdle s2))
          else Inr s1) (\<lambda>s3.
     bnd (subtask_loop maxNumOfWaitingKernelSubtasks call 0 s3) (\<lambda>s4.
     bnd (size_of_queue (running_tasks s4) s4) (\<lambda>sz.
     block_current_task s4))))"

section \<open>Set-up\<close>

datatype KernelErrorCodes = SCHEDULER_INIT_FAILED | TASK_CREATION_FAILED | KERNEL_INIT_SUCCEDED

definition setup_kernel_runtime :: "addr \<Rightarrow> u32 \<Rightarrow> u32 \<Rightarrow> kernel \<Rightarrow> (KernelErrorCodes \<times> kernel) res" where
  "setup_kernel_runtime loc junk1 junk2 s =
     bnd (init_scheduler s) (\<lambda>(r, s1).
     if r = -1 then Inr (SCHEDULER_INIT_FAILED, s1)
     else
       bnd (create_task (idle_runner_addr (syms s1)) 0 loc s1) (\<lambda>(p, s2).
       let s3 = s2\<lparr>kernel_pids := (kernel_pids s2)\<lparr>idle_task := ucast p\<rparr>\<rparr> in
       if pid_arg (idle_task (kernel_pids s3)) = -1 then Inr (TASK_CREATION_FAILED, s3)
       else
         bnd (run_scheduler junk1 junk2 s3) (\<lambda>(r, s4).
         if r = -1 then Inr (SCHEDULER_INIT_FAILED, s4) else Inr (KERNEL_INIT_SUCCEDED, s4))))"

section \<open>Faults\<close>

definition hardfault_handler :: "kernel \<Rightarrow> kernel res" where
  "hardfault_handler s =
     (let s1 = s\<lparr>process_stats := (process_stats s)\<lparr>num_of_hardfaults := num_of_hardfaults (process_stats s) + 1\<rparr>\<rparr> in
      bnd (invalidate_current_task s1) (\<lambda>s2. Inr (set_pendsv s2)))"

definition usage_fault_handler :: "kernel \<Rightarrow> kernel res" where
  "usage_fault_handler s =
     bnd (tcb_of (currently_running s) s) (\<lambda>t.
     if pid_of t = pid_arg (idle_task (kernel_pids s)) then reboot RebootAfterUsageFault s
     else
       (let (status, s1) = READ_REGISTER 0xE000ED2A s in
        if status AND shl 1 3 \<noteq> 0 then Inr (MODIFY_REGISTER 0xE000ED88 (\<lambda>v. v OR shl 0xF 20) s1)
        else bnd (invalidate_current_task s1) (\<lambda>s2. Inr (set_pendsv s2))))"

end
