(* ===== verification/Startup.thy ===== *)
theory Startup
  imports Runtime
begin

text \<open>
  \<open>os/src/startup.c\<close> and \<open>os/src/main.c\<close>: the vector table, what each vector runs, and the way
  from reset to the first task.
\<close>

section \<open>The vector table\<close>

datatype isr =
    IsrStackTop | IsrBootstrap | IsrNmi | IsrHardFault | IsrMemFault | IsrBusFault | IsrUsageFault | IsrDummy
  | IsrSvCall | IsrPendSv | IsrSysTick | IsrExti0 | IsrExti1 | IsrExti2 | IsrExti3 | IsrExti4 | IsrExti9_5
  | IsrAdc | IsrTim3 | IsrUart | IsrDma2Stream5
  | IsrRamCode    \<comment> \<open>the constant address 0x20005001\<close>
  | IsrNoHandler  \<comment> \<open>NULL\<close>

definition isr_vectors :: "isr list" where
  "isr_vectors =
    [IsrStackTop, IsrBootstrap, IsrNmi, IsrHardFault, IsrMemFault, IsrBusFault, IsrUsageFault,
     IsrDummy, IsrDummy, IsrDummy, IsrDummy, IsrSvCall, IsrDummy, IsrDummy, IsrPendSv, IsrSysTick,
     IsrDummy, IsrDummy, IsrDummy, IsrDummy, IsrDummy, IsrDummy, IsrExti0, IsrExti1, IsrExti2,
     IsrExti3, IsrExti4, IsrDummy, IsrDummy, IsrDummy, IsrDummy, IsrDummy, IsrDummy, IsrDummy,
     IsrAdc, IsrNoHandler, IsrNoHandler, IsrNoHandler, IsrNoHandler, IsrExti9_5, IsrNoHandler,
     IsrNoHandler, IsrNoHandler, IsrNoHandler, IsrRamCode, IsrTim3, IsrNoHandler, IsrNoHandler,
     IsrNoHandler, IsrNoHandler, IsrNoHandler, IsrNoHandler, IsrNoHandler, IsrUart, IsrNoHandler,
     IsrDummy, IsrDummy, IsrDummy, IsrDummy, IsrDummy, IsrDummy, IsrDummy, IsrDummy, IsrDummy,
     IsrDummy, IsrDummy, IsrDummy, IsrDummy, IsrDummy, IsrDummy, IsrDummy, IsrDummy, IsrDummy,
     IsrDummy, IsrDummy, IsrDummy, IsrDummy, IsrDummy, IsrDummy, IsrDummy, IsrDummy, IsrDummy,
     IsrDummy, IsrDummy, IsrDma2Stream5, IsrNoHandler, IsrNoHandler, IsrNoHandler]"

text \<open>\<open>nmi_handler\<close>, \<open>memfault_handler\<close>, \<open>busfault_handler\<close> and \<open>dummy\<close> are endless loops; \<open>systick_isr\<close> is empty.\<close>

definition nmi_handler :: "kernel \<Rightarrow> kernel res" where "nmi_handler s = Inl Spin"
definition memfault_handler :: "kernel \<Rightarrow> kernel res" where "memfault_handler s = Inl Spin"
definition busfault_handler :: "kernel \<Rightarrow> kernel res" where "busfault_handler s = Inl Spin"
definition dummy :: "kernel \<Rightarrow> kernel res" where "dummy s = Inl Spin"
definition systick_isr :: "kernel \<Rightarrow> kernel res" where "systick_isr s = Inr s"

text \<open>What the core runs for a vector; \<open>call\<close> runs a function the kernel only holds the address of.\<close>

fun run_isr :: "(addr \<Rightarrow> kernel \<Rightarrow> kernel res) \<Rightarrow> isr \<Rightarrow> kernel \<Rightarrow> kernel res" where
  "run_isr call IsrStackTop s = Inl Undefined"
| "run_isr call IsrBootstrap s = Inl CoreReset"
| "run_isr call IsrNmi s = nmi_handler s"
| "run_isr call IsrHardFault s = hardfault_handler s"
| "run_isr call IsrMemFault s = memfault_handler s"
| "run_isr call IsrBusFault s = busfault_handler s"
| "run_isr call IsrUsageFault s = usage_fault_handler s"
| "run_isr call IsrDummy s = dummy s"
| "run_isr call IsrSvCall s = svcall_isr (priv_call call) s"
| "run_isr call IsrPendSv s = pendsv_isr s"
| "run_isr call IsrSysTick s = systick_isr s"
| "run_isr call IsrExti0 s = exti0_isr_handler call s"
| "run_isr call IsrExti1 s = exti1_isr_handler call s"
| "run_isr call IsrExti2 s = exti2_isr_handler call s"
| "run_isr call IsrExti3 s = exti3_isr_handler call s"
| "run_isr call IsrExti4 s = exti4_isr_handler call s"
| "run_isr call IsrExti9_5 s = exti9_5_isr_handler call s"
| "run_isr call IsrAdc s = adc_isr_handler call s"
| "run_isr call IsrTim3 s = tim3_isr_handler s"
| "run_isr call IsrUart s = uart_isr_handler s"
| "run_isr call IsrDma2Stream5 s = Inr (dma2_stream5_ir_handler s)"
| "run_isr call IsrRamCode s = call 0x20005001 s"
| "run_isr call IsrNoHandler s = Inl Undefined"

text \<open>External interrupt \<open>n\<close> is vector \<open>16 + n\<close>.\<close>

definition irq :: "(addr \<Rightarrow> kernel \<Rightarrow> kernel res) \<Rightarrow> nat \<Rightarrow> kernel \<Rightarrow> kernel res" where
  "irq call n s = run_isr call (isr_vectors ! (16 + n)) s"

section \<open>From reset to the first task\<close>

text \<open>
  \<open>for (i = 0x20000000; i < 0x20007000; i += 4) WRITE_REGISTER(i, 0)\<close>: bytes and objects in
  that range become zero, and so do the global variables, which the linker places there.
\<close>

definition in_cleared :: "addr \<Rightarrow> bool" where
  "in_cleared a \<longleftrightarrow> 0x20000000 \<le> a \<and> a < 0x20007000"

definition clear_ram :: "kernel \<Rightarrow> kernel" where
  "clear_ram s =
     s\<lparr>drv := \<lparr>timer_configurations = replicate (length (timer_configurations (drv s))) (0, 0),
               dma_interrupt_action = 0, adc_registerset = 0, crc_regs = 0, i2c_regs = 0\<rparr>,
       MEM_TABLE_START := 0, USEABLE_MEM_START := 0, mutex := 0,
       mstat_local := \<lparr>num_of_allocs = 0, num_of_deallocs = 0, ram_size = 0\<rparr>,
       nodes := (\<lambda>a. if in_cleared a then \<lparr>nxt = 0, prv = 0, tdata = 0\<rparr> else nodes s a),
       queues := (\<lambda>a. if in_cleared a then \<lparr>q_size = 0, head = 0, tail = 0\<rparr> else queues s a),
       tcbs := (\<lambda>a. if in_cleared a then zero_Tcb else tcbs s a),
       snodes := (\<lambda>a. if in_cleared a then \<lparr>s_next = 0, s_data = 0\<rparr> else snodes s a),
       slists := (\<lambda>a. if in_cleared a then \<lparr>l_size = 0, l_head = 0\<rparr> else slists s a),
       mem := (\<lambda>a. if in_cleared a then 0 else mem s a),
       running_tasks := 0, waiting_tasks := 0, currently_running := 0, task_to_preserve := 0,
       process_stats := zero_ProcessStats,
       kernel_pids := \<lparr>idle_task = 0, transfer_handler_pid = 0, statistic_manager = 0, generic_printer = 0,
                       external_io_runner_pid = 0\<rparr>,
       pid_of_sleeping_task := 0, tInfo := \<lparr>task_size = 0, start_adress = 0\<rparr>,
       lifetime_statistic := zero_OsLifetime,
       io := \<lparr>rx_state = 0, uart_rx_buffer = replicate (length (uart_rx_buffer (io s))) 0, bytes_received = 0,
              hostIsNotified = False, in_buffer = 0, byte_in_id = 0,
              transfer_list = replicate (length (transfer_list (io s))) \<lparr>ti_start_adress = 0, ti_length = 0\<rparr>,
              num_of_waiting_transfers = 0, io_handler = 0, type_of_io_handler = OsInternalIo,
              subtasks = replicate (length (subtasks (io s))) 0,
              exti_isr_handler = replicate (length (exti_isr_handler (io s))) 0, exti_pos_vector_table = 0,
              adc_isr_callback = 0, adc_pos_vector_table = 0\<rparr>\<rparr>"

text \<open>
  \<open>main.c\<close>.  \<open>get_State\<close> is the supervisor call \<open>getIoBuffer\<close>; it is made before \<open>init_uart\<close>
  writes through the pointer \<open>allocate\<close> returned.
\<close>

definition setup_devices :: "(addr \<Rightarrow> kernel \<Rightarrow> kernel res) \<Rightarrow> kernel \<Rightarrow> kernel res" where
  "setup_devices call s =
     bnd (allocate 16 s) (\<lambda>(t, s1).
     bnd (svcall_isr call (svcall_param (trap_number getIoBuffer) (internal_rx_state_addr (syms s1)) s1)) (\<lambda>s2.
     if t = NULL then Inl NullDeref
     else
       let (t1, s3) = init_uart \<lparr>port = 0, pin = 0, base_adress = 0, gpio_regs = 0\<rparr> s2 in
       init_isr s3))"

text \<open>
  \<open>hwfp\<close> is the build's HWFP.  Thread mode runs on the main stack out of reset, so a supervisor
  call made here enters the handler with EXC_RETURN 0xFFFFFFF9.
\<close>

definition bootstrap ::
  "(addr \<Rightarrow> kernel \<Rightarrow> kernel res) \<Rightarrow> bool \<Rightarrow> addr \<Rightarrow> u32 \<Rightarrow> u32 \<Rightarrow> kernel \<Rightarrow> kernel res" where
  "bootstrap call hwfp loc junk1 junk2 s0 =
     (let s = s0\<lparr>cpu := (cpu s0)\<lparr>lr := 0xFFFFFFF9\<rparr>\<rparr>;
          m0 = ebss (syms s);
          m1 = (if m0 < edata (syms s) then edata (syms s) else m0);
          m2 = (if m1 < sidata (syms s) then sidata (syms s) else m1);
          s1 = init_allocator m2 (sym_ram_size (syms s)) (clear_ram s);
          s2 = s1\<lparr>boot_flags := \<lparr>isColdStart = True, reboot_type = IsColdStart\<rparr>\<rparr>;
          s3 = MODIFY_REGISTER 0xE000E100 (\<lambda>v. v OR shl 1 28 OR shl 1 29) s2;
          s4 = MODIFY_REGISTER 0xE000ED14 (\<lambda>v. v OR shl 3 3) s3;
          s5 = MODIFY_REGISTER 0xE000ED24 (\<lambda>v. v OR shl 1 16 OR shl 1 17 OR shl 1 18) s4;
          s6 = (if hwfp then MODIFY_REGISTER 0xE000ED88 (\<lambda>v. v OR shl 0xF 20) s5 else s5)
      in bnd (setup_kernel_runtime loc junk1 junk2 s6) (\<lambda>(kernel_err, s7).
         case kernel_err of
           SCHEDULER_INIT_FAILED \<Rightarrow> Inl Spin
         | TASK_CREATION_FAILED \<Rightarrow> Inl Spin
         | KERNEL_INIT_SUCCEDED \<Rightarrow>
             bnd (setup_devices call s7) (\<lambda>s8.
             Inr (svcall (trap_number execPspTask) (s8\<lparr>cpu := (cpu s8)\<lparr>msp := stack_top (syms s8)\<rparr>\<rparr>)))))"

end
