(* ===== verification/Boot.thy ===== *)
theory Boot
  imports Startup Demo
begin

text \<open>
  What the way from reset to the first task establishes: \<open>init_scheduler\<close>, \<open>run_scheduler\<close>,
  \<open>setup_kernel_runtime\<close> succeed on a fresh heap and leave the idle task selected.
\<close>

section \<open>Device operations change only device state\<close>

definition bus_frame :: "'z machine_scheme \<Rightarrow> 'z machine_scheme \<Rightarrow> bool" where
  "bus_frame s s' \<longleftrightarrow> s' = s\<lparr>mmio := mmio s', inputs := inputs s', writes := writes s'\<rparr>"

lemma bus_frame_refl [simp]: "bus_frame s s"
  by (simp add: bus_frame_def)

lemma bus_frame_trans: "bus_frame s t \<Longrightarrow> bus_frame t u \<Longrightarrow> bus_frame s u"
  by (cases s; cases t; cases u) (simp add: bus_frame_def)

lemma bus_frame_WRITE: "bus_frame s t \<Longrightarrow> bus_frame s (WRITE_REGISTER a v t)"
  by (cases s; cases t) (simp add: bus_frame_def WRITE_REGISTER_def)

lemma bus_frame_MODIFY: "bus_frame s t \<Longrightarrow> bus_frame s (MODIFY_REGISTER a f t)"
proof -
  have "bus_frame t (MODIFY_REGISTER a f t)" using MODIFY_shape [of a f t] by (auto simp: bus_frame_def)
  then show "bus_frame s t \<Longrightarrow> bus_frame s (MODIFY_REGISTER a f t)" by (rule bus_frame_trans [rotated])
qed

lemma bus_frame_sel:
  assumes "bus_frame s s'"
  shows "DEBUG s' = DEBUG s" "SYSTICK s' = SYSTICK s" "drv s' = drv s" "machine.more s' = machine.more s"
  using assms by (cases s; cases s'; simp add: bus_frame_def)+

named_theorems bus_ops \<open>definitions of the device operations the kernel uses\<close>

lemmas [bus_ops] = timer_start_def timer_stop_def timer_set_sr_def timer_flush_counter_def set_ccr_def
  set_udis_def generate_ue_def set_prescaler_def reset_timer_def enable_ccx_ir_def SET_BIT_def CLEAR_BIT_def
  FLUSH_REGISTER_def set_moder_def into_af_def set_otyper_def

lemma bus_frame_timer:
  "bus_frame s t \<Longrightarrow> bus_frame s (timer_start n t)" "bus_frame s t \<Longrightarrow> bus_frame s (timer_flush_counter n t)"
  "bus_frame s t \<Longrightarrow> bus_frame s (set_ccr n v k t)" "bus_frame s t \<Longrightarrow> bus_frame s (set_udis n t)"
  "bus_frame s t \<Longrightarrow> bus_frame s (generate_ue n t)" "bus_frame s t \<Longrightarrow> bus_frame s (set_prescaler n v t)"
  "bus_frame s t \<Longrightarrow> bus_frame s (reset_timer n t)" "bus_frame s t \<Longrightarrow> bus_frame s (enable_ccx_ir n k t)"
  "bus_frame s t \<Longrightarrow> bus_frame s (timer_stop n t)" "bus_frame s t \<Longrightarrow> bus_frame s (timer_set_sr n v t)"
  by (simp_all add: bus_ops Let_def bus_frame_WRITE bus_frame_MODIFY)

lemmas bus_frame_intros = bus_frame_refl bus_frame_WRITE bus_frame_MODIFY bus_frame_timer

lemma set_ccrs_ok:
  assumes "length ccr = 5" "k \<le> 4"
  shows "\<exists>t. set_ccrs k n ccr s = Inr t \<and> bus_frame s t"
  using assms
proof (induction k arbitrary: s)
  case (Suc k)
  let ?s = "set_ccr n (ccr ! nat (4 - int k)) (4 - of_nat k) s"
  have "set_ccrs (Suc k) n ccr s = set_ccrs k n ccr ?s" using Suc.prems by simp
  moreover obtain t where "set_ccrs k n ccr ?s = Inr t" "bus_frame ?s t" using Suc.IH [of ?s] Suc.prems by auto
  moreover have "bus_frame s ?s" by (intro bus_frame_intros)
  ultimately show ?case using bus_frame_trans by auto
qed simp

text \<open>Driver state may change too.\<close>

definition dev_frame :: "'z machine_scheme \<Rightarrow> 'z machine_scheme \<Rightarrow> bool" where
  "dev_frame s s' \<longleftrightarrow> s' = s\<lparr>mmio := mmio s', inputs := inputs s', writes := writes s', drv := drv s'\<rparr>"

lemma dev_frame_bus: "bus_frame s s' \<Longrightarrow> dev_frame s s'"
  by (cases s; cases s') (simp add: bus_frame_def dev_frame_def)

lemma dev_frame_trans: "dev_frame s t \<Longrightarrow> dev_frame t u \<Longrightarrow> dev_frame s u"
  by (cases s; cases t; cases u) (simp add: dev_frame_def)

lemma dev_frame_sel:
  assumes "dev_frame s s'"
  shows "DEBUG s' = DEBUG s" "SYSTICK s' = SYSTICK s" "machine.more s' = machine.more s"
  using assms by (cases s; cases s'; simp add: dev_frame_def)+

lemma timer_init_ok:
  assumes "length ccr = 5" "timer_get_prescaler n c = Inr p" "uint n < int (length (timer_configurations (drv s)))"
  obtains t where "timer_init n ccr c s = Inr t" "dev_frame s t"
    "length (timer_configurations (drv t)) = length (timer_configurations (drv s))"
proof -
  let ?s1 = "reset_timer n (MODIFY_REGISTER (rcc ''apb1enr'') (\<lambda>v. v OR shl 1 (n - 2)) s)"
  let ?s2 = "set_udis n (generate_ue n (set_prescaler n p ?s1))"
  have b2: "bus_frame s ?s2" by (intro bus_frame_intros)
  obtain s3 where s3: "set_ccrs 4 n ccr ?s2 = Inr s3" "bus_frame ?s2 s3"
    using set_ccrs_ok [OF assms(1), of 4 n ?s2] by auto
  let ?s4 = "timer_flush_counter n s3"
  have b4: "bus_frame s ?s4" using bus_frame_trans [OF b2 s3(2)] by (intro bus_frame_intros)
  have d: "drv ?s4 = drv s" by (rule bus_frame_sel(3) [OF b4])
  let ?c = "(timer_configurations (drv s))[nat (uint n) := (n, get_timx_base n)]"
  let ?t = "?s4\<lparr>drv := (drv s)\<lparr>timer_configurations := ?c\<rparr>\<rparr>"
  have "set_timer_configuration n ?s4 = Inr ?t"
    using assms(3) unfolding set_timer_configuration_def d by simp
  then have "timer_init n ccr c s = Inr ?t"
    using assms(2) s3(1) by (simp add: timer_init_def Let_def)
  moreover have "dev_frame s ?t" using b4 by (cases s; cases ?s4) (simp add: bus_frame_def dev_frame_def)
  ultimately show ?thesis by (rule that) simp
qed

lemma dev_frame_kernel:
  fixes s :: kernel
  assumes "dev_frame s s'"
  shows "nodes s' = nodes s" "queues s' = queues s" "tcbs s' = tcbs s" "mem s' = mem s" "cpu s' = cpu s"
    "running_tasks s' = running_tasks s" "waiting_tasks s' = waiting_tasks s"
    "currently_running s' = currently_running s" "task_to_preserve s' = task_to_preserve s"
    "kernel_pids s' = kernel_pids s" "syms s' = syms s" "io s' = io s" "MEM_TABLE s' = MEM_TABLE s"
    "USEABLE_MEM_START s' = USEABLE_MEM_START s" "mutex s' = mutex s" "process_stats s' = process_stats s"
    "slists s' = slists s" "snodes s' = snodes s"
  using assms by (cases s; cases s'; simp add: dev_frame_def)+

lemma sched_ok_dev: "sched_ok s R W \<Longrightarrow> dev_frame s s' \<Longrightarrow> sched_ok s' R W"
  by (rule sched_ok_tcbs) (simp_all add: same_queues_def dev_frame_kernel)

section \<open>init_scheduler\<close>

lemma new_queue_ok:
  assumes "alloc_room s (Suc k) (16 + b)"
  obtains q s' n s1 where "new_queue s = Inr (q, s')" "q \<noteq> NULL" "q \<notin> fst ` live s" "live s' = insert (q, n) (live s)"
    "alloc_frame s s1" "s' = s1\<lparr>queues := (queues s)(q := \<lparr>q_size = 0, head = NULL, tail = NULL\<rparr>)\<rparr>"
    "alloc_room s' k b"
proof -
  have "alloc_room s (Suc k) (align_nat 8 (unat sizeof_Queue) + b)" using assms by (simp add: align_nat_def)
  moreover have "0 < unat sizeof_Queue" "unat sizeof_Queue \<le> 32760" by simp_all
  ultimately obtain q s1 n where A: "allocate sizeof_Queue s = Inr (q, s1)" "q \<noteq> NULL" "alloc_frame s s1"
    "alloc_room s1 k b" "unat sizeof_Queue \<le> n" "q \<notin> fst ` live s" "live s1 = insert (q, n) (live s)"
    by (rule alloc_step)
  let ?s' = "s1\<lparr>queues := (queues s1)(q := (queues s1 q)\<lparr>q_size := 0, head := NULL, tail := NULL\<rparr>)\<rparr>"
  have i: "Q\<lparr>q_size := 0, head := NULL, tail := NULL\<rparr> = \<lparr>q_size = 0, head = NULL, tail = NULL\<rparr>" for Q
    by (cases Q) simp
  have e: "?s' = s1\<lparr>queues := (queues s)(q := \<lparr>q_size = 0, head = NULL, tail = NULL\<rparr>)\<rparr>"
    by (simp only: i alloc_frame_kernel(2) [OF A(3)])
  have "alloc_room ?s' k b" "live ?s' = insert (q, n) (live s)"
    using A(4,7) alloc_room_cong [of ?s' s1] by simp_all
  then show ?thesis using A(1,2,3,6) e by (intro that [of q ?s' n s1]) (simp_all add: new_queue_def typed_access)
qed

lemma init_scheduler_ok:
  assumes "alloc_room s (Suc (Suc k)) (32 + b)"
  obtains s' where "init_scheduler s = Inr (0, s')" "sched_ok s' [] []" "currently_running s' = NULL"
    "alloc_room s' k b" "live s \<subseteq> live s'" "syms s' = syms s" "drv s' = drv s" "cpu s' = cpu s"
    "DEBUG s' = DEBUG s" "SYSTICK s' = SYSTICK s" "tInfo s' = tInfo s" "io s' = io s" "mem s' = mem s"
    "USEABLE_MEM_START s' = USEABLE_MEM_START s"
proof -
  let ?s0 = "s\<lparr>currently_running := NULL\<rparr>"
  have "alloc_room ?s0 (Suc (Suc k)) (16 + (16 + b))"
    using assms alloc_room_cong [of ?s0 s] by (simp add: add.assoc)
  then obtain q1 s1 n1 t1 where A: "new_queue ?s0 = Inr (q1, s1)" "q1 \<noteq> NULL" "q1 \<notin> fst ` live ?s0"
    "live s1 = insert (q1, n1) (live ?s0)" "alloc_frame ?s0 t1"
    "s1 = t1\<lparr>queues := (queues ?s0)(q1 := \<lparr>q_size = 0, head = NULL, tail = NULL\<rparr>)\<rparr>" "alloc_room s1 (Suc k) (16 + b)"
    by (rule new_queue_ok)
  let ?s2 = "s1\<lparr>running_tasks := q1\<rparr>"
  have C2: "alloc_room ?s2 k b = alloc_room s1 k b" "live ?s2 = live s1" for k b
    using alloc_room_cong [of ?s2 s1] by simp_all
  have "alloc_room ?s2 (Suc k) (16 + b)" using A(7) C2 by simp
  then obtain q2 s3 n2 t2 where B: "new_queue ?s2 = Inr (q2, s3)" "q2 \<noteq> NULL" "q2 \<notin> fst ` live ?s2"
    "live s3 = insert (q2, n2) (live ?s2)" "alloc_frame ?s2 t2"
    "s3 = t2\<lparr>queues := (queues ?s2)(q2 := \<lparr>q_size = 0, head = NULL, tail = NULL\<rparr>)\<rparr>" "alloc_room s3 k b"
    by (rule new_queue_ok)
  let ?s' = "s3\<lparr>waiting_tasks := q2, process_stats := zero_ProcessStats, kernel_pids := minus_one_KernelPids\<rparr>"
  note K1 = alloc_frame_kernel [OF A(5)] alloc_frame_sel [OF A(5)]
  note K2 = alloc_frame_kernel [OF B(5)] alloc_frame_sel [OF B(5)]
  have run: "init_scheduler s = Inr (0, ?s')"
    using A(1,2) B(1,2) by (simp add: init_scheduler_def Let_def cong: bnd_weak_cong)
  have ne: "q1 \<noteq> q2" using A(4) B(3) C2(2) by auto
  have q: "queues ?s' q1 = \<lparr>q_size = 0, head = NULL, tail = NULL\<rparr>" "queues ?s' q2 = \<lparr>q_size = 0, head = NULL, tail = NULL\<rparr>"
    using ne by (simp_all add: B(6) A(6))
  have w: "running_tasks ?s' = q1" "waiting_tasks ?s' = q2" using K2(8) by (simp_all add: B(6))
  have "sched_ok ?s' [] []"
    unfolding sched_ok_def w is_queue_def using q ne A(2) B(2) by simp
  moreover have "alloc_room ?s' k b" using B(7) alloc_room_cong [of ?s' s3] by simp
  moreover have "live ?s' = live s3" using alloc_room_cong [of ?s' s3] by simp
  moreover have "live ?s0 = live s" using alloc_room_cong [of ?s0 s] by simp
  ultimately show ?thesis
    using K1 K2 A(4) B(4) C2(2) by (intro that [OF run]) (auto simp: B(6) A(6))
qed

section \<open>run_scheduler and setup_kernel_runtime\<close>

lemma run_scheduler_ok:
  assumes ok: "sched_ok s [] [n]" and p: "pid (task s n) = 0" "idle_task (kernel_pids s) = 0"
    and t: "3 < length (timer_configurations (drv s))"
  obtains s' where "run_scheduler junk1 junk2 s = Inr (0, s')" "sched_ok s' [n] []" "currently_running s' = n"
    "task_to_preserve s' = n" "task s' n = (task s n)\<lparr>tstate := READY\<rparr>" "mem s' = mem s" "cpu s' = cpu s"
    "syms s' = syms s" "io s' = io s" "MEM_TABLE s' = MEM_TABLE s" "USEABLE_MEM_START s' = USEABLE_MEM_START s"
    "mutex s' = mutex s" "SYSTICK s' = SYSTICK s" "DEBUG s' = DEBUG s" "kernel_pids s' = kernel_pids s"
    "slists s' = slists s" "snodes s' = snodes s" "\<forall>m. tdata (nodes s' m) = tdata (nodes s m)"
proof -
  have len: "length [0, 0, 0, 0, junk1 :: u32] = 5" "length [0, 0, 0, 0, junk2 :: u32] = 5" by simp_all
  have "uint (3 :: u32) < int (length (timer_configurations (drv s)))" using t by simp
  then obtain s1 where T1: "timer_init TimerForTaskSleep [0, 0, 0, 0, junk1] ResolutionForSleepFunction s = Inr s1"
    "dev_frame s s1" "length (timer_configurations (drv s1)) = length (timer_configurations (drv s))"
    using timer_init_ok [OF len(1) prescaler_values(2)] by metis
  let ?s1 = "enable_ccx_ir TimerForTaskSleep 1 s1"
  have b1: "bus_frame s1 ?s1" by (intro bus_frame_intros)
  have "uint (2 :: u32) < int (length (timer_configurations (drv ?s1)))"
    using t T1(3) bus_frame_sel(3) [OF b1] by simp
  then obtain s2 where T2: "timer_init TimerForGlobalCounting [0, 0, 0, 0, junk2] 1 ?s1 = Inr s2" "dev_frame ?s1 s2"
    using timer_init_ok [OF len(2) prescaler_values(1)] by metis
  define s3 where "s3 = timer_start TimerForGlobalCounting (timer_flush_counter TimerForGlobalCounting s2)"
  have b3: "bus_frame s2 s3" unfolding s3_def by (intro bus_frame_intros)
  have f3: "dev_frame s s3"
    using T1(2) dev_frame_bus [OF b1] T2(2) dev_frame_bus [OF b3] by (blast intro: dev_frame_trans)
  note K = dev_frame_kernel [OF f3]
  have ok3: "sched_ok s3 [] [n]" by (rule sched_ok_dev [OF ok f3])
  have tk3: "task s3 = task s" by (rule ext) (simp add: task_def K)
  have sz: "size_of_queue (running_tasks s3) s3 = Inr 0"
    using queue_size [OF sched_okD(1) [OF ok3]] by (simp add: unat_eq_zero)
  from ok3 show ?thesis
  proof (cases rule: wakeup_pid_cases [where p = "pid_arg (idle_task (kernel_pids s3))"])
    case none
    then show ?thesis using p K(10) by (simp add: tk3 pid_of_def pid_arg_def)
  next
    case (woken as c bs s4)
    then have e: "as = []" "c = n" "bs = []" by (cases as; simp)+
    have nn: "n \<noteq> NULL" using woken(5) e by simp
    have h: "get_head_element (running_tasks s4) s4 = Inr n"
      using queue_head [OF sched_okD(1) [OF woken(6)]] e by simp
    let ?s' = "s4\<lparr>currently_running := n, task_to_preserve := n\<rparr>"
    have run: "run_scheduler junk1 junk2 s = Inr (0, ?s')"
      using T1(1) T2(1) sz woken(4) h nn e
      by (simp add: run_scheduler_def Let_def s3_def [symmetric] cong: bnd_weak_cong)
    note W = wake_frame_sel [OF woken(9)]
    have ok': "sched_ok ?s' [n] []"
      by (rule sched_ok_tcbs [of s4]) (use woken(6) e in \<open>simp_all add: same_queues_def\<close>)
    have tk': "task ?s' n = (task s n)\<lparr>tstate := READY\<rparr>"
    proof -
      have "task ?s' n = task s4 n" by (simp add: task_def)
      also have "\<dots> = (task s3 n)\<lparr>tstate := READY\<rparr>" using woken(7,8) e(2) by (simp add: task_def)
      finally show ?thesis unfolding tk3 .
    qed
    note D = dev_frame_sel [OF f3]
    show ?thesis
    proof (rule that [OF run ok' _ _ tk'])
      show "mem ?s' = mem s" "cpu ?s' = cpu s" "syms ?s' = syms s" "io ?s' = io s" "kernel_pids ?s' = kernel_pids s"
        using W(1,2,8,10,11) K(4,5,10-12) by simp_all
      show "MEM_TABLE ?s' = MEM_TABLE s" "USEABLE_MEM_START ?s' = USEABLE_MEM_START s" "mutex ?s' = mutex s"
        using W(12,13,21) K(13-15) by simp_all
      show "SYSTICK ?s' = SYSTICK s" "DEBUG ?s' = DEBUG s" using W(16,17) D(1,2) by simp_all
      show "slists ?s' = slists s" "snodes ?s' = snodes s" "\<forall>m. tdata (nodes ?s' m) = tdata (nodes s m)"
        using W(14,15) K(1,17,18) woken(8) by simp_all
    qed simp_all
  qed
qed

lemma setup_kernel_runtime_ok:
  assumes room: "alloc_room s (7 + k) (1720 + b)" and t: "3 < length (timer_configurations (drv s))"
  obtains s' n stk where "setup_kernel_runtime loc junk1 junk2 s = Inr (KERNEL_INIT_SUCCEDED, s')"
    "sched_ok s' [n] []" "currently_running s' = n" "task_to_preserve s' = n" "ready s' n"
    "pid (task s' n) = 0" "sp (task s' n) = stk + 1472" "stk \<in> fst ` live s'" "parent_task (task s' n) = NULL"
    "task_frame (mem s') (stk + 1472) (idle_runner_addr (syms s)) (finish_task_addr (syms s))"
    "idle_task (kernel_pids s') = 0" "cpu s' = cpu s" "syms s' = syms s" "io s' = io s" "alloc_room s' k b"
    "SYSTICK s' = SYSTICK s" "DEBUG s' = DEBUG s" "USEABLE_MEM_START s' = USEABLE_MEM_START s"
    "\<not> is_external (task s' n)" "stacksection_lower_bound (task s' n) = stk" "is_slist s' (child_tasks (task s' n)) []"
    "{n, tdata (nodes s' n), child_tasks (task s' n)} \<subseteq> fst ` live s'" "\<exists>k\<ge>1600. (stk, k) \<in> live s'"
proof -
  have "alloc_room s (Suc (Suc (5 + k))) (32 + (1688 + b))" using room by (simp add: add.assoc [symmetric])
  then obtain s1 where I: "init_scheduler s = Inr (0, s1)" "sched_ok s1 [] []" "currently_running s1 = NULL"
    "alloc_room s1 (5 + k) (1688 + b)" "live s \<subseteq> live s1" "syms s1 = syms s" "drv s1 = drv s" "cpu s1 = cpu s"
    "DEBUG s1 = DEBUG s" "SYSTICK s1 = SYSTICK s" "tInfo s1 = tInfo s" "io s1 = io s" "mem s1 = mem s"
    "USEABLE_MEM_START s1 = USEABLE_MEM_START s"
    by (rule init_scheduler_ok)
  have pre: "owns s1 (set [] \<union> set [])" "owns s1 ((\<lambda>n. tdata (nodes s1 n)) ` (set [] \<union> set []))"
    "currently_running s1 \<noteq> NULL \<longrightarrow> currently_running s1 \<in> set [] \<union> set []" "can_register s1"
    "length ([] :: addr list) + length ([] :: addr list) + 1 < 2 ^ 32 - 1"
    using I(3) by (simp_all add: owns_def can_register_def)
  have p0: "of_nat (length ([] :: addr list) + length ([] :: addr list)) = (0 :: u8)" by simp
  from I(2) pre(1-4) I(4) pre(5) obtain s2 n stk l where C:
    "create_task (idle_runner_addr (syms s1)) 0 loc s1 = Inr (ucast (0 :: u8), s2)" "sched_ok s2 [] [n]"
    "task s2 n = new_tcb 0 0 (task_size (tInfo s1)) stk (parent_of_new s1) l"
    "task_frame (mem s2) (stk + 1472) (idle_runner_addr (syms s1)) (finish_task_addr (syms s1))"
    "{n, tdata (nodes s2 n), stk, l} \<subseteq> fst ` live s2" "is_slist s2 l []" "alloc_room s2 k b"
    "drv s2 = drv s1" "cpu s2 = cpu s1" "syms s2 = syms s1" "io s2 = io s1" "SYSTICK s2 = SYSTICK s1" "DEBUG s2 = DEBUG s1"
    "USEABLE_MEM_START s2 = USEABLE_MEM_START s1" "\<exists>k\<ge>1600. (stk, k) \<in> live s2"
    by (rule create_task_ok [where fn = "idle_runner_addr (syms s1)" and ram = 0 and a = loc]) simp
  let ?s3 = "s2\<lparr>kernel_pids := (kernel_pids s2)\<lparr>idle_task := 0\<rparr>\<rparr>"
  have c3: "MEM_TABLE ?s3 = MEM_TABLE s2" "USEABLE_MEM_START ?s3 = USEABLE_MEM_START s2" "mutex ?s3 = mutex s2" by simp_all
  have ok3: "sched_ok ?s3 [] [n]" using C(2) by (rule sched_ok_tcbs) (simp_all add: same_queues_def)
  have p3: "pid (task ?s3 n) = 0" "idle_task (kernel_pids ?s3) = 0" "3 < length (timer_configurations (drv ?s3))"
    using C(3,8) I(7) t by (simp_all add: task_def)
  from ok3 p3 obtain s' where R: "run_scheduler junk1 junk2 ?s3 = Inr (0, s')" "sched_ok s' [n] []"
    "currently_running s' = n" "task_to_preserve s' = n" "task s' n = (task ?s3 n)\<lparr>tstate := READY\<rparr>" "mem s' = mem ?s3"
    "cpu s' = cpu ?s3" "syms s' = syms ?s3" "io s' = io ?s3" "MEM_TABLE s' = MEM_TABLE ?s3"
    "USEABLE_MEM_START s' = USEABLE_MEM_START ?s3" "mutex s' = mutex ?s3" "SYSTICK s' = SYSTICK ?s3" "DEBUG s' = DEBUG ?s3"
    "kernel_pids s' = kernel_pids ?s3"
    "slists s' = slists ?s3" "snodes s' = snodes ?s3" "\<forall>m. tdata (nodes s' m) = tdata (nodes ?s3 m)"
    by (rule run_scheduler_ok)
  have run: "setup_kernel_runtime loc junk1 junk2 s = Inr (KERNEL_INIT_SUCCEDED, s')"
    using I(1) C(1) R(1) by (simp add: setup_kernel_runtime_def Let_def pid_arg_def cong: bnd_weak_cong)
  have lv: "alloc_room s' k b" "live s' = live s2"
    using alloc_room_cong [of s' s2] R(10-12) C(7) by simp_all
  have tk: "task s' n = (new_tcb 0 0 (task_size (tInfo s1)) stk (parent_of_new s1) l)\<lparr>tstate := READY\<rparr>"
    unfolding R(5) C(3) [symmetric] by (simp add: task_def)
  show ?thesis
  proof (rule that [OF run R(2-4)])
    show "ready s' n" unfolding ready_def tk by simp
    show "pid (task s' n) = 0" "sp (task s' n) = stk + 1472" "parent_task (task s' n) = NULL"
      unfolding tk using I(3) by (simp_all add: parent_of_new_def new_tcb_def)
    show "stk \<in> fst ` live s'" "alloc_room s' k b" using lv C(5) by simp_all
    show "task_frame (mem s') (stk + 1472) (idle_runner_addr (syms s)) (finish_task_addr (syms s))"
      using R(6) C(4) I(6) by simp
    show "idle_task (kernel_pids s') = 0" using R(15) by simp
    show "\<not> is_external (task s' n)" "stacksection_lower_bound (task s' n) = stk" "is_slist s' (child_tasks (task s' n)) []"
      "{n, tdata (nodes s' n), child_tasks (task s' n)} \<subseteq> fst ` live s'" "\<exists>k\<ge>1600. (stk, k) \<in> live s'"
      unfolding tk using C(5,6,15) R(16-18) lv(2) by (simp_all add: is_slist_def)
    show "cpu s' = cpu s" "syms s' = syms s" "io s' = io s" "SYSTICK s' = SYSTICK s" "DEBUG s' = DEBUG s"
      "USEABLE_MEM_START s' = USEABLE_MEM_START s"
      using R(7-9,11,13,14) C(9-14) I(6,8-10,12,14) by simp_all
  qed
qed

section \<open>bootstrap\<close>

lemma task_frame_st32:
  assumes "task_frame m p fn ret" "4 \<le> unat (p - a)" "unat (p - a) + 64 \<le> 2 ^ 32"
  shows "task_frame (st32 a v m) p fn ret"
proof -
  have "ld32 (st32 a v m) (p + of_nat i) = ld32 m (p + of_nat i)" if "i \<le> 60" for i
  proof (rule ld32_st32_other)
    have e: "p + of_nat i - a = p - a + of_nat i" by simp
    have u: "unat (p - a + of_nat i) = unat (p - a) + i"
      using assms(3) that by (subst unat_word_ariths) (simp add: unat_of_nat)
    show "4 \<le> unat (p + of_nat i - a)" "unat (p + of_nat i - a) + 4 \<le> 2 ^ 32"
      using assms(2,3) that unfolding e u by simp_all
  qed
  from this [of "4 * i" for i] this [of 52] this [of 56] this [of 60] assms(1) show ?thesis
    by (simp add: task_frame_def)
qed

lemma bus_frame_kernel:
  fixes s :: kernel
  assumes "bus_frame s s'"
  shows "dev_frame s s'" "drv s' = drv s"
  using dev_frame_bus [OF assms] bus_frame_sel(3) [OF assms] by simp_all

lemma bus_frame_gpio:
  "bus_frame s t \<Longrightarrow> bus_frame s (snd (init_gpio g t))" "bus_frame s t \<Longrightarrow> bus_frame s (set_moder g m t)"
  "bus_frame s t \<Longrightarrow> bus_frame s (into_af g n t)" "bus_frame s t \<Longrightarrow> bus_frame s (set_otyper g ot t)"
  unfolding init_gpio_def set_moder_def into_af_def set_otyper_def Let_def snd_conv
  by (auto simp only: intro: bus_frame_MODIFY split: if_splits)

lemma init_uart_frame:
  fixes s :: kernel
  shows "dev_frame s (snd (init_uart g s))"
proof -
  let ?s0 = "set_dma_action DmaIsIdle s"
  have "dev_frame s ?s0" by (simp add: dev_frame_def set_dma_action_def)
  moreover have "bus_frame ?s0 (snd (init_uart g s))"
    unfolding init_uart_def dma_init_def Let_def split_beta snd_conv
    by (intro bus_frame_intros bus_frame_gpio)
  ultimately show ?thesis using bus_frame_kernel(1) dev_frame_trans by blast
qed

lemma setup_devices_ok:
  assumes room: "alloc_room s (Suc k) (16 + b)" and c: "6 \<le> length (r4_11 (cpu s))" "lr (cpu s) AND 4 = 0"
    and rx: "rx_state_addr (syms s) \<noteq> NULL"
  obtains s' where "setup_devices call s = Inr s'" "nodes s' = nodes s" "queues s' = queues s" "tcbs s' = tcbs s"
    "mem s' = st32 (internal_rx_state_addr (syms s)) (rx_state_addr (syms s)) (mem s)"
    "running_tasks s' = running_tasks s" "waiting_tasks s' = waiting_tasks s"
    "currently_running s' = currently_running s" "task_to_preserve s' = task_to_preserve s"
    "kernel_pids s' = kernel_pids s" "syms s' = syms s" "r4_11 (cpu s') = (r4_11 (cpu s))[2 := 9, 5 := internal_rx_state_addr (syms s)]"
    "lr (cpu s') = lr (cpu s)" "SYSTICK s' = SYSTICK s" "DEBUG s' = DEBUG s"
    "slists s' = slists s" "snodes s' = snodes s" "live s \<subseteq> live s'" "alloc_room s' k b"
    "uart_rx_buffer (io s') = replicate 4 0" "bytes_received (io s') = 0"
proof -
  have "alloc_room s (Suc k) (align_nat 8 (unat (16 :: u32)) + b)" using room by (simp add: align_nat_def)
  moreover have "0 < unat (16 :: u32)" "unat (16 :: u32) \<le> 32760" by simp_all
  ultimately obtain t s1 n where A: "allocate 16 s = Inr (t, s1)" "t \<noteq> NULL" "alloc_frame s s1"
    "alloc_room s1 k b" "live s1 = insert (t, n) (live s)" by (rule alloc_step)
  note K = alloc_frame_kernel [OF A(3)] alloc_frame_sel [OF A(3)]
  let ?p = "internal_rx_state_addr (syms s)"
  let ?c = "(cpu s)\<lparr>r4_11 := (r4_11 (cpu s))[2 := 9, 5 := ?p], svc_pending := False\<rparr>"
  let ?s2 = "s1\<lparr>cpu := ?c, mem := st32 ?p (rx_state_addr (syms s)) (mem s)\<rparr>"
  have sv: "svcall_isr call (svcall_param (trap_number getIoBuffer) (internal_rx_state_addr (syms s1)) s1) = Inr ?s2"
    using c K by (simp add: svcall_isr_def svcall_param_def save_psp_if_threadmode_def Let_def)
  define u where "u = init_uart \<lparr>port = 0, pin = 0, base_adress = 0, gpio_regs = 0\<rparr> ?s2"
  have d: "dev_frame ?s2 (snd u)" unfolding u_def by (rule init_uart_frame)
  note D = dev_frame_kernel [OF d] dev_frame_sel [OF d]
  let ?s3 = "snd u"
  let ?s' = "?s3\<lparr>io := (io ?s3)\<lparr>byte_in_id := 4, rx_state := 0, in_buffer := 0, bytes_received := 0,
       uart_rx_buffer := replicate 4 0\<rparr>\<rparr>"
  have "internal_rx_state (?s3\<lparr>io := i\<rparr>) = rx_state_addr (syms s)" for i
    using D K by (simp add: internal_rx_state_def)
  then have "init_isr ?s3 = Inr ?s'"
    using rx D K by (simp add: init_isr_def store_rx_state_def Let_def)
  then have "setup_devices call s = Inr ?s'"
    using A(1,2) sv unfolding setup_devices_def u_def by (simp add: Let_def split_beta cong: bnd_weak_cong)
  moreover have "live ?s' = live s1" "alloc_room ?s' k b"
    using D(13-15) alloc_room_cong [of ?s' s1] A(4) by simp_all
  ultimately show ?thesis
    using D K A(5) by (intro that [of ?s']) (simp_all, auto)
qed

end
