(* ===== verification/Irq_Properties.thy ===== *)
theory Irq_Properties
  imports Kernel_Properties Boot
begin

text \<open>
  Properties of the interrupt handlers: reception of commands over the serial line and the
  table of external interrupts.  The hardware is present as the values the status and data
  registers hold when the handler runs.
\<close>

section \<open>Outcomes of an operation\<close>

text \<open>\<open>outcome E P m\<close>: the operation ends in a fault of \<open>E\<close> or with a value that satisfies \<open>P\<close>.\<close>

definition outcome :: "fault set \<Rightarrow> ('a \<Rightarrow> bool) \<Rightarrow> 'a res \<Rightarrow> bool" where
  "outcome E P m = (case m of Inl e \<Rightarrow> e \<in> E | Inr x \<Rightarrow> P x)"

lemma outcome_simps [simp]: "outcome E P (Inl e) \<longleftrightarrow> e \<in> E" "outcome E P (Inr x) \<longleftrightarrow> P x"
  by (simp_all add: outcome_def)

lemma outcome_bnd: "outcome E Q m \<Longrightarrow> (\<And>x. Q x \<Longrightarrow> outcome E P (f x)) \<Longrightarrow> outcome E P (bnd m f)"
  by (cases m) auto

lemma outcome_if: "(c \<Longrightarrow> outcome E P a) \<Longrightarrow> (\<not> c \<Longrightarrow> outcome E P b) \<Longrightarrow> outcome E P (if c then a else b)"
  by simp

lemma outcomeI: "(\<And>e. m = Inl e \<Longrightarrow> e \<in> E) \<Longrightarrow> (\<And>x. m = Inr x \<Longrightarrow> P x) \<Longrightarrow> outcome E P m"
  by (cases m) auto

lemma outcome_mono: "outcome E P m \<Longrightarrow> E \<subseteq> F \<Longrightarrow> (\<And>x. P x \<Longrightarrow> Q x) \<Longrightarrow> outcome F Q m"
  by (cases m) auto

section \<open>The bus\<close>

lemma READ_bus: "READ_REGISTER a s = (v, s') \<Longrightarrow> bus_frame s s'"
  by (auto simp: READ_REGISTER_def bus_frame_def split: list.splits)

lemma poll_bus: "poll a p s = Inr s' \<Longrightarrow> bus_frame s s'"
  using poll_shape [of a p s s'] by (auto simp: bus_frame_def)

lemma poll_outcome: "outcome {Spin} (bus_frame s) (poll a p s)"
  by (rule outcomeI) (auto dest: poll_fault poll_bus)

lemma print_loop_outcome: "outcome {Spin} (bus_frame s) (print_loop bs s)"
proof (induction bs arbitrary: s)
  case (Cons b bs)
  show ?case
    unfolding print_loop.simps
  proof (rule outcome_bnd [OF poll_outcome])
    fix s1 assume "bus_frame s s1"
    note f = bus_frame_WRITE [OF this, of "uart ''dr''" "ucast b"]
    show "outcome {Spin} (bus_frame s) (print_loop bs (WRITE_REGISTER (uart ''dr'') (ucast b) s1))"
      by (rule outcome_mono [OF Cons.IH order_refl]) (rule bus_frame_trans [OF f])
  qed
qed simp

lemma print_outcome: "outcome {Spin} (bus_frame s) (print bs s)"
  unfolding print_def
proof (rule outcome_bnd [OF print_loop_outcome])
  fix s1 assume f: "bus_frame s s1"
  show "outcome {Spin} (bus_frame s) (poll (uart ''sr'') (\<lambda>v. v AND shl 1 UART_TC \<noteq> 0) s1)"
    by (rule outcome_mono [OF poll_outcome order_refl]) (rule bus_frame_trans [OF f])
qed

section \<open>The serial line\<close>

text \<open>
  What the handler keeps: room for the next byte, the pointer start-up has set, and the tasks
  of the two queues, none lost and none added.
\<close>

definition rx_base :: "addr multiset \<Rightarrow> kernel \<Rightarrow> bool" where
  "rx_base N s \<longleftrightarrow> rx_state_addr (syms s) \<noteq> NULL \<and> internal_rx_state s = rx_state_addr (syms s) \<and>
     (\<exists>R W. sched_ok s R W \<and> mset (R @ W) = N)"

definition rx_ok :: "addr multiset \<Rightarrow> kernel \<Rightarrow> bool" where
  "rx_ok N s \<longleftrightarrow> rx_base N s \<and> length (uart_rx_buffer (io s)) = 4 \<and> unat (bytes_received (io s)) < 4"

lemma rx_base_io [simp]: "rx_base N (s\<lparr>io := i\<rparr>) \<longleftrightarrow> rx_base N s"
proof -
  have "sched_ok (s\<lparr>io := i\<rparr>) R W = sched_ok s R W" for R W
    using sched_ok_tcbs [of s R W "s\<lparr>io := i\<rparr>"] sched_ok_tcbs [of "s\<lparr>io := i\<rparr>" R W s]
    by (auto simp: same_queues_def)
  then show ?thesis by (simp add: rx_base_def internal_rx_state_def)
qed

lemma rx_base_bus:
  assumes "bus_frame s s'" "rx_base N s"
  shows "rx_base N s'"
proof -
  note K = dev_frame_kernel [OF dev_frame_bus [OF assms(1)]]
  show ?thesis
    using sched_ok_dev [OF _ dev_frame_bus [OF assms(1)]] assms(2)
    unfolding rx_base_def internal_rx_state_def K by auto
qed

lemma rx_ok_bus: "bus_frame s s' \<Longrightarrow> rx_ok N s \<Longrightarrow> rx_ok N s'"
  using rx_base_bus [of s s' N] dev_frame_kernel [OF dev_frame_bus, of s s'] by (simp add: rx_ok_def)

lemma rx_store: "rx_base N s \<Longrightarrow> store_rx_state v s = Inr (s\<lparr>io := (io s)\<lparr>rx_state := v\<rparr>\<rparr>)"
  by (simp add: store_rx_state_def rx_base_def Let_def)

lemma rx_load: "rx_base N s \<Longrightarrow> load_rx_state s = Inr (rx_state (io s))"
  by (simp add: load_rx_state_def rx_base_def Let_def)

lemma reboot_resets: "reboot t s = Inl CoreReset"
  by (simp add: reboot_def soft_reset_def Let_def)

lemma rx_wakeup:
  assumes "rx_base N s"
  obtains q s' where "wakeup_pid p s = Inr (q, s')" "rx_base N s'" "io s' = io s"
proof -
  from assms obtain R W where s: "sched_ok s R W" "mset (R @ W) = N" by (auto simp: rx_base_def)
  from s(1) show ?thesis
  proof (cases rule: wakeup_pid_cases [where p = p])
    case none
    with assms show ?thesis by (intro that [of NULL s]) simp_all
  next
    case (woken as c bs s')
    note K = wake_frame_sel [OF woken(9)]
    have "mset ((R @ [c]) @ as @ bs) = N" using s(2) woken(1) by simp
    then have "rx_base N s'"
      using assms woken(6) unfolding rx_base_def internal_rx_state_def K by blast
    then show ?thesis using that woken(4) K(10) by blast
  qed
qed

text \<open>The fourth byte: the command is acted upon.\<close>

definition rx_command :: "u8 list \<Rightarrow> kernel \<Rightarrow> kernel res" where
  "rx_command b s4 =
     bnd (store_rx_state (rx_word b AND 0xFF) s4) (\<lambda>s5.
     bnd (load_rx_state s5) (\<lambda>st.
     bnd (if st = REBOOT then reboot RebootRequestedByOperator s5
          else bnd (wakeup_pid (pid_arg (external_io_runner_pid (kernel_pids s5))) s5) (\<lambda>(q, t). Inr t)) (\<lambda>s6.
     Inr (s6\<lparr>io := (io s6)\<lparr>bytes_received := 0\<rparr>\<rparr>))))"

lemma rx_command_ok:
  assumes "rx_base N s" "length (uart_rx_buffer (io s)) = 4"
  shows "outcome {CoreReset} (rx_ok N) (rx_command b s)"
proof -
  let ?v = "rx_word b AND 0xFF" let ?s5 = "s\<lparr>io := (io s)\<lparr>rx_state := rx_word b AND 0xFF\<rparr>\<rparr>"
  have b5: "rx_base N ?s5" using assms(1) by simp
  from b5 obtain q s6 where w: "wakeup_pid (pid_arg (external_io_runner_pid (kernel_pids ?s5))) ?s5 = Inr (q, s6)"
    "rx_base N s6" "io s6 = io ?s5" by (rule rx_wakeup)
  have "rx_ok N (s6\<lparr>io := (io s6)\<lparr>bytes_received := 0\<rparr>\<rparr>)"
    using w(2,3) assms(2) by (simp add: rx_ok_def)
  then show ?thesis
    unfolding rx_command_def rx_store [OF assms(1)] bnd_simps rx_load [OF b5] using w(1)
    by (simp add: reboot_resets)
qed

text \<open>The handler, by the two cases of its status read.\<close>

definition rx_overrun :: "kernel \<Rightarrow> kernel res" where
  "rx_overrun s1 =
     bnd (if \<not> hostIsNotified (io s1)
          then bnd (print [-1, -1, -1, -1] s1) (\<lambda>t. Inr (t\<lparr>io := (io t)\<lparr>hostIsNotified := True\<rparr>\<rparr>))
          else Inr s1) (\<lambda>s2.
     let (sr2, s3) = READ_REGISTER USART1_sr s2 in
     bnd (if sr2 AND shl 1 UART_RXNE \<noteq> 0 then
            let (d, t) = read_data_register s3 in
            bnd (wr (uart_rx_buffer (io t)) (uint (bytes_received (io t))) (ucast d)) (\<lambda>b.
            Inr (t\<lparr>io := (io t)\<lparr>uart_rx_buffer := b\<rparr>\<rparr>))
          else Inr s3) (\<lambda>s4.
     Inr (s4\<lparr>io := (io s4)\<lparr>bytes_received := 0\<rparr>\<rparr>)))"

definition rx_byte :: "kernel \<Rightarrow> kernel res" where
  "rx_byte s1 =
     (let s2 = s1\<lparr>io := (io s1)\<lparr>hostIsNotified := False\<rparr>\<rparr>;
          (d, s3) = read_data_register s2 in
      bnd (wr (uart_rx_buffer (io s3)) (uint (bytes_received (io s3))) (ucast d)) (\<lambda>b.
      let s4 = s3\<lparr>io := (io s3)\<lparr>uart_rx_buffer := b, bytes_received := bytes_received (io s3) + 1\<rparr>\<rparr> in
      if bytes_received (io s4) \<noteq> BUFFERSIZE then Inr s4 else rx_command b s4))"

lemma uart_isr_cases:
  "READ_REGISTER USART1_sr s = (sr, s1) \<Longrightarrow>
   uart_isr_handler s = (if sr AND shl 1 UART_ORE \<noteq> 0 then rx_overrun s1 else rx_byte s1)"
  by (simp only: uart_isr_handler_def rx_overrun_def rx_byte_def rx_command_def Let_def prod.case)

lemma rx_slot:
  assumes "rx_ok N s"
  shows "wr (uart_rx_buffer (io s)) (uint (bytes_received (io s))) v =
    Inr ((uart_rx_buffer (io s))[unat (bytes_received (io s)) := v])"
proof -
  have "int (unat (bytes_received (io s))) < 4" using assms by (simp add: rx_ok_def del: of_nat_unat)
  then show ?thesis using assms by (simp add: rx_ok_def)
qed

lemma rx_overrun_ok:
  assumes "rx_ok N s"
  shows "outcome {Spin, CoreReset} (rx_ok N) (rx_overrun s)"
  unfolding rx_overrun_def
proof (rule outcome_bnd [where Q = "rx_ok N"])
  have "outcome {Spin, CoreReset} (\<lambda>t. rx_ok N (t\<lparr>io := (io t)\<lparr>hostIsNotified := True\<rparr>\<rparr>)) (print [-1, -1, -1, -1] s)"
    by (rule outcome_mono [OF print_outcome]) (use assms rx_ok_bus in \<open>auto simp: rx_ok_def\<close>)
  then show "outcome {Spin, CoreReset} (rx_ok N) (if \<not> hostIsNotified (io s)
      then bnd (print [-1, -1, -1, -1] s) (\<lambda>t. Inr (t\<lparr>io := (io t)\<lparr>hostIsNotified := True\<rparr>\<rparr>)) else Inr s)"
    using assms by (auto intro: outcome_bnd)
  fix s2 assume s2: "rx_ok N s2"
  obtain sr2 s3 where r: "READ_REGISTER USART1_sr s2 = (sr2, s3)" by fastforce
  obtain d t where d: "read_data_register s3 = (d, t)" by fastforce
  have ok: "rx_ok N s3" "rx_ok N t"
    using READ_bus [OF r] READ_bus [OF d [unfolded read_data_register_def]] rx_ok_bus s2 by blast+
  show "outcome {Spin, CoreReset} (rx_ok N)
     (let (sr2, s3) = READ_REGISTER USART1_sr s2 in
      bnd (if sr2 AND shl 1 UART_RXNE \<noteq> 0 then
             let (d, t) = read_data_register s3 in
             bnd (wr (uart_rx_buffer (io t)) (uint (bytes_received (io t))) (ucast d)) (\<lambda>b.
             Inr (t\<lparr>io := (io t)\<lparr>uart_rx_buffer := b\<rparr>\<rparr>))
           else Inr s3) (\<lambda>s4.
      Inr (s4\<lparr>io := (io s4)\<lparr>bytes_received := 0\<rparr>\<rparr>)))"
    unfolding r d Let_def prod.case rx_slot [OF ok(2)] using ok by (simp add: rx_ok_def)
qed

lemma rx_byte_ok:
  assumes "rx_ok N s"
  shows "outcome {Spin, CoreReset} (rx_ok N) (rx_byte s)"
proof -
  let ?s2 = "s\<lparr>io := (io s)\<lparr>hostIsNotified := False\<rparr>\<rparr>"
  obtain d s3 where d: "read_data_register ?s2 = (d, s3)" by fastforce
  have "rx_ok N ?s2" using assms by (simp add: rx_ok_def)
  then have ok: "rx_ok N s3" using READ_bus [OF d [unfolded read_data_register_def]] rx_ok_bus by blast
  let ?b = "(uart_rx_buffer (io s3))[unat (bytes_received (io s3)) := ucast d]"
  let ?s4 = "s3\<lparr>io := (io s3)\<lparr>uart_rx_buffer := ?b, bytes_received := bytes_received (io s3) + 1\<rparr>\<rparr>"
  have u: "unat (bytes_received (io s3) + 1) = unat (bytes_received (io s3)) + 1"
    using ok by (simp add: rx_ok_def unat_word_ariths)
  have "unat (bytes_received (io s3) + 1) < 4" if "bytes_received (io s3) + 1 \<noteq> 4"
  proof -
    have "unat (bytes_received (io s3) + 1) \<noteq> unat (4 :: u8)" using that word_unat_eq_iff by blast
    then show ?thesis using u ok by (simp add: rx_ok_def)
  qed
  then have small: "bytes_received (io s3) + 1 \<noteq> 4 \<Longrightarrow> rx_ok N ?s4" using ok by (simp add: rx_ok_def)
  have full: "outcome {Spin, CoreReset} (rx_ok N) (rx_command ?b ?s4)"
    by (rule outcome_mono [OF rx_command_ok]) (use ok in \<open>auto simp: rx_ok_def\<close>)
  have b4: "bytes_received (io ?s4) = bytes_received (io s3) + 1" by simp
  show ?thesis
    unfolding rx_byte_def d Let_def prod.case rx_slot [OF ok] bnd_simps b4
    by (rule outcome_if) (simp only: outcome_simps, erule small, rule full)
qed

text \<open>
  C24. The serial interrupt keeps its buffer in bounds, whatever the hardware presents: from a
  state with room for a byte the handler returns to such a state with the same tasks in the two
  queues, or resets the core (the reboot command), or waits for ever on a transmitter that never
  gets ready (reporting an overrun).  It has no other outcome; in particular no index leaves the
  four-byte buffer and no null pointer is followed.
\<close>
theorem uart_isr_invariant:
  assumes "rx_ok N s"
  shows "outcome {Spin, CoreReset} (rx_ok N) (uart_isr_handler s)"
proof -
  obtain sr s1 where r: "READ_REGISTER USART1_sr s = (sr, s1)" by fastforce
  have "rx_ok N s1" using READ_bus [OF r] assms by (rule rx_ok_bus)
  then show ?thesis unfolding uart_isr_cases [OF r] using rx_overrun_ok rx_byte_ok by simp
qed

definition rx_demo :: kernel where
  "rx_demo = demo_kernel\<lparr>mem := st32 0x20000014 0x20000010 (\<lambda>_. 0),
     kernel_pids := (kernel_pids demo_kernel)\<lparr>external_io_runner_pid := 0\<rparr>\<rparr>"

lemma rx_demo_sched: "sched_ok rx_demo [0x100, 0x200, 0x300] [0x400]"
  by (rule sched_ok_tcbs [OF demo_sched_ok]) (simp_all add: rx_demo_def same_queues_def)

lemma rx_demo_ok: "rx_ok {#0x100, 0x200, 0x300, 0x400#} rx_demo"
proof -
  have "internal_rx_state rx_demo = 0x20000010" "syms rx_demo = syms zero_kernel" "io rx_demo = io zero_kernel"
    by (simp_all add: rx_demo_def internal_rx_state_def demo_kernel_sel zero_kernel_def)
  moreover have "\<exists>R W. sched_ok rx_demo R W \<and> mset (R @ W) = {#0x100, 0x200, 0x300, 0x400#}"
    using rx_demo_sched by (intro exI conjI) (assumption, simp)
  ultimately show ?thesis by (simp add: rx_ok_def rx_base_def zero_kernel_def)
qed

theorem uart_isr_invariant_witness:
  "outcome {Spin, CoreReset} (rx_ok {#0x100, 0x200, 0x300, 0x400#}) (uart_isr_handler rx_demo)"
  by (rule uart_isr_invariant [OF rx_demo_ok])

text \<open>One interrupt for each byte of a message: received, no overrun.\<close>

definition present :: "u8 \<Rightarrow> kernel \<Rightarrow> kernel" where
  "present b s = s\<lparr>mmio := (mmio s)(USART1_sr := 0x20, Usart1Baseadress OR 4 := ucast b)\<rparr>"

fun serve :: "u8 list \<Rightarrow> kernel \<Rightarrow> kernel res" where
  "serve [] s = Inr s"
| "serve (b # bs) s = bnd (uart_isr_handler (present b s)) (serve bs)"

text \<open>The state after a byte that does not complete a message.\<close>

definition rx_next :: "u8 \<Rightarrow> kernel \<Rightarrow> kernel" where
  "rx_next b s = (present b s)\<lparr>io := (io s)\<lparr>hostIsNotified := False,
     uart_rx_buffer := (uart_rx_buffer (io s))[unat (bytes_received (io s)) := b],
     bytes_received := bytes_received (io s) + 1\<rparr>\<rparr>"

lemma present_bus: "bus_frame s (present b s)"
  by (simp add: present_def bus_frame_def)

lemma rx_next_sel [simp]:
  "uart_rx_buffer (io (rx_next b s)) = (uart_rx_buffer (io s))[unat (bytes_received (io s)) := b]"
  "bytes_received (io (rx_next b s)) = bytes_received (io s) + 1" "inputs (rx_next b s) = inputs s"
  "kernel_pids (rx_next b s) = kernel_pids s" "same_queues s (rx_next b s)" "tcbs (rx_next b s) = tcbs s"
  "nodes (rx_next b s) = nodes s"
  by (simp_all add: rx_next_def present_def same_queues_def)

lemma rx_next_base: "rx_base N s \<Longrightarrow> rx_base N (rx_next b s)"
  unfolding rx_next_def rx_base_io by (rule rx_base_bus [OF present_bus])

lemma byte_back: "ucast (ucast b :: u32) = (b :: u8)"
  by (rule bit_word_eqI) (simp add: bit_simps)

lemma rx_step:
  assumes "rx_ok N s" "inputs s USART1_sr = []" "inputs s (Usart1Baseadress OR 4) = []"
  shows "uart_isr_handler (present b s) =
    (if bytes_received (io s) + 1 \<noteq> 4 then Inr (rx_next b s) else rx_command (uart_rx_buffer (io (rx_next b s))) (rx_next b s))"
proof -
  let ?p = "present b s"
  have i: "inputs ?p = inputs s" "io ?p = io s" by (simp_all add: present_def)
  have r: "READ_REGISTER USART1_sr ?p = (0x20, ?p)" using assms(2) i by (simp add: present_def)
  let ?s2 = "?p\<lparr>io := (io ?p)\<lparr>hostIsNotified := False\<rparr>\<rparr>"
  have d: "read_data_register ?s2 = (ucast b, ?s2)"
    using assms(3) i by (simp add: present_def read_data_register_def)
  have ok: "rx_ok N ?s2" using rx_ok_bus [OF present_bus assms(1), of b] by (simp add: rx_ok_def)
  have z: "0x20 AND shl 1 UART_ORE = 0" by (simp add: shl_def)
  show ?thesis
    unfolding uart_isr_cases [OF r] z rx_byte_def Let_def d prod.case rx_slot [OF ok] bnd_simps byte_back
    by (simp add: rx_next_def i(2))
qed

lemma rx_word_low: "rx_word b AND 0xFF = ucast (b ! 0)"
proof (rule bit_word_eqI)
  fix n assume "n < LENGTH(32)"
  have m: "(0xFF :: u32) = mask 8" by (simp add: mask_eq_exp_minus_1)
  show "bit (rx_word b AND 0xFF) n = bit (ucast (b ! 0) :: u32) n"
    unfolding m rx_word_def by (auto simp: bit_simps dest: bit_imp_le_length)
qed

text \<open>The command completes: the task with the pid of the io task is woken.\<close>

lemma rx_command_run:
  assumes "rx_base N s" "length (uart_rx_buffer (io s)) = 4"
    and "sched_ok s R (as @ c # bs)" "pid_of (task s c) = pid_arg (external_io_runner_pid (kernel_pids s))"
    and "\<forall>n\<in>set as. pid_of (task s n) \<noteq> pid_arg (external_io_runner_pid (kernel_pids s))"
  shows "if b ! 0 = 6 then rx_command b s = Inl CoreReset
    else \<exists>s'. rx_command b s = Inr s' \<and> rx_ok N s' \<and> rx_state (io s') = ucast (b ! 0) \<and>
         uart_rx_buffer (io s') = uart_rx_buffer (io s) \<and> bytes_received (io s') = 0 \<and>
         sched_ok s' (R @ [c]) (as @ bs) \<and> ready s' c"
proof -
  let ?s5 = "s\<lparr>io := (io s)\<lparr>rx_state := ucast (b ! 0)\<rparr>\<rparr>"
  have b5: "rx_base N ?s5" using assms(1) by simp
  have ok5: "sched_ok ?s5 R (as @ c # bs)"
    by (rule sched_ok_tcbs [OF assms(3)]) (simp_all add: same_queues_def)
  have t5: "task ?s5 = task s" by (rule ext) (simp add: task_def)
  have six: "(ucast (b ! 0) :: u32) = 6 \<longleftrightarrow> b ! 0 = 6" using byte_back [of "b ! 0"] byte_back [of 6] by auto
  let ?p = "pid_arg (external_io_runner_pid (kernel_pids ?s5))"
  have run: "rx_command b s = bnd (if b ! 0 = 6 then reboot RebootRequestedByOperator ?s5
      else bnd (wakeup_pid ?p ?s5) (\<lambda>(q, t). Inr t)) (\<lambda>s6. Inr (s6\<lparr>io := (io s6)\<lparr>bytes_received := 0\<rparr>\<rparr>))"
    unfolding rx_command_def rx_word_low rx_store [OF assms(1)] bnd_simps rx_load [OF b5] by (simp add: six)
  show ?thesis
  proof (cases "b ! 0 = 6")
    case True
    then show ?thesis using run by (simp add: reboot_resets)
  next
    case False
    from ok5 obtain s6 where W: "wakeup_pid ?p ?s5 = Inr (c, s6)" "sched_ok s6 (R @ [c]) (as @ bs)"
      "tcbs s6 = (tcbs ?s5)(tdata (nodes ?s5 c) := (task ?s5 c)\<lparr>tstate := READY\<rparr>)"
      "\<forall>n. tdata (nodes s6 n) = tdata (nodes ?s5 n)" "wake_frame ?s5 s6"
    proof (cases rule: wakeup_pid_cases [where p = ?p])
      case none
      then show ?thesis using assms(4) by (simp add: t5)
    next
      case (woken as' c' bs' s')
      have "as' = as \<and> c' = c \<and> bs' = bs"
        using woken(1-3) assms(4,5) unfolding t5
        by (auto simp: append_eq_append_conv2 Cons_eq_append_conv append_eq_Cons_conv)
      then show ?thesis using that woken by blast
    qed
    note K = wake_frame_sel [OF W(5)]
    let ?s' = "s6\<lparr>io := (io s6)\<lparr>bytes_received := 0\<rparr>\<rparr>"
    have "rx_command b s = Inr ?s'" using run W(1) False by simp
    moreover have "rx_ok N ?s'"
      using rx_command_ok [OF assms(1,2), of b] calculation by simp
    moreover have "sched_ok ?s' (R @ [c]) (as @ bs)"
      by (rule sched_ok_tcbs [OF W(2)]) (simp_all add: same_queues_def)
    moreover have "ready ?s' c" using W(3,4) by (simp add: ready_def task_def)
    moreover have "rx_state (io ?s') = ucast (b ! 0)" "uart_rx_buffer (io ?s') = uart_rx_buffer (io s)"
      "bytes_received (io ?s') = 0" using K(10) by simp_all
    ultimately show ?thesis using False by auto
  qed
qed

text \<open>
  C25. A command of four bytes: after four receive interrupts the first byte is the command the
  external io task finds in \<open>rx_state\<close>, the buffer holds the four bytes in their order, the count
  starts again, and that task, which was waiting, is ready at the end of the running queue.
  Command 6 (REBOOT) resets the core instead.
\<close>
theorem uart_command_received:
  assumes "rx_ok N s" "bytes_received (io s) = 0"
    and "inputs s USART1_sr = []" "inputs s (Usart1Baseadress OR 4) = []"
    and "sched_ok s R (as @ c # bs)" "pid_of (task s c) = pid_arg (external_io_runner_pid (kernel_pids s))"
    and "\<forall>n\<in>set as. pid_of (task s n) \<noteq> pid_arg (external_io_runner_pid (kernel_pids s))"
  shows "if b0 = 6 then serve [b0, b1, b2, b3] s = Inl CoreReset
    else \<exists>s'. serve [b0, b1, b2, b3] s = Inr s' \<and> rx_ok N s' \<and> rx_state (io s') = ucast b0 \<and>
         uart_rx_buffer (io s') = [b0, b1, b2, b3] \<and> bytes_received (io s') = 0 \<and>
         sched_ok s' (R @ [c]) (as @ bs) \<and> ready s' c"
proof -
  let ?s1 = "rx_next b0 s" let ?s2 = "rx_next b1 ?s1" let ?s3 = "rx_next b2 ?s2" let ?s4 = "rx_next b3 ?s3"
  obtain x0 x1 x2 x3 where x: "uart_rx_buffer (io s) = [x0, x1, x2, x3]"
    using assms(1) by (auto simp: rx_ok_def length_Suc_conv eval_nat_numeral)
  have rb: "rx_base N s" using assms(1) by (simp add: rx_ok_def)
  have rok: "rx_ok N ?s1" "rx_ok N ?s2" "rx_ok N ?s3" and b4: "rx_base N ?s4"
    using rx_next_base [OF rb] rx_next_base [OF rx_next_base [OF rb]] rx_next_base [OF rx_next_base [OF rx_next_base [OF rb]]]
      rx_next_base [OF rx_next_base [OF rx_next_base [OF rx_next_base [OF rb]]]] x assms(2)
    by (simp_all add: rx_ok_def)
  have u: "serve [b0, b1, b2, b3] s = rx_command [b0, b1, b2, b3] ?s4"
    using rx_step [OF assms(1,3,4), of b0] rx_step [OF rok(1), of b1] rx_step [OF rok(2), of b2] rx_step [OF rok(3), of b3]
      assms(2-4) x by (cases "rx_command [b0, b1, b2, b3] ?s4") simp_all
  have ok4: "sched_ok ?s4 R (as @ c # bs)"
    by (rule sched_ok_tcbs [OF assms(5)]) (simp_all add: same_queues_def rx_next_def present_def)
  have t4: "task ?s4 = task s" by (rule ext) (simp add: task_def)
  have buf: "uart_rx_buffer (io ?s4) = [b0, b1, b2, b3]" and k: "kernel_pids ?s4 = kernel_pids s"
    using x assms(2) by simp_all
  note run = rx_command_run [OF b4 _ ok4, of "[b0, b1, b2, b3]", unfolded buf t4 k nth_Cons_0, OF _ assms(6,7)]
  show ?thesis unfolding u by (rule run) simp
qed

theorem uart_command_received_witness:
  "\<exists>s'. serve [3, 1, 2, 7] rx_demo = Inr s' \<and> rx_state (io s') = 3 \<and> uart_rx_buffer (io s') = [3, 1, 2, 7] \<and>
    ready s' 0x400"
proof -
  have "bytes_received (io rx_demo) = 0" "inputs rx_demo USART1_sr = []" "inputs rx_demo (Usart1Baseadress OR 4) = []"
    "pid_of (task rx_demo 0x400) = pid_arg (external_io_runner_pid (kernel_pids rx_demo))"
    using demo_task(8) by (simp_all add: rx_demo_def demo_kernel_sel zero_kernel_def task_def pid_of_def pid_arg_def zero_Tcb_def)
  from uart_command_received [OF rx_demo_ok this(1-3) _ this(4), of "[0x100, 0x200, 0x300]" "[]" "[]" 3 1 2 7]
  show ?thesis using rx_demo_sched by auto
qed

section \<open>External interrupts\<close>

text \<open>The line of a pin, its interrupt number, and the handlers in the order of the lines.\<close>

definition exti_line :: "u32 \<Rightarrow> nat" where
  "exti_line p = (if p \<le> 4 then unat p else 5)"

definition exti_irq_number :: "u32 \<Rightarrow> u32" where
  "exti_irq_number p = (if p \<le> 4 then p + 6 else 23)"

definition exti_handlers :: "((addr \<Rightarrow> kernel \<Rightarrow> kernel res) \<Rightarrow> kernel \<Rightarrow> kernel res) list" where
  "exti_handlers = [exti0_isr_handler, exti1_isr_handler, exti2_isr_handler, exti3_isr_handler,
     exti4_isr_handler, exti9_5_isr_handler]"

lemma exti_handlers_line: "l < 6 \<Longrightarrow> (exti_handlers ! l) call = exti_isr call (int l)"
proof -
  assume "l < 6"
  then consider "l = 0" | "l = 1" | "l = 2" | "l = 3" | "l = 4" | "l = 5" by linarith
  then show ?thesis
    by cases (simp_all add: exti_handlers_def exti0_isr_handler_def exti1_isr_handler_def exti2_isr_handler_def
      exti3_isr_handler_def exti4_isr_handler_def exti9_5_isr_handler_def fun_eq_iff)
qed

lemma exti_line_less: "exti_line p < 6"
  by (simp add: exti_line_def word_le_nat_alt)

lemma link_exti_src_run:
  assumes "length (exti_isr_handler (io s)) = 6" "pin g < 10"
  obtains g' s1 where "bus_frame (s\<lparr>io := (io s)\<lparr>exti_pos_vector_table := exti_irq_number (pin g),
      exti_isr_handler := (exti_isr_handler (io s))[exti_line (pin g) := cb]\<rparr>\<rparr>) s1"
    "link_exti_src cb g s = Inr (g', execute_priviledged (enable_exti_addr (syms s1)) s1)"
proof -
  let ?s0 = "s\<lparr>io := (io s)\<lparr>exti_pos_vector_table := exti_irq_number (pin g),
      exti_isr_handler := (exti_isr_handler (io s))[exti_line (pin g) := cb]\<rparr>\<rparr>"
  obtain g1 s2 where i: "init_gpio g ?s0 = (g1, s2)" by fastforce
  have b: "bus_frame ?s0 (set_moder g1 InputMode s2)"
    using bus_frame_gpio(1) [OF bus_frame_refl, of ?s0 g] i by (intro bus_frame_gpio) simp
  have "link_exti_src cb g s = Inr (g1, execute_priviledged (enable_exti_addr (syms (set_moder g1 InputMode s2))) (set_moder g1 InputMode s2))"
  proof (cases "pin g \<le> 4")
    case True
    then have "unat (pin g) \<le> 4" by (simp add: word_le_nat_alt)
    then have "wr (exti_isr_handler (io s)) (uint (pin g)) cb = Inr ((exti_isr_handler (io s))[unat (pin g) := cb])"
      using assms(1) by (subst wr_in) (simp_all add: nat_uint_eq word_le_nat_alt uint_nat del: of_nat_unat)
    then show ?thesis
      using True i by (simp add: link_exti_src_def exti_line_def exti_irq_number_def Let_def)
  next
    case False
    then have "4 < pin g" by (simp add: not_le)
    with False show ?thesis
      using assms i by (simp add: link_exti_src_def exti_line_def exti_irq_number_def Let_def)
  qed
  with b show ?thesis by (rule that)
qed

lemma exti_irq_less: "unat (exti_irq_number p) < 240"
proof (cases "p \<le> 4")
  case True
  then have "unat p \<le> 4" by (simp add: word_le_nat_alt)
  then have "unat (p + 6) = unat p + 6" by (simp add: unat_word_ariths)
  then show ?thesis using True \<open>unat p \<le> 4\<close> by (simp add: exti_irq_number_def)
qed (simp add: exti_irq_number_def)

text \<open>For a pin from 10 on nothing is registered, but the supervisor call is made all the same.\<close>

lemma link_exti_src_other:
  assumes "10 \<le> pin g"
  obtains g' s1 where "bus_frame s s1" "link_exti_src cb g s = Inr (g', execute_priviledged (enable_exti_addr (syms s1)) s1)"
proof -
  obtain g1 s2 where i: "init_gpio g s = (g1, s2)" by fastforce
  have b: "bus_frame s (set_moder g1 InputMode s2)"
    using bus_frame_gpio(1) [OF bus_frame_refl, of s g] i by (intro bus_frame_gpio) simp
  have "unat (pin g) \<ge> 10" using assms by (simp add: word_le_nat_alt)
  then have "\<not> pin g \<le> 4" "\<not> pin g < 10" by (simp_all add: word_le_nat_alt word_less_nat_alt)
  then have "link_exti_src cb g s = Inr (g1, execute_priviledged (enable_exti_addr (syms (set_moder g1 InputMode s2))) (set_moder g1 InputMode s2))"
    using i by (simp add: link_exti_src_def Let_def)
  with b show ?thesis by (rule that)
qed

text \<open>The supervisor call that \<open>link_exti_src\<close> makes enables the interrupt number that is stored (the core has 240).\<close>

lemma enable_exti_call:
  assumes "length (r4_11 (cpu t)) = 8" "lr (cpu t) AND 4 \<noteq> 0"
  obtains s2 where "svcall_isr (priv_call other) (execute_priviledged (enable_exti_addr (syms t)) t) = Inr s2" "io s2 = io t"
    "unat (exti_pos_vector_table (io t)) < 240 \<longrightarrow> nvic_enabled (unat (exti_pos_vector_table (io t))) s2"
proof -
  let ?a = "enable_exti_addr (syms t)"
  let ?s1 = "execute_priviledged ?a t"
  define s3 where "s3 = save_psp_if_threadmode (?s1\<lparr>cpu := (cpu ?s1)\<lparr>svc_pending := False\<rparr>\<rparr>)"
  have s3: "syms s3 = syms t" "io s3 = io t" "r4_11 (cpu s3) ! 2 = 6" "r4_11 (cpu s3) ! 5 = ?a"
    using assms(1,2) by (simp_all add: s3_def save_psp_if_threadmode_def execute_priviledged_def svcall_param_def)
  let ?s2 = "restore_psp (enable_cpu_interrupt_exti s3)"
  have p: "priv_call other (?a OR 1) s3 = Inr (enable_cpu_interrupt_exti s3)" using s3(1) by (simp add: priv_call_def)
  have sv: "svcall_isr (priv_call other) ?s1 = Inr ?s2"
    unfolding svcall_isr_def Let_def s3_def [symmetric] s3(3,4) using p by simp
  have nv: "nvic_enabled (unat (exti_pos_vector_table (io t))) ?s2" if "unat (exti_pos_vector_table (io t)) < 240"
    using enable_nvic_sets [OF that, of s3] s3(2)
    by (simp add: restore_psp_def nvic_enabled_def enable_cpu_interrupt_exti_def)
  have "io ?s2 = io t" using s3(2) by (simp add: restore_psp_def enable_cpu_interrupt_exti_def enable_nvic_interrupt_def)
  from that [OF sv this] nv show ?thesis by blast
qed

text \<open>
  C27. Linking a callback to a pin and taking its interrupt, with a table of six lines, a callback that is not NULL
  and the call made in thread mode: for a pin below 10, \<open>link_exti_src\<close> followed by the supervisor call it makes
  enables the interrupt number of the pin's line, the handler of that line then calls the registered function,
  and every other line keeps its own.  For a pin from 10 to 15 (line 15_10, which has no handler) nothing is
  registered, and what is enabled is the interrupt number that an earlier call has left.
\<close>
theorem link_exti_src_dispatch:
  assumes "length (exti_isr_handler (io s)) = 6" "cb \<noteq> NULL"
    and "length (r4_11 (cpu s)) = 8" "lr (cpu s) AND 4 \<noteq> 0"
  shows "\<exists>g' s1 s2. link_exti_src cb g s = Inr (g', s1) \<and> svcall_isr (priv_call other) s1 = Inr s2 \<and>
    (if pin g < 10
     then nvic_enabled (unat (exti_irq_number (pin g))) s2 \<and>
       (exti_handlers ! exti_line (pin g)) call s2 = call cb s2 \<and>
       (\<forall>l<6. l \<noteq> exti_line (pin g) \<longrightarrow> exti_isr_handler (io s2) ! l = exti_isr_handler (io s) ! l)
     else exti_isr_handler (io s2) = exti_isr_handler (io s) \<and>
       (unat (exti_pos_vector_table (io s)) < 240 \<longrightarrow> nvic_enabled (unat (exti_pos_vector_table (io s))) s2))"
proof (cases "pin g < 10")
  case True
  let ?H = "(exti_isr_handler (io s))[exti_line (pin g) := cb]"
  let ?s0 = "s\<lparr>io := (io s)\<lparr>exti_pos_vector_table := exti_irq_number (pin g), exti_isr_handler := ?H\<rparr>\<rparr>"
  obtain g' t where t: "bus_frame ?s0 t" "link_exti_src cb g s = Inr (g', execute_priviledged (enable_exti_addr (syms t)) t)"
    using assms(1) True by (rule link_exti_src_run)
  note D = dev_frame_kernel [OF dev_frame_bus [OF t(1)]]
  have "length (r4_11 (cpu t)) = 8" "lr (cpu t) AND 4 \<noteq> 0" using assms(3,4) D(5) by simp_all
  then obtain s2 where sv: "svcall_isr (priv_call other) (execute_priviledged (enable_exti_addr (syms t)) t) = Inr s2" and io: "io s2 = io t"
    and nv: "unat (exti_pos_vector_table (io t)) < 240 \<longrightarrow> nvic_enabled (unat (exti_pos_vector_table (io t))) s2" by (rule enable_exti_call [where other = other])
  have h: "exti_isr_handler (io s2) = ?H" "exti_pos_vector_table (io t) = exti_irq_number (pin g)" using io D(12) by simp_all
  have disp: "(exti_handlers ! exti_line (pin g)) call s2 = call cb s2"
    using exti_line_less [of "pin g"] assms(1,2) h by (simp add: exti_handlers_line exti_isr_def)
  have keep: "\<forall>l<6. l \<noteq> exti_line (pin g) \<longrightarrow> exti_isr_handler (io s2) ! l = exti_isr_handler (io s) ! l"
    unfolding h by simp
  show ?thesis unfolding if_P [OF True] by (intro exI conjI) (rule t(2), rule sv, rule nv [unfolded h(2), rule_format, OF exti_irq_less], rule disp, rule keep)
next
  case False
  then have "10 \<le> pin g" by (simp add: not_less)
  then obtain g' t where t: "bus_frame s t" "link_exti_src cb g s = Inr (g', execute_priviledged (enable_exti_addr (syms t)) t)"
    by (rule link_exti_src_other)
  note D = dev_frame_kernel [OF dev_frame_bus [OF t(1)]]
  have "length (r4_11 (cpu t)) = 8" "lr (cpu t) AND 4 \<noteq> 0" using assms(3,4) D(5) by simp_all
  then obtain s2 where sv: "svcall_isr (priv_call other) (execute_priviledged (enable_exti_addr (syms t)) t) = Inr s2" and io: "io s2 = io t"
    and nv: "unat (exti_pos_vector_table (io t)) < 240 \<longrightarrow> nvic_enabled (unat (exti_pos_vector_table (io t))) s2" by (rule enable_exti_call [where other = other])
  have "exti_isr_handler (io s2) = exti_isr_handler (io s)"
    "unat (exti_pos_vector_table (io s)) < 240 \<longrightarrow> nvic_enabled (unat (exti_pos_vector_table (io s))) s2"
    using io nv D(12) by simp_all
  then show ?thesis unfolding if_not_P [OF False] by (intro exI conjI) (rule t(2), rule sv)
qed

theorem link_exti_src_dispatch_witness:
  "\<exists>g' s1 s2. link_exti_src 0x08001001 \<lparr>port = 66, pin = 7, base_adress = 0, gpio_regs = 0\<rparr> demo_kernel = Inr (g', s1) \<and>
    svcall_isr (priv_call (\<lambda>_. Inr)) s1 = Inr s2 \<and> nvic_enabled 23 s2 \<and>
    exti9_5_isr_handler (\<lambda>a s. Inr (s\<lparr>task_to_preserve := a\<rparr>)) s2 = Inr (s2\<lparr>task_to_preserve := 0x08001001\<rparr>)"
  using link_exti_src_dispatch [of demo_kernel "0x08001001" "\<lparr>port = 66, pin = 7, base_adress = 0, gpio_regs = 0\<rparr>" "\<lambda>_. Inr"
      "\<lambda>a s. Inr (s\<lparr>task_to_preserve := a\<rparr>)"]
  by (auto simp: demo_kernel_sel zero_kernel_def exti_irq_number_def exti_line_def exti_handlers_def)

section \<open>Kernel subtasks\<close>

text \<open>
  C39. The loops over the three kernel subtasks increment their index before they use it: slot 0
  is never taken, slots 1 and 2 are used in this order, and with both taken the fourth element
  of a three-element array is read.  The loop of \<open>idle_runner\<close> that clears them always writes
  that element.
\<close>
theorem subtasks_out_of_bounds:
  "subtask_slot 0 [a, b, c] = (if b = NULL then Inr 1 else if c = NULL then Inr 2 else Inl OutOfBounds) \<and>
   clear_subtasks 3 0 [a, b, c] = Inl OutOfBounds"
proof
  show "subtask_slot 0 [a, b, c] = (if b = NULL then Inr 1 else if c = NULL then Inr 2 else Inl OutOfBounds)"
    by (simp add: subtask_slot.simps rd_def)
  show "clear_subtasks 3 0 [a, b, c] = Inl OutOfBounds"
    by (simp add: numeral_3_eq_3 wr_def)
qed

end
