(* ===== verification/Sleep_Properties.thy ===== *)
theory Sleep_Properties
  imports Irq_Properties
begin

text \<open>
  Sleeping: \<open>task_sleep\<close> of the scheduler and the interrupt of its timer, in whatever state the
  devices are when it comes.
\<close>

section \<open>The two operations\<close>

lemma task_sleep_ok:
  assumes ok: "sched_ok s (as @ c # bs) W" and c: "currently_running s = c"
  obtains s' where "task_sleep d s = Inr s'" "sched_ok s' (as @ bs) (W @ [c])"
    "task s' c = (task s c)\<lparr>tstate := WAITING\<rparr>" "\<forall>n\<in>set (as @ bs @ W). task s' n = task s n"
    "pid_of_sleeping_task s' = pid_of (task s c)"
proof -
  note D = sched_okD [OF ok]
  have cn: "c \<noteq> NULL" "tdata (nodes s c) \<noteq> NULL" using D(5,12) [of c] by auto
  let ?s0 = "s\<lparr>pid_of_sleeping_task := pid_of (task s c)\<rparr>"
  define s1 where "s1 = timer_start TimerForTaskSleep (timer_flush_counter TimerForTaskSleep (set_ccr TimerForTaskSleep d 1 ?s0))"
  have f: "bus_frame ?s0 s1" unfolding s1_def by (intro bus_frame_intros)
  note K = dev_frame_kernel [OF dev_frame_bus [OF f]]
  have "sched_ok ?s0 (as @ c # bs) W" by (rule sched_ok_tcbs [OF ok]) (simp_all add: same_queues_def)
  then have ok1: "sched_ok s1 (as @ c # bs) W" by (rule sched_ok_dev [OF _ dev_frame_bus [OF f]])
  have "currently_running s1 = c" using K c by simp
  with ok1 obtain s' where B: "block_current_task s1 = Inr s'" "sched_ok s' (as @ bs) (W @ [c])"
    "tcbs s' = (tcbs s1)(tdata (nodes s1 c) := (task s1 c)\<lparr>tstate := WAITING\<rparr>)"
    "\<forall>n. tdata (nodes s' n) = tdata (nodes s1 n)" "pid_of_sleeping_task s' = pid_of_sleeping_task s1"
    by (rule block_current_task_ok)
  have t1: "task s1 n = task s n" for n by (simp add: task_def K)
  have "task s' n = task s n" if n: "n \<in> set (as @ bs @ W)" for n
  proof -
    have "n \<noteq> c" "n \<in> set (as @ c # bs) \<union> set W" "c \<in> set (as @ c # bs) \<union> set W"
      using n D(4,10) by auto
    then have "tdata (nodes s n) \<noteq> tdata (nodes s c)" using inj_onD [OF D(6)] by blast
    then show ?thesis using B(3,4) K by (simp add: task_def)
  qed
  moreover have "task s' c = (task s c)\<lparr>tstate := WAITING\<rparr>" using B(3,4) t1 by (simp add: task_def)
  moreover have "task_sleep d s = Inr s'"
    using B(1) c tcb_of_task [OF cn] by (simp add: task_sleep_def s1_def)
  moreover have "pid_of_sleeping_task s1 = pid_of_sleeping_task ?s0"
    using bus_frame_sel(4) [OF f] by (cases s1; cases s) simp
  ultimately show ?thesis using B(2,5) by (intro that [of s']) simp_all
qed

text \<open>The timer interrupt: a wake-up, up to device registers, if the compare flag is set.\<close>

lemma tim3_isr_cases:
  obtains (quiet) s1 where "tim3_isr_handler s = Inr s1" "dev_frame s s1" "fst (timer_get_sr 3 s) AND shl 1 1 = 0"
  | (expired) s1 where "tim3_isr_handler s = bnd (wakeup_pid (pid_of_sleeping_task s) s1) (\<lambda>(q, s2). Inr s2)"
      "dev_frame s s1" "fst (timer_get_sr 3 s) AND shl 1 1 \<noteq> 0"
proof -
  obtain v s1 where r: "timer_get_sr 3 s = (v, s1)" by fastforce
  have b: "bus_frame s s1" using READ_bus r by (simp add: timer_get_sr_def)
  show ?thesis
  proof (cases "v AND shl 1 1 = 0")
    case True
    then show ?thesis using r dev_frame_bus [OF b] by (intro quiet [of s1]) (simp_all add: tim3_isr_handler_def)
  next
    case False
    let ?s2 = "timer_set_sr 3 (v AND NOT (shl 1 1)) (timer_stop 3 s1)"
    have f: "bus_frame s ?s2" using b by (intro bus_frame_intros)
    have "pid_of_sleeping_task ?s2 = pid_of_sleeping_task s"
      using bus_frame_sel(4) [OF f] by (cases ?s2; cases s) simp
    then show ?thesis using False r dev_frame_bus [OF f] by (intro expired [of ?s2]) (simp_all add: tim3_isr_handler_def)
  qed
qed

section \<open>Properties\<close>

text \<open>
  C16. A task that sleeps and is not disturbed by another sleeper wakes up, provided that no task that already
  waits has its pid (pids are the number of tasks at creation and may repeat; the first waiting task with the pid would be
  woken): \<open>task_sleep\<close> moves the running task to the end of the waiting queue; whatever the devices do
  meanwhile, an interrupt of the sleep timer without its compare flag changes nothing about the queues, and
  the one with the flag makes the task READY at the end of the running queue.
\<close>
theorem sleep_then_wake:
  assumes "sched_ok s (as @ c # bs) W" "currently_running s = c" "\<forall>n\<in>set W. pid_of (task s n) \<noteq> pid_of (task s c)"
  shows "\<exists>s1. task_sleep d s = Inr s1 \<and> sched_ok s1 (as @ bs) (W @ [c]) \<and> tstate (task s1 c) = WAITING \<and>
    (\<forall>t. dev_frame s1 t \<longrightarrow> (\<exists>s2. tim3_isr_handler t = Inr s2 \<and>
       (if fst (timer_get_sr 3 t) AND shl 1 1 = 0 then sched_ok s2 (as @ bs) (W @ [c])
        else sched_ok s2 (as @ bs @ [c]) W \<and> ready s2 c)))"
proof -
  from assms(1,2) obtain s1 where S: "task_sleep d s = Inr s1" "sched_ok s1 (as @ bs) (W @ [c])"
    "task s1 c = (task s c)\<lparr>tstate := WAITING\<rparr>" "\<forall>n\<in>set (as @ bs @ W). task s1 n = task s n"
    "pid_of_sleeping_task s1 = pid_of (task s c)" by (rule task_sleep_ok)
  have "\<exists>s2. tim3_isr_handler t = Inr s2 \<and>
       (if fst (timer_get_sr 3 t) AND shl 1 1 = 0 then sched_ok s2 (as @ bs) (W @ [c])
        else sched_ok s2 (as @ bs @ [c]) W \<and> ready s2 c)" if t: "dev_frame s1 t" for t
  proof (cases rule: tim3_isr_cases [of t])
    case (quiet s2)
    then show ?thesis using sched_ok_dev [OF S(2) dev_frame_trans [OF t quiet(2)]] by auto
  next
    case (expired u)
    have f: "dev_frame s1 u" by (rule dev_frame_trans [OF t expired(2)])
    have ok: "sched_ok u (as @ bs) (W @ [c])" by (rule sched_ok_dev [OF S(2) f])
    have tu: "task u n = task s1 n" for n by (simp add: task_def dev_frame_kernel [OF f])
    have pt: "pid_of_sleeping_task t = pid_of (task s c)"
      using S(5) dev_frame_sel(3) [OF t] by (cases t; cases s1) simp
    have others: "\<forall>n\<in>set W. pid_of (task u n) \<noteq> pid_of (task s c)" using assms(3) S(4) tu by simp
    have pc: "pid_of (task u c) = pid_of (task s c)" using S(3) tu by (simp add: pid_of_def)
    from ok obtain us x vs s2 where W: "W @ [c] = us @ x # vs"
      "pid_of (task u x) = pid_of (task s c)" "wakeup_pid (pid_of (task s c)) u = Inr (x, s2)"
      "sched_ok s2 ((as @ bs) @ [x]) (us @ vs)" "ready s2 x"
    proof (cases rule: wakeup_pid_cases [where p = "pid_of (task s c)"])
      case (woken us x vs s2)
      have "ready s2 x" using woken(7,8) by (simp add: ready_def task_def)
      with woken show ?thesis by (intro that)
    qed (use pc in auto)
    have "x \<notin> set W" using others W(2) by blast
    then have "vs = [] \<and> us = W \<and> x = c" using W(1) by (cases vs rule: rev_cases) auto
    then show ?thesis using W expired(1,3) pt by simp
  qed
  then show ?thesis using S(1-3) by (intro exI [of _ s1]) simp
qed

theorem sleep_then_wake_witness:
  "\<exists>s1 s2. task_sleep 50 demo_kernel = Inr s1 \<and> sched_ok s1 [0x200, 0x300] [0x400, 0x100] \<and>
     tim3_isr_handler (s1\<lparr>mmio := (\<lambda>_. 2), inputs := (\<lambda>_. [])\<rparr>) = Inr s2 \<and>
     sched_ok s2 [0x200, 0x300, 0x100] [0x400] \<and> ready s2 0x100"
proof -
  have ok: "sched_ok demo_kernel ([] @ 0x100 # [0x200, 0x300]) [0x400]" using demo_sched_ok by simp
  have c: "currently_running demo_kernel = 0x100" by (simp add: demo_kernel_sel)
  have u: "\<forall>n\<in>set [0x400]. pid_of (task demo_kernel n) \<noteq> pid_of (task demo_kernel 0x100)"
    by (simp add: pid_of_def demo_task zero_Tcb_def)
  from sleep_then_wake [OF ok c u, of 50, unfolded append.simps] obtain s1 where s1: "task_sleep 50 demo_kernel = Inr s1"
    "sched_ok s1 [0x200, 0x300] [0x400, 0x100]"
    "\<forall>t. dev_frame s1 t \<longrightarrow> (\<exists>s2. tim3_isr_handler t = Inr s2 \<and>
       (if fst (timer_get_sr 3 t) AND shl 1 1 = 0 then sched_ok s2 [0x200, 0x300] [0x400, 0x100]
        else sched_ok s2 [0x200, 0x300, 0x100] [0x400] \<and> ready s2 0x100))" by blast
  let ?t = "s1\<lparr>mmio := (\<lambda>_. 2), inputs := (\<lambda>_. [])\<rparr>"
  have "dev_frame s1 ?t" by (cases s1) (simp add: dev_frame_def)
  moreover have "fst (timer_get_sr 3 ?t) AND shl 1 1 \<noteq> 0" by (simp add: timer_get_sr_def shl_def)
  ultimately show ?thesis using s1 by auto
qed

text \<open>
  C34. The kernel keeps the pid of one sleeper: when a task has gone to sleep, a task that was
  already waiting, for the timer or for anything else, and whose pid is not the new sleeper's (pids may repeat), stays in
  the waiting queue whatever interrupt of the timer comes.
\<close>
theorem second_sleeper_replaces_first:
  assumes "sched_ok s (as @ c # bs) W" "currently_running s = c"
    and "w \<in> set W" "pid_of (task s w) \<noteq> pid_of (task s c)"
  shows "\<exists>s1. task_sleep d s = Inr s1 \<and>
    (\<forall>t. dev_frame s1 t \<longrightarrow> (\<exists>s2 R' W'. tim3_isr_handler t = Inr s2 \<and> sched_ok s2 R' W' \<and> w \<in> set W'))"
proof -
  from assms(1,2) obtain s1 where S: "task_sleep d s = Inr s1" "sched_ok s1 (as @ bs) (W @ [c])"
    "task s1 c = (task s c)\<lparr>tstate := WAITING\<rparr>" "\<forall>n\<in>set (as @ bs @ W). task s1 n = task s n"
    "pid_of_sleeping_task s1 = pid_of (task s c)" by (rule task_sleep_ok)
  have "\<exists>s2 R' W'. tim3_isr_handler t = Inr s2 \<and> sched_ok s2 R' W' \<and> w \<in> set W'" if t: "dev_frame s1 t" for t
  proof (cases rule: tim3_isr_cases [of t])
    case (quiet s2)
    have "w \<in> set (W @ [c])" using assms(3) by simp
    then show ?thesis using sched_ok_dev [OF S(2) dev_frame_trans [OF t quiet(2)]] quiet(1) by blast
  next
    case (expired u)
    have f: "dev_frame s1 u" by (rule dev_frame_trans [OF t expired(2)])
    have ok: "sched_ok u (as @ bs) (W @ [c])" by (rule sched_ok_dev [OF S(2) f])
    have pt: "pid_of_sleeping_task t = pid_of (task s c)"
      using S(5) dev_frame_sel(3) [OF t] by (cases t; cases s1) simp
    have pw: "pid_of (task u w) \<noteq> pid_of (task s c)"
      using S(4) assms(3,4) by (simp add: task_def dev_frame_kernel [OF f])
    from ok show ?thesis
    proof (cases rule: wakeup_pid_cases [where p = "pid_of (task s c)"])
      case none
      have "w \<in> set (W @ [c])" using assms(3) by simp
      moreover have "tim3_isr_handler t = Inr u" using none(1) expired(1) pt by simp
      ultimately show ?thesis using ok by blast
    next
      case (woken us x vs s2)
      have "w \<in> set (us @ x # vs)" using assms(3) woken(1) [symmetric] by simp
      then have "w \<in> set (us @ vs)" using woken(2) pw by auto
      moreover have "tim3_isr_handler t = Inr s2" using woken(4) expired(1) pt by simp
      ultimately show ?thesis using woken(6) by blast
    qed
  qed
  then show ?thesis using S(1) by blast
qed

theorem second_sleeper_replaces_first_witness:
  "\<exists>s1. task_sleep 50 demo_kernel = Inr s1 \<and>
    (\<exists>s2 R' W'. tim3_isr_handler s1 = Inr s2 \<and> sched_ok s2 R' W' \<and> 0x400 \<in> set W')"
proof -
  have ok: "sched_ok demo_kernel ([] @ 0x100 # [0x200, 0x300]) [0x400]" using demo_sched_ok by simp
  have c: "currently_running demo_kernel = 0x100" by (simp add: demo_kernel_sel)
  have u: "pid_of (task demo_kernel 0x400) \<noteq> pid_of (task demo_kernel 0x100)"
    by (simp add: pid_of_def demo_task zero_Tcb_def)
  have "dev_frame s s" for s :: kernel by (simp add: dev_frame_def)
  then show ?thesis using second_sleeper_replaces_first [OF ok c _ u, of 50] by fastforce
qed

end
