(* ===== verification/System_Properties.thy ===== *)
theory System_Properties
  imports Boot Kernel_Properties
begin

text \<open>
  Properties that span components: from reset to the first task, the creation of a task, its
  context over supervisor calls and context switches.
\<close>

section \<open>From reset to the idle task\<close>

text \<open>The address at which \<open>bootstrap\<close> starts the heap.\<close>

definition heap_start :: "Symbols \<Rightarrow> addr" where
  "heap_start y = max (max (ebss y) (edata y)) (sidata y)"

text \<open>A linker layout the kernel can boot with: room for the heap, the static pointer below it.\<close>

definition layout_ok :: "Symbols \<Rightarrow> bool" where
  "layout_ok y \<longleftrightarrow> 0 < unat (heap_start y) \<and> unat (heap_start y) + 0x20000 \<le> 2 ^ 32 \<and>
     rx_state_addr y \<noteq> NULL \<and> unat (internal_rx_state_addr y) + 4 \<le> unat (heap_start y)"

text \<open>The state in which \<open>bootstrap\<close> calls \<open>setup_kernel_runtime\<close>.\<close>

definition before_setup :: "bool \<Rightarrow> kernel \<Rightarrow> kernel" where
  "before_setup hwfp s0 =
     (let s = s0\<lparr>cpu := (cpu s0)\<lparr>lr := 0xFFFFFFF9\<rparr>\<rparr>;
          s1 = init_allocator (heap_start (syms s0)) (sym_ram_size (syms s)) (clear_ram s);
          s2 = s1\<lparr>boot_flags := \<lparr>isColdStart = True, reboot_type = IsColdStart\<rparr>\<rparr>;
          s3 = MODIFY_REGISTER 0xE000E100 (\<lambda>v. v OR shl 1 28 OR shl 1 29) s2;
          s4 = MODIFY_REGISTER 0xE000ED14 (\<lambda>v. v OR shl 3 3) s3;
          s5 = MODIFY_REGISTER 0xE000ED24 (\<lambda>v. v OR shl 1 16 OR shl 1 17 OR shl 1 18) s4
      in if hwfp then MODIFY_REGISTER 0xE000ED88 (\<lambda>v. v OR shl 0xF 20) s5 else s5)"

lemma bootstrap_eq:
  "bootstrap call hwfp loc j1 j2 s0 =
     bnd (setup_kernel_runtime loc j1 j2 (before_setup hwfp s0)) (\<lambda>(kernel_err, s7).
       case kernel_err of
         SCHEDULER_INIT_FAILED \<Rightarrow> Inl Spin
       | TASK_CREATION_FAILED \<Rightarrow> Inl Spin
       | KERNEL_INIT_SUCCEDED \<Rightarrow>
           bnd (setup_devices call s7) (\<lambda>s8.
           Inr (svcall (trap_number execPspTask) (s8\<lparr>cpu := (cpu s8)\<lparr>msp := stack_top (syms s8)\<rparr>\<rparr>))))"
proof -
  have m: "max a b = (if a < b then b else a)" for a b :: u32 by (auto simp: max_def)
  show ?thesis by (simp add: bootstrap_def before_setup_def heap_start_def m Let_def)
qed

lemma init_allocator_kernel [simp]:
  fixes s :: kernel
  shows "cpu (init_allocator st r s) = cpu s" "syms (init_allocator st r s) = syms s"
    "drv (init_allocator st r s) = drv s" "SYSTICK (init_allocator st r s) = SYSTICK s"
  by (simp_all add: init_allocator_def Let_def)

lemma clear_ram_sel [simp]:
  "cpu (clear_ram s) = cpu s" "syms (clear_ram s) = syms s" "SYSTICK (clear_ram s) = SYSTICK s"
  "length (timer_configurations (drv (clear_ram s))) = length (timer_configurations (drv s))"
  by (simp_all add: clear_ram_def)

lemma before_setup_ok:
  assumes "layout_ok (syms s0)"
  shows "alloc_room (before_setup hwfp s0) 64 65536" "cpu (before_setup hwfp s0) = (cpu s0)\<lparr>lr := 0xFFFFFFF9\<rparr>"
    "syms (before_setup hwfp s0) = syms s0" "SYSTICK (before_setup hwfp s0) = SYSTICK s0"
    "length (timer_configurations (drv (before_setup hwfp s0))) = length (timer_configurations (drv s0))"
    "unat (heap_start (syms s0)) \<le> unat (USEABLE_MEM_START (before_setup hwfp s0))"
    "unat (USEABLE_MEM_START (before_setup hwfp s0)) < unat (heap_start (syms s0)) + 264"
proof -
  let ?h = "heap_start (syms s0)"
  let ?s1 = "init_allocator ?h (sym_ram_size (syms s0)) (clear_ram (s0\<lparr>cpu := (cpu s0)\<lparr>lr := 0xFFFFFFF9\<rparr>\<rparr>))"
  let ?s6 = "before_setup hwfp s0"
  have h: "0 < unat ?h" "unat ?h + 65800 \<le> 2 ^ 32" using assms by (simp_all add: layout_ok_def)
  have I: "alloc_inv ?s1" "mutex ?s1 = 0" "used_entries ?s1 = []"
    by (rule init_allocator_inv [OF h])+
  have e: "MEM_TABLE ?s6 = MEM_TABLE ?s1" "USEABLE_MEM_START ?s6 = USEABLE_MEM_START ?s1" "mutex ?s6 = mutex ?s1"
    "cpu ?s6 = cpu ?s1" "syms ?s6 = syms ?s1" "drv ?s6 = drv ?s1" "SYSTICK ?s6 = SYSTICK ?s1"
    by (simp_all add: before_setup_def Let_def)
  have "alloc_room ?s1 64 65536" using I by (simp add: alloc_room_def total_len_def)
  then show "alloc_room ?s6 64 65536" using alloc_room_cong(1) [OF e(1-3)] by simp
  show "cpu ?s6 = (cpu s0)\<lparr>lr := 0xFFFFFFF9\<rparr>" "syms ?s6 = syms s0" "SYSTICK ?s6 = SYSTICK s0"
    "length (timer_configurations (drv ?s6)) = length (timer_configurations (drv s0))"
    using e(4-7) by simp_all
  have al: "unat (round_loop 8 ?h) = align_nat 8 (unat ?h)"
    using round_loop_unat [of "8 :: u32" ?h] h align_nat_bounds [of 8 "unat ?h"] by simp
  have b: "unat ?h \<le> unat (round_loop 8 ?h)" "unat (round_loop 8 ?h) < unat ?h + 8"
    using align_nat_bounds [of 8 "unat ?h"] unfolding al by simp_all
  have "unat (USEABLE_MEM_START ?s1) = unat (round_loop 8 ?h) + 256"
    using b h(2) by (simp add: init_allocator_def Let_def unat_word_ariths)
  then show "unat ?h \<le> unat (USEABLE_MEM_START ?s6)" "unat (USEABLE_MEM_START ?s6) < unat ?h + 264"
    using e(2) b by simp_all
qed

text \<open>What the core unstacks when it returns to thread mode: r0 to r3, r12, lr, pc and psr.\<close>

definition starts_at :: "kernel \<Rightarrow> addr \<Rightarrow> addr \<Rightarrow> bool" where
  "starts_at s fn ret \<longleftrightarrow>
     lr (cpu s) = 0xFFFFFFFD \<and> r4_11 (cpu s) = replicate 8 0 \<and>
     (\<forall>i<5. ld32 (mem s) (psp (cpu s) + 4 * of_nat i) = 0) \<and>
     ld32 (mem s) (psp (cpu s) + 20) = ret \<and> ld32 (mem s) (psp (cpu s) + 24) = fn \<and>
     ld32 (mem s) (psp (cpu s) + 28) = THUMB_STATE"

lemma task_frame_starts:
  assumes f: "task_frame (mem s) p fn ret"
    and s: "lr (cpu s) = 0xFFFFFFFD" "r4_11 (cpu s) = load_r4_11 p s'" "psp (cpu s) = p + 32" "mem s = mem s'"
  shows "starts_at s fn ret"
proof -
  have z: "ld32 (mem s) (p + 4 * of_nat i) = 0" if "i < 13" for i
    using f that by (simp add: task_frame_def)
  have "r4_11 (cpu s) = replicate 8 0"
  proof (rule nth_equalityI)
    show "length (r4_11 (cpu s)) = length (replicate 8 0)" unfolding s(2) by (simp add: load_r4_11_def)
    show "r4_11 (cpu s) ! i = replicate 8 0 ! i" if "i < length (r4_11 (cpu s))" for i
      using that z [of i] s(4) unfolding s(2) by (simp add: load_r4_11_def)
  qed
  moreover have "ld32 (mem s) (p + 32 + 4 * of_nat i) = 0" if "i < 5" for i
  proof -
    have e: "p + 32 + 4 * of_nat i = p + 4 * of_nat (i + 8)" by (simp add: algebra_simps)
    show ?thesis unfolding e using z [of "i + 8"] that by simp
  qed
  moreover have "ld32 (mem s) (p + 32 + 20) = ret" "ld32 (mem s) (p + 32 + 24) = fn"
    "ld32 (mem s) (p + 32 + 28) = THUMB_STATE"
    using f by (simp_all add: task_frame_def add.assoc)
  ultimately show ?thesis unfolding starts_at_def s(3) using s(1) by blast
qed

text \<open>The supervisor call that starts the first task, made from the main stack.\<close>

lemma exec_psp_task_ok:
  assumes "lr (cpu s) AND 4 = 0" "r4_11 (cpu s) ! 2 = 0" "currently_running s = n" "n \<noteq> NULL" "tdata (nodes s n) \<noteq> NULL"
  shows "\<exists>s'. svcall_isr call s = Inr s' \<and> r4_11 (cpu s') = load_r4_11 (sp (task s n)) s \<and>
     psp (cpu s') = sp (task s n) + 32 \<and> lr (cpu s') = 0xFFFFFFFD \<and> msp (cpu s') = msp (cpu s) \<and> mem s' = mem s \<and>
     same_queues s s' \<and> tcbs s' = tcbs s \<and> currently_running s' = n \<and> task_to_preserve s' = task_to_preserve s \<and>
     MEM_TABLE s' = MEM_TABLE s \<and> USEABLE_MEM_START s' = USEABLE_MEM_START s \<and> mutex s' = mutex s \<and>
     slists s' = slists s \<and> snodes s' = snodes s \<and> kernel_pids s' = kernel_pids s \<and> io s' = io s"
proof -
  let ?s1 = "s\<lparr>cpu := (cpu s)\<lparr>svc_pending := False\<rparr>\<rparr>"
  define s2 where "s2 = (if SYSTICK ?s1 then init_systick 200 ?s1 else ?s1)"
  have "bus_frame ?s1 (init_systick 200 ?s1)"
    unfolding init_systick_def Let_def split_beta
    by (intro bus_frame_MODIFY bus_frame_WRITE)
       (auto simp: READ_REGISTER_def bus_frame_def WRITE_REGISTER_def MODIFY_REGISTER_def split: list.split)
  then have f: "dev_frame ?s1 s2" unfolding s2_def
    by (auto intro: bus_frame_kernel(1) dev_frame_bus [OF bus_frame_refl])
  note F = dev_frame_kernel [OF f]
  have t: "tcb_of (currently_running s2) s2 = Inr (task s n)"
    using F assms(3-5) by (simp add: tcb_of_def typed_access task_def)
  have "svcall_isr call s = Inr (s2\<lparr>cpu := (cpu s2)\<lparr>r4_11 := load_r4_11 (sp (task s n)) s2,
      psp := sp (task s n) + 32, lr := 0xFFFFFFFD\<rparr>\<rparr>)"
    using assms(1,2) t by (simp add: svcall_isr_def save_psp_if_threadmode_def Let_def s2_def)
  then show ?thesis using F assms(3) by (simp add: load_r4_11_def same_queues_def)
qed

lemma bootstrap_ok:
  assumes "layout_ok (syms s0)" "length (r4_11 (cpu s0)) = 8" "3 < length (timer_configurations (drv s0))"
  obtains s1 s2 n stk where "bootstrap call hwfp loc j1 j2 s0 = Inr s1" "svc_pending (cpu s1)" "svcall_isr call s1 = Inr s2"
    "sched_ok s2 [n] []" "currently_running s2 = n" "pid (task s2 n) = 0"
    "msp (cpu s2) = stack_top (syms s0)" "starts_at s2 (idle_runner_addr (syms s0)) (finish_task_addr (syms s0))"
    "task_to_preserve s2 = n" "ready s2 n" "idle_task (kernel_pids s2) = 0" "alloc_room s2 40 40960"
    "\<not> is_external (task s2 n)" "stacksection_lower_bound (task s2 n) = stk" "is_slist s2 (child_tasks (task s2 n)) []"
    "{n, tdata (nodes s2 n), child_tasks (task s2 n)} \<subseteq> fst ` live s2" "\<exists>k\<ge>1600. (stk, k) \<in> live s2"
    "uart_rx_buffer (io s2) = replicate 4 0" "bytes_received (io s2) = 0"
proof -
  let ?s6 = "before_setup hwfp s0" let ?y = "syms s0"
  note B = before_setup_ok [OF assms(1), of hwfp]
  have room: "alloc_room ?s6 (7 + 41) (1720 + 40976)" using B(1) by (rule alloc_room_mono) simp_all
  have tc: "3 < length (timer_configurations (drv ?s6))" using B(5) assms(3) by simp
  from room tc obtain s7 n stk where S: "setup_kernel_runtime loc j1 j2 ?s6 = Inr (KERNEL_INIT_SUCCEDED, s7)"
    "sched_ok s7 [n] []" "currently_running s7 = n" "pid (task s7 n) = 0" "sp (task s7 n) = stk + 1472" "stk \<in> fst ` live s7"
    "task_frame (mem s7) (stk + 1472) (idle_runner_addr (syms ?s6)) (finish_task_addr (syms ?s6))"
    "cpu s7 = cpu ?s6" "syms s7 = syms ?s6" "alloc_room s7 41 40976" "USEABLE_MEM_START s7 = USEABLE_MEM_START ?s6"
    "task_to_preserve s7 = n" "ready s7 n" "idle_task (kernel_pids s7) = 0"
    "\<not> is_external (task s7 n)" "stacksection_lower_bound (task s7 n) = stk" "is_slist s7 (child_tasks (task s7 n)) []"
    "{n, tdata (nodes s7 n), child_tasks (task s7 n)} \<subseteq> fst ` live s7" "\<exists>k\<ge>1600. (stk, k) \<in> live s7"
    by (rule setup_kernel_runtime_ok)
  have c7: "6 \<le> length (r4_11 (cpu s7))" "lr (cpu s7) AND 4 = 0" "rx_state_addr (syms s7) \<noteq> NULL"
    using S(8,9) B(2,3) assms(1,2) by (simp_all add: layout_ok_def)
  have "alloc_room s7 (Suc 40) (16 + 40960)" using S(10) by simp
  from this c7 obtain s8 where D: "setup_devices call s7 = Inr s8" "nodes s8 = nodes s7" "queues s8 = queues s7" "tcbs s8 = tcbs s7"
    "mem s8 = st32 (internal_rx_state_addr (syms s7)) (rx_state_addr (syms s7)) (mem s7)"
    "running_tasks s8 = running_tasks s7" "waiting_tasks s8 = waiting_tasks s7"
    "currently_running s8 = currently_running s7"
    "syms s8 = syms s7" "r4_11 (cpu s8) = (r4_11 (cpu s7))[2 := 9, 5 := internal_rx_state_addr (syms s7)]"
    "lr (cpu s8) = lr (cpu s7)" "task_to_preserve s8 = task_to_preserve s7" "kernel_pids s8 = kernel_pids s7"
    "slists s8 = slists s7" "snodes s8 = snodes s7" "live s7 \<subseteq> live s8" "alloc_room s8 40 40960"
    "uart_rx_buffer (io s8) = replicate 4 0" "bytes_received (io s8) = 0" by (rule setup_devices_ok)
  define s1 where "s1 = svcall (trap_number execPspTask) (s8\<lparr>cpu := (cpu s8)\<lparr>msp := stack_top (syms s8)\<rparr>\<rparr>)"
  have run: "bootstrap call hwfp loc j1 j2 s0 = Inr s1"
    unfolding bootstrap_eq S(1) bnd_simps prod.case KernelErrorCodes.case D(1) s1_def ..
  have s1: "nodes s1 = nodes s8" "queues s1 = queues s8" "tcbs s1 = tcbs s8" "mem s1 = mem s8"
    "running_tasks s1 = running_tasks s8" "waiting_tasks s1 = waiting_tasks s8" "currently_running s1 = n"
    "lr (cpu s1) AND 4 = 0" "r4_11 (cpu s1) ! 2 = 0" "svc_pending (cpu s1)" "msp (cpu s1) = stack_top ?y"
    using S(3,8,9) B(2,3) D(8-11) assms(2) by (simp_all add: s1_def svcall_def)
  have ok1: "sched_ok s1 [n] []"
    using S(2) by (rule sched_ok_tcbs) (simp_all add: same_queues_def s1 D)
  have n0: "n \<in> set [n] \<union> set []" by simp
  note n = sched_okD(12) [OF ok1 n0] sched_okD(5) [OF ok1 n0]
  have tk: "task s1 n = task s7 n" by (simp add: task_def s1 D)
  from exec_psp_task_ok [OF s1(8,9,7) n, of call] obtain s2 where X: "svcall_isr call s1 = Inr s2"
    "r4_11 (cpu s2) = load_r4_11 (stk + 1472) s1" "psp (cpu s2) = stk + 1472 + 32" "lr (cpu s2) = 0xFFFFFFFD"
    "msp (cpu s2) = msp (cpu s1)" "mem s2 = mem s1" "same_queues s1 s2" "tcbs s2 = tcbs s1" "currently_running s2 = n"
    "task_to_preserve s2 = task_to_preserve s1" "MEM_TABLE s2 = MEM_TABLE s1" "USEABLE_MEM_START s2 = USEABLE_MEM_START s1"
    "mutex s2 = mutex s1" "slists s2 = slists s1" "snodes s2 = snodes s1" "kernel_pids s2 = kernel_pids s1" "io s2 = io s1"
    unfolding tk S(5) by blast
  have ok2: "sched_ok s2 [n] []" using ok1 X(7,8) by (rule sched_ok_tcbs)
  have t2: "task s2 n = task s7 n" using X(7,8) tk by (simp add: task_def same_queues_def)
  let ?a = "internal_rx_state_addr ?y"
  have inv: "alloc_inv s7" using S(10) by (simp add: alloc_room_def)
  from S(6) obtain k where k: "(stk, k) \<in> live s7" by force
  have us: "unat (heap_start ?y) \<le> unat stk" using live_chunk_ok(4) [OF inv k] S(11) B(6) by simp
  have "task_frame (mem s1) (stk + 1472) (idle_runner_addr ?y) (finish_task_addr ?y)"
  proof -
    have "unat stk + k \<le> unat (USEABLE_MEM_START s7) + 65536"
      using live_below_total [OF inv k] inv by (simp add: alloc_inv_def)
    then have hi: "unat stk + 1536 < 2 ^ 32" using S(11) B(7) assms(1) by (simp add: layout_ok_def)
    have p: "unat (stk + 1472) = unat stk + 1472" using hi by (simp add: unat_word_ariths)
    have below: "unat ?a + 4 \<le> unat (heap_start ?y)" using assms(1) by (simp add: layout_ok_def)
    have "?a \<le> stk + 1472" using us p assms(1) by (simp add: word_le_nat_alt layout_ok_def)
    then have d: "unat (stk + 1472 - ?a) = unat stk + 1472 - unat ?a" by (simp add: unat_sub p)
    have "task_frame (st32 ?a (rx_state_addr ?y) (mem s7)) (stk + 1472) (idle_runner_addr ?y) (finish_task_addr ?y)"
    proof (rule task_frame_st32)
      show "task_frame (mem s7) (stk + 1472) (idle_runner_addr ?y) (finish_task_addr ?y)" using S(7) B(3) by simp
      show "4 \<le> unat (stk + 1472 - ?a)" "unat (stk + 1472 - ?a) + 64 \<le> 2 ^ 32"
        using d us hi below unfolding d by linarith+
    qed
    then show ?thesis using D(5) S(9) B(3) s1(4) by simp
  qed
  then have "starts_at s2 (idle_runner_addr ?y) (finish_task_addr ?y)"
    using X(2-4,6) by (intro task_frame_starts [of s2 "stk + 1472" _ _ s1]) simp_all
  then have st: "starts_at s2 (idle_runner_addr ?y) (finish_task_addr ?y)" .
  have m1: "MEM_TABLE s1 = MEM_TABLE s8" "USEABLE_MEM_START s1 = USEABLE_MEM_START s8" "mutex s1 = mutex s8"
    "slists s1 = slists s8" "snodes s1 = snodes s8" "kernel_pids s1 = kernel_pids s8" "task_to_preserve s1 = task_to_preserve s8"
    by (simp_all add: s1_def svcall_def)
  have lv: "live s2 = live s8" "alloc_room s2 40 40960 = alloc_room s8 40 40960"
    using alloc_room_cong [of s2 s8] X(11-13) m1(1-3) by simp_all
  have n2: "nodes s2 = nodes s7" using X(7) s1(1) D(2) by (simp add: same_queues_def)
  have sl: "is_slist s2 l xs = is_slist s7 l xs" for l xs using X(14,15) m1(4,5) D(14,15) by (simp add: is_slist_def)
  show ?thesis
  proof (rule that [OF run s1(10) X(1) ok2 X(9)])
    show "pid (task s2 n) = 0" "\<not> is_external (task s2 n)" "stacksection_lower_bound (task s2 n) = stk" using t2 S(4,15,16) by simp_all
    show "msp (cpu s2) = stack_top ?y" using X(5) s1(11) by simp
    show "task_to_preserve s2 = n" "idle_task (kernel_pids s2) = 0" using X(10,16) m1(6,7) D(12,13) S(12,14) by simp_all
    show "ready s2 n" using S(13) t2 by (simp add: ready_def)
    show "alloc_room s2 40 40960" using lv D(17) by simp
    show "is_slist s2 (child_tasks (task s2 n)) []" unfolding sl t2 by (rule S(17))
    show "{n, tdata (nodes s2 n), child_tasks (task s2 n)} \<subseteq> fst ` live s2" "\<exists>k\<ge>1600. (stk, k) \<in> live s2"
      using S(18,19) D(16) unfolding lv(1) n2 t2 by auto
    have "io s2 = io s8" using X(17) by (simp add: s1_def svcall_def)
    then show "uart_rx_buffer (io s2) = replicate 4 0" "bytes_received (io s2) = 0" using D(18,19) by simp_all
  qed (rule st)
qed

text \<open>
  C1. From reset, \<open>bootstrap\<close> comes to its supervisor call, and that call leaves the core about
  to enter the idle task: the idle task (pid 0) is alone in the running queue and selected, the
  waiting queue is empty, r4 to r11 are 0, the process stack pointer is at the frame
  \<open>create_task\<close> built, from which the core takes \<open>idle_runner\<close> as program counter and
  \<open>finish_task\<close> as return address.
\<close>
theorem bootstrap_starts_idle_task:
  assumes "layout_ok (syms s0)" "length (r4_11 (cpu s0)) = 8" "3 < length (timer_configurations (drv s0))"
  shows "\<exists>s1 s2 n. bootstrap call hwfp loc j1 j2 s0 = Inr s1 \<and> svc_pending (cpu s1) \<and> svcall_isr call s1 = Inr s2 \<and>
     sched_ok s2 [n] [] \<and> currently_running s2 = n \<and> pid (task s2 n) = 0 \<and>
     msp (cpu s2) = stack_top (syms s0) \<and> starts_at s2 (idle_runner_addr (syms s0)) (finish_task_addr (syms s0))"
  using assms by (rule bootstrap_ok [where call = call and hwfp = hwfp and loc = loc and ?j1.0 = j1 and ?j2.0 = j2]) blast

theorem bootstrap_starts_idle_task_witness:
  "\<exists>s1 s2. bootstrap (\<lambda>a. Inr) False 0x20000800 0 0 zero_kernel = Inr s1 \<and> svcall_isr (\<lambda>a. Inr) s1 = Inr s2 \<and>
     starts_at s2 0x08000201 0x08000101"
proof -
  have "layout_ok (syms zero_kernel)" "length (r4_11 (cpu zero_kernel)) = 8"
    "3 < length (timer_configurations (drv zero_kernel))"
    by (simp_all add: layout_ok_def heap_start_def zero_kernel_def max_def)
  from bootstrap_starts_idle_task [OF this, of "\<lambda>a. Inr" False "0x20000800" 0 0] show ?thesis
    by (auto simp: zero_kernel_def)
qed

end
