(* ===== verification/Task_Properties.thy ===== *)
theory Task_Properties
  imports Boot Kernel_Properties
begin

text \<open>
  Properties of tasks over time: what the creation of a task leaves behind, what supervisor
  calls do to the caller's registers, and that a task continues where it yielded.
\<close>

section \<open>Creation\<close>

text \<open>
  C18. \<open>create_task\<close>, with room for its five chunks, returns the pid (the number of tasks so far, as
  a byte): one new task stands at the end of its queue (the running queue in state READY, pid 0 in
  the waiting queue), its block holds what the code promises, its stack holds the frame the first
  switch loads, every other task is as it was, and memory outside the new stack is unchanged.
\<close>
theorem create_task_correct:
  assumes "sched_ok s R W" "owns s (set R \<union> set W)" "owns s ((\<lambda>n. tdata (nodes s n)) ` (set R \<union> set W))"
    "currently_running s \<noteq> NULL \<longrightarrow> currently_running s \<in> set R \<union> set W"
    "can_register s" "alloc_room s 5 1688" "length R + length W + 1 < 2 ^ 32 - 1"
    "p = (of_nat (length R + length W) :: u8)"
  shows "\<exists>s' n stk l. create_task fn ram a s = Inr (ucast p, s') \<and>
    sched_ok s' (if p = 0 then R else R @ [n]) (if p = 0 then W @ [n] else W) \<and> n \<notin> set R \<union> set W \<and>
    task s' n = new_tcb p ram (task_size (tInfo s)) stk (parent_of_new s) l \<and>
    (\<forall>m\<in>set R \<union> set W. task s' m = task s m) \<and>
    task_frame (mem s') (stk + 1472) fn (finish_task_addr (syms s)) \<and>
    (\<forall>x. 1536 \<le> unat (x - stk) \<longrightarrow> mem s' x = mem s x)"
proof -
  have room: "alloc_room s (5 + 0) (1688 + 0)" using assms(6) by simp
  from assms(1-5) room assms(7) obtain s' n stk l where
    "create_task fn ram a s = Inr (ucast p, s')"
    "sched_ok s' (if p = 0 then R else R @ [n]) (if p = 0 then W @ [n] else W)" "n \<notin> set R \<union> set W"
    "task s' n = new_tcb p ram (task_size (tInfo s)) stk (parent_of_new s) l"
    "\<forall>m\<in>set R \<union> set W. task s' m = task s m"
    "task_frame (mem s') (stk + 1472) fn (finish_task_addr (syms s))"
    "\<forall>x. 1536 \<le> unat (x - stk) \<longrightarrow> mem s' x = mem s x"
    unfolding assms(8) by (rule create_task_ok)
  then show ?thesis by blast
qed

text \<open>The kernel with its two queues created and no task yet.\<close>

definition fresh_kernel :: kernel where
  "fresh_kernel = start_kernel\<lparr>running_tasks := 0x10, waiting_tasks := 0x20\<rparr>"

lemma fresh_kernel_sel:
  "running_tasks fresh_kernel = 0x10" "waiting_tasks fresh_kernel = 0x20" "currently_running fresh_kernel = NULL"
  "queues fresh_kernel = (\<lambda>_. \<lparr>q_size = 0, head = 0, tail = 0\<rparr>)" "syms fresh_kernel = syms zero_kernel"
  by (simp_all add: fresh_kernel_def start_kernel_def init_allocator_def zero_kernel_def Let_def)

lemma fresh_sched_ok: "sched_ok fresh_kernel [] []"
  by (simp add: sched_ok_def is_queue_def fresh_kernel_sel)

lemma fresh_room: "alloc_room fresh_kernel 5 1688"
proof -
  have "alloc_room start_kernel 5 1688" using start_kernel_inv by (simp add: alloc_room_def total_len_def)
  then show ?thesis using alloc_room_cong [of fresh_kernel start_kernel] by (simp add: fresh_kernel_def)
qed

theorem create_task_correct_witness:
  "\<exists>s' n stk. create_task 0x08000201 0 0x20017FF0 fresh_kernel = Inr (0, s') \<and> sched_ok s' [] [n] \<and>
    task_frame (mem s') (stk + 1472) 0x08000201 0x08000101"
proof -
  have "owns fresh_kernel (set [] \<union> set [])" "owns fresh_kernel ((\<lambda>n. tdata (nodes fresh_kernel n)) ` (set [] \<union> set []))"
    "can_register fresh_kernel"
    by (simp_all add: owns_def can_register_def fresh_kernel_sel)
  from create_task_correct [OF fresh_sched_ok this(1,2) _ this(3) fresh_room _ refl, of "0x08000201" 0 "0x20017FF0"]
  show ?thesis by (auto simp: fresh_kernel_sel zero_kernel_def)
qed

section \<open>Supervisor calls\<close>

lemma restore_after:
  assumes "lr (cpu s) AND 4 \<noteq> 0" "length (r4_11 (cpu s)) = 8"
    and "cpu s2 = cpu (save_psp_if_threadmode s)" "mem s2 = mem (save_psp_if_threadmode s)"
  shows "cpu (restore_psp s2) = cpu s" "restore_psp_if_threadmode s2 = restore_psp s2"
proof -
  have l: "load_r4_11 p s2 = load_r4_11 p (save_psp_if_threadmode s)" for p
    using assms(4) by (simp add: load_r4_11_def)
  have "cpu (restore_psp s2) = cpu (restore_psp (save_psp_if_threadmode s))"
    unfolding restore_psp_def assms(3) l by simp
  then show "cpu (restore_psp s2) = cpu s" using save_restore [OF assms(1,2)] by simp
  show "restore_psp_if_threadmode s2 = restore_psp s2"
    using assms(1,3) by (simp add: restore_psp_if_threadmode_def save_psp_if_threadmode_def)
qed

lemma wakeup_any:
  assumes "sched_ok s R W"
  obtains q s' R' W' where "wakeup_pid p s = Inr (q, s')" "sched_ok s' R' W'" "mset (R' @ W') = mset (R @ W)" "wake_frame s s'"
  using assms
proof (cases rule: wakeup_pid_cases [where p = p])
  case none
  with assms show ?thesis by (intro that [of NULL s R W]) simp_all
next
  case (woken as c bs s')
  then show ?thesis by (intro that [of c s' "R @ [c]" "as @ bs"]) simp_all
qed

text \<open>What the handler does between saving and restoring leaves the core, memory and the tasks alone.\<close>

definition quiet :: "addr multiset \<Rightarrow> kernel \<Rightarrow> kernel \<Rightarrow> bool" where
  "quiet N s s' \<longleftrightarrow> cpu s' = cpu s \<and> mem s' = mem s \<and> (\<exists>R W. sched_ok s' R W \<and> mset (R @ W) = N)"

lemma quiet_step:
  assumes "quiet N s s" "cpu s' = cpu s" "mem s' = mem s" "same_queues s s'" "tcbs s' = tcbs s"
  shows "quiet N s s'"
proof -
  from assms(1) obtain R W where "sched_ok s R W" "mset (R @ W) = N" by (auto simp: quiet_def)
  moreover from this(1) have "sched_ok s' R W" using assms(4,5) by (rule sched_ok_tcbs)
  ultimately show ?thesis using assms(2,3) unfolding quiet_def by blast
qed

lemma quiet_bus:
  assumes "quiet N s s" "bus_frame s s'"
  shows "quiet N s s'"
  using assms(1) by (rule quiet_step) (simp_all add: dev_frame_kernel [OF dev_frame_bus [OF assms(2)]] same_queues_def)

lemma quiet_io: "quiet N s s \<Longrightarrow> quiet N s (s\<lparr>io := i\<rparr>)"
  by (rule quiet_step) (simp_all add: same_queues_def)

lemma quiet_wake:
  assumes "quiet N s s"
  obtains q s' where "wakeup_pid p s = Inr (q, s')" "quiet N s s'"
proof -
  from assms obtain R W where s: "sched_ok s R W" "mset (R @ W) = N" by (auto simp: quiet_def)
  from s(1) obtain q s' R' W' where w: "wakeup_pid p s = Inr (q, s')" "sched_ok s' R' W'"
    "mset (R' @ W') = mset (R @ W)" "wake_frame s s'" by (rule wakeup_any)
  with s(2) wake_frame_sel(1,2) [OF w(4)] show ?thesis by (intro that [OF w(1)]) (auto simp: quiet_def)
qed

text \<open>
  C26. The calls that answer at once (SysTick off and on, the io callback, waking a task, waking the
  io task) give the caller in thread mode its registers back: r4 to r11, the stack pointer and the
  rest of the core are as before the call, and no task is lost from the queues.
\<close>
theorem supervisor_call_restores:
  assumes "sched_ok s R W" "lr (cpu s) AND 4 \<noteq> 0" "length (r4_11 (cpu s)) = 8"
    and "c \<in> {svc_std, svc_ste, setExtIoCallback, wakeupPid, wakeupIoHandler}" "r4_11 (cpu s) ! 2 = trap_number c"
  shows "\<exists>s' R' W'. svcall_isr call s = Inr s' \<and> cpu s' = (cpu s)\<lparr>svc_pending := False\<rparr> \<and>
    sched_ok s' R' W' \<and> mset (R' @ W') = mset (R @ W)"
proof -
  let ?s0 = "s\<lparr>cpu := (cpu s)\<lparr>svc_pending := False\<rparr>\<rparr>"
  define s1 where "s1 = save_psp_if_threadmode ?s0"
  have s1: "r4_11 (cpu s1) ! 2 = trap_number c" "same_queues s s1" "tcbs s1 = tcbs s"
    using assms(5) by (simp_all add: s1_def save_psp_if_threadmode_def same_queues_def)
  let ?N = "mset (R @ W)"
  have q1: "quiet ?N s1 s1" using sched_ok_tcbs [OF assms(1) s1(2,3)] unfolding quiet_def by blast
  have fin: "cpu (restore_psp s2) = cpu ?s0 \<and> (\<exists>R' W'. sched_ok (restore_psp s2) R' W' \<and> mset (R' @ W') = ?N)"
    "restore_psp_if_threadmode s2 = restore_psp s2"
    if "quiet ?N s1 s2" for s2
  proof -
    have "cpu s2 = cpu (save_psp_if_threadmode ?s0)" "mem s2 = mem (save_psp_if_threadmode ?s0)"
      using that by (simp_all add: quiet_def s1_def)
    note r = restore_after [OF _ _ this, simplified, OF assms(2,3)]
    show "restore_psp_if_threadmode s2 = restore_psp s2" by (rule r(2))
    from that obtain R' W' where "sched_ok s2 R' W'" "mset (R' @ W') = ?N" by (auto simp: quiet_def)
    moreover from this(1) have "sched_ok (restore_psp s2) R' W'"
      by (rule sched_ok_tcbs) (simp_all add: restore_psp_def same_queues_def)
    ultimately show "cpu (restore_psp s2) = cpu ?s0 \<and> (\<exists>R' W'. sched_ok (restore_psp s2) R' W' \<and> mset (R' @ W') = ?N)"
      using r(1) by auto
  qed
  have "\<exists>s2. svcall_isr call s = Inr (restore_psp s2) \<and> quiet ?N s1 s2"
  proof -
    have bus: "quiet ?N s1 (if SYSTICK s1 then ST_DISABLE s1 else s1)" "quiet ?N s1 (if SYSTICK s1 then ST_ENABLE s1 else s1)"
      using q1 quiet_bus [OF q1] by (simp_all add: ST_DISABLE_def ST_ENABLE_def bus_frame_MODIFY)
    obtain p1 w1 where w1: "wakeup_pid (r4_11 (cpu s1) ! 5) s1 = Inr (p1, w1)" "quiet ?N s1 w1"
      using q1 by (rule quiet_wake)
    obtain p2 w2 where w2: "wakeup_pid (pid_arg (external_io_runner_pid (kernel_pids s1))) s1 = Inr (p2, w2)" "quiet ?N s1 w2"
      using q1 by (rule quiet_wake)
    note eq = svcall_isr_def [of call s, unfolded Let_def, folded s1_def, unfolded s1(1)]
    from assms(4) consider "c = svc_std" | "c = svc_ste" | "c = setExtIoCallback" | "c = wakeupPid" | "c = wakeupIoHandler" by blast
    then show ?thesis
    proof cases
      case 1
      then show ?thesis unfolding eq using bus(1) by (intro exI conjI) (simp, assumption)
    next
      case 2
      then show ?thesis unfolding eq using bus(2) by (intro exI conjI) (simp, assumption)
    next
      case 3
      then show ?thesis unfolding eq using quiet_io [OF q1] by (intro exI conjI) (simp, assumption)
    next
      case 4
      then show ?thesis unfolding eq using w1 by (intro exI conjI) (simp, assumption)
    next
      case 5
      then show ?thesis unfolding eq using w2 fin(2) [OF w2(2)] by (intro exI conjI) (simp, assumption)
    qed
  qed
  then obtain s2 where "svcall_isr call s = Inr (restore_psp s2)" "quiet ?N s1 s2" by blast
  with fin(1) [of s2] show ?thesis by auto
qed

theorem supervisor_call_restores_witness:
  "\<exists>s'. svcall_isr (\<lambda>_. Inr) (demo_kernel\<lparr>cpu := (cpu demo_kernel)\<lparr>r4_11 := [1, 2, 7, 4, 5, 0, 7, 8], psp := 0x20001000\<rparr>\<rparr>)
     = Inr s' \<and> r4_11 (cpu s') = [1, 2, 7, 4, 5, 0, 7, 8] \<and> psp (cpu s') = 0x20001000"
proof -
  let ?s = "demo_kernel\<lparr>cpu := (cpu demo_kernel)\<lparr>r4_11 := [1, 2, 7, 4, 5, 0, 7, 8], psp := 0x20001000\<rparr>\<rparr>"
  have "sched_ok ?s [0x100, 0x200, 0x300] [0x400]"
    by (rule sched_ok_tcbs [OF demo_sched_ok]) simp_all
  from supervisor_call_restores [OF this, of wakeupPid "\<lambda>_. Inr"] show ?thesis
    by (auto simp: demo_kernel_sel zero_kernel_def)
qed

text \<open>
  C38. \<open>getIoBuffer\<close> lacks the restore: it stores the address of \<open>rx_state\<close> where the caller asked,
  and the caller resumes with its stack pointer 32 bytes too low.
\<close>
theorem getIoBuffer_moves_stack:
  assumes "lr (cpu s) AND 4 \<noteq> 0" "length (r4_11 (cpu s)) = 8" "r4_11 (cpu s) ! 2 = trap_number getIoBuffer"
  shows "\<exists>s'. svcall_isr call s = Inr s' \<and> psp (cpu s') = psp (cpu s) - 32 \<and>
    ld32 (mem s') (r4_11 (cpu s) ! 5) = rx_state_addr (syms s)"
  using assms by (simp add: svcall_isr_def save_psp_if_threadmode_def Let_def)

theorem getIoBuffer_moves_stack_witness:
  "\<exists>s'. svcall_isr (\<lambda>_. Inr) (demo_kernel\<lparr>cpu := (cpu demo_kernel)\<lparr>r4_11 := [0, 0, 9, 0, 0, 0x20000100, 0, 0], psp := 0x20001000\<rparr>\<rparr>)
     = Inr s' \<and> psp (cpu s') = 0x20000FE0 \<and> ld32 (mem s') 0x20000100 = 0x20000010"
  using getIoBuffer_moves_stack [of "demo_kernel\<lparr>cpu := (cpu demo_kernel)\<lparr>r4_11 := [0, 0, 9, 0, 0, 0x20000100, 0, 0],
      psp := 0x20001000\<rparr>\<rparr>" "\<lambda>_. Inr"]
  by (simp add: demo_kernel_sel zero_kernel_def)

section \<open>Yield and resume\<close>

text \<open>A switch succeeds in every state of the scheduler, with the idle task in one of the queues.\<close>

lemma pendsv_total:
  assumes ok: "sched_ok s R W" and cur: "currently_running s = NULL \<or> currently_running s \<in> set R"
    and idle: "has_idle s (set R \<union> set W)" and tp: "task_to_preserve s \<in> set R \<union> set W"
  shows "\<exists>s' R' W'. pendsv_isr s = Inr s' \<and> sched_ok s' R' W' \<and> selected s' R' \<and> mset (R' @ W') = mset (R @ W) \<and> set R \<subseteq> set R'"
proof -
  let ?s1 = "disable_irq s"
  define s2 where "s2 = (if DEBUG ?s1 \<noteq> 0
      then ?s1\<lparr>process_stats := (process_stats ?s1)\<lparr>num_of_pendsv := num_of_pendsv (process_stats ?s1) + 1\<rparr>\<rparr> else ?s1)"
  have s2: "same_queues s s2" "tcbs s2 = tcbs s" "nodes s2 = nodes s" "task_to_preserve s2 = task_to_preserve s"
    "currently_running s2 = currently_running s" "kernel_pids s2 = kernel_pids s"
    by (simp_all add: s2_def disable_irq_def same_queues_def)
  let ?c = "tdata (nodes s (task_to_preserve s))"
  let ?s3 = "s2\<lparr>tcbs := (tcbs s)(?c := (tcbs s ?c)\<lparr>sp := psp (cpu s2)\<rparr>)\<rparr>"
  have ne: "task_to_preserve s \<noteq> NULL" "?c \<noteq> NULL" using sched_okD(5,12) [OF ok tp] by blast+
  have u: "upd_tcb_of (task_to_preserve s2) (\<lambda>t. t\<lparr>sp := psp (cpu s2)\<rparr>) s2 = Inr ?s3"
    using ne s2 by (simp add: upd_tcb_of_def typed_access)
  have tk: "tstate (task ?s3 n) = tstate (task s n)" "pid (task ?s3 n) = pid (task s n)" for n
    using s2(3) by (simp_all add: task_def)
  have ok3: "sched_ok ?s3 R W"
    using ok by (rule sched_ok_same) (use s2 sched_okD(7,8) [OF ok] tk in \<open>auto simp: same_queues_def\<close>)
  have "has_idle ?s3 (set R \<union> set W)" using idle tk s2(6) by (simp add: has_idle_def)
  with ok3 cur obtain s4 R' W' where sw: "switch_task ?s3 = Inr s4" "sched_ok s4 R' W'" "selected s4 R'"
    "mset (R' @ W') = mset (R @ W)" "set R \<subseteq> set R'"
    using switch_task_ok [of ?s3 R W] s2(5) by auto
  let ?n = "currently_running s4"
  have n: "?n \<in> set R' \<union> set W'" using sw(3) by (simp add: selected_def)
  have tc: "tcb_of ?n s4 = Inr (task s4 ?n)"
    using sched_okD(5,12) [OF sw(2) n] by (simp add: tcb_of_def typed_access task_def)
  define s' where "s' = (let s5 = enable_irq s4; s6 = s5\<lparr>cpu := (cpu s5)\<lparr>r4_11 := load_r4_11 (sp (task s4 ?n)) s5\<rparr>\<rparr>;
      s7 = ST_ENABLE s6 in s7\<lparr>cpu := (cpu s7)\<lparr>psp := sp (task s4 ?n) + 32\<rparr>\<rparr>)"
  have run: "pendsv_isr s = Inr s'"
    unfolding pendsv_isr_def Let_def s2_def [symmetric] u bnd_simps sw(1) tc s'_def ..
  have s': "same_queues s4 s'" "tcbs s' = tcbs s4" "currently_running s' = ?n" "task_to_preserve s' = task_to_preserve s4"
    by (simp_all add: s'_def Let_def same_queues_def ST_ENABLE_def enable_irq_def)
  have "sched_ok s' R' W'" using sw(2) s'(1,2) by (rule sched_ok_tcbs)
  moreover have "selected s' R'"
    using sw(3) s' by (simp add: selected_def ready_def task_def same_queues_def)
  ultimately show ?thesis using run sw(4,5) by blast
qed

text \<open>The yielding call itself succeeds and keeps what \<open>pendsv_isr\<close> needs.\<close>

lemma yield_total:
  assumes ok: "sched_ok s R W" and cur: "currently_running s = NULL \<or> currently_running s \<in> set R"
    and idle: "has_idle s (set R \<union> set W)" and y: "r4_11 (cpu s) ! 2 = trap_number yieldTask"
  shows "\<exists>s'. svcall_isr call s = Inr s' \<and> sched_ok s' R W \<and> has_idle s' (set R \<union> set W) \<and>
    currently_running s' = currently_running s \<and> task_to_preserve s' = task_to_preserve s \<and>
    drv s' = drv s \<and> (\<forall>n. ready s' n = ready s n)"
proof -
  define s1 where "s1 = save_psp_if_threadmode (s\<lparr>cpu := (cpu s)\<lparr>svc_pending := False\<rparr>\<rparr>)"
  have s1: "r4_11 (cpu s1) ! 2 = trap_number yieldTask" "same_queues s s1" "tcbs s1 = tcbs s" "nodes s1 = nodes s"
    "currently_running s1 = currently_running s" "kernel_pids s1 = kernel_pids s" "task_to_preserve s1 = task_to_preserve s"
    using y by (simp_all add: s1_def save_psp_if_threadmode_def same_queues_def)
  have run: "svcall_isr call s = yield_case s1"
    unfolding svcall_isr_def Let_def s1_def [symmetric] s1(1) by simp
  let ?c = "tdata (nodes s (currently_running s))"
  let ?u = "s1\<lparr>tcbs := (tcbs s)(?c := (tcbs s ?c)\<lparr>lifetime_info := (lifetime_info (tcbs s ?c))\<lparr>voluntary_interrupts :=
      voluntary_interrupts (lifetime_info (tcbs s ?c)) + 1\<rparr>\<rparr>)\<rparr>"
  let ?t = "if DEBUG s1 \<noteq> 0 \<and> currently_running s \<noteq> NULL then ?u else s1"
  have e: "yield_case s1 = Inr (set_pendsv ?t)"
    using cur sched_okD(5) [OF ok, of "currently_running s"] s1(3-5)
    by (auto simp: yield_case_def upd_tcb_of_def typed_access)
  have tk: "tstate (task (set_pendsv ?t) n) = tstate (task s n)" "pid (task (set_pendsv ?t) n) = pid (task s n)" for n
    using s1(3,4) by (simp_all add: task_def set_pendsv_def)
  have sq: "same_queues s (set_pendsv ?t)"
    using s1(2) by (simp add: same_queues_def set_pendsv_def)
  have "sched_ok (set_pendsv ?t) R W"
    using ok sq by (rule sched_ok_same) (use sched_okD(7,8) [OF ok] tk in auto)
  moreover have "has_idle (set_pendsv ?t) (set R \<union> set W)"
    using idle tk s1(6) by (simp add: has_idle_def set_pendsv_def)
  moreover have "currently_running (set_pendsv ?t) = currently_running s" "task_to_preserve (set_pendsv ?t) = task_to_preserve s"
    using s1(5,7) by (simp_all add: set_pendsv_def)
  moreover have "ready (set_pendsv ?t) n = ready s n" for n using tk(1) by (simp add: ready_def)
  moreover have "drv (set_pendsv ?t) = drv s"
    by (simp add: set_pendsv_def s1_def save_psp_if_threadmode_def bus_frame_kernel(2) [OF bus_frame_MODIFY [OF bus_frame_refl]])
  ultimately show ?thesis using run e by auto
qed

text \<open>
  C17. A task continues where it yielded.  From any state of the scheduler the yielding call and the
  switch succeed and leave a READY task selected; and whenever, later, a switch away from another
  task selects the first one again, with its saved stack pointer and the 32 bytes below its stack
  untouched in between, r4 to r11 and the process stack pointer are those of the yield.
\<close>
theorem yield_resume_roundtrip:
  assumes "sched_ok s R W" "currently_running s = NULL \<or> currently_running s \<in> set R" "has_idle s (set R \<union> set W)"
    and "task_to_preserve s = c" "c \<in> set R \<union> set W"
    and "r4_11 (cpu s) ! 2 = trap_number yieldTask" "lr (cpu s) AND 4 \<noteq> 0" "length (r4_11 (cpu s)) = 8"
    and "t = tdata (nodes s c)"
  shows "\<exists>s1 s2 R' W'. svcall_isr call s = Inr s1 \<and> pendsv_isr s1 = Inr s2 \<and> sched_ok s2 R' W' \<and> selected s2 R' \<and>
    (\<forall>u u'. pendsv_isr u = Inr u' \<and> tdata (nodes u (currently_running u')) = t \<and>
       tdata (nodes u (task_to_preserve u)) \<noteq> t \<and> sp (tcbs u t) = sp (tcbs s2 t) \<and>
       load_r4_11 (sp (tcbs u t)) u = load_r4_11 (sp (tcbs u t)) s2 \<longrightarrow>
       r4_11 (cpu u') = r4_11 (cpu s) \<and> psp (cpu u') = psp (cpu s))"
proof -
  from yield_total [OF assms(1-3,6)] obtain s1 where y: "svcall_isr call s = Inr s1" "sched_ok s1 R W"
    "has_idle s1 (set R \<union> set W)" "currently_running s1 = currently_running s" by blast
  note S = yield_saves [OF assms(6-8) y(1)]
  have "currently_running s1 = NULL \<or> currently_running s1 \<in> set R" "task_to_preserve s1 \<in> set R \<union> set W"
    using y(4) S(3) assms(2,4,5) by simp_all
  from pendsv_total [OF y(2) this(1) y(3) this(2)] obtain s2 R' W' where p: "pendsv_isr s1 = Inr s2"
    "sched_ok s2 R' W'" "selected s2 R'" by blast
  have t: "tdata (nodes s1 (task_to_preserve s1)) = t" using S(3,4) assms(4,9) by simp
  have saved: "sp (tcbs s2 t) = psp (cpu s) - 32" "mem s2 = mem s1"
    using pendsv_context(1,4) [OF p(1)] t S(2) by simp_all
  then have l: "load_r4_11 (sp (tcbs s2 t)) s2 = r4_11 (cpu s)" using S(1) by (simp add: load_r4_11_def)
  have "r4_11 (cpu u') = r4_11 (cpu s) \<and> psp (cpu u') = psp (cpu s)"
    if u: "pendsv_isr u = Inr u'" "tdata (nodes u (currently_running u')) = t" "tdata (nodes u (task_to_preserve u)) \<noteq> t"
      "sp (tcbs u t) = sp (tcbs s2 t)" "load_r4_11 (sp (tcbs u t)) u = load_r4_11 (sp (tcbs u t)) s2" for u u'
    using pendsv_context(2,3) [OF u(1)] u(2-5) l saved(1) by (auto simp: task_def)
  then show ?thesis using y(1) p by blast
qed

theorem yield_resume_roundtrip_witness:
  "\<exists>s1 s2. svcall_isr (\<lambda>_. Inr) (demo_kernel\<lparr>cpu := (cpu demo_kernel)\<lparr>r4_11 := [1, 2, 2, 4, 5, 6, 7, 8], psp := 0x20001000\<rparr>\<rparr>)
     = Inr s1 \<and> pendsv_isr s1 = Inr s2"
proof -
  let ?s = "demo_kernel\<lparr>cpu := (cpu demo_kernel)\<lparr>r4_11 := [1, 2, 2, 4, 5, 6, 7, 8], psp := 0x20001000\<rparr>\<rparr>"
  have "sched_ok ?s [0x100, 0x200, 0x300] [0x400]" by (rule sched_ok_tcbs [OF demo_sched_ok]) simp_all
  moreover have "has_idle ?s (set [0x100, 0x200, 0x300] \<union> set [0x400])"
    using demo_idle by (simp add: has_idle_def task_def)
  ultimately show ?thesis
    using yield_resume_roundtrip [of ?s "[0x100, 0x200, 0x300]" "[0x400]" "0x100" _ "\<lambda>_. Inr"]
    by (auto simp: demo_kernel_sel zero_kernel_def)
qed

end
