(* ===== verification/Kernel_Inv.thy ===== *)
theory Kernel_Inv
  imports Sleep_Properties System_Properties Task_Properties
begin

text \<open>
  The invariant of the whole kernel: the two queues, the idle task, the memory every task owns
  and the memory handed to the tasks; and the frames that carry it over the operations.
\<close>

section \<open>What an operation keeps of the tasks\<close>

text \<open>The fields of a control block that never change after the creation of the task.\<close>

definition ident :: "Tcb \<Rightarrow> u8 \<times> bool \<times> u32 \<times> u32 \<times> addr \<times> addr" where
  "ident t = (pid t, is_external t, stacksection_lower_bound t, code_section t, parent_task t, child_tasks t)"

definition ended :: "Tcb \<Rightarrow> bool" where
  "ended t \<longleftrightarrow> tstate t = FINISHED \<or> tstate t = INVALID"

lemma finished_ended: "finished s n = ended (task s n)"
  by (simp add: finished_def ended_def)

text \<open>The receive buffer of the serial line has room for the next byte.\<close>

definition rx_room :: "IoState \<Rightarrow> bool" where
  "rx_room i \<longleftrightarrow> length (uart_rx_buffer i) = 4 \<and> unat (bytes_received i) < 4"

text \<open>
  \<open>steady A s s'\<close>: heap, lists of children and the identity of every task are the same, only
  tasks whose control block is in \<open>A\<close> may have ended, and the receive buffer keeps its room.
\<close>

definition steady :: "addr set \<Rightarrow> kernel \<Rightarrow> kernel \<Rightarrow> bool" where
  "steady A s s' \<longleftrightarrow>
     MEM_TABLE s' = MEM_TABLE s \<and> USEABLE_MEM_START s' = USEABLE_MEM_START s \<and> mutex s' = mutex s \<and>
     slists s' = slists s \<and> snodes s' = snodes s \<and> idle_task (kernel_pids s') = idle_task (kernel_pids s) \<and>
     (length (r4_11 (cpu s)) = 8 \<longrightarrow> length (r4_11 (cpu s')) = 8) \<and> (rx_room (io s) \<longrightarrow> rx_room (io s')) \<and>
     (\<forall>n. tdata (nodes s' n) = tdata (nodes s n)) \<and> (\<forall>a. ident (tcbs s' a) = ident (tcbs s a)) \<and>
     (\<forall>a. a \<notin> A \<longrightarrow> ended (tcbs s' a) \<longrightarrow> ended (tcbs s a))"

lemma steady_refl [simp]: "steady A s s"
  by (simp add: steady_def)

lemma steady_trans: "steady A s t \<Longrightarrow> steady A t u \<Longrightarrow> steady A s u"
  unfolding steady_def by (elim conjE, intro conjI allI impI) simp_all

lemma steady_weaken: "steady {} s t \<Longrightarrow> steady A s t"
  by (simp add: steady_def)

lemma steady_tasks:
  assumes "steady A s s'"
  shows "live s' = live s" "alloc_inv s' = alloc_inv s" "mutex s' = mutex s" "alloc_room s' k b = alloc_room s k b"
    "tdata (nodes s' n) = tdata (nodes s n)" "ident (task s' n) = ident (task s n)" "pid (task s' n) = pid (task s n)"
    "chunks_of s' n = chunks_of s n" "child_tasks (task s' n) = child_tasks (task s n)"
    "parent_task (task s' n) = parent_task (task s n)" "stacksection_lower_bound (task s' n) = stacksection_lower_bound (task s n)"
    "is_slist s' l xs = is_slist s l xs" "idle_task (kernel_pids s') = idle_task (kernel_pids s)"
    "tdata (nodes s n) \<notin> A \<Longrightarrow> ended (task s' n) \<Longrightarrow> ended (task s n)"
proof -
  have h: "MEM_TABLE s' = MEM_TABLE s" "USEABLE_MEM_START s' = USEABLE_MEM_START s" "mutex s' = mutex s"
    using assms by (simp_all add: steady_def)
  from alloc_room_cong [OF h] show "live s' = live s" "alloc_inv s' = alloc_inv s" "alloc_room s' k b = alloc_room s k b"
    by simp_all
  show "mutex s' = mutex s" by (rule h(3))
  show t: "tdata (nodes s' n) = tdata (nodes s n)" for n using assms by (simp add: steady_def)
  show i: "ident (task s' n) = ident (task s n)" for n using assms by (simp add: steady_def task_def)
  then show "pid (task s' n) = pid (task s n)" "child_tasks (task s' n) = child_tasks (task s n)"
    "parent_task (task s' n) = parent_task (task s n)" "stacksection_lower_bound (task s' n) = stacksection_lower_bound (task s n)"
    by (simp_all add: ident_def)
  show "chunks_of s' n = chunks_of s n" using i [of n] t [of n] by (simp add: chunks_of_def ident_def)
  show "is_slist s' l xs = is_slist s l xs" "idle_task (kernel_pids s') = idle_task (kernel_pids s)"
    using assms by (simp_all add: steady_def is_slist_def)
  show "tdata (nodes s n) \<notin> A \<Longrightarrow> ended (task s' n) \<Longrightarrow> ended (task s n)"
    using assms t [of n] by (simp add: steady_def task_def)
qed

named_theorems steady_intros \<open>operations that keep the tasks\<close>

lemma steady_upds [steady_intros]:
  "length (r4_11 c) = 8 \<or> length (r4_11 c) = length (r4_11 (cpu s)) \<Longrightarrow> steady A s (s\<lparr>cpu := c\<rparr>)"
  "steady A s (s\<lparr>mem := m\<rparr>)" "(rx_room (io s) \<Longrightarrow> rx_room i) \<Longrightarrow> steady A s (s\<lparr>io := i\<rparr>)" "steady A s (s\<lparr>process_stats := p\<rparr>)"
  "steady A s (s\<lparr>currently_running := c'\<rparr>)" "steady A s (s\<lparr>task_to_preserve := c'\<rparr>)"
  "steady A s (s\<lparr>pid_of_sleeping_task := w\<rparr>)"
  by (auto simp: steady_def)

lemma steady_cpu [steady_intros]:
  "steady A s (disable_irq s)" "steady A s (enable_irq s)" "steady A s (svcall w s)" "steady A s (svcall_param w v s)"
  unfolding disable_irq_def enable_irq_def svcall_def svcall_param_def by (rule steady_intros, simp)+

lemma steady_dev: "dev_frame s s' \<Longrightarrow> steady A s s'"
  by (simp add: steady_def dev_frame_kernel)

lemma steady_bus [steady_intros]:
  "steady A s (MODIFY_REGISTER a f s)" "steady A s (set_pendsv s)" "steady A s (ST_ENABLE s)" "steady A s (ST_DISABLE s)"
  unfolding set_pendsv_def ST_ENABLE_def ST_DISABLE_def
  by (intro steady_dev dev_frame_bus bus_frame_intros)+

lemma steady_kept:
  assumes "context_kept s s'"
  shows "steady A s s'"
proof -
  have t: "tcbs s' a = tcbs s a \<or> tcbs s' a = (tcbs s a)\<lparr>tstate := READY\<rparr>" for a
    using assms unfolding context_kept_def by blast
  have "ident (tcbs s' a) = ident (tcbs s a)" for a using t [of a] by (auto simp: ident_def)
  moreover have "ended (tcbs s' a) \<longrightarrow> ended (tcbs s a)" for a using t [of a] by (auto simp: ended_def)
  moreover have "MEM_TABLE s' = MEM_TABLE s" "USEABLE_MEM_START s' = USEABLE_MEM_START s" "mutex s' = mutex s"
    "slists s' = slists s" "snodes s' = snodes s" "kernel_pids s' = kernel_pids s" "cpu s' = cpu s" "io s' = io s"
    using assms by (cases s; cases s'; simp add: context_kept_def)+
  moreover have "\<forall>n. tdata (nodes s' n) = tdata (nodes s n)" using assms by (simp add: context_kept_def)
  ultimately show ?thesis by (simp add: steady_def)
qed

lemma steady_tcb:
  assumes "upd_tcb_of q f s = Inr s'" "\<And>t. ident (f t) = ident t"
    "tdata (nodes s q) \<in> A \<or> (\<forall>t. ended (f t) \<longrightarrow> ended t)"
  shows "steady A s s'"
  using assms by (auto simp: upd_tcb_of_def typed_access bnd_eq_Inr steady_def split: if_splits)

text \<open>The operations of the scheduler.\<close>

lemma steady_block:
  assumes "block_current_task s = Inr s'"
  shows "steady {} s s'"
proof -
  from assms obtain s1 s3 s4 q where
    u: "upd_tcb_of (currently_running s) (\<lambda>t. t\<lparr>tstate := WAITING\<rparr>) (disable_irq s) = Inr s1"
    and i: "isolate_node (running_tasks s1) (currently_running s1) (s1\<lparr>task_to_preserve := currently_running s1\<rparr>) = Inr s3"
    and m: "move_node (waiting_tasks s3) (currently_running s3) s3 = Inr s4"
    and s': "s' = svcall (trap_number yieldTask) (enable_irq (s4\<lparr>currently_running := q\<rparr>))"
    by (auto simp: block_current_task_def Let_def bnd_eq_Inr)
  have "steady {} (disable_irq s) s1" using u by (rule steady_tcb) (simp_all add: ident_def ended_def)
  then have "steady {} s s1" using steady_cpu(1) steady_trans by blast
  then have "steady {} s s4"
    by (rule steady_trans [OF _ steady_trans [OF steady_upds(6) steady_trans [OF steady_kept [OF isolate_kept [OF i]]
          steady_kept [OF move_kept [OF m]]]]])
  then show ?thesis
    unfolding s' by (rule steady_trans [OF _ steady_trans [OF steady_upds(5) steady_trans [OF steady_cpu(2,3)]]])
qed

lemma steady_sleep:
  assumes "task_sleep d s = Inr s'"
  shows "steady {} s s'"
proof -
  from assms obtain w where b: "block_current_task (timer_start TimerForTaskSleep (timer_flush_counter TimerForTaskSleep
      (set_ccr TimerForTaskSleep d 1 (s\<lparr>pid_of_sleeping_task := w\<rparr>)))) = Inr s'"
    by (auto simp: task_sleep_def bnd_eq_Inr)
  have "steady {} (s\<lparr>pid_of_sleeping_task := w\<rparr>) (timer_start TimerForTaskSleep (timer_flush_counter TimerForTaskSleep
      (set_ccr TimerForTaskSleep d 1 (s\<lparr>pid_of_sleeping_task := w\<rparr>))))"
    by (intro steady_dev dev_frame_bus bus_frame_intros)
  from steady_trans [OF this steady_block [OF b]] show ?thesis by (rule steady_trans [OF steady_upds(7)])
qed

lemma steady_save [steady_intros]: "steady A s (save_psp_if_threadmode s)"
  by (auto simp: save_psp_if_threadmode_def steady_def)

lemma steady_restore [steady_intros]: "steady A s (restore_psp s)" "steady A s (restore_psp_if_threadmode s)"
  unfolding restore_psp_if_threadmode_def restore_psp_def by (auto simp: load_r4_11_def steady_def)

lemma steady_yield:
  assumes "svcall_isr call s = Inr s'" "r4_11 (cpu s) ! 2 = trap_number yieldTask"
  shows "steady {} s s'"
proof -
  let ?s1 = "save_psp_if_threadmode (s\<lparr>cpu := (cpu s)\<lparr>svc_pending := False\<rparr>\<rparr>)"
  have "r4_11 (cpu ?s1) ! 2 = trap_number yieldTask" using assms(2) by (simp add: save_psp_if_threadmode_def)
  then have "yield_case ?s1 = Inr s'" using assms(1) unfolding svcall_isr_def Let_def by simp
  then obtain s2 where u: "(if DEBUG ?s1 \<noteq> 0 \<and> currently_running ?s1 \<noteq> NULL
      then upd_tcb_of (currently_running ?s1) (\<lambda>t. t\<lparr>lifetime_info :=
        (lifetime_info t)\<lparr>voluntary_interrupts := voluntary_interrupts (lifetime_info t) + 1\<rparr>\<rparr>) ?s1 else Inr ?s1) = Inr s2"
    and s': "s' = set_pendsv s2"
    unfolding yield_case_def by (auto elim!: bnd_InrE)
  have "steady {} ?s1 s2"
    using u by (auto split: if_splits elim!: steady_tcb simp: ident_def ended_def)
  moreover have "steady {} s (s\<lparr>cpu := (cpu s)\<lparr>svc_pending := False\<rparr>\<rparr>)" by (rule steady_upds) simp
  ultimately show ?thesis
    unfolding s' by (blast intro: steady_trans [OF steady_trans [OF _ steady_save] steady_trans [OF _ steady_bus(2)]])
qed

lemma steady_wake: "wakeup_pid p s = Inr (q, s') \<Longrightarrow> steady A s s'"
  by (rule steady_kept [OF wakeup_kept])

lemma pendsv_isrE:
  assumes "pendsv_isr s = Inr s'"
  obtains s2 s3 s4 T where
    "s2 = (if DEBUG (disable_irq s) \<noteq> 0
       then (disable_irq s)\<lparr>process_stats := (process_stats (disable_irq s))\<lparr>num_of_pendsv := num_of_pendsv (process_stats (disable_irq s)) + 1\<rparr>\<rparr>
       else disable_irq s)"
    "upd_tcb_of (task_to_preserve s2) (\<lambda>t. t\<lparr>sp := psp (cpu s2)\<rparr>) s2 = Inr s3" "switch_task s3 = Inr s4"
    "tcb_of (currently_running s4) s4 = Inr T"
    "s' = (let s5 = enable_irq s4; s6 = s5\<lparr>cpu := (cpu s5)\<lparr>r4_11 := load_r4_11 (sp T) s5\<rparr>\<rparr>;
       s7 = ST_ENABLE s6 in s7\<lparr>cpu := (cpu s7)\<lparr>psp := sp T + 32\<rparr>\<rparr>)"
  using assms unfolding pendsv_isr_def Let_def
  by (elim bnd_InrE) (rule that, rule refl, assumption, assumption, assumption, simp)

lemma steady_pendsv:
  assumes "pendsv_isr s = Inr s'"
  shows "steady {} s s'"
  using assms
proof (cases rule: pendsv_isrE)
  case (1 s2 s3 s4 T)
  note s2_def = 1(1) and u = 1(2) and w = 1(3) and s' = 1(5)
  have "steady {} s s2" unfolding s2_def by (auto intro: steady_trans steady_intros)
  moreover have "steady {} s2 s3" using u by (rule steady_tcb) (simp_all add: ident_def ended_def)
  moreover have "steady {} s3 s4" by (rule steady_kept [OF switch_task_kept [OF w]])
  moreover have "steady {} s4 s'"
    unfolding s' Let_def
    by (rule steady_trans [OF steady_cpu(2) steady_trans [OF steady_upds(1) steady_trans [OF steady_bus(3) steady_upds(1)]]])
       (simp_all add: load_r4_11_def)
  ultimately show ?thesis by (blast intro: steady_trans [OF steady_trans steady_trans])
qed

lemma steady_finish:
  assumes "finish_task s = Inr s'"
  shows "steady {tdata (nodes s (currently_running s))} s s'"
proof -
  let ?A = "{tdata (nodes s (currently_running s))}"
  from assms obtain s1 P T s2 ps where u: "upd_tcb_of (currently_running s) (\<lambda>t. t\<lparr>tstate := FINISHED\<rparr>) s = Inr s1"
    and w: "(if (scast (join_pid P) :: u32) = ucast (pid T)
          then bnd (wakeup_pid (pid_of P) s1) (\<lambda>(q, s2). Inr s2) else Inr s1) = Inr s2"
    and "tcb_of (currently_running s1) s1 = Inr T" "tcb_at (parent_task T) s1 = Inr P"
      "Inr (set_pendsv (s2\<lparr>process_stats := ps\<rparr>)) = (Inr s' :: kernel res)"
    unfolding finish_task_def Let_def by (elim bnd_InrE) (rule that)
  then have s': "s' = set_pendsv (s2\<lparr>process_stats := ps\<rparr>)" by simp
  have "steady ?A s s1" using u by (rule steady_tcb) (simp_all add: ident_def)
  moreover have "steady ?A s1 s2" using w by (auto simp: bnd_eq_Inr intro: steady_wake split: if_splits)
  ultimately have "steady ?A s s2" by (rule steady_trans)
  then show ?thesis unfolding s' by (rule steady_trans [OF _ steady_trans [OF steady_upds(4) steady_bus(2)]])
qed

lemma steady_invalidate:
  assumes "invalidate_current_task s = Inr s'"
  shows "steady {tdata (nodes s (currently_running s))} s s'"
proof -
  let ?A = "{tdata (nodes s (currently_running s))}"
  from assms obtain s2 ps where u: "upd_tcb_of (currently_running s) (\<lambda>t. t\<lparr>tstate := INVALID\<rparr>) s = Inr s2"
    and "Inr (s2\<lparr>process_stats := ps\<rparr>) = (Inr s' :: kernel res)"
    unfolding invalidate_current_task_def Let_def by (elim bnd_InrE) (rule that)
  then have s': "s' = s2\<lparr>process_stats := ps\<rparr>" by simp
  have "steady ?A s s2" using u by (rule steady_tcb) (simp_all add: ident_def)
  then show ?thesis unfolding s' by (rule steady_trans [OF _ steady_upds(4)])
qed

section \<open>The memory of the tasks\<close>

text \<open>
  A task owns its node, its control block, its stack, the code of an external task, its list of
  children and the nodes of that list.
\<close>

definition kids :: "kernel \<Rightarrow> addr \<Rightarrow> addr set" where
  "kids s n = \<Union>{set xs | xs. is_slist s (child_tasks (task s n)) xs}"

definition owned :: "kernel \<Rightarrow> addr \<Rightarrow> addr set" where
  "owned s n = chunks_of s n \<union> insert (child_tasks (task s n)) (kids s n)"

lemma kids_eq: "is_slist s (child_tasks (task s n)) xs \<Longrightarrow> kids s n = set xs"
  using is_slist_unique unfolding kids_def by blast

text \<open>
  \<open>heap_ok s U F\<close>: every task of \<open>U\<close> has a well-formed list of children, what it owns is allocated and
  is neither another task's nor in \<open>F\<close>, the allocated addresses in the hands of the programs; its
  stack has its full size.
\<close>

definition heap_ok :: "kernel \<Rightarrow> addr set \<Rightarrow> addr set \<Rightarrow> bool" where
  "heap_ok s U F \<longleftrightarrow> alloc_inv s \<and> mutex s \<noteq> 1 \<and> F \<subseteq> fst ` live s \<and>
     (\<forall>n\<in>U. (\<exists>xs. is_slist s (child_tasks (task s n)) xs) \<and> owned s n \<subseteq> fst ` live s \<and> owned s n \<inter> F = {} \<and>
            (\<exists>k\<ge>1600. (stacksection_lower_bound (task s n), k) \<in> live s)) \<and>
     (\<forall>m\<in>U. \<forall>n\<in>U. m \<noteq> n \<longrightarrow> owned s m \<inter> owned s n = {})"

lemma heap_okD:
  assumes "heap_ok s U F"
  shows "alloc_inv s" "mutex s \<noteq> 1" "F \<subseteq> fst ` live s"
    "n \<in> U \<Longrightarrow> \<exists>xs. is_slist s (child_tasks (task s n)) xs" "n \<in> U \<Longrightarrow> owned s n \<subseteq> fst ` live s"
    "n \<in> U \<Longrightarrow> owned s n \<inter> F = {}" "n \<in> U \<Longrightarrow> \<exists>k\<ge>1600. (stacksection_lower_bound (task s n), k) \<in> live s"
    "m \<in> U \<Longrightarrow> n \<in> U \<Longrightarrow> m \<noteq> n \<Longrightarrow> owned s m \<inter> owned s n = {}"
  using assms by (simp_all add: heap_ok_def)

lemma owned_mem:
  "n \<in> owned s n" "tdata (nodes s n) \<in> owned s n" "child_tasks (task s n) \<in> owned s n"
  "stacksection_lower_bound (task s n) \<in> owned s n" "kids s n \<subseteq> owned s n" "chunks_of s n \<subseteq> owned s n"
  by (auto simp: owned_def chunks_of_def)

lemma owned_steady:
  assumes "steady A s s'"
  shows "owned s' n = owned s n"
  by (simp add: owned_def kids_def steady_tasks [OF assms])

lemma heap_ok_steady: "steady A s s' \<Longrightarrow> heap_ok s' U F = heap_ok s U F"
  by (simp add: heap_ok_def owned_steady steady_tasks)

lemma finite_live: "finite (live s)" "alloc_inv s \<Longrightarrow> card (fst ` live s) \<le> NUM_OF_SLOTS"
proof -
  show f: "finite (live s)" by (simp add: live_def)
  assume "alloc_inv s"
  then have "length (used_entries s) \<le> NUM_OF_SLOTS" by (simp add: alloc_inv_def)
  moreover have "card (live s) \<le> card (set (filter is_occupied (used_entries s)))"
    unfolding live_def by (rule card_image_le) simp
  moreover have "card (set (filter is_occupied (used_entries s))) \<le> length (used_entries s)"
    by (rule order_trans [OF card_length length_filter_le])
  ultimately show "card (fst ` live s) \<le> NUM_OF_SLOTS" using card_image_le [OF f, of fst] by simp
qed

lemma in_heap_short:
  assumes "alloc_inv s" "distinct xs" "set xs \<subseteq> fst ` live s"
  shows "length xs \<le> NUM_OF_SLOTS"
  using card_mono [OF finite_imageI [OF finite_live(1)] assms(3)] finite_live(2) [OF assms(1)] distinct_card [OF assms(2)]
  by simp

section \<open>The invariant\<close>

text \<open>
  Between the calls of the kernel the core is in thread mode with the selected task running, or it
  is about to switch: a call has asked for PendSV and has saved what it had to.
\<close>

datatype exec_mode = ThreadMode | SwitchPending

fun at_point :: "exec_mode \<Rightarrow> kernel \<Rightarrow> addr list \<Rightarrow> addr list \<Rightarrow> bool" where
  "at_point ThreadMode s R W \<longleftrightarrow> selected s R"
| "at_point SwitchPending s R W \<longleftrightarrow>
     (currently_running s = NULL \<or> currently_running s \<in> set R) \<and> task_to_preserve s \<in> set R \<union> set W"

lemma at_point_switch:
  "at_point m s R W \<Longrightarrow> currently_running s = NULL \<or> currently_running s \<in> set R"
  "at_point m s R W \<Longrightarrow> task_to_preserve s \<in> set R \<union> set W"
  by (cases m; simp add: selected_def)+

text \<open>A task of pid 0 has not ended; every other one has a parent, which is not itself.\<close>

definition proper :: "kernel \<Rightarrow> addr \<Rightarrow> bool" where
  "proper s n \<longleftrightarrow>
     (if pid (task s n) = 0 then \<not> ended (task s n)
      else parent_task (task s n) \<noteq> NULL \<and> parent_task (task s n) \<noteq> tdata (nodes s n))"

definition kernel_inv :: "exec_mode \<Rightarrow> addr set \<Rightarrow> kernel \<Rightarrow> addr list \<Rightarrow> addr list \<Rightarrow> bool" where
  "kernel_inv m F s R W \<longleftrightarrow>
     sched_ok s R W \<and> has_idle s (set R \<union> set W) \<and> heap_ok s (set R \<union> set W) F \<and>
     (\<forall>n\<in>set R \<union> set W. proper s n) \<and> length (r4_11 (cpu s)) = 8 \<and> at_point m s R W \<and> rx_room (io s)"

lemma kernel_invD:
  assumes "kernel_inv m F s R W"
  shows "sched_ok s R W" "has_idle s (set R \<union> set W)" "heap_ok s (set R \<union> set W) F"
    "n \<in> set R \<union> set W \<Longrightarrow> proper s n" "length (r4_11 (cpu s)) = 8" "at_point m s R W" "rx_room (io s)"
  using assms by (simp_all add: kernel_inv_def)

text \<open>The invariant over an operation that keeps the tasks and may end one that is not an idle task.\<close>

lemma kernel_inv_steady:
  assumes inv: "kernel_inv m F s R W" and st: "steady A s s'"
    and ok: "sched_ok s' R' W'" "set R' \<union> set W' = set R \<union> set W" "at_point m' s' R' W'"
    and A: "\<And>n. n \<in> set R \<union> set W \<Longrightarrow> tdata (nodes s n) \<in> A \<Longrightarrow> pid (task s n) \<noteq> 0"
  shows "kernel_inv m' F s' R' W'"
proof -
  note D = kernel_invD [OF inv] and S = steady_tasks [OF st]
  have "has_idle s' (set R' \<union> set W')" using D(2) unfolding has_idle_def S(7,13) ok(2) .
  moreover have "heap_ok s' (set R' \<union> set W') F" using D(3) unfolding heap_ok_steady [OF st] ok(2) .
  moreover have "proper s' n" if n: "n \<in> set R' \<union> set W'" for n
  proof -
    have n': "n \<in> set R \<union> set W" using n ok(2) by simp
    show ?thesis using D(4) [OF n'] A [OF n'] S(14) [of n] unfolding proper_def S(5,7,10) by (auto split: if_splits)
  qed
  moreover have "length (r4_11 (cpu s')) = 8" "rx_room (io s')" using D(5,7) st by (simp_all add: steady_def)
  ultimately show ?thesis using ok by (simp add: kernel_inv_def)
qed

text \<open>Operations that touch neither queues nor tasks, and waking a task.\<close>

lemma kernel_inv_same:
  assumes inv: "kernel_inv m F s R W" and s: "steady {} s s'" "same_queues s s'" "tcbs s' = tcbs s"
    "currently_running s' = currently_running s" "task_to_preserve s' = task_to_preserve s"
  shows "kernel_inv m F s' R W"
proof (rule kernel_inv_steady [OF inv s(1)])
  show "sched_ok s' R W" by (rule sched_ok_tcbs [OF kernel_invD(1) [OF inv] s(2,3)])
  have "task s' n = task s n" for n using s(2,3) by (simp add: task_def same_queues_def)
  then show "at_point m s' R W" using kernel_invD(6) [OF inv] s(4,5) by (cases m) (simp_all add: selected_def ready_def)
qed simp_all

text \<open>
  \<open>harmless s s'\<close>: what a function the kernel calls by its address may do without the kernel noticing, such as
  driving devices, storing to memory that is not a task's data, or setting its own variables.
\<close>

definition harmless :: "kernel \<Rightarrow> kernel \<Rightarrow> bool" where
  "harmless s s' \<longleftrightarrow> steady {} s s' \<and> same_queues s s' \<and> tcbs s' = tcbs s \<and>
     currently_running s' = currently_running s \<and> task_to_preserve s' = task_to_preserve s"

lemma kernel_inv_harmless: "kernel_inv m F s R W \<Longrightarrow> harmless s s' \<Longrightarrow> kernel_inv m F s' R W"
  unfolding harmless_def by (elim conjE, rule kernel_inv_same)

lemma harmless_dev: "dev_frame s s' \<Longrightarrow> harmless s s'"
  by (simp add: harmless_def steady_dev same_queues_def dev_frame_kernel)

lemma context_kept_io: "context_kept s t \<Longrightarrow> context_kept (s\<lparr>io := i\<rparr>) (t\<lparr>io := i\<rparr>)"
  by (cases s; cases t) (simp add: context_kept_def)

text \<open>\<open>i\<close> is what the io state becomes afterwards: the serial interrupt wakes a task before it resets its count.\<close>

lemma kernel_inv_wakeup_io:
  assumes inv: "kernel_inv m F (s\<lparr>io := i\<rparr>) R W"
  obtains q s' R' W' where "wakeup_pid p s = Inr (q, s')" "kernel_inv m F (s'\<lparr>io := i\<rparr>) R' W'" "io s' = io s"
proof -
  note D = kernel_invD [OF inv]
  have "sched_ok s R W" by (rule sched_ok_tcbs [OF D(1)]) (simp_all add: same_queues_def)
  then show ?thesis
  proof (cases rule: wakeup_pid_cases [where p = p])
    case none
    with inv that show ?thesis by blast
  next
    case (woken as c bs s')
    note W = wake_frame_sel [OF woken(9)]
    have st: "steady {} (s\<lparr>io := i\<rparr>) (s'\<lparr>io := i\<rparr>)"
      by (rule steady_kept [OF context_kept_io [OF wakeup_kept [OF woken(4)]]])
    have "kernel_inv m F (s'\<lparr>io := i\<rparr>) (R @ [c]) (as @ bs)"
    proof (rule kernel_inv_steady [OF inv st])
      show "sched_ok (s'\<lparr>io := i\<rparr>) (R @ [c]) (as @ bs)"
        by (rule sched_ok_tcbs [OF woken(6)]) (simp_all add: same_queues_def)
      show "set (R @ [c]) \<union> set (as @ bs) = set R \<union> set W" using woken(1) by auto
      have "ready (s'\<lparr>io := i\<rparr>) n" if "ready (s\<lparr>io := i\<rparr>) n" for n
        using that woken(7,8) by (auto simp: ready_def task_def)
      then show "at_point m (s'\<lparr>io := i\<rparr>) (R @ [c]) (as @ bs)"
        using D(6) W(5,6) woken(1) by (cases m) (auto simp: selected_def)
    qed simp
    then show ?thesis using woken(4) W(10) that by blast
  qed
qed

lemma kernel_inv_wakeup:
  assumes inv: "kernel_inv m F s R W"
  obtains q s' R' W' where "wakeup_pid p s = Inr (q, s')" "kernel_inv m F s' R' W'"
proof -
  have "kernel_inv m F (s\<lparr>io := io s\<rparr>) R W" using inv by simp
  then obtain q s' R' W' where w: "wakeup_pid p s = Inr (q, s')" "kernel_inv m F (s'\<lparr>io := io s\<rparr>) R' W'" "io s' = io s"
    by (rule kernel_inv_wakeup_io)
  have "s'\<lparr>io := io s\<rparr> = s'" using w(3) by (cases s') simp
  with w that show ?thesis by simp
qed

section \<open>Allocation, release and the removal of ended tasks\<close>

text \<open>The tasks that remain keep their data and what they own.\<close>

lemma kernel_inv_heap:
  assumes inv: "kernel_inv m F s R W" and ok: "sched_ok s' R' W'" "at_point m s' R' W'"
    and U: "set R' \<union> set W' \<subseteq> set R \<union> set W" "\<exists>i\<in>set R' \<union> set W'. pid (task s i) = 0"
    and d: "\<forall>n. tdata (nodes s' n) = tdata (nodes s n)" "tcbs s' = tcbs s" "slists s' = slists s" "snodes s' = snodes s"
      "kernel_pids s' = kernel_pids s" "cpu s' = cpu s" "io s' = io s"
    and h: "alloc_inv s'" "mutex s' \<noteq> 1" "F' \<subseteq> fst ` live s'" "\<And>n. n \<in> set R' \<union> set W' \<Longrightarrow> owned s n \<inter> F' = {}"
      "\<And>a k. (a, k) \<in> live s \<Longrightarrow> a \<in> \<Union>(owned s ` (set R' \<union> set W')) \<Longrightarrow> (a, k) \<in> live s'"
  shows "kernel_inv m F' s' R' W'"
proof -
  note D = kernel_invD [OF inv]
  have tk: "task s' n = task s n" for n using d(1,2) by (simp add: task_def)
  have ow: "owned s' n = owned s n" for n
    using d(1,3,4) by (simp add: owned_def kids_def chunks_of_def is_slist_def tk)
  have keep: "A \<subseteq> fst ` live s'" if "A \<subseteq> fst ` live s" "A \<subseteq> \<Union>(owned s ` (set R' \<union> set W'))" for A
  proof
    fix a assume a: "a \<in> A"
    then have "a \<in> fst ` live s" using that(1) by blast
    then obtain k where "(a, k) \<in> live s" by force
    then have "(a, k) \<in> live s'" using h(5) a that(2) by blast
    then show "a \<in> fst ` live s'" by force
  qed
  have "heap_ok s' (set R' \<union> set W') F'"
    unfolding heap_ok_def ow tk
  proof (intro conjI ballI impI)
    fix n assume n: "n \<in> set R' \<union> set W'"
    then have n': "n \<in> set R \<union> set W" using U(1) by blast
    show "\<exists>xs. is_slist s' (child_tasks (task s n)) xs"
      using heap_okD(4) [OF D(3) n'] d(3,4) by (simp add: is_slist_def)
    show "owned s n \<subseteq> fst ` live s'" by (rule keep [OF heap_okD(5) [OF D(3) n']]) (use n in auto)
    show "owned s n \<inter> F' = {}" by (rule h(4) [OF n])
    show "\<exists>k\<ge>1600. (stacksection_lower_bound (task s n), k) \<in> live s'"
      using heap_okD(7) [OF D(3) n'] h(5) owned_mem(4) n by blast
  next
    fix m n assume "m \<in> set R' \<union> set W'" "n \<in> set R' \<union> set W'" "m \<noteq> n"
    then show "owned s m \<inter> owned s n = {}" using heap_okD(8) [OF D(3), of m n] U(1) by blast
  qed (use h in auto)
  moreover have "proper s' n" if "n \<in> set R' \<union> set W'" for n
    using D(4) [of n] that U(1) d(1) by (auto simp: proper_def tk)
  moreover have "has_idle s' (set R' \<union> set W')" using D(2) U(2) d(5) by (simp add: has_idle_def tk)
  ultimately show ?thesis using ok D(5,7) d(6,7) by (simp add: kernel_inv_def)
qed

lemma kernel_inv_allocate:
  assumes inv: "kernel_inv m F s R W" and room: "table_room sz s"
  obtains p s' where "allocate sz s = Inr (p, s')" "kernel_inv m (if p = NULL then F else insert p F) s' R W"
proof -
  note D = kernel_invD [OF inv] note H = heap_okD [OF D(3)]
  from H(1,2) room obtain p s' where A: "allocate sz s = Inr (p, s')" "alloc_inv s'" "mutex s' = 0" "alloc_frame s s'"
    "p = NULL \<longrightarrow> live s' = live s"
    "p \<noteq> NULL \<longrightarrow> (\<exists>n \<ge> unat sz. (\<forall>k. (p, k) \<notin> live s) \<and> live s' = insert (p, n) (live s))"
    by (rule allocate_contract)
  note K = alloc_frame_kernel [OF A(4)]
  let ?F = "if p = NULL then F else insert p F"
  have lv: "live s \<subseteq> live s'" "p \<noteq> NULL \<longrightarrow> p \<in> fst ` live s' \<and> p \<notin> fst ` live s" using A(5,6) by (cases "p = NULL"; force)+
  have "kernel_inv m ?F s' R W"
  proof (rule kernel_inv_heap [OF inv sched_ok_alloc [OF D(1) A(4)]])
    show "at_point m s' R W" using D(6) by (cases m) (simp_all add: selected_def ready_def task_def K)
    show "\<exists>i\<in>set R \<union> set W. pid (task s i) = 0" using D(2) by (simp add: has_idle_def)
    show "?F \<subseteq> fst ` live s'" using H(3) lv by auto
    show "owned s n \<inter> ?F = {}" if "n \<in> set R \<union> set W" for n using H(5,6) [OF that] lv by auto
  qed (use A(2,3) K lv in auto)
  then show ?thesis using A(1) by (rule that [rotated])
qed

lemma kernel_inv_deallocate:
  assumes inv: "kernel_inv m F s R W" and a: "a \<in> F"
  obtains r s' where "deallocate a s = Inr (r, s')" "kernel_inv m (F - {a}) s' R W"
proof -
  note D = kernel_invD [OF inv] note H = heap_okD [OF D(3)]
  from H(1,2) obtain r s' where A: "deallocate a s = Inr (r, s')" "alloc_inv s'" "mutex s' = 0" "alloc_frame s s'"
    "live s' = {c \<in> live s. fst c \<noteq> a}" by (rule deallocate_contract [of s a])
  note K = alloc_frame_kernel [OF A(4)]
  have "kernel_inv m (F - {a}) s' R W"
  proof (rule kernel_inv_heap [OF inv sched_ok_alloc [OF D(1) A(4)]])
    show "at_point m s' R W" using D(6) by (cases m) (simp_all add: selected_def ready_def task_def K)
    show "\<exists>i\<in>set R \<union> set W. pid (task s i) = 0" using D(2) by (simp add: has_idle_def)
    show "F - {a} \<subseteq> fst ` live s'" using H(3) A(5) by force
    show "owned s n \<inter> (F - {a}) = {}" if "n \<in> set R \<union> set W" for n using H(6) [OF that] by auto
    show "(b, k) \<in> live s'" if "(b, k) \<in> live s" "b \<in> \<Union> (owned s ` (set R \<union> set W))" for b k
      using that a H(6) A(5) by auto
  qed (use A(2,3) K in auto)
  then show ?thesis using A(1) by (rule that [rotated])
qed

lemma kernel_inv_clean_up:
  assumes inv: "kernel_inv ThreadMode F s R W"
  obtains s' R' where "search_invalidate_tasks s = Inr s'" "kernel_inv ThreadMode F s' R' W" "set R' \<subseteq> set R"
    "\<forall>n\<in>set R - set R'. finished s n" "\<forall>n. task s' n = task s n" "currently_running s' = currently_running s"
proof -
  note D = kernel_invD [OF inv] note H = heap_okD [OF D(3)]
  have c: "currently_running s \<in> set R" "ready s (currently_running s)" "task_to_preserve s = currently_running s"
    using D(6) by (simp_all add: selected_def)
  have run: "search_invalidate_tasks s = search_loop (length R) 0 (currently_running s) s"
    using queue_size [OF sched_okD(1) [OF D(1)]] by (simp add: search_invalidate_tasks_def)
  from search_loop_ok [OF D(1) c(1) c(1,2) H(1,2), of "length R" 0] obtain s' R' where
    S: "search_invalidate_tasks s = Inr s'" "sched_ok s' R' W" "alloc_inv s'" "mutex s' \<noteq> 1" "set R' \<subseteq> set R"
      "\<forall>n\<in>set R - set R'. finished s n" "currently_running s' = currently_running s" "kernel_pids s' = kernel_pids s"
      "tcbs s' = tcbs s" "\<forall>n. tdata (nodes s' n) = tdata (nodes s n)"
      "{c \<in> live s. \<forall>n\<in>set R - set R'. fst c \<notin> chunks_of s n} \<subseteq> live s'"
      "slists s' = slists s" "snodes s' = snodes s" "cpu s' = cpu s" "task_to_preserve s' = task_to_preserve s" "io s' = io s"
    unfolding run [symmetric] by blast
  have gone: "fst c \<notin> chunks_of s n" if "n \<in> set R - set R'" "fst c \<in> owned s m" "m \<in> set R' \<union> set W" for n c m
  proof -
    have "m \<noteq> n" using that(1,3) sched_okD(4) [OF D(1)] by auto
    then have "owned s m \<inter> owned s n = {}" using H(8) [of m n] that(1,3) S(5) by blast
    then show ?thesis using that(2) owned_mem(6) by blast
  qed
  have goneF: "fst c \<notin> chunks_of s n" if "n \<in> set R - set R'" "fst c \<in> F" for n c
    using H(6) [of n] that owned_mem(6) by blast
  have "kernel_inv ThreadMode F s' R' W"
  proof (rule kernel_inv_heap [OF inv S(2)])
    have "\<not> finished s (currently_running s)" using c(2) by (simp add: finished_def ready_def)
    then have "currently_running s \<in> set R'" using c(1) S(6) by blast
    then show "at_point ThreadMode s' R' W" using c S(7,9,10,15) by (simp add: selected_def ready_def task_def)
    show "set R' \<union> set W \<subseteq> set R \<union> set W" using S(5) by auto
    from D(2) obtain i where i: "i \<in> set R \<union> set W" "pid (task s i) = 0" by (auto simp: has_idle_def)
    then have "\<not> finished s i" using D(4) [OF i(1)] by (simp add: proper_def finished_ended)
    then show "\<exists>i\<in>set R' \<union> set W. pid (task s i) = 0" using i S(6) by auto
    show "F \<subseteq> fst ` live s'"
    proof
      fix a assume a: "a \<in> F"
      then obtain k where k: "(a, k) \<in> live s" using H(3) by force
      then have "(a, k) \<in> live s'" using goneF [of _ "(a, k)"] a S(11) by auto
      then show "a \<in> fst ` live s'" by force
    qed
    show "owned s n \<inter> F = {}" if "n \<in> set R' \<union> set W" for n using that S(5) by (intro H(6)) auto
    show "(a, k) \<in> live s'" if "(a, k) \<in> live s" "a \<in> \<Union> (owned s ` (set R' \<union> set W))" for a k
      using that gone [of _ "(a, k)"] S(11) by auto
  qed (use S in simp_all)
  moreover have "\<forall>n. task s' n = task s n" using S(9,10) by (simp add: task_def)
  ultimately show ?thesis using S(1,5,6,7) that by blast
qed

section \<open>Creation\<close>

text \<open>The node for the new task in the list of its parent is the only thing an old task gains.\<close>

lemma child_addedE:
  assumes "child_added s s' l A" "currently_running s \<noteq> NULL" "child_list s \<in> fst ` live s"
  obtains xs p where "is_slist s (child_list s) xs" "is_slist s' (child_list s) (xs @ [p])"
    "p \<notin> fst ` live s \<union> A" "p \<in> fst ` live s'" "\<forall>m. m \<noteq> l \<and> m \<noteq> child_list s \<longrightarrow> slists s' m = slists s m"
    "\<forall>x. x \<notin> insert p (set xs) \<longrightarrow> snodes s' x = snodes s x"
proof -
  from assms(1) have "child_list s \<in> fst ` live s \<longrightarrow>
        (\<exists>xs p. is_slist s (child_list s) xs \<and> is_slist s' (child_list s) (xs @ [p]) \<and>
           p \<notin> fst ` live s \<union> A \<and> p \<in> fst ` live s' \<and>
           (\<forall>m. m \<noteq> l \<and> m \<noteq> child_list s \<longrightarrow> slists s' m = slists s m) \<and>
           (\<forall>x. x \<notin> insert p (set xs) \<longrightarrow> snodes s' x = snodes s x))"
    unfolding child_added_def if_not_P [OF assms(2)] .
  from mp [OF this assms(3)] show ?thesis using that by blast
qed

lemma owned_create:
  assumes H: "heap_ok s U F" and c: "currently_running s \<in> U" "currently_running s \<noteq> NULL"
    and tk: "\<forall>m\<in>U. task s' m = task s m" "\<forall>m\<in>U. tdata (nodes s' m) = tdata (nodes s m)"
    and add: "child_added s s' l A" and l: "l \<notin> fst ` live s"
  obtains p where "p \<notin> fst ` live s \<union> A" "p \<in> fst ` live s'"
    "\<And>m. m \<in> U \<Longrightarrow> owned s' m = (if m = currently_running s then insert p (owned s m) else owned s m)"
    "\<And>m. m \<in> U \<Longrightarrow> \<exists>xs. is_slist s' (child_tasks (task s' m)) xs"
proof -
  let ?c = "currently_running s"
  note D = heap_okD [OF H]
  have "child_list s \<in> fst ` live s" using D(5) [OF c(1)] owned_mem(3) by blast
  from add c(2) this obtain xs p where P: "is_slist s (child_list s) xs" "is_slist s' (child_list s) (xs @ [p])"
    "p \<notin> fst ` live s \<union> A" "p \<in> fst ` live s'" "\<forall>m. m \<noteq> l \<and> m \<noteq> child_list s \<longrightarrow> slists s' m = slists s m"
    "\<forall>x. x \<notin> insert p (set xs) \<longrightarrow> snodes s' x = snodes s x" by (rule child_addedE)
  have xs: "set xs \<subseteq> owned s ?c" using kids_eq [OF P(1)] owned_mem(5) by auto
  have ch: "chunks_of s' m = chunks_of s m" if "m \<in> U" for m using tk that by (simp add: chunks_of_def)
  have other: "is_slist s' (child_tasks (task s m)) ys = is_slist s (child_tasks (task s m)) ys"
    if m: "m \<in> U" "m \<noteq> ?c" and ys: "is_slist s (child_tasks (task s m)) zs" "set ys = set zs" for m ys zs
  proof (rule is_slist_cong)
    have disj: "owned s m \<inter> owned s ?c = {}" using D(8) [OF m(1) c(1) m(2)] .
    then have "child_tasks (task s m) \<noteq> child_list s" using owned_mem(3) [of s m] owned_mem(3) [of s ?c] by auto
    moreover have "child_tasks (task s m) \<noteq> l" using subsetD [OF D(5) [OF m(1)] owned_mem(3)] l by auto
    ultimately show "slists s' (child_tasks (task s m)) = slists s (child_tasks (task s m))" using P(5) by blast
    fix x assume "x \<in> set ys"
    then have x: "x \<in> owned s m" using kids_eq [OF ys(1)] ys(2) owned_mem(5) by blast
    then have "x \<noteq> p" using P(3) D(5) [OF m(1)] by blast
    moreover have "x \<notin> set xs" using x xs disj by blast
    ultimately show "snodes s' x = snodes s x" using P(6) by blast
  qed
  have kid: "kids s' m = (if m = ?c then insert p (kids s m) else kids s m) \<and> (\<exists>xs. is_slist s' (child_tasks (task s' m)) xs)"
    if m: "m \<in> U" for m
  proof (cases "m = ?c")
    case True
    then have l': "is_slist s' (child_tasks (task s' m)) (xs @ [p])" using P(2) tk(1) m by simp
    then show ?thesis using kids_eq [OF l'] kids_eq [OF P(1)] True by auto
  next
    case False
    obtain zs where zs: "is_slist s (child_tasks (task s m)) zs" using D(4) [OF m] by blast
    then have l': "is_slist s' (child_tasks (task s' m)) zs" using other [OF m False zs refl] tk(1) m by simp
    then show ?thesis using kids_eq [OF l'] kids_eq [OF zs] False by auto
  qed
  have "owned s' m = (if m = ?c then insert p (owned s m) else owned s m)" if m: "m \<in> U" for m
    using kid [OF m] ch [OF m] tk(1) m by (auto simp: owned_def)
  then show ?thesis using P(3,4) kid that by blast
qed

text \<open>What a task gets at its creation is new, or was the program's.\<close>

lemma owned_new:
  assumes "task s' n = new_tcb p ram tsize stk parent l" "is_slist s' l []"
  shows "owned s' n = {n, tdata (nodes s' n), stk, l} \<union> (if ram \<noteq> 0 then {ram} else {})"
  using assms kids_eq [of s' n "[]"] by (auto simp: owned_def chunks_of_def)

lemma heap_ok_create:
  assumes H: "heap_ok s U F" and c: "currently_running s \<in> U" "currently_running s \<noteq> NULL" and ram: "ram = 0 \<or> ram \<in> F"
    and n: "n \<notin> U" and tn: "task s' n = new_tcb p ram tsize stk parent l"
    and tk: "\<forall>m\<in>U. task s' m = task s m" "\<forall>m\<in>U. tdata (nodes s' m) = tdata (nodes s m)"
    and new: "{n, tdata (nodes s' n), stk, l} \<subseteq> fst ` live s'" "{n, tdata (nodes s' n), stk, l} \<inter> fst ` live s = {}"
      "is_slist s' l []" "child_added s s' l {n, tdata (nodes s' n), stk, l}"
    and lv: "live s \<subseteq> live s'" "\<exists>k\<ge>1600. (stk, k) \<in> live s'" and a: "alloc_inv s'" "mutex s' \<noteq> 1"
  shows "heap_ok s' (insert n U) (F - {ram})"
proof -
  note D = heap_okD [OF H]
  let ?N = "{n, tdata (nodes s' n), stk, l}"
  have "l \<notin> fst ` live s" using new(2) by blast
  from owned_create [OF H c tk new(4) this] obtain q where Q: "q \<notin> fst ` live s \<union> ?N" "q \<in> fst ` live s'"
    "\<And>m. m \<in> U \<Longrightarrow> owned s' m = (if m = currently_running s then insert q (owned s m) else owned s m)"
    "\<And>m. m \<in> U \<Longrightarrow> \<exists>xs. is_slist s' (child_tasks (task s' m)) xs" by blast
  have on: "owned s' n = ?N \<union> (if ram \<noteq> 0 then {ram} else {})" by (rule owned_new [OF tn new(3)])
  have onl: "owned s' n \<subseteq> fst ` live s'" using new(1) ram D(3) lv(1) unfolding on by (cases "ram = 0") auto
  have om: "owned s m \<subseteq> owned s' m" "owned s' m \<subseteq> insert q (owned s m)" if "m \<in> U" for m using Q(3) [OF that] by auto
  have lv': "fst ` live s \<subseteq> fst ` live s'" using lv(1) by blast
  have qF: "q \<notin> F" "q \<noteq> ram \<or> ram = 0" using Q(1) D(3) ram by auto
  have out: "owned s' n \<inter> owned s' m = {}" if m: "m \<in> U" for m
  proof -
    have "?N \<inter> owned s m = {}" using new(2) D(5) [OF m] by blast
    moreover have "ram = 0 \<or> ram \<notin> owned s m" using ram D(6) [OF m] by blast
    ultimately show ?thesis using om(2) [OF m] Q(1) qF(2) unfolding on by auto
  qed
  have rest: "owned s' m \<inter> owned s' k = {}" if "m \<in> U" "k \<in> U" "m \<noteq> k" for m k
  proof -
    have "q \<notin> owned s m" "q \<notin> owned s k" using Q(1) D(5) that by blast+
    then show ?thesis using D(8) [OF that] Q(3) [OF that(1)] Q(3) [OF that(2)] that(3) by auto
  qed
  show ?thesis
    unfolding heap_ok_def
  proof (intro conjI ballI impI)
    show "F - {ram} \<subseteq> fst ` live s'" using D(3) lv' by blast
    fix m assume "m \<in> insert n U"
    then consider "m = n" | "m \<in> U" "m \<noteq> n" using n by blast
    note cs = this
    show "\<exists>xs. is_slist s' (child_tasks (task s' m)) xs" using cs Q(4) new(3) tn by (metis new_tcb_sel(5))
    show "owned s' m \<subseteq> fst ` live s'"
    proof (cases rule: cs)
      case 1
      then show ?thesis using onl by simp
    next
      case 2
      then show ?thesis using om(2) D(5) lv' Q(2) by blast
    qed
    show "owned s' m \<inter> (F - {ram}) = {}"
    proof (cases rule: cs)
      case 1
      then show ?thesis using new(2) D(3) on by auto
    next
      case 2
      then show ?thesis using om(2) D(6) qF(1) by blast
    qed
    show "\<exists>k\<ge>1600. (stacksection_lower_bound (task s' m), k) \<in> live s'"
      using cs lv D(7) tk(1) tn by (metis new_tcb_sel(6) subsetD)
  next
    fix m k assume "m \<in> insert n U" "k \<in> insert n U" "m \<noteq> k"
    then show "owned s' m \<inter> owned s' k = {}" using out rest by blast
  qed (use a in simp_all)
qed

lemma kernel_inv_create_facts:
  assumes inv: "kernel_inv ThreadMode F s R W" and room: "alloc_room s (5 + i) (1688 + b)" and ram: "ram = 0 \<or> ram \<in> F"
  defines "p \<equiv> of_nat (length R + length W) :: u8"
  obtains s' n stk l where "create_task fn ram a s = Inr (ucast p, s')"
    "kernel_inv ThreadMode (F - {ram}) s' (if p = 0 then R else R @ [n]) (if p = 0 then W @ [n] else W)"
    "n \<notin> set R \<union> set W" "alloc_room s' i b" "task s' n = new_tcb p ram (task_size (tInfo s)) stk (parent_of_new s) l"
    "\<forall>m\<in>set R \<union> set W. task s' m = task s m" "task_frame (mem s') (stk + 1472) fn (finish_task_addr (syms s))"
    "drv s' = drv s" "io s' = io s" "currently_running s' = currently_running s" "syms s' = syms s"
proof -
  let ?U = "set R \<union> set W" and ?c = "currently_running s"
  note D = kernel_invD [OF inv] note H = heap_okD [OF D(3)] note S = sched_okD [OF D(1)]
  have c: "?c \<in> set R" "ready s ?c" "task_to_preserve s = ?c" using D(6) by (simp_all add: selected_def)
  have cU: "?c \<in> ?U" using c(1) by simp
  have cn: "?c \<noteq> NULL" "tdata (nodes s ?c) \<noteq> NULL" using S(5,12) [OF cU] by blast+
  have own: "owns s ?U" "owns s ((\<lambda>n. tdata (nodes s n)) ` ?U)" 
    unfolding owns_def using subsetD [OF H(5) owned_mem(1)] subsetD [OF H(5) owned_mem(2)] by blast+
  have "length (R @ W) \<le> NUM_OF_SLOTS"
    using S(4,10,11) own(1) by (intro in_heap_short [OF H(1)]) (auto simp: owns_def)
  then have len: "length R + length W + 1 < 2 ^ 32 - 1" by simp
  obtain xs where xs: "is_slist s (child_list s) xs" using H(4) [OF cU] by blast
  have xsl: "set xs \<subseteq> fst ` live s" using kids_eq [OF xs] H(5) [OF cU] owned_mem(5) by blast
  have "length xs \<le> NUM_OF_SLOTS" by (rule in_heap_short [OF H(1) _ xsl]) (use xs in \<open>simp add: is_slist_def\<close>)
  then have reg: "can_register s" using xs xsl cn(2) by (auto simp: can_register_def owns_def)
  have "?c \<noteq> NULL \<longrightarrow> ?c \<in> ?U" using cU by simp
  from D(1) own this reg room len obtain s' n stk l where C: "create_task fn ram a s = Inr (ucast p, s')"
    "sched_ok s' (if p = 0 then R else R @ [n]) (if p = 0 then W @ [n] else W)" "n \<notin> ?U"
    "task s' n = new_tcb p ram (task_size (tInfo s)) stk (parent_of_new s) l" "\<forall>m\<in>?U. task s' m = task s m"
    "live s \<subseteq> live s'" "{n, tdata (nodes s' n), stk, l} \<subseteq> fst ` live s'"
    "{n, tdata (nodes s' n), stk, l} \<inter> fst ` live s = {}" "is_slist s' l []"
    "child_added s s' l {n, tdata (nodes s' n), stk, l}" "\<forall>m\<in>?U. tdata (nodes s' m) = tdata (nodes s m)"
    "currently_running s' = ?c" "alloc_room s' i b" "cpu s' = cpu s" "kernel_pids s' = kernel_pids s"
    "\<exists>k\<ge>1600. (stk, k) \<in> live s'" "task_to_preserve s' = task_to_preserve s"
    "task_frame (mem s') (stk + 1472) fn (finish_task_addr (syms s))" "drv s' = drv s" "io s' = io s" "syms s' = syms s"
    unfolding p_def by (rule create_task_ok)
  let ?R = "if p = 0 then R else R @ [n]" and ?W = "if p = 0 then W @ [n] else W"
  have U: "set ?R \<union> set ?W = insert n ?U" by auto
  have a: "alloc_inv s'" "mutex s' \<noteq> 1" using C(13) by (simp_all add: alloc_room_def)
  have pr: "proper s' m" if m: "m \<in> insert n ?U" for m
  proof (cases "m = n")
    case True
    have "parent_of_new s \<in> fst ` live s" using own(2) cU cn(1) by (auto simp: owns_def parent_of_new_def)
    moreover have "tdata (nodes s' n) \<notin> fst ` live s" using C(8) by blast
    ultimately have "parent_of_new s \<noteq> tdata (nodes s' n)" by metis
    moreover have "parent_of_new s \<noteq> NULL" using cn by (simp add: parent_of_new_def)
    ultimately show ?thesis using True C(4) by (simp add: proper_def ended_def)
  next
    case False
    then have m': "m \<in> ?U" using m by blast
    then show ?thesis using D(4) [OF m'] C(5,11) by (simp add: proper_def)
  qed
  have "kernel_inv ThreadMode (F - {ram}) s' ?R ?W"
    unfolding kernel_inv_def U
  proof (intro conjI ballI)
    show "sched_ok s' ?R ?W" by (rule C(2))
    show "has_idle s' (insert n ?U)" using D(2) C(5,15) by (auto simp: has_idle_def)
    show "heap_ok s' (insert n ?U) (F - {ram})"
      by (rule heap_ok_create [OF D(3) cU cn(1) ram C(3,4,5,11,7-10,6,16) a])
    show "length (r4_11 (cpu s')) = 8" "rx_room (io s')" using D(5,7) C(14,20) by simp_all
    show "at_point ThreadMode s' ?R ?W" using c C(5,12,17) cU by (simp add: selected_def ready_def)
  qed (rule pr)
  from that [OF C(1) this C(3,13,4,5,18-20,12,21)] show ?thesis .
qed

lemma kernel_inv_create_room:
  assumes "kernel_inv ThreadMode F s R W" "alloc_room s (5 + i) (1688 + b)" "ram = 0 \<or> ram \<in> F"
  obtains p s' n R' W' where "create_task fn ram a s = Inr (p, s')" "kernel_inv ThreadMode (F - {ram}) s' R' W'"
    "set R' \<union> set W' = insert n (set R \<union> set W)" "n \<notin> set R \<union> set W" "alloc_room s' i b"
proof -
  let ?p = "of_nat (length R + length W) :: u8"
  from assms obtain s' n where C: "create_task fn ram a s = Inr (ucast ?p, s')"
    "kernel_inv ThreadMode (F - {ram}) s' (if ?p = 0 then R else R @ [n]) (if ?p = 0 then W @ [n] else W)"
    "n \<notin> set R \<union> set W" "alloc_room s' i b"
    by (rule kernel_inv_create_facts)
  have "set (if ?p = 0 then R else R @ [n]) \<union> set (if ?p = 0 then W @ [n] else W) = insert n (set R \<union> set W)" by auto
  from that [OF C(1,2) this C(3,4)] show ?thesis .
qed

lemma kernel_inv_create:
  assumes inv: "kernel_inv ThreadMode F s R W" and room: "alloc_room s 5 1688" and ram: "ram = 0 \<or> ram \<in> F"
  obtains p s' n R' W' where "create_task fn ram a s = Inr (p, s')" "kernel_inv ThreadMode (F - {ram}) s' R' W'"
    "set R' \<union> set W' = insert n (set R \<union> set W)" "n \<notin> set R \<union> set W"
proof -
  have "alloc_room s (5 + 0) (1688 + 0)" using room by simp
  from inv this ram obtain p s' n R' W' where C: "create_task fn ram a s = Inr (p, s')" "kernel_inv ThreadMode (F - {ram}) s' R' W'"
    "set R' \<union> set W' = insert n (set R \<union> set W)" "n \<notin> set R \<union> set W" "alloc_room s' 0 0"
    by (rule kernel_inv_create_room)
  from that [OF C(1-4)] show ?thesis .
qed

end
