(* ===== verification/Kernel_Serial.thy ===== *)
theory Kernel_Serial
  imports Kernel_Inv
begin

text \<open>
  The serial line under the invariant of the kernel: when the transmitter is ready \<open>print\<close> returns, and
  the serial interrupt keeps the invariant, whatever it receives.
\<close>

section \<open>The transmitter\<close>

text \<open>Both flags of the transmitter are set, and stay so.\<close>

definition transmitter_ready :: "kernel \<Rightarrow> bool" where
  "transmitter_ready s \<longleftrightarrow>
     inputs s USART1_sr = [] \<and> mmio s USART1_sr AND shl 1 UART_TXE \<noteq> 0 \<and> mmio s USART1_sr AND shl 1 UART_TC \<noteq> 0"

lemma print_when_ready:
  assumes "transmitter_ready s"
  obtains t where "print bs s = Inr t" "sent t = sent s @ map ucast bs" "bus_frame s t"
proof -
  have r: "inputs s (uart ''sr'') = []" "mmio s (uart ''sr'') AND shl 1 UART_TXE \<noteq> 0" "mmio s (uart ''sr'') AND shl 1 UART_TC \<noteq> 0"
    using assms by (simp_all add: transmitter_ready_def)
  obtain t where t: "print_loop bs s = Inr t" "inputs t (uart ''sr'') = []" "mmio t (uart ''sr'') = mmio s (uart ''sr'')"
    using print_loop_ready [OF r(1,2), of bs] by blast
  have "poll (uart ''sr'') (\<lambda>v. v AND shl 1 UART_TC \<noteq> 0) t = Inr t"
    by (rule poll_ready [OF t(2)]) (use r(3) t(3) in simp)
  then have p: "print bs s = Inr t" using t(1) by (simp add: print_def)
  then have "bus_frame s t" using print_outcome [of s bs] by simp
  from that [OF p print_loop_sent [OF t(1)] this] show ?thesis .
qed

section \<open>Devices and the io state under the invariant\<close>

lemma kernel_inv_bus:
  assumes "kernel_inv m F s R W" "bus_frame s s'"
  shows "kernel_inv m F s' R W"
  by (rule kernel_inv_same [OF assms(1) steady_dev [OF dev_frame_bus [OF assms(2)]]])
     (simp_all add: same_queues_def dev_frame_kernel [OF dev_frame_bus [OF assms(2)]])

lemma kernel_inv_io:
  assumes "kernel_inv m F s R W" "rx_room i"
  shows "kernel_inv m F (s\<lparr>io := i\<rparr>) R W"
  by (rule kernel_inv_same [OF assms(1) steady_upds(3)]) (use assms(2) in \<open>simp_all add: same_queues_def\<close>)

lemma rx_room_slot:
  assumes "rx_room i"
  shows "wr (uart_rx_buffer i) (uint (bytes_received i)) v = Inr ((uart_rx_buffer i)[unat (bytes_received i) := v])"
proof -
  have "int (unat (bytes_received i)) < 4" using assms by (simp add: rx_room_def del: of_nat_unat)
  then show ?thesis using assms by (simp add: rx_room_def)
qed

section \<open>The serial interrupt\<close>

text \<open>
  What the handler relies on: the pointer \<open>internal_rx_state\<close> is the one start-up has stored, the byte that
  completes a command does not complete the command REBOOT, and an overrun to be reported finds the
  transmitter ready.
\<close>

definition pointer_set :: "kernel \<Rightarrow> bool" where
  "pointer_set s \<longleftrightarrow> internal_rx_state s = rx_state_addr (syms s) \<and> rx_state_addr (syms s) \<noteq> NULL"

definition serial_ready :: "kernel \<Rightarrow> bool" where
  "serial_ready s \<longleftrightarrow> pointer_set s \<and> (bytes_received (io s) = 3 \<longrightarrow> uart_rx_buffer (io s) ! 0 \<noteq> 6) \<and>
     (fst (READ_REGISTER USART1_sr s) AND shl 1 UART_ORE = 0 \<or> hostIsNotified (io s) \<or> transmitter_ready s)"

lemma kernel_inv_command:
  assumes inv: "kernel_inv m F s R W" "pointer_set s" and b: "b ! 0 \<noteq> 6" and l: "length (uart_rx_buffer i) = 4"
  obtains t R' W' where "rx_command b (s\<lparr>io := i\<rparr>) = Inr t" "kernel_inv m F t R' W'"
proof -
  let ?s5 = "s\<lparr>io := i\<lparr>rx_state := ucast (b ! 0)\<rparr>\<rparr>" let ?i = "i\<lparr>rx_state := ucast (b ! 0), bytes_received := 0\<rparr>"
  have p: "store_rx_state (ucast (b ! 0)) (s\<lparr>io := i\<rparr>) = Inr ?s5" "load_rx_state ?s5 = Inr (ucast (b ! 0))"
    using inv(2) by (simp_all add: pointer_set_def store_rx_state_def load_rx_state_def internal_rx_state_def Let_def)
  have six: "(ucast (b ! 0) :: u32) \<noteq> REBOOT" using b byte_back [of "b ! 0"] byte_back [of 6] by auto
  have "rx_room ?i" using l by (simp add: rx_room_def)
  from kernel_inv_io [OF inv(1) this] have "kernel_inv m F (?s5\<lparr>io := ?i\<rparr>) R W" by simp
  then obtain q s6 R' W' where w: "wakeup_pid (pid_arg (external_io_runner_pid (kernel_pids ?s5))) ?s5 = Inr (q, s6)"
    "kernel_inv m F (s6\<lparr>io := ?i\<rparr>) R' W'" "io s6 = io ?s5" by (rule kernel_inv_wakeup_io)
  have "rx_command b (s\<lparr>io := i\<rparr>) = Inr (s6\<lparr>io := ?i\<rparr>)"
    using w(1,3) six by (simp add: rx_command_def rx_word_low p)
  then show ?thesis using w(2) by (rule that)
qed

lemma kernel_inv_byte:
  assumes inv: "kernel_inv m F s R W" "pointer_set s" and six: "bytes_received (io s) = 3 \<longrightarrow> uart_rx_buffer (io s) ! 0 \<noteq> 6"
  obtains t R' W' where "rx_byte s = Inr t" "kernel_inv m F t R' W'"
proof -
  let ?s2 = "s\<lparr>io := (io s)\<lparr>hostIsNotified := False\<rparr>\<rparr>"
  obtain d s3 where d: "read_data_register ?s2 = (d, s3)" by fastforce
  have f: "bus_frame ?s2 s3" by (rule READ_bus [OF d [unfolded read_data_register_def]])
  note K = dev_frame_kernel [OF dev_frame_bus [OF f]]
  have r: "rx_room (io s)" by (rule kernel_invD(7) [OF inv(1)])
  then have r3: "rx_room (io s3)" using K(12) by (simp add: rx_room_def)
  have "rx_room (io ?s2)" using r by (simp add: rx_room_def)
  from kernel_inv_io [OF inv(1) this] have "kernel_inv m F ?s2 R W" by simp
  then have inv3: "kernel_inv m F s3 R W" using f by (rule kernel_inv_bus)
  let ?n = "bytes_received (io s3)"
  let ?b = "(uart_rx_buffer (io s3))[unat ?n := ucast d]"
  let ?s4 = "s3\<lparr>io := (io s3)\<lparr>uart_rx_buffer := ?b, bytes_received := ?n + 1\<rparr>\<rparr>"
  have run: "rx_byte s = (if ?n + 1 \<noteq> 4 then Inr ?s4 else rx_command ?b ?s4)"
    unfolding rx_byte_def d Let_def prod.case rx_room_slot [OF r3] bnd_simps by simp
  have l4: "length (uart_rx_buffer (io ?s4)) = 4" using r3 by (simp add: rx_room_def)
  show ?thesis
  proof (cases "?n + 1 = 4")
    case False
    have u: "unat (?n + 1) = unat ?n + 1" using r3 by (simp add: rx_room_def unat_word_ariths)
    have "unat (?n + 1) \<noteq> unat (4 :: u8)" using False word_unat_eq_iff by blast
    then have "rx_room (io ?s4)" using r3 u by (simp add: rx_room_def)
    from kernel_inv_io [OF inv3 this] have "kernel_inv m F ?s4 R W" by simp
    with False run show ?thesis by (intro that) simp_all
  next
    case True
    then have n3: "?n = 3" by (simp add: eq_diff_eq [symmetric])
    have p: "pointer_set s3" using inv(2) K(4,11) by (simp add: pointer_set_def internal_rx_state_def)
    have b0: "?b ! 0 \<noteq> 6" using six n3 K(12) by simp
    have "length (uart_rx_buffer ((io s3)\<lparr>uart_rx_buffer := ?b, bytes_received := ?n + 1\<rparr>)) = 4" using l4 by simp
    with inv3 p b0 obtain t R' W' where "rx_command ?b ?s4 = Inr t" "kernel_inv m F t R' W'"
      by (rule kernel_inv_command)
    with True run show ?thesis by (intro that) simp_all
  qed
qed

lemma kernel_inv_overrun:
  assumes inv: "kernel_inv m F s R W" and p: "hostIsNotified (io s) \<or> transmitter_ready s"
  obtains t where "rx_overrun s = Inr t" "kernel_inv m F t R W"
proof -
  have "\<exists>s2. (if \<not> hostIsNotified (io s)
      then bnd (print [-1, -1, -1, -1] s) (\<lambda>t. Inr (t\<lparr>io := (io t)\<lparr>hostIsNotified := True\<rparr>\<rparr>)) else Inr s) = Inr s2 \<and>
      kernel_inv m F s2 R W"
  proof (cases "hostIsNotified (io s)")
    case False
    with p obtain t where t: "print [-1, -1, -1, -1] s = Inr t" "bus_frame s t" by (metis print_when_ready)
    have inv2: "kernel_inv m F t R W" by (rule kernel_inv_bus [OF inv t(2)])
    then have "rx_room ((io t)\<lparr>hostIsNotified := True\<rparr>)" using kernel_invD(7) by (simp add: rx_room_def)
    from kernel_inv_io [OF inv2 this] t(1) False show ?thesis by simp
  qed (use inv in simp)
  then obtain s2 where s2: "(if \<not> hostIsNotified (io s)
      then bnd (print [-1, -1, -1, -1] s) (\<lambda>t. Inr (t\<lparr>io := (io t)\<lparr>hostIsNotified := True\<rparr>\<rparr>)) else Inr s) = Inr s2"
    "kernel_inv m F s2 R W" by blast
  obtain sr2 s3 where r: "READ_REGISTER USART1_sr s2 = (sr2, s3)" by fastforce
  obtain d t where d: "read_data_register s3 = (d, t)" by fastforce
  have inv3: "kernel_inv m F s3 R W" by (rule kernel_inv_bus [OF s2(2) READ_bus [OF r]])
  have invt: "kernel_inv m F t R W" by (rule kernel_inv_bus [OF inv3 READ_bus [OF d [unfolded read_data_register_def]]])
  have fin: "\<exists>u. Inr (v\<lparr>io := (io v)\<lparr>bytes_received := 0\<rparr>\<rparr>) = (Inr u :: kernel res) \<and> kernel_inv m F u R W"
    if "kernel_inv m F v R W" for v
    using kernel_inv_io [OF that, of "(io v)\<lparr>bytes_received := 0\<rparr>"] kernel_invD(7) [OF that] by (simp add: rx_room_def)
  let ?b = "(uart_rx_buffer (io t))[unat (bytes_received (io t)) := ucast d]"
  have "rx_room ((io t)\<lparr>uart_rx_buffer := ?b\<rparr>)" using kernel_invD(7) [OF invt] by (simp add: rx_room_def)
  from kernel_inv_io [OF invt this] have invb: "kernel_inv m F (t\<lparr>io := (io t)\<lparr>uart_rx_buffer := ?b\<rparr>\<rparr>) R W" .
  have "\<exists>u. rx_overrun s = Inr u \<and> kernel_inv m F u R W"
    unfolding rx_overrun_def s2(1) bnd_simps r d Let_def prod.case rx_room_slot [OF kernel_invD(7) [OF invt]]
    by (cases "sr2 AND shl 1 UART_RXNE \<noteq> 0") (simp_all only: if_True if_False simp_thms bnd_simps fin [OF invb] fin [OF inv3])
  with that show ?thesis by blast
qed

lemma kernel_inv_serial:
  assumes inv: "kernel_inv m F s R W" and p: "serial_ready s"
  obtains t R' W' where "uart_isr_handler s = Inr t" "kernel_inv m F t R' W'"
proof -
  obtain sr s1 where r: "READ_REGISTER USART1_sr s = (sr, s1)" by fastforce
  note f = READ_bus [OF r] note K = dev_frame_kernel [OF dev_frame_bus [OF f]]
  have inv1: "kernel_inv m F s1 R W" by (rule kernel_inv_bus [OF inv f])
  have p1: "pointer_set s1" "bytes_received (io s1) = 3 \<longrightarrow> uart_rx_buffer (io s1) ! 0 \<noteq> 6"
    using p K by (simp_all add: serial_ready_def pointer_set_def internal_rx_state_def)
  show ?thesis
  proof (cases "sr AND shl 1 UART_ORE \<noteq> 0")
    case True
    have "transmitter_ready s1" if "transmitter_ready s"
      using that r by (auto simp: transmitter_ready_def READ_REGISTER_def)
    then have "hostIsNotified (io s1) \<or> transmitter_ready s1" using p r True K(12) by (auto simp: serial_ready_def)
    with inv1 obtain t where "rx_overrun s1 = Inr t" "kernel_inv m F t R W" by (rule kernel_inv_overrun)
    with that True show ?thesis unfolding uart_isr_cases [OF r] by simp
  next
    case False
    from inv1 p1 obtain t R' W' where "rx_byte s1 = Inr t" "kernel_inv m F t R' W'" by (rule kernel_inv_byte)
    with that False show ?thesis unfolding uart_isr_cases [OF r] by simp
  qed
qed

end
