(* ===== verification/Kernel_Run.thy ===== *)
theory Kernel_Run
  imports Kernel_Serial Irq_Properties
begin

text \<open>
  The kernel as a state machine: the calls the tasks make, the interrupts and the context switch as
  events on a configuration, and what holds in every configuration that can be reached from the
  start.  A call of the kernel is one event; an interrupt comes between two of them.
\<close>

section \<open>Configurations and events\<close>

text \<open>
  The mode, the addresses the programs have allocated and not given back, and the state.
\<close>

type_synonym config = "exec_mode \<times> addr set \<times> kernel"

datatype event =
    Compute Cpu "addr \<Rightarrow> u8"   \<comment> \<open>the running task changes its registers and its memory\<close>
  | Yield | Block | Sleep u32 | Finish | Join u32
  | Create addr u32 addr       \<comment> \<open>function, code memory or 0, address of the local variable\<close>
  | Allocate u32 | Deallocate addr | CleanUp
  | SupervisorCall TrapType u32
  | Message addr               \<comment> \<open>the supervisor call that prints\<close>
  | HardFault | UsageFault | TimerInterrupt | SerialInterrupt | Switch
  | Vector isr                 \<comment> \<open>SysTick, the DMA stream, the external lines and the converter\<close>
  | InitLines                  \<comment> \<open>the idle task sets the table of the external lines up\<close>
  | LinkLine addr GpioObject | LinkConverter addr   \<comment> \<open>a function is registered\<close>
  | Devices "addr \<Rightarrow> u32" "addr \<Rightarrow> u32 list" u32   \<comment> \<open>registers, what reads deliver, what the DMA reports\<close>

text \<open>The supervisor calls of a task that are answered at once.\<close>

abbreviation answered :: "TrapType set" where
  "answered \<equiv> {svc_std, svc_ste, setExtIoCallback, wakeupPid, getIoBuffer, wakeupIoHandler, disableIrReception, enableIrReception}"

text \<open>What every supervisor call does first: the registers of the caller are saved on its stack.\<close>

definition entered :: "kernel \<Rightarrow> kernel" where
  "entered s = save_psp_if_threadmode (s\<lparr>cpu := (cpu s)\<lparr>lr := 0xFFFFFFFD, svc_pending := False\<rparr>\<rparr>)"

text \<open>The function an interrupt has been linked with: the table has one entry for each external line.\<close>

definition line_handler :: "nat \<Rightarrow> kernel \<Rightarrow> addr option" where
  "line_handler k s = (if k < length (exti_isr_handler (io s)) then Some (exti_isr_handler (io s) ! k) else None)"

fun registered :: "isr \<Rightarrow> kernel \<Rightarrow> addr option" where
  "registered IsrExti0 s = line_handler 0 s"
| "registered IsrExti1 s = line_handler 1 s"
| "registered IsrExti2 s = line_handler 2 s"
| "registered IsrExti3 s = line_handler 3 s"
| "registered IsrExti4 s = line_handler 4 s"
| "registered IsrExti9_5 s = line_handler 5 s"
| "registered IsrAdc s = Some (adc_isr_callback (io s))"
| "registered _ s = None"

text \<open>The function of the programs at \<open>a\<close> returns and leaves what the kernel relies on alone.\<close>

definition callable :: "(addr \<Rightarrow> kernel \<Rightarrow> kernel res) \<Rightarrow> addr \<Rightarrow> kernel \<Rightarrow> bool" where
  "callable call a s \<longleftrightarrow> (\<exists>t. call a s = Inr t \<and> harmless s t)"

text \<open>
  \<open>svc\<close> in thread mode: the core enters the handler with this value in lr.  The target of \<open>execPriv\<close> is one of
  the kernel's own two functions or one of the programs (\<open>priv_call\<close>).
\<close>

definition trap :: "(addr \<Rightarrow> kernel \<Rightarrow> kernel res) \<Rightarrow> kernel \<Rightarrow> kernel res" where
  "trap call s = svcall_isr (priv_call call) (s\<lparr>cpu := (cpu s)\<lparr>lr := 0xFFFFFFFD\<rparr>\<rparr>)"

fun perform :: "(addr \<Rightarrow> kernel \<Rightarrow> kernel res) \<Rightarrow> event \<Rightarrow> config \<Rightarrow> config res" where
  "perform call (Compute c m) (x, F, s) = Inr (x, F, s\<lparr>cpu := c, mem := m\<rparr>)"
| "perform call Yield (x, F, s) = bnd (trap call (svcall (trap_number yieldTask) s)) (\<lambda>t. Inr (SwitchPending, F, t))"
| "perform call Block (x, F, s) =
     bnd (block_current_task s) (\<lambda>t. bnd (trap call t) (\<lambda>u. Inr (SwitchPending, F, u)))"
| "perform call (Sleep d) (x, F, s) =
     bnd (task_sleep d s) (\<lambda>t. bnd (trap call t) (\<lambda>u. Inr (SwitchPending, F, u)))"
| "perform call Finish (x, F, s) = bnd (finish_task s) (\<lambda>t. Inr (SwitchPending, F, t))"
| "perform call (Join p) (x, F, s) =
     bnd (join_task p s) (\<lambda>t. if svc_pending (cpu t) then bnd (trap call t) (\<lambda>u. Inr (SwitchPending, F, u))
                            else Inr (x, F, t))"
| "perform call (Create fn ram loc) (x, F, s) = bnd (create_task fn ram loc s) (\<lambda>(p, t). Inr (x, F - {ram}, t))"
| "perform call (Allocate n) (x, F, s) =
     bnd (allocate n s) (\<lambda>(p, t). Inr (x, if p = NULL then F else insert p F, t))"
| "perform call (Deallocate a) (x, F, s) = bnd (deallocate a s) (\<lambda>(r, t). Inr (x, F - {a}, t))"
| "perform call CleanUp (x, F, s) = bnd (search_invalidate_tasks s) (\<lambda>t. Inr (x, F, t))"
| "perform call (SupervisorCall c v) (x, F, s) = bnd (trap call (svcall_param (trap_number c) v s)) (\<lambda>t. Inr (x, F, t))"
| "perform call (Message a) (x, F, s) = bnd (trap call (uprint a s)) (\<lambda>t. Inr (SwitchPending, F, t))"
| "perform call HardFault (x, F, s) = bnd (hardfault_handler s) (\<lambda>t. Inr (SwitchPending, F, t))"
| "perform call UsageFault (x, F, s) =
     bnd (usage_fault_handler s) (\<lambda>t.
     Inr (if tstate (task t (currently_running t)) = INVALID then SwitchPending else x, F, t))"
| "perform call TimerInterrupt (x, F, s) = bnd (tim3_isr_handler s) (\<lambda>t. Inr (x, F, t))"
| "perform call SerialInterrupt (x, F, s) = bnd (uart_isr_handler s) (\<lambda>t. Inr (x, F, t))"
| "perform call (Vector i) (x, F, s) = bnd (run_isr call i s) (\<lambda>t. Inr (x, F, t))"
| "perform call InitLines (x, F, s) = Inr (x, F, init_exti_isr_handling s)"
| "perform call (LinkLine cb g) (x, F, s) = bnd (link_exti_src cb g s) (\<lambda>(g', t). bnd (trap call t) (\<lambda>u. Inr (x, F, u)))"
| "perform call (LinkConverter cb) (x, F, s) = bnd (trap call (link_adc_src cb s)) (\<lambda>t. Inr (x, F, t))"
| "perform call Switch (x, F, s) = bnd (pendsv_isr s) (\<lambda>t. Inr (ThreadMode, F, t))"
| "perform call (Devices r i d) (x, F, s) =
     Inr (x, F, s\<lparr>mmio := r, inputs := i, drv := (drv s)\<lparr>dma_interrupt_action := d\<rparr>\<rparr>)"

text \<open>
  When an event can come.  Calls are made in thread mode.  The idle task (pid 0) never returns and
  does not fault; a call that waits has executed \<open>svc\<close>, one that starts has not.  Memory: a task is
  created while the table has room for its five chunks, and 1 to 32760 bytes are allocated while it has room for them;
  what is given back, or handed to a new task as its code, had been allocated.  What prints finds the transmitter
  ready, since \<open>print\<close> waits for it; the serial interrupt finds its pointer as start-up has set it and does not
  complete the command to reboot.  The interrupt of an external line or of the converter comes after a function has
  been registered there, and this function, like one of the programs that \<open>execPriv\<close> runs, is harmless; a line is linked after the
  table has been set up.
\<close>

fun enabled :: "(addr \<Rightarrow> kernel \<Rightarrow> kernel res) \<Rightarrow> event \<Rightarrow> config \<Rightarrow> bool" where
  "enabled call (Compute c m) (x, F, s) \<longleftrightarrow> x = ThreadMode \<and> length (r4_11 c) = 8"
| "enabled call Finish (x, F, s) \<longleftrightarrow> x = ThreadMode \<and> pid (task s (currently_running s)) \<noteq> 0"
| "enabled call HardFault (x, F, s) \<longleftrightarrow> x = ThreadMode \<and> pid (task s (currently_running s)) \<noteq> 0"
| "enabled call UsageFault (x, F, s) \<longleftrightarrow> x = ThreadMode \<and> pid (task s (currently_running s)) \<noteq> 0"
| "enabled call (Join p) (x, F, s) \<longleftrightarrow> x = ThreadMode \<and> \<not> svc_pending (cpu s)"
| "enabled call (Create fn ram loc) (x, F, s) \<longleftrightarrow> x = ThreadMode \<and> alloc_room s 5 1688 \<and> (ram = 0 \<or> ram \<in> F)"
| "enabled call (Allocate n) (x, F, s) \<longleftrightarrow> x = ThreadMode \<and> table_room n s"
| "enabled call (Deallocate a) (x, F, s) \<longleftrightarrow> x = ThreadMode \<and> a \<in> F"
| "enabled call (SupervisorCall c v) (x, F, s) \<longleftrightarrow> x = ThreadMode \<and> (c \<in> answered \<or> c = execPriv \<and>
     (v OR 1 \<in> {enable_exti_addr (syms s) OR 1, enable_adc_addr (syms s) OR 1} \<or>
      callable call (v OR 1) (entered (svcall_param (trap_number execPriv) v s))))"
| "enabled call (Message a) (x, F, s) \<longleftrightarrow> x = ThreadMode \<and> transmitter_ready s"
| "enabled call TimerInterrupt (x, F, s) \<longleftrightarrow> True"
| "enabled call SerialInterrupt (x, F, s) \<longleftrightarrow> serial_ready s"
| "enabled call (Vector i) (x, F, s) \<longleftrightarrow> i \<in> {IsrSysTick, IsrDma2Stream5} \<or>
     (case registered i s of None \<Rightarrow> False | Some h \<Rightarrow> h \<noteq> NULL \<and> callable call h s)"
| "enabled call (LinkLine cb g) (x, F, s) \<longleftrightarrow> x = ThreadMode \<and> length (exti_isr_handler (io s)) = 6"
| "enabled call Switch (x, F, s) \<longleftrightarrow> True"
| "enabled call (Devices r i d) (x, F, s) \<longleftrightarrow> True"
| "enabled call e (x, F, s) \<longleftrightarrow> x = ThreadMode"

inductive reachable :: "(addr \<Rightarrow> kernel \<Rightarrow> kernel res) \<Rightarrow> config \<Rightarrow> config \<Rightarrow> bool" for call c0 where
  start: "reachable call c0 c0"
| event: "reachable call c0 c \<Longrightarrow> enabled call e c \<Longrightarrow> perform call e c = Inr c' \<Longrightarrow> reachable call c0 c'"

inductive_cases reachable_cases: "reachable call c0 c"

section \<open>Every event keeps the invariant\<close>

definition config_ok :: "config \<Rightarrow> bool" where
  "config_ok c \<longleftrightarrow> (case c of (x, F, s) \<Rightarrow> \<exists>R W. kernel_inv x F s R W)"

text \<open>\<open>goes_on m\<close>: the event returns, in a configuration that satisfies the invariant again.\<close>

definition goes_on :: "config res \<Rightarrow> bool" where
  "goes_on m \<longleftrightarrow> (\<exists>c. m = Inr c \<and> config_ok c)"

lemma goes_onI: "m = Inr (x, F, s) \<Longrightarrow> kernel_inv x F s R W \<Longrightarrow> goes_on m"
  unfolding goes_on_def config_ok_def by auto

lemma lr_steady: "steady A s (s\<lparr>cpu := (cpu s)\<lparr>lr := v\<rparr>\<rparr>)"
  by (rule steady_upds) simp

text \<open>The case of a supervisor call that asks for a switch.\<close>

lemma kernel_inv_yield_case:
  assumes inv: "kernel_inv m F s R W"
  obtains t where "yield_case s = Inr t" "kernel_inv SwitchPending F t R W"
proof -
  note D = kernel_invD [OF inv]
  let ?c = "currently_running s"
  let ?f = "\<lambda>t. t\<lparr>lifetime_info := (lifetime_info t)\<lparr>voluntary_interrupts := voluntary_interrupts (lifetime_info t) + 1\<rparr>\<rparr>"
  have "\<exists>s1. (if DEBUG s \<noteq> 0 \<and> ?c \<noteq> NULL then upd_tcb_of ?c ?f s else Inr s) = Inr s1 \<and> steady {} s s1 \<and>
      same_queues s s1 \<and> (\<forall>n. tstate (task s1 n) = tstate (task s n)) \<and>
      currently_running s1 = ?c \<and> task_to_preserve s1 = task_to_preserve s"
  proof (cases "DEBUG s \<noteq> 0 \<and> ?c \<noteq> NULL")
    case True
    then have "?c \<in> set R \<union> set W" using at_point_switch(1) [OF D(6)] by blast
    note u = upd_tcb_of_task [OF sched_okD(12,5) [OF D(1) this], of ?f]
    have "steady {} s (s\<lparr>tcbs := (tcbs s)(tdata (nodes s ?c) := ?f (task s ?c))\<rparr>)"
      using u by (rule steady_tcb) (simp_all add: ident_def ended_def)
    with u True show ?thesis by (auto simp: task_def same_queues_def)
  qed (auto simp: same_queues_def)
  then obtain s1 where u: "(if DEBUG s \<noteq> 0 \<and> ?c \<noteq> NULL then upd_tcb_of ?c ?f s else Inr s) = Inr s1" and st: "steady {} s s1"
    and s1: "same_queues s s1" "\<forall>n. tstate (task s1 n) = tstate (task s n)" "currently_running s1 = ?c"
      "task_to_preserve s1 = task_to_preserve s" by blast
  have "sched_ok s1 R W" by (rule sched_ok_same [OF D(1) s1(1)]) (use s1(2) sched_okD(7,8) [OF D(1)] in auto)
  moreover have "same_queues s1 (set_pendsv s1)" "tcbs (set_pendsv s1) = tcbs s1" by (simp_all add: set_pendsv_def same_queues_def)
  ultimately have "sched_ok (set_pendsv s1) R W" by (rule sched_ok_tcbs)
  moreover have "at_point SwitchPending (set_pendsv s1) R W" using at_point_switch [OF D(6)] s1(3,4) by (simp add: set_pendsv_def)
  ultimately have "kernel_inv SwitchPending F (set_pendsv s1) R W"
    using kernel_inv_steady [OF inv steady_trans [OF st steady_bus(2)] _ refl] by blast
  then show ?thesis using u by (intro that) (simp_all add: yield_case_def)
qed

lemma entered_inv:
  assumes "kernel_inv m F s R W"
  shows "kernel_inv m F (entered s) R W"
proof -
  have "steady {} s (s\<lparr>cpu := (cpu s)\<lparr>lr := 0xFFFFFFFD, svc_pending := False\<rparr>\<rparr>)" by (rule steady_upds) simp
  from steady_trans [OF this steady_save] show ?thesis
    unfolding entered_def
    by (rule kernel_inv_same [OF assms]) (simp_all add: save_psp_if_threadmode_def same_queues_def)
qed

lemma entered_sel: "r4_11 (cpu (entered s)) = r4_11 (cpu s)" "mmio (entered s) = mmio s" "inputs (entered s) = inputs s"
  by (simp_all add: entered_def save_psp_if_threadmode_def)

lemma entered_eq:
  "save_psp_if_threadmode ((s\<lparr>cpu := (cpu s)\<lparr>lr := 0xFFFFFFFD\<rparr>\<rparr>)\<lparr>cpu := (cpu (s\<lparr>cpu := (cpu s)\<lparr>lr := 0xFFFFFFFD\<rparr>\<rparr>))\<lparr>svc_pending := False\<rparr>\<rparr>) =
   entered s"
  by (simp add: entered_def)

lemmas trap_entered =
  svcall_isr_def [of "priv_call call" "s\<lparr>cpu := (cpu s)\<lparr>lr := 0xFFFFFFFD\<rparr>\<rparr>" for call s, unfolded Let_def entered_eq, folded trap_def]

text \<open>The yield at the end of a call that waits, or the plain one.\<close>

lemma trap_yield:
  assumes inv: "kernel_inv m F s R W" and y: "r4_11 (cpu s) ! 2 = trap_number yieldTask"
  obtains t where "trap call s = Inr t" "kernel_inv SwitchPending F t R W"
proof -
  from entered_inv [OF inv] obtain t where "yield_case (entered s) = Inr t" "kernel_inv SwitchPending F t R W"
    by (rule kernel_inv_yield_case)
  with that y show ?thesis by (simp add: trap_entered entered_sel)
qed

lemma perform_yield:
  assumes inv: "kernel_inv m F s R W"
  shows "goes_on (perform call Yield (m, F, s))"
proof -
  have "kernel_inv m F (svcall (trap_number yieldTask) s) R W"
    by (rule kernel_inv_same [OF inv steady_cpu(3)]) (simp_all add: svcall_def same_queues_def)
  moreover have "r4_11 (cpu (svcall (trap_number yieldTask) s)) ! 2 = trap_number yieldTask"
    using kernel_invD(5) [OF inv] by (simp add: svcall_def)
  ultimately obtain t where "trap call (svcall (trap_number yieldTask) s) = Inr t" "kernel_inv SwitchPending F t R W"
    by (rule trap_yield)
  then show ?thesis by (intro goes_onI) simp_all
qed

lemma kernel_inv_block:
  assumes inv: "kernel_inv ThreadMode F s R W"
  obtains t R' W' where "block_current_task s = Inr t" "kernel_inv SwitchPending F t R' W'"
    "set R' \<union> set W' = set R \<union> set W" "set R - {currently_running s} \<subseteq> set R'"
    "tcbs t = (tcbs s)(tdata (nodes s (currently_running s)) := (task s (currently_running s))\<lparr>tstate := WAITING\<rparr>)"
    "\<forall>n. tdata (nodes t n) = tdata (nodes s n)" "mem t = mem s" "drv t = drv s"
    "r4_11 (cpu t) ! 2 = trap_number yieldTask" "W' = W @ [currently_running s]"
proof -
  note D = kernel_invD [OF inv]
  let ?c = "currently_running s"
  have c: "?c \<in> set R" using D(6) by (simp add: selected_def)
  then obtain as bs where R: "R = as @ ?c # bs" using split_list by metis
  from D(1) have "sched_ok s (as @ ?c # bs) W" by (simp only: R [symmetric])
  then obtain t where B: "block_current_task s = Inr t" "sched_ok t (as @ bs) (W @ [?c])"
    "tcbs t = (tcbs s)(tdata (nodes s ?c) := (task s ?c)\<lparr>tstate := WAITING\<rparr>)"
    "currently_running t = (if as @ bs = [] then NULL else last (bs @ as))" "task_to_preserve t = ?c"
    "\<forall>n. tdata (nodes t n) = tdata (nodes s n)"
    "cpu t = (cpu s)\<lparr>primask := False, r4_11 := (r4_11 (cpu s))[2 := 2], svc_pending := True\<rparr>"
    "mem t = mem s" "drv t = drv s"
    by (rule block_current_task_ok [OF _ refl])
  have "last (bs @ as) \<in> set (as @ bs)" if "as @ bs \<noteq> []" using that last_in_set [of "bs @ as"] by auto
  then have at: "at_point SwitchPending t (as @ bs) (W @ [?c])" using B(4,5) by auto
  have un: "set (as @ bs) \<union> set (W @ [?c]) = set R \<union> set W" "set R - {?c} \<subseteq> set (as @ bs)"
    using arg_cong [OF R, of set] by auto
  have inv': "kernel_inv SwitchPending F t (as @ bs) (W @ [?c])"
    by (rule kernel_inv_steady [OF inv steady_block [OF B(1)] B(2) un(1) at]) simp
  have "r4_11 (cpu t) ! 2 = trap_number yieldTask" using B(7) D(5) by simp
  from that [OF B(1) inv' un B(3,6,8,9) this refl] show ?thesis .
qed

lemma block_then_trap:
  assumes inv: "kernel_inv ThreadMode F s R W"
  shows "goes_on (bnd (block_current_task s) (\<lambda>t. bnd (trap call t) (\<lambda>u. Inr (SwitchPending, F, u))))"
proof -
  from inv obtain t R' W' where B: "block_current_task s = Inr t" "kernel_inv SwitchPending F t R' W'"
    "r4_11 (cpu t) ! 2 = trap_number yieldTask"
    by (rule kernel_inv_block)
  from B(2,3) obtain u where "trap call t = Inr u" "kernel_inv SwitchPending F u R' W'" by (rule trap_yield)
  then show ?thesis using B(1) by (intro goes_onI) simp_all
qed

lemma sleep_is_block:
  assumes inv: "kernel_inv ThreadMode F s R W"
  obtains s1 where "task_sleep d s = block_current_task s1" "kernel_inv ThreadMode F s1 R W"
    "same_queues s s1" "tcbs s1 = tcbs s" "currently_running s1 = currently_running s"
proof -
  note D = kernel_invD [OF inv]
  let ?c = "currently_running s"
  have "?c \<in> set R \<union> set W" using D(6) by (simp add: selected_def)
  then have cn: "?c \<noteq> NULL" "tdata (nodes s ?c) \<noteq> NULL" using sched_okD(5,12) [OF D(1)] by blast+
  let ?s0 = "s\<lparr>pid_of_sleeping_task := pid_of (task s ?c)\<rparr>"
  define s1 where "s1 = timer_start TimerForTaskSleep (timer_flush_counter TimerForTaskSleep (set_ccr TimerForTaskSleep d 1 ?s0))"
  have f: "dev_frame ?s0 s1" unfolding s1_def by (intro dev_frame_bus bus_frame_intros)
  have q: "same_queues s s1" "tcbs s1 = tcbs s" "currently_running s1 = ?c" "task_to_preserve s1 = task_to_preserve s"
    by (simp_all add: same_queues_def dev_frame_kernel [OF f])
  have "kernel_inv ThreadMode F s1 R W"
    by (rule kernel_inv_same [OF inv steady_trans [OF steady_upds(7) steady_dev [OF f]] q])
  moreover have "task_sleep d s = block_current_task s1" using tcb_of_task [OF cn] by (simp add: task_sleep_def s1_def)
  ultimately show ?thesis using q(1-3) by (intro that)
qed

lemma perform_sleep:
  assumes inv: "kernel_inv ThreadMode F s R W"
  shows "goes_on (perform call (Sleep d) (ThreadMode, F, s))"
proof -
  from inv obtain s1 where s1: "task_sleep d s = block_current_task s1" "kernel_inv ThreadMode F s1 R W" by (rule sleep_is_block)
  then show ?thesis using block_then_trap [OF s1(2)] by simp
qed

text \<open>The running task ends, by itself or by a fault.\<close>

lemma running_pid:
  assumes inv: "kernel_inv ThreadMode F s R W" and p: "pid (task s (currently_running s)) \<noteq> 0"
    and n: "n \<in> set R \<union> set W" "tdata (nodes s n) \<in> {tdata (nodes s (currently_running s))}"
  shows "pid (task s n) \<noteq> 0"
  using p n(2) by (simp add: task_def)

lemma perform_finish:
  assumes inv: "kernel_inv ThreadMode F s R W" and p: "pid (task s (currently_running s)) \<noteq> 0"
  shows "goes_on (perform call Finish (ThreadMode, F, s))"
proof -
  note D = kernel_invD [OF inv]
  let ?c = "currently_running s"
  have c: "?c \<in> set R" "task_to_preserve s = ?c" using D(6) by (simp_all add: selected_def)
  then have "proper s ?c" using D(4) by simp
  then have par: "parent_task (task s ?c) \<noteq> NULL" "parent_task (task s ?c) \<noteq> tdata (nodes s ?c)"
    using p by (simp_all add: proper_def)
  from finish_task_ok [OF D(1) c(1) par] obtain t R' W' where T: "finish_task s = Inr t" "sched_ok t R' W'"
    "set R' \<union> set W' = set R \<union> set W" "set R \<subseteq> set R'" "currently_running t = ?c" "task_to_preserve t = task_to_preserve s"
    by (metis (no_types, lifting))
  have "kernel_inv SwitchPending F t R' W'"
  proof (rule kernel_inv_steady [OF inv steady_finish [OF T(1)] T(2,3)])
    show "at_point SwitchPending t R' W'" using T(4-6) c by auto
  qed (rule running_pid [OF inv p])
  then show ?thesis using T(1) by (intro goes_onI) simp_all
qed

lemma invalidate_ok:
  assumes inv: "kernel_inv ThreadMode F s R W" and p: "pid (task s (currently_running s)) \<noteq> 0"
  obtains t where "invalidate_current_task s = Inr t" "kernel_inv SwitchPending F (set_pendsv t) R W"
    "tstate (task (set_pendsv t) (currently_running (set_pendsv t))) = INVALID"
    "same_queues s (set_pendsv t)"
    "tcbs (set_pendsv t) = (tcbs s)(tdata (nodes s (currently_running s)) := (task s (currently_running s))\<lparr>tstate := INVALID\<rparr>)"
proof -
  note D = kernel_invD [OF inv]
  let ?c = "currently_running s"
  have c: "?c \<in> set R" "task_to_preserve s = ?c" using D(6) by (simp_all add: selected_def)
  then have cU: "?c \<in> set R \<union> set W" by simp
  note cn = sched_okD(12) [OF D(1) cU] sched_okD(5) [OF D(1) cU]
  define s2 where "s2 = s\<lparr>tcbs := (tcbs s)(tdata (nodes s ?c) := (task s ?c)\<lparr>tstate := INVALID\<rparr>)\<rparr>"
  have u: "upd_tcb_of ?c (\<lambda>t. t\<lparr>tstate := INVALID\<rparr>) s = Inr s2"
    unfolding s2_def by (rule upd_tcb_of_task [OF cn])
  then obtain ps where run: "invalidate_current_task s = Inr (s2\<lparr>process_stats := ps\<rparr>)"
    by (simp add: invalidate_current_task_def Let_def)
  let ?t = "set_pendsv (s2\<lparr>process_stats := ps\<rparr>)"
  have t: "same_queues s ?t" "currently_running ?t = ?c" "task_to_preserve ?t = ?c"
    "tcbs ?t = (tcbs s)(tdata (nodes s ?c) := (task s ?c)\<lparr>tstate := INVALID\<rparr>)" "nodes ?t = nodes s"
    using c(2) by (simp_all add: same_queues_def set_pendsv_def s2_def)
  have st: "tstate (task ?t n) = tstate (task s n) \<or> tstate (task ?t n) = INVALID" for n
    using t(4,5) by (simp add: task_def)
  have "sched_ok ?t R W"
    by (rule sched_ok_same [OF D(1) t(1)]) (use st sched_okD(7,8) [OF D(1)] in \<open>metis TaskState.distinct\<close>)+
  moreover have "at_point SwitchPending ?t R W" using t(2,3) c by simp
  ultimately have "kernel_inv SwitchPending F ?t R W"
    by (intro kernel_inv_steady [OF inv steady_trans [OF steady_invalidate [OF run] steady_bus(2)]] running_pid [OF inv p])
       simp_all
  moreover have "tstate (task ?t (currently_running ?t)) = INVALID" using t by (simp add: task_def)
  ultimately show ?thesis using t(1,4) by (rule that [OF run])
qed

lemma perform_hardfault:
  assumes inv: "kernel_inv ThreadMode F s R W" and p: "pid (task s (currently_running s)) \<noteq> 0"
  shows "goes_on (perform call HardFault (ThreadMode, F, s))"
proof -
  define s1 where "s1 = s\<lparr>process_stats := (process_stats s)\<lparr>num_of_hardfaults := num_of_hardfaults (process_stats s) + 1\<rparr>\<rparr>"
  have "kernel_inv ThreadMode F s1 R W"
    unfolding s1_def by (rule kernel_inv_same [OF inv steady_upds(4)]) (simp_all add: same_queues_def)
  moreover have "pid (task s1 (currently_running s1)) \<noteq> 0" using p by (simp add: s1_def task_def)
  ultimately obtain t where t: "invalidate_current_task s1 = Inr t" "kernel_inv SwitchPending F (set_pendsv t) R W"
    by (rule invalidate_ok)
  show ?thesis
    by (rule goes_onI [OF _ t(2)]) (simp add: hardfault_handler_def s1_def [symmetric] t(1))
qed

lemma ucast_u32_neq_0: "(ucast (p :: u8) :: u32) \<noteq> 0" if "p \<noteq> 0"
  using that by transfer (simp add: take_bit_take_bit)

lemma usage_fault_cases:
  assumes inv: "kernel_inv ThreadMode F s R W" and p: "pid (task s (currently_running s)) \<noteq> 0"
  obtains (fpu) t where "usage_fault_handler s = Inr t" "dev_frame s t" "fst (READ_REGISTER 0xE000ED2A s) AND shl 1 3 \<noteq> 0"
  | (undefined) s1 where "usage_fault_handler s = bnd (invalidate_current_task s1) (\<lambda>s2. Inr (set_pendsv s2))" "dev_frame s s1"
      "fst (READ_REGISTER 0xE000ED2A s) AND shl 1 3 = 0"
proof -
  note D = kernel_invD [OF inv]
  let ?c = "currently_running s"
  have c: "?c \<in> set R \<union> set W" using D(6) by (simp add: selected_def)
  have tc: "tcb_of ?c s = Inr (task s ?c)" by (rule tcb_of_task [OF sched_okD(12,5) [OF D(1) c]])
  have "idle_task (kernel_pids s) = 0" using D(2) by (simp add: has_idle_def)
  moreover have "(ucast (pid (task s ?c)) :: u32) \<noteq> 0" using p by (rule ucast_u32_neq_0)
  ultimately have np: "pid_of (task s ?c) \<noteq> pid_arg (idle_task (kernel_pids s))" by (simp add: pid_of_def pid_arg_def)
  obtain v s1 where r: "READ_REGISTER 0xE000ED2A s = (v, s1)" by fastforce
  have f: "bus_frame s s1" by (rule READ_bus [OF r])
  let ?t = "MODIFY_REGISTER 0xE000ED88 (\<lambda>v. v OR shl 0xF 20) s1"
  have run: "usage_fault_handler s = (if v AND shl 1 3 \<noteq> 0 then Inr ?t
      else bnd (invalidate_current_task s1) (\<lambda>s2. Inr (set_pendsv s2)))"
    using tc np r by (simp add: usage_fault_handler_def)
  show ?thesis
  proof (cases "v AND shl 1 3 \<noteq> 0")
    case True
    then show ?thesis using run r dev_frame_bus [OF bus_frame_MODIFY [OF f]] by (intro fpu) simp_all
  next
    case False
    then show ?thesis using run r dev_frame_bus [OF f] by (intro undefined) simp_all
  qed
qed

lemma kernel_inv_dev:
  assumes "kernel_inv m F s R W" "dev_frame s s'"
  shows "kernel_inv m F s' R W"
  by (rule kernel_inv_same [OF assms(1) steady_dev [OF assms(2)]]) (simp_all add: same_queues_def dev_frame_kernel [OF assms(2)])

lemma perform_usage_fault:
  assumes inv: "kernel_inv ThreadMode F s R W" and p: "pid (task s (currently_running s)) \<noteq> 0"
  shows "goes_on (perform call UsageFault (ThreadMode, F, s))"
  using inv p
proof (cases rule: usage_fault_cases)
  case (fpu t)
  have inv2: "kernel_inv ThreadMode F t R W" by (rule kernel_inv_dev [OF inv fpu(2)])
  have "ready t (currently_running t)" using kernel_invD(6) [OF inv2] by (simp add: selected_def)
  then have "tstate (task t (currently_running t)) \<noteq> INVALID" by (simp add: ready_def)
  then show ?thesis by (intro goes_onI [OF _ inv2]) (simp only: perform.simps fpu(1) bnd_simps if_False)
next
  case (undefined s1)
  have "pid (task s1 (currently_running s1)) \<noteq> 0" using p by (simp add: task_def dev_frame_kernel [OF undefined(2)])
  with kernel_inv_dev [OF inv undefined(2)] obtain t where t: "invalidate_current_task s1 = Inr t"
    "kernel_inv SwitchPending F (set_pendsv t) R W" "tstate (task (set_pendsv t) (currently_running (set_pendsv t))) = INVALID"
    by (rule invalidate_ok)
  show ?thesis
    by (rule goes_onI [OF _ t(2)]) (simp only: perform.simps undefined(1) t(1,3) bnd_simps if_True simp_thms)
qed

text \<open>The switch.\<close>

lemma perform_switch:
  assumes inv: "kernel_inv m F s R W"
  shows "goes_on (perform call Switch (m, F, s))"
proof -
  note D = kernel_invD [OF inv]
  from pendsv_total [OF D(1) at_point_switch(1) [OF D(6)] D(2) at_point_switch(2) [OF D(6)]] obtain t R' W' where
    T: "pendsv_isr s = Inr t" "sched_ok t R' W'" "selected t R'" "mset (R' @ W') = mset (R @ W)" by blast
  have "set R' \<union> set W' = set R \<union> set W" using mset_eq_setD [OF T(4)] by simp
  then have "kernel_inv ThreadMode F t R' W'"
    by (rule kernel_inv_steady [OF inv steady_pendsv [OF T(1)] T(2)]) (use T(3) in simp_all)
  then show ?thesis using T(1) by (intro goes_onI) simp_all
qed

text \<open>Interrupts and devices, in any mode.\<close>

lemma perform_timer:
  assumes inv: "kernel_inv m F s R W"
  shows "goes_on (perform call TimerInterrupt (m, F, s))"
proof -
  show ?thesis
  proof (cases rule: tim3_isr_cases [of s])
    case (quiet u)
    with kernel_inv_dev [OF inv quiet(2)] show ?thesis by (intro goes_onI) simp_all
  next
    case (expired u)
    from kernel_inv_dev [OF inv expired(2)] obtain q t R' W' where "wakeup_pid (pid_of_sleeping_task s) u = Inr (q, t)" "kernel_inv m F t R' W'"
      by (rule kernel_inv_wakeup)
    with expired(1) show ?thesis by (intro goes_onI) simp_all
  qed
qed

lemma perform_devices:
  assumes inv: "kernel_inv m F s R W"
  shows "goes_on (perform call (Devices r i d) (m, F, s))"
proof -
  let ?t = "s\<lparr>mmio := r, inputs := i, drv := (drv s)\<lparr>dma_interrupt_action := d\<rparr>\<rparr>"
  have f: "dev_frame s ?t" by (simp add: dev_frame_def)
  have "kernel_inv m F ?t R W" by (rule kernel_inv_dev [OF inv f])
  then show ?thesis by (intro goes_onI) simp_all
qed

lemma perform_compute:
  assumes inv: "kernel_inv m F s R W" and c: "length (r4_11 c) = 8"
  shows "goes_on (perform call (Compute c mm) (m, F, s))"
proof -
  have "kernel_inv m F (s\<lparr>cpu := c, mem := mm\<rparr>) R W"
    by (rule kernel_inv_same [OF inv]) (use c in \<open>simp_all add: same_queues_def steady_def\<close>)
  then show ?thesis by (intro goes_onI) simp_all
qed

text \<open>The two functions the kernel itself passes to \<open>execute_priviledged\<close> are harmless.\<close>

lemma priv_call_harmless:
  assumes "a = enable_exti_addr (syms s) OR 1 \<or> a = enable_adc_addr (syms s) OR 1 \<or> callable other a s"
  shows "\<exists>t. priv_call other a s = Inr t \<and> harmless s t"
proof -
  have "dev_frame s (enable_nvic_interrupt n s)" for n
    unfolding enable_nvic_interrupt_def by (intro dev_frame_bus bus_frame_intros)
  with assms show ?thesis
    by (auto simp: priv_call_def callable_def enable_cpu_interrupt_exti_def enable_cpu_interrupt_adc_def intro: harmless_dev)
qed

text \<open>The supervisor call \<open>execPriv\<close>.\<close>

lemma exec_priv:
  assumes l: "length (r4_11 (cpu s)) = 8"
    and v: "v OR 1 \<in> {enable_exti_addr (syms s) OR 1, enable_adc_addr (syms s) OR 1} \<or>
      callable call (v OR 1) (entered (svcall_param (trap_number execPriv) v s))"
  obtains u where "trap call (svcall_param (trap_number execPriv) v s) = Inr (restore_psp u)"
    "harmless (entered (svcall_param (trap_number execPriv) v s)) u"
    "priv_call call (v OR 1) (entered (svcall_param (trap_number execPriv) v s)) = Inr u"
proof -
  define s1 where "s1 = entered (svcall_param (trap_number execPriv) v s)"
  have s1: "r4_11 (cpu s1) ! 2 = trap_number execPriv" "r4_11 (cpu s1) ! 5 = v" "syms s1 = syms s"
    using l by (simp_all add: s1_def entered_sel svcall_param_def) (simp add: entered_def save_psp_if_threadmode_def svcall_param_def)
  have "v OR 1 = enable_exti_addr (syms s1) OR 1 \<or> v OR 1 = enable_adc_addr (syms s1) OR 1 \<or> callable call (v OR 1) s1"
    using v unfolding s1_def [symmetric] s1(3) by auto
  from priv_call_harmless [OF this] obtain u where u: "priv_call call (v OR 1) s1 = Inr u" "harmless s1 u" by blast
  have "trap call (svcall_param (trap_number execPriv) v s) = Inr (restore_psp u)"
    unfolding trap_entered [where s = "svcall_param (trap_number execPriv) v s", folded s1_def, unfolded s1(1), of call] using u(1) s1(2) by simp
  then show ?thesis using u(2,1) unfolding s1_def by (rule that)
qed

text \<open>The supervisor calls that are answered at once.\<close>

lemma perform_answered:
  assumes inv: "kernel_inv m F s R W" and e: "enabled call (SupervisorCall c v) (m, F, s)"
  shows "goes_on (perform call (SupervisorCall c v) (m, F, s))"
proof -
  define s1 where "s1 = entered (svcall_param (trap_number c) v s)"
  have "kernel_inv m F (svcall_param (trap_number c) v s) R W"
    by (rule kernel_inv_same [OF inv steady_cpu(4)]) (simp_all add: svcall_param_def same_queues_def)
  then have inv1: "kernel_inv m F s1 R W" unfolding s1_def by (rule entered_inv)
  have n: "r4_11 (cpu s1) ! 2 = trap_number c"
    using kernel_invD(5) [OF inv] by (simp add: s1_def entered_sel svcall_param_def)
  note run = trap_entered [where s = "svcall_param (trap_number c) v s", folded s1_def, unfolded n, of call]
  have restore: "kernel_inv m F (restore_psp u) R' W'" "kernel_inv m F (restore_psp_if_threadmode u) R' W'"
    if "kernel_inv m F u R' W'" for u R' W'
  proof -
    show "kernel_inv m F (restore_psp u) R' W'"
      by (rule kernel_inv_same [OF that steady_restore(1)]) (simp_all add: restore_psp_def same_queues_def)
    with that show "kernel_inv m F (restore_psp_if_threadmode u) R' W'" by (simp add: restore_psp_if_threadmode_def)
  qed
  have go: "goes_on (perform call (SupervisorCall c v) (m, F, s))"
    if "trap call (svcall_param (trap_number c) v s) = Inr t" "kernel_inv m F t R' W'" for t R' W'
    using that by (intro goes_onI) simp_all
  have bus: "kernel_inv m F (if SYSTICK s1 then ST_DISABLE s1 else s1) R W" "kernel_inv m F (if SYSTICK s1 then ST_ENABLE s1 else s1) R W"
    using inv1 kernel_inv_same [OF inv1 steady_bus(4)] kernel_inv_same [OF inv1 steady_bus(3)]
    by (simp_all add: ST_DISABLE_def ST_ENABLE_def same_queues_def)
  have irq: "kernel_inv m F (disable_irq s1) R W" "kernel_inv m F (enable_irq s1) R W"
    using kernel_inv_same [OF inv1 steady_cpu(1)] kernel_inv_same [OF inv1 steady_cpu(2)]
    by (simp_all add: disable_irq_def enable_irq_def same_queues_def)
  from e consider "c = svc_std" | "c = svc_ste" | "c = setExtIoCallback" | "c = wakeupPid" | "c = getIoBuffer"
    | "c = wakeupIoHandler" | "c = disableIrReception" | "c = enableIrReception"
    | "c = execPriv" "v OR 1 \<in> {enable_exti_addr (syms s) OR 1, enable_adc_addr (syms s) OR 1} \<or>
        callable call (v OR 1) (entered (svcall_param (trap_number execPriv) v s))" by (auto simp: s1_def)
  then show ?thesis
  proof cases
    case 1
    then show ?thesis using run by (intro go [OF _ restore(1) [OF bus(1)]]) simp
  next
    case 2
    then show ?thesis using run by (intro go [OF _ restore(1) [OF bus(2)]]) simp
  next
    case 3
    have "rx_room ((io s1)\<lparr>io_handler := r4_11 (cpu s1) ! 5\<rparr>)" using kernel_invD(7) [OF inv1] by (simp add: rx_room_def)
    from restore(1) [OF kernel_inv_io [OF inv1 this]] 3 run show ?thesis by (intro go) simp_all
  next
    case 4
    from inv1 obtain p w R' W' where w: "wakeup_pid (r4_11 (cpu s1) ! 5) s1 = Inr (p, w)" "kernel_inv m F w R' W'"
      by (rule kernel_inv_wakeup)
    with 4 run show ?thesis by (intro go [OF _ restore(1) [OF w(2)]]) simp
  next
    case 5
    have "kernel_inv m F (s1\<lparr>mem := st32 (r4_11 (cpu s1) ! 5) (rx_state_addr (syms s1)) (mem s1)\<rparr>) R W"
      by (rule kernel_inv_same [OF inv1 steady_upds(2)]) (simp_all add: same_queues_def)
    with 5 run show ?thesis by (intro go) simp_all
  next
    case 6
    from inv1 obtain p w R' W' where w: "wakeup_pid (pid_arg (external_io_runner_pid (kernel_pids s1))) s1 = Inr (p, w)"
      "kernel_inv m F w R' W'" by (rule kernel_inv_wakeup)
    with 6 run show ?thesis by (intro go [OF _ restore(2) [OF w(2)]]) simp
  next
    case 7
    then show ?thesis using run by (intro go [OF _ restore(1) [OF irq(1)]]) simp
  next
    case 8
    then show ?thesis using run by (intro go [OF _ restore(1) [OF irq(2)]]) simp
  next
    case 9
    from exec_priv [OF kernel_invD(5) [OF inv] 9(2)] obtain u where
      u: "trap call (svcall_param (trap_number c) v s) = Inr (restore_psp u)" "harmless s1 u" unfolding 9(1) s1_def by blast
    show ?thesis by (rule go [OF u(1) restore(1) [OF kernel_inv_harmless [OF inv1 u(2)]]])
  qed
qed

text \<open>The call that prints, with the transmitter ready, ends in a switch.\<close>

lemma perform_message:
  assumes inv: "kernel_inv m F s R W" and r: "transmitter_ready s"
  shows "goes_on (perform call (Message a) (m, F, s))"
proof -
  let ?s1 = "entered (uprint a s)"
  have "kernel_inv m F (uprint a s) R W"
    unfolding uprint_def by (rule kernel_inv_same [OF inv steady_cpu(4)]) (simp_all add: svcall_param_def same_queues_def)
  then have inv1: "kernel_inv m F ?s1 R W" by (rule entered_inv)
  have "transmitter_ready ?s1" using r by (simp add: transmitter_ready_def entered_sel uprint_def svcall_param_def)
  then obtain t where k: "kprint ?s1 = Inr t" "bus_frame ?s1 t" unfolding kprint_def Let_def by (rule print_when_ready)
  from kernel_inv_bus [OF inv1 k(2)] obtain u where u: "yield_case t = Inr u" "kernel_inv SwitchPending F u R W"
    by (rule kernel_inv_yield_case)
  have "r4_11 (cpu (uprint a s)) ! 2 = trap_number printMsg"
    using kernel_invD(5) [OF inv] by (simp add: uprint_def svcall_param_def)
  then have "trap call (uprint a s) = Inr u" using k(1) u(1) by (simp add: trap_entered entered_sel)
  with u(2) show ?thesis by (intro goes_onI) simp_all
qed

lemma perform_serial:
  assumes inv: "kernel_inv m F s R W" and r: "serial_ready s"
  shows "goes_on (perform call SerialInterrupt (m, F, s))"
proof -
  from inv r obtain t R' W' where "uart_isr_handler s = Inr t" "kernel_inv m F t R' W'" by (rule kernel_inv_serial)
  then show ?thesis by (intro goes_onI) simp_all
qed

text \<open>The other interrupts.\<close>

lemma harmless_refl: "harmless s s"
  by (simp add: harmless_def)

lemma dma_dev: "dev_frame s (dma2_stream5_ir_handler s)" for s :: kernel
proof -
  obtain v s1 where r: "READ_REGISTER (Dma2BaseAdress OR 4) s = (v, s1)" by fastforce
  have d: "dev_frame s1 (set_dma_action a s1)" for a by (simp add: dev_frame_def set_dma_action_def)
  show ?thesis
    unfolding dma2_stream5_ir_handler_def r Let_def prod.case
    by (intro dev_frame_trans [OF dev_frame_bus [OF READ_bus [OF r]]] dev_frame_trans [OF _ dev_frame_bus [OF bus_frame_MODIFY [OF bus_frame_refl]]])
       (simp add: d dev_frame_bus [OF bus_frame_refl])
qed

text \<open>Each handler of an external line calls the function that is registered for its line, and no other entry is read.\<close>

lemma exti_isr_registered:
  assumes "line_handler k s = Some h" "h \<noteq> NULL"
  shows "exti_isr call (int k) s = call h s"
  using assms by (auto simp: exti_isr_def line_handler_def rd_in split: if_splits)

lemma run_isr_registered:
  assumes r: "registered i s = Some h" and h: "h \<noteq> NULL"
  shows "run_isr call i s = call h s"
proof (cases i)
  case IsrExti0
  then have "line_handler 0 s = Some h" using r by simp
  from exti_isr_registered [OF this h, of call] IsrExti0 show ?thesis by (simp add: exti0_isr_handler_def)
next
  case IsrExti1
  then have "line_handler 1 s = Some h" using r by simp
  from exti_isr_registered [OF this h, of call] IsrExti1 show ?thesis by (simp add: exti1_isr_handler_def)
next
  case IsrExti2
  then have "line_handler 2 s = Some h" using r by simp
  from exti_isr_registered [OF this h, of call] IsrExti2 show ?thesis by (simp add: exti2_isr_handler_def)
next
  case IsrExti3
  then have "line_handler 3 s = Some h" using r by simp
  from exti_isr_registered [OF this h, of call] IsrExti3 show ?thesis by (simp add: exti3_isr_handler_def)
next
  case IsrExti4
  then have "line_handler 4 s = Some h" using r by simp
  from exti_isr_registered [OF this h, of call] IsrExti4 show ?thesis by (simp add: exti4_isr_handler_def)
next
  case IsrExti9_5
  then have "line_handler 5 s = Some h" using r by simp
  from exti_isr_registered [OF this h, of call] IsrExti9_5 show ?thesis by (simp add: exti9_5_isr_handler_def)
qed (use r h in \<open>simp_all add: adc_isr_handler_def\<close>)

lemma vector_harmless:
  assumes "enabled call (Vector i) (x, F, s)"
  obtains t where "run_isr call i s = Inr t" "harmless s t"
proof -
  from assms consider "i = IsrSysTick" | "i = IsrDma2Stream5" | h where "registered i s = Some h" "h \<noteq> NULL" "callable call h s"
    by (auto split: option.splits)
  then show ?thesis
  proof cases
    case 1
    with that harmless_refl show ?thesis by (simp add: systick_isr_def)
  next
    case 2
    with that harmless_dev [OF dma_dev] show ?thesis by simp
  next
    case (3 h)
    with that run_isr_registered [OF 3(1,2), of call] show ?thesis by (auto simp: callable_def)
  qed
qed

text \<open>The table of the external lines, and what is registered there.\<close>

lemma link_runs:
  assumes "length (exti_isr_handler (io s)) = 6"
  obtains i g' t where "bus_frame (s\<lparr>io := i\<rparr>) t" "rx_room (io s) \<longrightarrow> rx_room i"
    "link_exti_src cb g s = Inr (g', execute_priviledged (enable_exti_addr (syms t)) t)"
    "pin g < 10 \<longrightarrow> exti_isr_handler i = (exti_isr_handler (io s))[exti_line (pin g) := cb]"
proof (cases "pin g < 10")
  case True
  let ?i = "(io s)\<lparr>exti_pos_vector_table := exti_irq_number (pin g), exti_isr_handler := (exti_isr_handler (io s))[exti_line (pin g) := cb]\<rparr>"
  obtain g' t where "bus_frame (s\<lparr>io := ?i\<rparr>) t" "link_exti_src cb g s = Inr (g', execute_priviledged (enable_exti_addr (syms t)) t)"
    using assms True by (rule link_exti_src_run)
  then show ?thesis by (intro that [of ?i]) (simp_all add: rx_room_def)
next
  case False
  then have "10 \<le> pin g" by (simp add: not_less)
  then obtain g' t where "bus_frame s t" "link_exti_src cb g s = Inr (g', execute_priviledged (enable_exti_addr (syms t)) t)"
    by (rule link_exti_src_other)
  then show ?thesis using False by (intro that [of "io s"]) simp_all
qed

text \<open>One of the kernel's own two functions is run in handler mode.\<close>

lemma own_priv:
  assumes inv: "kernel_inv m F s R W" and a: "a = enable_exti_addr (syms s) \<or> a = enable_adc_addr (syms s)"
  obtains u where "trap call (execute_priviledged a s) = Inr (restore_psp u)" "harmless (entered (execute_priviledged a s)) u"
    "kernel_inv m F (restore_psp u) R W" "io (restore_psp u) = io s"
proof -
  have "a OR 1 \<in> {enable_exti_addr (syms s) OR 1, enable_adc_addr (syms s) OR 1} \<or>
      callable call (a OR 1) (entered (svcall_param (trap_number execPriv) a s))" using a by auto
  with kernel_invD(5) [OF inv] obtain u where u: "trap call (execute_priviledged a s) = Inr (restore_psp u)"
    "harmless (entered (execute_priviledged a s)) u" "priv_call call (a OR 1) (entered (execute_priviledged a s)) = Inr u"
    unfolding execute_priviledged_def by (rule exec_priv)
  have "kernel_inv m F (execute_priviledged a s) R W"
    unfolding execute_priviledged_def by (rule kernel_inv_same [OF inv steady_cpu(4)]) (simp_all add: svcall_param_def same_queues_def)
  from kernel_inv_harmless [OF entered_inv [OF this] u(2)] have "kernel_inv m F (restore_psp u) R W"
    by (rule kernel_inv_same [OF _ steady_restore(1)]) (simp_all add: restore_psp_def same_queues_def)
  moreover have "io (entered (execute_priviledged a s)) = io s" "syms (entered (execute_priviledged a s)) = syms s"
    by (simp_all add: entered_def save_psp_if_threadmode_def execute_priviledged_def svcall_param_def)
  then have "io (restore_psp u) = io s"
    using u(3) a by (auto simp: priv_call_def enable_cpu_interrupt_exti_def enable_cpu_interrupt_adc_def enable_nvic_interrupt_def
      restore_psp_def split: if_splits)
  ultimately show ?thesis using u(1,2) by (intro that)
qed

lemma link_line:
  assumes inv: "kernel_inv m F s R W" and l: "length (exti_isr_handler (io s)) = 6"
  obtains u where "perform call (LinkLine cb g) (m, F, s) = Inr (m, F, u)" "kernel_inv m F u R W"
    "pin g < 10 \<longrightarrow> exti_isr_handler (io u) = (exti_isr_handler (io s))[exti_line (pin g) := cb]"
proof -
  from l obtain i g' t where L: "bus_frame (s\<lparr>io := i\<rparr>) t" "rx_room (io s) \<longrightarrow> rx_room i"
    "link_exti_src cb g s = Inr (g', execute_priviledged (enable_exti_addr (syms t)) t)"
    "pin g < 10 \<longrightarrow> exti_isr_handler i = (exti_isr_handler (io s))[exti_line (pin g) := cb]"
    by (rule link_runs [where cb = cb and g = g])
  have "rx_room i" using L(2) kernel_invD(7) [OF inv] by blast
  from kernel_inv_bus [OF kernel_inv_io [OF inv this] L(1)] obtain u where
    u: "trap call (execute_priviledged (enable_exti_addr (syms t)) t) = Inr (restore_psp u)" "kernel_inv m F (restore_psp u) R W"
      "io (restore_psp u) = io t"
    by (rule own_priv [where a = "enable_exti_addr (syms t)" and call = call]) simp
  have "io t = i" using dev_frame_kernel(12) [OF dev_frame_bus [OF L(1)]] by simp
  with L(4) u(3) have "pin g < 10 \<longrightarrow> exti_isr_handler (io (restore_psp u)) = (exti_isr_handler (io s))[exti_line (pin g) := cb]" by simp
  then show ?thesis
    by (intro that [OF _ u(2)]) (simp_all only: perform.simps L(3) u(1) bnd_simps prod.case)
qed

lemma perform_lines:
  assumes inv: "kernel_inv m F s R W"
  shows "goes_on (perform call InitLines (m, F, s))"
    and "length (exti_isr_handler (io s)) = 6 \<Longrightarrow> goes_on (perform call (LinkLine cb g) (m, F, s))"
    and "goes_on (perform call (LinkConverter cb) (m, F, s))"
proof -
  note rx = kernel_invD(7) [OF inv]
  have "kernel_inv m F (init_exti_isr_handling s) R W"
    unfolding init_exti_isr_handling_def by (rule kernel_inv_io [OF inv]) (use rx in \<open>simp add: rx_room_def\<close>)
  then show "goes_on (perform call InitLines (m, F, s))" by (intro goes_onI) simp_all
  show "goes_on (perform call (LinkLine cb g) (m, F, s))" if "length (exti_isr_handler (io s)) = 6"
    using inv that by (rule link_line [where call = call and cb = cb and g = g]) (rule goes_onI)
  let ?s1 = "s\<lparr>io := (io s)\<lparr>adc_isr_callback := cb, adc_pos_vector_table := 18\<rparr>\<rparr>"
  have "kernel_inv m F ?s1 R W" by (rule kernel_inv_io [OF inv]) (use rx in \<open>simp add: rx_room_def\<close>)
  then obtain u where u: "trap call (execute_priviledged (enable_adc_addr (syms s)) ?s1) = Inr (restore_psp u)" "kernel_inv m F (restore_psp u) R W"
    by (rule own_priv [where a = "enable_adc_addr (syms s)" and call = call]) simp
  show "goes_on (perform call (LinkConverter cb) (m, F, s))"
    by (rule goes_onI [OF _ u(2)]) (simp only: perform.simps link_adc_src_def u(1) bnd_simps)
qed

lemma perform_vector:
  assumes inv: "kernel_inv m F s R W" and e: "enabled call (Vector i) (m, F, s)"
  shows "goes_on (perform call (Vector i) (m, F, s))"
proof -
  from e obtain t where "run_isr call i s = Inr t" "harmless s t" by (rule vector_harmless)
  with kernel_inv_harmless [OF inv] show ?thesis by (intro goes_onI) simp_all
qed

text \<open>The calls that return to their caller.\<close>

lemma perform_memory:
  assumes inv: "kernel_inv ThreadMode F s R W"
  shows "table_room n s \<Longrightarrow> goes_on (perform call (Allocate n) (ThreadMode, F, s))"
    and "a \<in> F \<Longrightarrow> goes_on (perform call (Deallocate a) (ThreadMode, F, s))"
    and "goes_on (perform call CleanUp (ThreadMode, F, s))"
    and "alloc_room s 5 1688 \<Longrightarrow> ram = 0 \<or> ram \<in> F \<Longrightarrow> goes_on (perform call (Create fn ram loc) (ThreadMode, F, s))"
    and "\<not> svc_pending (cpu s) \<Longrightarrow> goes_on (perform call (Join p) (ThreadMode, F, s))"
proof -
  show "goes_on (perform call (Allocate n) (ThreadMode, F, s))" if "table_room n s"
  proof -
    from inv that obtain p t where "allocate n s = Inr (p, t)" "kernel_inv ThreadMode (if p = NULL then F else insert p F) t R W"
      by (rule kernel_inv_allocate)
    note T = this
    show ?thesis by (rule goes_onI [OF _ T(2)]) (simp only: perform.simps T(1) bnd_simps prod.case)
  qed
  show "goes_on (perform call (Deallocate a) (ThreadMode, F, s))" if "a \<in> F"
  proof -
    from inv that obtain r t where T: "deallocate a s = Inr (r, t)" "kernel_inv ThreadMode (F - {a}) t R W"
      by (rule kernel_inv_deallocate)
    show ?thesis by (rule goes_onI [OF _ T(2)]) (simp only: perform.simps T(1) bnd_simps prod.case)
  qed
  show "goes_on (perform call CleanUp (ThreadMode, F, s))"
  proof -
    from inv obtain t R' where T: "search_invalidate_tasks s = Inr t" "kernel_inv ThreadMode F t R' W"
      by (rule kernel_inv_clean_up)
    show ?thesis by (rule goes_onI [OF _ T(2)]) (simp only: perform.simps T(1) bnd_simps)
  qed
  show "goes_on (perform call (Create fn ram loc) (ThreadMode, F, s))" if "alloc_room s 5 1688" "ram = 0 \<or> ram \<in> F"
  proof -
    from inv that obtain p t n R' W' where T: "create_task fn ram loc s = Inr (p, t)" "kernel_inv ThreadMode (F - {ram}) t R' W'"
      by (rule kernel_inv_create)
    show ?thesis by (rule goes_onI [OF _ T(2)]) (simp only: perform.simps T(1) bnd_simps prod.case)
  qed
  show "goes_on (perform call (Join p) (ThreadMode, F, s))" if "\<not> svc_pending (cpu s)"
    by (rule goes_onI [OF _ inv]) (simp add: join_task_returns [OF kernel_invD(1) [OF inv]] that)
qed

text \<open>Whatever can happen, the kernel goes on.\<close>

lemma perform_ok:
  assumes "config_ok c" "enabled call e c"
  shows "goes_on (perform call e c)"
proof -
  obtain x F s where c: "c = (x, F, s)" by (cases c) auto
  from assms(1) obtain R W where inv: "kernel_inv x F s R W" by (auto simp: config_ok_def c)
  show ?thesis
  proof (cases e)
    case Block
    then have "x = ThreadMode" using assms(2) c by simp
    then show ?thesis using block_then_trap inv Block c by simp
  next
    case (Compute r m)
    then show ?thesis using perform_compute [OF inv] assms(2) c by simp
  next
    case Yield
    then show ?thesis using perform_yield [OF inv] c by simp
  next
    case TimerInterrupt
    then show ?thesis using perform_timer [OF inv] c by simp
  next
    case Switch
    then show ?thesis using perform_switch [OF inv] c by simp
  next
    case (Devices r i d)
    then show ?thesis using perform_devices [OF inv] c by simp
  next
    case (Message a)
    then have "x = ThreadMode" using assms(2) c by simp
    then show ?thesis using perform_message [OF inv] assms(2) Message c by simp
  next
    case SerialInterrupt
    then show ?thesis using perform_serial [OF inv] assms(2) c by simp
  next
    case (Vector i)
    then show ?thesis using perform_vector [OF inv] assms(2) c by simp
  next
    case InitLines
    then show ?thesis using perform_lines(1) [OF inv] c by simp
  next
    case (LinkLine cb g)
    then show ?thesis using perform_lines(2) [OF inv] assms(2) c by simp
  next
    case (LinkConverter cb)
    then show ?thesis using perform_lines(3) [OF inv] c by simp
  next
    case (SupervisorCall a v)
    then show ?thesis using perform_answered [OF inv] assms(2) c by blast
  next
    case (Sleep d)
    then have "x = ThreadMode" using assms(2) c by simp
    then show ?thesis using perform_sleep inv Sleep c by blast
  next
    case Finish
    then have "x = ThreadMode" using assms(2) c by simp
    then show ?thesis using perform_finish inv Finish c assms(2) by simp
  next
    case HardFault
    then have "x = ThreadMode" using assms(2) c by simp
    then show ?thesis using perform_hardfault inv HardFault c assms(2) by simp
  next
    case UsageFault
    then have "x = ThreadMode" using assms(2) c by simp
    then show ?thesis using perform_usage_fault inv UsageFault c assms(2) by simp
  next
    case (Join p)
    then have "x = ThreadMode" using assms(2) c by simp
    then show ?thesis using perform_memory(5) inv Join c assms(2) by simp
  next
    case (Create fn ram loc)
    then have "x = ThreadMode" using assms(2) c by simp
    then show ?thesis using perform_memory(4) inv Create c assms(2) by simp
  next
    case (Allocate n)
    then have "x = ThreadMode" using assms(2) c by simp
    then show ?thesis using perform_memory(1) inv Allocate c assms(2) by simp
  next
    case (Deallocate a)
    then have "x = ThreadMode" using assms(2) c by simp
    then show ?thesis using perform_memory(2) inv Deallocate c assms(2) by simp
  next
    case CleanUp
    then have "x = ThreadMode" using assms(2) c by simp
    then show ?thesis using perform_memory(3) inv CleanUp c by simp
  qed
qed

lemma reachable_ok: "reachable call c0 c \<Longrightarrow> config_ok c0 \<Longrightarrow> config_ok c"
proof (induction rule: reachable.induct)
  case (event c e c')
  then show ?case using perform_ok [of c call e] by (auto simp: goes_on_def)
qed

section \<open>From the start of the system\<close>

text \<open>The configuration in which the first supervisor call leaves the core.\<close>

lemma start_ok:
  assumes "layout_ok (syms s0)" "length (r4_11 (cpu s0)) = 8" "3 < length (timer_configurations (drv s0))"
    and run: "bootstrap call hwfp loc j1 j2 s0 = Inr s1" "svcall_isr call s1 = Inr s2"
  shows "config_ok (ThreadMode, {}, s2)" "alloc_room s2 40 40960" "\<exists>n. kernel_inv ThreadMode {} s2 [n] []"
proof -
  from assms(1-3) obtain t1 t2 n stk where B: "bootstrap call hwfp loc j1 j2 s0 = Inr t1" "svcall_isr call t1 = Inr t2"
    "sched_ok t2 [n] []" "currently_running t2 = n" "pid (task t2 n) = 0"
    "starts_at t2 (idle_runner_addr (syms s0)) (finish_task_addr (syms s0))"
    "task_to_preserve t2 = n" "ready t2 n" "idle_task (kernel_pids t2) = 0" "alloc_room t2 40 40960"
    "\<not> is_external (task t2 n)" "stacksection_lower_bound (task t2 n) = stk" "is_slist t2 (child_tasks (task t2 n)) []"
    "{n, tdata (nodes t2 n), child_tasks (task t2 n)} \<subseteq> fst ` live t2" "\<exists>k\<ge>1600. (stk, k) \<in> live t2"
    "uart_rx_buffer (io t2) = replicate 4 0" "bytes_received (io t2) = 0"
    by (rule bootstrap_ok [where call = call and hwfp = hwfp and loc = loc and ?j1.0 = j1 and ?j2.0 = j2])
  have e: "t2 = s2" using B(1,2) run by simp
  note B = B [unfolded e]
  have a: "alloc_inv s2" "mutex s2 \<noteq> 1" using B(10) by (simp_all add: alloc_room_def)
  have "stk \<in> fst ` live s2" using B(15) by force
  then have "owned s2 n \<subseteq> fst ` live s2"
    using B(11,12,14) kids_eq [OF B(13)] by (simp add: owned_def chunks_of_def)
  then have "heap_ok s2 (set [n] \<union> set []) {}" using a B(12,13,15) by (auto simp: heap_ok_def)
  moreover have "proper s2 n" using B(5,8) by (simp add: proper_def ended_def ready_def)
  moreover have "length (r4_11 (cpu s2)) = 8" using B(6) by (simp add: starts_at_def)
  ultimately have "kernel_inv ThreadMode {} s2 [n] []"
    using B(3-5,7-9,16,17) by (simp add: kernel_inv_def has_idle_def selected_def rx_room_def)
  then show "config_ok (ThreadMode, {}, s2)" "\<exists>n. kernel_inv ThreadMode {} s2 [n] []" by (auto simp: config_ok_def)
  show "alloc_room s2 40 40960" by (rule B(10))
qed

text \<open>
  C2. From reset, through any sequence of calls, faults of tasks, interrupts, device activity and
  context switches, taken in any order, every event that can come next returns: none dereferences NULL,
  indexes out of bounds or spins.  What can come next is what \<open>enabled\<close> says.  Calls come in thread mode, and a
  computation of the running task keeps eight saved registers.  A task is created while the memory table has room
  for its five chunks, and 1 to 32760 bytes are allocated while there is room for them; what is released, or handed over as
  the code of a new task, is an address the programs own.  The idle task (pid 0) neither ends nor faults;
  \<open>join_task\<close> finds no supervisor call pending.  What prints finds the transmitter ready; the serial interrupt finds its
  pointer as start-up has set it and does not complete the command REBOOT.  An external line is linked after the
  table has been set up, and its interrupt, like that of the converter, comes once a function other than NULL is
  registered there; that function, like one of the programs that \<open>execPriv\<close> runs, returns and leaves the kernel's structures alone (\<open>harmless\<close>).
\<close>
theorem kernel_never_faults:
  assumes "layout_ok (syms s0)" "length (r4_11 (cpu s0)) = 8" "3 < length (timer_configurations (drv s0))"
    and "bootstrap call hwfp loc j1 j2 s0 = Inr s1" "svcall_isr call s1 = Inr s2"
    and "reachable call (ThreadMode, {}, s2) c" "enabled call e c"
  shows "\<exists>c'. perform call e c = Inr c'"
proof -
  have "goes_on (perform call e c)"
    by (rule perform_ok [OF reachable_ok [OF assms(6) start_ok(1) [OF assms(1-5)]] assms(7)])
  then show ?thesis unfolding goes_on_def by blast
qed

lemma zero_kernel_boots:
  "layout_ok (syms zero_kernel)" "length (r4_11 (cpu zero_kernel)) = 8" "3 < length (timer_configurations (drv zero_kernel))"
  by (simp_all add: layout_ok_def heap_start_def zero_kernel_def max_def)

lemma zero_kernel_starts:
  obtains s1 s2 where "bootstrap (\<lambda>a. Inr) False 0x20000800 0 0 zero_kernel = Inr s1" "svcall_isr (\<lambda>a. Inr) s1 = Inr s2"
  using zero_kernel_boots
  by (rule bootstrap_ok [where call = "\<lambda>a. Inr" and hwfp = False and loc = "0x20000800" and ?j1.0 = 0 and ?j2.0 = 0])

text \<open>
  The idle task sets the table up and links a function to pin 7; the interrupt of the line comes and calls it; the
  task yields, the switch comes.
\<close>

theorem kernel_never_faults_witness:
  "\<exists>s1 s2 s3 s4 c5 c6 c7. bootstrap (\<lambda>a. Inr) False 0x20000800 0 0 zero_kernel = Inr s1 \<and> svcall_isr (\<lambda>a. Inr) s1 = Inr s2 \<and>
     perform (\<lambda>a. Inr) InitLines (ThreadMode, {}, s2) = Inr (ThreadMode, {}, s3) \<and>
     perform (\<lambda>a. Inr) (LinkLine 0x08001001 \<lparr>port = 66, pin = 7, base_adress = 0, gpio_regs = 0\<rparr>) (ThreadMode, {}, s3) = Inr (ThreadMode, {}, s4) \<and>
     perform (\<lambda>a. Inr) (Vector IsrExti9_5) (ThreadMode, {}, s4) = Inr c5 \<and>
     perform (\<lambda>a. Inr) Yield (ThreadMode, {}, s4) = Inr c6 \<and> perform (\<lambda>a. Inr) Switch c6 = Inr c7"
proof -
  let ?call = "\<lambda>a. Inr :: kernel \<Rightarrow> kernel res" let ?g = "\<lparr>port = 66, pin = 7, base_adress = 0, gpio_regs = 0\<rparr>"
  obtain s1 s2 where s: "bootstrap ?call False 0x20000800 0 0 zero_kernel = Inr s1" "svcall_isr ?call s1 = Inr s2"
    by (rule zero_kernel_starts)
  note never = kernel_never_faults [OF zero_kernel_boots s]
  let ?s3 = "init_exti_isr_handling s2"
  have p3: "perform ?call InitLines (ThreadMode, {}, s2) = Inr (ThreadMode, {}, ?s3)" by simp
  have r3: "reachable ?call (ThreadMode, {}, s2) (ThreadMode, {}, ?s3)" by (rule reachable.event [OF reachable.start _ p3]) simp
  from start_ok(3) [OF zero_kernel_boots s] obtain n where inv: "kernel_inv ThreadMode {} s2 [n] []" by blast
  have "kernel_inv ThreadMode {} ?s3 [n] []"
    unfolding init_exti_isr_handling_def by (rule kernel_inv_io [OF inv]) (use kernel_invD(7) [OF inv] in \<open>simp add: rx_room_def\<close>)
  moreover have l: "length (exti_isr_handler (io ?s3)) = 6" by (simp add: init_exti_isr_handling_def)
  ultimately obtain s4 where p4: "perform ?call (LinkLine 0x08001001 ?g) (ThreadMode, {}, ?s3) = Inr (ThreadMode, {}, s4)"
    "pin ?g < 10 \<longrightarrow> exti_isr_handler (io s4) = (exti_isr_handler (io ?s3))[exti_line (pin ?g) := 0x08001001]"
    by (rule link_line [where call = ?call and cb = "0x08001001" and g = ?g])
  have r4: "reachable ?call (ThreadMode, {}, s2) (ThreadMode, {}, s4)" by (rule reachable.event [OF r3 _ p4(1)]) (use l in simp)
  have "registered IsrExti9_5 s4 = Some 0x08001001" using p4(2) l by (simp add: line_handler_def exti_line_def)
  then have "enabled ?call (Vector IsrExti9_5) (ThreadMode, {}, s4)" by (simp add: callable_def harmless_refl)
  from never [OF r4 this] obtain c5 where c5: "perform ?call (Vector IsrExti9_5) (ThreadMode, {}, s4) = Inr c5" by blast
  have e6: "enabled ?call Yield (ThreadMode, {}, s4)" by simp
  from never [OF r4 e6] obtain c6 where c6: "perform ?call Yield (ThreadMode, {}, s4) = Inr c6" by blast
  have "enabled ?call Switch c6" by (cases c6) simp
  from never [OF reachable.event [OF r4 e6 c6] this] obtain c7 where "perform ?call Switch c6 = Inr c7" by blast
  with s p3 p4(1) c5 c6 show ?thesis by blast
qed

text \<open>
  C4. In every reachable configuration the two queues are well formed and hold the idle task, the
  allocator's table is well formed, every task has a well-formed list of children, and what a task
  owns (node, control block, stack, code, list of children) is allocated, is no other task's and
  has not been given to the programs; the receive buffer has room for the next byte; in thread mode the
  selected task is READY and in the running queue.
\<close>
theorem kernel_invariant:
  assumes "layout_ok (syms s0)" "length (r4_11 (cpu s0)) = 8" "3 < length (timer_configurations (drv s0))"
    and "bootstrap call hwfp loc j1 j2 s0 = Inr s1" "svcall_isr call s1 = Inr s2"
    and "reachable call (ThreadMode, {}, s2) (x, F, s)"
  shows "\<exists>R W. sched_ok s R W \<and> has_idle s (set R \<union> set W) \<and> heap_ok s (set R \<union> set W) F \<and>
    rx_room (io s) \<and> (x = ThreadMode \<longrightarrow> selected s R)"
proof -
  from reachable_ok [OF assms(6) start_ok(1) [OF assms(1-5)]] obtain R W where "kernel_inv x F s R W"
    by (auto simp: config_ok_def)
  then show ?thesis by (intro exI [of _ R] exI [of _ W]) (auto simp: kernel_inv_def)
qed

theorem kernel_invariant_witness:
  "\<exists>s1 s2 R. bootstrap (\<lambda>a. Inr) False 0x20000800 0 0 zero_kernel = Inr s1 \<and> svcall_isr (\<lambda>a. Inr) s1 = Inr s2 \<and> selected s2 R"
proof -
  obtain s1 s2 where s: "bootstrap (\<lambda>a. Inr) False 0x20000800 0 0 zero_kernel = Inr s1" "svcall_isr (\<lambda>a. Inr) s1 = Inr s2"
    by (rule zero_kernel_starts)
  from kernel_invariant [OF zero_kernel_boots s reachable.start] s show ?thesis by blast
qed

text \<open>
  C6. The stacks of two tasks never overlap: in every reachable configuration they are disjoint
  intervals of memory, of the 1600 bytes each that \<open>create_task\<close> asks for.
\<close>
theorem task_stacks_disjoint:
  assumes "layout_ok (syms s0)" "length (r4_11 (cpu s0)) = 8" "3 < length (timer_configurations (drv s0))"
    and "bootstrap call hwfp loc j1 j2 s0 = Inr s1" "svcall_isr call s1 = Inr s2"
    and "reachable call (ThreadMode, {}, s2) (x, F, s)"
  shows "\<exists>R W. sched_ok s R W \<and> (\<forall>m\<in>set R \<union> set W. \<forall>n\<in>set R \<union> set W. m \<noteq> n \<longrightarrow>
    disjoint_chunks (stacksection_lower_bound (task s m), 1600) (stacksection_lower_bound (task s n), 1600))"
proof -
  from reachable_ok [OF assms(6) start_ok(1) [OF assms(1-5)]] obtain R W where inv: "kernel_inv x F s R W"
    by (auto simp: config_ok_def)
  note H = heap_okD [OF kernel_invD(3) [OF inv]]
  have "disjoint_chunks (stacksection_lower_bound (task s m), 1600) (stacksection_lower_bound (task s n), 1600)"
    if mn: "m \<in> set R \<union> set W" "n \<in> set R \<union> set W" "m \<noteq> n" for m n
  proof -
    from H(7) [OF mn(1)] H(7) [OF mn(2)] obtain j k where jk: "1600 \<le> j" "1600 \<le> k"
      "(stacksection_lower_bound (task s m), j) \<in> live s" "(stacksection_lower_bound (task s n), k) \<in> live s" by blast
    have "stacksection_lower_bound (task s m) \<noteq> stacksection_lower_bound (task s n)"
      using H(8) [OF mn] owned_mem(4) [of s m] owned_mem(4) [of s n] by auto
    then have "disjoint_chunks (stacksection_lower_bound (task s m), j) (stacksection_lower_bound (task s n), k)"
      by (intro live_disjoint [OF H(1) jk(3,4)]) simp
    then show ?thesis using jk(1,2) by (auto simp: disjoint_chunks_def)
  qed
  then show ?thesis using kernel_invD(1) [OF inv] by blast
qed

theorem task_stacks_disjoint_witness:
  "\<exists>s1 s2 s3 R W. bootstrap (\<lambda>a. Inr) False 0x20000800 0 0 zero_kernel = Inr s1 \<and> svcall_isr (\<lambda>a. Inr) s1 = Inr s2 \<and>
     perform (\<lambda>a. Inr) (Create 0x08001001 0 0x20000800) (ThreadMode, {}, s2) = Inr (ThreadMode, {}, s3) \<and> sched_ok s3 R W \<and>
     (\<forall>m\<in>set R \<union> set W. \<forall>n\<in>set R \<union> set W. m \<noteq> n \<longrightarrow>
        disjoint_chunks (stacksection_lower_bound (task s3 m), 1600) (stacksection_lower_bound (task s3 n), 1600))"
proof -
  obtain s1 s2 where s: "bootstrap (\<lambda>a. Inr) False 0x20000800 0 0 zero_kernel = Inr s1" "svcall_isr (\<lambda>a. Inr) s1 = Inr s2"
    by (rule zero_kernel_starts)
  note st = start_ok [OF zero_kernel_boots s]
  have e: "enabled (\<lambda>a. Inr) (Create 0x08001001 0 0x20000800) (ThreadMode, {}, s2)"
    using alloc_room_mono [OF st(2), of 5 1688] by simp
  from perform_ok [OF st(1) e] obtain x F s3 where p: "perform (\<lambda>a. Inr) (Create 0x08001001 0 0x20000800) (ThreadMode, {}, s2) = Inr (x, F, s3)"
    unfolding goes_on_def by (metis prod_cases3)
  then have xF: "x = ThreadMode" "F = {}" by (auto simp: bnd_eq_Inr)
  note p = p [unfolded xF]
  from task_stacks_disjoint [OF zero_kernel_boots s reachable.event [OF reachable.start e p]] s p show ?thesis by blast
qed

end
