(* ===== verification/Kernel_Live.thy ===== *)
theory Kernel_Live
  imports Kernel_Run
begin

text \<open>
  Progress of the whole kernel: when the tasks give up the core, every READY task gets it.
\<close>

text \<open>The switch by PendSV with a READY task after the running one: the queues stay, the task is selected.\<close>

lemma pendsv_selects:
  assumes ok: "sched_ok s R W" and a: "after R (currently_running s) xs" and d: "dma_interrupt_action (drv s) AND 1 = 0"
    and n: "find (ready s) xs = Some n" and tp: "task_to_preserve s \<in> set R \<union> set W"
  shows "\<exists>s'. pendsv_isr s = Inr s' \<and> sched_ok s' R W \<and> currently_running s' = n \<and> drv s' = drv s \<and>
    (\<forall>m. ready s' m = ready s m)"
proof -
  define s2 where "s2 = (if DEBUG (disable_irq s) \<noteq> 0
      then (disable_irq s)\<lparr>process_stats := (process_stats (disable_irq s))\<lparr>num_of_pendsv := num_of_pendsv (process_stats (disable_irq s)) + 1\<rparr>\<rparr>
      else disable_irq s)"
  have s2: "same_queues s s2" "tcbs s2 = tcbs s" "nodes s2 = nodes s" "task_to_preserve s2 = task_to_preserve s"
    "currently_running s2 = currently_running s" "drv s2 = drv s"
    by (simp_all add: s2_def disable_irq_def same_queues_def)
  let ?c = "tdata (nodes s (task_to_preserve s))"
  define s3 where "s3 = s2\<lparr>tcbs := (tcbs s)(?c := (tcbs s ?c)\<lparr>sp := psp (cpu s2)\<rparr>)\<rparr>"
  have ne: "task_to_preserve s \<noteq> NULL" "?c \<noteq> NULL" using sched_okD(5,12) [OF ok tp] by blast+
  have u: "upd_tcb_of (task_to_preserve s2) (\<lambda>t. t\<lparr>sp := psp (cpu s2)\<rparr>) s2 = Inr s3"
    using ne s2 by (simp add: upd_tcb_of_def typed_access s3_def)
  have tk: "tstate (task s3 m) = tstate (task s m)" for m using s2(3) by (simp add: task_def s3_def)
  then have rd: "ready s3 = ready s" by (simp add: ready_def fun_eq_iff)
  have ok3: "sched_ok s3 R W"
    using ok by (rule sched_ok_same) (use s2 sched_okD(7,8) [OF ok] tk in \<open>auto simp: same_queues_def s3_def\<close>)
  have cr: "currently_running s3 = currently_running s" "drv s3 = drv s" using s2(5,6) by (simp_all add: s3_def)
  define s4 where "s4 = s3\<lparr>currently_running := n, task_to_preserve := n\<rparr>"
  have sw: "switch_task s3 = Inr s4"
    unfolding s4_def by (rule switch_after [OF ok3, of xs]) (use a d n cr rd in simp_all)
  have nR: "n \<in> set R \<union> set W" using find_mem [OF n] a by (auto simp: after_def)
  have ok4: "sched_ok s4 R W" by (rule sched_ok_tcbs [OF ok3]) (simp_all add: s4_def same_queues_def)
  have tc: "tcb_of n s4 = Inr (task s4 n)" by (rule tcb_of_task [OF sched_okD(12,5) [OF ok4 nR]])
  define s' where "s' = (let s5 = enable_irq s4; s6 = s5\<lparr>cpu := (cpu s5)\<lparr>r4_11 := load_r4_11 (sp (task s4 n)) s5\<rparr>\<rparr>;
      s7 = ST_ENABLE s6 in s7\<lparr>cpu := (cpu s7)\<lparr>psp := sp (task s4 n) + 32\<rparr>\<rparr>)"
  have "currently_running s4 = n" by (simp add: s4_def)
  then have run: "pendsv_isr s = Inr s'"
    unfolding pendsv_isr_def Let_def s2_def [symmetric] u bnd_simps sw tc s'_def by (simp add: tc)
  have t': "same_queues s4 s'" "tcbs s' = tcbs s4" "currently_running s' = n"
    by (simp_all add: s'_def s4_def Let_def same_queues_def ST_ENABLE_def enable_irq_def)
  have "drv s' = drv s4"
    by (simp add: s'_def Let_def ST_ENABLE_def enable_irq_def bus_frame_kernel(2) [OF bus_frame_MODIFY [OF bus_frame_refl]])
  moreover have "ready s' m = ready s m" for m
    using t'(1,2) fun_cong [OF rd, of m] by (simp add: ready_def task_def same_queues_def s4_def)
  moreover have "sched_ok s' R W" by (rule sched_ok_tcbs [OF ok4 t'(1,2)])
  ultimately show ?thesis using run t'(3) cr(2) by (simp add: s4_def)
qed

text \<open>The running task yields, and the switch comes.\<close>

definition turn :: "(addr \<Rightarrow> kernel \<Rightarrow> kernel res) \<Rightarrow> config \<Rightarrow> config res" where
  "turn call c = bnd (perform call Yield c) (perform call Switch)"

fun turns :: "(addr \<Rightarrow> kernel \<Rightarrow> kernel res) \<Rightarrow> nat \<Rightarrow> config \<Rightarrow> config res" where
  "turns call 0 c = Inr c"
| "turns call (Suc k) c = bnd (turn call c) (turns call k)"

lemma turn_selects:
  assumes inv: "kernel_inv ThreadMode F s R W" and a: "after R (currently_running s) xs"
    and d: "dma_interrupt_action (drv s) AND 1 = 0" and n: "find (ready s) xs = Some n"
  obtains s' where "turn call (ThreadMode, F, s) = Inr (ThreadMode, F, s')" "kernel_inv ThreadMode F s' R W"
    "currently_running s' = n" "drv s' = drv s" "\<forall>m. ready s' m = ready s m" "\<forall>m. pid (task s' m) = pid (task s m)"
proof -
  define s0 where "s0 = (svcall (trap_number yieldTask) s)\<lparr>cpu := (cpu (svcall (trap_number yieldTask) s))\<lparr>lr := 0xFFFFFFFD\<rparr>\<rparr>"
  have st0: "steady {} s s0" unfolding s0_def by (rule steady_trans [OF steady_cpu(3) lr_steady])
  have inv0: "kernel_inv ThreadMode F s0 R W"
    by (rule kernel_inv_same [OF inv st0]) (simp_all add: s0_def svcall_def same_queues_def)
  note D = kernel_invD [OF inv0]
  have s0: "r4_11 (cpu s0) ! 2 = trap_number yieldTask" "currently_running s0 = currently_running s" "drv s0 = drv s"
    "\<And>m. ready s0 m = ready s m"
    using kernel_invD(5) [OF inv] by (simp_all add: s0_def svcall_def ready_def task_def)
  from yield_total [OF D(1) at_point_switch(1) [OF D(6)] D(2) s0(1)] obtain t where t: "svcall_isr (priv_call call) s0 = Inr t"
    "sched_ok t R W" "currently_running t = currently_running s0" "task_to_preserve t = task_to_preserve s0"
    "drv t = drv s0" "\<forall>m. ready t m = ready s0 m" by blast
  have at: "at_point SwitchPending t R W" using t(3,4) at_point_switch [OF D(6)] by simp
  have invt: "kernel_inv SwitchPending F t R W"
    by (rule kernel_inv_steady [OF inv0 steady_yield [OF t(1) s0(1)] t(2) refl at]) simp
  have at': "after R (currently_running t) xs" "dma_interrupt_action (drv t) AND 1 = 0" "find (ready t) xs = Some n"
    "task_to_preserve t \<in> set R \<union> set W"
    using a d n t(3,5,6) s0 at by (simp_all cong: find_cong)
  from pendsv_selects [OF t(2) at'] obtain s' where P: "pendsv_isr t = Inr s'" "sched_ok s' R W" "currently_running s' = n"
    "drv s' = drv t" "\<forall>m. ready s' m = ready t m" by blast
  from pendsv_total [OF t(2) at_point_switch(1) [OF at] kernel_invD(2) [OF invt] at'(4)] P(1) have "task_to_preserve s' = n"
    using P(3) by (auto simp: selected_def)
  moreover have "n \<in> set R" "ready s n" using find_mem [OF n] a by (auto simp: after_def)
  ultimately have "at_point ThreadMode s' R W" using P(3,5) t(6) s0(4) by (simp add: selected_def)
  then have "kernel_inv ThreadMode F s' R W"
    by (rule kernel_inv_steady [OF invt steady_pendsv [OF P(1)] P(2) refl]) simp
  moreover have "turn call (ThreadMode, F, s) = Inr (ThreadMode, F, s')"
    using t(1) P(1) by (simp add: turn_def trap_def s0_def)
  moreover have "pid (task s' m) = pid (task s m)" for m
    using steady_tasks(7) [OF steady_trans [OF steady_trans [OF st0 steady_yield [OF t(1) s0(1)]] steady_pendsv [OF P(1)]]] .
  ultimately show ?thesis using P(3-5) t(5,6) s0 by (intro that [of s']) simp_all
qed

lemma turns_reach:
  assumes "kernel_inv ThreadMode F s R W" "after R (currently_running s) (us @ n # vs)"
    "dma_interrupt_action (drv s) AND 1 = 0" "ready s n"
  shows "\<exists>k s'. k \<le> length us + 1 \<and> turns call k (ThreadMode, F, s) = Inr (ThreadMode, F, s') \<and> currently_running s' = n"
  using assms
proof (induction "length us" arbitrary: us vs s rule: less_induct)
  case less
  show ?case
  proof (cases "\<exists>x\<in>set us. ready s x")
    case False
    then have "find (ready s) (us @ n # vs) = Some n" using less.prems(4) by (induction us) auto
    with less.prems(1-3) obtain s' where "turn call (ThreadMode, F, s) = Inr (ThreadMode, F, s')" "currently_running s' = n"
      by (rule turn_selects [where call = call])
    then show ?thesis by (intro exI [of _ 1] exI [of _ s']) simp
  next
    case True
    from find_split [OF this] obtain u1 m u2 where u: "us = u1 @ m # u2" "ready s m" "find (ready s) us = Some m"
      by blast
    have "find (ready s) (us @ n # vs) = Some m" using u(3) by (induction us) (auto split: if_splits)
    with less.prems(1-3) obtain t where T: "turn call (ThreadMode, F, s) = Inr (ThreadMode, F, t)" "kernel_inv ThreadMode F t R W"
      "currently_running t = m" "drv t = drv s" "\<forall>x. ready t x = ready s x" by (rule turn_selects [where call = call])
    have "after R m ((u2 @ n # vs) @ u1 @ [m])"
      using less.prems(2) unfolding u(1) by (intro after_step) simp
    then have "after R (currently_running t) (u2 @ n # (vs @ u1 @ [m]))" using T(3) by simp
    from less.hyps [OF _ T(2) this] obtain k s' where
      k: "k \<le> length u2 + 1" "turns call k (ThreadMode, F, t) = Inr (ThreadMode, F, s')" "currently_running s' = n"
      using T(4,5) less.prems(3,4) u(1) by auto
    then show ?thesis using T(1) u(1) by (intro exI [of _ "Suc k"] exI [of _ s']) simp
  qed
qed

text \<open>
  C11. No READY task starves: in every reachable configuration in thread mode, while no DMA transfer
  is to be reported, a READY task of the running queue has the core after at most as many yields
  and switches as the queue has tasks.
\<close>
theorem ready_task_gets_core:
  assumes "layout_ok (syms s0)" "length (r4_11 (cpu s0)) = 8" "3 < length (timer_configurations (drv s0))"
    and "bootstrap call hwfp loc j1 j2 s0 = Inr s1" "svcall_isr call s1 = Inr s2"
    and "reachable call (ThreadMode, {}, s2) (ThreadMode, F, s)" "dma_interrupt_action (drv s) AND 1 = 0"
  shows "\<exists>R W. sched_ok s R W \<and> (\<forall>n\<in>set R. ready s n \<longrightarrow>
    (\<exists>k s'. k \<le> length R \<and> turns call k (ThreadMode, F, s) = Inr (ThreadMode, F, s') \<and> currently_running s' = n))"
proof -
  from reachable_ok [OF assms(6) start_ok(1) [OF assms(1-5)]] obtain R W where inv: "kernel_inv ThreadMode F s R W"
    by (auto simp: config_ok_def)
  have "currently_running s \<in> set R" using kernel_invD(6) [OF inv] by (simp add: selected_def)
  from after_exists [OF this] obtain xs where xs: "after R (currently_running s) xs" "set xs = set R" "length xs = length R" by blast
  have "\<exists>k s'. k \<le> length R \<and> turns call k (ThreadMode, F, s) = Inr (ThreadMode, F, s') \<and> currently_running s' = n"
    if n: "n \<in> set R" "ready s n" for n
  proof -
    from n(1) xs(2) obtain us vs where e: "xs = us @ n # vs" by (metis split_list)
    from turns_reach [OF inv xs(1) [unfolded e] assms(7) n(2)] obtain k s' where
      "k \<le> length us + 1" "turns call k (ThreadMode, F, s) = Inr (ThreadMode, F, s')" "currently_running s' = n" by blast
    moreover have "length us + 1 \<le> length R" using xs(3) e by simp
    ultimately show ?thesis by (intro exI [of _ k] exI [of _ s']) simp
  qed
  then show ?thesis using kernel_invD(1) [OF inv] by blast
qed

theorem ready_task_gets_core_witness:
  "\<exists>s1 s2 s3 R W. bootstrap (\<lambda>a. Inr) False 0x20000800 0 0 zero_kernel = Inr s1 \<and> svcall_isr (\<lambda>a. Inr) s1 = Inr s2 \<and>
     perform (\<lambda>a. Inr) (Devices (\<lambda>_. 0) (\<lambda>_. []) 0) (ThreadMode, {}, s2) = Inr (ThreadMode, {}, s3) \<and> sched_ok s3 R W \<and>
     (\<forall>n\<in>set R. ready s3 n \<longrightarrow> (\<exists>k s'. k \<le> length R \<and>
        turns (\<lambda>a. Inr) k (ThreadMode, {}, s3) = Inr (ThreadMode, {}, s') \<and> currently_running s' = n))"
proof -
  obtain s1 s2 where s: "bootstrap (\<lambda>a. Inr) False 0x20000800 0 0 zero_kernel = Inr s1" "svcall_isr (\<lambda>a. Inr) s1 = Inr s2"
    by (rule zero_kernel_starts)
  let ?d = "Devices (\<lambda>_. 0) (\<lambda>_. []) 0"
  let ?s3 = "s2\<lparr>mmio := \<lambda>_. 0, inputs := \<lambda>_. [], drv := (drv s2)\<lparr>dma_interrupt_action := 0\<rparr>\<rparr>"
  have p: "enabled (\<lambda>a. Inr) ?d (ThreadMode, {}, s2)" "perform (\<lambda>a. Inr) ?d (ThreadMode, {}, s2) = Inr (ThreadMode, {}, ?s3)" by simp_all
  have "dma_interrupt_action (drv ?s3) AND 1 = 0" by simp
  from ready_task_gets_core [OF zero_kernel_boots s reachable.event [OF reachable.start p] this] s p(2) show ?thesis by blast
qed

end
