(* ===== verification/Task_Life.thy ===== *)
theory Task_Life
  imports Kernel_Live
begin

text \<open>
  The life cycle of the tasks, as an abstract machine without queues, memory or registers, and the
  proof that the kernel implements it: every event of the kernel is a run of at most a few abstract
  steps, which the event and the state it comes in fix.
\<close>

section \<open>The abstract machine\<close>

text \<open>A task can be run, waits, or has ended; \<open>core\<close> is the task that has the core.\<close>

datatype status = Ready | Waiting | Ended

record life =
  pool :: "addr \<rightharpoonup> status"
  core :: "addr option"

datatype life_event =
    Release                  \<comment> \<open>the running task gives up the core and stays ready\<close>
  | Suspend                  \<comment> \<open>it gives up the core and waits\<close>
  | Halt                     \<comment> \<open>it ends\<close>
  | Wake addr                \<comment> \<open>a waiting task becomes ready\<close>
  | Dispatch addr            \<comment> \<open>a ready task gets the free core\<close>
  | Spawn addr status        \<comment> \<open>the running task creates one\<close>
  | Reap "addr list"         \<comment> \<open>the running task removes tasks that have ended\<close>

fun leave :: "status \<Rightarrow> life \<Rightarrow> life option" where
  "leave st l =
     (case core l of None \<Rightarrow> None
      | Some c \<Rightarrow> if pool l c = Some Ready then Some (l\<lparr>pool := (pool l)(c \<mapsto> st), core := None\<rparr>) else None)"

fun life_step :: "life_event \<Rightarrow> life \<Rightarrow> life option" where
  "life_step Release l = leave Ready l"
| "life_step Suspend l = leave Waiting l"
| "life_step Halt l = leave Ended l"
| "life_step (Wake n) l = (if pool l n = Some Waiting then Some (l\<lparr>pool := (pool l)(n \<mapsto> Ready)\<rparr>) else None)"
| "life_step (Dispatch n) l =
     (if core l = None \<and> pool l n = Some Ready then Some (l\<lparr>core := Some n\<rparr>) else None)"
| "life_step (Spawn n st) l =
     (if core l \<noteq> None \<and> pool l n = None \<and> st \<noteq> Ended then Some (l\<lparr>pool := (pool l)(n \<mapsto> st)\<rparr>) else None)"
| "life_step (Reap ns) l =
     (if core l \<noteq> None \<and> (\<forall>n\<in>set ns. pool l n = Some Ended)
      then Some (l\<lparr>pool := pool l |` (- set ns)\<rparr>) else None)"

fun life_run :: "life_event list \<Rightarrow> life \<Rightarrow> life option" where
  "life_run [] l = Some l"
| "life_run (e # w) l = (case life_step e l of None \<Rightarrow> None | Some l' \<Rightarrow> life_run w l')"

lemma life_run_append: "life_run (v @ w) l = (case life_run v l of None \<Rightarrow> None | Some l' \<Rightarrow> life_run w l')"
  by (induction v arbitrary: l) (auto split: option.splits)

section \<open>The steps an event makes\<close>

definition wake_of :: "addr option \<Rightarrow> life_event list" where
  "wake_of q = (case q of None \<Rightarrow> [] | Some n \<Rightarrow> [Wake n])"

text \<open>
  What decides which task is woken: the end of a task wakes the first waiting task with the pid of its parent,
  if the parent has joined on its pid; the timer, the task that sleeps, if its compare flag is set; the serial
  interrupt, the io task, with the last byte of a command and no overrun.  A usage fault that a disabled
  coprocessor has caused does not end the task.
\<close>

definition joined_parent :: "kernel \<Rightarrow> addr list \<Rightarrow> addr option" where
  "joined_parent s W =
     (let T = task s (currently_running s); P = tcbs s (parent_task T)
      in if (scast (join_pid P) :: u32) = ucast (pid T) then waiter (pid_of P) s W else None)"

definition timer_expired :: "kernel \<Rightarrow> bool" where
  "timer_expired s \<longleftrightarrow> fst (timer_get_sr 3 s) AND shl 1 1 \<noteq> 0"

definition command_complete :: "kernel \<Rightarrow> bool" where
  "command_complete s \<longleftrightarrow> fst (READ_REGISTER USART1_sr s) AND shl 1 UART_ORE = 0 \<and> bytes_received (io s) = 3"

definition no_coprocessor :: "kernel \<Rightarrow> bool" where
  "no_coprocessor s \<longleftrightarrow> fst (READ_REGISTER 0xE000ED2A s) AND shl 1 3 \<noteq> 0"

definition io_pid :: "kernel \<Rightarrow> u32" where
  "io_pid s = pid_arg (external_io_runner_pid (kernel_pids s))"

text \<open>
  \<open>steps_of e x s R W w\<close>: in mode \<open>x\<close> and state \<open>s\<close> with these queues the event \<open>e\<close> makes the steps \<open>w\<close>.  Only the
  node of a new task, the tasks that are removed and the task the switch selects are left open; the switch
  wakes no task but those with pid 0, the idle task.
\<close>

fun steps_of :: "event \<Rightarrow> exec_mode \<Rightarrow> kernel \<Rightarrow> addr list \<Rightarrow> addr list \<Rightarrow> life_event list \<Rightarrow> bool" where
  "steps_of Yield x s R W w \<longleftrightarrow> w = [Release]"
| "steps_of (Message a) x s R W w \<longleftrightarrow> w = [Release]"
| "steps_of Block x s R W w \<longleftrightarrow> w = [Suspend]"
| "steps_of (Sleep d) x s R W w \<longleftrightarrow> w = [Suspend]"
| "steps_of Finish x s R W w \<longleftrightarrow> w = Halt # wake_of (joined_parent s W)"
| "steps_of HardFault x s R W w \<longleftrightarrow> w = [Halt]"
| "steps_of UsageFault x s R W w \<longleftrightarrow> w = (if no_coprocessor s then [] else [Halt])"
| "steps_of (Create fn ram loc) x s R W w \<longleftrightarrow>
     (\<exists>n. w = [Spawn n (if (of_nat (length R + length W) :: u8) = 0 then Waiting else Ready)])"
| "steps_of CleanUp x s R W w \<longleftrightarrow> (\<exists>ns. w = [Reap ns])"
| "steps_of (SupervisorCall c v) x s R W w \<longleftrightarrow>
     w = (if c = wakeupPid then wake_of (waiter v s W)
          else if c = wakeupIoHandler then wake_of (waiter (io_pid s) s W) else [])"
| "steps_of TimerInterrupt x s R W w \<longleftrightarrow>
     w = (if timer_expired s then wake_of (waiter (pid_of_sleeping_task s) s W) else [])"
| "steps_of SerialInterrupt x s R W w \<longleftrightarrow>
     w = (if command_complete s then wake_of (waiter (io_pid s) s W) else [])"
| "steps_of Switch x s R W w \<longleftrightarrow>
     (\<exists>ns n. w = (if x = ThreadMode then [Release] else []) @ map Wake ns @ [Dispatch n] \<and> (\<forall>m\<in>set ns. pid (task s m) = 0))"
| "steps_of e x s R W w \<longleftrightarrow> w = []"

section \<open>The kernel's tasks, seen abstractly\<close>

fun status_of :: "TaskState \<Rightarrow> status" where
  "status_of READY = Ready"
| "status_of WAITING = Waiting"
| "status_of _ = Ended"

lemma status_ended: "ended t \<Longrightarrow> status_of (tstate t) = Ended"
  by (auto simp: ended_def)

definition pool_of :: "kernel \<Rightarrow> addr set \<Rightarrow> addr \<rightharpoonup> status" where
  "pool_of s U = (\<lambda>n. if n \<in> U then Some (status_of (tstate (task s n))) else None)"

fun holder :: "exec_mode \<Rightarrow> kernel \<Rightarrow> addr option" where
  "holder ThreadMode s = Some (currently_running s)"
| "holder SwitchPending s = None"

definition life_view :: "exec_mode \<Rightarrow> kernel \<Rightarrow> addr set \<Rightarrow> life" where
  "life_view x s U = \<lparr>pool = pool_of s U, core = holder x s\<rparr>"

text \<open>The waiting queue holds the tasks that wait, the running queue those that are READY or have ended.\<close>

definition fit :: "kernel \<Rightarrow> addr list \<Rightarrow> addr list \<Rightarrow> bool" where
  "fit s R W \<longleftrightarrow> (\<forall>n\<in>set R. tstate (task s n) = READY \<or> ended (task s n)) \<and> (\<forall>n\<in>set W. tstate (task s n) = WAITING)"

text \<open>The abstract state of a configuration: what its two queues hold.\<close>

definition life_of :: "config \<Rightarrow> life \<Rightarrow> bool" where
  "life_of c l \<longleftrightarrow> (case c of (x, F, s) \<Rightarrow>
     \<exists>R W. is_queue s (running_tasks s) R \<and> is_queue s (waiting_tasks s) W \<and> fit s R W \<and> l = life_view x s (set R \<union> set W))"

section \<open>Tasks that move from the waiting to the running queue\<close>

definition moved :: "addr list \<Rightarrow> kernel \<Rightarrow> addr list \<Rightarrow> addr list \<Rightarrow> kernel \<Rightarrow> addr list \<Rightarrow> addr list \<Rightarrow> bool" where
  "moved ns s R W s' R' W' \<longleftrightarrow>
     set ns \<subseteq> set W \<and> distinct ns \<and> set R' = set R \<union> set ns \<and> set W' = set W - set ns \<and>
     (\<forall>n\<in>set R \<union> set W. tstate (task s' n) = (if n \<in> set ns then READY else tstate (task s n)))"

lemma moved_none: "(\<And>n. tstate (task s' n) = tstate (task s n)) \<Longrightarrow> moved [] s R W s' R W"
  by (simp add: moved_def)

lemma moved_fit:
  assumes "moved ns s R W s' R' W'" "fit s R W"
  shows "fit s' R' W'"
proof -
  from assms(1) have m: "set R' = set R \<union> set ns" "set W' = set W - set ns" "set ns \<subseteq> set W"
    and t: "\<And>n. n \<in> set R \<union> set W \<Longrightarrow> tstate (task s' n) = (if n \<in> set ns then READY else tstate (task s n))"
    by (simp_all add: moved_def)
  show ?thesis
    unfolding fit_def
  proof (intro conjI ballI)
    fix n assume n: "n \<in> set R'"
    then have "n \<in> set R \<union> set W" using m(1,3) by auto
    with t n show "tstate (task s' n) = READY \<or> ended (task s' n)" using assms(2) m(1) by (auto simp: fit_def ended_def)
  next
    fix n assume "n \<in> set W'"
    then show "tstate (task s' n) = WAITING" using t [of n] assms(2) m(2) by (auto simp: fit_def)
  qed
qed

lemma moved_pool:
  assumes "moved ns s R W s' R' W'"
  shows "pool_of s' (set R' \<union> set W') = (\<lambda>n. if n \<in> set ns then Some Ready else pool_of s (set R \<union> set W) n)"
  using assms by (auto simp: moved_def pool_of_def fun_eq_iff)

lemma run_wakes:
  "\<forall>n\<in>set ns. p n = Some Waiting \<Longrightarrow> distinct ns \<Longrightarrow>
   life_run (map Wake ns) \<lparr>pool = p, core = k\<rparr> = Some \<lparr>pool = (\<lambda>n. if n \<in> set ns then Some Ready else p n), core = k\<rparr>"
proof (induction ns arbitrary: p)
  case (Cons n ns)
  have "\<forall>m\<in>set ns. (p(n \<mapsto> Ready)) m = Some Waiting" "distinct ns" using Cons.prems by auto
  note IH = Cons.IH [OF this]
  have "(\<lambda>m. if m \<in> set ns then Some Ready else (p(n \<mapsto> Ready)) m) = (\<lambda>m. if m \<in> set (n # ns) then Some Ready else p m)"
    by auto
  then show ?case using Cons.prems(1) IH by (simp del: fun_upd_apply)
qed simp

lemma moved_run:
  assumes m: "moved ns s R W s' R' W'" and f: "fit s R W"
  shows "life_run (map Wake ns) \<lparr>pool = pool_of s (set R \<union> set W), core = k\<rparr> =
    Some \<lparr>pool = pool_of s' (set R' \<union> set W'), core = k\<rparr>"
proof -
  have "\<forall>n\<in>set ns. pool_of s (set R \<union> set W) n = Some Waiting" "distinct ns"
    using m f by (auto simp: moved_def fit_def pool_of_def)
  from run_wakes [OF this] show ?thesis unfolding moved_pool [OF m] .
qed

lemma woke_moved:
  assumes ok: "sched_ok s R W" and w: "woke q s R W s' R' W'"
  shows "moved (case q of None \<Rightarrow> [] | Some n \<Rightarrow> [n]) s R W s' R' W'"
proof -
  have t: "tdata (nodes s' n) = tdata (nodes s n)" for n using w by (simp add: woke_def)
  show ?thesis
  proof (cases q)
    case None
    then show ?thesis using w moved_none [of s' s R W] t by (simp add: task_def woke_def)
  next
    case (Some c)
    with w obtain as bs where 2: "W = as @ c # bs" "R' = R @ [c]" "W' = as @ bs"
        "tcbs s' = (tcbs s)(tdata (nodes s c) := (task s c)\<lparr>tstate := READY\<rparr>)" by (auto simp: woke_def)
    note D = sched_okD [OF ok]
    have "tstate (task s' n) = (if n = c then READY else tstate (task s n))" if "n \<in> set R \<union> set W" for n
      using inj_onD [OF D(6), of n c] that 2(1,4) t by (auto simp: task_def)
    moreover have "set (as @ bs) = set W - {c}" using D(11) 2(1) by auto
    ultimately show ?thesis unfolding moved_def 2(2,3) Some option.case using 2(1) by auto
  qed
qed

lemma wake_of_map: "wake_of q = map Wake (case q of None \<Rightarrow> [] | Some n \<Rightarrow> [n])"
  by (simp add: wake_of_def split: option.split)

section \<open>What an event does to the tasks\<close>

text \<open>The kernel is in a state of the abstract machine that the steps \<open>w\<close> lead to.\<close>

definition follows :: "life_event list \<Rightarrow> life \<Rightarrow> exec_mode \<Rightarrow> kernel \<Rightarrow> bool" where
  "follows w l x s \<longleftrightarrow> (\<exists>R W. sched_ok s R W \<and> fit s R W \<and> life_run w l = Some (life_view x s (set R \<union> set W)))"

lemma followsI:
  "sched_ok s R W \<Longrightarrow> fit s R W \<Longrightarrow> life_run w l = Some (life_view x s (set R \<union> set W)) \<Longrightarrow> follows w l x s"
  unfolding follows_def by blast

text \<open>Nothing but the registers, the memory and the devices: the tasks stay as they are.\<close>

definition still :: "kernel \<Rightarrow> kernel \<Rightarrow> bool" where
  "still s s' \<longleftrightarrow> same_queues s s' \<and> (\<forall>n. tstate (task s' n) = tstate (task s n) \<and> pid (task s' n) = pid (task s n)) \<and>
     currently_running s' = currently_running s"

lemma stillI: "same_queues s s' \<Longrightarrow> tcbs s' = tcbs s \<Longrightarrow> currently_running s' = currently_running s \<Longrightarrow> still s s'"
  by (simp add: still_def task_def same_queues_def)

lemma still_trans: "still s t \<Longrightarrow> still t u \<Longrightarrow> still s u"
  by (auto simp: still_def intro: same_queues_trans)

lemma still_ok: "still s s' \<Longrightarrow> sched_ok s R W \<Longrightarrow> sched_ok s' R W"
  by (rule sched_ok_same) (auto simp: still_def dest: sched_okD)

lemma still_fit: "still s s' \<Longrightarrow> fit s R W \<Longrightarrow> fit s' R W"
  by (simp add: still_def fit_def ended_def)

lemma still_view: "still s s' \<Longrightarrow> life_view x s' U = life_view x s U"
  by (cases x) (simp_all add: still_def life_view_def pool_of_def fun_eq_iff)

lemma still_pool: "still s s' \<Longrightarrow> pool_of s' U = pool_of s U"
  by (simp add: still_def pool_of_def fun_eq_iff)

lemma still_waiter: "still s t \<Longrightarrow> waiter p t W = waiter p s W"
  by (rule waiter_cong) (simp add: still_def)

lemma still_woke: "still s t \<Longrightarrow> moved ns t R W t' R' W' \<Longrightarrow> moved ns s R W t' R' W'"
  by (simp add: still_def moved_def)

lemma still_dev: "dev_frame s s' \<Longrightarrow> still s s'" for s :: kernel
  by (rule stillI) (simp_all add: same_queues_def dev_frame_kernel)

lemma still_harmless: "harmless s s' \<Longrightarrow> still s s'"
  by (intro stillI) (simp_all add: harmless_def)

lemma still_bus: "bus_frame s s' \<Longrightarrow> still s s'" for s :: kernel
  by (rule still_dev [OF dev_frame_bus])

lemma still_entered: "still s (entered s)"
  by (rule stillI) (simp_all add: entered_def save_psp_if_threadmode_def same_queues_def)

lemma still_yield_case: "yield_case s = Inr t \<Longrightarrow> still s t"
  by (auto simp: still_def yield_case_def bnd_eq_Inr upd_tcb_of_def typed_access task_def same_queues_def set_pendsv_def
      split: if_splits)

lemma follows_still:
  "still s s' \<Longrightarrow> sched_ok s R W \<Longrightarrow> fit s R W \<Longrightarrow> follows [] (life_view x s (set R \<union> set W)) x s'"
  by (rule followsI [of s' R W "[]"]) (simp_all add: still_ok still_fit still_view)

text \<open>A task is woken, or none.\<close>

lemma follows_woke:
  assumes st: "still s t" "still t' s'" and ok: "sched_ok s R W" "fit s R W" and w: "sched_ok t' R' W'" "woke q t R W t' R' W'"
  shows "follows (wake_of q) (life_view x s (set R \<union> set W)) x s'"
proof -
  let ?ns = "case q of None \<Rightarrow> [] | Some n \<Rightarrow> [n]"
  have m: "moved ?ns s R W t' R' W'" by (rule still_woke [OF st(1) woke_moved [OF still_ok [OF st(1) ok(1)] w(2)]])
  have "holder x t' = holder x s" using st(1) w(2) by (cases x) (simp_all add: still_def woke_def)
  then have "life_run (wake_of q) (life_view x s (set R \<union> set W)) = Some (life_view x s' (set R' \<union> set W'))"
    unfolding still_view [OF st(2)] wake_of_map by (simp add: life_view_def moved_run [OF m ok(2)])
  then show ?thesis by (rule followsI [OF still_ok [OF st(2) w(1)] still_fit [OF st(2) moved_fit [OF m ok(2)]]])
qed

text \<open>The same for a call of \<open>wakeup_pid\<close>.\<close>

lemma follows_wakeup:
  assumes st: "still s t" "still t' s'" and ok: "sched_ok s R W" "fit s R W" and w: "wakeup_pid p t = Inr (q, t')"
  shows "follows (wake_of (waiter p s W)) (life_view x s (set R \<union> set W)) x s'"
proof -
  from wakeup_woke [OF still_ok [OF st(1) ok(1)] w] obtain R' W' where "sched_ok t' R' W'" "woke (waiter p t W) t R W t' R' W'" by blast
  from follows_woke [OF st ok this] show ?thesis by (simp only: still_waiter [OF st(1)])
qed

text \<open>The running task gives up the core, in state \<open>v\<close>.\<close>

lemma leave_view:
  assumes c: "currently_running s \<in> U" "ready s (currently_running s)"
    and t: "\<And>n. n \<in> U \<Longrightarrow> tstate (task s' n) = (if n = currently_running s then v else tstate (task s n))"
  shows "leave (status_of v) (life_view ThreadMode s U) = Some \<lparr>pool = pool_of s' U, core = None\<rparr>"
proof -
  have "pool_of s U (currently_running s) = Some Ready" using c by (simp add: pool_of_def ready_def)
  moreover have "(pool_of s U)(currently_running s \<mapsto> status_of v) = pool_of s' U"
    using c(1) t by (auto simp: pool_of_def fun_eq_iff)
  ultimately show ?thesis by (simp add: life_view_def)
qed

lemma tstate_upd:
  assumes "sched_ok s R W" "c \<in> set R \<union> set W" "n \<in> set R \<union> set W"
    and "\<And>n. tdata (nodes s' n) = tdata (nodes s n)" "tcbs s' = (tcbs s)(tdata (nodes s c) := (task s c)\<lparr>tstate := v\<rparr>)"
  shows "tstate (task s' n) = (if n = c then v else tstate (task s n))"
  using inj_onD [OF sched_okD(6) [OF assms(1)], of n c] assms(2-5) by (auto simp: task_def)

lemma follows_release:
  assumes inv: "kernel_inv ThreadMode F s R W" and f: "fit s R W" and st: "still s s'"
  shows "follows [Release] (life_view ThreadMode s (set R \<union> set W)) SwitchPending s'"
proof -
  note D = kernel_invD [OF inv]
  have c: "currently_running s \<in> set R \<union> set W" "ready s (currently_running s)" using D(6) by (simp_all add: selected_def)
  have "leave (status_of READY) (life_view ThreadMode s (set R \<union> set W)) = Some \<lparr>pool = pool_of s (set R \<union> set W), core = None\<rparr>"
    by (rule leave_view [OF c]) (use c(2) in \<open>simp add: ready_def\<close>)
  then have "life_run [Release] (life_view ThreadMode s (set R \<union> set W)) = Some (life_view SwitchPending s' (set R \<union> set W))"
    by (simp add: life_view_def still_pool [OF st])
  then show ?thesis by (rule followsI [OF still_ok [OF st D(1)] still_fit [OF st f]])
qed

lemma follows_suspend:
  assumes inv: "kernel_inv ThreadMode F s R W" and f: "fit s R W"
    and b: "block_current_task s = Inr t" and st: "still t s'"
  shows "follows [Suspend] (life_view ThreadMode s (set R \<union> set W)) SwitchPending s'"
proof -
  note D = kernel_invD [OF inv]
  let ?c = "currently_running s"
  have c: "?c \<in> set R" "ready s ?c" using D(6) by (simp_all add: selected_def)
  then obtain as bs where R: "R = as @ ?c # bs" using split_list by metis
  from D(1) have "sched_ok s (as @ ?c # bs) W" by (simp only: R [symmetric])
  then obtain t' where "block_current_task s = Inr t'" "sched_ok t' (as @ bs) (W @ [?c])"
    "tcbs t' = (tcbs s)(tdata (nodes s ?c) := (task s ?c)\<lparr>tstate := WAITING\<rparr>)" "\<forall>n. tdata (nodes t' n) = tdata (nodes s n)"
    by (rule block_current_task_ok [OF _ refl])
  with b have T: "sched_ok t (as @ bs) (W @ [?c])" "tcbs t = (tcbs s)(tdata (nodes s ?c) := (task s ?c)\<lparr>tstate := WAITING\<rparr>)"
    "\<And>n. tdata (nodes t n) = tdata (nodes s n)" by simp_all
  let ?U = "set R \<union> set W"
  have cU: "?c \<in> ?U" using c(1) by simp
  have ts: "tstate (task t n) = (if n = ?c then WAITING else tstate (task s n))" if "n \<in> ?U" for n
    by (rule tstate_upd [OF D(1) cU that T(3,2)])
  have U: "set (as @ bs) \<union> set (W @ [?c]) = ?U" "set (as @ bs) = set R - {?c}"
    using arg_cong [OF R, of set] sched_okD(10) [OF D(1)] arg_cong [OF R, of distinct] by auto
  have "fit t (as @ bs) (W @ [?c])"
    using f ts sched_okD(4) [OF D(1)] c(1) unfolding fit_def ended_def U(2) by auto
  moreover have "life_run [Suspend] (life_view ThreadMode s ?U) = Some (life_view SwitchPending s' ?U)"
    using leave_view [OF cU c(2) ts] by (simp add: life_view_def still_pool [OF st])
  ultimately show ?thesis
    using followsI [OF still_ok [OF st T(1)] still_fit [OF st]] U(1) by simp
qed

section \<open>Event by event\<close>

lemma follows_finish:
  assumes inv: "kernel_inv ThreadMode F s R W" and f: "fit s R W" and p: "pid (task s (currently_running s)) \<noteq> 0"
    and t: "finish_task s = Inr t"
  shows "follows (Halt # wake_of (joined_parent s W)) (life_view ThreadMode s (set R \<union> set W)) SwitchPending t"
proof -
  note D = kernel_invD [OF inv]
  let ?c = "currently_running s" and ?U = "set R \<union> set W"
  have c: "?c \<in> set R" "?c \<in> ?U" "ready s ?c" using D(6) by (simp_all add: selected_def)
  have "proper s ?c" using D(4) c by simp
  then have par: "parent_task (task s ?c) \<noteq> NULL" "parent_task (task s ?c) \<noteq> tdata (nodes s ?c)"
    using p by (simp_all add: proper_def)
  let ?s1 = "s\<lparr>tcbs := (tcbs s)(tdata (nodes s ?c) := (task s ?c)\<lparr>tstate := FINISHED\<rparr>)\<rparr>"
  have ts: "tstate (task ?s1 n) = (if n = ?c then FINISHED else tstate (task s n))" if "n \<in> ?U" for n
    by (rule tstate_upd [OF D(1) c(2) that]) simp_all
  from finish_task_ok [OF D(1) c(1) par] t obtain R' W' where T: "sched_ok t R' W'" "woke (joined_parent s W) ?s1 R W t R' W'"
    unfolding joined_parent_def Let_def by (metis (no_types, lifting) sum.inject(2))
  have cW: "n \<noteq> ?c" if "n \<in> set W" for n using that c(1) sched_okD(4) [OF D(1)] by auto
  have "same_queues s ?s1" by simp
  then have ok1: "sched_ok ?s1 R W"
  proof (rule sched_ok_same [OF D(1)])
    show "tstate (task ?s1 n) \<noteq> WAITING" if "n \<in> set R" for n using ts [of n] sched_okD(7) [OF D(1) that] that by auto
    show "tstate (task ?s1 n) \<noteq> READY" if "n \<in> set W" for n using ts [of n] sched_okD(8) [OF D(1) that] that cW by auto
  qed
  have f1: "fit ?s1 R W" using f ts cW unfolding fit_def ended_def by auto
  note m = woke_moved [OF ok1 T(2)]
  have "life_run (Halt # wake_of (joined_parent s W)) (life_view ThreadMode s ?U) = Some (life_view SwitchPending t (set R' \<union> set W'))"
    unfolding wake_of_map using leave_view [OF c(2,3) ts] moved_run [OF m f1] by (simp add: life_view_def)
  then show ?thesis by (rule followsI [OF T(1) moved_fit [OF m f1]])
qed

lemma follows_halt:
  assumes inv: "kernel_inv ThreadMode F s R W" and f: "fit s R W" and p: "pid (task s (currently_running s)) \<noteq> 0"
    and t: "invalidate_current_task s = Inr t"
  shows "follows [Halt] (life_view ThreadMode s (set R \<union> set W)) SwitchPending (set_pendsv t)"
proof -
  note D = kernel_invD [OF inv]
  let ?c = "currently_running s" and ?U = "set R \<union> set W"
  have c: "?c \<in> set R" "?c \<in> ?U" "ready s ?c" using D(6) by (simp_all add: selected_def)
  from inv p obtain t' where "invalidate_current_task s = Inr t'" "kernel_inv SwitchPending F (set_pendsv t') R W"
    "tstate (task (set_pendsv t') (currently_running (set_pendsv t'))) = INVALID" "same_queues s (set_pendsv t')"
    "tcbs (set_pendsv t') = (tcbs s)(tdata (nodes s ?c) := (task s ?c)\<lparr>tstate := INVALID\<rparr>)"
    by (rule invalidate_ok)
  with t have T: "kernel_inv SwitchPending F (set_pendsv t) R W" "same_queues s (set_pendsv t)"
    "tcbs (set_pendsv t) = (tcbs s)(tdata (nodes s ?c) := (task s ?c)\<lparr>tstate := INVALID\<rparr>)" by simp_all
  have ts: "tstate (task (set_pendsv t) n) = (if n = ?c then INVALID else tstate (task s n))" if "n \<in> ?U" for n
    by (rule tstate_upd [OF D(1) c(2) that _ T(3)]) (use T(2) in \<open>simp add: same_queues_def\<close>)
  have cW: "n \<noteq> ?c" if "n \<in> set W" for n using that c(1) sched_okD(4) [OF D(1)] by auto
  have f1: "fit (set_pendsv t) R W" using f ts cW unfolding fit_def ended_def by auto
  have "life_run [Halt] (life_view ThreadMode s ?U) = Some (life_view SwitchPending (set_pendsv t) ?U)"
    using leave_view [OF c(2,3) ts] by (simp add: life_view_def)
  then show ?thesis by (rule followsI [OF kernel_invD(1) [OF T(1)] f1])
qed

lemma follows_create:
  assumes inv: "kernel_inv ThreadMode F s R W" and f: "fit s R W" and room: "alloc_room s 5 1688" and ram: "ram = 0 \<or> ram \<in> F"
    and t: "create_task fn ram loc s = Inr (p, t)"
  shows "\<exists>n. follows [Spawn n (if (of_nat (length R + length W) :: u8) = 0 then Waiting else Ready)]
    (life_view ThreadMode s (set R \<union> set W)) ThreadMode t"
proof -
  let ?U = "set R \<union> set W" and ?p = "of_nat (length R + length W) :: u8"
  have "alloc_room s (5 + 0) (1688 + 0)" using room by simp
  from inv this ram obtain t' n stk l where "create_task fn ram loc s = Inr (ucast ?p, t')"
    "kernel_inv ThreadMode (F - {ram}) t' (if ?p = 0 then R else R @ [n]) (if ?p = 0 then W @ [n] else W)"
    "n \<notin> ?U" "alloc_room t' 0 0" "task t' n = new_tcb ?p ram (task_size (tInfo s)) stk (parent_of_new s) l"
    "\<forall>m\<in>?U. task t' m = task s m" "task_frame (mem t') (stk + 1472) fn (finish_task_addr (syms s))"
    "drv t' = drv s" "io t' = io s" "currently_running t' = currently_running s"
    by (rule kernel_inv_create_facts)
  with t have T: "kernel_inv ThreadMode (F - {ram}) t (if ?p = 0 then R else R @ [n]) (if ?p = 0 then W @ [n] else W)"
    "n \<notin> ?U" "task t n = new_tcb ?p ram (task_size (tInfo s)) stk (parent_of_new s) l"
    "\<forall>m\<in>?U. task t m = task s m" "currently_running t = currently_running s" by simp_all
  let ?R = "if ?p = 0 then R else R @ [n]" and ?W = "if ?p = 0 then W @ [n] else W"
  have U: "set ?R \<union> set ?W = insert n ?U" by auto
  have st: "tstate (task t n) = (if ?p = 0 then WAITING else READY)" using T(3) by (simp add: new_tcb_def)
  have "fit t ?R ?W" using f st T(4) unfolding fit_def by auto
  moreover have "life_run [Spawn n (if ?p = 0 then Waiting else Ready)] (life_view ThreadMode s ?U) =
      Some (life_view ThreadMode t (set ?R \<union> set ?W))"
    using T(2,4,5) st unfolding U by (auto simp: life_view_def pool_of_def fun_eq_iff)
  ultimately show ?thesis using followsI [OF kernel_invD(1) [OF T(1)]] by blast
qed

lemma follows_reap:
  assumes inv: "kernel_inv ThreadMode F s R W" and f: "fit s R W" and t: "search_invalidate_tasks s = Inr t"
  shows "\<exists>ns. follows [Reap ns] (life_view ThreadMode s (set R \<union> set W)) ThreadMode t"
proof -
  from inv obtain t' R' where "search_invalidate_tasks s = Inr t'" "kernel_inv ThreadMode F t' R' W" "set R' \<subseteq> set R"
    "\<forall>n\<in>set R - set R'. finished s n" "\<forall>n. task t' n = task s n" "currently_running t' = currently_running s"
    by (rule kernel_inv_clean_up)
  with t have T: "kernel_inv ThreadMode F t R' W" "set R' \<subseteq> set R" "\<forall>n\<in>set R - set R'. finished s n"
    "\<forall>n. task t n = task s n" "currently_running t = currently_running s" by simp_all
  let ?ns = "filter (\<lambda>n. n \<notin> set R') R"
  have ns: "set ?ns = set R - set R'" by auto
  have W: "n \<notin> set R" if "n \<in> set W" for n using that sched_okD(4) [OF kernel_invD(1) [OF inv]] by auto
  have "\<forall>n\<in>set ?ns. pool_of s (set R \<union> set W) n = Some Ended"
    using T(3) unfolding ns finished_ended by (simp add: pool_of_def status_ended)
  moreover have "pool_of s (set R \<union> set W) |` (- set ?ns) = pool_of t (set R' \<union> set W)"
    using T(2,4) W unfolding ns by (auto simp: pool_of_def fun_eq_iff restrict_map_def)
  ultimately have "life_run [Reap ?ns] (life_view ThreadMode s (set R \<union> set W)) = Some (life_view ThreadMode t (set R' \<union> set W))"
    using T(5) by (simp add: life_view_def del: set_filter)
  moreover have "fit t R' W" using f T(2,4) unfolding fit_def by auto
  ultimately show ?thesis using followsI [OF kernel_invD(1) [OF T(1)]] by blast
qed

lemma pendsv_states:
  assumes p: "pendsv_isr s = Inr s'" and i: "idle_task (kernel_pids s) = 0"
  shows "tstate (task s' n) = tstate (task s n) \<or> pid (task s n) = 0 \<and> tstate (task s' n) = READY"
  using p
proof (cases rule: pendsv_isrE)
  case (1 s2 s3 s4 T)
  note s2_def = 1(1) and u = 1(2) and w = 1(3) and s' = 1(5)
  have s2: "task s2 n = task s n" "kernel_pids s2 = kernel_pids s" by (simp_all add: s2_def task_def disable_irq_def)
  have "\<forall>n. tdata (nodes s3 n) = tdata (nodes s2 n)" "\<forall>a. tstate (tcbs s3 a) = tstate (tcbs s2 a) \<and> pid (tcbs s3 a) = pid (tcbs s2 a)"
    "kernel_pids s3 = kernel_pids s2"
    using u by (auto simp: upd_tcb_of_def typed_access bnd_eq_Inr split: if_splits)
  then have s3: "tstate (task s3 n) = tstate (task s n)" "pid (task s3 n) = pid (task s n)" "kernel_pids s3 = kernel_pids s"
    using s2 by (simp_all add: task_def)
  have m: "made_ready {0} s3 s4" using switch_task_made [OF w] i s3(3) by (simp add: pid_arg_def)
  then have td: "tdata (nodes s4 n) = tdata (nodes s3 n)" by (simp add: made_ready_def)
  from m have "task s4 n = task s3 n \<or> pid_of (task s3 n) = 0 \<and> task s4 n = (task s3 n)\<lparr>tstate := READY\<rparr>"
    unfolding task_def td made_ready_def by blast
  then have "tstate (task s4 n) = tstate (task s3 n) \<or> pid (task s3 n) = 0 \<and> tstate (task s4 n) = READY"
    using ucast_u32_neq_0 [of "pid (task s3 n)"] by (auto simp: pid_of_def)
  moreover have "task s' n = task s4 n" by (simp add: s' Let_def task_def ST_ENABLE_def enable_irq_def)
  ultimately show ?thesis using s3 by simp
qed

lemma follows_switch:
  assumes inv: "kernel_inv m F s R W" and f: "fit s R W" and p: "pendsv_isr s = Inr t"
  shows "\<exists>ns n. (\<forall>m\<in>set ns. pid (task s m) = 0) \<and>
    follows ((if m = ThreadMode then [Release] else []) @ map Wake ns @ [Dispatch n]) (life_view m s (set R \<union> set W)) ThreadMode t"
proof -
  note D = kernel_invD [OF inv]
  let ?U = "set R \<union> set W"
  from pendsv_total [OF D(1) at_point_switch(1) [OF D(6)] D(2) at_point_switch(2) [OF D(6)]] p obtain R' W' where
    T: "sched_ok t R' W'" "selected t R'" "mset (R' @ W') = mset (R @ W)" "set R \<subseteq> set R'" by auto
  have U: "set R' \<union> set W' = ?U" using mset_eq_setD [OF T(3)] by simp
  let ?ns = "filter (\<lambda>n. n \<notin> set R) R'"
  have ns: "set ?ns = set R' - set R" by auto
  have idle: "idle_task (kernel_pids s) = 0" using D(2) by (simp add: has_idle_def)
  note P = pendsv_states [OF p idle]
  have "moved ?ns s R W t R' W'"
    unfolding moved_def ns
  proof (intro conjI ballI)
    show "set R' - set R \<subseteq> set W" using U by auto
    show "distinct ?ns" using sched_okD(10) [OF T(1)] by simp
    show "set R' = set R \<union> (set R' - set R)" using T(4) by auto
    show "set W' = set W - (set R' - set R)" using U T(4) sched_okD(4) [OF D(1)] sched_okD(4) [OF T(1)] by auto
    fix n assume n: "n \<in> ?U"
    consider "n \<in> set R" | "n \<in> set R' - set R" | "n \<in> set W'" "n \<in> set W" "n \<notin> set R'" using n U sched_okD(4) [OF T(1)] T(4) by auto
    then show "tstate (task t n) = (if n \<in> set R' - set R then READY else tstate (task s n))"
    proof cases
      case 1
      then have "tstate (task s n) = READY \<or> pid (task s n) \<noteq> 0" using f D(4) [of n] by (auto simp: fit_def proper_def split: if_splits)
      with 1 P [of n] show ?thesis by auto
    next
      case 2
      then have "tstate (task s n) = WAITING" using f U by (auto simp: fit_def)
      moreover have "tstate (task t n) \<noteq> WAITING" using sched_okD(7) [OF T(1)] 2 by simp
      ultimately show ?thesis using P [of n] 2 by auto
    next
      case 3
      then show ?thesis using P [of n] sched_okD(8) [OF T(1) 3(1)] by auto
    qed
  qed
  note m = moved_run [OF this f] moved_fit [OF this f]
  have idle_only: "\<forall>n\<in>set ?ns. pid (task s n) = 0"
  proof
    fix n assume "n \<in> set ?ns"
    then have n: "n \<in> set R'" "n \<notin> set R" by simp_all
    then have "tstate (task s n) = WAITING" "tstate (task t n) \<noteq> WAITING"
      using f U sched_okD(7) [OF T(1)] by (auto simp: fit_def)
    with P [of n] show "pid (task s n) = 0" by auto
  qed
  have r: "currently_running t \<in> set R' \<union> set W'" "ready t (currently_running t)" using T(2) by (simp_all add: selected_def)
  then have d: "life_step (Dispatch (currently_running t)) \<lparr>pool = pool_of t (set R' \<union> set W'), core = None\<rparr> =
      Some (life_view ThreadMode t (set R' \<union> set W'))"
    by (simp add: pool_of_def ready_def life_view_def)
  let ?w = "map Wake ?ns @ [Dispatch (currently_running t)]"
  have w: "life_run ?w \<lparr>pool = pool_of s ?U, core = None\<rparr> = Some (life_view ThreadMode t (set R' \<union> set W'))"
    using d by (simp add: life_run_append m(1) del: life_step.simps)
  show ?thesis
  proof (cases m)
    case SwitchPending
    then have "life_run ?w (life_view m s ?U) = Some (life_view ThreadMode t (set R' \<union> set W'))" using w by (simp add: life_view_def)
    from followsI [OF T(1) m(2) this] show ?thesis
      using idle_only SwitchPending by (intro exI [of _ ?ns] exI [of _ "currently_running t"]) simp
  next
    case ThreadMode
    have c: "currently_running s \<in> ?U" "ready s (currently_running s)" using D(6) ThreadMode by (simp_all add: selected_def)
    have "leave (status_of READY) (life_view ThreadMode s ?U) = Some \<lparr>pool = pool_of s ?U, core = None\<rparr>"
      by (rule leave_view [OF c]) (use c(2) in \<open>simp add: ready_def\<close>)
    then have "life_run (Release # ?w) (life_view m s ?U) = Some (life_view ThreadMode t (set R' \<union> set W'))"
      using w ThreadMode by simp
    from followsI [OF T(1) m(2) this] show ?thesis
      using idle_only ThreadMode by (intro exI [of _ ?ns] exI [of _ "currently_running t"]) simp
  qed
qed

text \<open>The interrupts.  The serial one wakes the io task at most.\<close>

lemma still_print: "print bs s = Inr t \<Longrightarrow> still s t"
  using print_outcome [of s bs] by (intro still_bus) simp

lemma still_read: "READ_REGISTER a s = (v, t) \<Longrightarrow> still s t" "read_data_register s = (v, t) \<Longrightarrow> still s t" for s :: kernel
  unfolding read_data_register_def by (rule still_bus [OF READ_bus]; assumption)+

lemma still_io: "still s (s\<lparr>io := i\<rparr>)"
  by (rule stillI) (simp_all add: same_queues_def)

lemma still_mem: "still s (s\<lparr>mem := m\<rparr>)"
  by (rule stillI) (simp_all add: same_queues_def)

lemma still_overrun:
  assumes "rx_overrun s = Inr t"
  shows "still s t"
proof -
  obtain s2 where "(if \<not> hostIsNotified (io s)
      then bnd (print [-1, -1, -1, -1] s) (\<lambda>t. Inr (t\<lparr>io := (io t)\<lparr>hostIsNotified := True\<rparr>\<rparr>)) else Inr s) = Inr s2"
    and r: "(let (sr2, s3) = READ_REGISTER USART1_sr s2 in
       bnd (if sr2 AND shl 1 UART_RXNE \<noteq> 0 then
              let (d, t) = read_data_register s3 in
              bnd (wr (uart_rx_buffer (io t)) (uint (bytes_received (io t))) (ucast d)) (\<lambda>b.
              Inr (t\<lparr>io := (io t)\<lparr>uart_rx_buffer := b\<rparr>\<rparr>))
            else Inr s3) (\<lambda>s4. Inr (s4\<lparr>io := (io s4)\<lparr>bytes_received := 0\<rparr>\<rparr>))) = Inr t"
    using assms unfolding rx_overrun_def by (elim bnd_InrE) (rule that)
  then have s2: "still s s2"
    by (auto simp: bnd_eq_Inr intro: still_trans [OF still_print still_io] stillI split: if_splits)
  obtain sr s3 where sr: "READ_REGISTER USART1_sr s2 = (sr, s3)" by fastforce
  obtain d u where d: "read_data_register s3 = (d, u)" by fastforce
  have "still s3 t"
    using r unfolding sr by (auto simp: d bnd_eq_Inr intro: still_trans [OF still_read(2) [OF d] still_trans [OF still_io still_io]] still_io split: if_splits)
  with s2 sr show ?thesis by (blast intro: still_trans still_read)
qed

lemma full_count: "b + 1 = BUFFERSIZE \<longleftrightarrow> b = 3" for b :: u8
proof
  assume "b + 1 = BUFFERSIZE"
  then have "b + 1 - 1 = BUFFERSIZE - 1" by (rule arg_cong)
  then show "b = 3" by simp
qed simp

lemma command_woke:
  assumes c: "rx_command b s = Inr t"
  obtains s5 s6 q where "still s s5" "still s6 t" "wakeup_pid (io_pid s) s5 = Inr (q, s6)"
proof -
  from c obtain s5 s6 q where s5: "store_rx_state (rx_word b AND 0xFF) s = Inr s5"
    and w: "wakeup_pid (pid_arg (external_io_runner_pid (kernel_pids s5))) s5 = Inr (q, s6)"
    and t: "t = s6\<lparr>io := (io s6)\<lparr>bytes_received := 0\<rparr>\<rparr>"
    by (auto simp: rx_command_def bnd_eq_Inr reboot_resets split: if_splits)
  have "still s s5" "kernel_pids s5 = kernel_pids s"
    using s5 by (auto simp: store_rx_state_def Let_def still_io still_mem split: if_splits)
  moreover have "still s6 t" unfolding t by (rule still_io)
  ultimately show ?thesis using w by (intro that [of s5 s6 q]) (simp_all add: io_pid_def)
qed

lemma follows_serial:
  assumes inv: "kernel_inv x F s R W" and f: "fit s R W" and t: "uart_isr_handler s = Inr t"
  shows "follows (if command_complete s then wake_of (waiter (io_pid s) s W) else []) (life_view x s (set R \<union> set W)) x t"
proof -
  note D = kernel_invD [OF inv]
  obtain sr s1 where r: "READ_REGISTER USART1_sr s = (sr, s1)" by fastforce
  have s1: "still s s1" by (rule still_read(1) [OF r])
  show ?thesis
  proof (cases "sr AND shl 1 UART_ORE \<noteq> 0")
    case True
    then have "still s1 t" "\<not> command_complete s"
      using t r by (auto simp: uart_isr_cases [OF r] command_complete_def intro: still_overrun)
    with follows_still [OF still_trans [OF s1] D(1) f] show ?thesis by simp
  next
    case False
    then have b: "rx_byte s1 = Inr t" using t by (simp add: uart_isr_cases [OF r])
    obtain d s3 where d: "read_data_register (s1\<lparr>io := (io s1)\<lparr>hostIsNotified := False\<rparr>\<rparr>) = (d, s3)" by fastforce
    have s3: "still s s3" by (rule still_trans [OF s1 still_trans [OF still_io still_read(2) [OF d]]])
    have b1: "bus_frame s s1" by (rule READ_bus [OF r])
    have b3: "bus_frame (s1\<lparr>io := (io s1)\<lparr>hostIsNotified := False\<rparr>\<rparr>) s3" using d unfolding read_data_register_def by (rule READ_bus)
    have io3: "bytes_received (io s3) = bytes_received (io s)" "kernel_pids s3 = kernel_pids s"
      using dev_frame_kernel [OF dev_frame_bus [OF b1]] dev_frame_kernel [OF dev_frame_bus [OF b3]] by simp_all
    let ?i = "\<lambda>c. (io s3)\<lparr>uart_rx_buffer := c, bytes_received := bytes_received (io s3) + 1\<rparr>"
    from b obtain c where i: "(if bytes_received (?i c) \<noteq> BUFFERSIZE then Inr (s3\<lparr>io := ?i c\<rparr>) else rx_command c (s3\<lparr>io := ?i c\<rparr>)) = Inr t"
      unfolding rx_byte_def Let_def d prod.case by (elim bnd_InrE) (rule that, simp)
    have s4: "still s (s3\<lparr>io := ?i c\<rparr>)" by (rule still_trans [OF s3 still_io])
    have cc: "command_complete s \<longleftrightarrow> bytes_received (?i c) = BUFFERSIZE"
      using False r io3(1) by (simp add: command_complete_def full_count)
    show ?thesis
    proof (cases "bytes_received (?i c) = BUFFERSIZE")
      case True
      with i have "rx_command c (s3\<lparr>io := ?i c\<rparr>) = Inr t" by (simp only: not_True_eq_False if_False simp_thms)
      then obtain s5 s6 q where C: "still (s3\<lparr>io := ?i c\<rparr>) s5" "still s6 t" "wakeup_pid (io_pid (s3\<lparr>io := ?i c\<rparr>)) s5 = Inr (q, s6)"
        by (rule command_woke)
      have p: "io_pid (s3\<lparr>io := ?i c\<rparr>) = io_pid s" using io3(2) by (simp add: io_pid_def)
      from follows_wakeup [OF still_trans [OF s4 C(1)] C(2) D(1) f C(3)] show ?thesis unfolding p if_P [OF cc [THEN iffD2, OF True]] .
    next
      case False
      with i have "Inr (s3\<lparr>io := ?i c\<rparr>) = (Inr t :: kernel res)" by (simp only: not_False_eq_True if_True simp_thms)
      then have "still s t" using s4 by simp
      from follows_still [OF this D(1) f] show ?thesis unfolding cc if_not_P [OF False] .
    qed
  qed
qed

lemma follows_timer:
  assumes inv: "kernel_inv x F s R W" and f: "fit s R W" and t: "tim3_isr_handler s = Inr t"
  shows "follows (if timer_expired s then wake_of (waiter (pid_of_sleeping_task s) s W) else []) (life_view x s (set R \<union> set W)) x t"
proof (cases rule: tim3_isr_cases [of s])
  case (quiet u)
  then have "still s t" "\<not> timer_expired s" using t still_dev by (simp_all add: timer_expired_def)
  with follows_still [OF _ kernel_invD(1) [OF inv] f] show ?thesis by simp
next
  case (expired u)
  note st = still_dev [OF expired(2)]
  have "bnd (wakeup_pid (pid_of_sleeping_task s) u) (\<lambda>(q, s2). Inr s2) = Inr t" using t by (simp only: expired(1))
  then obtain q where w: "wakeup_pid (pid_of_sleeping_task s) u = Inr (q, t)" by (auto simp: bnd_eq_Inr)
  have "still t t" by (rule stillI) simp_all
  from follows_wakeup [OF st this kernel_invD(1) [OF inv] f w] expired(3) show ?thesis by (simp add: timer_expired_def)
qed

text \<open>The supervisor calls that are answered at once.\<close>

lemma still_restore: "still s (restore_psp s)" "still s (restore_psp_if_threadmode s)"
  by (rule stillI; simp add: restore_psp_if_threadmode_def restore_psp_def same_queues_def)+

lemma follows_answered:
  assumes inv: "kernel_inv x F s R W" and f: "fit s R W" and e: "enabled call (SupervisorCall c v) (x, F, s)"
    and t: "trap call (svcall_param (trap_number c) v s) = Inr t"
  shows "follows (if c = wakeupPid then wake_of (waiter v s W) else if c = wakeupIoHandler then wake_of (waiter (io_pid s) s W) else [])
    (life_view x s (set R \<union> set W)) x t"
proof -
  define s1 where "s1 = entered (svcall_param (trap_number c) v s)"
  have "still s (svcall_param (trap_number c) v s)" by (rule stillI) (simp_all add: svcall_param_def same_queues_def)
  from still_trans [OF this still_entered] have st: "still s s1" by (simp add: s1_def)
  have n: "r4_11 (cpu s1) ! 2 = trap_number c" "r4_11 (cpu s1) ! 5 = v" "kernel_pids s1 = kernel_pids s"
    using kernel_invD(5) [OF inv]
    by (simp_all add: s1_def entered_sel svcall_param_def) (simp add: entered_def save_psp_if_threadmode_def)
  note run = t [unfolded trap_entered [where s = "svcall_param (trap_number c) v s", folded s1_def, unfolded n, of call]]
  note ok = kernel_invD(1) [OF inv]
  have quiet: ?thesis if "still s1 t" "c \<noteq> wakeupPid" "c \<noteq> wakeupIoHandler"
    using follows_still [OF still_trans [OF st that(1)] ok f] that(2,3) by simp
  have bus: "still s1 (restore_psp (if SYSTICK s1 then ST_DISABLE s1 else s1))" "still s1 (restore_psp (if SYSTICK s1 then ST_ENABLE s1 else s1))"
    by (auto simp: ST_DISABLE_def ST_ENABLE_def intro: still_restore still_trans [OF still_bus [OF bus_frame_MODIFY [OF bus_frame_refl]]])
  from e consider "c = svc_std" | "c = svc_ste" | "c = setExtIoCallback" | "c = wakeupPid" | "c = getIoBuffer"
    | "c = wakeupIoHandler" | "c = disableIrReception" | "c = enableIrReception"
    | "c = execPriv" "v OR 1 \<in> {enable_exti_addr (syms s) OR 1, enable_adc_addr (syms s) OR 1} \<or>
        callable call (v OR 1) (entered (svcall_param (trap_number execPriv) v s))" by auto
  then show ?thesis
  proof cases
    case 1
    then show ?thesis using run bus(1) by (intro quiet) simp_all
  next
    case 2
    then show ?thesis using run bus(2) by (intro quiet) simp_all
  next
    case 3
    then show ?thesis using run still_trans [OF still_io still_restore(1)] by (intro quiet) auto
  next
    case 4
    with run obtain q u where "wakeup_pid v s1 = Inr (q, u)" "t = restore_psp u" by (auto simp: bnd_eq_Inr n(2))
    with 4 follows_wakeup [OF st _ ok f, of u t v q] still_restore(1) show ?thesis by simp
  next
    case 5
    then show ?thesis using run still_mem by (intro quiet) auto
  next
    case 6
    with run obtain q u where "wakeup_pid (io_pid s) s1 = Inr (q, u)" "t = restore_psp_if_threadmode u"
      by (auto simp: bnd_eq_Inr io_pid_def n(3))
    with 6 follows_wakeup [OF st _ ok f, of u t "io_pid s" q] still_restore(2) show ?thesis by simp
  next
    case 7
    have "still s1 (disable_irq s1)" by (rule stillI) (simp_all add: disable_irq_def same_queues_def)
    from still_trans [OF this still_restore(1)] 7 run show ?thesis by (intro quiet) simp_all
  next
    case 8
    have "still s1 (enable_irq s1)" by (rule stillI) (simp_all add: enable_irq_def same_queues_def)
    from still_trans [OF this still_restore(1)] 8 run show ?thesis by (intro quiet) simp_all
  next
    case 9
    from exec_priv [OF kernel_invD(5) [OF inv] 9(2)] obtain u where
      u: "trap call (svcall_param (trap_number c) v s) = Inr (restore_psp u)" "harmless s1 u" unfolding 9(1) s1_def by blast
    then have "still s1 t" using still_trans [OF still_harmless still_restore(1)] t by auto
    then show ?thesis using 9(1) by (intro quiet) simp_all
  qed
qed

text \<open>The calls that end in a switch.\<close>

lemma follows_yield:
  assumes inv: "kernel_inv ThreadMode F s R W" and f: "fit s R W"
    and t: "trap call (svcall (trap_number yieldTask) s) = Inr t"
  shows "follows [Release] (life_view ThreadMode s (set R \<union> set W)) SwitchPending t"
proof -
  have "still s (svcall (trap_number yieldTask) s)" by (rule stillI) (simp_all add: svcall_def same_queues_def)
  moreover have "r4_11 (cpu (svcall (trap_number yieldTask) s)) ! 2 = trap_number yieldTask"
    using kernel_invD(5) [OF inv] by (simp add: svcall_def)
  then have "yield_case (entered (svcall (trap_number yieldTask) s)) = Inr t" using t by (simp add: trap_entered entered_sel)
  ultimately have "still s t" using still_entered still_yield_case still_trans by blast
  then show ?thesis by (rule follows_release [OF inv f])
qed

lemma follows_message:
  assumes inv: "kernel_inv ThreadMode F s R W" and f: "fit s R W" and t: "trap call (uprint a s) = Inr t"
  shows "follows [Release] (life_view ThreadMode s (set R \<union> set W)) SwitchPending t"
proof -
  have "r4_11 (cpu (uprint a s)) ! 2 = trap_number printMsg"
    using kernel_invD(5) [OF inv] by (simp add: uprint_def svcall_param_def)
  then obtain u where k: "kprint (entered (uprint a s)) = Inr u" "yield_case u = Inr t"
    using t by (auto simp: bnd_eq_Inr trap_entered entered_sel)
  have "still s (uprint a s)" by (rule stillI) (simp_all add: uprint_def svcall_param_def same_queues_def)
  moreover have "still (entered (uprint a s)) u" using k(1) still_print by (auto simp: kprint_def Let_def)
  ultimately have "still s t" using still_entered still_yield_case [OF k(2)] still_trans by blast
  then show ?thesis by (rule follows_release [OF inv f])
qed

lemma follows_block:
  assumes inv: "kernel_inv ThreadMode F v R W" and st: "still s v" and f: "fit s R W"
    and b: "block_current_task v = Inr t" "trap call t = Inr u"
  shows "follows [Suspend] (life_view ThreadMode s (set R \<union> set W)) SwitchPending u"
proof -
  from inv obtain t' R' W' where "block_current_task v = Inr t'" "kernel_inv SwitchPending F t' R' W'"
    "r4_11 (cpu t') ! 2 = trap_number yieldTask" by (rule kernel_inv_block)
  with b(1) have "r4_11 (cpu t) ! 2 = trap_number yieldTask" by simp
  then have "yield_case (entered t) = Inr u" using b(2) by (simp add: trap_entered entered_sel)
  from still_trans [OF still_entered still_yield_case [OF this]] have "still t u" .
  from follows_suspend [OF inv still_fit [OF st f] b(1) this] show ?thesis by (simp add: still_view [OF st])
qed

lemma follows_usage_fault:
  assumes inv: "kernel_inv ThreadMode F s R W" and f: "fit s R W" and p: "pid (task s (currently_running s)) \<noteq> 0"
    and u: "usage_fault_handler s = Inr t"
  shows "follows (if no_coprocessor s then [] else [Halt]) (life_view ThreadMode s (set R \<union> set W))
    (if tstate (task t (currently_running t)) = INVALID then SwitchPending else ThreadMode) t"
  using inv p
proof (cases rule: usage_fault_cases)
  case (fpu v)
  with u have st: "still s t" using still_dev by simp
  moreover have "ready s (currently_running s)" using kernel_invD(6) [OF inv] by (simp add: selected_def)
  ultimately have "tstate (task t (currently_running t)) \<noteq> INVALID" by (simp add: still_def ready_def)
  with follows_still [OF st kernel_invD(1) [OF inv] f] fpu(3) show ?thesis by (simp add: no_coprocessor_def)
next
  case (undefined s1)
  have st: "still s s1" by (rule still_dev [OF undefined(2)])
  have "bnd (invalidate_current_task s1) (\<lambda>s2. Inr (set_pendsv s2)) = Inr t" using u by (simp only: undefined(1))
  then obtain v where v: "invalidate_current_task s1 = Inr v" "t = set_pendsv v" by (auto simp: bnd_eq_Inr)
  have i1: "kernel_inv ThreadMode F s1 R W" by (rule kernel_inv_dev [OF inv undefined(2)])
  have p1: "pid (task s1 (currently_running s1)) \<noteq> 0" using p by (simp add: task_def dev_frame_kernel [OF undefined(2)])
  from i1 p1 obtain v' where "invalidate_current_task s1 = Inr v'" "kernel_inv SwitchPending F (set_pendsv v') R W"
    "tstate (task (set_pendsv v') (currently_running (set_pendsv v'))) = INVALID" by (rule invalidate_ok)
  with v have "tstate (task t (currently_running t)) = INVALID" by simp
  then show ?thesis using follows_halt [OF i1 still_fit [OF st f] p1 v(1)] v(2) undefined(3)
    by (simp add: still_view [OF st] no_coprocessor_def)
qed

lemma follows_hardfault:
  assumes inv: "kernel_inv ThreadMode F s R W" and f: "fit s R W" and p: "pid (task s (currently_running s)) \<noteq> 0"
    and h: "hardfault_handler s = Inr t"
  shows "follows [Halt] (life_view ThreadMode s (set R \<union> set W)) SwitchPending t"
proof -
  let ?s1 = "s\<lparr>process_stats := (process_stats s)\<lparr>num_of_hardfaults := num_of_hardfaults (process_stats s) + 1\<rparr>\<rparr>"
  obtain v where v: "invalidate_current_task ?s1 = Inr v" "t = set_pendsv v"
    using h by (auto simp: bnd_eq_Inr hardfault_handler_def)
  have st: "still s ?s1" by (rule stillI) simp_all
  have "kernel_inv ThreadMode F ?s1 R W" by (rule kernel_inv_same [OF inv steady_upds(4)]) simp_all
  moreover have "pid (task ?s1 (currently_running ?s1)) \<noteq> 0" using p by (simp add: task_def)
  ultimately show ?thesis
    using follows_halt [OF _ still_fit [OF st f] _ v(1)] v(2) by (simp add: still_view [OF st])
qed

section \<open>The simulation\<close>

lemma still_memory:
  assumes "kernel_inv x F s R W"
  shows "table_room n s \<Longrightarrow> allocate n s = Inr (q, t) \<Longrightarrow> still s t" "deallocate a s = Inr (q, t) \<Longrightarrow> still s t"
proof -
  note H = heap_okD(1,2) [OF kernel_invD(3) [OF assms]]
  have fr: "still s t" if "alloc_frame s t" for t using that by (intro stillI) (simp_all add: same_queues_def alloc_frame_kernel)
  show "still s t" if r: "table_room n s" and a: "allocate n s = Inr (q, t)"
  proof -
    from H r obtain q' t' where "allocate n s = Inr (q', t')" "alloc_inv t'" "mutex t' = 0" "alloc_frame s t'" by (rule allocate_contract)
    with a show ?thesis by (intro fr) simp
  qed
  show "still s t" if a: "deallocate a s = Inr (q, t)"
  proof -
    from H obtain q' t' where "deallocate a s = Inr (q', t')" "alloc_inv t'" "mutex t' = 0" "alloc_frame s t'"
      by (rule deallocate_contract [of s a])
    with a show ?thesis by (intro fr) simp
  qed
qed

lemma still_lines:
  assumes inv: "kernel_inv x F s R W"
  shows "still s (init_exti_isr_handling s)"
    and "length (exti_isr_handler (io s)) = 6 \<Longrightarrow> perform call (LinkLine cb g) (x, F, s) = Inr (x', F', s') \<Longrightarrow> still s s'"
    and "perform call (LinkConverter cb) (x, F, s) = Inr (x', F', s') \<Longrightarrow> still s s'"
proof -
  have priv: "still u (restore_psp v)" if "harmless (entered (execute_priviledged a u)) v" for a u v
  proof -
    have "still u (execute_priviledged a u)" by (rule stillI) (simp_all add: execute_priviledged_def svcall_param_def same_queues_def)
    from still_trans [OF still_trans [OF this still_entered] still_trans [OF still_harmless [OF that] still_restore(1)]] show ?thesis .
  qed
  show "still s (init_exti_isr_handling s)" unfolding init_exti_isr_handling_def by (rule still_io)
  show "still s s'" if l: "length (exti_isr_handler (io s)) = 6" and p: "perform call (LinkLine cb g) (x, F, s) = Inr (x', F', s')"
  proof -
    from l obtain i g' t where L: "bus_frame (s\<lparr>io := i\<rparr>) t" "rx_room (io s) \<longrightarrow> rx_room i"
      "link_exti_src cb g s = Inr (g', execute_priviledged (enable_exti_addr (syms t)) t)" by (rule link_runs [where cb = cb and g = g])
    have "rx_room i" using L(2) kernel_invD(7) [OF inv] by blast
    from kernel_inv_bus [OF kernel_inv_io [OF inv this] L(1)] obtain u where
      u: "trap call (execute_priviledged (enable_exti_addr (syms t)) t) = Inr (restore_psp u)"
        "harmless (entered (execute_priviledged (enable_exti_addr (syms t)) t)) u"
      by (rule own_priv [where a = "enable_exti_addr (syms t)" and call = call]) simp
    have "s' = restore_psp u" using p by (simp add: L(3) u(1))
    then show ?thesis using still_trans [OF still_trans [OF still_io still_bus [OF L(1)]] priv [OF u(2)]] by simp
  qed
  show "still s s'" if p: "perform call (LinkConverter cb) (x, F, s) = Inr (x', F', s')"
  proof -
    let ?s1 = "s\<lparr>io := (io s)\<lparr>adc_isr_callback := cb, adc_pos_vector_table := 18\<rparr>\<rparr>"
    have "kernel_inv x F ?s1 R W" by (rule kernel_inv_io [OF inv]) (use kernel_invD(7) [OF inv] in \<open>simp add: rx_room_def\<close>)
    then obtain u where u: "trap call (execute_priviledged (enable_adc_addr (syms s)) ?s1) = Inr (restore_psp u)"
      "harmless (entered (execute_priviledged (enable_adc_addr (syms s)) ?s1)) u"
      by (rule own_priv [where a = "enable_adc_addr (syms s)" and call = call]) simp
    have "s' = restore_psp u" using p by (simp add: link_adc_src_def u(1))
    then show ?thesis using still_trans [OF still_io priv [OF u(2)]] by simp
  qed
qed

lemma perform_follows:
  assumes inv: "kernel_inv x F s R W" and f: "fit s R W" and e: "enabled call e (x, F, s)"
    and p: "perform call e (x, F, s) = Inr (x', F', s')"
  shows "\<exists>w. steps_of e x s R W w \<and> follows w (life_view x s (set R \<union> set W)) x' s'"
proof -
  note still = follows_still [OF _ kernel_invD(1) [OF inv] f] note mem = still_memory [OF inv] note lines = still_lines [OF inv]
  have same: "still s s" by (rule stillI) simp_all
  show ?thesis
  proof (cases e)
    case (Compute r m)
    then have "still s s'" "x' = x" using p by (auto intro!: stillI simp: same_queues_def)
    with still Compute show ?thesis by simp
  next
    case (Devices r i d)
    then have "still s s'" "x' = x" using p by (auto intro!: stillI simp: same_queues_def)
    with still Devices show ?thesis by simp
  next
    case Yield
    then have "trap call (svcall (trap_number yieldTask) s) = Inr s'" "x' = SwitchPending" "x = ThreadMode" using p e by (auto simp: bnd_eq_Inr)
    with inv f follows_yield Yield show ?thesis by simp
  next
    case (Message a)
    then have "trap call (uprint a s) = Inr s'" "x' = SwitchPending" "x = ThreadMode" using p e by (auto simp: bnd_eq_Inr)
    with inv f follows_message Message show ?thesis by simp
  next
    case Block
    then obtain t where t: "block_current_task s = Inr t" "trap call t = Inr s'" "x' = SwitchPending" "x = ThreadMode"
      using p e by (auto simp: bnd_eq_Inr)
    from follows_block [OF _ same f t(1,2)] inv t(3,4) Block show ?thesis by simp
  next
    case (Sleep d)
    then obtain t where t: "task_sleep d s = Inr t" "trap call t = Inr s'" "x' = SwitchPending" "x = ThreadMode"
      using p e by (auto simp: bnd_eq_Inr)
    from inv t(4) have "kernel_inv ThreadMode F s R W" by simp
    then obtain s1 where S: "task_sleep d s = block_current_task s1" "kernel_inv ThreadMode F s1 R W"
      "same_queues s s1" "tcbs s1 = tcbs s" "currently_running s1 = currently_running s" by (rule sleep_is_block)
    from t(1) have "block_current_task s1 = Inr t" by (simp only: S(1))
    from follows_block [OF S(2) stillI [OF S(3-5)] f this t(2)] t(3,4) Sleep show ?thesis by simp
  next
    case Finish
    then have "finish_task s = Inr s'" "x' = SwitchPending" "x = ThreadMode" "pid (task s (currently_running s)) \<noteq> 0"
      using p e by (auto simp: bnd_eq_Inr)
    with inv f follows_finish Finish show ?thesis by simp
  next
    case HardFault
    then have "hardfault_handler s = Inr s'" "x' = SwitchPending" "x = ThreadMode" "pid (task s (currently_running s)) \<noteq> 0"
      using p e by (auto simp: bnd_eq_Inr)
    with inv f follows_hardfault HardFault show ?thesis by simp
  next
    case UsageFault
    then have u: "usage_fault_handler s = Inr s'" "x = ThreadMode" "pid (task s (currently_running s)) \<noteq> 0"
      "x' = (if tstate (task s' (currently_running s')) = INVALID then SwitchPending else x)"
      using p e by (auto simp: bnd_eq_Inr)
    from follows_usage_fault [OF inv [unfolded u(2)] f u(3,1)] show ?thesis unfolding UsageFault u(4) u(2) steps_of.simps by blast
  next
    case (Join q)
    then have "s' = s" "x' = x" using p e by (auto simp: join_task_returns [OF kernel_invD(1) [OF inv]])
    with still [OF same] Join show ?thesis by simp
  next
    case (Create fn ram loc)
    then obtain q where c: "create_task fn ram loc s = Inr (q, s')" "x' = ThreadMode" "x = ThreadMode" "alloc_room s 5 1688" "ram = 0 \<or> ram \<in> F"
      using p e by (auto simp: bnd_eq_Inr)
    from follows_create [OF inv [unfolded c(3)] f c(4,5,1)] show ?thesis unfolding Create steps_of.simps c(2,3) by metis
  next
    case (Allocate n)
    then obtain q where "allocate n s = Inr (q, s')" "x' = x" "table_room n s" using p e by (auto simp: bnd_eq_Inr)
    with mem(1) still Allocate show ?thesis by simp
  next
    case (Deallocate b)
    then obtain q where "deallocate b s = Inr (q, s')" "x' = x" using p e by (auto simp: bnd_eq_Inr)
    with mem(2) still Deallocate show ?thesis by simp
  next
    case CleanUp
    then have c: "search_invalidate_tasks s = Inr s'" "x' = ThreadMode" "x = ThreadMode" using p e by (auto simp: bnd_eq_Inr)
    from follows_reap [OF inv [unfolded c(3)] f c(1)] show ?thesis unfolding CleanUp steps_of.simps c(2,3) by metis
  next
    case (SupervisorCall c v)
    then have "trap call (svcall_param (trap_number c) v s) = Inr s'" "x' = x" using p by (auto simp: bnd_eq_Inr)
    with follows_answered [OF inv f e [unfolded SupervisorCall]] show ?thesis unfolding SupervisorCall steps_of.simps by blast
  next
    case (Vector i)
    with e obtain t where t: "run_isr call i s = Inr t" "harmless s t" using vector_harmless by metis
    then have "s' = t" "x' = x" using p Vector by (auto simp: bnd_eq_Inr)
    with still_harmless [OF t(2)] still Vector show ?thesis by simp
  next
    case InitLines
    then have "still s s'" "x' = x" using p lines(1) by auto
    with still InitLines show ?thesis by simp
  next
    case (LinkLine cb g)
    then have "still s s'" "x' = x" using p e lines(2) by (auto simp: bnd_eq_Inr)
    with still LinkLine show ?thesis by simp
  next
    case (LinkConverter cb)
    then have "still s s'" "x' = x" using p lines(3) by (auto simp: bnd_eq_Inr)
    with still LinkConverter show ?thesis by simp
  next
    case TimerInterrupt
    then have "tim3_isr_handler s = Inr s'" "x' = x" using p by (auto simp: bnd_eq_Inr)
    with follows_timer [OF inv f] show ?thesis unfolding TimerInterrupt steps_of.simps by blast
  next
    case SerialInterrupt
    then have "uart_isr_handler s = Inr s'" "x' = x" using p by (auto simp: bnd_eq_Inr)
    with follows_serial [OF inv f] show ?thesis unfolding SerialInterrupt steps_of.simps by blast
  next
    case Switch
    then have c: "pendsv_isr s = Inr s'" "x' = ThreadMode" using p by (auto simp: bnd_eq_Inr)
    from follows_switch [OF inv f c(1)] show ?thesis unfolding Switch steps_of.simps c(2) by metis
  qed
qed

text \<open>The queues fix the two lists, so a configuration has one abstract state.\<close>

lemma queues_unique:
  assumes "sched_ok s R W" "is_queue s (running_tasks s) R'" "is_queue s (waiting_tasks s) W'"
  shows "R' = R" "W' = W"
  using is_queue_unique [OF assms(2) sched_okD(1) [OF assms(1)]] is_queue_unique [OF assms(3) sched_okD(2) [OF assms(1)]] by simp_all

definition config_fit :: "config \<Rightarrow> bool" where
  "config_fit c \<longleftrightarrow> (case c of (x, F, s) \<Rightarrow> \<exists>R W. kernel_inv x F s R W \<and> fit s R W)"

lemma life_of_view:
  assumes "kernel_inv x F s R W" "fit s R W"
  shows "life_of (x, F, s) l \<longleftrightarrow> l = life_view x s (set R \<union> set W)"
proof
  note ok = kernel_invD(1) [OF assms(1)]
  assume "life_of (x, F, s) l"
  then obtain R' W' where q: "is_queue s (running_tasks s) R'" "is_queue s (waiting_tasks s) W'" "l = life_view x s (set R' \<union> set W')"
    by (auto simp: life_of_def)
  from queues_unique [OF ok q(1,2)] q(3) show "l = life_view x s (set R \<union> set W)" by simp
next
  assume "l = life_view x s (set R \<union> set W)"
  with sched_okD(1,2) [OF kernel_invD(1) [OF assms(1)]] assms(2) show "life_of (x, F, s) l" unfolding life_of_def prod.case by blast
qed

text \<open>The steps an event makes in a configuration.\<close>

definition next_steps :: "event \<Rightarrow> config \<Rightarrow> life_event list \<Rightarrow> bool" where
  "next_steps e c w \<longleftrightarrow> (case c of (x, F, s) \<Rightarrow>
     \<exists>R W. is_queue s (running_tasks s) R \<and> is_queue s (waiting_tasks s) W \<and> steps_of e x s R W w)"

text \<open>One event: the kernel goes on, and its abstract state by the steps the event makes.\<close>

lemma simulate:
  assumes "config_fit c" "enabled call e c" "life_of c l"
  obtains c' l' w where "perform call e c = Inr c'" "config_fit c'" "life_of c' l'" "next_steps e c w" "life_run w l = Some l'"
proof -
  obtain x F s where c: "c = (x, F, s)" by (cases c) auto
  from assms(1) obtain R W where inv: "kernel_inv x F s R W" and f: "fit s R W" by (auto simp: config_fit_def c)
  have "config_ok c" using inv by (auto simp: config_ok_def c)
  from perform_ok [OF this assms(2)] obtain x' F' s' R' W' where p: "perform call e c = Inr (x', F', s')"
    and inv': "kernel_inv x' F' s' R' W'" by (auto simp: goes_on_def config_ok_def)
  from perform_follows [OF inv f assms(2) [unfolded c] p [unfolded c]] obtain R2 W2 w where
    w: "sched_ok s' R2 W2" "fit s' R2 W2" "steps_of e x s R W w"
      "life_run w (life_view x s (set R \<union> set W)) = Some (life_view x' s' (set R2 \<union> set W2))" by (auto simp: follows_def)
  have "R2 = R'" "W2 = W'" using queues_unique [OF kernel_invD(1) [OF inv'] sched_okD(1,2) [OF w(1)]] by simp_all
  note w = w [unfolded this]
  have "config_fit (x', F', s')" using inv' w(2) by (auto simp: config_fit_def)
  moreover have "life_of (x', F', s') (life_view x' s' (set R' \<union> set W'))" using life_of_view [OF inv' w(2)] by simp
  moreover have "l = life_view x s (set R \<union> set W)" using assms(3) life_of_view [OF inv f] c by simp
  moreover have "next_steps e c w"
    using sched_okD(1,2) [OF kernel_invD(1) [OF inv]] w(3) unfolding next_steps_def c prod.case by blast
  ultimately show ?thesis using that p w(4) by blast
qed

lemma config_fit_life: "config_fit c \<Longrightarrow> \<exists>l. life_of c l"
  unfolding config_fit_def by (cases c) (use life_of_view in blast)

lemma reachable_life:
  assumes "reachable call c0 c" "config_fit c0" "life_of c0 l0"
  shows "config_fit c \<and> (\<exists>v l. life_run v l0 = Some l \<and> life_of c l)"
  using assms
proof (induction rule: reachable.induct)
  case start
  then show ?case by (intro conjI exI [of _ "[]"]) simp_all
next
  case (event c e c')
  then obtain v l where v: "config_fit c" "life_run v l0 = Some l" "life_of c l" by blast
  from simulate [OF v(1) event.hyps(2) v(3)] event.hyps(3) obtain l' w where "config_fit c'" "life_of c' l'" "life_run w l = Some l'"
    by (metis sum.inject(2))
  then show ?case using v(2) by (intro conjI exI [of _ "v @ w"]) (auto simp: life_run_append)
qed

lemma start_life:
  assumes "layout_ok (syms s0)" "length (r4_11 (cpu s0)) = 8" "3 < length (timer_configurations (drv s0))"
    and "bootstrap call hwfp loc j1 j2 s0 = Inr s1" "svcall_isr call s1 = Inr s2"
  obtains n where "config_fit (ThreadMode, {}, s2)" "life_of (ThreadMode, {}, s2) \<lparr>pool = [n \<mapsto> Ready], core = Some n\<rparr>"
proof -
  from start_ok(3) [OF assms] obtain n where inv: "kernel_inv ThreadMode {} s2 [n] []" by blast
  have "selected s2 [n]" using kernel_invD(6) [OF inv] by simp
  then have n: "currently_running s2 = n" "tstate (task s2 n) = READY" by (auto simp: selected_def ready_def)
  then have f: "fit s2 [n] []" by (simp add: fit_def)
  have "life_view ThreadMode s2 (set [n] \<union> set []) = \<lparr>pool = [n \<mapsto> Ready], core = Some n\<rparr>"
    using n by (auto simp: life_view_def pool_of_def fun_eq_iff)
  then show ?thesis using life_of_view [OF inv f] inv f that by (auto simp: config_fit_def)
qed



section \<open>A task that has ended\<close>

text \<open>In the abstract machine the task with the core is ready, and only \<open>Reap\<close> removes a task that has ended.\<close>

definition core_ready :: "life \<Rightarrow> bool" where
  "core_ready l \<longleftrightarrow> (\<forall>c. core l = Some c \<longrightarrow> pool l c = Some Ready)"

fun is_reap :: "life_event \<Rightarrow> bool" where
  "is_reap (Reap ns) \<longleftrightarrow> True"
| "is_reap _ \<longleftrightarrow> False"

lemma life_step_ended:
  "life_step e l = Some l' \<Longrightarrow> core_ready l \<Longrightarrow>
   core_ready l' \<and> (\<not> is_reap e \<longrightarrow> pool l n = Some Ended \<longrightarrow> pool l' n = Some Ended)"
  by (cases e) (auto simp: core_ready_def restrict_map_def split: option.splits if_splits)

lemma life_run_ended:
  "life_run w l = Some l' \<Longrightarrow> core_ready l \<Longrightarrow>
   core_ready l' \<and> ((\<forall>e\<in>set w. \<not> is_reap e) \<longrightarrow> pool l n = Some Ended \<longrightarrow> pool l' n = Some Ended)"
proof (induction w arbitrary: l)
  case (Cons e w)
  then show ?case using life_step_ended [of e l _ n] by (force split: option.splits)
qed simp

lemma wake_of_no_reap: "d \<in> set (wake_of q) \<Longrightarrow> \<not> is_reap d"
  by (cases q) (auto simp: wake_of_def)

lemma steps_no_reap: "steps_of e x s R W w \<Longrightarrow> e \<noteq> CleanUp \<Longrightarrow> d \<in> set w \<Longrightarrow> \<not> is_reap d"
  by (cases e) (auto dest: wake_of_no_reap split: if_splits)

text \<open>
  C5. A task that has ended stays so until it is cleaned up: whatever event but the clean-up comes
  next, it is still in the running queue, FINISHED or INVALID, and does not get the core; no wake-up, no
  switch and no other task brings it back.
\<close>
theorem ended_task_stays_ended:
  assumes "layout_ok (syms s0)" "length (r4_11 (cpu s0)) = 8" "3 < length (timer_configurations (drv s0))"
    and "bootstrap call hwfp loc j1 j2 s0 = Inr s1" "svcall_isr call s1 = Inr s2"
    and "reachable call (ThreadMode, {}, s2) (x, F, s)" "sched_ok s R W" "n \<in> set R" "finished s n"
    and "enabled call e (x, F, s)" "e \<noteq> CleanUp" "perform call e (x, F, s) = Inr (x', F', s')"
  shows "\<exists>R' W'. sched_ok s' R' W' \<and> n \<in> set R' \<and> finished s' n \<and> (x' = ThreadMode \<longrightarrow> currently_running s' \<noteq> n)"
proof -
  from assms(1-5) obtain m where m: "config_fit (ThreadMode, {}, s2)" "life_of (ThreadMode, {}, s2) \<lparr>pool = [m \<mapsto> Ready], core = Some m\<rparr>"
    by (rule start_life)
  from reachable_life [OF assms(6) m] obtain R0 W0 where inv0: "kernel_inv x F s R0 W0" "fit s R0 W0" by (auto simp: config_fit_def)
  have "R = R0" "W = W0" using queues_unique [OF kernel_invD(1) [OF inv0(1)] sched_okD(1,2) [OF assms(7)]] by simp_all
  with inv0 have inv: "kernel_inv x F s R W" "fit s R W" by simp_all
  let ?l = "life_view x s (set R \<union> set W)"
  from perform_follows [OF inv assms(10,12)] obtain R' W' w where w: "sched_ok s' R' W'" "fit s' R' W'" "steps_of e x s R W w"
    "life_run w ?l = Some (life_view x' s' (set R' \<union> set W'))" by (auto simp: follows_def)
  have "core_ready ?l"
    using kernel_invD(6) [OF inv(1)] by (cases x) (auto simp: core_ready_def life_view_def pool_of_def selected_def ready_def)
  moreover have "pool ?l n = Some Ended"
    using assms(8,9) by (simp add: life_view_def pool_of_def finished_ended status_ended)
  ultimately have l': "core_ready (life_view x' s' (set R' \<union> set W'))" "pool (life_view x' s' (set R' \<union> set W')) n = Some Ended"
    using life_run_ended [OF w(4), of n] steps_no_reap [OF w(3) assms(11)] by blast+
  then have n: "n \<in> set R' \<union> set W'" "status_of (tstate (task s' n)) = Ended"
    by (auto simp: life_view_def pool_of_def split: if_splits)
  then have "n \<in> set R'" "finished s' n" using w(2) unfolding finished_ended by (auto simp: fit_def)
  moreover have "currently_running s' \<noteq> n" if "x' = ThreadMode" using l' that by (auto simp: core_ready_def life_view_def)
  ultimately show ?thesis using w(1) by blast
qed

text \<open>A task is created and gets the core.\<close>

lemma second_task_runs:
  obtains s1 s2 m n s5 where "bootstrap (\<lambda>a. Inr) False 0x20000800 0 0 zero_kernel = Inr s1" "svcall_isr (\<lambda>a. Inr) s1 = Inr s2"
    "reachable (\<lambda>a. Inr) (ThreadMode, {}, s2) (ThreadMode, {}, s5)" "kernel_inv ThreadMode {} s5 [m, n] []"
    "currently_running s5 = n" "pid (task s5 n) = 1"
proof -
  let ?call = "\<lambda>a. Inr :: kernel \<Rightarrow> kernel res"
  obtain s1 s2 where s: "bootstrap ?call False 0x20000800 0 0 zero_kernel = Inr s1" "svcall_isr ?call s1 = Inr s2"
    by (rule zero_kernel_starts)
  note st = start_ok [OF zero_kernel_boots s]
  from st(3) obtain m where inv2: "kernel_inv ThreadMode {} s2 [m] []" by blast
  have room: "alloc_room s2 (5 + 0) (1688 + 0)" using alloc_room_mono [OF st(2), of 5 1688] by simp
  let ?p = "of_nat (length [m] + length ([] :: addr list)) :: u8"
  have "(0 :: u32) = 0 \<or> 0 \<in> ({} :: addr set)" by simp
  from inv2 room this obtain s3 n stk l where "create_task 0x08001001 0 0x20000800 s2 = Inr (ucast ?p, s3)"
    "kernel_inv ThreadMode ({} - {0}) s3 (if ?p = 0 then [m] else [m] @ [n]) (if ?p = 0 then [] @ [n] else [])"
    "n \<notin> set [m] \<union> set []" "alloc_room s3 0 0" "task s3 n = new_tcb ?p 0 (task_size (tInfo s2)) stk (parent_of_new s2) l"
    "\<forall>k\<in>set [m] \<union> set []. task s3 k = task s2 k" "task_frame (mem s3) (stk + 1472) 0x08001001 (finish_task_addr (syms s2))"
    "drv s3 = drv s2" "io s3 = io s2" "currently_running s3 = currently_running s2"
    by (rule kernel_inv_create_facts)
  then have C: "create_task 0x08001001 0 0x20000800 s2 = Inr (1, s3)" "kernel_inv ThreadMode {} s3 [m, n] []"
    "tstate (task s3 n) = READY" "pid (task s3 n) = 1" "currently_running s3 = currently_running s2"
    by (simp_all add: new_tcb_def)
  have cm: "currently_running s2 = m" using kernel_invD(6) [OF inv2] by (simp add: selected_def)
  let ?dev = "Devices (\<lambda>_. 0) (\<lambda>_. []) 0"
  let ?s4 = "s3\<lparr>mmio := \<lambda>_. 0, inputs := \<lambda>_. [], drv := (drv s3)\<lparr>dma_interrupt_action := 0\<rparr>\<rparr>"
  have inv4: "kernel_inv ThreadMode {} ?s4 [m, n] []" by (rule kernel_inv_dev [OF C(2)]) (simp add: dev_frame_def)
  have a4: "after [m, n] (currently_running ?s4) [n, m]" using C(5) cm by (auto simp: after_def)
  have f4: "find (ready ?s4) [n, m] = Some n" "dma_interrupt_action (drv ?s4) AND 1 = 0" using C(3) by (simp_all add: ready_def task_def)
  from inv4 a4 f4(2,1) obtain s5 where T: "turn ?call (ThreadMode, {}, ?s4) = Inr (ThreadMode, {}, s5)"
    "kernel_inv ThreadMode {} s5 [m, n] []" "currently_running s5 = n" "drv s5 = drv ?s4" "\<forall>k. ready s5 k = ready ?s4 k"
    "\<forall>k. pid (task s5 k) = pid (task ?s4 k)" by (rule turn_selects)
  from T(1) obtain c1 where Y: "perform ?call Yield (ThreadMode, {}, ?s4) = Inr c1" "perform ?call Switch c1 = Inr (ThreadMode, {}, s5)"
    unfolding turn_def by (rule bnd_InrE)
  have r0: "reachable ?call (ThreadMode, {}, s2) (ThreadMode, {}, s3)"
    by (rule reachable.event [OF reachable.start, where e = "Create 0x08001001 0 0x20000800"]) (use room C(1) in simp_all)
  have r1: "reachable ?call (ThreadMode, {}, s2) (ThreadMode, {}, ?s4)" by (rule reachable.event [OF r0, where e = ?dev]) simp_all
  have r2: "reachable ?call (ThreadMode, {}, s2) c1" by (rule reachable.event [OF r1 _ Y(1)]) simp
  have "reachable ?call (ThreadMode, {}, s2) (ThreadMode, {}, s5)" by (rule reachable.event [OF r2 _ Y(2)]) (cases c1, simp)
  moreover have "pid (task s5 n) = 1" using T(6) C(4) by (simp add: task_def)
  ultimately show ?thesis using that [OF s _ T(2,3)] by blast
qed

text \<open>It ends, and the switch passes it over.\<close>

theorem ended_task_stays_ended_witness:
  "\<exists>s1 s2 s6 n s7. bootstrap (\<lambda>a. Inr) False 0x20000800 0 0 zero_kernel = Inr s1 \<and> svcall_isr (\<lambda>a. Inr) s1 = Inr s2 \<and>
     reachable (\<lambda>a. Inr) (ThreadMode, {}, s2) (SwitchPending, {}, s6) \<and> finished s6 n \<and>
     perform (\<lambda>a. Inr) Switch (SwitchPending, {}, s6) = Inr (ThreadMode, {}, s7) \<and> finished s7 n \<and> currently_running s7 \<noteq> n"
proof -
  let ?call = "\<lambda>a. Inr :: kernel \<Rightarrow> kernel res"
  obtain s1 s2 m n s5 where s: "bootstrap ?call False 0x20000800 0 0 zero_kernel = Inr s1" "svcall_isr ?call s1 = Inr s2"
    and T: "reachable ?call (ThreadMode, {}, s2) (ThreadMode, {}, s5)" "kernel_inv ThreadMode {} s5 [m, n] []"
      "currently_running s5 = n" "pid (task s5 n) = 1"
    by (rule second_task_runs)
  have "proper s5 n" by (rule kernel_invD(4) [OF T(2)]) simp
  then have "currently_running s5 \<in> set [m, n]" "parent_task (task s5 (currently_running s5)) \<noteq> NULL"
    "parent_task (task s5 (currently_running s5)) \<noteq> tdata (nodes s5 (currently_running s5))"
    using T(3,4) by (simp_all add: proper_def)
  from finish_task_ok [OF kernel_invD(1) [OF T(2)] this] obtain s6 R W where F: "finish_task s5 = Inr s6" "sched_ok s6 R W"
    "tstate (task s6 n) = FINISHED" "set [m, n] \<subseteq> set R" using T(3) by (metis (no_types, lifting))
  have r: "reachable ?call (ThreadMode, {}, s2) (SwitchPending, {}, s6)"
    by (rule reachable.event [OF T(1), where e = Finish]) (use T(3,4) F(1) in simp_all)
  have e: "enabled ?call Switch (SwitchPending, {}, s6)" by simp
  from perform_ok [OF reachable_ok [OF r start_ok(1) [OF zero_kernel_boots s]] e]
  obtain s7 where P: "perform ?call Switch (SwitchPending, {}, s6) = Inr (ThreadMode, {}, s7)"
    by (auto simp: goes_on_def bnd_eq_Inr)
  have fin: "n \<in> set R" "finished s6 n" using F(3,4) by (simp_all add: finished_def)
  from ended_task_stays_ended [OF zero_kernel_boots s r F(2) fin e _ P] have "finished s7 n" "currently_running s7 \<noteq> n" by auto
  with s r fin(2) P show ?thesis by blast
qed

end
