(* ===== verification/Task_Count.thy ===== *)
theory Task_Count
  imports Kernel_Run
begin

text \<open>How many tasks there can be: their stacks fill the heap, so the pid of a new one never wraps.\<close>

section \<open>What the heap holds\<close>

lemma sum_set_le: "sum f (set xs) \<le> sum_list (map f xs)" for f :: "'b \<Rightarrow> nat"
proof (induction xs)
  case (Cons x xs)
  then show ?case by (cases "x \<in> set xs") (simp_all add: insert_absorb trans_le_add2)
qed simp

lemma total_len_filter: "total_len (filter P es) \<le> total_len es"
  by (induction es) auto

lemma live_total: "sum snd (live s) \<le> total_len (used_entries s)"
proof -
  let ?g = "\<lambda>e. (chunk_addr s e, chunk_len e)" and ?o = "filter is_occupied (used_entries s)"
  have "sum snd (live s) \<le> sum (snd \<circ> ?g) (set ?o)" unfolding live_def by (rule sum_image_le) simp_all
  also have "\<dots> \<le> total_len ?o" using sum_set_le [of chunk_len ?o] by (simp add: total_len_def comp_def)
  also have "\<dots> \<le> total_len (used_entries s)" by (rule total_len_filter)
  finally show ?thesis .
qed

text \<open>Disjoint stacks of 1600 bytes in a heap of 64 KB.\<close>

lemma stacks_fit:
  assumes H: "heap_ok s U F" and fin: "finite U"
  shows "1600 * card U \<le> 65536"
proof -
  note D = heap_okD [OF H]
  let ?stk = "\<lambda>n. stacksection_lower_bound (task s n)"
  have "\<forall>n\<in>U. \<exists>k. 1600 \<le> k \<and> (?stk n, k) \<in> live s" using D(7) by blast
  then obtain k where k: "\<And>n. n \<in> U \<Longrightarrow> 1600 \<le> k n" "\<And>n. n \<in> U \<Longrightarrow> (?stk n, k n) \<in> live s" by metis
  let ?f = "\<lambda>n. (?stk n, k n)"
  have inj: "inj_on ?f U"
  proof (rule inj_onI, rule ccontr)
    fix m n assume mn: "m \<in> U" "n \<in> U" "?f m = ?f n" "m \<noteq> n"
    then show False using D(8) [OF mn(1,2,4)] owned_mem(4) [of s m] owned_mem(4) [of s n] by auto
  qed
  have "1600 * card U = (\<Sum>n\<in>U. 1600)" by simp
  also have "\<dots> \<le> sum k U" using k(1) by (intro sum_mono) simp
  also have "\<dots> = sum snd (?f ` U)" by (simp add: sum.reindex [OF inj])
  also have "\<dots> \<le> sum snd (live s)" using k(2) finite_live(1) by (intro sum_mono2) auto
  also have "\<dots> \<le> 65536" using live_total [of s] D(1) by (simp add: alloc_inv_def)
  finally show ?thesis .
qed

lemma task_count:
  assumes inv: "kernel_inv x F s R W"
  shows "length R + length W \<le> 40"
proof -
  note ok = kernel_invD(1) [OF inv]
  have "card (set R \<union> set W) = length R + length W"
    using card_Un_disjoint [OF _ _ sched_okD(4) [OF ok]] distinct_card [OF sched_okD(10) [OF ok]]
      distinct_card [OF sched_okD(11) [OF ok]] by simp
  then show ?thesis using stacks_fit [OF kernel_invD(3) [OF inv]] by simp
qed

section \<open>The bound\<close>

lemma pid_unat: "unat (ucast (of_nat k :: u8) :: u32) = k" if "k \<le> 255"
proof -
  have u8: "unat (of_nat k :: u8) = k" using that by (simp add: unat_of_nat)
  have "(ucast (of_nat k :: u8) :: u32) = of_nat (unat (of_nat k :: u8))" by simp
  then show ?thesis using that unfolding u8 by (simp add: unat_of_nat)
qed

text \<open>
  C7. At most 40 tasks exist at any time, running, waiting or ended and not yet cleaned up: the 64 KB of
  the heap hold no more stacks.  The pid of a new task, the number of tasks there are cut to
  eight bits, is therefore always that number.
\<close>
theorem task_count_bounded:
  assumes "layout_ok (syms s0)" "length (r4_11 (cpu s0)) = 8" "3 < length (timer_configurations (drv s0))"
    and "bootstrap call hwfp loc j1 j2 s0 = Inr s1" "svcall_isr call s1 = Inr s2"
    and "reachable call (ThreadMode, {}, s2) (x, F, s)" "sched_ok s R W"
  shows "length R + length W \<le> 40 \<and>
    (enabled call (Create fn ram a) (x, F, s) \<longrightarrow>
      (\<exists>p s'. create_task fn ram a s = Inr (p, s') \<and> unat p = length R + length W))"
proof -
  from reachable_ok [OF assms(6) start_ok(1) [OF assms(1-5)]] obtain R0 W0 where inv0: "kernel_inv x F s R0 W0"
    by (auto simp: config_ok_def)
  have "R = R0" "W = W0"
    using is_queue_unique [OF sched_okD(1) [OF assms(7)] sched_okD(1) [OF kernel_invD(1) [OF inv0]]]
      is_queue_unique [OF sched_okD(2) [OF assms(7)] sched_okD(2) [OF kernel_invD(1) [OF inv0]]] by simp_all
  with inv0 have inv: "kernel_inv x F s R W" by simp
  have le: "length R + length W \<le> 40" by (rule task_count [OF inv])
  have "\<exists>p s'. create_task fn ram a s = Inr (p, s') \<and> unat p = length R + length W"
    if "enabled call (Create fn ram a) (x, F, s)"
  proof -
    from that inv have "kernel_inv ThreadMode F s R W" "alloc_room s (5 + 0) (1688 + 0)" "ram = 0 \<or> ram \<in> F" by simp_all
    then obtain s' n where "create_task fn ram a s = Inr (ucast (of_nat (length R + length W) :: u8), s')"
      "kernel_inv ThreadMode (F - {ram}) s' (if of_nat (length R + length W) = (0 :: u8) then R else R @ [n])
         (if of_nat (length R + length W) = (0 :: u8) then W @ [n] else W)"
      by (rule kernel_inv_create_facts)
    moreover have "unat (ucast (of_nat (length R + length W) :: u8) :: u32) = length R + length W"
      by (rule pid_unat) (use le in simp)
    ultimately show ?thesis by blast
  qed
  with le show ?thesis by blast
qed

theorem task_count_bounded_witness:
  "\<exists>s1 s2 R W p s3. bootstrap (\<lambda>a. Inr) False 0x20000800 0 0 zero_kernel = Inr s1 \<and> svcall_isr (\<lambda>a. Inr) s1 = Inr s2 \<and>
     sched_ok s2 R W \<and> length R + length W \<le> 40 \<and> create_task 0x08001001 0 0x20000800 s2 = Inr (p, s3) \<and> unat p = length R + length W"
proof -
  obtain s1 s2 where s: "bootstrap (\<lambda>a. Inr) False 0x20000800 0 0 zero_kernel = Inr s1" "svcall_isr (\<lambda>a. Inr) s1 = Inr s2"
    by (rule zero_kernel_starts)
  note st = start_ok [OF zero_kernel_boots s]
  from st(3) obtain n where "sched_ok s2 [n] []" using kernel_invD(1) by blast
  note b = task_count_bounded [OF zero_kernel_boots s reachable.start this]
  have "enabled (\<lambda>a. Inr) (Create 0x08001001 0 0x20000800) (ThreadMode, {}, s2)"
    using alloc_room_mono [OF st(2), of 5 1688] by simp
  with b [of "0x08001001" 0 "0x20000800"] s \<open>sched_ok s2 [n] []\<close> show ?thesis by blast
qed

end
