(* ===== verification/Upload.thy ===== *)
theory Upload
  imports Kernel_Run
begin

text \<open>
  A program loaded over the serial line: the external io task answers the request with the address of a
  fresh chunk and starts the DMA transfer into it, the DMA interrupt reports its end, and the idle
  task makes a task of what has arrived.
\<close>

section \<open>The request\<close>

text \<open>The descriptor \<open>external_io_runner\<close> builds for \<open>n\<close> bytes to address \<open>a\<close>, and the registers it leads to.\<close>

definition upload_transfer :: "u32 \<Rightarrow> addr \<Rightarrow> DmaTransferSpecifics" where
  "upload_transfer n a =
     \<lparr>dt_tcie = 1, dt_minc = 1, dt_chsel = 4, dt_ndtr = ucast n, dt_stream_number = 5, source_address = 0,
      destination_address = a, dma_job_type = DmaWaitsForExternalTask\<rparr>"

abbreviation (input) stream5 :: addr where "stream5 \<equiv> 0x40026488"

definition upload_armed :: "u32 \<Rightarrow> addr \<Rightarrow> kernel \<Rightarrow> bool" where
  "upload_armed n a s \<longleftrightarrow>
     mmio s (dma stream5 ''dma_sXpar'') = uart ''dr'' \<and> mmio s (dma stream5 ''dma_sXm0ar'') = a \<and>
     mmio s (dma stream5 ''dma_sXndtr'') = n \<and> bit (mmio s (dma stream5 ''dma_sXcr'')) 0"

lemma MODIFY_bit_0: "bit (mmio (MODIFY_REGISTER a (\<lambda>v. v OR 1) s) a) 0"
  by (cases "inputs s a") (auto simp: MODIFY_REGISTER_def READ_REGISTER_def bit_or_iff)

lemma dma_upload:
  assumes "unat n < 2 ^ 16"
  shows "bus_frame s (dma_transfer (upload_transfer n a) PeripherialToMemory UART s)"
    "upload_armed n a (dma_transfer (upload_transfer n a) PeripherialToMemory UART s)"
    "sent (dma_transfer (upload_transfer n a) PeripherialToMemory UART s) = sent s"
proof -
  have b: "Dma2BaseAdress + get_stream_offset 5 = stream5" by (simp add: get_stream_offset_def)
  have n: "(ucast (ucast n :: u16) :: u32) = n" using assms by (simp add: word_unat_eq_iff unsigned_ucast_eq unsigned_take_bit_eq take_bit_nat_eq_self)
  obtain v s1 where r: "READ_REGISTER (dma stream5 ''dma_sXcr'') s = (v, s1)" by fastforce
  define s2 where "s2 = (if v AND 1 \<noteq> 0 then WRITE_REGISTER (dma stream5 ''dma_sXcr'') (v AND NOT 1) s1 else s1)"
  define s6 where "s6 = MODIFY_REGISTER USART1_cr1 (\<lambda>v. v AND NOT (shl 1 5)) (MODIFY_REGISTER USART1_cr3 (\<lambda>v. v OR shl 1 6)
    (WRITE_REGISTER (dma stream5 ''dma_sXm0ar'') a (WRITE_REGISTER (dma stream5 ''dma_sXpar'') (uart ''dr'') s2)))"
  define c where "c = shl (dma_mode_value PeripherialToMemory) 6 OR shl 4 25 OR shl 1 10 OR shl 1 4"
  have t: "dma_transfer (upload_transfer n a) PeripherialToMemory UART s =
    MODIFY_REGISTER (dma stream5 ''dma_sXcr'') (\<lambda>v. v OR 1) (WRITE_REGISTER (dma stream5 ''dma_sXcr'') c
      (WRITE_REGISTER (dma stream5 ''dma_sXndtr'') n s6))"
    by (simp add: dma_transfer_def upload_transfer_def b r n s2_def s6_def c_def Let_def del: dma_addrs uart_addrs)
  have f2: "bus_frame s s2"
    unfolding s2_def using READ_bus [OF r] bus_frame_trans by (auto intro: bus_frame_WRITE)
  show "bus_frame s (dma_transfer (upload_transfer n a) PeripherialToMemory UART s)"
    unfolding t s6_def using f2 by (intro bus_frame_intros)
  have "mmio s6 (dma stream5 ''dma_sXpar'') = uart ''dr''" "mmio s6 (dma stream5 ''dma_sXm0ar'') = a"
    by (simp_all add: s6_def)
  then show "upload_armed n a (dma_transfer (upload_transfer n a) PeripherialToMemory UART s)"
    unfolding t upload_armed_def using MODIFY_bit_0 by simp
  have m: "sent (MODIFY_REGISTER x g u) = sent u" if "x \<noteq> uart ''dr''" for x g and u :: kernel
    using that by (simp add: sent_def MODIFY_REGISTER_def READ_REGISTER_def split: list.split)
  have w: "sent (WRITE_REGISTER x v u) = sent u" if "x \<noteq> uart ''dr''" for x v and u :: kernel
    using that by (simp add: sent_def)
  have "sent s2 = sent s" using r by (auto simp: s2_def sent_def READ_REGISTER_def split: list.splits)
  then show "sent (dma_transfer (upload_transfer n a) PeripherialToMemory UART s) = sent s"
    unfolding t s6_def by (simp add: m w)
qed

text \<open>The allocator touches no device register but the one of SysTick.\<close>

definition same_devices :: "'z machine_scheme \<Rightarrow> 'z machine_scheme \<Rightarrow> bool" where
  "same_devices s t \<longleftrightarrow> sent t = sent s \<and> (\<forall>a. a \<noteq> STK_CTRL \<longrightarrow> mmio t a = mmio s a \<and> inputs t a = inputs s a)"

lemma same_devices_trans: "same_devices s t \<Longrightarrow> same_devices t u \<Longrightarrow> same_devices s u"
  by (simp add: same_devices_def)

lemma same_devices_intros:
  "same_devices s s" "same_devices s (ST_DISABLE s)" "same_devices s (ST_ENABLE s)" "same_devices t (release_mutex t)"
  "same_devices t (count_alloc t)" "same_devices t (t\<lparr>MEM_TABLE := T\<rparr>)" "same_devices t (t\<lparr>mutex := m\<rparr>)"
  by (auto simp: same_devices_def sent_def ST_DISABLE_def ST_ENABLE_def MODIFY_REGISTER_def READ_REGISTER_def
      release_mutex_def count_alloc_def split: list.split)

lemma allocate_loop_devices: "allocate_loop sz i c s = Inr (p, t) \<Longrightarrow> same_devices s t"
proof (induction sz i c s rule: allocate_loop.induct)
  case (1 sz i c s)
  note I = same_devices_intros and T = same_devices_trans
  have fresh: "same_devices s (ST_ENABLE (release_mutex (count_alloc (s\<lparr>MEM_TABLE := T\<rparr>))))"
    "same_devices s (release_mutex (count_alloc (s\<lparr>MEM_TABLE := T\<rparr>)))" "same_devices s (ST_ENABLE (release_mutex s))" for T
    using T [OF I(6) T [OF I(5) T [OF I(4) I(3)]]] T [OF I(6) T [OF I(5) I(4)]] T [OF I(4) I(3)] by blast+
  show ?case
    using "1.prems" "1.IH"
    by (subst (asm) allocate_loop.simps) (auto simp: Let_def bnd_eq_Inr fresh split: if_splits)
qed

lemma allocate_devices: "allocate sz s = Inr (p, t) \<Longrightarrow> same_devices s t"
  using same_devices_trans [OF same_devices_intros(2) same_devices_trans [OF same_devices_intros(7) allocate_loop_devices]]
    same_devices_trans [OF same_devices_intros(2) same_devices_intros(7)]
  by (auto simp: allocate_def lock_mutex_def bnd_eq_Inr split: if_splits)

text \<open>What a task that blocks leaves of the machine and the heap.\<close>

definition rest_same :: "kernel \<Rightarrow> kernel \<Rightarrow> bool" where
  "rest_same s t \<longleftrightarrow> mmio t = mmio s \<and> inputs t = inputs s \<and> writes t = writes s \<and> tInfo t = tInfo s \<and>
     MEM_TABLE t = MEM_TABLE s \<and> USEABLE_MEM_START t = USEABLE_MEM_START s \<and> mutex t = mutex s \<and> io t = io s"

lemma rest_same_steps:
  "isolate_node q n s = Inr t \<Longrightarrow> rest_same s t"
  "move_node q n s = Inr t \<Longrightarrow> rest_same s t"
  "upd_tcb_of q f s = Inr t \<Longrightarrow> rest_same s t"
  by (auto simp: isolate_node_def typed_access bnd_eq_Inr rest_same_def split: if_splits)
     (auto simp: move_node_def upd_tcb_of_def typed_access bnd_eq_Inr rest_same_def split: if_splits)

lemma block_rest:
  assumes "block_current_task s = Inr t" shows "rest_same s t"
proof -
  from assms obtain s1 s3 s4 q where
    u: "upd_tcb_of (currently_running s) (\<lambda>t. t\<lparr>tstate := WAITING\<rparr>) (disable_irq s) = Inr s1"
    and i: "isolate_node (running_tasks s1) (currently_running s1) (s1\<lparr>task_to_preserve := currently_running s1\<rparr>) = Inr s3"
    and m: "move_node (waiting_tasks s3) (currently_running s3) s3 = Inr s4"
    and t: "t = svcall (trap_number yieldTask) (enable_irq (s4\<lparr>currently_running := q\<rparr>))"
    by (auto simp: block_current_task_def Let_def bnd_eq_Inr)
  show ?thesis
    using rest_same_steps(3) [OF u] rest_same_steps(1) [OF i] rest_same_steps(2) [OF m]
    by (simp add: rest_same_def t disable_irq_def enable_irq_def svcall_def)
qed

lemma rest_same_live: "rest_same s t \<Longrightarrow> live t = live s"
  using alloc_room_cong [of t s] by (simp add: rest_same_def)

text \<open>
  C19. The external io task serves a request to load \<open>n\<close> bytes (the upper three bytes of the received word), from 1 to
  32760, while the memory table has room for one more chunk of that size and with the transmitter ready: it
  sends the address of a fresh chunk of that size to the host, arms stream 5 of the DMA controller
  to fill it from the serial port, and waits: it is the last task of the waiting queue, WAITING, and has asked for a switch.
\<close>

theorem upload_request_served:
  assumes inv: "kernel_inv ThreadMode F s R W" and c: "rx_state (io s) = PREPARE_TASK_TRANSFER"
    and n: "n = drop_bit 8 (rx_word (uart_rx_buffer (io s)))" "0 < unat n" "unat n \<le> 32760"
    and room: "alloc_room s 1 (align_nat 8 (unat n))" and ready: "transmitter_ready s"
  shows "\<exists>a k t R' W'. external_io_runner_turn call s = Inr t \<and> kernel_inv SwitchPending (insert a F) t R' W' \<and>
    a \<notin> fst ` live s \<and> unat n \<le> k \<and> (a, k) \<in> live t \<and> start_adress (tInfo t) = a \<and> task_size (tInfo t) = n \<and>
    sent t = sent s @ map ucast (le32 a) \<and> upload_armed n a t \<and> dma_interrupt_action (drv t) = DmaWaitsForExternalTask \<and>
    W' = W @ [currently_running s] \<and> tstate (task t (currently_running s)) = WAITING \<and> r4_11 (cpu t) ! 2 = trap_number yieldTask"
proof -
  let ?s1 = "s\<lparr>tInfo := (tInfo s)\<lparr>task_size := n\<rparr>\<rparr>"
  have inv1: "kernel_inv ThreadMode F ?s1 R W"
    by (rule kernel_inv_same [OF inv]) (simp_all add: steady_def same_queues_def)
  have room1: "alloc_room ?s1 (Suc 0) (align_nat 8 (unat n) + 0)" using room alloc_room_cong [of ?s1 s] by simp
  from room1 n(2,3) obtain a s2 k where A: "allocate n ?s1 = Inr (a, s2)" "a \<noteq> NULL" "alloc_frame ?s1 s2" "alloc_room s2 0 0"
    "unat n \<le> k" "a \<notin> fst ` live ?s1" "live s2 = insert (a, k) (live ?s1)" by (rule alloc_step)
  have "table_room n ?s1" using room1 n(2,3) by (simp add: alloc_room_def)
  with inv1 obtain a' s2' where "allocate n ?s1 = Inr (a', s2')" "kernel_inv ThreadMode (if a' = NULL then F else insert a' F) s2' R W"
    by (rule kernel_inv_allocate)
  with A(1,2) have inv2: "kernel_inv ThreadMode (insert a F) s2 R W" by simp
  note K = alloc_frame_kernel [OF A(3)]
  let ?s4 = "s2\<lparr>tInfo := (tInfo s2)\<lparr>start_adress := a\<rparr>\<rparr>"
  have "same_devices s s2" using allocate_devices [OF A(1)] by (simp add: same_devices_def sent_def)
  then have "transmitter_ready ?s4" "sent ?s4 = sent s" using ready by (simp_all add: transmitter_ready_def same_devices_def sent_def)
  then obtain s5 where P: "print (le32 a) ?s4 = Inr s5" "sent s5 = sent s @ map ucast (le32 a)" "bus_frame ?s4 s5"
    using print_when_ready [of ?s4 "le32 a"] by metis
  define s6 where "s6 = dma_transfer (upload_transfer n a) PeripherialToMemory UART (set_dma_action DmaWaitsForExternalTask s5)"
  have n16: "unat n < 2 ^ 16" using n(3) by simp
  note T = dma_upload [OF n16, where s = "set_dma_action DmaWaitsForExternalTask s5" and a = a, folded s6_def]
  have f: "dev_frame ?s4 s6"
    using dev_frame_trans [OF dev_frame_bus [OF P(3)] dev_frame_trans [OF _ dev_frame_bus [OF T(1)]]]
    by (simp add: dev_frame_def set_dma_action_def)
  note G = dev_frame_kernel [OF f]
  have "kernel_inv ThreadMode (insert a F) ?s4 R W"
    by (rule kernel_inv_same [OF inv2]) (simp_all add: steady_def same_queues_def)
  then have inv6: "kernel_inv ThreadMode (insert a F) s6 R W"
    by (rule kernel_inv_same [OF _ steady_dev [OF f]]) (simp_all add: same_queues_def G)
  from inv6 obtain t R' W' where B: "block_current_task s6 = Inr t" "kernel_inv SwitchPending (insert a F) t R' W'"
    "tcbs t = (tcbs s6)(tdata (nodes s6 (currently_running s6)) := (task s6 (currently_running s6))\<lparr>tstate := WAITING\<rparr>)"
    "\<forall>m. tdata (nodes t m) = tdata (nodes s6 m)" "drv t = drv s6" "r4_11 (cpu t) ! 2 = trap_number yieldTask"
    "W' = W @ [currently_running s6]" by (rule kernel_inv_block)
  have cr: "currently_running s6 = currently_running s" using G K by simp
  have waits: "W' = W @ [currently_running s]" "tstate (task t (currently_running s)) = WAITING"
    using B(3,4,7) cr by (simp_all add: task_def)
  note BR = block_rest [OF B(1)]
  have K6: "tInfo s6 = (tInfo s2)\<lparr>start_adress := a\<rparr>" "live s6 = live s2"
    using f alloc_room_cong(2) [of s6 s2] G(13-15) by (auto simp: dev_frame_def elim!: ssubst)
  have "drv s6 = drv (set_dma_action DmaWaitsForExternalTask s5)" using T(1) by (auto simp: bus_frame_def elim!: ssubst)
  then have d6: "dma_interrupt_action (drv s6) = DmaWaitsForExternalTask" by (simp add: set_dma_action_def)
  have s6: "sent s6 = sent s @ map ucast (le32 a)" using T(3) P(2) by (simp add: sent_def set_dma_action_def)
  have ti: "tInfo s2 = (tInfo s)\<lparr>task_size := n\<rparr>" using K(15) by simp
  have ti5: "tInfo s5 = tInfo ?s4" using P(3) by (auto simp: bus_frame_def elim!: ssubst)
  have run: "external_io_runner_turn call s = Inr t"
    using c A(1,2) P(1) B(1) ti ti5
    by (simp add: external_io_runner_turn_def n(1) [symmetric] upload_transfer_def [symmetric] s6_def [symmetric] Let_def)
  have R: "sent t = sent s6" "live t = live s6" "tInfo t = tInfo s6" "upload_armed n a t = upload_armed n a s6"
    using rest_same_live [OF BR] BR by (simp_all add: rest_same_def sent_def upload_armed_def)
  show ?thesis
    by (intro exI [of _ a] exI [of _ k] exI [of _ t] exI [of _ R'] exI [of _ W'] conjI run B(2))
       (use A(5-7) R K6 ti T(2) d6 B(5,6) waits s6 alloc_room_cong(2) [of ?s1 s] in \<open>simp_all\<close>)
qed

theorem upload_request_served_witness:
  "\<exists>s1 s2 a t. bootstrap (\<lambda>a. Inr) False 0x20000800 0 0 zero_kernel = Inr s1 \<and> svcall_isr (\<lambda>a. Inr) s1 = Inr s2 \<and>
     external_io_runner_turn (\<lambda>a v. Inr) (s2\<lparr>io := (io s2)\<lparr>rx_state := 1, uart_rx_buffer := [1, 100, 0, 0]\<rparr>,
       mmio := (\<lambda>a. 0xC0), inputs := (\<lambda>a. [])\<rparr>) = Inr t \<and> start_adress (tInfo t) = a \<and> upload_armed 100 a t \<and>
     tstate (task t (currently_running s2)) = WAITING"
proof -
  obtain s1 s2 where s: "bootstrap (\<lambda>a. Inr) False 0x20000800 0 0 zero_kernel = Inr s1" "svcall_isr (\<lambda>a. Inr) s1 = Inr s2"
    by (rule zero_kernel_starts)
  note st = start_ok [OF zero_kernel_boots s]
  from st(1) obtain R W where inv: "kernel_inv ThreadMode {} s2 R W" by (auto simp: config_ok_def)
  let ?s = "s2\<lparr>io := (io s2)\<lparr>rx_state := 1, uart_rx_buffer := [1, 100, 0, 0]\<rparr>, mmio := (\<lambda>a. 0xC0), inputs := (\<lambda>a. [])\<rparr>"
  have inv': "kernel_inv ThreadMode {} ?s R W"
    by (rule kernel_inv_same [OF inv]) (simp_all add: steady_def same_queues_def rx_room_def)
  have n: "(100 :: u32) = drop_bit 8 (rx_word (uart_rx_buffer (io ?s)))"
    by (simp add: rx_word_def drop_bit_eq_div)
  have "alloc_room s2 1 (align_nat 8 (unat (100 :: u32)))" using alloc_room_mono [OF st(2)] by (simp add: align_nat_def)
  then have room: "alloc_room ?s 1 (align_nat 8 (unat (100 :: u32)))" using alloc_room_cong [of ?s s2] by simp
  have rdy: "transmitter_ready ?s" by (simp add: transmitter_ready_def shl_def)
  have "rx_state (io ?s) = PREPARE_TASK_TRANSFER" by simp
  from upload_request_served [OF inv' this n _ _ room rdy] s show ?thesis by simp blast
qed

section \<open>The task\<close>

lemma kernel_inv_short:
  assumes "kernel_inv m F s R W" shows "length R + length W \<le> NUM_OF_SLOTS"
proof -
  note D = kernel_invD [OF assms] note H = heap_okD [OF D(3)] note S = sched_okD [OF D(1)]
  have "owns s (set R \<union> set W)" unfolding owns_def using subsetD [OF H(5) owned_mem(1)] by blast
  then have "length (R @ W) \<le> NUM_OF_SLOTS"
    using S(4,10,11) by (intro in_heap_short [OF H(1)]) (auto simp: owns_def)
  then show ?thesis by simp
qed

text \<open>
  C20. When the transfer has been reported, the idle task makes a task of what has arrived, provided that the chunk is
  one the programs own, the memory table has room for the five chunks of a task, no clean-up is requested
  and slot 1 of the kernel subtasks is empty: a new READY task stands in the running queue, marked as
  external, whose first switch enters the chunk at its start; the chunk now belongs to the task, and the report is taken back.
\<close>

theorem uploaded_task_created:
  assumes inv: "kernel_inv ThreadMode F s R W" and dma: "dma_interrupt_action (drv s) AND DmaTransferedTask \<noteq> 0"
    and a: "a = start_adress (tInfo s)" "a \<in> F" "a \<noteq> 0" and room: "alloc_room s 5 1688"
    and quiet: "clean_up_requests (process_stats s) = 0" "rd (subtasks (io s)) 1 = Inr NULL"
  shows "\<exists>t n R' W'. idle_runner_turn call loc s = Inr t \<and> kernel_inv SwitchPending (F - {a}) t R' W' \<and>
    n \<in> set R' \<and> n \<notin> set R \<union> set W \<and> tstate (task t n) = READY \<and> is_external (task t n) \<and> code_section (task t n) = a \<and>
    task_frame (mem t) (sp (task t n)) a (finish_task_addr (syms s)) \<and> dma_interrupt_action (drv t) = DmaIsIdle"
proof -
  let ?p = "of_nat (length R + length W) :: u8" and ?c = "currently_running s"
  have c: "?c \<in> set R" using kernel_invD(6) [OF inv] by (simp add: selected_def)
  then have "0 < length R + length W" by (cases R) simp_all
  moreover have "unat ?p = length R + length W"
    using kernel_inv_short [OF inv] by (simp add: unat_of_nat take_bit_nat_eq_self del: of_nat_add)
  ultimately have p: "?p \<noteq> 0" by (metis less_irrefl unat_0)
  have room': "alloc_room s (5 + 0) (1688 + 0)" using room by simp
  from inv room' disjI2 [OF a(2)] obtain s2 n stk l where C: "create_task a a loc s = Inr (ucast ?p, s2)"
    "kernel_inv ThreadMode (F - {a}) s2 (if ?p = 0 then R else R @ [n]) (if ?p = 0 then W @ [n] else W)"
    "n \<notin> set R \<union> set W" "task s2 n = new_tcb ?p a (task_size (tInfo s)) stk (parent_of_new s) l"
    "task_frame (mem s2) (stk + 1472) a (finish_task_addr (syms s))" "drv s2 = drv s" "io s2 = io s"
    "currently_running s2 = ?c"
    by (rule kernel_inv_create_facts [where fn = a and a = loc])
  define s3 where "s3 = set_dma_action DmaIsIdle s2"
  have inv3: "kernel_inv ThreadMode (F - {a}) s3 (R @ [n]) W"
    unfolding s3_def by (rule kernel_inv_same [OF C(2) [unfolded if_not_P [OF p]]])
      (simp_all add: steady_def same_queues_def set_dma_action_def)
  have sel: "io s3 = io s" "currently_running s3 = ?c" "task s3 n = task s2 n" "mem s3 = mem s2"
    "dma_interrupt_action (drv s3) = DmaIsIdle"
    using C(7,8) by (simp_all add: s3_def set_dma_action_def task_def)
  have "subtask_loop 3 call 0 s3 = Inr s3" using quiet(2) sel(1) by (simp add: numeral_3_eq_3)
  moreover have "\<exists>sz. size_of_queue (running_tasks s3) s3 = Inr sz"
    using kernel_invD(1) [OF inv3] by (auto simp: sched_ok_def is_queue_def size_of_queue_def typed_access)
  moreover from inv3 obtain t R' W' where B: "block_current_task s3 = Inr t" "kernel_inv SwitchPending (F - {a}) t R' W'"
    "set (R @ [n]) - {?c} \<subseteq> set R'" "tcbs t = (tcbs s3)(tdata (nodes s3 ?c) := (task s3 ?c)\<lparr>tstate := WAITING\<rparr>)"
    "\<forall>m. tdata (nodes t m) = tdata (nodes s3 m)" "mem t = mem s3" "drv t = drv s3"
    unfolding sel(2) [symmetric] by (rule kernel_inv_block)
  ultimately have run: "idle_runner_turn call loc s = Inr t"
    using dma quiet(1) C(1) by (auto simp: idle_runner_turn_def a(1) [symmetric] s3_def [symmetric])
  have nc: "n \<noteq> ?c" using C(3) c by blast
  have "tdata (nodes s3 n) \<noteq> tdata (nodes s3 ?c)"
    using inj_onD [OF sched_okD(6) [OF kernel_invD(1) [OF inv3]], of n ?c] nc c by auto
  then have tk: "task t n = task s2 n" using B(4,5) sel(3) by (simp add: task_def)
  show ?thesis
    by (intro exI [of _ t] exI [of _ n] exI [of _ R'] exI [of _ W'] conjI run B(2) C(3))
       (use B(3,6,7) nc tk p a(3) C(4,5) sel(4,5) in \<open>auto simp: new_tcb_def\<close>)
qed

theorem uploaded_task_created_witness:
  "\<exists>s1 s2 a s3 t n. bootstrap (\<lambda>a. Inr) False 0x20000800 0 0 zero_kernel = Inr s1 \<and> svcall_isr (\<lambda>a. Inr) s1 = Inr s2 \<and>
     allocate 100 s2 = Inr (a, s3) \<and>
     idle_runner_turn (\<lambda>a. Inr) 0x20000800 (set_dma_action DmaTransferedTask (s3\<lparr>tInfo := \<lparr>task_size = 100, start_adress = a\<rparr>,
       io := (io s3)\<lparr>subtasks := replicate 3 0\<rparr>, process_stats := (process_stats s3)\<lparr>clean_up_requests := 0\<rparr>\<rparr>)) = Inr t \<and>
     tstate (task t n) = READY \<and> code_section (task t n) = a"
proof -
  obtain s1 s2 where s: "bootstrap (\<lambda>a. Inr) False 0x20000800 0 0 zero_kernel = Inr s1" "svcall_isr (\<lambda>a. Inr) s1 = Inr s2"
    by (rule zero_kernel_starts)
  note st = start_ok [OF zero_kernel_boots s]
  from st(1) obtain R W where inv: "kernel_inv ThreadMode {} s2 R W" by (auto simp: config_ok_def)
  have "alloc_room s2 (Suc 5) (align_nat 8 (unat (100 :: u32)) + 1688)" using alloc_room_mono [OF st(2)] by (simp add: align_nat_def)
  then obtain a s3 k where A: "allocate 100 s2 = Inr (a, s3)" "a \<noteq> NULL" "alloc_room s3 5 1688" by (rule alloc_step) simp_all
  have "table_room 100 s2" using alloc_room_mono [OF st(2), of 1 104] by (simp add: alloc_room_def align_nat_def)
  with inv obtain a' s' where "allocate 100 s2 = Inr (a', s')" "kernel_inv ThreadMode (if a' = NULL then {} else insert a' {}) s' R W"
    by (rule kernel_inv_allocate)
  with A(1,2) have inv3: "kernel_inv ThreadMode {a} s3 R W" by simp
  let ?s = "set_dma_action DmaTransferedTask (s3\<lparr>tInfo := \<lparr>task_size = 100, start_adress = a\<rparr>,
       io := (io s3)\<lparr>subtasks := replicate 3 0\<rparr>, process_stats := (process_stats s3)\<lparr>clean_up_requests := 0\<rparr>\<rparr>)"
  have "kernel_inv ThreadMode {a} ?s R W"
    by (rule kernel_inv_same [OF inv3]) (simp_all add: steady_def same_queues_def rx_room_def set_dma_action_def)
  moreover have "alloc_room ?s 5 1688" using A(3) alloc_room_cong [of ?s s3] by (simp add: set_dma_action_def)
  ultimately obtain t n where "idle_runner_turn (\<lambda>a. Inr) 0x20000800 ?s = Inr t" "tstate (task t n) = READY" "code_section (task t n) = a"
    using uploaded_task_created [of "{a}" ?s R W a "\<lambda>a. Inr" "0x20000800"] A(2) by (auto simp: set_dma_action_def rd_def)
  with s A(1) show ?thesis by blast
qed

end
