(* ===== verification/Spi.thy ===== *)
theory Spi
  imports Uart
begin

text \<open>
  The serial peripheral interface of the F401: \<open>os/arch/f401/src/spi.c\<close>.  A buffer is the array
  the caller passes; an index outside it is a fault.
\<close>

section \<open>Registers\<close>

definition SpiRegisterMap :: "string list" where
  "SpiRegisterMap = [''cr1'', ''cr2'', ''sr'', ''dr'', ''crcpr'', ''rxcrcr'', ''txcrcr'', ''i2scfgr'', ''i2spr'']"

abbreviation (input) Spi1BaseAdress :: addr where "Spi1BaseAdress \<equiv> 0x40013000"
abbreviation spi :: "string \<Rightarrow> addr" where "spi f \<equiv> reg SpiRegisterMap Spi1BaseAdress f"
abbreviation (input) SPE :: u32 where "SPE \<equiv> 6"
abbreviation (input) BSY :: u32 where "BSY \<equiv> 7"

lemma spi_addrs [simp]:
  "spi ''cr1'' = 0x40013000" "spi ''cr2'' = 0x40013004" "spi ''sr'' = 0x40013008" "spi ''dr'' = 0x4001300C"
  by (simp_all add: reg_def SpiRegisterMap_def)

section \<open>Initialisation\<close>

text \<open>
  \<open>portA0\<close> is the uninitialised local object of \<open>init_spi_gpio\<close>; the code sets every member it
  uses.  The object passed in is returned as the code leaves it.
\<close>

definition init_spi_gpio :: "GpioObject \<Rightarrow> GpioObject \<Rightarrow> 'z machine_scheme \<Rightarrow> GpioObject \<times> 'z machine_scheme" where
  "init_spi_gpio portA0 obj0 s0 =
     (let (obj, s) = init_gpio obj0 s0;
          clk = obj\<lparr>pin := 3, port := 66\<rparr>;
          s1 = set_speed clk High (set_pupdr clk PullDown (set_otyper clk PushPull
                 (into_af clk 5 (set_moder clk AlternateFunctionMode s))));
          miso = clk\<lparr>pin := 4, port := 66\<rparr>;
          s2 = into_af miso 5 (set_moder miso AlternateFunctionMode (set_speed miso High
                 (set_pupdr miso PullUp (set_otyper miso PushPull s1))));
          mosi = miso\<lparr>pin := 5, port := 66\<rparr>;
          s3 = into_af mosi 5 (set_moder mosi AlternateFunctionMode (set_speed mosi High
                 (set_pupdr mosi PullUp (set_otyper mosi OpenDrain s2))));
          (portA, s4) = init_gpio (portA0\<lparr>port := 65\<rparr>) s3;
          csl = portA\<lparr>pin := 15\<rparr>;
          s5 = into_af csl 5 (set_moder csl AlternateFunctionMode (set_otyper csl PushPull (set_pupdr csl PullUp s4)));
          cen = csl\<lparr>pin := 5\<rparr>;
          s6 = set_pin_off cen (set_moder cen GeneralPurposeOutputMode (set_pupdr cen PullDown s5))
      in (mosi, s6))"

definition init_spi :: "GpioObject \<Rightarrow> GpioObject \<Rightarrow> 'z machine_scheme \<Rightarrow> 'z machine_scheme" where
  "init_spi portA0 t0 s =
     (let (t, s1) = init_spi_gpio portA0 (t0\<lparr>port := 66\<rparr>) s;
          s2 = MODIFY_REGISTER (rcc ''apb2enr'') (\<lambda>v. v OR shl 1 12) s1;
          s3 = WRITE_REGISTER (spi ''cr1'') 0 s2;
          s4 = WRITE_REGISTER (spi ''cr1'') (shl 7 3 OR shl 1 2 OR shl 1 9 OR shl 1 8) s3;
          s5 = WRITE_REGISTER (spi ''cr2'') 0 s4
      in WRITE_REGISTER (spi ''cr2'') (shl 1 2) s5)"

section \<open>Transfers\<close>

text \<open>
  The loops run for \<open>t = 0, \<dots>, length\<close>; \<open>k\<close> iterations are left.  (A length of 0xFFFFFFFF, for
  which \<open>t <= length\<close> always holds, reads past any array first.)
\<close>

fun spi_read_loop ::
  "nat \<Rightarrow> nat \<Rightarrow> u8 list \<Rightarrow> u8 list \<Rightarrow> 'z machine_scheme \<Rightarrow> (u8 list \<times> 'z machine_scheme) res" where
  "spi_read_loop 0 t data receive_buffer s = Inr (receive_buffer, s)"
| "spi_read_loop (Suc k) t data receive_buffer s =
     bnd (rd data (int t)) (\<lambda>b.
     bnd (poll (spi ''sr'') (\<lambda>v. v AND shl 1 BSY = 0) (WRITE_REGISTER (spi ''dr'') (ucast b) s)) (\<lambda>s1.
     let (v, s2) = READ_REGISTER (spi ''dr'') s1; spiRetour = (ucast v :: u8) in
     bnd (if t \<noteq> 0 then wr receive_buffer (int t - 1) spiRetour else Inr receive_buffer) (\<lambda>buf.
     spi_read_loop k (t + 1) data buf s2)))"

definition spi_read :: "u8 list \<Rightarrow> u32 \<Rightarrow> u8 list \<Rightarrow> 'z machine_scheme \<Rightarrow> (u8 list \<times> 'z machine_scheme) res" where
  "spi_read data len receive_buffer s =
     bnd (spi_read_loop (Suc (unat len)) 0 data receive_buffer
            (MODIFY_REGISTER (spi ''cr1'') (\<lambda>v. v OR shl 1 SPE) s)) (\<lambda>(buf, s1).
     Inr (buf, MODIFY_REGISTER (spi ''cr1'') (\<lambda>v. v AND NOT (shl 1 SPE)) s1))"

fun spi_write_loop :: "nat \<Rightarrow> nat \<Rightarrow> u8 list \<Rightarrow> 'z machine_scheme \<Rightarrow> 'z machine_scheme res" where
  "spi_write_loop 0 t data s = Inr s"
| "spi_write_loop (Suc k) t data s =
     bnd (rd data (int t)) (\<lambda>b.
     bnd (poll (spi ''sr'') (\<lambda>v. v AND shl 1 BSY = 0) (WRITE_REGISTER (spi ''dr'') (ucast b) s)) (\<lambda>s1.
     spi_write_loop k (t + 1) data s1))"

definition spi_write :: "u8 list \<Rightarrow> u32 \<Rightarrow> 'z machine_scheme \<Rightarrow> 'z machine_scheme res" where
  "spi_write data len s =
     bnd (spi_write_loop (Suc (unat len)) 0 data (MODIFY_REGISTER (spi ''cr1'') (\<lambda>v. v OR shl 1 SPE) s)) (\<lambda>s1.
     Inr (MODIFY_REGISTER (spi ''cr1'') (\<lambda>v. v AND NOT (shl 1 SPE)) s1))"

section \<open>What a transfer does\<close>

text \<open>The values written to the data register, in order.\<close>

definition spi_sent :: "'z machine_scheme \<Rightarrow> u32 list" where
  "spi_sent s = map snd (filter (\<lambda>w. fst w = spi ''dr'') (writes s))"

lemma poll_spi_sent: "poll a p s = Inr s' \<Longrightarrow> spi_sent s' = spi_sent s"
  using poll_shape [of a p s s'] by (auto simp: spi_sent_def)

lemma spi_sent_READ [simp]: "READ_REGISTER a s = (v, s') \<Longrightarrow> spi_sent s' = spi_sent s"
  by (auto simp: READ_REGISTER_def spi_sent_def split: list.splits)

lemma spi_sent_WRITE [simp]:
  "spi_sent (WRITE_REGISTER a v s) = spi_sent s @ (if a = spi ''dr'' then [v] else [])"
  by (simp add: spi_sent_def)

lemma spi_sent_MODIFY [simp]: "a \<noteq> spi ''dr'' \<Longrightarrow> spi_sent (MODIFY_REGISTER a f s) = spi_sent s"
  by (auto simp: MODIFY_REGISTER_def split: prod.split)

lemma spi_read_loop_sent:
  "spi_read_loop k t data buf s = Inr (buf', s') \<Longrightarrow> (k = 0 \<or> t + k \<le> length data) \<and>
   spi_sent s' = spi_sent s @ map ucast (take k (drop t data)) \<and> length buf' = length buf"
proof (induction k t data buf s rule: spi_read_loop.induct)
  case (2 k t data receive_buffer s)
  from "2.prems" obtain b s1 where b: "rd data (int t) = Inr b"
    and p: "poll (spi ''sr'') (\<lambda>v. v AND shl 1 BSY = 0) (WRITE_REGISTER (spi ''dr'') (ucast b) s) = Inr s1"
    and rest: "(let (v, s2) = READ_REGISTER (spi ''dr'') s1; spiRetour = (ucast v :: u8) in
       bnd (if t \<noteq> 0 then wr receive_buffer (int t - 1) spiRetour else Inr receive_buffer) (\<lambda>buf.
       spi_read_loop k (t + 1) data buf s2)) = Inr (buf', s')"
    unfolding spi_read_loop.simps by (elim bnd_InrE) (rule that)
  obtain v s2 where r: "READ_REGISTER (spi ''dr'') s1 = (v, s2)" by fastforce
  from rest obtain buf where
    w: "(if t \<noteq> 0 then wr receive_buffer (int t - 1) (ucast v) else Inr receive_buffer) = Inr buf"
    and l: "spi_read_loop k (t + 1) data buf s2 = Inr (buf', s')"
    unfolding r Let_def prod.case by (elim bnd_InrE) (rule that)
  have t: "t < length data" and bv: "b = data ! t" using b by (auto simp: rd_eq_Inr)
  have len: "length buf = length receive_buffer" using w by (auto simp: wr_eq_Inr split: if_splits)
  note ih = "2.IH" [OF b p refl r [symmetric] refl w l]
  show ?case
    using ih poll_spi_sent [OF p] spi_sent_READ [OF r] t bv len by (auto simp: Cons_nth_drop_Suc [symmetric])
qed auto

lemma spi_write_loop_sent:
  "spi_write_loop k t data s = Inr s' \<Longrightarrow> (k = 0 \<or> t + k \<le> length data) \<and>
   spi_sent s' = spi_sent s @ map ucast (take k (drop t data))"
proof (induction k t data s rule: spi_write_loop.induct)
  case (2 k t data s)
  from "2.prems" obtain b s1 where b: "rd data (int t) = Inr b"
    and p: "poll (spi ''sr'') (\<lambda>v. v AND shl 1 BSY = 0) (WRITE_REGISTER (spi ''dr'') (ucast b) s) = Inr s1"
    and l: "spi_write_loop k (t + 1) data s1 = Inr s'"
    unfolding spi_write_loop.simps by (elim bnd_InrE) (rule that)
  have t: "t < length data" and bv: "b = data ! t" using b by (auto simp: rd_eq_Inr)
  show ?case
    using "2.IH" [OF b p l] poll_spi_sent [OF p] t bv by (auto simp: Cons_nth_drop_Suc [symmetric])
qed auto

text \<open>The unit is idle: it never reports busy.\<close>

definition spi_ready :: "'z machine_scheme \<Rightarrow> bool" where
  "spi_ready s \<longleftrightarrow> inputs s (spi ''sr'') = [] \<and> mmio s (spi ''sr'') AND shl 1 BSY = 0"

lemma poll_spi_ready: "spi_ready s \<Longrightarrow> poll (spi ''sr'') (\<lambda>v. v AND shl 1 BSY = 0) s = Inr s"
  by (simp add: spi_ready_def poll_ready)

lemma spi_ready_WRITE [simp]: "a \<noteq> spi ''sr'' \<Longrightarrow> spi_ready (WRITE_REGISTER a v s) = spi_ready s"
  by (simp add: spi_ready_def)

lemma spi_ready_MODIFY [simp]: "a \<noteq> spi ''sr'' \<Longrightarrow> spi_ready (MODIFY_REGISTER a f s) = spi_ready s"
  by (cases "inputs s a") (auto simp: spi_ready_def MODIFY_REGISTER_def READ_REGISTER_def)

lemma inputs_MODIFY_other [simp]: "b \<noteq> a \<Longrightarrow> inputs (MODIFY_REGISTER a f s) b = inputs s b"
  by (cases "inputs s a") (auto simp: MODIFY_REGISTER_def READ_REGISTER_def)

lemma spi_ready_inputs [simp]:
  "a \<noteq> spi ''sr'' \<Longrightarrow> spi_ready (s\<lparr>inputs := (inputs s)(a := vs)\<rparr>) = spi_ready s"
  by (simp add: spi_ready_def)

lemma spi_write_loop_ready:
  "spi_ready s \<Longrightarrow> t + k \<le> length data \<Longrightarrow> \<exists>s'. spi_write_loop k t data s = Inr s' \<and> spi_ready s' \<and>
     inputs s' = inputs s"
proof (induction k arbitrary: t s)
  case (Suc k)
  let ?s1 = "WRITE_REGISTER (spi ''dr'') (ucast (data ! t)) s"
  have "spi_ready ?s1" using Suc.prems(1) by simp
  moreover obtain s' where "spi_write_loop k (t + 1) data ?s1 = Inr s'" "spi_ready s'" "inputs s' = inputs ?s1"
    using Suc.IH [of ?s1 "t + 1"] Suc.prems calculation by auto
  ultimately show ?case using Suc.prems(2) by (simp add: poll_spi_ready del: spi_addrs)
qed simp

text \<open>The byte received with the \<open>j\<close>-th one sent lands at index \<open>j - 1\<close>.\<close>

lemma spi_read_loop_ready:
  assumes "spi_ready s" "t + k \<le> length data" "t + k \<le> length buf + 1" "k \<le> length (inputs s (spi ''dr''))"
  shows "\<exists>buf' s'. spi_read_loop k t data buf s = Inr (buf', s') \<and> spi_ready s' \<and>
     inputs s' = (inputs s)(spi ''dr'' := drop k (inputs s (spi ''dr''))) \<and> length buf' = length buf \<and>
     (\<forall>j < length buf. buf' ! j = (if t \<le> j + 1 \<and> j + 1 < t + k
                                 then ucast (inputs s (spi ''dr'') ! (j + 1 - t)) else buf ! j))"
  using assms
proof (induction k arbitrary: t buf s)
  case (Suc k)
  obtain v vs where dr: "inputs s (spi ''dr'') = v # vs"
    using Suc.prems(4) by (cases "inputs s (spi ''dr'')") auto
  let ?s1 = "WRITE_REGISTER (spi ''dr'') (ucast (data ! t)) s"
  let ?s2 = "?s1\<lparr>inputs := (inputs ?s1)(spi ''dr'' := vs)\<rparr>"
  have r: "READ_REGISTER (spi ''dr'') ?s1 = (v, ?s2)" using dr by (simp add: READ_REGISTER_def)
  have ready: "spi_ready ?s1" "spi_ready ?s2" using Suc.prems(1) by (simp_all add: spi_ready_def)
  define b where "b = (if t \<noteq> 0 then buf[t - 1 := ucast v] else buf)"
  have w: "(if t \<noteq> 0 then wr buf (int t - 1) (ucast v) else Inr buf) = Inr b"
    using Suc.prems(3) by (auto simp: b_def nat_diff_distrib)
  have lb: "length b = length buf" by (simp add: b_def)
  have i2: "inputs ?s2 (spi ''dr'') = vs" by simp
  have p: "t + 1 + k \<le> length data" "t + 1 + k \<le> length b + 1" "k \<le> length (inputs ?s2 (spi ''dr''))"
    using Suc.prems lb dr unfolding i2 by simp_all
  from Suc.IH [OF ready(2) p] obtain buf' s' where
    l: "spi_read_loop k (t + 1) data b ?s2 = Inr (buf', s')" and rs: "spi_ready s'"
    and i: "inputs s' = (inputs ?s2)(spi ''dr'' := drop k (inputs ?s2 (spi ''dr'')))"
    and lb': "length buf' = length b"
    and e: "\<forall>j < length b. buf' ! j = (if t + 1 \<le> j + 1 \<and> j + 1 < t + 1 + k
              then ucast (inputs ?s2 (spi ''dr'') ! (j + 1 - (t + 1))) else b ! j)"
    by (elim exE conjE) (rule that)
  have run: "spi_read_loop (Suc k) t data buf s = Inr (buf', s')"
    using Suc.prems(2) w l unfolding spi_read_loop.simps
    by (simp add: poll_spi_ready [OF ready(1)] r Let_def del: spi_addrs)
  have i': "inputs s' = (inputs s)(spi ''dr'' := drop (Suc k) (inputs s (spi ''dr'')))"
    unfolding i i2 using dr by auto
  have e': "buf' ! j = (if t \<le> j + 1 \<and> j + 1 < t + Suc k
      then ucast (inputs s (spi ''dr'') ! (j + 1 - t)) else buf ! j)" if "j < length buf" for j
  proof (cases "j + 1 = t")
    case True
    then have bj: "b ! j = ucast v" using that by (auto simp: b_def)
    have "buf' ! j = b ! j" using e that lb True by simp
    then show ?thesis using bj True dr by (simp add: nth_Cons')
  next
    case False
    then have bj: "b ! j = buf ! j" by (auto simp: b_def nth_list_update)
    show ?thesis
    proof (cases "t \<le> j \<and> j < t + k")
      case True
      then have "j + 1 - t = Suc (j - t)" by linarith
      then show ?thesis using e that lb dr True unfolding i2 by simp
    next
      case no: False
      then have "buf' ! j = b ! j" using e that lb by auto
      moreover have "\<not> (t \<le> j + 1 \<and> j + 1 < t + Suc k)" using no False by linarith
      ultimately show ?thesis using bj by auto
    qed
  qed
  have "length buf' = length buf" using lb' lb by simp
  then show ?case using run rs i' e' by (intro exI [of _ buf'] exI [of _ s'] conjI allI impI) assumption+
qed auto

lemma spi_write_ready:
  assumes "spi_ready s" "unat len < length data"
  shows "\<exists>s'. spi_write data len s = Inr s' \<and> spi_ready s' \<and> inputs s' (spi ''dr'') = inputs s (spi ''dr'') \<and>
     spi_sent s' = spi_sent s @ map ucast (take (Suc (unat len)) data)"
proof -
  let ?s0 = "MODIFY_REGISTER (spi ''cr1'') (\<lambda>v. v OR shl 1 SPE) s"
  have "spi_ready ?s0" using assms(1) by simp
  from spi_write_loop_ready [OF this, of 0 "Suc (unat len)" data] assms(2) obtain s' where
    l: "spi_write_loop (Suc (unat len)) 0 data ?s0 = Inr s'" and r: "spi_ready s'" and i: "inputs s' = inputs ?s0"
    by auto
  have sn: "spi_sent s' = spi_sent s @ map ucast (take (Suc (unat len)) data)"
    using spi_write_loop_sent [OF l] by simp
  have e: "spi_write data len s = Inr (MODIFY_REGISTER (spi ''cr1'') (\<lambda>v. v AND NOT (shl 1 SPE)) s')"
    unfolding spi_write_def l by simp
  show ?thesis unfolding e using r i sn by simp
qed

text \<open>The first byte received is dropped, the others fill the buffer from its start.\<close>

lemma spi_read_ready:
  assumes "spi_ready s" "unat len < length data" "unat len \<le> length buf"
    "inputs s (spi ''dr'') = xs @ rest" "length xs = Suc (unat len)"
  shows "\<exists>s'. spi_read data len buf s = Inr (map ucast (tl xs) @ drop (unat len) buf, s') \<and> spi_ready s' \<and>
     inputs s' (spi ''dr'') = rest \<and> spi_sent s' = spi_sent s @ map ucast (take (Suc (unat len)) data)"
proof -
  let ?k = "Suc (unat len)"
  let ?s0 = "MODIFY_REGISTER (spi ''cr1'') (\<lambda>v. v OR shl 1 SPE) s"
  have r0: "spi_ready ?s0" and i0: "inputs ?s0 (spi ''dr'') = xs @ rest" using assms by simp_all
  have p: "0 + ?k \<le> length data" "0 + ?k \<le> length buf + 1" "?k \<le> length (inputs ?s0 (spi ''dr''))"
    unfolding i0 using assms by simp_all
  from spi_read_loop_ready [OF r0 p] obtain buf' s' where
    l: "spi_read_loop ?k 0 data buf ?s0 = Inr (buf', s')" and r: "spi_ready s'"
    and i: "inputs s' = (inputs ?s0)(spi ''dr'' := drop ?k (inputs ?s0 (spi ''dr'')))"
    and lb: "length buf' = length buf"
    and e: "\<forall>j < length buf. buf' ! j = (if 0 \<le> j + 1 \<and> j + 1 < 0 + ?k
              then ucast (inputs ?s0 (spi ''dr'') ! (j + 1 - 0)) else buf ! j)"
    by (elim exE conjE) (rule that)
  have sn: "spi_sent s' = spi_sent s @ map ucast (take ?k data)"
    using spi_read_loop_sent [OF l] by simp
  have b: "buf' = map ucast (tl xs) @ drop (unat len) buf"
  proof (rule nth_equalityI)
    show "length buf' = length (map ucast (tl xs) @ drop (unat len) buf)" using lb assms by simp
    show "buf' ! j = (map ucast (tl xs) @ drop (unat len) buf) ! j" if "j < length buf'" for j
      using e that lb assms unfolding i0 by (auto simp: nth_append nth_tl)
  qed
  have e2: "spi_read data len buf s = Inr (buf', MODIFY_REGISTER (spi ''cr1'') (\<lambda>v. v AND NOT (shl 1 SPE)) s')"
    unfolding spi_read_def l by simp
  have "inputs s' (spi ''dr'') = rest" unfolding i i0 using assms(5) by simp
  then show ?thesis unfolding e2 b using r sn by simp
qed

end
