(* ===== verification/Adc.thy ===== *)
theory Adc
  imports Uart
begin

text \<open>
  The analog converter and the CRC unit of the F401: \<open>os/arch/f401/src/adc.c\<close> and \<open>crc.c\<close>.
  Their register pointers are global variables (\<open>adc_config.adc_registerset\<close>, \<open>crc_regs\<close>),
  null until the unit is initialised.
\<close>

section \<open>adc.c\<close>

definition AdcRegisterMap :: "string list" where
  "AdcRegisterMap = [''sr'', ''cr1'', ''cr2'', ''smpr1'', ''smpr2'', ''jofr1'', ''jofr2'', ''jofr3'', ''jofr4'', ''htr'',
     ''ltr'', ''sqr1'', ''sqr2'', ''sqr3'', ''jsqr'', ''jdr1'', ''jdr2'', ''jdr3'', ''jdr4'', ''dr'']"

abbreviation (input) AdcBaseRegister :: addr where "AdcBaseRegister \<equiv> 0x40012000"
abbreviation (input) EOCIE :: u32 where "EOCIE \<equiv> 5"
abbreviation (input) JEOCIE :: u32 where "JEOCIE \<equiv> 7"
abbreviation (input) ADC1EN :: u32 where "ADC1EN \<equiv> 8"
abbreviation (input) ADON :: u32 where "ADON \<equiv> 0"
abbreviation (input) JSWSTART :: u32 where "JSWSTART \<equiv> 22"
abbreviation (input) JEOC :: u32 where "JEOC \<equiv> 2"
abbreviation (input) JSTRT :: u32 where "JSTRT \<equiv> 3"

abbreviation adc :: "'z machine_scheme \<Rightarrow> string \<Rightarrow> addr" where
  "adc s f \<equiv> reg AdcRegisterMap (adc_registerset (drv s)) f"

definition adc_enable_interrupts :: "'z machine_scheme \<Rightarrow> 'z machine_scheme" where
  "adc_enable_interrupts s = MODIFY_REGISTER (adc s ''cr1'') (\<lambda>v. v OR (shl 1 EOCIE OR shl 1 JEOCIE)) s"

definition adc_disable_interrupts :: "'z machine_scheme \<Rightarrow> 'z machine_scheme" where
  "adc_disable_interrupts s = MODIFY_REGISTER (adc s ''cr1'') (\<lambda>v. v AND NOT (shl 1 EOCIE OR shl 1 JEOCIE)) s"

text \<open>The macro \<open>ANALOG\<close> is 3, which is \<open>AnalogMode\<close>.\<close>

definition adc_init :: "GpioObject \<Rightarrow> 'z machine_scheme \<Rightarrow> GpioObject \<times> 'z machine_scheme" where
  "adc_init gpio_config s =
     (let s1 = MODIFY_REGISTER (rcc ''apb2enr'') (\<lambda>v. v OR shl 1 ADC1EN) s;
          s2 = s1\<lparr>drv := (drv s1)\<lparr>adc_registerset := AdcBaseRegister\<rparr>\<rparr>;
          (g, s3) = init_gpio gpio_config s2;
          s4 = set_moder g AnalogMode s3;
          s5 = MODIFY_REGISTER (adc s4 ''smpr1'') (\<lambda>v. v OR 0x07FFFFFF) s4;
          s6 = MODIFY_REGISTER (adc s5 ''smpr2'') (\<lambda>v. v OR 0x3FFFFFFF) s5
      in (g, MODIFY_REGISTER (adc s6 ''sqr3'') (\<lambda>v. v OR 1) s6))"

definition adc_turn_on :: "'z machine_scheme \<Rightarrow> 'z machine_scheme" where
  "adc_turn_on s = MODIFY_REGISTER (adc s ''cr2'') (\<lambda>v. v OR shl 1 ADON) s"

definition adc_setbit_cr2_generic :: "u32 \<Rightarrow> 'z machine_scheme \<Rightarrow> 'z machine_scheme" where
  "adc_setbit_cr2_generic bit_position s = MODIFY_REGISTER (adc s ''cr2'') (\<lambda>v. v OR shl 1 bit_position) s"

definition adc_acknowledge_interrupt :: "'z machine_scheme \<Rightarrow> 'z machine_scheme" where
  "adc_acknowledge_interrupt s = MODIFY_REGISTER (adc s ''sr'') (\<lambda>v. v AND NOT (shl 1 JEOC OR shl 1 JSTRT)) s"

definition adc_start_conv_injected :: "'z machine_scheme \<Rightarrow> 'z machine_scheme" where
  "adc_start_conv_injected s =
     (let s1 = adc_acknowledge_interrupt s;
          (v, s2) = READ_REGISTER (adc s1 ''cr2'') s1;
          s3 = (if v AND shl 1 ADON = 0 then adc_turn_on s2 else s2)
      in MODIFY_REGISTER (adc s3 ''cr2'') (\<lambda>v. v OR shl 1 JSWSTART) s3)"

definition adc_start_conv_regular :: "'z machine_scheme \<Rightarrow> 'z machine_scheme" where
  "adc_start_conv_regular s = MODIFY_REGISTER (adc s ''cr2'') (\<lambda>v. v OR shl 1 30) s"

definition adc_read_regular_channel :: "'z machine_scheme \<Rightarrow> u32 \<times> 'z machine_scheme" where
  "adc_read_regular_channel s = READ_REGISTER (adc s ''dr'') s"

section \<open>crc.c\<close>

definition CrcRegisterMap :: "string list" where
  "CrcRegisterMap = [''dr'', ''idr'', ''cr'']"

abbreviation (input) CrcBaseAdress :: addr where "CrcBaseAdress \<equiv> 0x40023000"
abbreviation crc :: "'z machine_scheme \<Rightarrow> string \<Rightarrow> addr" where
  "crc s f \<equiv> reg CrcRegisterMap (Machine.crc_regs (drv s)) f"

definition crc_activate :: "'z machine_scheme \<Rightarrow> 'z machine_scheme" where
  "crc_activate s =
     (let s1 = MODIFY_REGISTER (rcc ''ahb1enr'') (\<lambda>v. v OR shl 1 12) s
      in s1\<lparr>drv := (drv s1)\<lparr>crc_regs := CrcBaseAdress\<rparr>\<rparr>)"

definition crc_reset :: "'z machine_scheme \<Rightarrow> 'z machine_scheme" where
  "crc_reset s = WRITE_REGISTER (crc s ''cr'') 1 s"

definition crc_read :: "'z machine_scheme \<Rightarrow> u32 \<times> 'z machine_scheme" where
  "crc_read s = READ_REGISTER (crc s ''dr'') s"

definition crc_feed :: "u32 \<Rightarrow> 'z machine_scheme \<Rightarrow> 'z machine_scheme" where
  "crc_feed val s = WRITE_REGISTER (crc s ''dr'') val s"

definition crc_store_temp :: "u8 \<Rightarrow> 'z machine_scheme \<Rightarrow> 'z machine_scheme" where
  "crc_store_temp val s = WRITE_REGISTER (crc s ''idr'') (ucast val) s"

end
