(* ===== verification/Nrf.thy ===== *)
theory Nrf
  imports Spi Adc
begin

text \<open>
  The driver of the nRF24L01 radio: \<open>packages/lib/nrf2401/src/nrf_io.c\<close>, \<open>nrf_driver.c\<close> and the
  operations inlined from \<open>nrf24l01.h\<close> and \<open>nrf24l01_privates.h\<close>.  A state is the driver's global
  variables and the machine.  The radio itself answers over the serial peripheral interface:
  what it sends is the input of the data register.  A wait takes a number of rounds, after
  which it counts as endless.
\<close>

section \<open>Data\<close>

datatype Nrf24l01RegisterNames =
    CONFIG | EN_AA | EN_RXADDR | SETUP_AW | SETUP_RETR | RF_CH | RF_SETUP | STATUS | OBSERVE_TX | RPD
  | RX_ADDR_P0 | RX_ADDR_P1 | RX_ADDR_P2 | RX_ADDR_P3 | RX_ADDR_P4 | RX_ADDR_P5 | TX_ADDR
  | RX_PW_P0 | RX_PW_P1 | RX_PW_P2 | RX_PW_P3 | RX_PW_P4 | RX_PW_P5 | FIFO_STATUS | DYNDP | FEATURE

fun reg_no :: "Nrf24l01RegisterNames \<Rightarrow> u8" where
  "reg_no CONFIG = 0" | "reg_no EN_AA = 1" | "reg_no EN_RXADDR = 2" | "reg_no SETUP_AW = 3"
| "reg_no SETUP_RETR = 4" | "reg_no RF_CH = 5" | "reg_no RF_SETUP = 6" | "reg_no STATUS = 7"
| "reg_no OBSERVE_TX = 8" | "reg_no RPD = 9" | "reg_no RX_ADDR_P0 = 10" | "reg_no RX_ADDR_P1 = 11"
| "reg_no RX_ADDR_P2 = 12" | "reg_no RX_ADDR_P3 = 13" | "reg_no RX_ADDR_P4 = 14" | "reg_no RX_ADDR_P5 = 15"
| "reg_no TX_ADDR = 16" | "reg_no RX_PW_P0 = 17" | "reg_no RX_PW_P1 = 18" | "reg_no RX_PW_P2 = 19"
| "reg_no RX_PW_P3 = 20" | "reg_no RX_PW_P4 = 21" | "reg_no RX_PW_P5 = 22" | "reg_no FIFO_STATUS = 23"
| "reg_no DYNDP = 0x1C" | "reg_no FEATURE = 0x1D"

text \<open>The names in the order of their numbers, which is the order of the enumeration.\<close>

lemma reg_no_inj [simp]: "reg_no r = reg_no r' \<longleftrightarrow> r = r'"
  by (cases r; cases r'; simp)

instantiation Nrf24l01RegisterNames :: linorder
begin

definition less_eq_Nrf24l01RegisterNames :: "Nrf24l01RegisterNames \<Rightarrow> Nrf24l01RegisterNames \<Rightarrow> bool" where
  "r \<le> r' \<longleftrightarrow> reg_no r \<le> reg_no r'"

definition less_Nrf24l01RegisterNames :: "Nrf24l01RegisterNames \<Rightarrow> Nrf24l01RegisterNames \<Rightarrow> bool" where
  "r < r' \<longleftrightarrow> reg_no r < reg_no r'"

instance
  by standard (auto simp: less_eq_Nrf24l01RegisterNames_def less_Nrf24l01RegisterNames_def dest: order_antisym)

end

datatype TransferType = ReadRegister | WriteRegister | RRxPayload | WTxPayload | FlushTX | FlushRX

datatype OperatingMode = SLAVE | MASTER

record TxObserve =
  totalLostPackages :: u32
  retransmitCount :: u32
  maxRetransmits :: u32
  timeUntilAckArrived :: u32
  totalElapsed :: u32
  bytesSend :: u32
  totalRetransmits :: u32
  signalStrength :: u32
  totalPackages :: u32

record TxConfig =
  autoRetransmitDelay :: u32
  cfg_retransmitCount :: u32

record Nrf24l01Registers =
  config :: u8
  en_aa :: u8
  en_rxaddr :: u8
  setup_aw :: u8
  setup_retr :: u8
  rf_ch :: u8
  rf_setup :: u8
  nrf_status :: u8
  observe_tx :: u8
  rpd :: u8
  rx_addr_p0 :: "u8 list"  \<comment> \<open>8 bytes\<close>
  rx_addr_p1 :: "u8 list"  \<comment> \<open>8 bytes\<close>
  rx_addr_p2 :: u8
  rx_addr_p3 :: u8
  rx_addr_p4 :: u8
  rx_addr_p5 :: u8
  tx_addr :: "u8 list"     \<comment> \<open>8 bytes\<close>
  rx_pw_p0 :: u8
  rx_pw_p1 :: u8
  rx_pw_p2 :: u8
  rx_pw_p3 :: u8
  rx_pw_p4 :: u8
  rx_pw_p5 :: u8
  fifo_status :: u8
  dyndp :: u8
  feature :: u8

text \<open>
  \<open>receivedAckPackage\<close> is the byte of the caller of \<open>transmit_with_autoack\<close> that its interrupt
  handler sets.
\<close>

record nrf_globals =
  rx_buffer :: "u8 list"          \<comment> \<open>\<open>RX_BUFFER_SIZE = sizeof(Nrf24l01Registers_t)\<close>, 47\<close>
  gpio_pa5_ce :: GpioObject
  tx_observe :: TxObserve
  osCoreFunctions :: "addr list"  \<comment> \<open>6 function pointers\<close>
  current_ptr_index :: u32
  timeToSettle :: u32
  tStart :: u32
  gpio_b7 :: GpioObject
  receivedAckPackage :: u8

type_synonym 'z nst = "nrf_globals \<times> 'z machine_scheme"

section \<open>nrf_io.c\<close>

definition configure_package_type :: "u8 \<Rightarrow> TransferType \<Rightarrow> u8" where
  "configure_package_type target_register transfer_type =
     (case transfer_type of
        ReadRegister \<Rightarrow> target_register AND NOT (push_bit 5 7)
      | WriteRegister \<Rightarrow> (push_bit 5 1 OR target_register) AND NOT (push_bit 6 3)
      | RRxPayload \<Rightarrow> 0x61
      | WTxPayload \<Rightarrow> 0xA0
      | FlushTX \<Rightarrow> 0xE1
      | FlushRX \<Rightarrow> 0xE2)"

abbreviation (input) PackageBufferSize :: nat where "PackageBufferSize \<equiv> 33"

text \<open>The copy of the payload behind the command byte: \<open>k\<close> bytes left, \<open>i\<close> the next.\<close>

fun fill_tx :: "nat \<Rightarrow> nat \<Rightarrow> TransferType \<Rightarrow> u8 list \<Rightarrow> u8 list \<Rightarrow> u8 list res" where
  "fill_tx 0 i tt buffer tx = Inr tx"
| "fill_tx (Suc k) i tt buffer tx =
     bnd (if tt \<noteq> RRxPayload then rd buffer (int i) else Inr 0) (\<lambda>b.
     bnd (wr tx (int i + 1) b) (\<lambda>tx1. fill_tx k (i + 1) tt buffer tx1))"

text \<open>
  \<open>tx_buffer\<close> starts uninitialised (here 0); what is sent of it has been written before.  The
  result is the caller's buffer; a null buffer, passed with length 0, is the empty array.
\<close>

definition transfer ::
  "u8 \<Rightarrow> u32 \<Rightarrow> TransferType \<Rightarrow> u8 list \<Rightarrow> 'z machine_scheme \<Rightarrow> (u8 list \<times> 'z machine_scheme) res" where
  "transfer target_register len tt buffer s =
     (let tx0 = (replicate PackageBufferSize 0)[0 := configure_package_type target_register tt] in
      bnd (fill_tx (min (unat len) PackageBufferSize) 0 tt buffer tx0) (\<lambda>tx.
      case tt of
        ReadRegister \<Rightarrow> spi_read tx len buffer s
      | RRxPayload \<Rightarrow> spi_read tx len buffer s
      | _ \<Rightarrow> bnd (spi_write tx len s) (\<lambda>s1. Inr (buffer, s1))))"

definition get_nrf_register :: "Nrf24l01RegisterNames \<Rightarrow> 'z nst \<Rightarrow> (u8 \<times> 'z nst) res" where
  "get_nrf_register r st =
     (case st of (g, s) \<Rightarrow>
        bnd (transfer (reg_no r) 1 ReadRegister (rx_buffer g) s) (\<lambda>(b, s1).
        bnd (rd b 0) (\<lambda>v. Inr (v, g\<lparr>rx_buffer := b\<rparr>, s1))))"

definition get_nrf_register_long :: "Nrf24l01RegisterNames \<Rightarrow> u8 list \<Rightarrow> 'z nst \<Rightarrow> (u8 list \<times> 'z nst) res" where
  "get_nrf_register_long r register_long st =
     (case st of (g, s) \<Rightarrow>
        bnd (transfer (reg_no r) 5 ReadRegister register_long s) (\<lambda>(b, s1). Inr (b, g, s1)))"

text \<open>The writes: \<open>transfer\<close> of one byte, or of five.\<close>

definition nrf_write :: "u8 \<Rightarrow> u32 \<Rightarrow> TransferType \<Rightarrow> u8 list \<Rightarrow> 'z nst \<Rightarrow> 'z nst res" where
  "nrf_write target len tt payload st =
     (case st of (g, s) \<Rightarrow> bnd (transfer target len tt payload s) (\<lambda>(b, s1). Inr (g, s1)))"

definition set_nrf_register_long :: "Nrf24l01RegisterNames \<Rightarrow> u8 list \<Rightarrow> 'z nst \<Rightarrow> 'z nst res" where
  "set_nrf_register_long r payload st = nrf_write (reg_no r) 5 WriteRegister payload st"

definition set_bit_nrf_register :: "Nrf24l01RegisterNames \<Rightarrow> nat \<Rightarrow> 'z nst \<Rightarrow> 'z nst res" where
  "set_bit_nrf_register r bit_position st =
     bnd (get_nrf_register r st) (\<lambda>(current_value, st1).
     nrf_write (reg_no r) 1 WriteRegister [current_value OR push_bit bit_position 1] st1)"

definition clear_bit_nrf_register :: "Nrf24l01RegisterNames \<Rightarrow> nat \<Rightarrow> 'z nst \<Rightarrow> 'z nst res" where
  "clear_bit_nrf_register r bit_position st =
     bnd (get_nrf_register r st) (\<lambda>(current_value, st1).
     nrf_write (reg_no r) 1 WriteRegister [current_value AND NOT (push_bit bit_position 1)] st1)"

definition replace_nrf_register :: "Nrf24l01RegisterNames \<Rightarrow> u8 \<Rightarrow> 'z nst \<Rightarrow> 'z nst res" where
  "replace_nrf_register r new_value st = nrf_write (reg_no r) 1 WriteRegister [new_value] st"

section \<open>nrf_driver.c: registers and flags\<close>

abbreviation (input) PRIM_RX :: nat where "PRIM_RX \<equiv> 0"

definition nrf_power_off :: "'z nst \<Rightarrow> 'z nst res" where
  "nrf_power_off st = clear_bit_nrf_register CONFIG 1 st"

definition nrf_power_on :: "'z nst \<Rightarrow> 'z nst res" where
  "nrf_power_on st = set_bit_nrf_register CONFIG 1 st"

definition append_os_core_function :: "addr \<Rightarrow> nrf_globals \<Rightarrow> nrf_globals res" where
  "append_os_core_function f g =
     bnd (wr (osCoreFunctions g) (uint (current_ptr_index g)) f) (\<lambda>t.
     Inr (g\<lparr>osCoreFunctions := t, current_ptr_index := current_ptr_index g + 1\<rparr>))"

definition get_nrf_rpd :: "'z nst \<Rightarrow> (u8 \<times> 'z nst) res" where
  "get_nrf_rpd st = get_nrf_register RPD st"

definition get_nrf_fifo :: "'z nst \<Rightarrow> (u8 \<times> 'z nst) res" where
  "get_nrf_fifo st = get_nrf_register FIFO_STATUS st"

definition get_nrf_status :: "'z nst \<Rightarrow> (u8 \<times> 'z nst) res" where
  "get_nrf_status st = get_nrf_register STATUS st"

definition get_current_tx_state :: "nrf_globals \<Rightarrow> TxObserve" where
  "get_current_tx_state g = tx_observe g"

definition flush_current_tx_state :: "nrf_globals \<Rightarrow> nrf_globals" where
  "flush_current_tx_state g =
     g\<lparr>tx_observe := \<lparr>totalLostPackages = 0, retransmitCount = 0, maxRetransmits = 0, timeUntilAckArrived = 0,
                     totalElapsed = 0, bytesSend = 0, totalRetransmits = 0, signalStrength = 0, totalPackages = 0\<rparr>\<rparr>"

text \<open>One assignment of \<open>get_nrf_config\<close>: a register into the member \<open>upd\<close> writes.\<close>

definition fetch ::
  "Nrf24l01RegisterNames \<Rightarrow> (u8 \<Rightarrow> Nrf24l01Registers \<Rightarrow> Nrf24l01Registers) \<Rightarrow>
   Nrf24l01Registers \<times> 'z nst \<Rightarrow> (Nrf24l01Registers \<times> 'z nst) res" where
  "fetch r upd cs = (case cs of (c, st) \<Rightarrow> bnd (get_nrf_register r st) (\<lambda>(v, st1). Inr (upd v c, st1)))"

definition fetch_long ::
  "Nrf24l01RegisterNames \<Rightarrow> (Nrf24l01Registers \<Rightarrow> u8 list) \<Rightarrow> (u8 list \<Rightarrow> Nrf24l01Registers \<Rightarrow> Nrf24l01Registers) \<Rightarrow>
   Nrf24l01Registers \<times> 'z nst \<Rightarrow> (Nrf24l01Registers \<times> 'z nst) res" where
  "fetch_long r sel upd cs =
     (case cs of (c, st) \<Rightarrow> bnd (get_nrf_register_long r (sel c) st) (\<lambda>(v, st1). Inr (upd v c, st1)))"

fun run_steps :: "('a \<Rightarrow> 'a res) list \<Rightarrow> 'a \<Rightarrow> 'a res" where
  "run_steps [] x = Inr x"
| "run_steps (f # fs) x = bnd (f x) (run_steps fs)"

definition get_nrf_config :: "Nrf24l01Registers \<Rightarrow> 'z nst \<Rightarrow> (Nrf24l01Registers \<times> 'z nst) res" where
  "get_nrf_config c0 st = run_steps
     [fetch CONFIG (\<lambda>v. config_update (\<lambda>_. v)),
      fetch EN_AA (\<lambda>v. en_aa_update (\<lambda>_. v)),
      fetch EN_RXADDR (\<lambda>v. en_rxaddr_update (\<lambda>_. v)),
      fetch SETUP_AW (\<lambda>v. setup_aw_update (\<lambda>_. v)),
      fetch SETUP_RETR (\<lambda>v. setup_retr_update (\<lambda>_. v)),
      fetch RF_CH (\<lambda>v. rf_ch_update (\<lambda>_. v)),
      fetch RF_SETUP (\<lambda>v. rf_setup_update (\<lambda>_. v)),
      fetch STATUS (\<lambda>v. nrf_status_update (\<lambda>_. v)),
      fetch OBSERVE_TX (\<lambda>v. observe_tx_update (\<lambda>_. v)),
      fetch RPD (\<lambda>v. rpd_update (\<lambda>_. v)),
      fetch_long RX_ADDR_P0 rx_addr_p0 (\<lambda>v. rx_addr_p0_update (\<lambda>_. v)),
      fetch_long RX_ADDR_P1 rx_addr_p1 (\<lambda>v. rx_addr_p1_update (\<lambda>_. v)),
      fetch RX_ADDR_P2 (\<lambda>v. rx_addr_p2_update (\<lambda>_. v)),
      fetch RX_ADDR_P3 (\<lambda>v. rx_addr_p3_update (\<lambda>_. v)),
      fetch RX_ADDR_P4 (\<lambda>v. rx_addr_p4_update (\<lambda>_. v)),
      fetch RX_ADDR_P5 (\<lambda>v. rx_addr_p5_update (\<lambda>_. v)),
      fetch_long TX_ADDR tx_addr (\<lambda>v. tx_addr_update (\<lambda>_. v)),
      fetch RX_PW_P0 (\<lambda>v. rx_pw_p0_update (\<lambda>_. v)),
      fetch RX_PW_P1 (\<lambda>v. rx_pw_p1_update (\<lambda>_. v)),
      fetch RX_PW_P2 (\<lambda>v. rx_pw_p2_update (\<lambda>_. v)),
      fetch RX_PW_P3 (\<lambda>v. rx_pw_p3_update (\<lambda>_. v)),
      fetch RX_PW_P4 (\<lambda>v. rx_pw_p4_update (\<lambda>_. v)),
      fetch RX_PW_P5 (\<lambda>v. rx_pw_p5_update (\<lambda>_. v)),
      fetch FIFO_STATUS (\<lambda>v. fifo_status_update (\<lambda>_. v)),
      fetch DYNDP (\<lambda>v. dyndp_update (\<lambda>_. v)),
      fetch FEATURE (\<lambda>v. feature_update (\<lambda>_. v))] (c0, st)"

definition clear_ir_maxrt_flag :: "'z nst \<Rightarrow> 'z nst res" where
  "clear_ir_maxrt_flag st = set_bit_nrf_register STATUS 4 st"

definition clear_rx_dr_flag :: "'z nst \<Rightarrow> 'z nst res" where
  "clear_rx_dr_flag st = set_bit_nrf_register STATUS 6 st"

definition clear_tx_ds_flag :: "'z nst \<Rightarrow> 'z nst res" where
  "clear_tx_ds_flag st = set_bit_nrf_register STATUS 5 st"

definition enable_crc :: "'z nst \<Rightarrow> (bool \<times> 'z nst) res" where
  "enable_crc st =
     bnd (set_bit_nrf_register CONFIG 3 st) (\<lambda>st1.
     bnd (get_nrf_register CONFIG st1) (\<lambda>(v, st2). Inr (v AND push_bit 3 1 \<noteq> 0, st2)))"

definition disable_crc :: "'z nst \<Rightarrow> (bool \<times> 'z nst) res" where
  "disable_crc st =
     bnd (clear_bit_nrf_register CONFIG 3 st) (\<lambda>st1.
     bnd (get_nrf_register CONFIG st1) (\<lambda>(v, st2). Inr (v AND push_bit 3 1 = 0, st2)))"

definition unset_ce :: "'z nst \<Rightarrow> 'z nst" where
  "unset_ce st = (case st of (g, s) \<Rightarrow> (g, set_pin_off (gpio_pa5_ce g) s))"

definition set_ce :: "'z nst \<Rightarrow> 'z nst" where
  "set_ce st = (case st of (g, s) \<Rightarrow> (g, set_pin_on (gpio_pa5_ce g) s))"

definition start_listening :: "'z nst \<Rightarrow> 'z nst" where
  "start_listening st = set_ce st"

definition stop_listening :: "'z nst \<Rightarrow> 'z nst" where
  "stop_listening st = unset_ce st"

definition enable_rx_and_listen :: "'z nst \<Rightarrow> 'z nst res" where
  "enable_rx_and_listen st =
     bnd (nrf_power_off st) (\<lambda>st1. bnd (set_bit_nrf_register CONFIG PRIM_RX st1) (\<lambda>st2.
     bnd (nrf_power_on st2) (\<lambda>st3. Inr (start_listening st3))))"

definition disable_rx :: "'z nst \<Rightarrow> 'z nst res" where
  "disable_rx st =
     bnd (nrf_power_off st) (\<lambda>st1. bnd (clear_bit_nrf_register CONFIG PRIM_RX st1) (\<lambda>st2.
     bnd (nrf_power_on st2) (\<lambda>st3. Inr (stop_listening st3))))"

text \<open>
  \<open>portA0\<close>, \<open>t0\<close> and \<open>c0\<close> are the uninitialised local objects of \<open>init_spi\<close> and of this
  function.
\<close>

definition configure_device ::
  "GpioObject \<Rightarrow> GpioObject \<Rightarrow> Nrf24l01Registers \<Rightarrow> Nrf24l01Registers \<Rightarrow> OperatingMode \<Rightarrow> 'z nst \<Rightarrow> (bool \<times> 'z nst) res" where
  "configure_device portA0 t0 c0 r mode st =
     (case st of (g, s) \<Rightarrow>
       let s1 = init_spi portA0 t0 s;
           (ce, s2) = init_gpio ((gpio_pa5_ce g)\<lparr>port := 65, pin := 5\<rparr>) s1;
           g1 = g\<lparr>tx_observe := (tx_observe g)\<lparr>bytesSend := 0, totalRetransmits := 0, signalStrength := 0,
                                             totalPackages := 0\<rparr>,
                  gpio_b7 := (gpio_b7 g)\<lparr>pin := 7, port := 66\<rparr>, gpio_pa5_ce := ce\<rparr>
       in bnd (run_steps
            [nrf_power_off,
             replace_nrf_register CONFIG (config r),
             (if mode = SLAVE then set_bit_nrf_register CONFIG PRIM_RX else clear_bit_nrf_register CONFIG PRIM_RX),
             replace_nrf_register EN_RXADDR (en_rxaddr r)] (unset_ce (g1, s2))) (\<lambda>st1.
          bnd (disable_crc st1) (\<lambda>(crc_off, st2).
          if \<not> crc_off then Inr (False, st2)
          else
            bnd (run_steps
              [set_nrf_register_long RX_ADDR_P0 (rx_addr_p0 r),
               set_nrf_register_long RX_ADDR_P1 (rx_addr_p1 r),
               replace_nrf_register RX_PW_P0 (rx_pw_p0 r),
               replace_nrf_register RX_PW_P1 (rx_pw_p1 r),
               set_nrf_register_long TX_ADDR (tx_addr r),
               replace_nrf_register RF_CH (rf_ch r),
               replace_nrf_register RF_SETUP (rf_setup r),
               replace_nrf_register EN_AA (en_aa r),
               replace_nrf_register EN_RXADDR (en_rxaddr r),
               replace_nrf_register SETUP_AW (setup_aw r),
               replace_nrf_register SETUP_RETR (setup_retr r),
               nrf_power_on] st2) (\<lambda>st3.
            bnd (get_nrf_config c0 st3) (\<lambda>(c, st4).
            Inr (\<not> (rf_ch c \<noteq> rf_ch r \<or> rf_setup c \<noteq> rf_setup r \<or> setup_aw c \<noteq> setup_aw r \<or>
                    en_rxaddr c \<noteq> en_rxaddr r), st4))))))"

section \<open>nrf_driver.c: packages\<close>

definition nrf_flush_rx :: "'z nst \<Rightarrow> 'z nst res" where
  "nrf_flush_rx st = nrf_write 0xFF 0 FlushRX [] st"

definition nrf_flush_tx :: "'z nst \<Rightarrow> 'z nst res" where
  "nrf_flush_tx st = nrf_write 0xFF 0 FlushTX [] st"

definition nrf_receive_payload :: "u32 \<Rightarrow> u8 list \<Rightarrow> 'z nst \<Rightarrow> (u8 list \<times> 'z nst) res" where
  "nrf_receive_payload payload_length buffer st =
     (case st of (g, s) \<Rightarrow> bnd (transfer 0xFF payload_length RRxPayload buffer s) (\<lambda>(b, s1). Inr (b, g, s1)))"

definition check_tx_availability :: "'z nst \<Rightarrow> (bool \<times> 'z nst) res" where
  "check_tx_availability st =
     bnd (get_nrf_register FIFO_STATUS st) (\<lambda>(fifo, st1).
     if fifo AND push_bit 4 1 \<noteq> 0 then Inr (False, st1)
     else
       bnd (get_nrf_register STATUS st1) (\<lambda>(stat, st2).
       bnd (if stat AND push_bit 4 1 \<noteq> 0 then clear_ir_maxrt_flag st2 else Inr st2) (\<lambda>st3.
       Inr (True, st3))))"

definition load_tx_buffer :: "u32 \<Rightarrow> u8 list \<Rightarrow> 'z nst \<Rightarrow> (bool \<times> 'z nst) res" where
  "load_tx_buffer len payload st =
     bnd (get_nrf_register FIFO_STATUS st) (\<lambda>(fifo, st1).
     if fifo AND push_bit 5 1 \<noteq> 0 then Inr (False, st1)
     else bnd (nrf_write 0xFF (len + 1) WTxPayload payload st1) (\<lambda>st2. Inr (True, st2)))"

text \<open>
  A call through \<open>osCoreFunctions\<close>: \<open>call\<close> runs the function at an address, with the interrupts
  served meanwhile.
\<close>

type_synonym 'z os_call = "addr \<Rightarrow> 'z nst \<Rightarrow> (u32 \<times> 'z nst) res"

definition read_timer_fn :: "'z os_call \<Rightarrow> 'z nst \<Rightarrow> (u32 \<times> 'z nst) res" where
  "read_timer_fn call st =
     bnd (rd (osCoreFunctions (fst st)) 0) (\<lambda>f. if f = NULL then Inl NullDeref else call f st)"

fun wait_elapsed :: "nat \<Rightarrow> 'z os_call \<Rightarrow> u32 \<Rightarrow> (nrf_globals \<Rightarrow> u32) \<Rightarrow> 'z nst \<Rightarrow> 'z nst res" where
  "wait_elapsed 0 call start delay st = Inl Spin"
| "wait_elapsed (Suc n) call start delay st =
     bnd (read_timer_fn call st) (\<lambda>(t, st1).
     if t - start < delay (fst st1) then wait_elapsed n call start delay st1 else Inr st1)"

definition transmit_single_package :: "nat \<Rightarrow> 'z os_call \<Rightarrow> bool \<Rightarrow> 'z nst \<Rightarrow> (bool \<times> 'z nst) res" where
  "transmit_single_package n call settle st =
     bnd (check_tx_availability st) (\<lambda>(ready, st1).
     if \<not> ready then Inr (False, st1)
     else
       bnd (read_timer_fn call st1) (\<lambda>(start, st2).
       let st3 = set_ce st2 in
       bnd (if settle then wait_elapsed n call start timeToSettle st3 else Inr st3) (\<lambda>st4.
       Inr (True, unset_ce st4))))"

fun wait_tx_empty :: "nat \<Rightarrow> 'z nst \<Rightarrow> 'z nst res" where
  "wait_tx_empty 0 st = Inl Spin"
| "wait_tx_empty (Suc n) st =
     bnd (get_nrf_register FIFO_STATUS st) (\<lambda>(v, st1).
     if v AND push_bit 4 1 \<noteq> 0 then Inr st1 else wait_tx_empty n st1)"

definition transmit_all_packages :: "nat \<Rightarrow> 'z nst \<Rightarrow> (bool \<times> 'z nst) res" where
  "transmit_all_packages n st =
     bnd (check_tx_availability st) (\<lambda>(ready, st1).
     if \<not> ready then Inr (False, st1)
     else bnd (wait_tx_empty n (set_ce st1)) (\<lambda>st2. Inr (True, unset_ce st2)))"

definition check_for_received_data ::
  "Nrf24l01Registers \<Rightarrow> u8 list \<Rightarrow> 'z nst \<Rightarrow> (bool \<times> u8 list \<times> 'z nst) res" where
  "check_for_received_data c response_buffer st =
     bnd (get_nrf_status st) (\<lambda>(v, st1).
     let pipe = drop_bit 1 v AND 7 in
     if pipe \<le> 5 then
       bnd (nrf_receive_payload
              (ucast (if pipe = 0 then rx_pw_p0 c else if pipe = 1 then rx_pw_p1 c else if pipe = 2 then rx_pw_p2 c
                      else if pipe = 3 then rx_pw_p3 c else if pipe = 4 then rx_pw_p4 c else rx_pw_p5 c))
              response_buffer (stop_listening st1)) (\<lambda>(buf, st2).
       Inr (True, buf, start_listening st2))
     else Inr (False, response_buffer, st1))"

section \<open>nrf_driver.c: acknowledged transmission\<close>

text \<open>Single-precision sums and products, rounded once.\<close>

definition f32_add :: "f32 \<Rightarrow> f32 \<Rightarrow> f32" where
  "f32_add x y =
     (let (m, e) = x; (n, d) = y; k = min e d; w = m * 2 ^ nat (e - k) + n * 2 ^ nat (d - k)
      in if 0 \<le> k then f32_quot (w * 2 ^ nat k) 1 else f32_quot w (2 ^ nat (- k)))"

definition f32_mul :: "f32 \<Rightarrow> f32 \<Rightarrow> f32" where
  "f32_mul x y =
     (let (m, e) = x; (n, d) = y; k = e + d
      in if 0 \<le> k then f32_quot (m * n * 2 ^ nat k) 1 else f32_quot (m * n) (2 ^ nat (- k)))"

text \<open>Without a package sent or repeated the quotient is not a number, and its conversion undefined.\<close>

definition signal_strength :: "u32 \<Rightarrow> u32 \<Rightarrow> u32 res" where
  "signal_strength packages retransmits =
     (if packages = 0 \<and> retransmits = 0 then Inl Undefined
      else let p = f32_of_int (uint packages); q = f32_add p (f32_of_int (uint retransmits))
           in Inr (word_of_int (f32_trunc (f32_mul (f32_div p q) (f32_of_int 100)))))"

definition big_endian :: "u32 \<Rightarrow> u8 list" where
  "big_endian v = [ucast (drop_bit 24 v), ucast (drop_bit 16 v), ucast (drop_bit 8 v), ucast v]"

fun crc_feed_bytes :: "u8 list \<Rightarrow> 'z machine_scheme \<Rightarrow> 'z machine_scheme" where
  "crc_feed_bytes [] s = s"
| "crc_feed_bytes (b # bs) s = crc_feed_bytes bs (crc_feed (ucast b) s)"

text \<open>The body of the loop: the result tells whether the package was acknowledged.\<close>

definition autoack_round :: "nat \<Rightarrow> 'z os_call \<Rightarrow> TxConfig \<Rightarrow> GpioObject \<Rightarrow> u8 list \<Rightarrow> 'z nst \<Rightarrow> (bool \<times> 'z nst) res" where
  "autoack_round n call cfg b7 outBuffer st =
     bnd (load_tx_buffer 31 outBuffer st) (\<lambda>(loaded, st1).
     bnd (transmit_single_package n call True st1) (\<lambda>(sent_ok, st2).
     bnd (enable_rx_and_listen st2) (\<lambda>(g3, s3).
     bnd (read_timer_fn call (g3, set_pin_on b7 s3)) (\<lambda>(start, g4, s4).
     let g5 = g4\<lparr>tStart := start\<rparr> in
     bnd (wait_elapsed n call start (\<lambda>g. autoRetransmitDelay cfg) (g5, s4)) (\<lambda>(g6, s6).
     bnd (disable_rx (g6, set_pin_off b7 s6)) (\<lambda>(g7, s7).
     let ob = tx_observe g7 in
     if receivedAckPackage g7 = 0
     then Inr (False, g7\<lparr>tx_observe := ob\<lparr>retransmitCount := retransmitCount ob + 1\<rparr>\<rparr>, s7)
     else Inr (True, g7\<lparr>tx_observe := ob\<lparr>timeUntilAckArrived := timeUntilAckArrived ob - tStart g7,
                                       totalPackages := totalPackages ob + 1,
                                       bytesSend := bytesSend ob + 32\<rparr>\<rparr>, s7)))))))"

fun autoack_loop :: "nat \<Rightarrow> nat \<Rightarrow> 'z os_call \<Rightarrow> TxConfig \<Rightarrow> GpioObject \<Rightarrow> u8 list \<Rightarrow> 'z nst \<Rightarrow> (bool \<times> 'z nst) res" where
  "autoack_loop 0 n call cfg b7 outBuffer st = Inl Spin"
| "autoack_loop (Suc k) n call cfg b7 outBuffer st =
     (if retransmitCount (tx_observe (fst st)) < cfg_retransmitCount cfg then
        bnd (autoack_round n call cfg b7 outBuffer st) (\<lambda>(acked, st1).
        if acked then Inr (True, st1) else autoack_loop k n call cfg b7 outBuffer st1)
      else Inr (False, st))"

text \<open>\<open>b0\<close> is the uninitialised local object of the function.\<close>

definition transmit_with_autoack ::
  "nat \<Rightarrow> 'z os_call \<Rightarrow> GpioObject \<Rightarrow> TxConfig \<Rightarrow> u8 list \<Rightarrow> 'z nst \<Rightarrow> (bool \<times> u8 list \<times> 'z nst) res" where
  "transmit_with_autoack n call b0 cfg outBuffer st =
     (if length outBuffer < 31 then Inl OutOfBounds
      else
        case st of (g, s) \<Rightarrow>
        let (b7, s1) = init_gpio (b0\<lparr>pin := 7, port := 66\<rparr>) s;
            s2 = crc_feed_bytes (take 27 outBuffer) (crc_reset s1);
            (c, s3) = crc_read s2;
            out = take 27 outBuffer @ big_endian c @ drop 31 outBuffer
        in bnd (autoack_loop (Suc (unat (cfg_retransmitCount cfg))) n call cfg b7 out (g, s3)) (\<lambda>(succeeded, g1, s4).
           let ob1 = tx_observe g1;
               ob2 = (if retransmitCount ob1 = cfg_retransmitCount cfg
                      then ob1\<lparr>totalLostPackages := totalLostPackages ob1 + 1\<rparr> else ob1);
               ob3 = (if maxRetransmits ob2 < retransmitCount ob2 then ob2\<lparr>maxRetransmits := retransmitCount ob2\<rparr> else ob2);
               ob4 = ob3\<lparr>totalRetransmits := totalRetransmits ob3 + retransmitCount ob3\<rparr>
           in bnd (signal_strength (totalPackages ob4) (totalRetransmits ob4)) (\<lambda>strength.
              Inr (succeeded, out,
                   g1\<lparr>tx_observe := ob4\<lparr>signalStrength := strength, retransmitCount := 0\<rparr>, receivedAckPackage := 0\<rparr>,
                   s4))))"

fun drain_rx :: "nat \<Rightarrow> Nrf24l01Registers \<Rightarrow> u8 list \<Rightarrow> 'z nst \<Rightarrow> (bool \<times> 'z nst) res" where
  "drain_rx 0 r rx_answer st = Inl Spin"
| "drain_rx (Suc n) r rx_answer st =
     bnd (get_nrf_fifo st) (\<lambda>(fifo, st1).
     if fifo AND 1 \<noteq> 0 then Inr (False, st1)
     else
       bnd (check_for_received_data r rx_answer st1) (\<lambda>(got, buf, st2).
       if got then Inr (True, st2) else drain_rx n r buf st2))"

text \<open>\<open>rx_answer\<close> is the handler's uninitialised array of 32 bytes.\<close>

definition tx_ack_receive_isr ::
  "nat \<Rightarrow> 'z os_call \<Rightarrow> Nrf24l01Registers \<Rightarrow> u8 list \<Rightarrow> 'z nst \<Rightarrow> (bool \<times> 'z nst) res" where
  "tx_ack_receive_isr n call r rx_answer st =
     bnd (read_timer_fn call st) (\<lambda>(t, g1, s1).
     let g2 = g1\<lparr>tx_observe := (tx_observe g1)\<lparr>timeUntilAckArrived := t\<rparr>\<rparr> in
     bnd (clear_rx_dr_flag (g2, s1)) (\<lambda>st3.
     bnd (get_nrf_status st3) (\<lambda>(v, st4).
     if v AND push_bit 5 1 \<noteq> 0 then bnd (clear_tx_ds_flag st4) (\<lambda>st5. Inr (False, st5))
     else drain_rx n r rx_answer st4)))"

section \<open>What goes over the bus\<close>

text \<open>No two register accesses share a command byte, and none is one of the other four commands.\<close>

lemma register_command:
  "configure_package_type (reg_no r) ReadRegister = reg_no r"
  "configure_package_type (reg_no r) WriteRegister = reg_no r + 0x20"
  by (cases r; simp add: configure_package_type_def)+

lemma register_commands_distinct:
  assumes "tt \<in> {ReadRegister, WriteRegister}" "tt' \<in> {ReadRegister, WriteRegister}"
    and "configure_package_type (reg_no r) tt = configure_package_type (reg_no r') tt'"
  shows "r = r' \<and> tt = tt'"
proof -
  have ne: "reg_no a \<noteq> reg_no b + 0x20" for a b
    by (cases a; cases b) simp_all
  from assms show ?thesis using ne ne [symmetric] by (auto simp: register_command)
qed

lemma register_commands_apart:
  assumes "tt \<in> {ReadRegister, WriteRegister}"
  shows "configure_package_type (reg_no r) tt \<notin> {0x61, 0xA0, 0xE1, 0xE2}"
  using assms by (cases r) (auto simp: configure_package_type_def)

text \<open>The bytes a transfer puts behind the command byte.\<close>

definition payload_bytes :: "TransferType \<Rightarrow> nat \<Rightarrow> u8 list \<Rightarrow> u8 list" where
  "payload_bytes tt n buffer = (if tt = RRxPayload then replicate n 0 else take n buffer)"

lemma fill_tx_ok:
  assumes "tt \<noteq> RRxPayload \<longrightarrow> i + k \<le> length buffer" "i + k < length tx"
  shows "fill_tx k i tt buffer tx =
     Inr (take (i + 1) tx @ (if tt = RRxPayload then replicate k 0 else take k (drop i buffer)) @ drop (i + k + 1) tx)"
  using assms
proof (induction k arbitrary: i tx)
  case (Suc k)
  define b where "b = (if tt = RRxPayload then 0 else buffer ! i)"
  have r: "(if tt \<noteq> RRxPayload then rd buffer (int i) else Inr 0) = Inr b"
    using Suc.prems by (auto simp: b_def)
  have w: "wr tx (int i + 1) b = Inr (tx[i + 1 := b])"
    using Suc.prems by (simp add: nat_add_distrib)
  have t: "take (i + 1 + 1) (tx[i + 1 := b]) = take (i + 1) tx @ [b]"
    using Suc.prems by (simp add: take_Suc_conv_app_nth)
  have s: "b # (if tt = RRxPayload then replicate k 0 else take k (drop (i + 1) buffer)) =
      (if tt = RRxPayload then replicate (Suc k) 0 else take (Suc k) (drop i buffer))"
    using Suc.prems by (auto simp: b_def Cons_nth_drop_Suc [symmetric])
  have p: "tt \<noteq> RRxPayload \<longrightarrow> i + 1 + k \<le> length buffer" "i + 1 + k < length (tx[i + 1 := b])"
    using Suc.prems by simp_all
  have d: "drop (i + 1 + k + 1) (tx[i + 1 := b]) = drop (i + Suc k + 1) tx" by simp
  show ?case unfolding fill_tx.simps r bnd_simps w using Suc.IH [OF p] unfolding t d s [symmetric] by simp
qed (use id_take_nth_drop in \<open>auto simp: append_take_drop_id\<close>)

lemma fill_tx_overrun:
  assumes "i + k = 33" "length tx = 33" "0 < k"
  shows "fill_tx k i tt buffer tx = Inl OutOfBounds"
  using assms
proof (induction k arbitrary: i tx)
  case (Suc k)
  show ?case
  proof (cases "tt \<noteq> RRxPayload \<and> length buffer \<le> i")
    case True
    then show ?thesis by (simp add: rd_def)
  next
    case False
    then have "\<exists>b. (if tt \<noteq> RRxPayload then rd buffer (int i) else Inr 0) = Inr b"
      by (auto simp: rd_def)
    then obtain b where r: "(if tt \<noteq> RRxPayload then rd buffer (int i) else Inr 0) = Inr b" by blast
    show ?thesis
    proof (cases "k = 0")
      case True
      then show ?thesis unfolding fill_tx.simps r using Suc.prems by (simp add: wr_def)
    next
      case k: False
      then have w: "wr tx (int i + 1) b = Inr (tx[i + 1 := b])"
        using Suc.prems by (simp add: nat_add_distrib)
      show ?thesis unfolding fill_tx.simps r bnd_simps w using Suc.IH [of "i + 1" "tx[i + 1 := b]"] Suc.prems k by simp
    qed
  qed
qed simp

lemma transfer_buffer:
  assumes "unat len \<le> 32" "tt \<noteq> RRxPayload \<longrightarrow> unat len \<le> length buffer"
  shows "\<exists>tx. fill_tx (min (unat len) PackageBufferSize) 0 tt buffer
      ((replicate PackageBufferSize 0)[0 := configure_package_type t tt]) = Inr tx \<and> unat len < length tx \<and>
     take (Suc (unat len)) tx = configure_package_type t tt # payload_bytes tt (unat len) buffer"
proof -
  let ?tx = "(replicate PackageBufferSize 0)[0 := configure_package_type t tt]"
  have m: "min (unat len) PackageBufferSize = unat len" using assms(1) by simp
  have e: "fill_tx (unat len) 0 tt buffer ?tx =
      Inr (take 1 ?tx @ payload_bytes tt (unat len) buffer @ drop (unat len + 1) ?tx)"
    using fill_tx_ok [of tt 0 "unat len" buffer ?tx] assms by (simp add: payload_bytes_def)
  have h: "take 1 ?tx = [configure_package_type t tt]"
    by (simp add: take_Suc hd_conv_nth)
  have l: "length (payload_bytes tt (unat len) buffer) = unat len"
    using assms(2) by (auto simp: payload_bytes_def)
  show ?thesis unfolding m e h using l assms(1) by simp
qed

lemma transfer_write_ok:
  assumes "spi_ready s" "unat len \<le> 32" "unat len \<le> length buffer" "tt \<noteq> ReadRegister" "tt \<noteq> RRxPayload"
  shows "\<exists>s'. transfer t len tt buffer s = Inr (buffer, s') \<and> spi_ready s' \<and>
     inputs s' (spi ''dr'') = inputs s (spi ''dr'') \<and>
     spi_sent s' = spi_sent s @ map ucast (configure_package_type t tt # take (unat len) buffer)"
proof -
  from transfer_buffer [OF assms(2), of tt buffer t] assms(3) obtain tx where
    f: "fill_tx (min (unat len) PackageBufferSize) 0 tt buffer
      ((replicate PackageBufferSize 0)[0 := configure_package_type t tt]) = Inr tx"
    and l: "unat len < length tx"
    and p: "take (Suc (unat len)) tx = configure_package_type t tt # payload_bytes tt (unat len) buffer"
    by auto
  from spi_write_ready [OF assms(1) l] obtain s' where w: "spi_write tx len s = Inr s'" and r: "spi_ready s'"
    and i: "inputs s' (spi ''dr'') = inputs s (spi ''dr'')"
    and sn: "spi_sent s' = spi_sent s @ map ucast (take (Suc (unat len)) tx)"
    by blast
  have e: "transfer t len tt buffer s = Inr (buffer, s')"
    unfolding transfer_def Let_def f bnd_simps using assms(4,5) w by (cases tt) simp_all
  show ?thesis unfolding e using r i sn p assms(5) by (simp add: payload_bytes_def)
qed

lemma transfer_read_ok:
  assumes "spi_ready s" "unat len \<le> 32" "unat len \<le> length buffer" "tt = ReadRegister \<or> tt = RRxPayload"
    "inputs s (spi ''dr'') = xs @ rest" "length xs = Suc (unat len)"
  shows "\<exists>s'. transfer t len tt buffer s = Inr (map ucast (tl xs) @ drop (unat len) buffer, s') \<and> spi_ready s' \<and>
     inputs s' (spi ''dr'') = rest \<and>
     spi_sent s' = spi_sent s @ map ucast (configure_package_type t tt # payload_bytes tt (unat len) buffer)"
proof -
  from transfer_buffer [OF assms(2), of tt buffer t] assms(3) obtain tx where
    f: "fill_tx (min (unat len) PackageBufferSize) 0 tt buffer
      ((replicate PackageBufferSize 0)[0 := configure_package_type t tt]) = Inr tx"
    and l: "unat len < length tx"
    and p: "take (Suc (unat len)) tx = configure_package_type t tt # payload_bytes tt (unat len) buffer"
    by auto
  from spi_read_ready [OF assms(1) l assms(3,5,6)] obtain s' where
    w: "spi_read tx len buffer s = Inr (map ucast (tl xs) @ drop (unat len) buffer, s')" and r: "spi_ready s'"
    and i: "inputs s' (spi ''dr'') = rest"
    and sn: "spi_sent s' = spi_sent s @ map ucast (take (Suc (unat len)) tx)"
    by blast
  have e: "transfer t len tt buffer s = Inr (map ucast (tl xs) @ drop (unat len) buffer, s')"
    unfolding transfer_def Let_def f bnd_simps using assms(4) w by (cases tt) simp_all
  show ?thesis unfolding e using r i sn p by simp
qed

lemma one_word: "unat (1 :: u32) = 1"
  by simp

lemma get_nrf_register_ok:
  assumes "spi_ready s" "rx_buffer g \<noteq> []" "inputs s (spi ''dr'') = x # v # rest"
  shows "\<exists>s'. get_nrf_register r (g, s) =
       Inr (ucast v, g\<lparr>rx_buffer := ucast v # tl (rx_buffer g)\<rparr>, s') \<and> spi_ready s' \<and>
     inputs s' (spi ''dr'') = rest \<and>
     spi_sent s' = spi_sent s @ [ucast (reg_no r AND 0x1F), ucast (hd (rx_buffer g))]"
proof -
  obtain b bs where b: "rx_buffer g = b # bs" using assms(2) by (cases "rx_buffer g") auto
  have c: "configure_package_type (reg_no r) ReadRegister = reg_no r AND 0x1F"
    by (cases r) (simp_all add: configure_package_type_def)
  from transfer_read_ok [OF assms(1), of 1 "rx_buffer g" ReadRegister "[x, v]" rest "reg_no r"] assms(3) b obtain s' where
    "transfer (reg_no r) 1 ReadRegister (rx_buffer g) s = Inr (ucast v # bs, s')" "spi_ready s'"
    "inputs s' (spi ''dr'') = rest"
    "spi_sent s' = spi_sent s @ map ucast [reg_no r AND 0x1F, b]"
    by (auto simp: c payload_bytes_def)
  then show ?thesis using b by (simp add: get_nrf_register_def del: spi_addrs)
qed

section \<open>Properties\<close>

text \<open>
  C30. A \<open>transfer\<close> that writes puts exactly the command byte and the payload on the bus, in this
  order, and reads nothing from it: at most 32 bytes of payload, the unit idle.
\<close>
theorem transfer_write_correct:
  assumes "spi_ready s" "unat len \<le> 32" "unat len \<le> length buffer"
    "tt = WriteRegister \<or> tt = WTxPayload \<or> tt = FlushTX \<or> tt = FlushRX"
  shows "\<exists>s'. transfer t len tt buffer s = Inr (buffer, s') \<and>
     inputs s' (spi ''dr'') = inputs s (spi ''dr'') \<and>
     spi_sent s' = spi_sent s @ map ucast (configure_package_type t tt # take (unat len) buffer)"
  using transfer_write_ok [OF assms(1-3), of tt t] assms(4) by auto

theorem transfer_write_correct_witness:
  "\<exists>s'. transfer 0xFF 3 WTxPayload [7, 8, 9] quiet_machine = Inr ([7, 8, 9], s') \<and>
     spi_sent s' = [0xA0, 7, 8, 9]"
proof -
  have r: "spi_ready quiet_machine" by (simp add: spi_ready_def quiet_machine_def)
  have n: "spi_sent quiet_machine = []" by (simp add: spi_sent_def quiet_machine_def)
  have c: "configure_package_type 0xFF WTxPayload = 0xA0" by (simp add: configure_package_type_def)
  have l: "unat (3 :: u32) = 3" by simp
  have "unat (3 :: u32) \<le> 32" "unat (3 :: u32) \<le> length [7, 8, 9 :: u8]" by simp_all
  from transfer_write_correct [OF r this, where tt = WTxPayload and t = "0xFF"] show ?thesis
    unfolding n c l by auto
qed

text \<open>
  \<open>transfer\<close> bounds its copy by the size of its buffer, not by the room behind the command
  byte: a payload of 33 bytes or more is always an access outside \<open>tx_buffer\<close> (or outside the
  caller's array).
\<close>
theorem transfer_overrun:
  assumes "33 \<le> unat len"
  shows "transfer t len tt buffer s = Inl OutOfBounds"
proof -
  have m: "min (unat len) PackageBufferSize = 33" using assms by simp
  show ?thesis unfolding transfer_def Let_def m by (subst fill_tx_overrun) simp_all
qed

theorem transfer_overrun_witness: "transfer 0xFF 40 RRxPayload (replicate 40 0) quiet_machine = Inl OutOfBounds"
  by (rule transfer_overrun) simp

text \<open>
  \<open>set_bit_nrf_register\<close> reads the register and writes the value the radio answered with the
  bit set: on the bus, the read command and a filler, then the write command and that value.
  One byte of the receive buffer changes.
\<close>
theorem set_bit_nrf_register_correct:
  assumes "spi_ready s" "rx_buffer g \<noteq> []" "inputs s (spi ''dr'') = x # v # rest"
  shows "\<exists>s'. set_bit_nrf_register r n (g, s) = Inr (g\<lparr>rx_buffer := ucast v # tl (rx_buffer g)\<rparr>, s') \<and>
     inputs s' (spi ''dr'') = rest \<and>
     spi_sent s' = spi_sent s @ map ucast
       [reg_no r AND 0x1F, hd (rx_buffer g), 0x20 OR reg_no r, ucast v OR push_bit n 1 :: u8]"
proof -
  from get_nrf_register_ok [OF assms] obtain s1 where
    g: "get_nrf_register r (g, s) = Inr (ucast v, g\<lparr>rx_buffer := ucast v # tl (rx_buffer g)\<rparr>, s1)"
    and r1: "spi_ready s1" and i1: "inputs s1 (spi ''dr'') = rest"
    and sn1: "spi_sent s1 = spi_sent s @ [ucast (reg_no r AND 0x1F), ucast (hd (rx_buffer g))]"
    by blast
  have c: "configure_package_type (reg_no r) WriteRegister = 0x20 OR reg_no r"
    by (cases r) (simp_all add: configure_package_type_def)
  from transfer_write_ok [OF r1, of 1 "[ucast v OR push_bit n 1]" WriteRegister "reg_no r"] i1 sn1 obtain s' where
    "transfer (reg_no r) 1 WriteRegister [ucast v OR push_bit n 1] s1 = Inr ([ucast v OR push_bit n 1], s')"
    "inputs s' (spi ''dr'') = rest"
    "spi_sent s' = spi_sent s @ map ucast
       [reg_no r AND 0x1F, hd (rx_buffer g), 0x20 OR reg_no r, ucast v OR push_bit n 1 :: u8]"
    by (auto simp: c)
  then show ?thesis by (simp add: set_bit_nrf_register_def g nrf_write_def del: spi_addrs)
qed

definition idle_radio :: nrf_globals where
  "idle_radio =
     \<lparr>rx_buffer = replicate 47 0, gpio_pa5_ce = \<lparr>port = 65, pin = 5, base_adress = 0, gpio_regs = 0x40020000\<rparr>,
      tx_observe = \<lparr>totalLostPackages = 0, retransmitCount = 0, maxRetransmits = 0, timeUntilAckArrived = 0,
        totalElapsed = 0, bytesSend = 0, totalRetransmits = 0, signalStrength = 0, totalPackages = 0\<rparr>,
      osCoreFunctions = replicate 6 0, current_ptr_index = 0, timeToSettle = 0, tStart = 0,
      gpio_b7 = \<lparr>port = 66, pin = 7, base_adress = 0, gpio_regs = 0x40020400\<rparr>, receivedAckPackage = 0\<rparr>"

theorem set_bit_nrf_register_correct_witness:
  "\<exists>g' s'. set_bit_nrf_register CONFIG 1
     (idle_radio, quiet_machine\<lparr>inputs := (\<lambda>a. if a = 0x4001300C then [0xE, 0x8] else [])\<rparr>) = Inr (g', s') \<and>
     spi_sent s' = [0, 0, 0x20, 0xA]"
proof -
  let ?s = "quiet_machine\<lparr>inputs := (\<lambda>a. if a = 0x4001300C then [0xE, 0x8] else [])\<rparr>"
  have r: "spi_ready ?s" by (simp add: spi_ready_def quiet_machine_def)
  have n: "spi_sent ?s = []" by (simp add: spi_sent_def quiet_machine_def)
  have i: "inputs ?s (spi ''dr'') = 0xE # 0x8 # []" by simp
  have b: "rx_buffer idle_radio \<noteq> []" by (simp add: idle_radio_def)
  have h: "hd (rx_buffer idle_radio) = 0" by (simp add: idle_radio_def)
  from set_bit_nrf_register_correct [OF r b i, of CONFIG 1] show ?thesis
    unfolding n h by auto
qed

end
