(* ===== verification/Radio_Apps.thy ===== *)
theory Radio_Apps
  imports Nrf Runtime Demo
begin

text \<open>
  The two ends of the radio link: the loadable module \<open>modules/nrf2401_receive\<close> and the package
  \<open>packages/nrf2401_transmit\<close>.  Both run on the kernel and the radio library; the state is the
  program's own globals, those of the library and the kernel.
\<close>

type_synonym radio = "nrf_globals \<times> kernel"

section \<open>The receiver\<close>

record rx_globals =
  nrf_startup_config :: Nrf24l01Registers
  lastReceivedCRC :: u32
  ackPackagePreloaded :: u32
  rx_pinb :: GpioObject
  ack :: u8
  rx_answer :: "u8 list"        \<comment> \<open>33 bytes\<close>
  gpio_b8 :: GpioObject
  index :: u32
  uartOutputIsEnabled :: u32
  timeToSendAck :: u32

definition apply_nrf_config :: "Nrf24l01Registers \<Rightarrow> Nrf24l01Registers" where
  "apply_nrf_config r =
     r\<lparr>en_aa := 0, rf_setup := 6, setup_aw := 3, rf_ch := 3, en_rxaddr := 3, rx_pw_p0 := 31, rx_pw_p1 := 6,
       config := 0, tx_addr := replicate 5 0xC8 @ drop 5 (tx_addr r),
       rx_addr_p0 := replicate 5 0xC5 @ drop 5 (rx_addr_p0 r),
       rx_addr_p1 := replicate 5 0xC6 @ drop 5 (rx_addr_p1 r)\<rparr>"

text \<open>\<open>for (i = 0; i < n; ++i) cdest[i] = csrc[i];\<close> with \<open>k\<close> bytes left.\<close>

fun memcpy_loop :: "nat \<Rightarrow> nat \<Rightarrow> u8 list \<Rightarrow> u8 list \<Rightarrow> u8 list res" where
  "memcpy_loop 0 i dest src = Inr dest"
| "memcpy_loop (Suc k) i dest src =
     bnd (rd src (int i)) (\<lambda>b. bnd (wr dest (int i) b) (\<lambda>d. memcpy_loop k (i + 1) d src))"

definition memcpy_custom :: "u8 list \<Rightarrow> u8 list \<Rightarrow> u32 \<Rightarrow> u8 list res" where
  "memcpy_custom dest src n = memcpy_loop (unat n) 0 dest src"

definition reverse_byte_order :: "u32 \<Rightarrow> u32" where
  "reverse_byte_order num =
     (drop_bit 24 num AND 0x000000FF) OR (drop_bit 8 num AND 0x0000FF00) OR
     (push_bit 8 num AND 0x00FF0000) OR (push_bit 24 num AND 0xFF000000)"

text \<open>The checksum a packet carries in its bytes 27 to 30, most significant byte first.\<close>

definition received_crc :: "u8 list \<Rightarrow> u32 res" where
  "received_crc packet =
     bnd (memcpy_custom [0, 0, 0, 0] (drop 27 packet) 4) (\<lambda>c. Inr (reverse_byte_order (rx_word c)))"

text \<open>The word at an offset of the packet, seen as \<open>RxConfig_t\<close>.\<close>

definition packet_word :: "u8 list \<Rightarrow> nat \<Rightarrow> u32" where
  "packet_word packet i = rx_word (take 4 (drop i packet))"

definition clear_answer :: "rx_globals \<Rightarrow> rx_globals" where
  "clear_answer r = r\<lparr>rx_answer := replicate 33 0\<rparr>"

text \<open>
  A packet with the right checksum: acknowledge, take over a configuration, print.  The
  acknowledgement is one variable of one byte: what \<open>load_tx_buffer\<close> gets is the array \<open>[ack]\<close>.
\<close>

definition preload_ack :: "rx_globals \<Rightarrow> radio \<Rightarrow> (rx_globals \<times> radio) res" where
  "preload_ack r st =
     (if ackPackagePreloaded r = 0
      then bnd (load_tx_buffer 1 [ack r] st) (\<lambda>(loaded, st1). Inr (r\<lparr>ackPackagePreloaded := 1\<rparr>, st1))
      else Inr (r, st))"

definition accept_packet :: "nat \<Rightarrow> u32 \<Rightarrow> rx_globals \<Rightarrow> radio \<Rightarrow> (rx_globals \<times> radio) res" where
  "accept_packet n c r st =
     bnd (disable_rx st) (\<lambda>st1.
     bnd (preload_ack r st1) (\<lambda>(r2, g2, s2).
     bnd (transmit_all_packages n (g2, set_pin_on (gpio_b8 r2) s2)) (\<lambda>(transmitted, g3, s3).
     let s4 = crc_reset (set_pin_off (gpio_b8 r2) s3);
         r4 = r2\<lparr>ackPackagePreloaded := 0\<rparr>;
         p = rx_answer r4;
         is_config = (packet_word p 0 = 0x12345678);
         r5 = (if is_config then r4\<lparr>uartOutputIsEnabled := ucast (p ! 4), timeToSendAck := packet_word p 12\<rparr> else r4);
         g5 = (if is_config then g3\<lparr>timeToSettle := packet_word p 8\<rparr> else g3) in
     bnd (if uartOutputIsEnabled r5 \<noteq> 0 then print (take 27 p) s4 else Inr s4) (\<lambda>s5.
     bnd (enable_rx_and_listen (g5, s5)) (\<lambda>st6. Inr (r5\<lparr>lastReceivedCRC := c\<rparr>, st6))))))"

definition handle_packet :: "nat \<Rightarrow> rx_globals \<Rightarrow> radio \<Rightarrow> (rx_globals \<times> radio) res" where
  "handle_packet n r st =
     (case st of (g, s) \<Rightarrow>
        let (crc_expected, s2) = crc_read (crc_feed_bytes (take 27 (rx_answer r)) (crc_reset s)) in
        bnd (received_crc (rx_answer r)) (\<lambda>c.
        if c = crc_expected then accept_packet n c r (g, s2) else Inr (r, g, s2)))"

fun receive_loop :: "nat \<Rightarrow> rx_globals \<Rightarrow> radio \<Rightarrow> (rx_globals \<times> radio) res" where
  "receive_loop 0 r st = Inl Spin"
| "receive_loop (Suc n) r st =
     bnd (get_nrf_fifo st) (\<lambda>(fifo, st1).
     if fifo AND 1 \<noteq> 0 then Inr (r, st1)
     else
       bnd (check_for_received_data (nrf_startup_config r) (rx_answer r) st1) (\<lambda>(got, buf, st2).
       let r2 = r\<lparr>rx_answer := buf\<rparr> in
       if got then bnd (handle_packet n r2 st2) (\<lambda>(r3, st3). receive_loop n r3 st3)
       else Inr (r2, st2)))"

definition rx_receive_isr :: "nat \<Rightarrow> rx_globals \<Rightarrow> radio \<Rightarrow> (rx_globals \<times> radio) res" where
  "rx_receive_isr n r st =
     (case st of (g, s) \<Rightarrow>
        bnd (receive_loop n (clear_answer r) (g, exti_acknowledge_interrupt (rx_pinb r) s)) (\<lambda>(r1, st1).
        bnd (clear_rx_dr_flag st1) (\<lambda>st2. Inr (r1, st2))))"

definition zero_registers :: Nrf24l01Registers where
  "zero_registers =
     \<lparr>config = 0, en_aa = 0, en_rxaddr = 0, setup_aw = 0, setup_retr = 0, rf_ch = 0, rf_setup = 0,
      nrf_status = 0, observe_tx = 0, rpd = 0, rx_addr_p0 = replicate 8 0, rx_addr_p1 = replicate 8 0,
      rx_addr_p2 = 0, rx_addr_p3 = 0, rx_addr_p4 = 0, rx_addr_p5 = 0, tx_addr = replicate 8 0,
      rx_pw_p0 = 0, rx_pw_p1 = 0, rx_pw_p2 = 0, rx_pw_p3 = 0, rx_pw_p4 = 0, rx_pw_p5 = 0,
      fifo_status = 0, dyndp = 0, feature = 0\<rparr>"

text \<open>\<open>link_exti_src\<close>, then the line of the pin: the same five calls in both programs.\<close>

definition link_pin :: "addr \<Rightarrow> GpioObject \<Rightarrow> kernel \<Rightarrow> (GpioObject \<times> kernel) res" where
  "link_pin isr g s =
     bnd (link_exti_src isr g s) (\<lambda>(g1, s1).
     bnd (syscfg_exti_config_0_3 g1 (syscfg_enable_clock s1)) (\<lambda>(ret, s2).
     Inr (g1, exti_detect_falling_edge g1 (exti_activate_ir_line g1 s2))))"

text \<open>
  The task up to its loop.  \<open>read_global_timer\<close> and \<open>rx_receive_isr\<close> are the addresses of the two
  functions; \<open>portA0\<close>, \<open>t0\<close> and \<open>c0\<close> are uninitialised local objects of the functions called.
\<close>

definition nrf2401_receive_init ::
  "addr \<Rightarrow> addr \<Rightarrow> GpioObject \<Rightarrow> GpioObject \<Rightarrow> Nrf24l01Registers \<Rightarrow> rx_globals \<Rightarrow> radio \<Rightarrow> (rx_globals \<times> radio) res" where
  "nrf2401_receive_init timer_fn isr portA0 t0 c0 r st =
     (case st of (g, s) \<Rightarrow>
        let r1 = r\<lparr>index := 0, lastReceivedCRC := 0, ackPackagePreloaded := 0, uartOutputIsEnabled := 0,
                   timeToSendAck := 0, nrf_startup_config := apply_nrf_config zero_registers\<rparr> in
        bnd (append_os_core_function timer_fn g) (\<lambda>g1.
        bnd (configure_device portA0 t0 c0 (nrf_startup_config r1) SLAVE (g1, s)) (\<lambda>(configured, g2, s2).
        bnd (nrf_flush_rx (g2, crc_activate s2)) (\<lambda>st3.
        bnd (clear_rx_dr_flag st3) (\<lambda>st4.
        case start_listening st4 of (g5, s5) \<Rightarrow>
        let (b8, s6) = init_gpio ((gpio_b8 r1)\<lparr>pin := 8, port := 66\<rparr>) s5;
            s7 = set_speed b8 High (set_pupdr b8 Nothing (set_otyper b8 PushPull
                   (set_moder b8 GeneralPurposeOutputMode s6))) in
        bnd (link_pin isr ((rx_pinb r1)\<lparr>pin := 0, port := 66\<rparr>) s7) (\<lambda>(b, s8).
        Inr (r1\<lparr>gpio_b8 := b8, rx_pinb := b\<rparr>, g5, s8)))))))"

text \<open>One turn of its endless loop.\<close>

definition nrf2401_receive_turn :: "rx_globals \<Rightarrow> radio \<Rightarrow> (rx_globals \<times> radio) res" where
  "nrf2401_receive_turn r st =
     bnd (preload_ack r st) (\<lambda>(r1, g1, s1). Inr (r1, g1, svcall 2 (crc_reset s1)))"

section \<open>The transmitter\<close>

text \<open>\<open>receivedAckPackage\<close> of this file is the member of that name of \<open>nrf_globals\<close>.\<close>

record tx_globals =
  nrf_registers :: Nrf24l01Registers
  tx_pinb :: GpioObject
  observe :: TxObserve
  tx_config :: TxConfig

text \<open>A call through the library's function pointers, with the interrupts served meanwhile.\<close>

type_synonym radio_call = "addr \<Rightarrow> radio \<Rightarrow> (u32 \<times> radio) res"

definition tx_receive_isr :: "nat \<Rightarrow> radio_call \<Rightarrow> u8 list \<Rightarrow> tx_globals \<Rightarrow> radio \<Rightarrow> radio res" where
  "tx_receive_isr n call answer0 r st =
     (case st of (g, s) \<Rightarrow>
        bnd (tx_ack_receive_isr n call (nrf_registers r) answer0 (g, exti_acknowledge_interrupt (tx_pinb r) s)) (\<lambda>(got, g1, s1).
        Inr (g1\<lparr>receivedAckPackage := (if got then 1 else 0)\<rparr>, s1)))"

definition apply_nrf_config_tx :: "Nrf24l01Registers \<Rightarrow> Nrf24l01Registers" where
  "apply_nrf_config_tx r =
     r\<lparr>en_aa := 0, en_rxaddr := 1, rx_pw_p0 := 1, rf_setup := 6, setup_aw := 3, rf_ch := 3, config := 0,
       tx_addr := replicate 5 0xC5 @ drop 5 (tx_addr r),
       rx_addr_p0 := replicate 5 0xC8 @ drop 5 (rx_addr_p0 r)\<rparr>"

definition init_irq :: "addr \<Rightarrow> tx_globals \<Rightarrow> kernel \<Rightarrow> (tx_globals \<times> kernel) res" where
  "init_irq isr r s =
     bnd (link_pin isr ((tx_pinb r)\<lparr>pin := 0, port := 66\<rparr>) s) (\<lambda>(b, s1). Inr (r\<lparr>tx_pinb := b\<rparr>, s1))"

definition TxObserve_bytes :: "TxObserve \<Rightarrow> u8 list" where
  "TxObserve_bytes ob =
     le32 (totalLostPackages ob) @ le32 (retransmitCount ob) @ le32 (maxRetransmits ob) @
     le32 (timeUntilAckArrived ob) @ le32 (totalElapsed ob) @ le32 (bytesSend ob) @
     le32 (totalRetransmits ob) @ le32 (signalStrength ob) @ le32 (totalPackages ob)"

text \<open>\<open>b0\<close> is the uninitialised local object of \<open>transmit_with_autoack\<close>.\<close>

definition normal ::
  "nat \<Rightarrow> radio_call \<Rightarrow> GpioObject \<Rightarrow> u8 list \<Rightarrow> tx_globals \<Rightarrow> radio \<Rightarrow> (u8 list \<times> tx_globals \<times> radio) res" where
  "normal n call b0 outBuffer r st =
     (case st of (g, s) \<Rightarrow>
        let (payload, s1) = read_global_timer s;
            out1 = le32 payload @ drop 4 outBuffer;
            (start, s2) = read_global_timer s1 in
        bnd (transmit_with_autoack n call b0 (tx_config r) out1 (g, s2)) (\<lambda>(succeeded, out2, g3, s3).
        let (stop, s4) = read_global_timer s3;
            ob = (get_current_tx_state g3)\<lparr>totalElapsed := drop_bit 10 (stop - start)\<rparr> in
        bnd (print (TxObserve_bytes ob) s4) (\<lambda>s5. Inr (out2, r\<lparr>observe := ob\<rparr>, g3, s5))))"

definition zero_TxObserve :: TxObserve where
  "zero_TxObserve =
     \<lparr>totalLostPackages = 0, retransmitCount = 0, maxRetransmits = 0, timeUntilAckArrived = 0, totalElapsed = 0,
      bytesSend = 0, totalRetransmits = 0, signalStrength = 0, totalPackages = 0\<rparr>"

text \<open>\<open>RxConfig_t\<close> in memory; \<open>reserved\<close> are the three bytes the program leaves uninitialised.\<close>

definition RxConfig_bytes :: "u32 \<Rightarrow> u8 \<Rightarrow> u8 list \<Rightarrow> u32 \<Rightarrow> u32 \<Rightarrow> u8 list" where
  "RxConfig_bytes identifier printUart reserved settle send_ack =
     le32 identifier @ [printUart] @ reserved @ le32 settle @ le32 send_ack"

text \<open>
  \<open>main\<close> up to its loop: the button, the object of pin 7 and the message buffer are the locals
  the loop uses.
\<close>

definition transmit_main_init ::
  "addr \<Rightarrow> addr \<Rightarrow> GpioObject \<Rightarrow> GpioObject \<Rightarrow> Nrf24l01Registers \<Rightarrow> GpioObject \<Rightarrow> GpioObject \<Rightarrow> u8 list \<Rightarrow>
   tx_globals \<Rightarrow> radio \<Rightarrow> (GpioObject \<times> GpioObject \<times> u8 list \<times> tx_globals \<times> radio) res" where
  "transmit_main_init timer_fn isr portA0 t0 c0 b1_0 b7_0 reserved r st =
     (case st of (g, s) \<Rightarrow>
        bnd (append_os_core_function timer_fn g) (\<lambda>g1.
        let g2 = g1\<lparr>receivedAckPackage := 0, timeToSettle := 150\<rparr>;
            r2 = r\<lparr>observe := zero_TxObserve, tx_config := \<lparr>autoRetransmitDelay = 9000, cfg_retransmitCount = 7\<rparr>,
                   nrf_registers := apply_nrf_config_tx (nrf_registers r)\<rparr> in
        bnd (configure_device portA0 t0 c0 (nrf_registers r2) MASTER (g2, crc_activate s)) (\<lambda>(configured, g3, s3).
        bnd (init_irq isr r2 s3) (\<lambda>(r4, s4).
        let (b1, s5) = init_gpio (b1_0\<lparr>pin := 2, port := 66\<rparr>) s4;
            s6 = set_speed b1 High (set_pupdr b1 Nothing (set_otyper b1 PushPull (set_moder b1 InputMode s5)));
            (b7, s7) = init_gpio (b7_0\<lparr>pin := 7, port := 66\<rparr>) s6;
            s8 = set_speed b7 High (set_pupdr b7 Nothing (set_otyper b7 PushPull
                   (set_moder b7 GeneralPurposeOutputMode s7)));
            outBuffer = RxConfig_bytes 0x12345678 0 reserved 50 250 @ replicate 16 0
        in Inr (b1, b7, outBuffer, r4, g3, s8)))))"

text \<open>One turn of its endless loop: send while the button is pressed, then yield.\<close>

definition transmit_main_turn ::
  "nat \<Rightarrow> radio_call \<Rightarrow> GpioObject \<Rightarrow> GpioObject \<Rightarrow> u8 list \<Rightarrow> tx_globals \<Rightarrow> radio \<Rightarrow> (u8 list \<times> tx_globals \<times> radio) res" where
  "transmit_main_turn n call b0 b1 outBuffer r st =
     (case st of (g, s) \<Rightarrow>
        let (released, s1) = read_pin b1 s in
        bnd (if released = 0 then
               bnd (normal n call b0 outBuffer r (g, s1)) (\<lambda>(out, r2, g2, s2).
               bnd (task_sleep 20 s2) (\<lambda>s3. Inr (out, r2, g2, s3)))
             else Inr (outBuffer, r, g, s1)) (\<lambda>(out, r4, g4, s4).
        Inr (out, r4, g4, svcall 2 s4)))"

section \<open>Checksums\<close>

lemma reverse_rx_word: "reverse_byte_order (rx_word (big_endian c)) = c"
proof (rule bit_word_eqI)
  fix n assume n: "n < LENGTH(32)"
  then consider "n < 8" | "8 \<le> n" "n < 16" | "16 \<le> n" "n < 24" | "24 \<le> n" "n < 32" by fastforce
  moreover have m: "bit (0xFF :: u32) n \<longleftrightarrow> n < 8" "bit (0xFF00 :: u32) n \<longleftrightarrow> 8 \<le> n \<and> n < 16"
    "bit (0xFF0000 :: u32) n \<longleftrightarrow> 16 \<le> n \<and> n < 24" "bit (0xFF000000 :: u32) n \<longleftrightarrow> 24 \<le> n \<and> n < 32"
    using n by (auto simp: bit_numeral_word_iff less_Suc_eq numeral_eq_Suc bit_simps)
  ultimately show "bit (reverse_byte_order (rx_word (big_endian c))) n = bit c n"
    by cases (auto simp: reverse_byte_order_def rx_word_def big_endian_def bit_simps dest: bit_imp_le_length)
qed

lemma memcpy_loop_all:
  "i + k \<le> length dest \<Longrightarrow> i + k \<le> length src \<Longrightarrow>
   memcpy_loop k i dest src = Inr (take i dest @ take k (drop i src) @ drop (i + k) dest)"
proof (induction k arbitrary: i dest)
  case (Suc k)
  have "rd src (int i) = Inr (src ! i)" "wr dest (int i) (src ! i) = Inr (dest[i := src ! i])"
    using Suc.prems by simp_all
  with Suc.IH [of "i + 1" "dest[i := src ! i]"] Suc.prems
  show ?case by (simp add: take_Suc_conv_app_nth Cons_nth_drop_Suc [symmetric])
qed simp

lemma received_crc_of:
  assumes "length d = 27"
  shows "received_crc (d @ big_endian c @ rest) = Inr c"
proof -
  have "memcpy_custom [0, 0, 0, 0] (drop 27 (d @ big_endian c @ rest)) 4 = Inr (big_endian c)"
    using assms memcpy_loop_all [of 0 4 "[0, 0, 0, 0]" "big_endian c @ rest"]
    by (simp add: memcpy_custom_def big_endian_def)
  then show ?thesis by (simp add: received_crc_def reverse_rx_word)
qed

lemma crc_feed_bytes_inputs [simp]: "inputs (crc_feed_bytes bs s) = inputs s" "drv (crc_feed_bytes bs s) = drv s"
  by (induction bs arbitrary: s) (simp_all add: crc_feed_def)

lemma crc_dr: "reg CrcRegisterMap b ''dr'' = b"
  by (simp add: reg_def CrcRegisterMap_def)

section \<open>Properties\<close>

text \<open>
  The receiver's acknowledgement is one byte, and \<open>load_tx_buffer\<close> copies one byte more than
  its length argument: unless the radio's FIFO is full, preparing the acknowledgement reads past
  the variable \<open>ack\<close>.
\<close>
theorem preload_ack_overruns:
  assumes "spi_ready s" "rx_buffer g \<noteq> []" "inputs s (spi ''dr'') = x # v # rest"
    and "ucast v AND (32 :: u8) = 0" "ackPackagePreloaded r = 0"
  shows "preload_ack r (g, s) = Inl OutOfBounds"
proof -
  from get_nrf_register_ok [OF assms(1-3)] obtain st where
    f: "get_nrf_register FIFO_STATUS (g, s) = Inr (ucast v, st)" by blast
  have "transfer 0xFF 2 WTxPayload [ack r] s' = Inl OutOfBounds" for s' :: kernel
  proof -
    have "min (unat (2 :: u32)) PackageBufferSize = Suc (Suc 0)" by simp
    then show ?thesis unfolding transfer_def Let_def by (simp only: fill_tx.simps) (simp add: rd_def)
  qed
  then show ?thesis using assms(4,5)
    by (cases st) (simp add: preload_ack_def load_tx_buffer_def f nrf_write_def)
qed

theorem preload_ack_overruns_witness:
  "\<exists>r. preload_ack r (idle_radio, zero_kernel\<lparr>inputs := (\<lambda>a. if a = spi ''dr'' then [0xE, 0x1] else [])\<rparr>) = Inl OutOfBounds"
proof -
  let ?s = "zero_kernel\<lparr>inputs := (\<lambda>a. if a = spi ''dr'' then [0xE, 0x1] else [])\<rparr>"
  fix r :: rx_globals
  have "spi_ready ?s" by (simp add: spi_ready_def zero_kernel_def)
  moreover have "rx_buffer idle_radio \<noteq> []" by (simp add: idle_radio_def)
  moreover have "inputs ?s (spi ''dr'') = 0xE # 0x1 # []" by simp
  moreover have "ucast (0x1 :: u32) AND (32 :: u8) = 0" by simp
  ultimately have "preload_ack (r\<lparr>ackPackagePreloaded := 0\<rparr>) (idle_radio, ?s) = Inl OutOfBounds"
    by (rule preload_ack_overruns) simp
  then show ?thesis by blast
qed

end
