(* ===== verification/Programs.thy ===== *)
theory Programs
  imports Radio_Apps Memory_Ops
begin

text \<open>
  Smaller user programs under \<open>packages\<close>: the tests of the allocator (\<open>memory_tests\<close>, \<open>dummy\<close>), its
  benchmark (\<open>memory_benchmark\<close>), \<open>adc\<close>, and the radio programs \<open>nrf2401_config\<close>,
  \<open>nrf2401_receive\<close>, \<open>weathernodeV2\<close> and \<open>drone_rpm\<close>.  They call the kernel through the function pointers of
  \<open>os_api.h\<close>, which hold the addresses of the kernel's own functions.  Breakpoints (\<open>bkpt\<close>) are taken to
  be resumed by the debugger.
\<close>

section \<open>memory\_tests\<close>

record MeasurementResults =
  Subtest002_000 :: u8
  Subtest002_001 :: u8
  Subtest002_003 :: u8
  Subtest002_004 :: u8
  mr_reserved :: "u8 list"   \<comment> \<open>28 bytes\<close>

definition MeasurementResults_bytes :: "MeasurementResults \<Rightarrow> u8 list" where
  "MeasurementResults_bytes m =
     [Subtest002_000 m, Subtest002_001 m, Subtest002_003 m, Subtest002_004 m] @ mr_reserved m"

text \<open>\<open>dt\<close> is the address of the local structure, of twelve bytes.\<close>

definition Subtest002_000_memset_byte :: "addr \<Rightarrow> kernel \<Rightarrow> u8 \<times> kernel" where
  "Subtest002_000_memset_byte dt s =
     (let s1 = s\<lparr>mem := (st32 (dt + 4) 0xAAAAAAAA (st32 dt 0x12345678 (mem s)))(dt + 8 := 0x63)\<rparr>;
          s2 = memset_byte dt 12 0 s1
      in (if ld32 (mem s2) dt = 0 \<or> ld32 (mem s2) (dt + 4) = 0 \<or> mem s2 (dt + 8) = 0 \<or> mem s2 (dt + 11) = 0
          then 1 else 0, s2))"

definition Subtest002_001_alloc_zero_or_less :: "kernel \<Rightarrow> (u8 \<times> kernel) res" where
  "Subtest002_001_alloc_zero_or_less s =
     bnd (allocate 0 s) (\<lambda>(zero, s1).
     bnd (allocate (-1) s1) (\<lambda>(negative, s2).
     Inr (if zero \<noteq> NULL \<or> negative \<noteq> NULL then 0 else 1, s2)))"

text \<open>The result is the structure \<open>MemTestInfo_t\<close>: \<open>passed\<close> and \<open>address\<close>.\<close>

definition Subtest002_003_alloc_4byte :: "kernel \<Rightarrow> (u8 \<times> addr \<times> kernel) res" where
  "Subtest002_003_alloc_4byte s =
     bnd (allocate 4 s) (\<lambda>(a, s1). Inr (if a \<noteq> NULL then 1 else 0, a, s1))"

text \<open>\<open>m0\<close> and \<open>dt\<close> are the local objects of \<open>main\<close> and of the first test.\<close>

definition memory_tests_main :: "addr \<Rightarrow> MeasurementResults \<Rightarrow> kernel \<Rightarrow> kernel res" where
  "memory_tests_main dt m0 s =
     (let (r0, s1) = Subtest002_000_memset_byte dt s in
      bnd (Subtest002_001_alloc_zero_or_less s1) (\<lambda>(r1, s2).
      bnd (Subtest002_003_alloc_4byte s2) (\<lambda>(r3, a, s3).
      bnd (allocate 4 s3) (\<lambda>(d, s4).
      let m = m0\<lparr>Subtest002_000 := r0, Subtest002_001 := r1, Subtest002_003 := r3\<rparr>;
          m1 = (if d - a = 8 then m\<lparr>Subtest002_004 := 1\<rparr> else m)
      in print (MeasurementResults_bytes m1) s4))))"

section \<open>dummy\<close>

text \<open>\<open>if (c) WRITE_REGISTER(0x20000000, READ_REGISTER(0x20000000) | 1 << n);\<close>\<close>

definition report :: "bool \<Rightarrow> u32 \<Rightarrow> kernel \<Rightarrow> kernel" where
  "report c n s = (if c then MODIFY_REGISTER 0x20000000 (\<lambda>v. v OR shl 1 n) s else s)"

text \<open>Three requests whose results are dropped.\<close>

fun allocs :: "u32 list \<Rightarrow> kernel \<Rightarrow> (addr list \<times> kernel) res" where
  "allocs [] s = Inr ([], s)"
| "allocs (n # ns) s = bnd (allocate n s) (\<lambda>(p, s1). bnd (allocs ns s1) (\<lambda>(ps, s2). Inr (p # ps, s2)))"

definition dummy_reuse :: "kernel \<Rightarrow> kernel res" where
  "dummy_reuse s =
     bnd (allocate 4 s) (\<lambda>(memory_start, s1).
     bnd (deallocate memory_start (report (memory_start \<noteq> 0) 0 s1)) (\<lambda>(dealloc_result, s2).
     bnd (allocate 4 (report (dealloc_result \<noteq> 0) 1 s2)) (\<lambda>(memory_second, s3).
     bnd (allocate 8 (report (memory_start = memory_second) 2 s3)) (\<lambda>(memory_8byte, s4).
     bnd (deallocate memory_8byte s4) (\<lambda>(r5, s5).
     bnd (allocate 4 s5) (\<lambda>(memory_4byte_one, s6).
     Inr (report (memory_8byte = memory_4byte_one) 3 s6)))))))"

text \<open>The gaps are filled, a chunk of 32 bytes is released, and six chunks are requested.\<close>

definition dummy_split :: "kernel \<Rightarrow> kernel res" where
  "dummy_split s =
     bnd (allocs [4, 4, 4] s) (\<lambda>(ps, s1).
     bnd (allocate 32 s1) (\<lambda>(memory_32byte, s2).
     bnd (deallocate memory_32byte s2) (\<lambda>(r, s3).
     bnd (allocs [4, 4, 4, 16, 32, 4] s3) (\<lambda>(ms, s4).
     Inr (report (memory_32byte + 28 = ms ! 5) 9
          (report (memory_32byte + 32 = ms ! 4) 8
          (report (memory_32byte + 12 = ms ! 3) 7
          (report (memory_32byte + 8 = ms ! 2) 6
          (report (memory_32byte + 4 = ms ! 1) 5
          (report (memory_32byte = ms ! 0) 4 s4))))))))))"

definition dummy_main :: "kernel \<Rightarrow> kernel res" where
  "dummy_main s =
     bnd (dummy_reuse s) (\<lambda>s1.
     bnd (dummy_split s1) (\<lambda>s2.
     bnd (allocate 88888888 s2) (\<lambda>(zero, s3).
     bnd (deallocate 0xAB312F31 (report (zero = 0) 10 s3)) (\<lambda>(r, s4).
     Inr (report (r = 0) 11 s4)))))"

section \<open>memory\_benchmark\<close>

definition benchmark :: "u32 \<Rightarrow> u32 list \<Rightarrow> u32 \<Rightarrow> kernel \<Rightarrow> (u32 list \<times> kernel) res" where
  "benchmark alloc_size results round s =
     (let (tStart, s1) = read_global_timer s in
      bnd (allocate alloc_size s1) (\<lambda>(t, s2).
      let (tEnd, s3) = read_global_timer s2 in
      bnd (deallocate t s3) (\<lambda>(r, s4).
      bnd (wr results (uint round) (tEnd - tStart)) (\<lambda>res. Inr (res, s4)))))"

text \<open>
  The sizes \<open>alloc_chunks\<close> come from a header that a script generates: they are an argument.
  \<open>j\<close> counts the rounds, \<open>k\<close> those left.
\<close>

fun benchmark_rounds :: "u32 list \<Rightarrow> nat \<Rightarrow> u32 \<Rightarrow> u32 list \<Rightarrow> kernel \<Rightarrow> (u32 list \<times> kernel) res" where
  "benchmark_rounds alloc_chunks 0 j results s = Inr (results, s)"
| "benchmark_rounds alloc_chunks (Suc k) j results s =
     bnd (rd alloc_chunks (uint j)) (\<lambda>n.
     bnd (benchmark n results j s) (\<lambda>(results1, s1).
     benchmark_rounds alloc_chunks k (j + 1) results1 s1))"

definition memory_benchmark_main :: "u32 list \<Rightarrow> u32 list \<Rightarrow> kernel \<Rightarrow> kernel res" where
  "memory_benchmark_main alloc_chunks results0 s =
     bnd (benchmark_rounds alloc_chunks 32 0 results0 s) (\<lambda>(results, s1).
     print (concat (map le32 (take 32 results))) s1)"

section \<open>adc\<close>

definition adc_isr_program :: "kernel \<Rightarrow> u32 \<times> kernel" where
  "adc_isr_program s = adc_read_regular_channel (adc_acknowledge_interrupt s)"

text \<open>\<open>isr\<close> is the address of \<open>adc_isr\<close>, \<open>g0\<close> the uninitialised local object.\<close>

definition adc_main :: "addr \<Rightarrow> GpioObject \<Rightarrow> kernel \<Rightarrow> kernel" where
  "adc_main isr g0 s =
     (let (g, s1) = adc_init (g0\<lparr>pin := 1, port := 65\<rparr>) s
      in adc_start_conv_regular (adc_setbit_cr2_generic 1 (link_adc_src isr (adc_turn_on (adc_enable_interrupts s1)))))"

section \<open>nrf2401\_config\<close>

definition Nrf24l01Registers_bytes :: "Nrf24l01Registers \<Rightarrow> u8 list" where
  "Nrf24l01Registers_bytes r =
     [config r, en_aa r, en_rxaddr r, setup_aw r, setup_retr r, rf_ch r, rf_setup r, nrf_status r, observe_tx r, rpd r] @
     rx_addr_p0 r @ rx_addr_p1 r @ [rx_addr_p2 r, rx_addr_p3 r, rx_addr_p4 r, rx_addr_p5 r] @ tx_addr r @
     [rx_pw_p0 r, rx_pw_p1 r, rx_pw_p2 r, rx_pw_p3 r, rx_pw_p4 r, rx_pw_p5 r, fifo_status r, dyndp r, feature r]"

definition nrf2401_config_main :: "radio \<Rightarrow> radio res" where
  "nrf2401_config_main st =
     bnd (get_nrf_config zero_registers st) (\<lambda>(c, g, s).
     bnd (print (Nrf24l01Registers_bytes c) s) (\<lambda>s1. Inr (g, s1)))"

section \<open>nrf2401\_receive\<close>

definition apply_nrf_config_receive :: "Nrf24l01Registers \<Rightarrow> Nrf24l01Registers" where
  "apply_nrf_config_receive r =
     r\<lparr>en_aa := 0, rf_setup := 6, setup_aw := 3, rf_ch := 3, en_rxaddr := 3, rx_pw_p0 := 6, rx_pw_p1 := 6,
       tx_addr := [0x9A, 0x78, 0x56, 0x34, 0x12] @ drop 5 (tx_addr r),
       rx_addr_p0 := replicate 5 0xC6 @ drop 5 (rx_addr_p0 r),
       rx_addr_p1 := replicate 5 0xC5 @ drop 5 (rx_addr_p1 r)\<rparr>"

text \<open>
  The loop of an interrupt handler that drains the receiver's FIFO and hands each packet to
  \<open>handle\<close>; at most \<open>n\<close> rounds, after which it counts as endless.
\<close>

fun drain_fifo ::
  "nat \<Rightarrow> Nrf24l01Registers \<Rightarrow> (u8 list \<Rightarrow> radio \<Rightarrow> (u8 list \<times> radio) res) \<Rightarrow> u8 list \<Rightarrow> radio \<Rightarrow> radio res" where
  "drain_fifo 0 c handle buffer st = Inl Spin"
| "drain_fifo (Suc n) c handle buffer st =
     bnd (get_nrf_fifo st) (\<lambda>(fifo, st1).
     if fifo AND 1 \<noteq> 0 then Inr st1
     else
       bnd (check_for_received_data c buffer st1) (\<lambda>(got, buffer1, st2).
       if got then bnd (handle buffer1 st2) (\<lambda>(buffer2, st3). drain_fifo n c handle buffer2 st3)
       else Inr st2))"

text \<open>Both cases of the switch over the packet type (the byte at offset 3) do nothing.\<close>

definition rx_receive_isr_package ::
  "nat \<Rightarrow> Nrf24l01Registers \<Rightarrow> GpioObject \<Rightarrow> u8 list \<Rightarrow> radio \<Rightarrow> radio res" where
  "rx_receive_isr_package n startup_config pinb rx_answer0 st =
     (case st of (g, s) \<Rightarrow>
        bnd (drain_fifo n startup_config (\<lambda>b st1. bnd (rd b 3) (\<lambda>package_type. Inr (b, st1))) rx_answer0
              (g, exti_acknowledge_interrupt pinb s)) clear_rx_dr_flag)"

text \<open>\<open>main\<close> up to the call of \<open>sleep\<close>, and from there to its loop, which yields for ever.\<close>

definition nrf2401_receive_main_1 ::
  "GpioObject \<Rightarrow> GpioObject \<Rightarrow> Nrf24l01Registers \<Rightarrow> radio \<Rightarrow> (Nrf24l01Registers \<times> radio) res" where
  "nrf2401_receive_main_1 portA0 t0 c0 st =
     (let cfg = apply_nrf_config_receive zero_registers in
      bnd (configure_device portA0 t0 c0 cfg SLAVE st) (\<lambda>(configured, g1, s1).
      bnd (task_sleep 10 s1) (\<lambda>s2. Inr (cfg, g1, s2))))"

definition nrf2401_receive_main_2 :: "addr \<Rightarrow> GpioObject \<Rightarrow> radio \<Rightarrow> (GpioObject \<times> radio) res" where
  "nrf2401_receive_main_2 isr pinb st =
     bnd (nrf_flush_rx st) (\<lambda>st1.
     bnd (clear_rx_dr_flag st1) (\<lambda>st2.
     case start_listening st2 of (g3, s3) \<Rightarrow>
     bnd (link_pin isr (pinb\<lparr>pin := 0, port := 66\<rparr>) s3) (\<lambda>(b, s4). Inr (b, g3, s4))))"

section \<open>weathernodeV2\<close>

text \<open>Compiled without \<open>SHOCKY\<close>.\<close>

definition apply_nrf_config_weather :: "Nrf24l01Registers \<Rightarrow> Nrf24l01Registers" where
  "apply_nrf_config_weather r =
     r\<lparr>en_aa := 0, en_rxaddr := 1, rx_pw_p0 := 1, rf_setup := 6, setup_aw := 3, rf_ch := 3, config := 0,
       tx_addr := replicate 5 0xC5 @ drop 5 (tx_addr r),
       rx_addr_p0 := replicate 5 0xC8 @ drop 5 (rx_addr_p0 r)\<rparr>"

definition tx_receive_isr_weather :: "nat \<Rightarrow> radio_call \<Rightarrow> u8 list \<Rightarrow> tx_globals \<Rightarrow> radio \<Rightarrow> radio res" where
  "tx_receive_isr_weather n call answer0 r st =
     (case st of (g, s) \<Rightarrow>
        bnd (tx_ack_receive_isr n call (nrf_registers r) answer0 (g, exti_acknowledge_interrupt (tx_pinb r) s)) (\<lambda>(got, g1, s1).
        Inr (g1\<lparr>receivedAckPackage := (if got then 1 else 0)\<rparr>, s1)))"

definition init_irq_weather :: "addr \<Rightarrow> tx_globals \<Rightarrow> kernel \<Rightarrow> (tx_globals \<times> kernel) res" where
  "init_irq_weather isr r s =
     bnd (link_pin isr ((tx_pinb r)\<lparr>pin := 0, port := 66\<rparr>) s) (\<lambda>(b, s1). Inr (r\<lparr>tx_pinb := b\<rparr>, s1))"

definition send_weather ::
  "nat \<Rightarrow> radio_call \<Rightarrow> GpioObject \<Rightarrow> u8 list \<Rightarrow> tx_globals \<Rightarrow> radio \<Rightarrow> (bool \<times> u8 list \<times> radio) res" where
  "send_weather n call b0 outBuffer r st =
     bnd (nrf_flush_tx st) (\<lambda>st1. transmit_with_autoack n call b0 (tx_config r) outBuffer st1)"

text \<open>\<open>array[i] = (i % 32) + 1;\<close> for \<open>i < 32\<close>; the last eight bytes stay as they were.\<close>

definition weather_payload :: "u8 list \<Rightarrow> u8 list" where
  "weather_payload array0 = map (\<lambda>i. of_nat (i mod 32) + 1) [0..<32] @ drop 32 array0"

definition weathernodeV2_main ::
  "nat \<Rightarrow> radio_call \<Rightarrow> addr \<Rightarrow> addr \<Rightarrow> GpioObject \<Rightarrow> GpioObject \<Rightarrow> Nrf24l01Registers \<Rightarrow> GpioObject \<Rightarrow> u8 list \<Rightarrow>
   tx_globals \<Rightarrow> radio \<Rightarrow> (tx_globals \<times> radio) res" where
  "weathernodeV2_main n call timer_fn isr portA0 t0 c0 b0 array0 r st =
     (case st of (g, s) \<Rightarrow>
        bnd (append_os_core_function timer_fn g) (\<lambda>g1.
        let g2 = g1\<lparr>receivedAckPackage := 0\<rparr>;
            r2 = r\<lparr>tx_config := \<lparr>autoRetransmitDelay = 16000, cfg_retransmitCount = 2\<rparr>,
                   nrf_registers := apply_nrf_config_weather (nrf_registers r)\<rparr> in
        bnd (configure_device portA0 t0 c0 (nrf_registers r2) MASTER (g2, crc_activate s)) (\<lambda>(configured, g3, s3).
        bnd (init_irq_weather isr r2 s3) (\<lambda>(r4, s4).
        bnd (transmit_with_autoack n call b0 (tx_config r4) (weather_payload array0) (g3, s4)) (\<lambda>(succeeded, array, g5, s5).
        let ob = (get_current_tx_state g5)\<lparr>totalElapsed := drop_bit 10 0\<rparr> in
        bnd (print (TxObserve_bytes ob) s5) (\<lambda>s6. Inr (r4, g5, s6)))))))"

section \<open>drone\_rpm\<close>

definition apply_nrf_config_drone :: "Nrf24l01Registers \<Rightarrow> Nrf24l01Registers" where
  "apply_nrf_config_drone r =
     r\<lparr>en_aa := 0, rf_setup := 6, setup_aw := 3, rf_ch := 3, en_rxaddr := 3, rx_pw_p0 := 4, rx_pw_p1 := 4,
       tx_addr := [0x9A, 0x78, 0x56, 0x34, 0x12] @ drop 5 (tx_addr r),
       rx_addr_p0 := replicate 5 0xC6 @ drop 5 (rx_addr_p0 r),
       rx_addr_p1 := replicate 5 0xC5 @ drop 5 (rx_addr_p1 r)\<rparr>"

text \<open>A command: the duty cycle register in the most significant byte, its value, the command \<open>0x30\<close>.\<close>

definition extIoHandler :: "u32 \<Rightarrow> 'z machine_scheme \<Rightarrow> 'z machine_scheme" where
  "extIoHandler buffer s =
     (if buffer AND 0xFF = 0x30
      then set_ccr 2 (drop_bit 8 buffer AND 0xFFFF) (drop_bit 24 buffer) s
      else s)"

definition swap_word :: "u32 \<Rightarrow> u32" where
  "swap_word num =
     (drop_bit 24 num AND 0xFF) OR (push_bit 8 num AND 0xFF0000) OR (drop_bit 8 num AND 0xFF00) OR
     (push_bit 24 num AND 0xFF000000)"

text \<open>\<open>for (i = 0; i < 4; i++) rx_answer[i] = rx_answer[i + 1];\<close> with \<open>k\<close> rounds left.\<close>

fun shift_down :: "nat \<Rightarrow> nat \<Rightarrow> u8 list \<Rightarrow> u8 list res" where
  "shift_down 0 i b = Inr b"
| "shift_down (Suc k) i b = bnd (rd b (int i + 1)) (\<lambda>v. bnd (wr b (int i) v) (\<lambda>b1. shift_down k (i + 1) b1))"

definition drone_packet :: "u8 list \<Rightarrow> radio \<Rightarrow> (u8 list \<times> radio) res" where
  "drone_packet b st =
     (case st of (g, s) \<Rightarrow>
        bnd (shift_down 4 0 b) (\<lambda>b1. Inr (b1, g, extIoHandler (swap_word (rx_word (take 4 b1))) s)))"

text \<open>\<open>at_zero\<close> is what the null pointer designates: the first words of the flash memory.\<close>

definition rx_receive_isr_drone ::
  "nat \<Rightarrow> Nrf24l01Registers \<Rightarrow> GpioObject \<Rightarrow> u8 list \<Rightarrow> radio \<Rightarrow> radio res" where
  "rx_receive_isr_drone n startup_config at_zero rx_answer0 st =
     (case st of (g, s) \<Rightarrow>
        bnd (drain_fifo n startup_config drone_packet rx_answer0 (g, exti_acknowledge_interrupt at_zero s)) clear_rx_dr_flag)"


section \<open>The allocator under the test programs\<close>

text \<open>
  \<open>budget k b s\<close>: the heap can serve \<open>k\<close> more requests of \<open>b\<close> bytes in all, and the mutex is locked
  when the code locks it.
\<close>

definition budget :: "nat \<Rightarrow> nat \<Rightarrow> kernel \<Rightarrow> bool" where
  "budget k b s \<longleftrightarrow> alloc_room s k b \<and> lock_r1 s = 1"

lemma budget_cong:
  assumes "MEM_TABLE s' = MEM_TABLE s" "USEABLE_MEM_START s' = USEABLE_MEM_START s" "mutex s' = mutex s"
    "lock_r1 s' = lock_r1 s"
  shows "budget k b s' = budget k b s" "live s' = live s"
  using assms alloc_inv_cong [OF assms(1,2)] by (simp_all add: budget_def alloc_room_def)

lemma budget_report [simp]: "budget k b (report c n s) = budget k b s"
  by (cases c) (simp_all only: report_def if_True if_False, rule budget_cong, simp_all del: MODIFY_plain)

lemma READ_alloc_sel:
  "READ_REGISTER a s = (v, s') \<Longrightarrow> MEM_TABLE s' = MEM_TABLE s \<and> USEABLE_MEM_START s' = USEABLE_MEM_START s \<and>
    mutex s' = mutex s \<and> lock_r1 s' = lock_r1 s"
  by (auto simp: READ_REGISTER_def split: list.splits)

lemma budget_timer:
  assumes "read_global_timer s = (v, s')"
  shows "budget k b s' = budget k b s" "live s' = live s"
proof -
  note R = READ_alloc_sel [OF assms [unfolded read_global_timer_def timer_read_counter_def]]
  show "budget k b s' = budget k b s" "live s' = live s"
    by (rule budget_cong; simp add: R)+
qed

lemma budget_allocate:
  assumes "budget (Suc k) (align_nat 8 (unat sz) + b) s" "0 < unat sz" "unat sz \<le> 32760"
  obtains p s' n where "allocate sz s = Inr (p, s')" "p \<noteq> NULL" "budget k b s'" "p \<notin> fst ` live s"
    "live s' = insert (p, n) (live s)"
proof -
  from assms obtain p s' n where "allocate sz s = Inr (p, s')" "p \<noteq> NULL" "alloc_frame s s'" "alloc_room s' k b"
    "unat sz \<le> n" "p \<notin> fst ` live s" "live s' = insert (p, n) (live s)"
    unfolding budget_def by (elim conjE alloc_step)
  note A = this
  have "budget k b s'" using A(4) alloc_frame_sel(5) [OF A(3)] assms(1) by (simp add: budget_def)
  with A show ?thesis by (intro that)
qed

lemma budget_deallocate:
  assumes "budget k b s"
  obtains r s' where "deallocate a s = Inr (r, s')" "budget k b s'" "live s' = {c \<in> live s. fst c \<noteq> a}"
proof -
  from assms have "alloc_room s k b" by (simp add: budget_def)
  then obtain r s' where "deallocate a s = Inr (r, s')" "alloc_frame s s'" "alloc_room s' k b"
    "live s' = {c \<in> live s. fst c \<noteq> a}"
    by (rule dealloc_step)
  note A = this
  have "budget k b s'" using A(3) alloc_frame_sel(5) [OF A(2)] assms by (simp add: budget_def)
  with A show ?thesis by (intro that)
qed

text \<open>After a request of an impossible size the heap is locked for good.\<close>

lemma impossible_size_locks:
  assumes "budget k b s" "sz = 0 \<or> 32768 < sz"
  obtains s' where "allocate sz s = Inr (NULL, s')" "mutex s' = 1"
  using assms by (auto simp: budget_def alloc_room_def allocate_def lock_mutex_def ST_DISABLE_def)

lemma locked_spins: "mutex s = 1 \<Longrightarrow> deallocate a s = Inl Spin" "mutex s = 1 \<Longrightarrow> allocate n s = Inl Spin"
  by (simp_all add: deallocate_def allocate_def lock_mutex_def ST_DISABLE_def)

lemma mutex_report [simp]: "mutex (report c n s) = mutex s"
  by (simp add: report_def)

lemma budget_allocs:
  assumes "budget (length ns + k) (sum_list (map (\<lambda>n. align_nat 8 (unat n)) ns) + b) s"
    and "\<forall>n\<in>set ns. 0 < unat n \<and> unat n \<le> 32760"
  shows "\<exists>ps s'. allocs ns s = Inr (ps, s') \<and> length ps = length ns \<and> budget k b s'"
  using assms
proof (induction ns arbitrary: s)
  case (Cons n ns)
  have "budget (Suc (length ns + k)) (align_nat 8 (unat n) + (sum_list (map (\<lambda>n. align_nat 8 (unat n)) ns) + b)) s"
    using Cons.prems(1) by (simp add: add.assoc)
  then obtain p s1 m where A: "allocate n s = Inr (p, s1)"
    "budget (length ns + k) (sum_list (map (\<lambda>n. align_nat 8 (unat n)) ns) + b) s1"
    by (rule budget_allocate) (use Cons.prems(2) in auto)
  from Cons.IH [OF A(2)] Cons.prems(2) A(1) show ?case by auto
qed simp


lemma budget_step:
  assumes "budget (Suc k) (m + b) s"
  shows "align_nat 8 (unat sz) = m \<and> 0 < unat sz \<and> unat sz \<le> 32760 \<Longrightarrow>
    \<exists>p s'. allocate sz s = Inr (p, s') \<and> budget k b s'"
  using assms by (metis budget_allocate)

lemma dummy_reuse_ok:
  assumes "budget (Suc (Suc (Suc (Suc k)))) (8 + (8 + (8 + (8 + b)))) s"
  shows "\<exists>s'. dummy_reuse s = Inr s' \<and> budget k b s'"
proof -
  have al: "align_nat 8 (unat sz) = 8 \<and> 0 < unat sz \<and> unat sz \<le> 32760" if "sz = 4 \<or> sz = 8" for sz :: u32
    using that by (auto simp: align_nat_def)
  from budget_step [OF assms al, of 4] obtain p1 s1 where 1: "allocate 4 s = Inr (p1, s1)" "budget (Suc (Suc (Suc k))) (8 + (8 + (8 + b))) s1" by auto
  then have "budget (Suc (Suc (Suc k))) (8 + (8 + (8 + b))) (report (p1 \<noteq> 0) 0 s1)" by simp
  then obtain r s2 where 2: "deallocate p1 (report (p1 \<noteq> 0) 0 s1) = Inr (r, s2)" "budget (Suc (Suc (Suc k))) (8 + (8 + (8 + b))) s2"
    by (rule budget_deallocate)
  then have "budget (Suc (Suc (Suc k))) (8 + (8 + (8 + b))) (report (r \<noteq> 0) 1 s2)" by simp
  from budget_step [OF this al, of 4] obtain p2 s3 where 3: "allocate 4 (report (r \<noteq> 0) 1 s2) = Inr (p2, s3)" "budget (Suc (Suc k)) (8 + (8 + b)) s3" by auto
  then have "budget (Suc (Suc k)) (8 + (8 + b)) (report (p1 = p2) 2 s3)" by simp
  from budget_step [OF this al, of 8] obtain p3 s4 where 4: "allocate 8 (report (p1 = p2) 2 s3) = Inr (p3, s4)" "budget (Suc k) (8 + b) s4" by auto
  obtain r' s5 where 5: "deallocate p3 s4 = Inr (r', s5)" "budget (Suc k) (8 + b) s5" by (rule budget_deallocate [OF 4(2)])
  from budget_step [OF 5(2) al, of 4] obtain p4 s6 where 6: "allocate 4 s5 = Inr (p4, s6)" "budget k b s6" by auto
  show ?thesis using 1(1) 2(1) 3(1) 4(1) 5(1) 6 by (simp add: dummy_reuse_def)
qed

lemma dummy_split_ok:
  assumes "budget (10 + k) (136 + b) s"
  shows "\<exists>s'. dummy_split s = Inr s' \<and> budget k b s'"
proof -
  have "budget (length [4, 4, 4 :: u32] + (7 + k)) (sum_list (map (\<lambda>n. align_nat 8 (unat n)) [4, 4, 4 :: u32]) + (112 + b)) s"
    using assms by (simp add: align_nat_def)
  from budget_allocs [OF this] obtain ps s1 where 1: "allocs [4, 4, 4] s = Inr (ps, s1)" "budget (Suc (6 + k)) (32 + (80 + b)) s1"
    by auto
  have "align_nat 8 (unat (32 :: u32)) = 32 \<and> 0 < unat (32 :: u32) \<and> unat (32 :: u32) \<le> 32760"
    by (simp add: align_nat_def)
  from budget_step [OF 1(2) this] obtain p s2 where 2: "allocate 32 s1 = Inr (p, s2)" "budget (6 + k) (80 + b) s2" by blast
  obtain r s3 where 3: "deallocate p s2 = Inr (r, s3)" "budget (6 + k) (80 + b) s3" by (rule budget_deallocate [OF 2(2)])
  have six: "length [4, 4, 4, 16, 32, 4 :: u32] + k = 6 + k" by simp
  have "budget (length [4, 4, 4, 16, 32, 4 :: u32] + k) (sum_list (map (\<lambda>n. align_nat 8 (unat n)) [4, 4, 4, 16, 32, 4 :: u32]) + b) s3"
    unfolding six using 3(2) by (simp add: align_nat_def)
  from budget_allocs [OF this] obtain ms s4 where 4: "allocs [4, 4, 4, 16, 32, 4] s3 = Inr (ms, s4)" "budget k b s4"
    by auto
  show ?thesis using 1(1) 2(1) 3(1) 4 by (simp add: dummy_split_def)
qed

section \<open>What the programs do\<close>

text \<open>
  The program \<open>dummy\<close>, with room for its fourteen requests, never ends: its request of 88888888
  bytes leaves the heap locked, and the release that follows waits for the mutex.
\<close>

theorem dummy_never_ends:
  assumes "alloc_room s 14 168" "lock_r1 s = 1"
  shows "dummy_main s = Inl Spin"
proof -
  have "budget (Suc (Suc (Suc (Suc 10)))) (8 + (8 + (8 + (8 + 136)))) s" using assms by (simp add: budget_def)
  from dummy_reuse_ok [OF this] obtain s1 where 1: "dummy_reuse s = Inr s1" "budget (10 + 0) (136 + 0) s1" by auto
  from dummy_split_ok [OF 1(2)] obtain s2 where 2: "dummy_split s1 = Inr s2" "budget 0 0 s2" by blast
  obtain s3 where 3: "allocate 88888888 s2 = Inr (NULL, s3)" "mutex s3 = 1"
    by (rule impossible_size_locks [OF 2(2), of 88888888]) simp_all
  show ?thesis using 1(1) 2(1) 3 by (simp add: dummy_main_def locked_spins)
qed

text \<open>
  The program \<open>memory_tests\<close> passes its first test and waits for ever in the second, whose request of
  no bytes leaves the heap locked for the request that follows.
\<close>

theorem memory_tests_never_end:
  assumes "mutex s \<noteq> 1" "lock_r1 s = 1"
  shows "fst (Subtest002_000_memset_byte dt s) = 1 \<and> memory_tests_main dt m s = Inl Spin"
proof -
  define s1 where "s1 = snd (Subtest002_000_memset_byte dt s)"
  have 1: "fst (Subtest002_000_memset_byte dt s) = 1"
    by (simp add: Subtest002_000_memset_byte_def Let_def)
  then have e: "Subtest002_000_memset_byte dt s = (1, s1)" by (simp add: s1_def prod_eq_iff)
  have m: "mutex s1 \<noteq> 1" "lock_r1 s1 = 1"
    using assms by (simp_all add: s1_def Subtest002_000_memset_byte_def memset_byte_def Let_def)
  then obtain s2 where "allocate 0 s1 = Inr (NULL, s2)" "mutex s2 = 1"
    by (auto simp: allocate_def lock_mutex_def ST_DISABLE_def)
  then have "memory_tests_main dt m s = Inl Spin"
    by (simp add: memory_tests_main_def e Subtest002_001_alloc_zero_or_less_def locked_spins)
  with 1 show ?thesis ..
qed

text \<open>
  The benchmark of the allocator gives every chunk back, and takes the 32 measurements it has room
  for.
\<close>

lemma benchmark_ok:
  assumes "budget (Suc k) (align_nat 8 (unat n) + b) s" "0 < unat n" "unat n \<le> 32760" "unat j < length res"
  shows "\<exists>v s'. benchmark n res j s = Inr (res[unat j := v], s') \<and> budget k b s' \<and> live s' = live s"
proof -
  obtain v1 s1 where 1: "read_global_timer s = (v1, s1)" by fastforce
  from budget_timer [OF 1] assms(1) have b: "budget (Suc k) (align_nat 8 (unat n) + b) s1" "live s1 = live s" by simp_all
  obtain p s2 l where 2: "allocate n s1 = Inr (p, s2)" "budget k b s2" "p \<notin> fst ` live s1" "live s2 = insert (p, l) (live s1)"
    by (rule budget_allocate [OF b(1) assms(2,3)])
  obtain v2 s3 where 3: "read_global_timer s2 = (v2, s3)" by fastforce
  from budget_timer [OF 3] 2(2) have c: "budget k b s3" "live s3 = live s2" by simp_all
  obtain r s4 where 4: "deallocate p s3 = Inr (r, s4)" "budget k b s4" "live s4 = {c \<in> live s3. fst c \<noteq> p}"
    by (rule budget_deallocate [OF c(1)])
  have "live s4 = live s" using 4(3) c(2) 2(3,4) b(2) by (force simp: image_iff)
  moreover have "uint j < int (length res)" using assms(4) unfolding unat_eq_nat_uint by linarith
  then have "wr res (uint j) (v2 - v1) = Inr (res[unat j := v2 - v1])" by (simp add: wr_def)
  ultimately show ?thesis using 1 2(1) 3 4(1,2) by (auto simp: benchmark_def)
qed


lemma benchmark_rounds_ok:
  assumes "budget k (sum_list (map (\<lambda>n. align_nat 8 (unat n)) (take k (drop (unat j) ns)))) s"
    and "unat j + k \<le> length ns" "unat j + k \<le> length res" "unat j + k < 2 ^ 32"
    and "\<forall>n\<in>set ns. 0 < unat n \<and> unat n \<le> 32760"
  shows "\<exists>rs s'. benchmark_rounds ns k j res s = Inr (rs, s') \<and> length rs = length res \<and> live s' = live s \<and>
    (\<forall>i < unat j. rs ! i = res ! i)"
  using assms
proof (induction k arbitrary: j res s)
  case (Suc k)
  have j: "unat j < length ns" "uint j < int (length ns)" using Suc.prems(2) unfolding unat_eq_nat_uint by linarith+
  have j1: "unat (j + 1) = unat j + 1" using Suc.prems(4) by (simp add: unat_word_ariths)
  let ?n = "ns ! unat j" and ?b = "sum_list (map (\<lambda>n. align_nat 8 (unat n)) (take k (drop (unat (j + 1)) ns)))"
  have "take (Suc k) (drop (unat j) ns) = ?n # take k (drop (unat (j + 1)) ns)"
    unfolding j1 using Cons_nth_drop_Suc [OF j(1), symmetric] by simp
  with Suc.prems(1) have "budget (Suc k) (align_nat 8 (unat ?n) + ?b) s" by simp
  moreover have "0 < unat ?n" "unat ?n \<le> 32760" using Suc.prems(5) nth_mem [OF j(1)] by blast+
  ultimately obtain v s1 where b: "benchmark ?n res j s = Inr (res[unat j := v], s1)" "budget k ?b s1" "live s1 = live s"
    using benchmark_ok [of k ?n ?b s j res] Suc.prems(3) by auto
  have "unat (j + 1) + k \<le> length ns" "unat (j + 1) + k \<le> length (res[unat j := v])" "unat (j + 1) + k < 2 ^ 32"
    using Suc.prems(2-4) unfolding j1 by simp_all
  from Suc.IH [OF b(2) this Suc.prems(5)] obtain rs s' where
    r: "benchmark_rounds ns k (j + 1) (res[unat j := v]) s1 = Inr (rs, s')" "length rs = length res" "live s' = live s"
      "\<forall>i < unat j + 1. rs ! i = res[unat j := v] ! i"
    unfolding j1 using b(3) by auto
  have "rd ns (uint j) = Inr ?n" using j(2) by (simp add: rd_def)
  then show ?case using b(1) r by auto
qed simp

theorem memory_benchmark_gives_back:
  assumes "alloc_room s 32 (sum_list (map (\<lambda>n. align_nat 8 (unat n)) (take 32 chunks)))" "lock_r1 s = 1"
    and "32 \<le> length chunks" "length res0 = 32" "\<forall>n\<in>set chunks. 0 < unat n \<and> unat n \<le> 32760"
  shows "\<exists>rs s'. benchmark_rounds chunks 32 0 res0 s = Inr (rs, s') \<and> length rs = 32 \<and> live s' = live s"
  using benchmark_rounds_ok [of 32 0 chunks s res0] assms by (auto simp: budget_def)

text \<open>
  A packet of the drone: the byte in front of the command is dropped, the command is the word the
  remaining four bytes are, most significant byte first.
\<close>

lemma swap_word_reverse: "swap_word w = reverse_byte_order w"
  unfolding swap_word_def reverse_byte_order_def by (simp add: ac_simps)

lemma shift_down_4: "shift_down 4 0 (x # a # b # c # d # rest) = Inr (a # b # c # d # d # rest)"
  by (simp add: numeral_eq_Suc rd_def wr_def)

theorem drone_packet_decodes:
  "drone_packet (x # big_endian w @ rest) (g, s) = Inr (big_endian w @ last (big_endian w) # rest, g, extIoHandler w s)"
proof -
  obtain a b c d where w: "big_endian w = [a, b, c, d]" by (simp add: big_endian_def)
  have "swap_word (rx_word [a, b, c, d]) = w" unfolding swap_word_reverse w [symmetric] by (rule reverse_rx_word)
  then show ?thesis unfolding w drone_packet_def by (simp add: shift_down_4)
qed

end
