(* ===== verification/Am2302.thy ===== *)
theory Am2302
  imports Gpio
begin

text \<open>
  The driver of the AM2302 humidity sensor: the protocol inlined from \<open>packages/lib/include/am2302.h\<close>
  and \<open>packages/lib/am2302/src/am2302.c\<close>.  The pin object \<open>gpio\<close> of the file is an argument.  The
  sensor answers on one wire: what it does is the input of the pin's data register, the time the
  input of the counter of timer 2.
\<close>

section \<open>Data\<close>

record Am2302Readings =
  rh :: u16
  temp :: u16
  rd_crc :: u8
  is_valid :: u8

abbreviation (input) timerNumber :: u32 where "timerNumber \<equiv> 2"
abbreviation (input) HostPullsLow :: u32 where "HostPullsLow \<equiv> 1000"
abbreviation (input) SensorOutputZero :: u32 where "SensorOutputZero \<equiv> 30"
abbreviation tim2_cnt :: addr where "tim2_cnt \<equiv> tim (get_timx_base timerNumber) ''cnt''"

section \<open>Operations\<close>

definition init_am2302_gpio :: "GpioObject \<Rightarrow> 'z machine_scheme \<Rightarrow> GpioObject \<times> 'z machine_scheme" where
  "init_am2302_gpio obj s =
     (let (g, s1) = init_gpio obj s
      in (g, set_pin_off g (set_speed g High (set_otyper g PushPull (set_moder g GeneralPurposeOutputMode s1)))))"

text \<open>\<open>result |= 1ULL << iteration\<close>: a shift by 64 or more is undefined.\<close>

definition put_bit :: "64 word \<Rightarrow> 64 word \<Rightarrow> 64 word res" where
  "put_bit result iteration =
     (if unat iteration < 64 then Inr (result OR push_bit (unat iteration) 1) else Inl Undefined)"

text \<open>
  The sampling loop, up to the time-out: \<open>prev_state\<close> and \<open>t_now\<close> are the level and the time of the
  last edge.  Once the counter presents nothing new and has not reached the time-out, the loop
  never ends.
\<close>

function am2302_loop ::
  "GpioObject \<Rightarrow> u32 \<Rightarrow> u32 \<Rightarrow> 64 word \<Rightarrow> 64 word \<Rightarrow> 'z machine_scheme \<Rightarrow> (64 word \<times> 'z machine_scheme) res" where
  "am2302_loop g prev_state t_now result iteration s =
     (let (elapsed, s1) = timer_read_counter timerNumber s in
      if \<not> elapsed < 10000 then Inr (result, s1)
      else if inputs s tim2_cnt = [] then Inl Spin
      else
        let (current_state, s2) = read_pin g s1 in
        if prev_state < current_state then
          let (t, s3) = timer_read_counter timerNumber s2 in
          am2302_loop g current_state t result iteration s3
        else if current_state < prev_state then
          let (t, s3) = timer_read_counter timerNumber s2 in
          bnd (if \<not> t - t_now < SensorOutputZero then put_bit result iteration else Inr result) (\<lambda>r.
          am2302_loop g current_state t_now r (iteration - 1) s3)
        else am2302_loop g prev_state t_now result iteration s2)"
  by pat_completeness auto

lemma counter_inputs_le: "timer_read_counter n s = (v, s') \<Longrightarrow> length (inputs s' b) \<le> length (inputs s b)"
  using READ_inputs_le [of "tim (get_timx_base n) ''cnt''" s b] by (simp add: timer_read_counter_def)

lemma counter_inputs_less:
  "timer_read_counter 2 s = (v, s') \<Longrightarrow> inputs s tim2_cnt \<noteq> [] \<Longrightarrow> length (inputs s' tim2_cnt) < length (inputs s tim2_cnt)"
  using READ_inputs_less [of s tim2_cnt] by (simp add: timer_read_counter_def)

lemma pin_inputs_le: "read_pin g s = (v, s') \<Longrightarrow> length (inputs s' b) \<le> length (inputs s b)"
  using READ_inputs_le [of "gpio g ''idr''" s b] by (auto simp: read_pin_def split: prod.splits)

termination am2302_loop
proof (relation "measure (\<lambda>(g, p, t, r, i, s). length (inputs s tim2_cnt))", goal_cases)
  case 1 show ?case by simp
next
  case (2 g p t r i s x e s1 y c s2 z t' s3)
  then show ?case
    using counter_inputs_less [of s e s1] pin_inputs_le [of g s1 c s2 tim2_cnt] counter_inputs_le [of 2 s2 t' s3 tim2_cnt]
    by simp
next
  case (3 g p t r i s x e s1 y c s2 z t' s3 r')
  then show ?case
    using counter_inputs_less [of s e s1] pin_inputs_le [of g s1 c s2 tim2_cnt] counter_inputs_le [of 2 s2 t' s3 tim2_cnt]
    by simp
next
  case (4 g p t r i s x e s1 y c s2)
  then show ?case
    using counter_inputs_less [of s e s1] pin_inputs_le [of g s1 c s2 tim2_cnt] by simp
qed

declare am2302_loop.simps [simp del]

definition readings_of :: "64 word \<Rightarrow> Am2302Readings" where
  "readings_of result =
     (let h = ucast (drop_bit 24 result) :: u16;
          t = ucast (drop_bit 8 result) AND 0xFFFF :: u16;
          c = ucast result AND 0xFF :: u8
      in \<lparr>rh = h, temp = t, rd_crc = c,
          is_valid =
            (if (ucast (h AND 0xFF) + ucast (drop_bit 8 h) + ucast (t AND 0xFF) + ucast (drop_bit 8 t) :: u8) = c
             then 1 else 0)\<rparr>)"

text \<open>The start signal: the line is pulled low for a millisecond, then up, and left to the sensor.\<close>

definition am2302_start :: "GpioObject \<Rightarrow> 'z machine_scheme \<Rightarrow> 'z machine_scheme res" where
  "am2302_start g s =
     (let s1 = timer_flush_counter timerNumber s;
          s2 = timer_start timerNumber (set_pin_off g (set_pin_on g (set_moder g GeneralPurposeOutputMode s1))) in
      bnd (poll tim2_cnt (\<lambda>v. \<not> v < HostPullsLow) s2) (\<lambda>s3.
      let s4 = set_pin_on g (timer_start timerNumber (timer_flush_counter timerNumber (timer_stop timerNumber s3))) in
      bnd (poll tim2_cnt (\<lambda>v. \<not> v < SensorOutputZero) s4) (\<lambda>s5.
      Inr (set_moder g InputMode (timer_flush_counter timerNumber (timer_stop timerNumber (set_pin_off g s5)))))))"

definition am2302_run :: "GpioObject \<Rightarrow> 'z machine_scheme \<Rightarrow> (Am2302Readings \<times> 'z machine_scheme) res" where
  "am2302_run g s =
     bnd (am2302_start g s) (\<lambda>s1.
     bnd (poll (gpio g ''idr'') (\<lambda>v. v AND shl 1 (pin g) \<noteq> 0) s1) (\<lambda>s2.
     bnd (poll (gpio g ''idr'') (\<lambda>v. v AND shl 1 (pin g) = 0) s2) (\<lambda>s3.
     bnd (am2302_loop g 0 0 0 39 (timer_start timerNumber s3)) (\<lambda>(result, s4).
     Inr (readings_of result, timer_flush_counter timerNumber (set_pin_on g (timer_stop timerNumber s4)))))))"

definition am2302_do_measurement :: "GpioObject \<Rightarrow> 'z machine_scheme \<Rightarrow> (Am2302Readings \<times> 'z machine_scheme) res" where
  "am2302_do_measurement g s = am2302_run g s"

section \<open>The wire as a list of samples\<close>

text \<open>
  What one round of the sampling loop sees: the counter and the port, and at an edge the counter
  read once more.
\<close>

datatype sample = Steady u32 u32 | Edge u32 u32 u32

fun cnt_of :: "sample \<Rightarrow> u32 list" where
  "cnt_of (Steady e w) = [e]" | "cnt_of (Edge e w t) = [e, t]"

fun port_of :: "sample \<Rightarrow> u32" where
  "port_of (Steady e w) = w" | "port_of (Edge e w t) = w"

text \<open>The samples fit the level \<open>p\<close> of the pin with mask \<open>m\<close> and lie before the time-out.\<close>

fun legal :: "u32 \<Rightarrow> u32 \<Rightarrow> sample list \<Rightarrow> bool" where
  "legal m p [] = True"
| "legal m p (Steady e w # ss) = (e < 10000 \<and> w AND m = p \<and> legal m p ss)"
| "legal m p (Edge e w t # ss) = (e < 10000 \<and> w AND m \<noteq> p \<and> legal m (w AND m) ss)"

text \<open>How long the line was up, for every fall.\<close>

fun widths :: "u32 \<Rightarrow> u32 \<Rightarrow> u32 \<Rightarrow> sample list \<Rightarrow> u32 list" where
  "widths m p t0 [] = []"
| "widths m p t0 (Steady e w # ss) = widths m p t0 ss"
| "widths m p t0 (Edge e w t # ss) =
     (if p < w AND m then widths m (w AND m) t ss else (t - t0) # widths m (w AND m) t0 ss)"

fun bits_in :: "64 word \<Rightarrow> 64 word \<Rightarrow> u32 list \<Rightarrow> 64 word" where
  "bits_in r i [] = r"
| "bits_in r i (w # ws) = bits_in (if w < 30 then r else r OR push_bit (unat i) 1) (i - 1) ws"

definition bit_room :: "64 word \<Rightarrow> u32 list \<Rightarrow> bool" where
  "bit_room i ws \<longleftrightarrow> ws = [] \<or> unat i < 64 \<and> length ws \<le> unat i + 1"

lemma bit_room_Cons:
  assumes "bit_room i (w # ws)"
  shows "put_bit r i = Inr (r OR push_bit (unat i) 1)" "bit_room (i - 1) ws"
proof -
  show "put_bit r i = Inr (r OR push_bit (unat i) 1)" using assms by (simp add: bit_room_def put_bit_def)
  have "unat (i - 1) = unat i - 1" if "ws \<noteq> []"
  proof -
    have "1 \<le> length ws" "length ws \<le> unat i" using assms that by (auto simp: bit_room_def Suc_le_eq)
    then have "i \<noteq> 0" by auto
    then show ?thesis by (simp add: unat_minus_one)
  qed
  with assms show "bit_room (i - 1) ws" by (cases ws) (auto simp: bit_room_def)
qed

lemma bit_bits_in:
  "bit_room i ws \<Longrightarrow> j < 64 \<Longrightarrow>
   bit (bits_in r i ws) j \<longleftrightarrow> bit r j \<or> (j \<le> unat i \<and> unat i - j < length ws \<and> \<not> ws ! (unat i - j) < 30)"
proof (induction r i ws rule: bits_in.induct)
  case (2 r i w ws)
  let ?r = "if w < 30 then r else r OR push_bit (unat i) 1"
  have ih: "bit (bits_in ?r (i - 1) ws) j \<longleftrightarrow>
      bit ?r j \<or> (j \<le> unat (i - 1) \<and> unat (i - 1) - j < length ws \<and> \<not> ws ! (unat (i - 1) - j) < 30)"
    using "2.IH" bit_room_Cons(2) [OF "2.prems"(1)] "2.prems"(2) by blast
  have b: "bit ?r j \<longleftrightarrow> bit r j \<or> (\<not> w < 30 \<and> j = unat i)"
    using "2.prems" by (auto simp: bit_simps)
  show ?case
  proof (cases "ws = []")
    case True
    then show ?thesis using b by auto
  next
    case False
    then have "1 \<le> length ws" "length ws \<le> unat i" using "2.prems"(1) by (auto simp: bit_room_def Suc_le_eq)
    then have n: "unat i \<noteq> 0" by simp
    then have "i \<noteq> 0" by auto
    then have u: "unat (i - 1) = unat i - 1" by (simp add: unat_minus_one)
    show ?thesis
    proof (cases "j = unat i")
      case True
      then show ?thesis using ih b u n by auto
    next
      case ne: False
      then have "unat i - j = Suc (unat i - 1 - j)" if "j \<le> unat i" using that by simp
      then show ?thesis using ih b u n ne by (auto simp: nth_Cons')
    qed
  qed
qed simp

section \<open>The loop\<close>

definition rest_in :: "GpioObject \<Rightarrow> u32 list \<Rightarrow> u32 list \<Rightarrow> 'z machine_scheme \<Rightarrow> 'z machine_scheme" where
  "rest_in g xs ys s = s\<lparr>inputs := (inputs s)(tim2_cnt := xs, gpio g ''idr'' := ys)\<rparr>"

text \<open>The pin of the sensor: its mask and the addresses of the two registers the loop reads.\<close>

locale sensor_wire =
  fixes g :: GpioObject and m C D :: u32
  assumes C: "tim2_cnt = C" and D: "gpio g ''idr'' = D" and m: "shl 1 (pin g) = m"
    and port: "gpio_regs g \<in> {GpioABase, GpioBBase, GpioCBase, GpioDBase}"
begin

lemma CD: "D \<noteq> C" "C \<noteq> D"
  using C D port by auto

lemma other_registers:
  "gpio g ''moder'' \<noteq> C" "gpio g ''moder'' \<noteq> D" "gpio g ''odr'' \<noteq> C" "gpio g ''odr'' \<noteq> D"
  "tim (get_timx_base 2) ''cr1'' \<noteq> C" "tim (get_timx_base 2) ''cr1'' \<noteq> D"
  using C D port by auto

text \<open>What the operations on the pin and the timer leave of the two registers' input.\<close>

lemma quiet_ops:
  "inputs (set_moder g md s) C = inputs s C" "inputs (set_moder g md s) D = inputs s D" "mmio (set_moder g md s) D = mmio s D"
  "inputs (set_pin_on g s) C = inputs s C" "inputs (set_pin_on g s) D = inputs s D" "mmio (set_pin_on g s) D = mmio s D"
  "inputs (set_pin_off g s) C = inputs s C" "inputs (set_pin_off g s) D = inputs s D" "mmio (set_pin_off g s) D = mmio s D"
  "inputs (timer_start 2 s) C = inputs s C" "inputs (timer_start 2 s) D = inputs s D" "mmio (timer_start 2 s) D = mmio s D"
  "inputs (timer_stop 2 s) C = inputs s C" "inputs (timer_stop 2 s) D = inputs s D" "mmio (timer_stop 2 s) D = mmio s D"
  "inputs (timer_flush_counter 2 s) C = tl (inputs s C)" "inputs (timer_flush_counter 2 s) D = inputs s D"
  "mmio (timer_flush_counter 2 s) D = mmio s D"
  unfolding set_moder_def set_pin_on_def set_pin_off_def timer_start_def timer_stop_def timer_flush_counter_def
    SET_BIT_def CLEAR_BIT_def FLUSH_REGISTER_def C
  by (simp_all only: inputs_MODIFY fun_upd_other fun_upd_same MODIFY_other other_registers [symmetric] CD
      other_registers not_False_eq_True)

lemma am2302_start_ok:
  assumes "inputs s C = a0 # pre1 @ w1 # a1 # pre2 @ w2 # a2 # rest"
    "\<forall>v\<in>set pre1. v < HostPullsLow" "\<not> w1 < HostPullsLow" "\<forall>v\<in>set pre2. v < SensorOutputZero" "\<not> w2 < SensorOutputZero"
  shows "\<exists>s1. am2302_start g s = Inr s1 \<and> inputs s1 C = rest \<and> inputs s1 D = inputs s D"
proof -
  let ?s2 = "timer_start timerNumber (set_pin_off g (set_pin_on g (set_moder g GeneralPurposeOutputMode (timer_flush_counter timerNumber s))))"
  let ?s3 = "?s2\<lparr>inputs := (inputs ?s2)(C := a1 # pre2 @ w2 # a2 # rest)\<rparr>"
  let ?s4 = "set_pin_on g (timer_start timerNumber (timer_flush_counter timerNumber (timer_stop timerNumber ?s3)))"
  let ?s5 = "?s4\<lparr>inputs := (inputs ?s4)(C := a2 # rest)\<rparr>"
  have p1: "poll C (\<lambda>v. \<not> v < HostPullsLow) ?s2 = Inr ?s3"
    using assms(1-3) by (intro poll_prefix [where xs = pre1 and v = w1]) (auto simp: quiet_ops)
  have p2: "poll C (\<lambda>v. \<not> v < SensorOutputZero) ?s4 = Inr ?s5"
    using assms(4,5) by (intro poll_prefix [where xs = pre2 and v = w2]) (auto simp: quiet_ops)
  let ?s1 = "set_moder g InputMode (timer_flush_counter timerNumber (timer_stop timerNumber (set_pin_off g ?s5)))"
  have "am2302_start g s = Inr ?s1"
    unfolding am2302_start_def Let_def C p1 bnd_simps p2 ..
  moreover have "inputs ?s1 C = rest \<and> inputs ?s1 D = inputs s D"
    by (simp add: quiet_ops CD)
  ultimately show ?thesis by blast
qed

lemma am2302_start_line:
  assumes "am2302_start g s = Inr s1"
  shows "inputs s1 D = inputs s D \<and> mmio s1 D = mmio s D"
proof -
  have poll: "inputs b D = inputs a D \<and> mmio b D = mmio a D" if "poll C q a = Inr b" for q a b
    using poll_shape [OF that] CD by auto
  show ?thesis using assms unfolding am2302_start_def Let_def C
    by (auto simp: bnd_eq_Inr quiet_ops dest!: poll)
qed

lemma rest_in_sel: "inputs (rest_in g xs ys s) C = xs" "inputs (rest_in g xs ys s) D = ys"
  unfolding rest_in_def C D using CD by simp_all

lemma rest_in_twice: "rest_in g xs ys (rest_in g xs' ys' s) = rest_in g xs ys s"
  unfolding rest_in_def C D using CD by (simp add: fun_upd_twist del: fun_upd_apply)

lemma rest_in_same: "inputs s C = xs \<Longrightarrow> inputs s D = ys \<Longrightarrow> rest_in g xs ys s = s"
  unfolding rest_in_def C D by auto

lemma read_counter_rest: "inputs s C = x # xs \<Longrightarrow> inputs s D = ys \<Longrightarrow> timer_read_counter 2 s = (x, rest_in g xs ys s)"
  unfolding timer_read_counter_def C READ_REGISTER_def rest_in_def D using CD
  by (simp add: fun_upd_twist del: fun_upd_apply) (simp add: fun_upd_idem)

lemma read_pin_rest: "inputs s C = xs \<Longrightarrow> inputs s D = w # ys \<Longrightarrow> read_pin g s = (w AND m, rest_in g xs ys s)"
  unfolding read_pin_def C READ_REGISTER_def rest_in_def D m using CD by (auto simp: fun_upd_idem)

lemma loop_stop: "inputs s C = stop # xs \<Longrightarrow> inputs s D = ys \<Longrightarrow> \<not> stop < 10000 \<Longrightarrow>
    am2302_loop g p t0 r i s = Inr (r, rest_in g xs ys s)"
  by (subst am2302_loop.simps) (simp add: read_counter_rest)

lemma loop_sample:
  assumes "inputs s C = e # xs" "inputs s D = w # ys" "e < 10000"
  shows "am2302_loop g p t0 r i s =
     (if p < w AND m then
        let (t, s3) = timer_read_counter timerNumber (rest_in g xs ys s) in am2302_loop g (w AND m) t r i s3
      else if w AND m < p then
        let (t, s3) = timer_read_counter timerNumber (rest_in g xs ys s) in
        bnd (if \<not> t - t0 < SensorOutputZero then put_bit r i else Inr r) (\<lambda>r'.
        am2302_loop g (w AND m) t0 r' (i - 1) s3)
      else am2302_loop g p t0 r i (rest_in g xs ys s))"
proof -
  have "read_pin g (rest_in g xs (w # ys) s) = (w AND m, rest_in g xs ys s)"
    using read_pin_rest [OF rest_in_sel] by (simp add: rest_in_twice)
  then show ?thesis
    unfolding am2302_loop.simps [of g p t0 r i s] read_counter_rest [OF assms(1,2)] C assms(1) by (simp add: assms(3))
qed

lemma am2302_loop_samples:
  "legal m p ss \<Longrightarrow> bit_room i (widths m p t0 ss) \<Longrightarrow>
   inputs s C = concat (map cnt_of ss) @ stop # rest \<Longrightarrow> inputs s D = map port_of ss @ rest2 \<Longrightarrow> \<not> stop < 10000 \<Longrightarrow>
   am2302_loop g p t0 r i s = Inr (bits_in r i (widths m p t0 ss), rest_in g rest rest2 s)"
proof (induction ss arbitrary: p t0 r i s)
  case Nil
  then show ?case by (simp add: loop_stop)
next
  case (Cons x ss)
  show ?case
  proof (cases x)
    case (Steady e w)
    note prems = Cons.prems [unfolded Steady]
    let ?xs = "concat (map cnt_of ss) @ stop # rest" and ?ys = "map port_of ss @ rest2"
    have "am2302_loop g p t0 r i s = am2302_loop g p t0 r i (rest_in g ?xs ?ys s)"
      using prems by (subst loop_sample [of s e ?xs w ?ys]) simp_all
    also have "\<dots> = Inr (bits_in r i (widths m p t0 ss), rest_in g rest rest2 (rest_in g ?xs ?ys s))"
      using prems by (intro Cons.IH) (simp_all add: rest_in_sel)
    finally show ?thesis by (simp add: Steady rest_in_twice)
  next
    case (Edge e w t)
    note prems = Cons.prems [unfolded Edge]
    let ?xs = "concat (map cnt_of ss) @ stop # rest" and ?ys = "map port_of ss @ rest2" and ?c = "w AND m"
    let ?s = "rest_in g (t # ?xs) ?ys s"
    have t: "timer_read_counter timerNumber ?s = (t, rest_in g ?xs ?ys s)"
      using read_counter_rest [OF rest_in_sel] by (simp add: rest_in_twice)
    have step: "am2302_loop g p t0 r i s =
       (if p < ?c then am2302_loop g ?c t r i (rest_in g ?xs ?ys s)
        else bnd (if \<not> t - t0 < SensorOutputZero then put_bit r i else Inr r) (\<lambda>r'.
          am2302_loop g ?c t0 r' (i - 1) (rest_in g ?xs ?ys s)))"
      using prems by (subst loop_sample [of s e "t # ?xs" w ?ys]) (auto simp: t)
    show ?thesis
    proof (cases "p < ?c")
      case True
      have "am2302_loop g ?c t r i (rest_in g ?xs ?ys s) =
          Inr (bits_in r i (widths m ?c t ss), rest_in g rest rest2 (rest_in g ?xs ?ys s))"
        using prems True by (intro Cons.IH) (simp_all add: rest_in_sel)
      then show ?thesis using True by (simp add: Edge step rest_in_twice)
    next
      case False
      define r' where "r' = (if t - t0 < 30 then r else r OR push_bit (unat i) 1)"
      have room: "bit_room i ((t - t0) # widths m ?c t0 ss)" using prems(2) False by simp
      have "am2302_loop g ?c t0 r' (i - 1) (rest_in g ?xs ?ys s) =
          Inr (bits_in r' (i - 1) (widths m ?c t0 ss), rest_in g rest rest2 (rest_in g ?xs ?ys s))"
        using prems False bit_room_Cons(2) [OF room] by (intro Cons.IH) (simp_all add: rest_in_sel)
      moreover have "(if \<not> t - t0 < SensorOutputZero then put_bit r i else Inr r) = Inr r'"
        by (simp add: r'_def bit_room_Cons(1) [OF room])
      ultimately show ?thesis using False by (simp add: Edge step rest_in_twice r'_def)
    qed
  qed
qed

lemma am2302_run_samples:
  assumes "inputs s C = a0 # pre1 @ w1 # a1 # pre2 @ w2 # a2 # concat (map cnt_of ss) @ [stop]"
    "\<forall>v\<in>set pre1. v < HostPullsLow" "\<not> w1 < HostPullsLow" "\<forall>v\<in>set pre2. v < SensorOutputZero" "\<not> w2 < SensorOutputZero"
    "inputs s D = lo @ h # hi @ l # map port_of ss"
    "\<forall>v\<in>set lo. v AND m = 0" "h AND m \<noteq> 0" "\<forall>v\<in>set hi. v AND m \<noteq> 0" "l AND m = 0"
    "legal m 0 ss" "length (widths m 0 0 ss) \<le> 40" "\<not> stop < 10000"
  shows "\<exists>s'. am2302_run g s = Inr (readings_of (bits_in 0 39 (widths m 0 0 ss)), s')"
proof -
  from am2302_start_ok [OF assms(1-5)] assms(6) obtain s1 where
    s1: "am2302_start g s = Inr s1" "inputs s1 C = concat (map cnt_of ss) @ [stop]"
      "inputs s1 D = lo @ h # hi @ l # map port_of ss" by auto
  let ?s2 = "s1\<lparr>inputs := (inputs s1)(D := hi @ l # map port_of ss)\<rparr>"
  let ?s3 = "?s2\<lparr>inputs := (inputs ?s2)(D := map port_of ss)\<rparr>"
  have p1: "poll D (\<lambda>v. v AND m \<noteq> 0) s1 = Inr ?s2"
    using s1(3) assms(7,8) by (intro poll_prefix [where xs = lo and v = h]) auto
  have p2: "poll D (\<lambda>v. v AND m = 0) ?s2 = Inr ?s3"
    using assms(9,10) by (intro poll_prefix [where xs = hi and v = l]) auto
  have "am2302_loop g 0 0 0 39 (timer_start 2 ?s3) =
      Inr (bits_in 0 39 (widths m 0 0 ss), rest_in g [] [] (timer_start 2 ?s3))"
    using assms(11-13) s1(2)
    by (intro am2302_loop_samples) (simp_all add: quiet_ops CD bit_room_def)
  then show ?thesis
    unfolding am2302_run_def s1(1) bnd_simps D m p1 p2 by simp
qed

lemma am2302_run_silent:
  assumes "\<forall>v\<in>set (inputs s D). v AND m = 0" "mmio s D AND m = 0"
  shows "am2302_run g s = Inl Spin"
proof (cases "am2302_start g s")
  case (Inl e)
  have "poll a q s' = Inl e' \<Longrightarrow> e' = Spin" for a q and s' :: "'z machine_scheme" and e'
    by (rule poll_fault)
  then have "e = Spin" using Inl by (auto simp: am2302_start_def Let_def bnd_def split: sum.splits)
  then show ?thesis by (simp add: am2302_run_def Inl)
next
  case (Inr s1)
  have "poll D (\<lambda>v. v AND m \<noteq> 0) s1 = Inl Spin"
    using am2302_start_line [OF Inr] assms by (intro poll_never) auto
  then show ?thesis unfolding am2302_run_def Inr bnd_simps D m by simp
qed

end

text \<open>The pins the programs of the repository use: 0 of port A and 13 of port C.\<close>

interpretation pin_a0: sensor_wire "\<lparr>port = 65, pin = 0, base_adress = b, gpio_regs = GpioABase\<rparr>" 1 "0x40000024" "0x40020010"
  by unfold_locales (simp_all add: shl_def)

interpretation pin_c13: sensor_wire "\<lparr>port = 67, pin = 13, base_adress = b, gpio_regs = GpioCBase\<rparr>" "0x2000" "0x40000024" "0x40020810"
  by unfold_locales (simp_all add: shl_def)

lemma sensor_wireI:
  "gpio_regs g \<in> {GpioABase, GpioBBase, GpioCBase, GpioDBase} \<Longrightarrow> sensor_wire g (shl 1 (pin g)) tim2_cnt (gpio g ''idr'')"
  by unfold_locales simp_all

section \<open>Properties\<close>

lemma bit_readings:
  assumes "length ws = 40"
  defines "x \<equiv> readings_of (bits_in 0 39 ws)"
  shows "\<forall>j<16. bit (rh x) j \<longleftrightarrow> \<not> ws ! (15 - j) < 30" "\<forall>j<16. bit (temp x) j \<longleftrightarrow> \<not> ws ! (31 - j) < 30"
    "\<forall>j<8. bit (rd_crc x) j \<longleftrightarrow> \<not> ws ! (39 - j) < 30"
proof -
  have "bit_room 39 ws" using assms(1) by (simp add: bit_room_def)
  then have b: "bit (bits_in 0 39 ws) j \<longleftrightarrow> \<not> ws ! (39 - j) < 30" if "j < 40" for j
    using bit_bits_in [of 39 ws j 0] that assms(1) by simp linarith
  have f: "(0xFFFF :: u16) = - 1" "(0xFF :: u8) = - 1" by simp_all
  show "\<forall>j<16. bit (rh x) j \<longleftrightarrow> \<not> ws ! (15 - j) < 30"
    by (simp add: x_def readings_of_def Let_def bit_simps b)
  show "\<forall>j<16. bit (temp x) j \<longleftrightarrow> \<not> ws ! (31 - j) < 30"
    by (simp add: x_def readings_of_def Let_def bit_simps b f)
  show "\<forall>j<8. bit (rd_crc x) j \<longleftrightarrow> \<not> ws ! (39 - j) < 30"
    by (simp add: x_def readings_of_def Let_def bit_simps b f)
qed

text \<open>
  C32. One measurement: the sensor is started, answers, and sends forty pulses, whatever their exact
  shape and however often the line is sampled in between, before the time-out.  Then \<open>am2302_run\<close>
  returns, and the k-th bit on the wire is 1 exactly if the k-th pulse was up for 30
  microseconds or longer: 16 bits of humidity, 16 of temperature and 8 of checksum, each with the
  highest bit first; the reading is valid exactly if the checksum is the sum of the four bytes.
\<close>
theorem am2302_decodes:
  assumes "gpio_regs g \<in> {GpioABase, GpioBBase, GpioCBase, GpioDBase}"
    and "inputs s tim2_cnt = a0 # pre1 @ w1 # a1 # pre2 @ w2 # a2 # concat (map cnt_of ss) @ [stop]"
    and "\<forall>v\<in>set pre1. v < 1000" "\<not> w1 < 1000" "\<forall>v\<in>set pre2. v < 30" "\<not> w2 < 30" "\<not> stop < 10000"
    and "inputs s (gpio g ''idr'') = lo @ h # hi @ l # map port_of ss"
    and "\<forall>v\<in>set lo. v AND shl 1 (pin g) = 0" "h AND shl 1 (pin g) \<noteq> 0"
    and "\<forall>v\<in>set hi. v AND shl 1 (pin g) \<noteq> 0" "l AND shl 1 (pin g) = 0"
    and "legal (shl 1 (pin g)) 0 ss" "widths (shl 1 (pin g)) 0 0 ss = ws" "length ws = 40"
  shows "\<exists>x s'. am2302_run g s = Inr (x, s') \<and>
     (\<forall>j<16. bit (rh x) j \<longleftrightarrow> \<not> ws ! (15 - j) < 30) \<and> (\<forall>j<16. bit (temp x) j \<longleftrightarrow> \<not> ws ! (31 - j) < 30) \<and>
     (\<forall>j<8. bit (rd_crc x) j \<longleftrightarrow> \<not> ws ! (39 - j) < 30) \<and>
     is_valid x = (if ucast (rh x AND 0xFF) + ucast (drop_bit 8 (rh x)) + ucast (temp x AND 0xFF) +
                      ucast (drop_bit 8 (temp x)) = rd_crc x then 1 else 0)"
proof -
  let ?x = "readings_of (bits_in 0 39 ws)"
  from assms(15) have "length (widths (shl 1 (pin g)) 0 0 ss) \<le> 40" unfolding assms(14) by simp
  from sensor_wire.am2302_run_samples [OF sensor_wireI [OF assms(1)] assms(2-6,8-13) this assms(7)]
  obtain s' where run: "am2302_run g s = Inr (?x, s')" unfolding assms(14) by blast
  have "is_valid ?x = (if ucast (rh ?x AND 0xFF) + ucast (drop_bit 8 (rh ?x)) + ucast (temp ?x AND 0xFF) +
      ucast (drop_bit 8 (temp ?x)) = rd_crc ?x then 1 else 0)"
    by (simp add: readings_of_def Let_def)
  with run bit_readings [OF assms(15)] show ?thesis by (intro exI conjI)
qed

text \<open>The data sheet's example: 65.2 percent, 35.1 degrees.\<close>

definition sensor_wave :: "64 word \<Rightarrow> nat list \<Rightarrow> sample list" where
  "sensor_wave v js = concat (map (\<lambda>j. [Edge 50 1 50, Steady 60 1, Edge 80 0 (if bit v j then 120 else 76)]) js)"

lemma sensor_wave_sel:
  "legal 1 0 (sensor_wave v js)" "widths 1 0 t (sensor_wave v js) = map (\<lambda>j. if bit v j then 70 else 26) js"
  by (induction js arbitrary: t) (simp_all add: sensor_wave_def)

lemma wave_bit:
  "ws = map (\<lambda>j. if bit v j then 70 else 26 :: u32) (rev [0..<40]) \<Longrightarrow> j < 40 \<Longrightarrow> \<not> ws ! (39 - j) < 30 \<longleftrightarrow> bit v j"
  for v :: "64 word"
  by (simp add: rev_nth del: upt_rec_numeral)

definition sensor_machine :: machine where
  "sensor_machine = quiet_machine\<lparr>inputs := (\<lambda>a.
     if a = 0x40000024 then 0 # [400] @ 1001 # 0 # [] @ 31 # 0 # concat (map cnt_of (sensor_wave 0x028C015FEE (rev [0..<40]))) @ [10001]
     else if a = 0x40020010 then [0] @ 1 # [1] @ 0 # map port_of (sensor_wave 0x028C015FEE (rev [0..<40])) else [])\<rparr>"

theorem am2302_decodes_witness:
  "\<exists>x s'. am2302_run \<lparr>port = 65, pin = 0, base_adress = 0, gpio_regs = 0x40020000\<rparr> sensor_machine = Inr (x, s') \<and>
     rh x = 652 \<and> temp x = 351 \<and> rd_crc x = 0xEE \<and> is_valid x = 1"
proof -
  let ?g = "\<lparr>port = 65, pin = 0, base_adress = 0, gpio_regs = 0x40020000\<rparr>"
  define v :: "64 word" where "v = 0x028C015FEE"
  define ws :: "u32 list" where "ws = map (\<lambda>j. if bit v j then 70 else 26) (rev [0..<40])"
  let ?ss = "sensor_wave v (rev [0..<40])"
  have m: "shl 1 (pin ?g) = 1" by (simp add: shl_def)
  have l: "length ws = 40" by (simp add: ws_def del: upt_rec_numeral)
  have w: "widths 1 0 0 ?ss = ws" unfolding sensor_wave_sel(2) ws_def ..
  have cnt: "inputs sensor_machine tim2_cnt = 0 # [400] @ 1001 # 0 # [] @ 31 # 0 # concat (map cnt_of ?ss) @ [10001]"
    unfolding sensor_machine_def v_def by (simp del: upt_rec_numeral)
  have idr: "inputs sensor_machine (gpio ?g ''idr'') = [0] @ 1 # [1] @ 0 # map port_of ?ss"
    unfolding sensor_machine_def v_def by (simp del: upt_rec_numeral)
  have base: "gpio_regs ?g \<in> {GpioABase, GpioBBase, GpioCBase, GpioDBase}" by simp
  obtain x s' where r: "am2302_run ?g sensor_machine = Inr (x, s')"
    and h: "\<forall>j<16. bit (rh x) j \<longleftrightarrow> \<not> ws ! (15 - j) < 30" and t: "\<forall>j<16. bit (temp x) j \<longleftrightarrow> \<not> ws ! (31 - j) < 30"
    and c: "\<forall>j<8. bit (rd_crc x) j \<longleftrightarrow> \<not> ws ! (39 - j) < 30"
    and v: "is_valid x = (if ucast (rh x AND 0xFF) + ucast (drop_bit 8 (rh x)) + ucast (temp x AND 0xFF) +
                      ucast (drop_bit 8 (temp x)) = rd_crc x then 1 else 0)"
    using am2302_decodes [OF base cnt _ _ _ _ _ idr, of ws] m sensor_wave_sel(1) [of v] w l by auto
  have b: "\<not> ws ! (15 - j) < 30 \<longleftrightarrow> bit v (24 + j)" if "j < 16" for j
    using wave_bit [OF ws_def, of "24 + j"] that by simp
  have b': "\<not> ws ! (31 - j) < 30 \<longleftrightarrow> bit v (8 + j)" if "j < 16" for j
    using wave_bit [OF ws_def, of "8 + j"] that by simp
  have b'': "\<not> ws ! (39 - j) < 30 \<longleftrightarrow> bit v j" if "j < 8" for j
    using wave_bit [OF ws_def, of j] that by simp
  have "rh x = ucast (drop_bit 24 v)" by (rule bit_word_eqI) (simp add: h b bit_simps)
  moreover have "temp x = ucast (drop_bit 8 v)" by (rule bit_word_eqI) (simp add: t b' bit_simps)
  moreover have "rd_crc x = ucast v" by (rule bit_word_eqI) (simp add: c b'' bit_simps)
  ultimately show ?thesis using r v by (simp add: v_def)
qed

text \<open>
  The two waits for the sensor's answer have no time-out: while the line stays down,
  \<open>am2302_run\<close> never returns.
\<close>
theorem am2302_silent_line:
  assumes "gpio_regs g \<in> {GpioABase, GpioBBase, GpioCBase, GpioDBase}"
    and "\<forall>v\<in>set (inputs s (gpio g ''idr'')). v AND shl 1 (pin g) = 0" "mmio s (gpio g ''idr'') AND shl 1 (pin g) = 0"
  shows "am2302_run g s = Inl Spin"
  using sensor_wire.am2302_run_silent [OF sensor_wireI [OF assms(1)] assms(2,3)] .

theorem am2302_silent_line_witness:
  "am2302_run \<lparr>port = 67, pin = 13, base_adress = 0, gpio_regs = 0x40020800\<rparr> quiet_machine = Inl Spin"
  by (rule am2302_silent_line) (simp_all add: quiet_machine_def)

end
