(* ===== verification/User_Tests.thy ===== *)
theory User_Tests
  imports Kernel_Run Programs Am2302
begin

text \<open>
  Test and benchmark programs under \<open>packages\<close> and the tasks of \<open>modules\<close>: \<open>scheduler_join_task\<close>,
  \<open>cs_validation\<close>, \<open>scheduler_tests\<close>, the benchmarks of yield and sleep, \<open>cpu_stress\<close>, the modules
  \<open>template2\<close> and \<open>wireless\<close>, \<open>benchIt\<close> and the weather nodes.  A program that gives up the core is split where it does.
\<close>

section \<open>scheduler\_join\_task\<close>

text \<open>The static variables, which the tasks set to the time at which they run.\<close>

record join_statics =
  t0 :: u32
  t1 :: u32
  t2 :: u32
  t3 :: u32
  t4 :: u32

text \<open>The addresses of the tasks' functions.\<close>

record join_code =
  task1_addr :: addr
  task2_addr :: addr
  task3_addr :: addr
  task1_nested_addr :: addr
  task2_nested_addr :: addr

type_synonym join_state = "join_statics \<times> kernel"

definition join_task1 :: "join_state \<Rightarrow> join_state" where
  "join_task1 st = (case st of (g, s) \<Rightarrow> let (v, s1) = read_global_timer s in (g\<lparr>t0 := v\<rparr>, s1))"

definition join_task2 :: "join_state \<Rightarrow> join_state" where
  "join_task2 st = (case st of (g, s) \<Rightarrow> let (v, s1) = read_global_timer s in (g\<lparr>t2 := v\<rparr>, s1))"

definition join_task3 :: "join_state \<Rightarrow> join_state" where
  "join_task3 st = (case st of (g, s) \<Rightarrow> let (v, s1) = read_global_timer s in (g\<lparr>t3 := v\<rparr>, s1))"

definition task2_nested :: "join_state \<Rightarrow> join_state" where
  "task2_nested st = (case st of (g, s) \<Rightarrow> let (v, s1) = read_global_timer s in (g\<lparr>t2 := v\<rparr>, s1))"

text \<open>\<open>loc\<close> is where the local variable of \<open>create_task\<close> lies.\<close>

definition task1_nested :: "join_code \<Rightarrow> addr \<Rightarrow> join_state \<Rightarrow> join_state res" where
  "task1_nested c loc st =
     (case st of (g, s) \<Rightarrow>
      let (v, s1) = read_global_timer s in
      bnd (create_task (task2_nested_addr c) 0 loc s1) (\<lambda>(p, s2).
      bnd (join_task p s2) (\<lambda>s3. Inr (g\<lparr>t1 := v\<rparr>, s3))))"

definition Subtest005_003_join_nested_tasks :: "join_code \<Rightarrow> addr \<Rightarrow> join_state \<Rightarrow> (u8 \<times> join_state) res" where
  "Subtest005_003_join_nested_tasks c loc st =
     (case st of (g, s) \<Rightarrow>
      bnd (create_task (task1_nested_addr c) 0 loc s) (\<lambda>(p, s1).
      let (v, s2) = read_global_timer s1; g1 = g\<lparr>t0 := v\<rparr> in
      bnd (join_task p s2) (\<lambda>s3.
      Inr (if t2 g1 > t1 g1 \<or> t1 g1 > t0 g1 \<or> t2 g1 > t0 g1 then 0 else 1, g1, s3))))"

definition Subtest005_002_no_join :: "join_code \<Rightarrow> addr \<Rightarrow> join_state \<Rightarrow> (u8 \<times> join_state) res" where
  "Subtest005_002_no_join c loc st =
     (case st of (g, s) \<Rightarrow>
      bnd (create_task (task1_addr c) 0 loc s) (\<lambda>(p1, s1).
      bnd (create_task (task2_addr c) 0 loc s1) (\<lambda>(p2, s2).
      bnd (create_task (task3_addr c) 0 loc s2) (\<lambda>(p3, s3).
      Inr (if t0 g \<noteq> 0 \<or> t1 g \<noteq> 0 \<or> t2 g \<noteq> 0 then 0 else 1, g, s3)))))"

definition Subtest005_001_join_multiple_tasks :: "join_code \<Rightarrow> addr \<Rightarrow> join_state \<Rightarrow> (u8 \<times> join_state) res" where
  "Subtest005_001_join_multiple_tasks c loc st =
     (case st of (g, s) \<Rightarrow>
      bnd (create_task (task1_addr c) 0 loc s) (\<lambda>(p1, s1).
      bnd (create_task (task2_addr c) 0 loc s1) (\<lambda>(p2, s2).
      bnd (create_task (task3_addr c) 0 loc s2) (\<lambda>(p3, s3).
      bnd (join_task p1 s3) (\<lambda>s4.
      let (join_t1, s5) = read_global_timer s4; r1 = (if join_t1 < t0 g then 0 else 1) in
      bnd (join_task p2 s5) (\<lambda>s6.
      let (join_t2, s7) = read_global_timer s6; r2 = (if join_t2 < t2 g then 0 else r1) in
      bnd (join_task p3 s7) (\<lambda>s8.
      let (join_t3, s9) = read_global_timer s8; r3 = (if join_t3 < t3 g then 0 else r2) in
      Inr (r3, g, s9))))))))"

definition Subtest005_000_join_task :: "join_code \<Rightarrow> addr \<Rightarrow> join_state \<Rightarrow> (u8 \<times> join_state) res" where
  "Subtest005_000_join_task c loc st =
     (case st of (g, s) \<Rightarrow>
      bnd (create_task (task1_addr c) 0 loc s) (\<lambda>(p, s1).
      bnd (join_task p s1) (\<lambda>s2.
      let (v, s3) = read_global_timer s2; g1 = g\<lparr>t1 := v\<rparr> in
      Inr (if t1 g1 > t0 g1 then 1 else 0, g1, s3))))"

definition flush_times :: "join_statics \<Rightarrow> join_statics" where
  "flush_times g = g\<lparr>t0 := 0, t1 := 0, t2 := 0, t3 := 0, t4 := 0\<rparr>"

record JoinResults =
  Subtest005_000 :: u8
  Subtest005_001 :: u8
  Subtest005_002 :: u8
  Subtest005_003 :: u8

text \<open>\<open>main\<close> up to its call of \<open>print\<close>; the 28 reserved bytes of the results are 0.\<close>

definition join_tests :: "join_code \<Rightarrow> addr \<Rightarrow> join_state \<Rightarrow> (JoinResults \<times> join_state) res" where
  "join_tests c loc st =
     bnd (Subtest005_000_join_task c loc st) (\<lambda>(r0, g1, s1).
     bnd (Subtest005_001_join_multiple_tasks c loc (flush_times g1, s1)) (\<lambda>(r1, g2, s2).
     bnd (Subtest005_002_no_join c loc (flush_times g2, s2)) (\<lambda>(r2, g3, s3).
     bnd (Subtest005_003_join_nested_tasks c loc (flush_times g3, s3)) (\<lambda>(r3, g4, s4).
     Inr (\<lparr>Subtest005_000 = r0, Subtest005_001 = r1, Subtest005_002 = r2, Subtest005_003 = r3\<rparr>, g4, s4)))))"

definition JoinResults_bytes :: "JoinResults \<Rightarrow> u8 list" where
  "JoinResults_bytes m =
     [Subtest005_000 m, Subtest005_001 m, Subtest005_002 m, Subtest005_003 m] @ replicate 28 0"

definition scheduler_join_task_main :: "join_code \<Rightarrow> addr \<Rightarrow> join_state \<Rightarrow> kernel res" where
  "scheduler_join_task_main c loc st =
     bnd (join_tests c loc st) (\<lambda>(m, g, s). print (JoinResults_bytes m) s)"

section \<open>The tests of join, without interruption\<close>

text \<open>A task runs in a sound kernel that has room for \<open>k\<close> chunks of \<open>b\<close> bytes in all.\<close>

definition sound_with_room :: "nat \<Rightarrow> nat \<Rightarrow> kernel \<Rightarrow> bool" where
  "sound_with_room k b s \<longleftrightarrow> (\<exists>F R W. kernel_inv ThreadMode F s R W) \<and> alloc_room s k b"

lemma sound_create:
  assumes "sound_with_room (5 + k) (1688 + b) s"
  obtains p s' where "create_task fn 0 loc s = Inr (p, s')" "sound_with_room k b s'"
proof -
  from assms obtain F R W where "kernel_inv ThreadMode F s R W" "alloc_room s (5 + k) (1688 + b)" "(0::addr) = 0 \<or> 0 \<in> F"
    by (auto simp: sound_with_room_def)
  then obtain p s' n R' W' where "create_task fn 0 loc s = Inr (p, s')" "kernel_inv ThreadMode (F - {0}) s' R' W'"
    "set R' \<union> set W' = insert n (set R \<union> set W)" "n \<notin> set R \<union> set W" "alloc_room s' k b"
    by (rule kernel_inv_create_room)
  then show ?thesis using that by (auto simp: sound_with_room_def)
qed

lemma sound_join: "sound_with_room k b s \<Longrightarrow> join_task p s = Inr s"
  using join_task_returns kernel_invD(1) unfolding sound_with_room_def by blast

lemma sound_read:
  assumes "sound_with_room k b s"
  obtains v s' where "read_global_timer s = (v, s')" "sound_with_room k b s'"
proof -
  obtain v s' where r: "read_global_timer s = (v, s')" by fastforce
  have f: "dev_frame s s'"
    using dev_frame_bus [OF READ_bus [OF r [unfolded read_global_timer_def timer_read_counter_def]]] .
  have "alloc_room s' k b = alloc_room s k b"
    by (rule alloc_room_cong; simp add: READ_alloc_sel [OF r [unfolded read_global_timer_def timer_read_counter_def]])
  moreover have "\<exists>F R W. kernel_inv ThreadMode F s' R W" if "kernel_inv ThreadMode F s R W" for F R W
    using kernel_inv_same [OF that steady_dev [OF f]] by (auto simp: same_queues_def dev_frame_kernel [OF f])
  ultimately show ?thesis using that [OF r] assms by (auto simp: sound_with_room_def)
qed

text \<open>
  Three tests in a row, each with the statics as \<open>flush_times\<close> leaves them: no task that has been created
  has run, and every comparison is with a time of 0.
\<close>

lemma Subtest_000_result:
  assumes "sound_with_room (5 + k) (1688 + b) s" "t0 g = 0"
  obtains p s1 v s' where "Subtest005_000_join_task c loc (g, s) = Inr (if v = 0 then 0 else 1, g\<lparr>t1 := v\<rparr>, s')" "sound_with_room k b s'"
    "create_task (task1_addr c) 0 loc s = Inr (p, s1)" "read_global_timer s1 = (v, s')"
proof -
  from assms(1) obtain p s1 where 1: "create_task (task1_addr c) 0 loc s = Inr (p, s1)" "sound_with_room k b s1"
    by (rule sound_create)
  from 1(2) obtain v s2 where 2: "read_global_timer s1 = (v, s2)" "sound_with_room k b s2" by (rule sound_read)
  show ?thesis
    by (rule that [OF _ 2(2) 1(1) 2(1)])
       (use assms(2) in \<open>simp add: Subtest005_000_join_task_def 1(1) sound_join [OF 1(2)] 2(1) word_neq_0_conv\<close>)
qed

lemma three_tasks:
  assumes "sound_with_room (15 + k) (5064 + b) s"
  obtains p1 s1 p2 s2 p3 s3 where "create_task f1 0 loc s = Inr (p1, s1)" "create_task f2 0 loc s1 = Inr (p2, s2)"
    "create_task f3 0 loc s2 = Inr (p3, s3)" "sound_with_room k b s3"
proof -
  have "sound_with_room (5 + (5 + (5 + k))) (1688 + (1688 + (1688 + b))) s" using assms by (simp add: ac_simps)
  then obtain p1 s1 where 1: "create_task f1 0 loc s = Inr (p1, s1)" "sound_with_room (5 + (5 + k)) (1688 + (1688 + b)) s1"
    by (rule sound_create)
  from 1(2) obtain p2 s2 where 2: "create_task f2 0 loc s1 = Inr (p2, s2)" "sound_with_room (5 + k) (1688 + b) s2"
    by (rule sound_create)
  from 2(2) obtain p3 s3 where 3: "create_task f3 0 loc s2 = Inr (p3, s3)" "sound_with_room k b s3"
    by (rule sound_create)
  from that [OF 1(1) 2(1) 3] show ?thesis .
qed

lemma Subtest_001_result:
  assumes "sound_with_room (15 + k) (5064 + b) s" "t0 g = 0" "t2 g = 0" "t3 g = 0"
  obtains s' where "Subtest005_001_join_multiple_tasks c loc (g, s) = Inr (1, g, s')" "sound_with_room k b s'"
proof -
  from assms(1) obtain p1 s1 p2 s2 p3 s3 where C: "create_task (task1_addr c) 0 loc s = Inr (p1, s1)"
    "create_task (task2_addr c) 0 loc s1 = Inr (p2, s2)" "create_task (task3_addr c) 0 loc s2 = Inr (p3, s3)"
    "sound_with_room k b s3" by (rule three_tasks)
  from C(4) obtain v4 s4 where 4: "read_global_timer s3 = (v4, s4)" "sound_with_room k b s4" by (rule sound_read)
  from 4(2) obtain v5 s5 where 5: "read_global_timer s4 = (v5, s5)" "sound_with_room k b s5" by (rule sound_read)
  from 5(2) obtain v6 s6 where 6: "read_global_timer s5 = (v6, s6)" "sound_with_room k b s6" by (rule sound_read)
  show ?thesis
    by (rule that [of s6])
       (use 6(2) assms(2-4) in \<open>simp_all add: Subtest005_001_join_multiple_tasks_def C(1-3) sound_join [OF C(4)]
          sound_join [OF 4(2)] sound_join [OF 5(2)] 4(1) 5(1) 6(1)\<close>)
qed

lemma Subtest_002_result:
  assumes "sound_with_room (15 + k) (5064 + b) s" "t0 g = 0" "t1 g = 0" "t2 g = 0"
  obtains s' where "Subtest005_002_no_join c loc (g, s) = Inr (1, g, s')" "sound_with_room k b s'"
proof -
  from assms(1) obtain p1 s1 p2 s2 p3 s3 where C: "create_task (task1_addr c) 0 loc s = Inr (p1, s1)"
    "create_task (task2_addr c) 0 loc s1 = Inr (p2, s2)" "create_task (task3_addr c) 0 loc s2 = Inr (p3, s3)"
    "sound_with_room k b s3" by (rule three_tasks)
  show ?thesis
    by (rule that [of s3]) (use C(4) assms(2-4) in \<open>simp_all add: Subtest005_002_no_join_def C(1-3)\<close>)
qed

lemma Subtest_003_result:
  assumes "sound_with_room (5 + k) (1688 + b) s" "t1 g = 0" "t2 g = 0"
  obtains v s' where "Subtest005_003_join_nested_tasks c loc (g, s) = Inr (1, g\<lparr>t0 := v\<rparr>, s')" "sound_with_room k b s'"
proof -
  from assms(1) obtain p s1 where 1: "create_task (task1_nested_addr c) 0 loc s = Inr (p, s1)" "sound_with_room k b s1"
    by (rule sound_create)
  from 1(2) obtain v s2 where 2: "read_global_timer s1 = (v, s2)" "sound_with_room k b s2" by (rule sound_read)
  show ?thesis
    by (rule that [of v s2])
       (use 2(2) assms(2,3) in \<open>simp_all add: Subtest005_003_join_nested_tasks_def 1(1) 2(1) sound_join [OF 2(2)]\<close>)
qed

text \<open>
  C35. The tests of join report success although nothing has been joined: in a sound kernel with room for the
  eight tasks, with the first static still 0 and no other task running between the calls of the program, the four tests
  return, the times the last tasks would have stored are still 0, and the results of the last three are 1; so is
  that of the first, unless the timer reads 0 right after its task has been created, and then it is 0.
\<close>

theorem join_tests_vacuous:
  assumes "kernel_inv ThreadMode F s R W" "alloc_room s 40 13504" "t0 g = 0"
  shows "\<exists>p s1 v s2 g' s'. create_task (task1_addr c) 0 loc s = Inr (p, s1) \<and> read_global_timer s1 = (v, s2) \<and>
    join_tests c loc (g, s) = Inr (\<lparr>Subtest005_000 = (if v = 0 then 0 else 1), Subtest005_001 = 1,
      Subtest005_002 = 1, Subtest005_003 = 1\<rparr>, g', s') \<and> t1 g' = 0 \<and> t2 g' = 0 \<and> t3 g' = 0"
proof -
  have "sound_with_room (5 + 35) (1688 + 11816) s" using assms by (auto simp: sound_with_room_def)
  then obtain p s0 v s1 where 0: "Subtest005_000_join_task c loc (g, s) = Inr (if v = 0 then 0 else 1, g\<lparr>t1 := v\<rparr>, s1)"
    "sound_with_room 35 11816 s1" "create_task (task1_addr c) 0 loc s = Inr (p, s0)" "read_global_timer s0 = (v, s1)"
    using assms(3) by (rule Subtest_000_result)
  have f: "t0 (flush_times g) = 0" "t1 (flush_times g) = 0" "t2 (flush_times g) = 0" "t3 (flush_times g) = 0"
    for g :: join_statics by (simp_all add: flush_times_def)
  have "sound_with_room (15 + 20) (5064 + 6752) s1" using 0(2) by simp
  then obtain s2 where 1: "Subtest005_001_join_multiple_tasks c loc (flush_times (g\<lparr>t1 := v\<rparr>), s1) = Inr (1, flush_times (g\<lparr>t1 := v\<rparr>), s2)"
    "sound_with_room 20 6752 s2" using f(1,3,4) by (rule Subtest_001_result)
  let ?g2 = "flush_times (flush_times (g\<lparr>t1 := v\<rparr>))"
  have "sound_with_room (15 + 5) (5064 + 1688) s2" using 1(2) by simp
  then obtain s3 where 2: "Subtest005_002_no_join c loc (?g2, s2) = Inr (1, ?g2, s3)" "sound_with_room 5 1688 s3"
    using f(1,2,3) by (rule Subtest_002_result)
  have "sound_with_room (5 + 0) (1688 + 0) s3" using 2(2) by simp
  then obtain w s4 where 3: "Subtest005_003_join_nested_tasks c loc (flush_times ?g2, s3) = Inr (1, (flush_times ?g2)\<lparr>t0 := w\<rparr>, s4)"
    "sound_with_room 0 0 s4" using f(2,3) by (rule Subtest_003_result)
  have "join_tests c loc (g, s) = Inr (\<lparr>Subtest005_000 = (if v = 0 then 0 else 1), Subtest005_001 = 1,
      Subtest005_002 = 1, Subtest005_003 = 1\<rparr>, (flush_times ?g2)\<lparr>t0 := w\<rparr>, s4)"
    by (simp add: join_tests_def 0(1) 1(1) 2(1) 3(1))
  moreover have "t1 ((flush_times ?g2)\<lparr>t0 := w\<rparr>) = 0" "t2 ((flush_times ?g2)\<lparr>t0 := w\<rparr>) = 0"
    "t3 ((flush_times ?g2)\<lparr>t0 := w\<rparr>) = 0" by (simp_all add: f)
  ultimately show ?thesis using 0(3,4) by blast
qed

text \<open>At the start of the system there is room for the eight tasks.\<close>

theorem join_tests_vacuous_witness:
  "\<exists>s1 s2 p s3 v s4 g' s'. bootstrap (\<lambda>a. Inr) False 0x20000800 0 0 zero_kernel = Inr s1 \<and> svcall_isr (\<lambda>a. Inr) s1 = Inr s2 \<and>
     create_task 0x08001001 0 0x20000800 s2 = Inr (p, s3) \<and> read_global_timer s3 = (v, s4) \<and>
     join_tests \<lparr>task1_addr = 0x08001001, task2_addr = 0x08001021, task3_addr = 0x08001041, task1_nested_addr = 0x08001061,
       task2_nested_addr = 0x08001081\<rparr> 0x20000800 (\<lparr>t0 = 0, t1 = 0, t2 = 0, t3 = 0, t4 = 0\<rparr>, s2) =
     Inr (\<lparr>Subtest005_000 = (if v = 0 then 0 else 1), Subtest005_001 = 1, Subtest005_002 = 1, Subtest005_003 = 1\<rparr>, g', s')"
proof -
  obtain s1 s2 where s: "bootstrap (\<lambda>a. Inr) False 0x20000800 0 0 zero_kernel = Inr s1" "svcall_isr (\<lambda>a. Inr) s1 = Inr s2"
    by (rule zero_kernel_starts)
  note st = start_ok [OF zero_kernel_boots s]
  from st(1) obtain R W where inv: "kernel_inv ThreadMode {} s2 R W" by (auto simp: config_ok_def)
  have room: "alloc_room s2 40 13504" using alloc_room_mono [OF st(2)] by simp
  have "t0 \<lparr>t0 = 0, t1 = 0, t2 = 0, t3 = 0, t4 = 0\<rparr> = 0" by simp
  from join_tests_vacuous [OF inv room this, of "\<lparr>task1_addr = 0x08001001, task2_addr = 0x08001021, task3_addr = 0x08001041,
      task1_nested_addr = 0x08001061, task2_nested_addr = 0x08001081\<rparr>" "0x20000800", unfolded join_code.simps] s
  show ?thesis by blast
qed

section \<open>The other tests\<close>

text \<open>\<open>cs_validation\<close>: the global object whose members are meant to survive ten sleeps.\<close>

record RegisterValues =
  reg_a :: u16
  reg_b :: u16
  reg_c :: u16
  reg_d :: u16
  reg_e :: u16
  reg_f :: u16
  reg_g :: u32
  reg_h :: u32
  reg_i :: u32

definition cs_values :: RegisterValues where
  "cs_values = \<lparr>reg_a = 0xAAAA, reg_b = 0xBBBB, reg_c = 0xCCCC, reg_d = 0xDDDD, reg_e = 0xEEEE, reg_f = 0xFFFF,
     reg_g = 0x11111111, reg_h = 0x33333333, reg_i = 0x22222222\<rparr>"

definition cs_intact :: "RegisterValues \<Rightarrow> bool" where
  "cs_intact r \<longleftrightarrow>
     reg_a r = 0xAAAA \<or> reg_b r = 0xBBBB \<or> reg_c r = 0xCCCC \<or> reg_d r = 0xDDDD \<or> reg_e r = 0xEEEE \<or> reg_f r = 0xFFFF \<or>
     reg_g r = 0x11111111 \<or> reg_h r = 0x33333333 \<or> reg_i r = 0x22222222"

text \<open>The loop, given the object after each sleep; the result is \<open>results[0]\<close>.\<close>

fun cs_rounds :: "RegisterValues list \<Rightarrow> u32 \<Rightarrow> u32" where
  "cs_rounds [] result = result"
| "cs_rounds (r # rs) result = (if \<not> cs_intact r then 0 else cs_rounds rs result)"

definition cs_validation_main :: "RegisterValues list \<Rightarrow> u32" where
  "cs_validation_main rs = cs_rounds (take 10 rs) 1"

text \<open>\<open>scheduler_tests\<close>: \<open>append_loop\<close> gives up the core, and the loop has set the flag when it gets it back or not.\<close>

definition append_loop_1 :: "addr \<Rightarrow> addr \<Rightarrow> kernel \<Rightarrow> kernel res" where
  "append_loop_1 loop_addr loc s = bnd (create_task loop_addr 0 loc s) (\<lambda>(p, s1). Inr (svcall 2 s1))"

definition append_loop_2 :: "u8 \<Rightarrow> kernel \<Rightarrow> kernel res" where
  "append_loop_2 loop_was_triggered s = print ((1 AND loop_was_triggered) # replicate 31 0) s"

text \<open>
  The benchmarks: the code before a round's call and behind it.  \<open>call\<close> is \<open>svcall 2\<close> or \<open>task_sleep\<close>; between
  the two parts other tasks run.
\<close>

definition benchmark_round_1 :: "(kernel \<Rightarrow> kernel res) \<Rightarrow> kernel \<Rightarrow> (u32 \<times> kernel) res" where
  "benchmark_round_1 call s = (let (t_start, s1) = read_global_timer s in bnd (call s1) (\<lambda>s2. Inr (t_start, s2)))"

definition benchmark_round_2 :: "u32 \<Rightarrow> u32 \<Rightarrow> u32 list \<Rightarrow> kernel \<Rightarrow> (u32 list \<times> kernel) res" where
  "benchmark_round_2 t_start j results s =
     (let (t_end, s1) = read_global_timer s in
      bnd (wr results (uint j) (t_end - t_start)) (\<lambda>r. Inr (r, s1)))"

definition scheduler_benchmark_round :: "kernel \<Rightarrow> (u32 \<times> kernel) res" where
  "scheduler_benchmark_round s = benchmark_round_1 (\<lambda>t. Inr (svcall 2 t)) s"

definition scheduler_benchmark_end :: "u32 list \<Rightarrow> kernel \<Rightarrow> kernel res" where
  "scheduler_benchmark_end results s = print (concat (map le32 (take 32 results))) s"

text \<open>\<open>sleep_times\<close> comes from a header that a script generates.\<close>

definition sleep_benchmark_round :: "u32 list \<Rightarrow> u32 \<Rightarrow> kernel \<Rightarrow> (u32 \<times> kernel) res" where
  "sleep_benchmark_round sleep_times j s =
     benchmark_round_1 (\<lambda>t. bnd (rd sleep_times (uint j)) (\<lambda>d. task_sleep d t)) s"

definition sleep_benchmark_end :: "u32 list \<Rightarrow> kernel \<Rightarrow> kernel res" where
  "sleep_benchmark_end results s = print (concat (map le32 (take 4 results))) s"

text \<open>
  \<open>benchIt\<close> of \<open>nrf2401_transmit\<close>, up to its early \<open>return\<close>: \<open>reserved\<close> are the uninitialised bytes of the
  structure, \<open>b0\<close> is the local object of \<open>transmit_with_autoack\<close>.
\<close>

definition benchIt ::
  "nat \<Rightarrow> radio_call \<Rightarrow> GpioObject \<Rightarrow> u8 list \<Rightarrow> u8 list \<Rightarrow> tx_globals \<Rightarrow> radio \<Rightarrow> (u8 list \<times> tx_globals \<times> radio) res" where
  "benchIt n call b0 reserved outBuffer r st =
     bnd (transmit_with_autoack n call b0 (tx_config r) (RxConfig_bytes 0x12345678 0 reserved 0 0 @ drop 16 outBuffer) st) (\<lambda>(succeeded, out2, g1, s1).
     Inr (out2, r\<lparr>observe := get_current_tx_state g1\<rparr>, g1, s1))"

section \<open>Weather nodes\<close>

text \<open>
  The package and the module \<open>weathernode\<close>, which differ in an address and the id.  They send with
  \<open>nrf_transmit\<close>, which is defined nowhere in the repository and is the argument \<open>transmit\<close>.  The padding byte behind
  the id is 0, as \<open>memset_byte\<close> has left it.
\<close>

record NodeFrame =
  frame_id :: u8
  frame_readings :: Am2302Readings

definition NodeFrame_bytes :: "NodeFrame \<Rightarrow> u8 list" where
  "NodeFrame_bytes f =
     [frame_id f, 0] @ le16 (rh (frame_readings f)) @ le16 (temp (frame_readings f)) @
     [rd_crc (frame_readings f), is_valid (frame_readings f)]"

definition apply_nrf_config_node :: "Nrf24l01Registers \<Rightarrow> Nrf24l01Registers" where
  "apply_nrf_config_node r =
     r\<lparr>en_aa := 0, rf_setup := 6, setup_aw := 3, rf_ch := 2,
       tx_addr := [0x9A, 0x78, 0x56, 0x34, 0x12] @ drop 5 (tx_addr r),
       rx_addr_p0 := replicate 5 0xE7 @ drop 5 (rx_addr_p0 r)\<rparr>"

definition apply_nrf_config_node_module :: "Nrf24l01Registers \<Rightarrow> Nrf24l01Registers" where
  "apply_nrf_config_node_module r =
     r\<lparr>en_aa := 0, rf_setup := 6, setup_aw := 3, rf_ch := 2,
       tx_addr := [0x9B, 0x78, 0x56, 0x34, 0x13] @ drop 5 (tx_addr r),
       rx_addr_p0 := replicate 5 0xE7 @ drop 5 (rx_addr_p0 r)\<rparr>"

text \<open>One turn of the loop; \<open>nid\<close> is the id (0xA0 for the package, 0xA1 for the module), \<open>g\<close> the sensor's pin.\<close>

definition node_turn ::
  "(u8 list \<Rightarrow> kernel \<Rightarrow> kernel res) \<Rightarrow> u8 \<Rightarrow> GpioObject \<Rightarrow> kernel \<Rightarrow> kernel res" where
  "node_turn transmit nid g s =
     bnd (am2302_do_measurement g s) (\<lambda>(readings, s1).
     bnd (if is_valid readings \<noteq> 0 then transmit (NodeFrame_bytes \<lparr>frame_id = nid, frame_readings = readings\<rparr>) s1 else Inr s1)
       (task_sleep 5000))"

definition weathernode_turn :: "(u8 list \<Rightarrow> kernel \<Rightarrow> kernel res) \<Rightarrow> GpioObject \<Rightarrow> kernel \<Rightarrow> kernel res" where
  "weathernode_turn transmit g s = node_turn transmit 0xA0 g s"

definition weathernode_module_turn :: "(u8 list \<Rightarrow> kernel \<Rightarrow> kernel res) \<Rightarrow> GpioObject \<Rightarrow> kernel \<Rightarrow> kernel res" where
  "weathernode_module_turn transmit g s = node_turn transmit 0xA1 g s"

section \<open>Tasks that compute\<close>

text \<open>
  The recursion of \<open>fibbonacci\<close>, which \<open>cpu_stress\<close>, \<open>template2\<close> and \<open>wireless\<close> share: None when it does not
  end (a negative argument), \<open>Undefined\<close> when a sum does not fit an \<open>int\<close>.
\<close>

partial_function (option) fibbonacci :: "int \<Rightarrow> int res option" where
  "fibbonacci n =
     (if n = 0 then Some (Inr 0)
      else if n = 1 then Some (Inr 1)
      else Option.bind (fibbonacci (n - 1)) (\<lambda>a. Option.bind (fibbonacci (n - 2)) (\<lambda>b.
        Some (bnd a (\<lambda>x. bnd b (\<lambda>y. if x + y < 2 ^ 31 then Inr (x + y) else Inl Undefined))))))"

definition cpu_stress_turn :: "kernel \<Rightarrow> kernel res" where
  "cpu_stress_turn s = (case fibbonacci 10 of Some (Inr r) \<Rightarrow> Inr (svcall 2 s) | Some (Inl e) \<Rightarrow> Inl e | None \<Rightarrow> Inl Spin)"

definition template2_turn :: "kernel \<Rightarrow> kernel" where
  "template2_turn s = svcall 2 s"

text \<open>\<open>wireless\<close> sleeps and yields; the first part ends where the sleep gives up the core.\<close>

definition wireless_turn_1 :: "kernel \<Rightarrow> kernel res" where
  "wireless_turn_1 s = (case fibbonacci 10 of Some (Inr r) \<Rightarrow> task_sleep 1000 s | Some (Inl e) \<Rightarrow> Inl e | None \<Rightarrow> Inl Spin)"

definition wireless_turn_2 :: "kernel \<Rightarrow> kernel" where
  "wireless_turn_2 s = svcall 2 s"

fun fib :: "nat \<Rightarrow> int" where
  "fib 0 = 0" | "fib (Suc 0) = 1" | "fib (Suc (Suc n)) = fib (Suc n) + fib n"

lemma fib_mono: "m \<le> n \<Longrightarrow> fib m \<le> fib n"
proof (erule lift_Suc_mono_le [rotated])
  have "0 \<le> fib n" for n by (induction n rule: fib.induct) simp_all
  then show "fib n \<le> fib (Suc n)" for n by (cases n) simp_all
qed

fun fib_pair :: "nat \<Rightarrow> int \<times> int" where
  "fib_pair 0 = (0, 1)"
| "fib_pair (Suc n) = (case fib_pair n of (a, b) \<Rightarrow> (b, a + b))"

lemma fib_pair: "fib_pair n = (fib n, fib (Suc n))"
  by (induction n) simp_all

lemma fib_46: "fib 46 = 1836311903"
proof -
  have "fib_pair 46 = (1836311903, 2971215073)" by (simp add: numeral_eq_Suc)
  then show ?thesis by (simp add: fib_pair)
qed

text \<open>
  The recursion returns the Fibonacci number for every argument up to 46, the last one whose value fits
  an \<open>int\<close>; \<open>cpu_stress\<close> therefore always comes to its yield.
\<close>

theorem fibbonacci_correct: "n \<le> 46 \<Longrightarrow> fibbonacci (int n) = Some (Inr (fib n))"
proof (induction n rule: fib.induct)
  case (3 n)
  have "fib (Suc (Suc n)) \<le> fib 46" by (rule fib_mono) (use 3(3) in simp_all)
  moreover have "fib 46 < 2 ^ 31" by (simp add: fib_46)
  ultimately have "fib (Suc n) + fib n < 2 ^ 31" by simp
  then show ?case using 3 by (subst fibbonacci.simps) (simp add: algebra_simps)
qed (subst fibbonacci.simps, simp)+

theorem cpu_stress_yields: "cpu_stress_turn s = Inr (svcall 2 s)"
  using fibbonacci_correct [of 10] by (simp add: cpu_stress_turn_def)

text \<open>
  The check of \<open>cs_validation\<close> joins its nine comparisons by \<open>or\<close>: it reports a corruption only when, after some
  sleep, all nine members have changed; any corruption that leaves one of them passes.
\<close>

theorem cs_validation_misses:
  "cs_validation_main rs = 1 \<longleftrightarrow> (\<forall>r \<in> set (take 10 rs). cs_intact r)"
proof -
  have "cs_rounds xs v = (if \<forall>r \<in> set xs. cs_intact r then v else 0)" for xs v
    by (induction xs) auto
  then show ?thesis by (simp add: cs_validation_main_def)
qed

end
