(* ===== verification/Adxl345.thy ===== *)
theory Adxl345
  imports Exceptions
begin

text \<open>
  The accelerometer program \<open>packages/i2c\<close>: its own I2C driver (registers of another STM32 family),
  the ADXL345 behind it and the conversion of the readings.  The register pointer \<open>i2c_regs\<close>, which
  \<open>main\<close> sets once, is the constant \<open>i2c_base\<close>; the readings \<open>*position_readings\<close> and the array
  \<open>samples\<close> are state.  Waits end in \<open>Spin\<close> when the inputs are used up.
\<close>

section \<open>Registers and data\<close>

definition I2C_Regs :: "string list" where
  "I2C_Regs = [''CR1'', ''CR2'', ''OAR1'', ''OAR2'', ''TIMINGR'', ''TIMEOUTR'', ''ISR'', ''ICR'', ''PECR'', ''RXDR'', ''TXDR'']"

abbreviation (input) i2c_base :: addr where "i2c_base \<equiv> 0x40005400"
abbreviation ir :: "string \<Rightarrow> addr" where "ir f \<equiv> reg I2C_Regs i2c_base f"

lemma ir_addrs [simp]:
  "ir ''CR1'' = 0x40005400" "ir ''CR2'' = 0x40005404" "ir ''ISR'' = 0x40005418" "ir ''RXDR'' = 0x40005424"
  "ir ''TXDR'' = 0x40005428"
  by (simp_all add: reg_def I2C_Regs_def)

abbreviation (input) TXE :: nat where "TXE \<equiv> 0"
abbreviation (input) RXNE :: nat where "RXNE \<equiv> 2"
abbreviation (input) TC :: nat where "TC \<equiv> 6"
abbreviation (input) SADD_7_1 :: nat where "SADD_7_1 \<equiv> 1"
abbreviation (input) RD_WRN :: nat where "RD_WRN \<equiv> 10"
abbreviation (input) START :: nat where "START \<equiv> 13"
abbreviation (input) STOP :: nat where "STOP \<equiv> 14"
abbreviation (input) NBYTES :: nat where "NBYTES \<equiv> 16"
abbreviation (input) ADXL345 :: u32 where "ADXL345 \<equiv> 0x53"

record readings =
  x_axis :: u16
  y_axis :: u16
  z_axis :: u16

datatype fifo_mode = BYPASS | FIFO | STREAM | TRIGGER

fun fifo_mode_value :: "fifo_mode \<Rightarrow> u8" where
  "fifo_mode_value BYPASS = 0" | "fifo_mode_value FIFO = 1" | "fifo_mode_value STREAM = 2" | "fifo_mode_value TRIGGER = 3"

text \<open>\<open>raw\<close> of the union \<open>fifoCtl_t\<close>, whose first bit-field is the lowest.\<close>

definition fifoCtl_raw :: "u8 \<Rightarrow> u8 \<Rightarrow> fifo_mode \<Rightarrow> u8" where
  "fifoCtl_raw samples trigger mode =
     (samples AND 0x1F) OR push_bit 5 (trigger AND 1) OR push_bit 6 (fifo_mode_value mode)"

section \<open>Conversions\<close>

function num_to_char_loop :: "u32 \<Rightarrow> int \<Rightarrow> u8 list \<Rightarrow> u8 list res" where
  "num_to_char_loop number cnt converted =
     (if 0 < number
      then bnd (wr converted cnt (ucast (number mod 10) + 0x30)) (\<lambda>c. num_to_char_loop (number div 10) (cnt - 1) c)
      else Inr converted)"
  by pat_completeness auto
termination
  by (relation "measure (\<lambda>(n, c, xs). unat n)") (auto simp: unat_div word_less_nat_alt)

declare num_to_char_loop.simps [simp del]

text \<open>\<open>BUFFERLENGTH - 1 - 2\<close> is the index of the last digit.\<close>

definition num_to_char :: "u32 \<Rightarrow> u8 list \<Rightarrow> u8 list res" where
  "num_to_char number converted = num_to_char_loop number 4 converted"

text \<open>The argument \<open>axis\<close> is not used.  The quotients are those of \<open>int\<close>, rounded towards zero.\<close>

definition complement :: "u32 \<Rightarrow> u32 \<Rightarrow> int res" where
  "complement payload pos =
     (if 32 \<le> unat (pos - 1) then Inl Undefined
      else
        let sign = drop_bit (unat (pos - 1)) payload AND 1; val = uint (payload AND 0x1FF)
        in Inr (if sign \<noteq> 0 then - ((512 - val + 1) div 256) else (val + 1) div 256))"

section \<open>The bus\<close>

definition get_rxdr :: "'z machine_scheme \<Rightarrow> u32 \<times> 'z machine_scheme" where
  "get_rxdr s = READ_REGISTER (ir ''RXDR'') s"

definition i2c_stop :: "'z machine_scheme \<Rightarrow> 'z machine_scheme" where
  "i2c_stop s = MODIFY_REGISTER (ir ''CR2'') (\<lambda>v. v OR push_bit STOP 1) s"

definition set_write_direction :: "'z machine_scheme \<Rightarrow> 'z machine_scheme" where
  "set_write_direction s = MODIFY_REGISTER (ir ''CR2'') (\<lambda>v. v AND NOT (push_bit RD_WRN 1)) s"

definition set_read_direction :: "'z machine_scheme \<Rightarrow> 'z machine_scheme" where
  "set_read_direction s = MODIFY_REGISTER (ir ''CR2'') (\<lambda>v. v OR push_bit RD_WRN 1) s"

definition i2c_start :: "'z machine_scheme \<Rightarrow> 'z machine_scheme" where
  "i2c_start s = MODIFY_REGISTER (ir ''CR2'') (\<lambda>v. v OR push_bit START 1) s"

text \<open>
  The loop of \<open>write\<close> (\<open>do ... while\<close>).  A round that has sent nothing and seen no new input repeats
  for ever.
\<close>

function write_loop :: "u8 list \<Rightarrow> nat \<Rightarrow> 'z machine_scheme \<Rightarrow> 'z machine_scheme res" where
  "write_loop payload k s =
     (let (v, s1) = READ_REGISTER (ir ''ISR'') s in
      bnd (if bit v TXE then bnd (rd payload (int k)) (\<lambda>b. Inr (k + 1, WRITE_REGISTER (ir ''TXDR'') (ucast b) s1))
           else Inr (k, s1)) (\<lambda>(k2, s2).
      let (w, s3) = READ_REGISTER (ir ''ISR'') s2 in
      if bit w TC then Inr s3
      else if inputs s (ir ''ISR'') = [] \<and> k2 = k then Inl Spin
      else write_loop payload k2 s3))"
  by pat_completeness auto
termination
proof (relation "measure (\<lambda>(p, k, s). length (inputs s (ir ''ISR'')) + (length p - k))", goal_cases)
  case 1 show ?case by simp
next
  case (2 payload k s x v s1 y k2 s2 z w s3)
  have r: "length (inputs s' a) \<le> length (inputs t a)" "inputs t a \<noteq> [] \<Longrightarrow> length (inputs s' a) < length (inputs t a)"
    if "(u, s') = READ_REGISTER a t" for a u and s' t :: "'z machine_scheme"
    using that by (auto simp: READ_REGISTER_def split: list.splits)
  have "inputs s2 (ir ''ISR'') = inputs s1 (ir ''ISR'')" "k2 = k \<or> k2 = k + 1 \<and> k < length payload"
    using 2(3,4) by (auto simp: bnd_eq_Inr rd_eq_Inr split: if_splits)
  then show ?case using r [OF 2(2) [unfolded 2(1)]] r [OF 2(6) [unfolded 2(5)]] 2(8) by (auto simp del: ir_addrs)
qed

declare write_loop.simps [simp del]

text \<open>The slave's address and the number of bytes go into \<open>CR2\<close>.\<close>

definition address_slave :: "u32 \<Rightarrow> u32 \<Rightarrow> 'z machine_scheme \<Rightarrow> 'z machine_scheme" where
  "address_slave slave_addr len s =
     MODIFY_REGISTER (ir ''CR2'') (\<lambda>v. v OR push_bit SADD_7_1 slave_addr OR push_bit NBYTES len) s"

definition clear_slave :: "'z machine_scheme \<Rightarrow> 'z machine_scheme" where
  "clear_slave s =
     MODIFY_REGISTER (ir ''CR2'') (\<lambda>v. v AND NOT (push_bit NBYTES 0xFF))
       (MODIFY_REGISTER (ir ''CR2'') (\<lambda>v. v AND NOT (push_bit SADD_7_1 0x3FF)) s)"

definition i2c_bus_write :: "u32 \<Rightarrow> u8 list \<Rightarrow> u32 \<Rightarrow> 'z machine_scheme \<Rightarrow> 'z machine_scheme res" where
  "i2c_bus_write slave_addr payload len s =
     (let s1 = MODIFY_REGISTER (ir ''CR1'') (\<lambda>v. v OR 1) (MODIFY_REGISTER (ir ''CR1'') (\<lambda>v. v AND NOT 1) s);
          s2 = address_slave slave_addr len (set_write_direction (clear_slave s1));
          s3 = MODIFY_REGISTER (ir ''ISR'') (\<lambda>v. v AND NOT (push_bit TXE 1)) s2
      in bnd (write_loop payload 0 (i2c_start s3)) (\<lambda>s4. Inr (i2c_stop s4)))"

text \<open>Both reads name the register by a write of one byte and turn the direction.\<close>

definition request :: "u32 \<Rightarrow> u32 \<Rightarrow> u32 \<Rightarrow> 'z machine_scheme \<Rightarrow> 'z machine_scheme res" where
  "request target_register slave_addr len s =
     bnd (i2c_bus_write slave_addr [ucast target_register] 1 (set_write_direction (address_slave slave_addr len (clear_slave s)))) (\<lambda>s1.
     Inr (i2c_start (set_read_direction s1)))"

definition receive_byte :: "'z machine_scheme \<Rightarrow> (u8 \<times> 'z machine_scheme) res" where
  "receive_byte s =
     bnd (poll (ir ''ISR'') (\<lambda>v. bit v RXNE) s) (\<lambda>s1.
     let (v, s2) = READ_REGISTER (ir ''RXDR'') s1 in Inr (ucast v, s2))"

text \<open>
  The receiving loop compares a \<open>char\<close> with the length: a length above 255 is never reached.  After
  as many rounds as the length the loop has ended or never ends.
\<close>

fun receive_bytes_loop :: "nat \<Rightarrow> u8 \<Rightarrow> u32 \<Rightarrow> u8 list \<Rightarrow> 'z machine_scheme \<Rightarrow> (u8 list \<times> 'z machine_scheme) res" where
  "receive_bytes_loop 0 pos len inbuffer s = Inl Spin"
| "receive_bytes_loop (Suc n) pos len inbuffer s =
     bnd (receive_byte s) (\<lambda>(b, s1).
     bnd (wr inbuffer (uint pos) b) (\<lambda>buf.
     if ucast (pos + 1) \<noteq> len then receive_bytes_loop n (pos + 1) len buf s1 else Inr (buf, s1)))"

text \<open>The result is the content of the local array whose address the function returns.\<close>

definition read_multiple :: "u32 \<Rightarrow> u32 \<Rightarrow> u32 \<Rightarrow> 'z machine_scheme \<Rightarrow> (u8 list \<times> 'z machine_scheme) res" where
  "read_multiple target_register slave_addr len s =
     bnd (request target_register slave_addr len s) (\<lambda>s1.
     bnd (receive_bytes_loop (max 1 (unat len)) 0 len (replicate (unat len) 0) s1) (\<lambda>(buf, s2).
     Inr (buf, i2c_stop s2)))"

definition read :: "u32 \<Rightarrow> u32 \<Rightarrow> u32 \<Rightarrow> 'z machine_scheme \<Rightarrow> (u8 \<times> 'z machine_scheme) res" where
  "read target_register slave_addr len s =
     bnd (request target_register slave_addr len s) (\<lambda>s1.
     bnd (receive_byte s1) (\<lambda>(b, s2). Inr (b, i2c_stop s2)))"

section \<open>The sensor\<close>

definition enable_interrupts :: "u32 \<Rightarrow> 'z machine_scheme \<Rightarrow> 'z machine_scheme res" where
  "enable_interrupts irq_mask s = i2c_bus_write ADXL345 [0x2E, ucast irq_mask] 2 s"

definition remap_interrupts :: "u32 \<Rightarrow> 'z machine_scheme \<Rightarrow> 'z machine_scheme res" where
  "remap_interrupts irq_mask s = i2c_bus_write ADXL345 [0x2F, ucast irq_mask] 2 s"

definition read_interrupt_src :: "'z machine_scheme \<Rightarrow> 'z machine_scheme res" where
  "read_interrupt_src s = bnd (read 0x30 ADXL345 1 s) (\<lambda>(b, s1). Inr s1)"

definition power_on :: "'z machine_scheme \<Rightarrow> 'z machine_scheme res" where
  "power_on s = i2c_bus_write ADXL345 [0x2D, push_bit 3 1] 2 s"

definition write_fifo_ctl :: "u8 \<Rightarrow> 'z machine_scheme \<Rightarrow> 'z machine_scheme res" where
  "write_fifo_ctl irq_mask s = i2c_bus_write ADXL345 [0x38, irq_mask] 2 s"

definition set_range :: "u8 \<Rightarrow> 'z machine_scheme \<Rightarrow> 'z machine_scheme res" where
  "set_range irq_mask s = i2c_bus_write ADXL345 [0x31, irq_mask] 2 s"

definition init_adxl345 :: "'z machine_scheme \<Rightarrow> 'z machine_scheme res" where
  "init_adxl345 s =
     bnd (power_on s) (\<lambda>s1.
     bnd (remap_interrupts (push_bit 7 1 OR 1) s1) (\<lambda>s2.
     bnd (enable_interrupts (push_bit 1 1) s2) (\<lambda>s3.
     write_fifo_ctl (fifoCtl_raw 31 1 BYPASS) s3)))"

text \<open>The loop of \<open>read_samples\<close>, with \<open>k\<close> registers left; \<open>samples\<close> has six elements.\<close>

fun read_samples_loop :: "nat \<Rightarrow> u32 \<Rightarrow> nat \<Rightarrow> i32 list \<Rightarrow> 'z machine_scheme \<Rightarrow> (i32 list \<times> 'z machine_scheme) res" where
  "read_samples_loop 0 reg_addr pos samples s = Inr (samples, s)"
| "read_samples_loop (Suc k) reg_addr pos samples s =
     bnd (read reg_addr ADXL345 1 s) (\<lambda>(b, s1).
     bnd (wr samples (int pos) (ucast b)) (\<lambda>samples'.
     read_samples_loop k (reg_addr + 1) (pos + 1) samples' s1))"

definition read_samples :: "i32 list \<Rightarrow> 'z machine_scheme \<Rightarrow> (i32 list \<times> 'z machine_scheme) res" where
  "read_samples samples s = read_samples_loop 6 0x32 0 samples s"

definition collect_samples :: "i32 list \<Rightarrow> readings \<Rightarrow> readings" where
  "collect_samples sa p =
     \<lparr>x_axis = x_axis p OR ucast (sa ! 0) OR ucast (push_bit 8 (sa ! 1)),
      y_axis = y_axis p OR ucast (sa ! 2) OR ucast (push_bit 8 (sa ! 3)),
      z_axis = z_axis p OR ucast (sa ! 4) OR ucast (push_bit 8 (sa ! 5))\<rparr>"

text \<open>The old readings are cleared first.\<close>

definition read_xyz :: "'z machine_scheme \<Rightarrow> (readings \<times> 'z machine_scheme) res" where
  "read_xyz s =
     bnd (read 0x32 ADXL345 1 s) (\<lambda>(x0, s1). bnd (read 0x33 ADXL345 1 s1) (\<lambda>(x1, s2).
     bnd (read 0x34 ADXL345 1 s2) (\<lambda>(y0, s3). bnd (read 0x35 ADXL345 1 s3) (\<lambda>(y1, s4).
     bnd (read 0x36 ADXL345 1 s4) (\<lambda>(z0, s5). bnd (read 0x37 ADXL345 1 s5) (\<lambda>(z1, s6).
     Inr (\<lparr>x_axis = ucast x0 OR push_bit 8 (ucast x1), y_axis = ucast y0 OR push_bit 8 (ucast y1),
           z_axis = ucast z0 OR push_bit 8 (ucast z1)\<rparr>, s6)))))))"

text \<open>\<open>main\<close>: the initialisation and one turn of its endless loop.\<close>

definition adxl345_main_init :: "kernel \<Rightarrow> kernel res" where
  "adxl345_main_init s = init_adxl345 s"

definition adxl345_main_turn :: "kernel \<Rightarrow> (readings \<times> kernel) res" where
  "adxl345_main_turn s = bnd (read_xyz s) (\<lambda>(p, s1). Inr (p, svcall 2 s1))"

section \<open>What the bus carries\<close>

text \<open>The bytes given to the transmit register.\<close>

definition i2c_sent :: "'z machine_scheme \<Rightarrow> u32 list" where
  "i2c_sent s = map snd (filter (\<lambda>(a, v). a = ir ''TXDR'') (writes s))"

lemma i2c_sent_MODIFY: "a \<noteq> ir ''TXDR'' \<Longrightarrow> i2c_sent (MODIFY_REGISTER a f s) = i2c_sent s"
  by (cases "inputs s a") (auto simp: i2c_sent_def MODIFY_REGISTER_def READ_REGISTER_def WRITE_REGISTER_def)

lemma i2c_sent_inputs [simp]: "i2c_sent (s\<lparr>inputs := i\<rparr>) = i2c_sent s"
  by (simp add: i2c_sent_def)

lemmas bus_setup_defs = i2c_stop_def set_write_direction_def set_read_direction_def i2c_start_def address_slave_def clear_slave_def

lemma bus_setup [simp]:
  "i2c_sent (i2c_stop s) = i2c_sent s" "i2c_sent (set_write_direction s) = i2c_sent s"
  "i2c_sent (set_read_direction s) = i2c_sent s" "i2c_sent (i2c_start s) = i2c_sent s"
  "i2c_sent (address_slave a n s) = i2c_sent s" "i2c_sent (clear_slave s) = i2c_sent s"
  "a \<noteq> ir ''CR2'' \<Longrightarrow> inputs (i2c_stop s) a = inputs s a" "a \<noteq> ir ''CR2'' \<Longrightarrow> inputs (set_write_direction s) a = inputs s a"
  "a \<noteq> ir ''CR2'' \<Longrightarrow> inputs (set_read_direction s) a = inputs s a" "a \<noteq> ir ''CR2'' \<Longrightarrow> inputs (i2c_start s) a = inputs s a"
  "a \<noteq> ir ''CR2'' \<Longrightarrow> inputs (address_slave n k s) a = inputs s a" "a \<noteq> ir ''CR2'' \<Longrightarrow> inputs (clear_slave s) a = inputs s a"
  unfolding bus_setup_defs by (simp_all add: inputs_MODIFY i2c_sent_MODIFY)

lemma write_loop_one:
  assumes "inputs s (ir ''ISR'') = t # c # rest" "bit t TXE" "bit c TC"
  shows "\<exists>s'. write_loop (b # bs) 0 s = Inr s' \<and> inputs s' = (inputs s)(ir ''ISR'' := rest) \<and> i2c_sent s' = i2c_sent s @ [ucast b]"
proof -
  let ?s = "WRITE_REGISTER (ir ''TXDR'') (ucast b) (s\<lparr>inputs := (inputs s)(ir ''ISR'' := c # rest)\<rparr>)"
  have "write_loop (b # bs) 0 s = Inr (snd (READ_REGISTER (ir ''ISR'') ?s))"
    using assms by (subst write_loop.simps) (simp add: READ_REGISTER_def)
  moreover have "inputs (snd (READ_REGISTER (ir ''ISR'') ?s)) = (inputs s)(ir ''ISR'' := rest)"
    "i2c_sent (snd (READ_REGISTER (ir ''ISR'') ?s)) = i2c_sent s @ [ucast b]"
    by (simp_all add: READ_REGISTER_def i2c_sent_def)
  ultimately show ?thesis by blast
qed

lemma i2c_bus_write_one:
  assumes "inputs s (ir ''ISR'') = f # t # c # rest" "bit t TXE" "bit c TC"
  shows "\<exists>s'. i2c_bus_write addr (b # bs) len s = Inr s' \<and> inputs s' (ir ''ISR'') = rest \<and>
    inputs s' (ir ''RXDR'') = inputs s (ir ''RXDR'') \<and> i2c_sent s' = i2c_sent s @ [ucast b]"
proof -
  define s1 where "s1 = MODIFY_REGISTER (ir ''CR1'') (\<lambda>v. v OR 1) (MODIFY_REGISTER (ir ''CR1'') (\<lambda>v. v AND NOT 1) s)"
  define s3 where "s3 = i2c_start (MODIFY_REGISTER (ir ''ISR'') (\<lambda>v. v AND NOT (push_bit TXE 1))
    (address_slave addr len (set_write_direction (clear_slave s1))))"
  have s3: "inputs s3 (ir ''ISR'') = t # c # rest" "inputs s3 (ir ''RXDR'') = inputs s (ir ''RXDR'')" "i2c_sent s3 = i2c_sent s"
    using assms(1) by (simp_all add: s3_def s1_def inputs_MODIFY i2c_sent_MODIFY)
  from write_loop_one [OF s3(1) assms(2,3)] obtain s4 where
    s4: "write_loop (b # bs) 0 s3 = Inr s4" "inputs s4 = (inputs s3)(ir ''ISR'' := rest)" "i2c_sent s4 = i2c_sent s @ [ucast b]"
    unfolding s3(3) by blast
  have "i2c_bus_write addr (b # bs) len s = Inr (i2c_stop s4)"
    unfolding i2c_bus_write_def Let_def s1_def [symmetric] s3_def [symmetric] s4(1) bnd_simps ..
  then show ?thesis using s3 s4 by simp
qed

text \<open>
  The status register as one read sees it: a flush, ready to send, sent, any number of times not yet
  received, received.
\<close>

definition serves_read :: "u32 list \<Rightarrow> bool" where
  "serves_read xs \<longleftrightarrow>
     (\<exists>f t c busy r. xs = f # t # c # busy @ [r] \<and> bit t TXE \<and> bit c TC \<and> (\<forall>v\<in>set busy. \<not> bit v RXNE) \<and> bit r RXNE)"

lemma read_served:
  assumes "inputs s (ir ''ISR'') = xs @ rest" "serves_read xs" "inputs s (ir ''RXDR'') = d # ds"
  shows "\<exists>s'. read target addr len s = Inr (ucast d, s') \<and> inputs s' (ir ''ISR'') = rest \<and> inputs s' (ir ''RXDR'') = ds \<and>
    i2c_sent s' = i2c_sent s @ [ucast (ucast target :: u8)]"
proof -
  from assms(2) obtain f t c busy r where xs: "xs = f # t # c # busy @ [r]" "bit t TXE" "bit c TC"
    "\<forall>v\<in>set busy. \<not> bit v RXNE" "bit r RXNE" unfolding serves_read_def by blast
  define s1 where "s1 = set_write_direction (address_slave addr len (clear_slave s))"
  have s1: "inputs s1 (ir ''ISR'') = f # t # c # (busy @ r # rest)" "inputs s1 (ir ''RXDR'') = d # ds" "i2c_sent s1 = i2c_sent s"
    using assms(1,3) xs(1) by (simp_all add: s1_def)
  from i2c_bus_write_one [OF s1(1) xs(2,3)] s1 obtain s2 where
    s2: "i2c_bus_write addr [ucast target] 1 s1 = Inr s2" "inputs s2 (ir ''ISR'') = busy @ r # rest"
      "inputs s2 (ir ''RXDR'') = d # ds" "i2c_sent s2 = i2c_sent s @ [ucast (ucast target :: u8)]" by metis
  define s3 where "s3 = i2c_start (set_read_direction s2)"
  define s4 where "s4 = s3\<lparr>inputs := (inputs s3)(ir ''ISR'' := rest)\<rparr>"
  have "poll (ir ''ISR'') (\<lambda>v. bit v RXNE) s3 = Inr s4"
    unfolding s4_def using s2(2) xs(4,5) by (intro poll_prefix) (simp_all add: s3_def)
  moreover have r4: "READ_REGISTER (ir ''RXDR'') s4 = (d, s4\<lparr>inputs := (inputs s4)(ir ''RXDR'' := ds)\<rparr>)"
    using s2(3) by (simp add: READ_REGISTER_def s4_def s3_def)
  ultimately have "read target addr len s = Inr (ucast d, i2c_stop (s4\<lparr>inputs := (inputs s4)(ir ''RXDR'' := ds)\<rparr>))"
    unfolding read_def request_def s1_def [symmetric] s2(1) bnd_simps s3_def [symmetric] receive_byte_def by simp
  then show ?thesis using s2(4) by (simp add: s4_def s3_def)
qed

section \<open>Numbers as text\<close>

lemma digit_step:
  fixes n :: u32
  assumes "unat n < 10 ^ (Suc (Suc c))"
  shows "unat (n div 10) < 10 ^ Suc c"
  using assms by (simp add: unat_div less_mult_imp_div_less mult.commute)

lemma low_digit: "(ucast (n mod 10 :: u32) :: u8) = of_nat (unat n mod 10)"
proof -
  have "(ucast (n mod 10 :: u32) :: u8) = of_nat (unat (n mod 10))" by (rule of_nat_unat [symmetric])
  then show ?thesis by (simp add: unat_mod)
qed

lemma num_to_char_loop_ok:
  "unat n < 10 ^ Suc c \<Longrightarrow> c < length xs \<Longrightarrow>
   \<exists>out. num_to_char_loop n (int c) xs = Inr out \<and> length out = length xs \<and>
     (\<forall>k\<le>c. out ! (c - k) = (if 10 ^ k \<le> unat n then of_nat (unat n div 10 ^ k mod 10) + 0x30 else xs ! (c - k))) \<and>
     (\<forall>i>c. out ! i = xs ! i)"
proof (induction c arbitrary: n xs)
  case 0
  let ?d = "ucast (n mod 10) + 0x30"
  show ?case
  proof (cases "n = 0")
    case True
    then show ?thesis using 0 by (subst num_to_char_loop.simps) simp
  next
    case False
    have "n div 10 = 0" using 0(1) by (simp add: unat_eq_zero [symmetric] unat_div)
    then have "num_to_char_loop n 0 xs = Inr (xs[0 := ?d])"
      using False 0(2) by (simp add: num_to_char_loop.simps [of n] num_to_char_loop.simps [of 0] word_gt_0)
    moreover have "1 \<le> unat n" using False by (simp add: Suc_le_eq unat_gt_0)
    moreover note low_digit [of n]
    ultimately show ?thesis using 0(2) by auto
  qed
next
  case (Suc c)
  show ?case
  proof (cases "n = 0")
    case True
    then show ?thesis using Suc.prems by (subst num_to_char_loop.simps) simp
  next
    case False
    let ?xs = "xs[Suc c := ucast (n mod 10) + 0x30]"
    have e: "num_to_char_loop n (int (Suc c)) xs = num_to_char_loop (n div 10) (int c) ?xs"
      using False Suc.prems(2) by (subst num_to_char_loop.simps) (simp add: word_gt_0 nat_add_distrib)
    from Suc.IH [OF digit_step [OF Suc.prems(1)], of ?xs] Suc.prems(2) obtain out where
      o: "num_to_char_loop (n div 10) (int c) ?xs = Inr out" "length out = length xs"
      and lo: "\<forall>k\<le>c. out ! (c - k) = (if 10 ^ k \<le> unat (n div 10) then of_nat (unat (n div 10) div 10 ^ k mod 10) + 0x30 else ?xs ! (c - k))"
      and hi: "\<forall>i>c. out ! i = ?xs ! i" by auto
    have "out ! (Suc c - k) = (if 10 ^ k \<le> unat n then of_nat (unat n div 10 ^ k mod 10) + 0x30 else xs ! (Suc c - k))"
      if "k \<le> Suc c" for k
    proof (cases k)
      case 0
      have "1 \<le> unat n" using False by (simp add: Suc_le_eq unat_gt_0)
      moreover note low_digit [of n]
      ultimately show ?thesis using hi Suc.prems(2) 0 by simp
    next
      case (Suc j)
      have "10 ^ j \<le> unat (n div 10) \<longleftrightarrow> 10 ^ k \<le> unat n"
        by (simp add: Suc unat_div less_eq_div_iff_mult_less_eq mult.commute)
      moreover have "unat (n div 10) div 10 ^ j = unat n div 10 ^ k" by (simp add: Suc unat_div div_mult2_eq)
      ultimately show ?thesis using lo that Suc by simp
    qed
    moreover have "\<forall>i>Suc c. out ! i = xs ! i" using hi by simp
    ultimately show ?thesis unfolding e using o by blast
  qed
qed

lemma num_to_char_loop_overrun:
  "10 ^ Suc c \<le> unat n \<Longrightarrow> c < length xs \<Longrightarrow> num_to_char_loop n (int c) xs = Inl OutOfBounds"
proof (induction c arbitrary: n xs)
  case 0
  have "0 < n" "0 < n div 10" using 0(1) by (simp_all add: word_less_nat_alt unat_div div_greater_zero_iff)
  then show ?case using 0(2) by (simp add: num_to_char_loop.simps [of n] num_to_char_loop.simps [of "n div 10"] wr_def)
next
  case (Suc c)
  have "0 < unat n" using Suc.prems(1) by (metis gr0I not_one_le_zero one_le_power one_le_numeral order_trans)
  then have "num_to_char_loop n (int (Suc c)) xs = num_to_char_loop (n div 10) (int c) (xs[Suc c := ucast (n mod 10) + 0x30])"
    using Suc.prems(2) by (subst num_to_char_loop.simps) (simp add: word_gt_0 nat_add_distrib unat_gt_0)
  moreover have "10 ^ Suc c \<le> unat (n div 10)"
    using Suc.prems(1) by (simp add: unat_div less_eq_div_iff_mult_less_eq mult.commute mult.left_commute)
  ultimately show ?case using Suc.IH Suc.prems(2) by simp
qed

text \<open>
  \<open>num_to_char\<close> writes the decimal digits of a number below 100000, right-aligned at index 4, and
  leaves the rest of the buffer; for a larger number it writes in front of the buffer.
\<close>
theorem num_to_char_correct:
  assumes "5 \<le> length xs"
  shows "if unat n < 100000
     then \<exists>out. num_to_char n xs = Inr out \<and> length out = length xs \<and>
       (\<forall>k\<le>4. out ! (4 - k) = (if 10 ^ k \<le> unat n then of_nat (unat n div 10 ^ k mod 10) + 0x30 else xs ! (4 - k))) \<and>
       (\<forall>i>4. out ! i = xs ! i)
     else num_to_char n xs = Inl OutOfBounds"
  using num_to_char_loop_ok [of n 4 xs] num_to_char_loop_overrun [of 4 n xs] assms
  by (auto simp: num_to_char_def not_less)

section \<open>Properties\<close>

text \<open>
  C33. One reading of the accelerometer: if the bus serves six reads, \<open>read_xyz\<close> names the registers
  0x32 to 0x37 to the sensor, one after the other, and returns for every axis the two bytes
  received, the first one low; nothing else is sent, and no other status or data is consumed.
\<close>
theorem read_xyz_correct:
  assumes "inputs s (ir ''ISR'') = a0 @ a1 @ a2 @ a3 @ a4 @ a5 @ rest"
    and "serves_read a0" "serves_read a1" "serves_read a2" "serves_read a3" "serves_read a4" "serves_read a5"
    and "inputs s (ir ''RXDR'') = d0 # d1 # d2 # d3 # d4 # d5 # ds"
  shows "\<exists>p s'. read_xyz s = Inr (p, s') \<and> i2c_sent s' = i2c_sent s @ [0x32, 0x33, 0x34, 0x35, 0x36, 0x37] \<and>
     inputs s' (ir ''ISR'') = rest \<and> inputs s' (ir ''RXDR'') = ds \<and>
     p = \<lparr>x_axis = ucast (ucast d0 :: u8) OR push_bit 8 (ucast (ucast d1 :: u8)),
          y_axis = ucast (ucast d2 :: u8) OR push_bit 8 (ucast (ucast d3 :: u8)),
          z_axis = ucast (ucast d4 :: u8) OR push_bit 8 (ucast (ucast d5 :: u8))\<rparr>"
proof -
  have r: "(ucast (ucast (w :: u32) :: u8) :: u32) = w" if "w \<in> {0x32, 0x33, 0x34, 0x35, 0x36, 0x37}" for w
    using that by auto
  obtain s1 where s1: "read 0x32 ADXL345 1 s = Inr (ucast d0, s1)" "inputs s1 (ir ''ISR'') = a1 @ a2 @ a3 @ a4 @ a5 @ rest"
    "inputs s1 (ir ''RXDR'') = d1 # d2 # d3 # d4 # d5 # ds" "i2c_sent s1 = i2c_sent s @ [0x32]"
    using read_served [OF assms(1,2,8), of "0x32" ADXL345 1] r by auto
  obtain s2 where s2: "read 0x33 ADXL345 1 s1 = Inr (ucast d1, s2)" "inputs s2 (ir ''ISR'') = a2 @ a3 @ a4 @ a5 @ rest"
    "inputs s2 (ir ''RXDR'') = d2 # d3 # d4 # d5 # ds" "i2c_sent s2 = i2c_sent s @ [0x32, 0x33]"
    using read_served [OF s1(2) assms(3) s1(3), of "0x33" ADXL345 1] r s1(4) by auto
  obtain s3 where s3: "read 0x34 ADXL345 1 s2 = Inr (ucast d2, s3)" "inputs s3 (ir ''ISR'') = a3 @ a4 @ a5 @ rest"
    "inputs s3 (ir ''RXDR'') = d3 # d4 # d5 # ds" "i2c_sent s3 = i2c_sent s @ [0x32, 0x33, 0x34]"
    using read_served [OF s2(2) assms(4) s2(3), of "0x34" ADXL345 1] r s2(4) by auto
  obtain s4 where s4: "read 0x35 ADXL345 1 s3 = Inr (ucast d3, s4)" "inputs s4 (ir ''ISR'') = a4 @ a5 @ rest"
    "inputs s4 (ir ''RXDR'') = d4 # d5 # ds" "i2c_sent s4 = i2c_sent s @ [0x32, 0x33, 0x34, 0x35]"
    using read_served [OF s3(2) assms(5) s3(3), of "0x35" ADXL345 1] r s3(4) by auto
  obtain s5 where s5: "read 0x36 ADXL345 1 s4 = Inr (ucast d4, s5)" "inputs s5 (ir ''ISR'') = a5 @ rest"
    "inputs s5 (ir ''RXDR'') = d5 # ds" "i2c_sent s5 = i2c_sent s @ [0x32, 0x33, 0x34, 0x35, 0x36]"
    using read_served [OF s4(2) assms(6) s4(3), of "0x36" ADXL345 1] r s4(4) by auto
  obtain s6 where s6: "read 0x37 ADXL345 1 s5 = Inr (ucast d5, s6)" "inputs s6 (ir ''ISR'') = rest"
    "inputs s6 (ir ''RXDR'') = ds" "i2c_sent s6 = i2c_sent s @ [0x32, 0x33, 0x34, 0x35, 0x36, 0x37]"
    using read_served [OF s5(2) assms(7) s5(3), of "0x37" ADXL345 1] r s5(4) by auto
  show ?thesis
    unfolding read_xyz_def s1(1) s2(1) s3(1) s4(1) s5(1) s6(1) bnd_simps prod.case
    by (intro exI conjI) (rule refl s6(4) s6(2) s6(3))+
qed

text \<open>A sensor lying flat: 256 on the axis that points upwards, -1 and 2 on the others.\<close>

definition adxl_machine :: machine where
  "adxl_machine = quiet_machine\<lparr>inputs := (\<lambda>a.
     if a = ir ''ISR'' then concat (replicate 6 [0, 1, 0x41, 0, 4])
     else if a = ir ''RXDR'' then [0xFF, 0xFF, 0x02, 0x00, 0x00, 0x01] else [])\<rparr>"

theorem read_xyz_correct_witness:
  "\<exists>s'. read_xyz adxl_machine = Inr (\<lparr>x_axis = 0xFFFF, y_axis = 2, z_axis = 0x100\<rparr>, s') \<and>
     i2c_sent s' = [0x32, 0x33, 0x34, 0x35, 0x36, 0x37]"
proof -
  let ?a = "[0, 1, 0x41, 0, 4] :: u32 list"
  have a: "serves_read ?a" unfolding serves_read_def by (rule exI [of _ 0], rule exI [of _ 1], rule exI [of _ "0x41"], rule exI [of _ "[0]"]) simp
  have i: "inputs adxl_machine (ir ''ISR'') = ?a @ ?a @ ?a @ ?a @ ?a @ ?a @ []"
    by (simp add: adxl_machine_def numeral_eq_Suc)
  have d: "inputs adxl_machine (ir ''RXDR'') = 0xFF # 0xFF # 0x02 # 0x00 # 0x00 # 0x01 # []"
    by (simp add: adxl_machine_def)
  have n: "i2c_sent adxl_machine = []" by (simp add: adxl_machine_def quiet_machine_def i2c_sent_def)
  from read_xyz_correct [OF i a a a a a a d] show ?thesis unfolding n by auto
qed

end
