(* ===== verification/I2c.thy ===== *)
theory I2c
  imports Uart
begin

text \<open>
  The I2C driver of the F401: \<open>os/arch/f401/src/i2c.c\<close>, with the bit-fields of \<open>i2c.h\<close>.  Its
  register pointer \<open>i2c_regs\<close> is a global variable; the registers are read as the code writes
  the loads (they are not declared volatile).
\<close>

section \<open>Registers\<close>

definition i2cRegisterMap :: "string list" where
  "i2cRegisterMap = [''i2c_cr1'', ''i2c_cr2'', ''i2c_oar1'', ''i2c_oar2'', ''i2c_dr'', ''i2c_sr1'', ''i2c_sr2'']"

abbreviation (input) I2C1_BASE :: addr where "I2C1_BASE \<equiv> 0x40013000"
abbreviation i2c :: "'z machine_scheme \<Rightarrow> string \<Rightarrow> addr" where
  "i2c s f \<equiv> reg i2cRegisterMap (Machine.i2c_regs (drv s)) f"

text \<open>Bit positions in \<open>i2c_cr1\<close> and \<open>i2c_sr1\<close>.\<close>

abbreviation (input) CR1_PE :: nat where "CR1_PE \<equiv> 0"
abbreviation (input) CR1_START :: nat where "CR1_START \<equiv> 8"
abbreviation (input) CR1_STOP :: nat where "CR1_STOP \<equiv> 9"
abbreviation (input) CR1_ACK :: nat where "CR1_ACK \<equiv> 10"
abbreviation (input) CR1_SWRST :: nat where "CR1_SWRST \<equiv> 15"
abbreviation (input) SR1_SB :: nat where "SR1_SB \<equiv> 0"
abbreviation (input) SR1_ADDR :: nat where "SR1_ADDR \<equiv> 1"
abbreviation (input) SR1_BTF :: nat where "SR1_BTF \<equiv> 2"
abbreviation (input) SR1_RXNE :: nat where "SR1_RXNE \<equiv> 6"
abbreviation (input) SR1_TXE :: nat where "SR1_TXE \<equiv> 7"

text \<open>
  Assigning a one-bit field rewrites its word; assigning the \<open>char\<close> at the start of the data
  register stores one byte; \<open>while (!bit) { }\<close> polls the status register.
\<close>

definition cr1_field :: "nat \<Rightarrow> bool \<Rightarrow> 'z machine_scheme \<Rightarrow> 'z machine_scheme" where
  "cr1_field n b s = MODIFY_REGISTER (i2c s ''i2c_cr1'') (\<lambda>v. if b then Bit_Operations.set_bit n v else unset_bit n v) s"

definition WRITE_BYTE :: "addr \<Rightarrow> u8 \<Rightarrow> 'z machine_scheme \<Rightarrow> 'z machine_scheme" where
  "WRITE_BYTE a b s =
     s\<lparr>mmio := (mmio s)(a := (mmio s a AND NOT 0xFF) OR ucast b), writes := writes s @ [(a, ucast b)]\<rparr>"

definition wait_sr1 :: "nat \<Rightarrow> 'z machine_scheme \<Rightarrow> 'z machine_scheme res" where
  "wait_sr1 n s = poll (i2c s ''i2c_sr1'') (\<lambda>v. bit v n) s"

text \<open>The reads of both status registers, whose values are dropped.\<close>

definition read_status :: "'z machine_scheme \<Rightarrow> 'z machine_scheme" where
  "read_status s =
     (let (v, s1) = READ_REGISTER (i2c s ''i2c_sr1'') s; (w, s2) = READ_REGISTER (i2c s1 ''i2c_sr2'') s1 in s2)"

section \<open>Operations\<close>

definition i2c_local_start :: "'z machine_scheme \<Rightarrow> 'z machine_scheme res" where
  "i2c_local_start s = wait_sr1 SR1_SB (cr1_field CR1_START True s)"

definition i2c_local_stop :: "'z machine_scheme \<Rightarrow> 'z machine_scheme" where
  "i2c_local_stop s = cr1_field CR1_STOP True s"

definition i2c_local_send_address :: "u8 \<Rightarrow> 'z machine_scheme \<Rightarrow> 'z machine_scheme res" where
  "i2c_local_send_address recipient s =
     bnd (wait_sr1 SR1_TXE s) (\<lambda>s1.
     bnd (wait_sr1 SR1_ADDR (WRITE_BYTE (i2c s1 ''i2c_dr'') recipient s1)) (\<lambda>s2.
     Inr (read_status s2)))"

fun i2c_write_loop :: "u8 list \<Rightarrow> 'z machine_scheme \<Rightarrow> 'z machine_scheme res" where
  "i2c_write_loop [] s = Inr s"
| "i2c_write_loop (b # bs) s =
     bnd (wait_sr1 SR1_TXE s) (\<lambda>s1.
     bnd (wait_sr1 SR1_BTF (WRITE_BYTE (i2c s1 ''i2c_dr'') b s1)) (\<lambda>s2.
     i2c_write_loop bs s2))"

text \<open>\<open>payload\<close> holds the \<open>num_of_bytes\<close> bytes sent.\<close>

definition i2c_write :: "u8 list \<Rightarrow> u8 \<Rightarrow> 'z machine_scheme \<Rightarrow> 'z machine_scheme res" where
  "i2c_write payload recipient s =
     bnd (i2c_local_start s) (\<lambda>s1.
     bnd (i2c_local_send_address (recipient AND NOT 1) s1) (\<lambda>s2.
     bnd (i2c_write_loop payload s2) (\<lambda>s3.
     Inr (i2c_local_stop s3))))"

definition i2c_read_single :: "u8 \<Rightarrow> 'z machine_scheme \<Rightarrow> (u8 \<times> 'z machine_scheme) res" where
  "i2c_read_single recipient s =
     bnd (i2c_local_start s) (\<lambda>s1.
     bnd (wait_sr1 SR1_TXE s1) (\<lambda>s2.
     bnd (wait_sr1 SR1_ADDR (WRITE_BYTE (i2c s2 ''i2c_dr'') (recipient OR 1) s2)) (\<lambda>s3.
     bnd (wait_sr1 SR1_RXNE (i2c_local_stop (read_status (cr1_field CR1_ACK False s3)))) (\<lambda>s4.
     let (v, s5) = READ_REGISTER (i2c s4 ''i2c_dr'') s4 in Inr (ucast v, s5)))))"

definition i2c_init :: "'z machine_scheme \<Rightarrow> 'z machine_scheme" where
  "i2c_init s =
     (let s1 = MODIFY_REGISTER (rcc ''apb1enr'') (\<lambda>v. v OR shl 1 21) s;
          s2 = s1\<lparr>drv := (drv s1)\<lparr>i2c_regs := I2C1_BASE\<rparr>\<rparr>
      in cr1_field CR1_ACK True (cr1_field CR1_PE True (cr1_field CR1_SWRST False (cr1_field CR1_SWRST True s2))))"

end
