(* ===== verification/Port_F303.thy ===== *)
theory Port_F303
  imports Adxl345 I2c
begin

text \<open>
  The drivers of the STM32F303 port: \<open>os/arch/f303/src/gpio.c\<close>, \<open>i2c.c\<close>, \<open>uart.c\<close> with the register
  maps of their headers.  The operations have the names of the F401 driver and other bodies; here they
  carry the suffix \<open>_f303\<close>.  \<open>uart.c\<close> of the F407 and the drivers of the emulator are empty functions,
  apart from the serial port of the emulator.  The I2C registers are those of \<open>packages/i2c\<close>
  (\<open>I2C_Regs\<close>), reached through the pointer \<open>i2c_regs\<close>.
\<close>

section \<open>Register maps\<close>

definition RccRegisterMap_f303 :: "string list" where
  "RccRegisterMap_f303 = [''cr'', ''cfgr'', ''cir'', ''apb2rstr'', ''apb1rstr'', ''ahbenr'', ''apb2enr'', ''apb1enr'',
     ''bdcr'', ''csr'', ''ahbrstr'', ''cfgr2'', ''cfgr3'']"

definition GpioRegisters_f303 :: "string list" where
  "GpioRegisters_f303 = [''moder'', ''otyper'', ''ospeedr'', ''pupdr'', ''idr'', ''odr'', ''bsrr'', ''lckr'', ''afrl'',
     ''afrh'', ''brr'']"

definition UartRegisterMap_f303 :: "string list" where
  "UartRegisterMap_f303 = [''cr1'', ''cr2'', ''cr3'', ''brr'', ''gtpr'', ''rtor'', ''rqr'', ''isr'', ''icr'', ''rdr'', ''tdr'']"

abbreviation rcc_f303 :: "string \<Rightarrow> addr" where "rcc_f303 f \<equiv> reg RccRegisterMap_f303 0x40021000 f"
abbreviation uart_f303 :: "string \<Rightarrow> addr" where "uart_f303 f \<equiv> reg UartRegisterMap_f303 0x40013800 f"
abbreviation i2c_f303 :: "'z machine_scheme \<Rightarrow> string \<Rightarrow> addr" where
  "i2c_f303 s f \<equiv> reg I2C_Regs (Machine.i2c_regs (drv s)) f"

section \<open>gpio.c\<close>

record GpioObject_f303 =
  port_f303 :: u8
  pin_f303 :: u32
  base_adress_f303 :: addr

definition init_gpio_f303 :: "GpioObject_f303 \<Rightarrow> 'z machine_scheme \<Rightarrow> GpioObject_f303 \<times> 'z machine_scheme" where
  "init_gpio_f303 g s =
     (if port_f303 g = 65 then (g\<lparr>base_adress_f303 := 0x48000000\<rparr>, MODIFY_REGISTER (rcc_f303 ''ahbenr'') (\<lambda>v. v OR shl 1 17) s)
      else if port_f303 g = 66 then (g\<lparr>base_adress_f303 := 0x48000400\<rparr>, MODIFY_REGISTER (rcc_f303 ''ahbenr'') (\<lambda>v. v OR shl 1 18) s)
      else if port_f303 g = 67 then (g\<lparr>base_adress_f303 := 0x48000800\<rparr>, MODIFY_REGISTER (rcc_f303 ''ahbenr'') (\<lambda>v. v OR shl 1 19) s)
      else if port_f303 g = 68 then (g\<lparr>base_adress_f303 := 0x48001000\<rparr>, MODIFY_REGISTER (rcc_f303 ''ahbenr'') (\<lambda>v. v OR shl 1 20) s)
      else (g, s))"

definition get_registers_f303 :: "GpioObject_f303 \<Rightarrow> addr" where
  "get_registers_f303 t =
     (if port_f303 t = 65 then 0x48000000 else if port_f303 t = 66 then 0x48000400
      else if port_f303 t = 67 then 0x48000800 else if port_f303 t = 68 then 0x48001000 else 0x48000000)"

abbreviation gpio_f303 :: "GpioObject_f303 \<Rightarrow> string \<Rightarrow> addr" where
  "gpio_f303 t f \<equiv> reg GpioRegisters_f303 (get_registers_f303 t) f"

definition set_moder_f303 :: "GpioObject_f303 \<Rightarrow> ModerTypes \<Rightarrow> 'z machine_scheme \<Rightarrow> 'z machine_scheme" where
  "set_moder_f303 t moder s =
     MODIFY_REGISTER (gpio_f303 t ''moder'') (\<lambda>v. v OR shl (moder_value moder) (pin_f303 t * 2)) s"

definition into_af_f303 :: "GpioObject_f303 \<Rightarrow> u32 \<Rightarrow> 'z machine_scheme \<Rightarrow> 'z machine_scheme" where
  "into_af_f303 t af_number s =
     (if pin_f303 t < 8 then
        MODIFY_REGISTER (gpio_f303 t ''afrl'') (\<lambda>v. v OR shl af_number (pin_f303 t * 4))
          (MODIFY_REGISTER (gpio_f303 t ''afrl'') (\<lambda>v. v AND NOT (shl 0xF (pin_f303 t * 4))) s)
      else WRITE_REGISTER (gpio_f303 t ''afrh'') 0x770 s)"

definition set_otyper_f303 :: "GpioObject_f303 \<Rightarrow> OutputTypes \<Rightarrow> 'z machine_scheme \<Rightarrow> 'z machine_scheme" where
  "set_otyper_f303 t otype s =
     (case otype of
        PushPull \<Rightarrow> MODIFY_REGISTER (gpio_f303 t ''otyper'') (\<lambda>v. v AND NOT (shl 1 (pin_f303 t))) s
      | OpenDrain \<Rightarrow> MODIFY_REGISTER (gpio_f303 t ''otyper'') (\<lambda>v. v OR shl 1 (pin_f303 t)) s)"

text \<open>The shift count is the port's character.\<close>

definition toggle_output_pin_f303 :: "GpioObject_f303 \<Rightarrow> 'z machine_scheme \<Rightarrow> 'z machine_scheme" where
  "toggle_output_pin_f303 t s =
     MODIFY_REGISTER (gpio_f303 t ''odr'') (\<lambda>v. v AND NOT (shl 1 (ucast (port_f303 t)))) s"

section \<open>uart.c\<close>

definition init_uart_f303 :: "GpioObject_f303 \<Rightarrow> 'z machine_scheme \<Rightarrow> GpioObject_f303 \<times> 'z machine_scheme" where
  "init_uart_f303 obj s =
     (let (tx, s1) = init_gpio_f303 (obj\<lparr>pin_f303 := 9, port_f303 := 65\<rparr>) s;
          s2 = set_otyper_f303 tx PushPull (into_af_f303 tx 7 (set_moder_f303 tx AlternateFunctionMode s1));
          rx = tx\<lparr>pin_f303 := 10, port_f303 := 65\<rparr>;
          s3 = into_af_f303 rx 7 (set_moder_f303 rx AlternateFunctionMode (set_moder_f303 rx InputMode s2));
          s4 = MODIFY_REGISTER (rcc_f303 ''apb2enr'') (\<lambda>v. v OR shl 1 14) s3;
          s5 = WRITE_REGISTER (uart_f303 ''brr'') (8000000 div 9600) s4;
          s6 = MODIFY_REGISTER (uart_f303 ''cr1'') (\<lambda>v. v OR (shl 1 3 OR shl 1 2 OR shl 1 5 OR shl 1 0)) s5;
          s7 = MODIFY_REGISTER (uart_f303 ''cr1'') (\<lambda>v. v OR 0) s6
      in (rx, MODIFY_REGISTER 0xE000E104 (\<lambda>v. v OR shl 1 5) s7))"

definition read_data_register_f303 :: "'z machine_scheme \<Rightarrow> u32 \<times> 'z machine_scheme" where
  "read_data_register_f303 s = READ_REGISTER 0x40013824 s"

text \<open>Given the \<open>length\<close> bytes at \<open>src\<close>.\<close>

fun print_f303 :: "u8 list \<Rightarrow> 'z machine_scheme \<Rightarrow> 'z machine_scheme res" where
  "print_f303 [] s = Inr s"
| "print_f303 (b # bs) s =
     bnd (poll (uart_f303 ''isr'') (\<lambda>v. v AND 0x80 \<noteq> 0) (WRITE_REGISTER (uart_f303 ''tdr'') (ucast b) s)) (print_f303 bs)"

section \<open>i2c.c\<close>

definition i2c_stop_f303 :: "'z machine_scheme \<Rightarrow> 'z machine_scheme" where
  "i2c_stop_f303 s = MODIFY_REGISTER (i2c_f303 s ''CR2'') (\<lambda>v. v OR shl 1 14) s"

definition set_write_direction_f303 :: "'z machine_scheme \<Rightarrow> 'z machine_scheme" where
  "set_write_direction_f303 s = MODIFY_REGISTER (i2c_f303 s ''CR2'') (\<lambda>v. v AND NOT (shl 1 10)) s"

definition set_read_direction_f303 :: "'z machine_scheme \<Rightarrow> 'z machine_scheme" where
  "set_read_direction_f303 s = MODIFY_REGISTER (i2c_f303 s ''CR2'') (\<lambda>v. v OR shl 1 10) s"

definition i2c_start_f303 :: "'z machine_scheme \<Rightarrow> 'z machine_scheme" where
  "i2c_start_f303 s = MODIFY_REGISTER (i2c_f303 s ''CR2'') (\<lambda>v. v OR shl 1 13) s"

definition request_read_f303 :: "'z machine_scheme \<Rightarrow> 'z machine_scheme" where
  "request_read_f303 s = MODIFY_REGISTER (i2c_f303 s ''CR2'') (\<lambda>v. v OR shl 1 13) s"

text \<open>
  The loop ends when TC is set; nothing stops \<open>k\<close> (\<open>sent\<close> in the code) at the length of the payload.
  \<open>isr\<close> and \<open>txdr\<close> are the addresses of the two registers.  A round that has sent nothing and seen no new
  input repeats for ever.
\<close>

function send_loop :: "addr \<Rightarrow> addr \<Rightarrow> u8 list \<Rightarrow> nat \<Rightarrow> 'z machine_scheme \<Rightarrow> 'z machine_scheme res" where
  "send_loop isr txdr payload k s =
     (let (v, s1) = READ_REGISTER isr s in
      bnd (if v AND shl 1 0 \<noteq> 0
           then bnd (rd payload (int k)) (\<lambda>b. Inr (k + 1, WRITE_REGISTER txdr (ucast b) s1))
           else Inr (k, s1)) (\<lambda>(k2, s2).
      let (w, s3) = READ_REGISTER isr s2 in
      if w AND shl 1 6 \<noteq> 0 then Inr s3
      else if inputs s isr = [] \<and> k2 = k then Inl Spin
      else send_loop isr txdr payload k2 s3))"
  by pat_completeness auto
termination
proof (relation "measure (\<lambda>(isr, txdr, p, k, s). length (inputs s isr) + (length p - k))", goal_cases)
  case 1 show ?case by simp
next
  case (2 isr txdr payload k s x v s1 y k2 s2 z w s3)
  have r: "length (inputs s' a) \<le> length (inputs t a)" "inputs t a \<noteq> [] \<Longrightarrow> length (inputs s' a) < length (inputs t a)"
    if "(u, s') = READ_REGISTER a t" for a u and s' t :: "'z machine_scheme"
    using that by (auto simp: READ_REGISTER_def split: list.splits)
  have "inputs s2 isr = inputs s1 isr" "k2 = k \<or> k2 = k + 1 \<and> k < length payload"
    using 2(3,4) by (auto simp: bnd_eq_Inr rd_eq_Inr split: if_splits)
  then show ?case using r [OF 2(2) [unfolded 2(1)]] r [OF 2(6) [unfolded 2(5)]] 2(8) by auto
qed

declare send_loop.simps [simp del]

text \<open>\<open>payload\<close> is the array, \<open>len\<close> the argument \<open>length\<close>.\<close>

definition write_f303 :: "u32 \<Rightarrow> u8 list \<Rightarrow> u32 \<Rightarrow> 'z machine_scheme \<Rightarrow> 'z machine_scheme res" where
  "write_f303 slave_addr payload len s =
     (let s1 = MODIFY_REGISTER (i2c_f303 s ''CR1'') (\<lambda>v. v AND NOT 1) s;
          s2 = MODIFY_REGISTER (i2c_f303 s ''CR1'') (\<lambda>v. v OR 1) s1;
          s3 = MODIFY_REGISTER (i2c_f303 s ''CR2'') (\<lambda>v. v AND NOT (shl 0x3FF 1)) s2;
          s4 = MODIFY_REGISTER (i2c_f303 s ''CR2'') (\<lambda>v. v AND NOT (shl 0xFF 16)) s3;
          s5 = MODIFY_REGISTER (i2c_f303 s ''CR2'') (\<lambda>v. v AND NOT (shl 1 10)) s4;
          s6 = MODIFY_REGISTER (i2c_f303 s ''CR2'') (\<lambda>v. v OR shl slave_addr 1 OR shl len 16) s5;
          s7 = MODIFY_REGISTER (i2c_f303 s ''ISR'') (\<lambda>v. v AND NOT (shl 1 0)) s6;
          s8 = i2c_start_f303 s7
      in bnd (send_loop (i2c_f303 s ''ISR'') (i2c_f303 s ''TXDR'') payload 0 s8) (\<lambda>s9. Inr (i2c_stop_f303 s9)))"

definition init_i2c_f303 :: "'z machine_scheme \<Rightarrow> 'z machine_scheme" where
  "init_i2c_f303 s = s\<lparr>drv := (drv s)\<lparr>i2c_regs := 0x40005400\<rparr>\<rparr>"

definition read_f303 :: "u32 \<Rightarrow> u32 \<Rightarrow> u32 \<Rightarrow> 'z machine_scheme \<Rightarrow> (u32 \<times> 'z machine_scheme) res" where
  "read_f303 target_register slave_addr len s =
     (let s1 = MODIFY_REGISTER (i2c_f303 s ''CR2'') (\<lambda>v. v AND NOT (shl 0x3FF 1)) s;
          s2 = MODIFY_REGISTER (i2c_f303 s ''CR2'') (\<lambda>v. v AND NOT (shl 0xFF 16)) s1;
          s3 = MODIFY_REGISTER (i2c_f303 s ''CR2'') (\<lambda>v. v OR shl slave_addr 1 OR shl len 16) s2
      in bnd (write_f303 slave_addr [ucast target_register] 1 (set_write_direction_f303 s3)) (\<lambda>s4.
         let (result, s5) = READ_REGISTER (i2c_f303 s ''RXDR'') (i2c_start_f303 (set_read_direction_f303 s4)) in
         bnd (poll (i2c_f303 s ''ISR'') (\<lambda>v. v AND shl 1 2 \<noteq> 0) s5) (\<lambda>s6.
         Inr (result, i2c_stop_f303 s6))))"

section \<open>The emulator's serial port\<close>

text \<open>\<open>os/arch/qemu/src/uart.c\<close> and \<open>uart.h\<close>; the registers are those of the F401.\<close>

definition print_char_qemu :: "u8 \<Rightarrow> 'z machine_scheme \<Rightarrow> 'z machine_scheme res" where
  "print_char_qemu c s = poll 0x40011000 (\<lambda>v. v AND 0x80 \<noteq> 0) (WRITE_REGISTER 0x40011004 (ucast c) s)"

fun print_qemu :: "u8 list \<Rightarrow> 'z machine_scheme \<Rightarrow> 'z machine_scheme res" where
  "print_qemu [] s = Inr s"
| "print_qemu (b # bs) s =
     bnd (poll 0x40011000 (\<lambda>v. v AND 0x80 \<noteq> 0) (WRITE_REGISTER 0x40011004 (ucast b) s)) (print_qemu bs)"

section \<open>Properties\<close>

lemma and_bit: "v AND shl 1 n \<noteq> 0 \<longleftrightarrow> unat n < 32 \<and> bit v (unat n)" for v :: u32
  by (auto simp: shl_def push_bit_of_1 and_exp_eq_0_iff_not_bit dest: bit_imp_le_length)

lemma shl_push: "shl x n = push_bit (unat n) x"
  by (simp add: shl_def)

text \<open>With \<open>i2c_regs\<close> at I2C1 the loop is the one of \<open>packages/i2c\<close>, which has the base as a constant.\<close>

lemma send_loop_package: "send_loop (ir ''ISR'') (ir ''TXDR'') payload k s = write_loop payload k s"
proof (induction payload k s rule: write_loop.induct)
  case (1 payload k s)
  show ?case
    by (subst send_loop.simps, subst write_loop.simps)
       (use "1.IH" in \<open>auto simp: and_bit Let_def split: prod.splits simp del: ir_addrs intro!: bnd_cong\<close>)
qed

lemma write_loop_drv: "write_loop payload k s = Inr s' \<Longrightarrow> drv s' = drv s"
proof (induction payload k s arbitrary: s' rule: write_loop.induct)
  case (1 payload k s)
  have r: "drv t' = drv t" if "READ_REGISTER a t = (v, t')" for a v and t t' :: "'a machine_scheme"
    using that by (auto simp: READ_REGISTER_def split: list.splits)
  obtain v s1 where r1: "READ_REGISTER (ir ''ISR'') s = (v, s1)" by fastforce
  from "1.prems" obtain k2 s2 where
    2: "(if bit v TXE then bnd (rd payload (int k)) (\<lambda>b. Inr (k + 1, WRITE_REGISTER (ir ''TXDR'') (ucast b) s1)) else Inr (k, s1))
        = Inr (k2, s2)" (is "?m = _")
    and rest: "(let (w, s3) = READ_REGISTER (ir ''ISR'') s2 in if bit w TC then Inr s3
        else if inputs s (ir ''ISR'') = [] \<and> k2 = k then Inl Spin else write_loop payload k2 s3) = Inr s'"
    by (subst (asm) write_loop.simps) (auto simp only: r1 Let_def prod.case elim!: bnd_InrE)
  obtain w s3 where r3: "READ_REGISTER (ir ''ISR'') s2 = (w, s3)" by fastforce
  have "drv s3 = drv s" using 2 r [OF r1] r [OF r3] by (auto split: if_splits elim!: bnd_InrE)
  moreover have "drv s' = drv s3" if "\<not> bit w TC" "\<not> (inputs s (ir ''ISR'') = [] \<and> k2 = k)"
    using "1.IH" [OF r1 [symmetric] refl 2 refl r3 [symmetric] refl that] rest that by (simp add: r3 del: ir_addrs)
  ultimately show ?case using rest by (auto simp: r3 simp del: ir_addrs split: if_splits)
qed

text \<open>
  C40. With the registers at I2C1, where \<open>init_i2c\<close> puts them, the write of the F303 driver is the write of
  \<open>packages/i2c\<close> for every slave, payload, length and state, its faults included.
\<close>

theorem write_f303_package:
  assumes "Machine.i2c_regs (drv s) = 0x40005400"
  shows "write_f303 slave payload len s = i2c_bus_write slave payload len s"
proof -
  define s8 where "s8 = i2c_start (MODIFY_REGISTER (ir ''ISR'') (\<lambda>v. v AND NOT (push_bit TXE 1))
    (address_slave slave len (set_write_direction (clear_slave
      (MODIFY_REGISTER (ir ''CR1'') (\<lambda>v. v OR 1) (MODIFY_REGISTER (ir ''CR1'') (\<lambda>v. v AND NOT 1) s))))))"
  have d: "Machine.i2c_regs (drv s8) = 0x40005400"
    using assms by (simp add: s8_def bus_setup_defs)
  have "write_f303 slave payload len s = bnd (write_loop payload 0 s8) (\<lambda>s9. Inr (i2c_stop_f303 s9))"
    using assms unfolding s8_def send_loop_package [symmetric]
    by (simp add: write_f303_def i2c_start_f303_def bus_setup_defs shl_push Let_def)
  also have "\<dots> = bnd (write_loop payload 0 s8) (\<lambda>s9. Inr (i2c_stop s9))"
    using d by (intro bnd_cong) (auto dest!: write_loop_drv simp: i2c_stop_f303_def i2c_stop_def shl_push)
  also have "\<dots> = i2c_bus_write slave payload len s" by (simp add: i2c_bus_write_def s8_def Let_def)
  finally show ?thesis .
qed

text \<open>
  \<open>set_moder\<close> sets bits and clears none: the two mode bits of the pin become the union of the old
  mode and the new one.  From \<open>AnalogMode\<close>, whose bits are both set, no call leads away.
\<close>

theorem set_moder_f303_keeps_bits:
  assumes "inputs s (gpio_f303 t ''moder'') = []" and "pin_f303 t < 16"
  shows "drop_bit (2 * unat (pin_f303 t)) (mmio (set_moder_f303 t m s) (gpio_f303 t ''moder'')) AND 3 =
    (drop_bit (2 * unat (pin_f303 t)) (mmio s (gpio_f303 t ''moder'')) AND 3) OR moder_value m"
proof -
  have p: "unat (pin_f303 t * 2) = 2 * unat (pin_f303 t)" "unat (pin_f303 t) < 16"
    using assms(2) by (simp_all add: unat_word_ariths word_less_nat_alt)
  have "moder_value m AND 3 = moder_value m" by (cases m) simp_all
  then have m: "bit (moder_value m) n \<Longrightarrow> n < 2" for n by (metis bit_and_iff bit_low_mask(1))
  show ?thesis
  proof (rule bit_word_eqI)
    fix n assume "n < LENGTH(32)"
    show "bit (drop_bit (2 * unat (pin_f303 t)) (mmio (set_moder_f303 t m s) (gpio_f303 t ''moder'')) AND 3) n \<longleftrightarrow>
      bit ((drop_bit (2 * unat (pin_f303 t)) (mmio s (gpio_f303 t ''moder'')) AND 3) OR moder_value m) n"
      unfolding bit_and_iff bit_or_iff bit_low_mask(1) bit_drop_bit_eq o_def
      using assms(1) p m [of n] by (auto simp: set_moder_f303_def bit_or_iff bit_shl)
  qed
qed

theorem set_moder_f303_keeps_bits_witness:
  "drop_bit 10 (mmio (set_moder_f303 \<lparr>port_f303 = 66, pin_f303 = 5, base_adress_f303 = 0\<rparr> GeneralPurposeOutputMode
     \<lparr>mmio = (\<lambda>a. 0xFFFFFFFF), inputs = (\<lambda>a. []), writes = [], DEBUG = 0, SYSTICK = True,
      drv = \<lparr>timer_configurations = [], dma_interrupt_action = 0, adc_registerset = 0, crc_regs = 0, i2c_regs = 0\<rparr>\<rparr>) 0x48000400) AND 3 = 3"
  (is "drop_bit 10 (mmio (set_moder_f303 ?t _ ?s) _) AND 3 = 3")
proof -
  have "drop_bit 10 (mmio (set_moder_f303 ?t GeneralPurposeOutputMode ?s) (gpio_f303 ?t ''moder'')) AND 3 =
    (drop_bit 10 (mmio ?s (gpio_f303 ?t ''moder'')) AND 3) OR moder_value GeneralPurposeOutputMode"
    using set_moder_f303_keeps_bits [of ?s ?t GeneralPurposeOutputMode] by simp
  moreover have "gpio_f303 ?t ''moder'' = 0x48000400" by (simp add: reg_def GpioRegisters_f303_def get_registers_f303_def)
  moreover have "drop_bit 10 (0xFFFFFFFF :: u32) AND 3 OR 1 = 3" by (simp add: drop_bit_eq_div)
  ultimately show ?thesis by simp
qed

theorem write_f303_package_witness:
  "\<exists>s' :: machine. write_f303 0x53 [7] 1 (init_i2c_f303
     \<lparr>mmio = (\<lambda>a. 0), inputs = (\<lambda>a. [])(0x40005418 := [0, 1, 64]), writes = [], DEBUG = 0, SYSTICK = True,
      drv = \<lparr>timer_configurations = [], dma_interrupt_action = 0, adc_registerset = 0, crc_regs = 0, i2c_regs = 0\<rparr>\<rparr>) = Inr s' \<and>
     i2c_sent s' = [7]"
  (is "\<exists>s'. write_f303 _ _ _ (init_i2c_f303 ?s) = Inr s' \<and> _")
proof -
  have "write_f303 0x53 [7] 1 (init_i2c_f303 ?s) = i2c_bus_write 0x53 [7] 1 (init_i2c_f303 ?s)"
    by (rule write_f303_package) (simp add: init_i2c_f303_def)
  moreover have "i2c_sent (init_i2c_f303 ?s) = []" by (simp add: init_i2c_f303_def i2c_sent_def)
  ultimately show ?thesis
    using i2c_bus_write_one [of "init_i2c_f303 ?s" 0 1 64 "[]" "0x53" 7 "[]" 1] by (auto simp: init_i2c_f303_def)
qed

end
