(* ===== verification/Drone_Tasks.thy ===== *)
theory Drone_Tasks
  imports Port_F303
begin

text \<open>
  The drone's control tasks, \<open>drohnentasks/src\<close>: the speed of a propeller (\<open>rpm.c\<close>), its position
  (\<open>position.c\<close>) and the ramp of its speed (\<open>speed_regulation.c\<close>).  They are written for the F303 and use
  no header of the kernel; here their functions carry the suffix \<open>_rpm\<close> where another driver has the name.
  In C \<open>!1\<close>, \<open>!(1 << 1)\<close> and \<open>!(0xFFFF)\<close> are 0.  The floating-point variables of \<open>regulate_linear\<close> are never read
  and are left out.
\<close>

section \<open>rpm.c\<close>

abbreviation (input) TIM2_BASE :: addr where "TIM2_BASE \<equiv> 0x40000000"
abbreviation (input) RCC_F303 :: addr where "RCC_F303 \<equiv> 0x40021000"

text \<open>\<open>!n\<close> of C.\<close>

definition c_not :: "u32 \<Rightarrow> u32" where
  "c_not n = (if n = 0 then 1 else 0)"

record Rpm =
  engine_0 :: u32
  engine_1 :: u32
  engine_2 :: u32
  engine_3 :: u32

definition start_rpm :: "'z machine_scheme \<Rightarrow> 'z machine_scheme" where
  "start_rpm s = MODIFY_REGISTER TIM2_BASE (\<lambda>v. v OR 1) s"

definition stop_rpm :: "'z machine_scheme \<Rightarrow> 'z machine_scheme" where
  "stop_rpm s = MODIFY_REGISTER TIM2_BASE (\<lambda>v. v AND c_not 1) s"

definition clear_udis_rpm :: "'z machine_scheme \<Rightarrow> 'z machine_scheme" where
  "clear_udis_rpm s = MODIFY_REGISTER TIM2_BASE (\<lambda>v. v AND c_not (shl 1 1)) s"

definition flush_rpm :: "'z machine_scheme \<Rightarrow> 'z machine_scheme" where
  "flush_rpm s = MODIFY_REGISTER (TIM2_BASE OR 0x24) (\<lambda>v. v AND c_not 0xFFFF) s"

definition read_timer_rpm :: "'z machine_scheme \<Rightarrow> u32 \<times> 'z machine_scheme" where
  "read_timer_rpm s = (let (v, s1) = READ_REGISTER (TIM2_BASE OR 0x24) s in (v AND NOT (shl 1 31), s1))"

definition clear_uif_rpm :: "'z machine_scheme \<Rightarrow> 'z machine_scheme" where
  "clear_uif_rpm s = MODIFY_REGISTER (TIM2_BASE OR 0x10) (\<lambda>v. v AND c_not (0xF OR shl 1 6)) s"

definition set_ug_rpm :: "'z machine_scheme \<Rightarrow> 'z machine_scheme" where
  "set_ug_rpm s = MODIFY_REGISTER (TIM2_BASE OR 0x14) (\<lambda>v. v OR 1) s"

definition enable_interrupt_rpm :: "'z machine_scheme \<Rightarrow> 'z machine_scheme" where
  "enable_interrupt_rpm s = MODIFY_REGISTER (TIM2_BASE OR 0xC) (\<lambda>v. v OR shl 1 1) s"

definition set_ccr_rpm :: "u32 \<Rightarrow> 'z machine_scheme \<Rightarrow> 'z machine_scheme" where
  "set_ccr_rpm ccr s = WRITE_REGISTER (TIM2_BASE OR 0x34) ccr s"

definition set_prescaler_rpm :: "u32 \<Rightarrow> 'z machine_scheme \<Rightarrow> 'z machine_scheme" where
  "set_prescaler_rpm psc s = WRITE_REGISTER (TIM2_BASE OR 0x28) psc s"

definition reset_timer_rpm :: "'z machine_scheme \<Rightarrow> 'z machine_scheme" where
  "reset_timer_rpm s =
     MODIFY_REGISTER 0x40021010 (\<lambda>v. v AND c_not (shl 1 1)) (MODIFY_REGISTER 0x40021010 (\<lambda>v. v OR shl 1 1) s)"

text \<open>\<open>BUFFERLENGTH - 1 - 2\<close> is 4.\<close>

function num_to_char_rpm_loop :: "u32 \<Rightarrow> int \<Rightarrow> u8 list \<Rightarrow> u8 list res" where
  "num_to_char_rpm_loop number cnt converted =
     (if number > 0
      then bnd (wr converted cnt (ucast (number mod 10) + 0x30)) (\<lambda>c. num_to_char_rpm_loop (number div 10) (cnt - 1) c)
      else Inr converted)"
  by pat_completeness auto
termination
  by (relation "measure (\<lambda>(n, c, xs). unat n)") (auto simp: unat_div word_less_nat_alt)

declare num_to_char_rpm_loop.simps [simp del]

definition num_to_char_rpm :: "u32 \<Rightarrow> u8 list \<Rightarrow> u8 list res" where
  "num_to_char_rpm number converted = num_to_char_rpm_loop number (7 - 1 - 2) converted"

definition init_rpm_timer :: "'z machine_scheme \<Rightarrow> 'z machine_scheme" where
  "init_rpm_timer s =
     (let s1 = MODIFY_REGISTER (RCC_F303 OR 0x1C) (\<lambda>v. v OR 1) s
      in set_ccr_rpm 1000 (clear_udis_rpm (clear_uif_rpm (set_ug_rpm (set_prescaler_rpm 1000 s1)))))"

text \<open>
  The loop of \<open>do_measurement\<close>.  When the timer presents no further value and the one it holds is below the
  limit, the loop never ends.
\<close>

function rpm_loop :: "u32 \<Rightarrow> u32 \<Rightarrow> 'z machine_scheme \<Rightarrow> (u32 \<times> 'z machine_scheme) res" where
  "rpm_loop rpm previous s =
     (let (t, s1) = read_timer_rpm s in
      if t < 0x1F40 then
        (let (n, s2) = READ_REGISTER 0x48000010 s1 in
         if inputs s (TIM2_BASE OR 0x24) = [] then Inl Spin
         else rpm_loop (if n AND 1 < previous then rpm + 1 else rpm) (n AND 1) s2)
      else Inr (rpm, s1))"
  by pat_completeness auto
termination
proof (relation "measure (\<lambda>(r, p, s). length (inputs s (TIM2_BASE OR 0x24)))", goal_cases)
  case (2 rpm previous s x t s1 y n s2)
  have "length (inputs s1 (TIM2_BASE OR 0x24)) < length (inputs s (TIM2_BASE OR 0x24))"
    using READ_inputs_less [OF 2(6)] 2(1,2) by (auto simp: read_timer_rpm_def split: prod.splits)
  moreover have "length (inputs s2 (TIM2_BASE OR 0x24)) \<le> length (inputs s1 (TIM2_BASE OR 0x24))"
    using READ_inputs_le [of "0x48000010" s1 "TIM2_BASE OR 0x24"] 2(4,5) by (metis snd_conv)
  ultimately show ?case by simp
qed simp

declare rpm_loop.simps [simp del]

definition do_measurement :: "'z machine_scheme \<Rightarrow> (Rpm \<times> 'z machine_scheme) res" where
  "do_measurement s =
     bnd (rpm_loop 0 1 (start_rpm s)) (\<lambda>(rpm, s1).
     let r = rpm * 60 in Inr (\<lparr>engine_0 = r, engine_1 = r, engine_2 = r, engine_3 = r\<rparr>, flush_rpm (stop_rpm s1)))"

section \<open>position.c\<close>

text \<open>
  \<open>value\<close> is initialised with itself: \<open>junk\<close> is what the variable happens to hold.  The quotient is that of
  \<open>int\<close>, rounded towards zero.  The argument \<open>axis\<close> is not used.
\<close>

definition complement_position :: "u32 \<Rightarrow> u32 \<Rightarrow> u32 \<Rightarrow> int res" where
  "complement_position junk payload pos =
     (if 32 \<le> unat (pos - 1) then Inl Undefined
      else
        let sign = drop_bit (unat (pos - 1)) payload AND 1; val = uint (junk AND 0x1FF)
        in Inr (if sign \<noteq> 0 then - ((512 - val + 1) div 256) else 0))"

definition calculate_position :: "'z machine_scheme \<Rightarrow> 'z machine_scheme res" where
  "calculate_position s = write_f303 ADXL345 [0x2D, 8] 2 s"

section \<open>speed\_regulation.c\<close>

text \<open>The values \<open>current_speed\<close> takes: \<open>while (start_speed++ != target_speed)\<close>.\<close>

function regulate_linear :: "u32 \<Rightarrow> u32 \<Rightarrow> u32 list" where
  "regulate_linear start_speed target_speed =
     (if start_speed \<noteq> target_speed then (start_speed + 1) # regulate_linear (start_speed + 1) target_speed else [])"
  by pat_completeness auto
termination
proof (relation "measure (\<lambda>(a, b). unat (b - a))", goal_cases)
  case (2 a b)
  then have "b - a \<noteq> 0" by simp
  then have "unat (b - a - 1) < unat (b - a)" by (simp add: unat_minus_one unat_gt_0)
  then show ?case by (simp add: diff_diff_add)
qed simp

declare regulate_linear.simps [simp del]

definition speed_regulation_main :: "u32 list" where
  "speed_regulation_main = regulate_linear 18 98"

section \<open>Properties\<close>

text \<open>The number of times the lowest bit falls in a list of samples, the pin being high before the first.\<close>

definition falling_edges :: "u32 \<Rightarrow> u32 list \<Rightarrow> nat" where
  "falling_edges p ns = length (filter (\<lambda>(a, b). bit a 0 \<and> \<not> bit b 0) (zip (p # ns) ns))"

lemma falling_edges_simps [simp]:
  "falling_edges p [] = 0"
  "falling_edges p (n # ns) = (if bit p 0 \<and> \<not> bit n 0 then 1 else 0) + falling_edges n ns"
  by (simp_all add: falling_edges_def)

lemma falling_edges_and_1: "falling_edges (p AND 1) ns = falling_edges p ns"
  by (cases ns) (simp_all add: bit_and_iff bit_1_iff)

lemma below_previous: "n AND 1 < p AND 1 \<longleftrightarrow> bit p 0 \<and> \<not> bit n 0" for n p :: u32
  by (simp add: and_one_eq mod_2_eq_odd bit_0)

lemma mmio_MODIFY: "mmio (MODIFY_REGISTER a (\<lambda>v. c) s) = (mmio s)(a := c)"
  by (simp add: MODIFY_REGISTER_def READ_REGISTER_def split: list.split)

lemma rpm_loop_counts:
  "\<lbrakk>inputs s 0x40000024 = ts @ t # rest; \<forall>x\<in>set ts. x AND NOT (shl 1 31) < 0x1F40; \<not> t AND NOT (shl 1 31) < 0x1F40;
    inputs s 0x48000010 = ns @ later; length ns = length ts\<rbrakk> \<Longrightarrow>
   rpm_loop r (p AND 1) s = Inr (r + of_nat (falling_edges p ns), s\<lparr>inputs := (inputs s)(0x40000024 := rest, 0x48000010 := later)\<rparr>)"
proof (induction ts arbitrary: s ns r p)
  case Nil
  moreover from Nil have "(inputs s)(0x40000024 := rest, 0x48000010 := later) = (inputs s)(0x40000024 := rest)"
    by (intro ext) simp
  ultimately show ?case by (subst rpm_loop.simps) (simp add: read_timer_rpm_def READ_REGISTER_def)
next
  case (Cons x xs)
  then obtain n ns' where ns: "ns = n # ns'" "length ns' = length xs" by (cases ns) auto
  let ?s = "s\<lparr>inputs := (inputs s)(0x40000024 := xs @ t # rest, 0x48000010 := ns' @ later)\<rparr>"
  let ?r = "if n AND 1 < p AND 1 then r + 1 else r"
  have "rpm_loop r (p AND 1) s = rpm_loop ?r (n AND 1) ?s"
    using Cons.prems ns by (subst rpm_loop.simps) (simp add: read_timer_rpm_def READ_REGISTER_def)
  also have "\<dots> = Inr (?r + of_nat (falling_edges n ns'), ?s\<lparr>inputs := (inputs ?s)(0x40000024 := rest, 0x48000010 := later)\<rparr>)"
    by (rule Cons.IH) (use Cons.prems ns in simp_all)
  also have "?s\<lparr>inputs := (inputs ?s)(0x40000024 := rest, 0x48000010 := later)\<rparr> =
    s\<lparr>inputs := (inputs s)(0x40000024 := rest, 0x48000010 := later)\<rparr>"
    by (simp del: fun_upd_apply)
  also have "?r + of_nat (falling_edges n ns') = r + of_nat (falling_edges p ns)" by (simp add: ns below_previous)
  finally show ?case .
qed

text \<open>
  One measurement: the samples of the pin taken while the timer is below 8000 are counted, and the result is
  sixty times the number of falling edges among them, for each of the four engines.
\<close>

theorem do_measurement_counts:
  assumes "inputs s 0x40000024 = ts @ t # rest" "\<forall>x\<in>set ts. x AND NOT (shl 1 31) < 0x1F40" "\<not> t AND NOT (shl 1 31) < 0x1F40"
    and "inputs s 0x48000010 = ns @ later" "length ns = length ts"
  shows "\<exists>s'. do_measurement s = Inr (let r = of_nat (falling_edges 1 ns) * 60 in
      \<lparr>engine_0 = r, engine_1 = r, engine_2 = r, engine_3 = r\<rparr>, s') \<and> mmio s' TIM2_BASE = 0 \<and> mmio s' 0x40000024 = 0"
proof -
  let ?s = "start_rpm s"
  have i: "inputs ?s 0x40000024 = ts @ t # rest" "inputs ?s 0x48000010 = ns @ later"
    using assms by (simp_all add: start_rpm_def inputs_MODIFY)
  have "rpm_loop 0 (1 AND 1) ?s = Inr (0 + of_nat (falling_edges 1 ns), ?s\<lparr>inputs := (inputs ?s)(0x40000024 := rest, 0x48000010 := later)\<rparr>)"
    by (rule rpm_loop_counts [OF i(1) assms(2,3) i(2) assms(5)])
  then show ?thesis
    by (simp add: do_measurement_def Let_def flush_rpm_def stop_rpm_def c_not_def mmio_MODIFY)
qed

text \<open>The conversion is the one of \<open>packages/i2c\<close>.\<close>

theorem num_to_char_rpm_package: "num_to_char_rpm n xs = num_to_char n xs"
proof -
  have "num_to_char_rpm_loop n c xs = num_to_char_loop n c xs" for c
    by (induction n c xs rule: num_to_char_loop.induct)
       (subst num_to_char_rpm_loop.simps, subst num_to_char_loop.simps, auto intro!: bnd_cong)
  then show ?thesis by (simp add: num_to_char_rpm_def num_to_char_def)
qed

text \<open>
  The ramp ends, at its target, after as many steps as the target is above the start (counted modulo
  \<open>2\<^sup>3\<^sup>2\<close>: a target below the start is reached around the end of the number range).
\<close>

theorem regulate_linear_steps:
  "regulate_linear a b = map (\<lambda>i. a + of_nat i + 1) [0..<unat (b - a)]"
proof (induction a b rule: regulate_linear.induct)
  case (1 a b)
  show ?case
  proof (cases "a = b")
    case False
    then have "b - a \<noteq> 0" by simp
    then have u: "unat (b - a) = Suc (unat (b - (a + 1)))"
      by (metis Suc_pred' diff_diff_add unat_gt_0 unat_minus_one)
    have "regulate_linear a b = (a + 1) # map (\<lambda>i. a + 1 + of_nat i + 1) [0..<unat (b - (a + 1))]"
      using False 1 by (subst regulate_linear.simps) simp
    also have "\<dots> = map (\<lambda>i. a + of_nat i + 1) [0..<unat (b - a)]"
      unfolding u upt_conv_Cons [OF zero_less_Suc] map_Suc_upt [symmetric] by (simp add: ac_simps)
    finally show ?thesis .
  qed (subst regulate_linear.simps, simp)
qed

end
