(* ===== verification/Radio_Fields.thy ===== *)
theory Radio_Fields
  imports Machine
begin

text \<open>
  The register views of \<open>packages/lib/include/nrf24l01.h\<close>: \<open>NRF24L01_Registers_Full\<close> overlays each
  register's byte with a structure of bit-fields.  The compiler (arm-none-eabi-gcc, little endian) gives the
  first declared field the least significant bits, and \<open>char\<close> is unsigned.  The same header numbers the
  bits of CONFIG in an enumeration, which is what the driver uses.
\<close>

section \<open>Bit-fields\<close>

text \<open>The fields of a structure of bit-fields in the order of their declaration, each with its width.\<close>

type_synonym layout = "(string \<times> nat) list"

text \<open>The lowest bit and the width of a field, when the first field starts at bit \<open>k\<close>.\<close>

fun field_at :: "layout \<Rightarrow> string \<Rightarrow> nat \<Rightarrow> (nat \<times> nat) option" where
  "field_at [] f k = None"
| "field_at ((g, w) # l) f k = (if f = g then Some (k, w) else field_at l f (k + w))"

text \<open>Reading and assigning a member of the structure that overlays the byte.\<close>

definition get_field :: "layout \<Rightarrow> string \<Rightarrow> u8 \<Rightarrow> u8" where
  "get_field l f b = (case field_at l f 0 of None \<Rightarrow> 0 | Some (k, w) \<Rightarrow> drop_bit k b AND mask w)"

definition set_field :: "layout \<Rightarrow> string \<Rightarrow> u8 \<Rightarrow> u8 \<Rightarrow> u8" where
  "set_field l f v b =
     (case field_at l f 0 of None \<Rightarrow> b
      | Some (k, w) \<Rightarrow> (b AND NOT (push_bit k (mask w))) OR push_bit k (v AND mask w))"

definition width_sum :: "layout \<Rightarrow> nat" where
  "width_sum l = sum_list (map snd l)"

section \<open>The registers\<close>

definition config_fields :: layout where
  "config_fields = [(''reserved1'', 1), (''MASK_RX_DR'', 1), (''MASK_TX_DS'', 1), (''MASK_MAX_RT'', 1), (''EN_CRC'', 1), (''CRCO'', 1), (''PWR_UP'', 1), (''PRIM_RX'', 1)]"

definition en_aa_fields :: layout where
  "en_aa_fields = [(''reserved2'', 2), (''ENAA_P5'', 1), (''ENAA_P4'', 1), (''ENAA_P3'', 1), (''ENAA_P2'', 1), (''ENAA_P1'', 1), (''ENAA_P0'', 1)]"

definition en_rxaddr_fields :: layout where
  "en_rxaddr_fields = [(''reserved3'', 2), (''ERX_P5'', 1), (''ERX_P4'', 1), (''ERX_P3'', 1), (''ERX_P2'', 1), (''ERX_P1'', 1), (''ERX_P0'', 1)]"

definition setup_aw_fields :: layout where
  "setup_aw_fields = [(''reserved4'', 6), (''AW'', 2)]"

definition setup_retr_fields :: layout where
  "setup_retr_fields = [(''ARD'', 4), (''ARC'', 4)]"

definition rf_ch_fields :: layout where
  "rf_ch_fields = [(''reserved5'', 1), (''RF_CH'', 7)]"

definition rf_setup_fields :: layout where
  "rf_setup_fields = [(''CONT_WAVE'', 1), (''RF_PWR'', 2), (''RF_DR_HIGH'', 1), (''PLL_LOCK'', 1), (''RF_DR_LOW'', 1), (''reserved6'', 2)]"

definition status_fields :: layout where
  "status_fields = [(''reserved7'', 1), (''RX_DR'', 1), (''TX_DS'', 1), (''MAX_RT'', 1), (''RX_P_NO'', 3), (''TX_FULL'', 1)]"

definition observe_tx_fields :: layout where
  "observe_tx_fields = [(''PLOS_CNT'', 4), (''ARC_CNT'', 4)]"

definition rpd_fields :: layout where
  "rpd_fields = [(''reserved8'', 6), (''RPD'', 1)]"

definition rx_addr_p2_fields :: layout where
  "rx_addr_p2_fields = [(''RX_ADDR_P2'', 8)]"

definition rx_addr_p3_fields :: layout where
  "rx_addr_p3_fields = [(''RX_ADDR_P3'', 8)]"

definition rx_addr_p4_fields :: layout where
  "rx_addr_p4_fields = [(''RX_ADDR_P4'', 8)]"

definition rx_addr_p5_fields :: layout where
  "rx_addr_p5_fields = [(''RX_ADDR_P5'', 8)]"

definition rx_pw_p0_fields :: layout where
  "rx_pw_p0_fields = [(''reserved9'', 2), (''RX_PW_P0'', 6)]"

definition rx_pw_p1_fields :: layout where
  "rx_pw_p1_fields = [(''reserved10'', 2), (''RX_PW_P1'', 6)]"

definition rx_pw_p2_fields :: layout where
  "rx_pw_p2_fields = [(''reserved11'', 2), (''RX_PW_P2'', 6)]"

definition rx_pw_p3_fields :: layout where
  "rx_pw_p3_fields = [(''reserved12'', 2), (''RX_PW_P3'', 6)]"

definition rx_pw_p4_fields :: layout where
  "rx_pw_p4_fields = [(''reserved13'', 2), (''RX_PW_P4'', 6)]"

definition rx_pw_p5_fields :: layout where
  "rx_pw_p5_fields = [(''reserved14'', 2), (''RX_PW_P5'', 6)]"

definition fifo_status_fields :: layout where
  "fifo_status_fields = [(''reserved15'', 1), (''TX_REUSE'', 1), (''TX_FIFO_FULL'', 1), (''TX_EMPTY'', 1), (''reserved16'', 2), (''RX_FULL'', 1), (''RX_EMPTY'', 1)]"

definition dynpd_fields :: layout where
  "dynpd_fields = [(''reserved17'', 2), (''DPL_P5'', 1), (''DPL_P4'', 1), (''DPL_P3'', 1), (''DPL_P2'', 1), (''DPL_P1'', 1), (''DPL_P0'', 1)]"

definition feature_fields :: layout where
  "feature_fields = [(''reserved18'', 5), (''EN_DPL'', 1), (''EN_ACK_PAY'', 1), (''EN_DYN_ACK'', 1)]"

text \<open>A register is a byte with bit-fields, or an address of five bytes.\<close>

datatype view = Bits layout | Bytes nat

definition NRF24L01_Registers_Full :: "(string \<times> view) list" where
  "NRF24L01_Registers_Full =
     [(''CONFIG'', Bits config_fields),
      (''EN_AA'', Bits en_aa_fields),
      (''EN_RXADDR'', Bits en_rxaddr_fields),
      (''SETUP_AW'', Bits setup_aw_fields),
      (''SETUP_RETR'', Bits setup_retr_fields),
      (''RF_CH'', Bits rf_ch_fields),
      (''RF_SETUP'', Bits rf_setup_fields),
      (''STATUS'', Bits status_fields),
      (''OBSERVE_TX'', Bits observe_tx_fields),
      (''RPD'', Bits rpd_fields),
      (''RX_ADDR_P0'', Bytes 5),
      (''RX_ADDR_P1'', Bytes 5),
      (''RX_ADDR_P2'', Bits rx_addr_p2_fields),
      (''RX_ADDR_P3'', Bits rx_addr_p3_fields),
      (''RX_ADDR_P4'', Bits rx_addr_p4_fields),
      (''RX_ADDR_P5'', Bits rx_addr_p5_fields),
      (''TX_ADDR'', Bytes 5),
      (''RX_PW_P0'', Bits rx_pw_p0_fields),
      (''RX_PW_P1'', Bits rx_pw_p1_fields),
      (''RX_PW_P2'', Bits rx_pw_p2_fields),
      (''RX_PW_P3'', Bits rx_pw_p3_fields),
      (''RX_PW_P4'', Bits rx_pw_p4_fields),
      (''RX_PW_P5'', Bits rx_pw_p5_fields),
      (''FIFO_STATUS'', Bits fifo_status_fields),
      (''DYNPD'', Bits dynpd_fields),
      (''FEATURE'', Bits feature_fields)]"

fun view_size :: "view \<Rightarrow> nat" where
  "view_size (Bits l) = 1" | "view_size (Bytes n) = n"

definition sizeof_Registers_Full :: nat where
  "sizeof_Registers_Full = sum_list (map (view_size \<circ> snd) NRF24L01_Registers_Full)"

text \<open>The bits of CONFIG as the driver numbers them.\<close>

datatype ConfigBit = PRIM_RX | PWR_UP | CRCO | EN_CRC | MASK_MAX_RT | MASK_TX_DS | MASK_RX_DR

fun config_bit :: "ConfigBit \<Rightarrow> nat" where
  "config_bit PRIM_RX = 0" | "config_bit PWR_UP = 1" | "config_bit CRCO = 2" | "config_bit EN_CRC = 3"
| "config_bit MASK_MAX_RT = 4" | "config_bit MASK_TX_DS = 5" | "config_bit MASK_RX_DR = 6"

fun config_name :: "ConfigBit \<Rightarrow> string" where
  "config_name PRIM_RX = ''PRIM_RX''" | "config_name PWR_UP = ''PWR_UP''" | "config_name CRCO = ''CRCO''"
| "config_name EN_CRC = ''EN_CRC''" | "config_name MASK_MAX_RT = ''MASK_MAX_RT''"
| "config_name MASK_TX_DS = ''MASK_TX_DS''" | "config_name MASK_RX_DR = ''MASK_RX_DR''"

section \<open>Members of a structure of bit-fields\<close>

lemma field_at_shift: "field_at l f k = map_option (\<lambda>(a, w). (a + k, w)) (field_at l f 0)"
proof (induction l arbitrary: k)
  case (Cons x l)
  obtain g w where x: "x = (g, w)" by (cases x)
  show ?case using Cons.IH [of "k + w"] Cons.IH [of w] unfolding x
    by (cases "field_at l f 0") (auto simp: add.assoc)
qed simp

lemma field_at_Cons:
  "field_at ((g, w) # l) f 0 = (if f = g then Some (0, w) else map_option (\<lambda>(a, v). (a + w, v)) (field_at l f 0))"
  using field_at_shift [of l f w] by simp

lemma field_at_bound: "field_at l f 0 = Some (k, w) \<Longrightarrow> k + w \<le> width_sum l"
  by (induction l arbitrary: k) (auto simp: field_at_Cons width_sum_def simp del: field_at.simps(2) split: if_splits)

lemma field_at_disjoint:
  "\<lbrakk>field_at l f 0 = Some (j, v); field_at l g 0 = Some (k, w); f \<noteq> g\<rbrakk> \<Longrightarrow> j + v \<le> k \<or> k + w \<le> j"
proof (induction l arbitrary: j k)
  case (Cons x l)
  obtain h u where "x = (h, u)" by (cases x)
  with Cons show ?case
    by (fastforce simp: field_at_Cons simp del: field_at.simps(2) split: if_splits)
qed simp

lemma field_at_covers: "n < width_sum l \<Longrightarrow> distinct (map fst l) \<Longrightarrow>
  \<exists>f k w. f \<in> fst ` set l \<and> field_at l f 0 = Some (k, w) \<and> k \<le> n \<and> n < k + w"
proof (induction l arbitrary: n)
  case (Cons x l)
  obtain h u where x: "x = (h, u)" by (cases x)
  show ?case
  proof (cases "n < u")
    case True
    then show ?thesis unfolding x by (intro exI [of _ h] exI [of _ 0] exI [of _ u]) simp
  next
    case False
    with Cons.prems have "n - u < width_sum l" "distinct (map fst l)" by (auto simp: x width_sum_def)
    from Cons.IH [OF this] obtain f k w where
      f: "f \<in> fst ` set l" "field_at l f 0 = Some (k, w)" "k \<le> n - u" "n - u < k + w" by blast
    have "f \<noteq> h" using f(1) Cons.prems(2) x by auto
    with f False show ?thesis unfolding x
      by (intro exI [of _ f] exI [of _ "k + u"] exI [of _ w])
         (auto simp: field_at_Cons simp del: field_at.simps(2))
  qed
qed (simp add: width_sum_def)

lemma bit_get_field:
  "field_at l f 0 = Some (k, w) \<Longrightarrow> bit (get_field l f b) n \<longleftrightarrow> n < w \<and> bit b (n + k)"
  by (auto simp: get_field_def bit_simps add.commute dest: bit_imp_le_length)

lemma get_bit_field:
  assumes "field_at l f 0 = Some (k, 1)" shows "get_field l f b = (if bit b k then 1 else 0)"
  by (rule bit_word_eqI) (auto simp: bit_get_field [OF assms] bit_1_iff)

lemma bit_set_field:
  assumes "field_at l f 0 = Some (k, w)"
  shows "bit (set_field l f v b) n \<longleftrightarrow> n < 8 \<and> (if k \<le> n \<and> n < k + w then bit v (n - k) else bit b n)"
  using assms by (auto simp: set_field_def bit_simps dest: bit_imp_le_length)

lemma get_set_field:
  assumes "field_at l f 0 = Some (k, w)" "width_sum l \<le> 8"
  shows "get_field l f (set_field l f v b) = v AND mask w"
proof -
  have "k + w \<le> 8" using field_at_bound [OF assms(1)] assms(2) by simp
  then show ?thesis
    by (intro bit_word_eqI) (auto simp: bit_get_field [OF assms(1)] bit_set_field [OF assms(1)] bit_simps)
qed

lemma get_set_field_other:
  assumes "f \<noteq> g" shows "get_field l g (set_field l f v b) = get_field l g b"
proof (cases "field_at l f 0"; cases "field_at l g 0")
  fix p q assume "field_at l f 0 = Some p" "field_at l g 0 = Some q"
  then obtain j u k w where F: "field_at l f 0 = Some (j, u)" and G: "field_at l g 0 = Some (k, w)" by (cases p; cases q) simp
  note d = field_at_disjoint [OF F G assms]
  show ?thesis
    by (rule bit_word_eqI) (use d in \<open>auto simp: bit_get_field [OF G] bit_set_field [OF F] dest: bit_imp_le_length\<close>)
qed (simp_all add: get_field_def set_field_def)

lemma fields_determine:
  assumes l: "width_sum l = 8" "distinct (map fst l)" and e: "\<forall>f \<in> fst ` set l. get_field l f a = get_field l f b"
  shows "a = b"
proof (rule bit_word_eqI)
  fix n assume "n < LENGTH(8)"
  then have "n < width_sum l" using l by simp
  from field_at_covers [OF this l(2)] obtain f k w where
    f: "f \<in> fst ` set l" "field_at l f 0 = Some (k, w)" "k \<le> n" "n < k + w" by blast
  have "get_field l f a = get_field l f b" using e f(1) by blast
  then have "bit (get_field l f a) (n - k) = bit (get_field l f b) (n - k)" by simp
  then show "bit a n = bit b n" using f(3,4) unfolding bit_get_field [OF f(2)] by auto
qed

lemmas field_defs = config_fields_def en_aa_fields_def en_rxaddr_fields_def setup_aw_fields_def setup_retr_fields_def rf_ch_fields_def rf_setup_fields_def status_fields_def observe_tx_fields_def rpd_fields_def rx_addr_p2_fields_def rx_addr_p3_fields_def rx_addr_p4_fields_def rx_addr_p5_fields_def rx_pw_p0_fields_def rx_pw_p1_fields_def rx_pw_p2_fields_def rx_pw_p3_fields_def rx_pw_p4_fields_def rx_pw_p5_fields_def fifo_status_fields_def dynpd_fields_def feature_fields_def

lemma Registers_Full_layouts:
  assumes "(r, Bits l) \<in> set NRF24L01_Registers_Full"
  shows "width_sum l \<le> 8" "distinct (map fst l)" "r \<noteq> ''RPD'' \<Longrightarrow> width_sum l = 8"
proof -
  have "list_all (\<lambda>(r, v). case v of Bytes n \<Rightarrow> True
      | Bits l \<Rightarrow> width_sum l \<le> 8 \<and> distinct (map fst l) \<and> (r \<noteq> ''RPD'' \<longrightarrow> width_sum l = 8)) NRF24L01_Registers_Full"
    by (simp add: NRF24L01_Registers_Full_def field_defs width_sum_def)
  with assms show "width_sum l \<le> 8" "distinct (map fst l)" "r \<noteq> ''RPD'' \<Longrightarrow> width_sum l = 8"
    by (auto simp: list_all_iff)
qed

section \<open>Properties\<close>

text \<open>
  The members of a register's view: an assigned member reads back as its low bits, every other member
  keeps its value, and in every register but RPD, whose fields leave one bit unnamed, the members
  together are the byte.
\<close>

theorem register_members_roundtrip:
  assumes "(r, Bits l) \<in> set NRF24L01_Registers_Full" and "field_at l f 0 = Some (k, w)"
  shows "get_field l f (set_field l f v b) = v AND mask w \<and>
    (\<forall>g. g \<noteq> f \<longrightarrow> get_field l g (set_field l f v b) = get_field l g b) \<and>
    (r \<noteq> ''RPD'' \<longrightarrow> (\<forall>a. (\<forall>g \<in> fst ` set l. get_field l g a = get_field l g b) \<longleftrightarrow> a = b))"
proof (intro conjI)
  note L = Registers_Full_layouts [OF assms(1)]
  show "get_field l f (set_field l f v b) = v AND mask w" by (rule get_set_field [OF assms(2) L(1)])
  show "\<forall>g. g \<noteq> f \<longrightarrow> get_field l g (set_field l f v b) = get_field l g b"
    using get_set_field_other by metis
  show "r \<noteq> ''RPD'' \<longrightarrow> (\<forall>a. (\<forall>g \<in> fst ` set l. get_field l g a = get_field l g b) \<longleftrightarrow> a = b)"
    using fields_determine [OF L(3) L(2)] by blast
qed

theorem register_members_roundtrip_witness:
  "get_field config_fields ''PWR_UP'' (set_field config_fields ''PWR_UP'' 3 0x81) = 1 \<and>
   get_field config_fields ''PRIM_RX'' (set_field config_fields ''PWR_UP'' 3 0x81) = 1"
proof -
  have "(''CONFIG'', Bits config_fields) \<in> set NRF24L01_Registers_Full" by (simp add: NRF24L01_Registers_Full_def)
  moreover have "field_at config_fields ''PWR_UP'' 0 = Some (6, 1)" by (simp add: config_fields_def)
  ultimately have "get_field config_fields ''PWR_UP'' (set_field config_fields ''PWR_UP'' 3 0x81) = 3 AND mask 1"
    "get_field config_fields ''PRIM_RX'' (set_field config_fields ''PWR_UP'' 3 0x81) = get_field config_fields ''PRIM_RX'' 0x81"
    using register_members_roundtrip [of "''CONFIG''" config_fields "''PWR_UP''" 6 1 3 "0x81"] by auto
  then show ?thesis by (simp add: get_field_def config_fields_def)
qed

text \<open>
  The view of CONFIG is the mirror image of the numbering the driver uses: the member called like bit
  \<open>n\<close> is bit \<open>7 - n\<close> of the byte, so that the byte with only the driver's PRIM_RX set reads as
  \<open>reserved1\<close>.
\<close>

theorem config_view_mirrored:
  "get_field config_fields (config_name c) b = (if bit b (7 - config_bit c) then 1 else 0)"
  by (rule get_bit_field, cases c) (simp_all add: config_fields_def)

end
