(* ===== verification/Radio_Link.thy ===== *)
theory Radio_Link
  imports Radio_Apps
begin

text \<open>
  A packet over the radio link, from the transmitter's buffer to the receiver's: the transmission
  with repeats always returns, the bytes it puts on the bus, and what the receiver makes of them.
\<close>

section \<open>Total operations\<close>

text \<open>\<open>returns m P\<close>: the operation ends normally with a result of which \<open>P\<close> holds.\<close>

definition returns :: "'a res \<Rightarrow> ('a \<Rightarrow> bool) \<Rightarrow> bool" where
  "returns m P \<longleftrightarrow> (\<exists>x. m = Inr x \<and> P x)"

lemma returns_Inr [simp]: "returns (Inr x) P \<longleftrightarrow> P x"
  by (simp add: returns_def)

lemma returns_bnd: "returns m P \<Longrightarrow> (\<And>x. P x \<Longrightarrow> returns (f x) Q) \<Longrightarrow> returns (bnd m f) Q"
  by (auto simp: returns_def)

lemma returns_mono: "returns m P \<Longrightarrow> (\<And>x. P x \<Longrightarrow> Q x) \<Longrightarrow> returns m Q"
  by (auto simp: returns_def)

lemma returns_conj: "returns m P \<Longrightarrow> returns m Q \<Longrightarrow> returns m (\<lambda>x. P x \<and> Q x)"
  by (auto simp: returns_def)

section \<open>The radio keeps answering\<close>

text \<open>The counter of the timer behind \<open>read_global_timer\<close>.\<close>

abbreviation (input) CNT :: addr where "CNT \<equiv> 0x40000024"

text \<open>
  The state in which the driver's operations return: the serial unit idle, the receive buffer
  there, the enable pin initialised, the function that reads the time installed.
\<close>

definition radio_up :: "radio \<Rightarrow> bool" where
  "radio_up st \<longleftrightarrow> (case st of (g, s) \<Rightarrow>
     spi_ready s \<and> rx_buffer g \<noteq> [] \<and> gpio_regs (gpio_pa5_ce g) = 0x40020000 \<and>
     osCoreFunctions g \<noteq> [] \<and> osCoreFunctions g ! 0 \<noteq> NULL \<and> inputs s CNT = [])"

text \<open>
  What an access to the radio leaves: everything but the receive buffer, and the time.  The bytes
  it sends are appended to those sent before.
\<close>

definition radio_step :: "radio \<Rightarrow> radio \<Rightarrow> bool" where
  "radio_step st st' \<longleftrightarrow> radio_up st' \<and> (case (st, st') of ((g, s), (g', s')) \<Rightarrow>
     (\<exists>b. g' = g\<lparr>rx_buffer := b\<rparr>) \<and> mmio s' CNT = mmio s CNT \<and> (\<exists>w. spi_sent s' = spi_sent s @ w))"

lemma radio_step_refl: "radio_up st \<Longrightarrow> radio_step st st"
  by (cases st) (auto simp: radio_step_def intro: exI [of _ "rx_buffer (fst st)"])

lemma radio_step_trans: "radio_step st st' \<Longrightarrow> radio_step st' st'' \<Longrightarrow> radio_step st st''"
  by (cases st; cases st'; cases st'') (force simp: radio_step_def)

lemma radio_step_up: "radio_step st st' \<Longrightarrow> radio_up st'"
  by (simp add: radio_step_def)

lemma returns_step:
  assumes "returns m (\<lambda>x. radio_step st (snd x))" "\<And>x st'. radio_step st st' \<Longrightarrow> returns (f (x, st')) (\<lambda>y. radio_step st' (snd y))"
  shows "returns (bnd m f) (\<lambda>y. radio_step st (snd y))"
  using assms by (force simp: returns_def intro: radio_step_trans)

lemma spi_read_loop_total:
  assumes "spi_ready s" "t + k \<le> length data" "t + k \<le> length buf + 1"
  shows "returns (spi_read_loop k t data buf s) (\<lambda>(buf', s'). spi_ready s' \<and>
     (\<forall>a. a \<noteq> spi ''dr'' \<longrightarrow> inputs s' a = inputs s a \<and> mmio s' a = mmio s a))"
  using assms
proof (induction k arbitrary: t buf s)
  case (Suc k)
  let ?s1 = "WRITE_REGISTER (spi ''dr'') (ucast (data ! t)) s"
  obtain v s2 where r: "READ_REGISTER (spi ''dr'') ?s1 = (v, s2)" by fastforce
  then have s2: "spi_ready s2" "\<forall>a. a \<noteq> spi ''dr'' \<longrightarrow> inputs s2 a = inputs s a \<and> mmio s2 a = mmio s a"
    using Suc.prems(1) by (auto simp: READ_REGISTER_def spi_ready_def split: list.splits)
  have ready: "spi_ready ?s1" using Suc.prems(1) by simp
  define b where "b = (if t \<noteq> 0 then buf[t - 1 := ucast v] else buf)"
  have w: "(if t \<noteq> 0 then wr buf (int t - 1) (ucast v) else Inr buf) = Inr b"
    using Suc.prems(3) by (auto simp: b_def nat_diff_distrib)
  have "length b = length buf" by (simp add: b_def)
  then have "t + 1 + k \<le> length data" "t + 1 + k \<le> length b + 1" using Suc.prems by simp_all
  from Suc.IH [OF s2(1) this] show ?case
    using Suc.prems(2) w s2(2) unfolding spi_read_loop.simps
    by (simp add: poll_spi_ready [OF ready] r Let_def del: spi_addrs)
qed simp

lemma get_nrf_register_total:
  assumes "radio_up (g, s)"
  shows "returns (get_nrf_register r (g, s)) (\<lambda>(v, st'). radio_step (g, s) st')"
proof -
  obtain b bs where b: "rx_buffer g = b # bs" using assms by (cases "rx_buffer g") (auto simp: radio_up_def)
  have ready: "spi_ready (MODIFY_REGISTER (spi ''cr1'') (\<lambda>v. v OR shl 1 SPE) s)"
    using assms by (simp add: radio_up_def)
  from transfer_buffer [of 1 ReadRegister "rx_buffer g" "reg_no r"] b obtain tx where
    f: "fill_tx (min (unat (1 :: u32)) PackageBufferSize) 0 ReadRegister (rx_buffer g)
      ((replicate PackageBufferSize 0)[0 := configure_package_type (reg_no r) ReadRegister]) = Inr tx"
    and l: "1 < length tx" by auto
  from spi_read_loop_total [OF ready, of 0 "Suc (unat (1 :: u32))" tx "rx_buffer g"] l b obtain buf s1 where
    e: "spi_read_loop (Suc (unat (1 :: u32))) 0 tx (rx_buffer g) (MODIFY_REGISTER (spi ''cr1'') (\<lambda>v. v OR shl 1 SPE) s) = Inr (buf, s1)"
    and r1: "spi_ready s1" and k: "\<forall>a. a \<noteq> spi ''dr'' \<longrightarrow>
      inputs s1 a = inputs (MODIFY_REGISTER (spi ''cr1'') (\<lambda>v. v OR shl 1 SPE) s) a \<and>
      mmio s1 a = mmio (MODIFY_REGISTER (spi ''cr1'') (\<lambda>v. v OR shl 1 SPE) s) a"
    by (auto simp: returns_def)
  let ?s' = "MODIFY_REGISTER (spi ''cr1'') (\<lambda>v. v AND NOT (shl 1 SPE)) s1"
  from spi_read_loop_sent [OF e] b have lb: "buf \<noteq> []" and sn: "\<exists>w. spi_sent ?s' = spi_sent s @ w" by auto
  have "transfer (reg_no r) 1 ReadRegister (rx_buffer g) s = Inr (buf, ?s')"
    unfolding transfer_def Let_def f bnd_simps spi_read_def TransferType.case e prod.case by (rule refl)
  moreover have "radio_step (g, s) (g\<lparr>rx_buffer := buf\<rparr>, ?s')"
    using assms lb sn r1 k by (auto simp: radio_step_def radio_up_def)
  ultimately show ?thesis using lb by (auto simp: get_nrf_register_def)
qed

lemma spi_write_loop_frame:
  "spi_write_loop k t data s = Inr s' \<Longrightarrow> spi_ready s \<Longrightarrow>
   inputs s' = inputs s \<and> (\<forall>a. a \<noteq> spi ''dr'' \<longrightarrow> mmio s' a = mmio s a)"
proof (induction k arbitrary: t s)
  case (Suc k)
  from Suc.prems(1) obtain b s1 where b: "rd data (int t) = Inr b"
    and p: "poll (spi ''sr'') (\<lambda>v. v AND shl 1 BSY = 0) (WRITE_REGISTER (spi ''dr'') (ucast b) s) = Inr s1"
    and l: "spi_write_loop k (t + 1) data s1 = Inr s'"
    unfolding spi_write_loop.simps by (elim bnd_InrE) (rule that)
  have ready: "spi_ready (WRITE_REGISTER (spi ''dr'') (ucast b) s)" using Suc.prems(2) by simp
  then have "s1 = WRITE_REGISTER (spi ''dr'') (ucast b) s" using p poll_spi_ready [OF ready] by simp
  then show ?case using Suc.IH [OF l] ready by simp
qed simp

lemma transfer_write_frame:
  assumes "spi_ready s" "transfer t len tt buffer s = Inr (b, s')" "tt \<noteq> ReadRegister" "tt \<noteq> RRxPayload"
  shows "inputs s' CNT = inputs s CNT \<and> mmio s' CNT = mmio s CNT"
proof -
  let ?s0 = "MODIFY_REGISTER (spi ''cr1'') (\<lambda>v. v OR shl 1 SPE) s"
  have "\<exists>tx. spi_write tx len s = Inr s'"
    using assms(2-4) by (cases tt) (auto simp: transfer_def Let_def bnd_eq_Inr)
  then obtain tx s1 where w: "spi_write_loop (Suc (unat len)) 0 tx ?s0 = Inr s1"
    and e: "s' = MODIFY_REGISTER (spi ''cr1'') (\<lambda>v. v AND NOT (shl 1 SPE)) s1"
    by (auto simp: spi_write_def bnd_eq_Inr simp del: spi_write_loop.simps)
  have "spi_ready ?s0" using assms(1) by simp
  from spi_write_loop_frame [OF w this] show ?thesis unfolding e by (simp add: inputs_MODIFY)
qed

lemma nrf_write_total:
  assumes "radio_up (g, s)" "unat len \<le> 32" "unat len \<le> length payload" "tt \<noteq> ReadRegister" "tt \<noteq> RRxPayload"
  shows "returns (nrf_write t len tt payload (g, s)) (\<lambda>st'. radio_step (g, s) st' \<and>
     spi_sent (snd st') = spi_sent s @ map ucast (configure_package_type t tt # take (unat len) payload))"
proof -
  have r: "spi_ready s" using assms(1) by (simp add: radio_up_def)
  from transfer_write_ok [OF r assms(2-5), of t] obtain s' where
    t: "transfer t len tt payload s = Inr (payload, s')" and r': "spi_ready s'"
    and sn: "spi_sent s' = spi_sent s @ map ucast (configure_package_type t tt # take (unat len) payload)"
    by blast
  from transfer_write_frame [OF r t assms(4,5)] have "radio_step (g, s) (g, s')"
    using assms(1) r' sn by (auto simp: radio_step_def radio_up_def intro: exI [of _ "rx_buffer g"])
  then show ?thesis using sn by (simp add: nrf_write_def t)
qed

lemma bit_update_total:
  assumes "radio_up st"
  shows "returns (bnd (get_nrf_register r st) (\<lambda>(v, st1). nrf_write (reg_no r) 1 WriteRegister [f v] st1)) (radio_step st)"
proof (cases st)
  case (Pair g s)
  show ?thesis unfolding Pair
  proof (rule returns_bnd [OF get_nrf_register_total])
    show "radio_up (g, s)" using assms Pair by simp
    fix x :: "u8 \<times> radio" assume x: "case x of (v, st') \<Rightarrow> radio_step (g, s) st'"
    obtain v g1 s1 where xe: "x = (v, g1, s1)" by (cases x) auto
    have st: "radio_step (g, s) (g1, s1)" using x xe by simp
    from nrf_write_total [OF radio_step_up [OF st], of 1 "[f v]" WriteRegister "reg_no r"]
    show "returns (case x of (v, st1) \<Rightarrow> nrf_write (reg_no r) 1 WriteRegister [f v] st1) (radio_step (g, s))"
      unfolding xe by (auto elim!: returns_mono intro: radio_step_trans [OF st])
  qed
qed

lemma set_bit_total: "radio_up st \<Longrightarrow> returns (set_bit_nrf_register r n st) (radio_step st)"
  unfolding set_bit_nrf_register_def by (rule bit_update_total)

lemma clear_bit_total: "radio_up st \<Longrightarrow> returns (clear_bit_nrf_register r n st) (radio_step st)"
  unfolding clear_bit_nrf_register_def by (rule bit_update_total)

lemma returns_then:
  assumes "returns m (radio_step st)" "\<And>st'. radio_up st' \<Longrightarrow> returns (f st') (radio_step st')"
  shows "returns (bnd m f) (radio_step st)"
  using assms by (force simp: returns_def intro: radio_step_trans dest: radio_step_up)

lemma pin_step:
  assumes "radio_up (g, s)" "gpio_regs t \<in> {0x40020000, 0x40020400}"
  shows "radio_step (g, s) (g, set_pin_on t s)" "radio_step (g, s) (g, set_pin_off t s)"
  using assms by (auto simp: radio_step_def radio_up_def set_pin_on_def set_pin_off_def inputs_MODIFY
      intro: exI [of _ "rx_buffer g"])

lemma ce_step: "radio_up st \<Longrightarrow> radio_step st (set_ce st)" "radio_up st \<Longrightarrow> radio_step st (unset_ce st)"
  by (cases st; auto simp: set_ce_def unset_ce_def radio_up_def intro!: pin_step; simp add: radio_up_def)+

lemma disable_rx_total: "radio_up st \<Longrightarrow> returns (disable_rx st) (radio_step st)"
  unfolding disable_rx_def nrf_power_off_def nrf_power_on_def stop_listening_def
  by (intro returns_then set_bit_total clear_bit_total) (simp_all add: ce_step)

lemma enable_rx_total: "radio_up st \<Longrightarrow> returns (enable_rx_and_listen st) (radio_step st)"
  unfolding enable_rx_and_listen_def nrf_power_off_def nrf_power_on_def start_listening_def
  by (intro returns_then set_bit_total clear_bit_total) (simp_all add: ce_step)

lemma tx_availability_total:
  assumes "radio_up st"
  shows "returns (check_tx_availability st) (\<lambda>(ok, st'). radio_step st st')"
proof -
  have get: "returns (get_nrf_register r st1) (\<lambda>x. radio_step st1 (snd x))" if "radio_up st1" for r and st1 :: radio
    using get_nrf_register_total [of "fst st1" "snd st1" r] that by (simp add: case_prod_unfold)
  show ?thesis unfolding check_tx_availability_def case_prod_unfold
  proof (rule returns_step [OF get [OF assms]])
    fix fifo st1 assume 1: "radio_step st st1"
    note u1 = radio_step_up [OF 1]
    show "returns (if fst (fifo, st1) AND push_bit 4 1 \<noteq> (0::u8) then Inr (False, snd (fifo, st1))
       else bnd (get_nrf_register STATUS (snd (fifo, st1))) (\<lambda>p.
         bnd (if fst p AND push_bit 4 1 \<noteq> 0 then clear_ir_maxrt_flag (snd p) else Inr (snd p)) (\<lambda>st3. Inr (True, st3))))
       (\<lambda>y. radio_step st1 (snd y))"
    proof (cases "fifo AND push_bit 4 1 = (0::u8)")
      case True
      have "returns (bnd (get_nrf_register STATUS st1) (\<lambda>p.
         bnd (if fst p AND push_bit 4 1 \<noteq> 0 then clear_ir_maxrt_flag (snd p) else Inr (snd p)) (\<lambda>st3. Inr (True, st3))))
         (\<lambda>y. radio_step st1 (snd y))"
      proof (rule returns_step [OF get [OF u1]])
        fix w st2 assume 2: "radio_step st1 st2"
        note u2 = radio_step_up [OF 2]
        show "returns (bnd (if fst (w, st2) AND push_bit 4 1 \<noteq> (0::u8) then clear_ir_maxrt_flag (snd (w, st2)) else Inr (snd (w, st2)))
           (\<lambda>st3. Inr (True, st3))) (\<lambda>y. radio_step st2 (snd y))"
          by (rule returns_bnd [where P = "radio_step st2"])
             (use u2 in \<open>auto simp: clear_ir_maxrt_flag_def set_bit_total radio_step_refl\<close>)
      qed
      then show ?thesis using True by simp
    qed (use u1 in \<open>simp add: radio_step_refl\<close>)
  qed
qed

section \<open>The transmission\<close>

text \<open>
  The call through \<open>osCoreFunctions\<close>: the function installed is \<open>read_global_timer\<close>; by the
  next call the counter is one further, and the interrupt of the radio may have set the byte
  \<open>receivedAckPackage\<close> (at the times \<open>acked\<close> names).
\<close>

definition timer_call :: "(u32 \<Rightarrow> bool) \<Rightarrow> radio_call" where
  "timer_call acked f st =
     (case st of (g, s) \<Rightarrow>
        let (v, s1) = read_global_timer s in
        Inr (v, (if acked v then g\<lparr>receivedAckPackage := 1\<rparr> else g), s1\<lparr>mmio := (mmio s1)(CNT := v + 1)\<rparr>))"

definition radio_run :: "radio \<Rightarrow> radio \<Rightarrow> bool" where
  "radio_run st st' \<longleftrightarrow> radio_up st' \<and> (case (st, st') of ((g, s), (g', s')) \<Rightarrow>
     tx_observe g' = tx_observe g \<and> timeToSettle g' = timeToSettle g \<and> (\<exists>w. spi_sent s' = spi_sent s @ w))"

lemma radio_run_refl: "radio_up st \<Longrightarrow> radio_run st st"
  by (cases st) (auto simp: radio_run_def)

lemma radio_run_trans: "radio_run st st' \<Longrightarrow> radio_run st' st'' \<Longrightarrow> radio_run st st''"
  by (cases st; cases st'; cases st'') (auto simp: radio_run_def)

lemma radio_step_run: "radio_step st st' \<Longrightarrow> radio_run st st'"
  by (cases st; cases st') (auto simp: radio_run_def radio_step_def)

lemma radio_run_up: "radio_run st st' \<Longrightarrow> radio_up st'"
  by (simp add: radio_run_def)

lemma timer_call_total:
  assumes "radio_up (g, s)"
  shows "returns (read_timer_fn (timer_call acked) (g, s)) (\<lambda>(v, st'). v = mmio s CNT \<and>
     mmio (snd st') CNT = v + 1 \<and> radio_run (g, s) st')"
proof -
  have r: "read_global_timer s = (mmio s CNT, s)"
    using assms by (simp add: radio_up_def read_global_timer_def timer_read_counter_def)
  have "spi_ready (s\<lparr>mmio := (mmio s)(CNT := v)\<rparr>)" for v
    using assms by (simp add: radio_up_def spi_ready_def)
  moreover have "spi_sent (s\<lparr>mmio := m\<rparr>) = spi_sent s" for m by (simp add: spi_sent_def)
  moreover have "rd (osCoreFunctions g) 0 = Inr (osCoreFunctions g ! 0)" using assms by (simp add: radio_up_def)
  ultimately show ?thesis
    using assms by (simp add: read_timer_fn_def timer_call_def r) (auto simp: radio_run_def radio_up_def)
qed

lemma word_nat_bound: "unat (d :: u32) < 2 ^ 32"
  using unsigned_less [of d] by simp

lemma wait_total:
  assumes "radio_up st" "mmio (snd st) CNT = start + of_nat k" "0 < n" "unat d < n + k" "k \<le> max 1 (unat d)"
    and "\<And>st'. radio_run st st' \<Longrightarrow> delay (fst st') = d"
  shows "returns (wait_elapsed n (timer_call acked) start delay st) (radio_run st)"
  using assms
proof (induction n arbitrary: k st)
  case (Suc n)
  obtain g s where st: "st = (g, s)" by (cases st)
  from timer_call_total [of g s acked] Suc.prems(1,2) st obtain st' where
    c: "read_timer_fn (timer_call acked) st = Inr (start + of_nat k, st')"
    and m: "mmio (snd st') CNT = start + of_nat (Suc k)" and r: "radio_run st st'"
    by (auto simp: returns_def)
  have d: "delay (fst st') = d" using Suc.prems(6) r .
  show ?case
  proof (cases "(of_nat k :: u32) < d")
    case True
    have "k < 2 ^ 32"
      using Suc.prems(5) word_nat_bound [of d] by (simp add: max_def split: if_splits)
    then have "k < unat d" using True by (simp add: word_less_nat_alt unat_of_nat take_bit_eq_mod)
    then have "returns (wait_elapsed n (timer_call acked) start delay st') (radio_run st')"
      using Suc.prems(4) by (intro Suc.IH [OF radio_run_up [OF r] m])
        (auto intro: Suc.prems(6) radio_run_trans [OF r])
    then have "returns (wait_elapsed n (timer_call acked) start delay st') (radio_run st)"
      by (rule returns_mono) (rule radio_run_trans [OF r])
    then show ?thesis using c d True by (simp add: case_prod_beta)
  next
    case False
    then show ?thesis using c d r by (simp add: case_prod_beta)
  qed
qed simp

text \<open>The transmission of one loaded packet.\<close>

lemma single_package_total:
  assumes "radio_up st" "unat (timeToSettle (fst st)) < n"
  shows "returns (transmit_single_package n (timer_call acked) True st) (\<lambda>(ok, st'). radio_run st st')"
  unfolding transmit_single_package_def
proof (rule returns_bnd [OF tx_availability_total [OF assms(1)]])
  fix x :: "bool \<times> radio" assume x: "case x of (ok, st') \<Rightarrow> radio_step st st'"
  obtain ok g1 s1 where xe: "x = (ok, g1, s1)" by (cases x) auto
  have 1: "radio_run st (g1, s1)" using x xe radio_step_run by simp
  note u1 = radio_run_up [OF 1]
  have "returns (bnd (read_timer_fn (timer_call acked) (g1, s1)) (\<lambda>(start, st2).
       bnd (wait_elapsed n (timer_call acked) start timeToSettle (set_ce st2)) (\<lambda>st4. Inr (True, unset_ce st4))))
     (\<lambda>(ok, st'). radio_run st st')"
  proof (rule returns_bnd [OF timer_call_total [OF u1]])
    fix y :: "u32 \<times> radio" assume y: "case y of (v, st') \<Rightarrow> v = mmio s1 CNT \<and> mmio (snd st') CNT = v + 1 \<and> radio_run (g1, s1) st'"
    obtain start st2 where ye: "y = (start, st2)" by (cases y)
    have m: "mmio (snd st2) CNT = start + 1" and 2: "radio_run (g1, s1) st2" using y ye by simp_all
    have 3: "radio_step st2 (set_ce st2)" by (rule ce_step) (rule radio_run_up [OF 2])
    have m3: "mmio (snd (set_ce st2)) CNT = start + of_nat 1"
      using 3 m by (cases st2) (auto simp: radio_step_def set_ce_def)
    have r3: "radio_run st (set_ce st2)"
      using radio_run_trans [OF radio_run_trans [OF 1 2] radio_step_run [OF 3]] .
    have d: "timeToSettle (fst st') = timeToSettle (fst st)" if "radio_run (set_ce st2) st'" for st'
      using radio_run_trans [OF r3 that] by (cases st; cases st') (simp add: radio_run_def)
    have "returns (bnd (wait_elapsed n (timer_call acked) start timeToSettle (set_ce st2)) (\<lambda>st4. Inr (True, unset_ce st4)))
       (\<lambda>(ok, st'). radio_run st st')"
    proof (rule returns_bnd)
      show "returns (wait_elapsed n (timer_call acked) start timeToSettle (set_ce st2)) (radio_run (set_ce st2))"
        using assms(2) by (intro wait_total [OF radio_run_up [OF r3] m3, where d = "timeToSettle (fst st)"] d) auto
      fix st4 assume 4: "radio_run (set_ce st2) st4"
      note 5 = radio_step_run [OF ce_step(2) [OF radio_run_up [OF 4]]]
      show "returns (Inr (True, unset_ce st4)) (\<lambda>(ok, st'). radio_run st st')"
        using radio_run_trans [OF radio_run_trans [OF r3 4] 5] by simp
    qed
    then show "returns (case y of (start, st2) \<Rightarrow>
        bnd (wait_elapsed n (timer_call acked) start timeToSettle (set_ce st2)) (\<lambda>st4. Inr (True, unset_ce st4)))
       (\<lambda>(ok, st'). radio_run st st')"
      unfolding ye by simp
  qed
  then show "returns (case x of (ok, st1) \<Rightarrow>
      if \<not> ok then Inr (False, st1)
      else bnd (read_timer_fn (timer_call acked) st1) (\<lambda>(start, st2).
        let st3 = set_ce st2 in
        bnd (if True then wait_elapsed n (timer_call acked) start timeToSettle st3 else Inr st3) (\<lambda>st4.
        Inr (True, unset_ce st4)))) (\<lambda>(ok, st'). radio_run st st')"
    unfolding xe Let_def using 1 by simp
qed

text \<open>
  The parts of a round after the packet is loaded: the end of it, the wait for the
  acknowledgement, and the whole.
\<close>

definition end_round :: "radio \<Rightarrow> bool \<times> radio" where
  "end_round st =
     (case st of (g, s) \<Rightarrow>
        let ob = tx_observe g in
        if receivedAckPackage g = 0
        then (False, g\<lparr>tx_observe := ob\<lparr>retransmitCount := retransmitCount ob + 1\<rparr>\<rparr>, s)
        else (True, g\<lparr>tx_observe := ob\<lparr>timeUntilAckArrived := timeUntilAckArrived ob - tStart g,
                                      totalPackages := totalPackages ob + 1,
                                      bytesSend := bytesSend ob + 32\<rparr>\<rparr>, s))"

definition await_ack :: "nat \<Rightarrow> radio_call \<Rightarrow> TxConfig \<Rightarrow> GpioObject \<Rightarrow> radio \<Rightarrow> radio res" where
  "await_ack n call cfg b7 st =
     bnd (read_timer_fn call (fst st, set_pin_on b7 (snd st))) (\<lambda>(start, st4).
     bnd (wait_elapsed n call start (\<lambda>g. autoRetransmitDelay cfg) ((fst st4)\<lparr>tStart := start\<rparr>, snd st4)) (\<lambda>st6.
     disable_rx (fst st6, set_pin_off b7 (snd st6))))"

lemma autoack_round_split:
  "autoack_round n call cfg b7 outBuffer st =
     bnd (load_tx_buffer 31 outBuffer st) (\<lambda>x. bnd (transmit_single_package n call True (snd x)) (\<lambda>y.
     bnd (enable_rx_and_listen (snd y)) (\<lambda>st3. bnd (await_ack n call cfg b7 st3) (\<lambda>st7. Inr (end_round st7)))))"
  unfolding autoack_round_def await_ack_def end_round_def bnd_assoc
  by (intro arg_cong2 [where f = bnd] refl ext) (auto simp: Let_def split_beta bnd_assoc if_distrib [of Inr] cong: bnd_cong)

text \<open>What a round does to the counters.\<close>

definition round_result :: "radio \<Rightarrow> bool \<Rightarrow> radio \<Rightarrow> bool" where
  "round_result st acked st' \<longleftrightarrow> radio_up st' \<and> (case (st, st') of ((g, s), (g', s')) \<Rightarrow>
     (let ob = tx_observe g; ob' = tx_observe g' in
      timeToSettle g' = timeToSettle g \<and> totalLostPackages ob' = totalLostPackages ob \<and>
      totalRetransmits ob' = totalRetransmits ob \<and>
      retransmitCount ob' = retransmitCount ob + (if acked then 0 else 1) \<and>
      totalPackages ob' = totalPackages ob + (if acked then 1 else 0)) \<and>
     (\<exists>w. spi_sent s' = spi_sent s @ w))"

lemma round_result_run: "radio_run st st' \<Longrightarrow> round_result st' acked st'' \<Longrightarrow> round_result st acked st''"
  by (cases st; cases st'; cases st'') (auto simp: round_result_def radio_run_def Let_def)

lemma end_round_result: "radio_run st st' \<Longrightarrow> round_result st (fst (end_round st')) (snd (end_round st'))"
  by (cases st; cases st') (auto simp: radio_run_def round_result_def end_round_def radio_up_def Let_def)

lemma await_ack_total:
  assumes "radio_up st" "unat (autoRetransmitDelay cfg) < n" "gpio_regs b7 = 0x40020400"
  shows "returns (await_ack n (timer_call acked) cfg b7 st) (radio_run st)"
proof -
  obtain g s where st: "st = (g, s)" by (cases st)
  have b: "gpio_regs b7 \<in> {0x40020000, 0x40020400}" using assms(3) by simp
  have 1: "radio_run st (g, set_pin_on b7 s)"
    using radio_step_run pin_step(1) [OF _ b] assms(1) st by simp
  show ?thesis unfolding await_ack_def st fst_conv snd_conv
  proof (rule returns_bnd [OF timer_call_total [OF radio_run_up [OF 1]]])
    fix y :: "u32 \<times> radio" assume y: "case y of (v, st') \<Rightarrow> v = mmio (set_pin_on b7 s) CNT \<and>
      mmio (snd st') CNT = v + 1 \<and> radio_run (g, set_pin_on b7 s) st'"
    obtain start g4 s4 where ye: "y = (start, g4, s4)" by (cases y) auto
    let ?st5 = "(g4\<lparr>tStart := start\<rparr>, s4)"
    have m: "mmio (snd ?st5) CNT = start + of_nat 1" using y ye by simp
    have "radio_run st (g4, s4)" using y ye radio_run_trans [OF 1] by simp
    then have 2: "radio_run st ?st5" using st by (auto simp: radio_run_def radio_up_def)
    have w: "returns (wait_elapsed n (timer_call acked) start (\<lambda>g. autoRetransmitDelay cfg) ?st5) (radio_run ?st5)"
      using assms(2) by (intro wait_total [OF radio_run_up [OF 2] m, where d = "autoRetransmitDelay cfg"]) auto
    have "returns (bnd (wait_elapsed n (timer_call acked) start (\<lambda>g. autoRetransmitDelay cfg) ?st5) (\<lambda>st6.
       disable_rx (fst st6, set_pin_off b7 (snd st6)))) (radio_run st)"
    proof (rule returns_bnd [OF w])
      fix st6 assume 6: "radio_run ?st5 st6"
      have up: "radio_up (fst st6, snd st6)" using radio_run_up [OF 6] by simp
      have 3: "radio_run st (fst st6, set_pin_off b7 (snd st6))"
        using radio_run_trans [OF radio_run_trans [OF 2 6]] radio_step_run [OF pin_step(2) [OF up b]] by simp
      show "returns (disable_rx (fst st6, set_pin_off b7 (snd st6))) (radio_run st)"
        by (rule returns_mono [OF disable_rx_total [OF radio_run_up [OF 3]]])
           (rule radio_run_trans [OF 3 radio_step_run])
    qed
    then show "returns (case y of (start, st4) \<Rightarrow>
       bnd (wait_elapsed n (timer_call acked) start (\<lambda>g. autoRetransmitDelay cfg) ((fst st4)\<lparr>tStart := start\<rparr>, snd st4))
        (\<lambda>st6. disable_rx (fst st6, set_pin_off b7 (snd st6)))) (radio_run (g, s))"
      unfolding ye st by simp
  qed
qed

text \<open>A round, from a state a loaded packet leaves (\<open>st0\<close> is the state before).\<close>

lemma after_load_total:
  assumes "radio_up st" "unat (timeToSettle (fst st)) < n" "unat (autoRetransmitDelay cfg) < n" "gpio_regs b7 = 0x40020400"
  shows "returns (bnd (transmit_single_package n (timer_call acked) True st) (\<lambda>y.
     bnd (enable_rx_and_listen (snd y)) (\<lambda>st3. bnd (await_ack n (timer_call acked) cfg b7 st3) (\<lambda>st7. Inr (end_round st7)))))
     (\<lambda>(ok, st'). round_result st ok st')"
proof (rule returns_bnd [OF single_package_total [OF assms(1,2)]])
  fix y :: "bool \<times> radio" assume "case y of (ok, st') \<Rightarrow> radio_run st st'"
  then have 1: "radio_run st (snd y)" by (simp add: case_prod_unfold)
  show "returns (bnd (enable_rx_and_listen (snd y)) (\<lambda>st3. bnd (await_ack n (timer_call acked) cfg b7 st3)
     (\<lambda>st7. Inr (end_round st7)))) (\<lambda>(ok, st'). round_result st ok st')"
  proof (rule returns_bnd [OF enable_rx_total [OF radio_run_up [OF 1]]])
    fix st3 assume "radio_step (snd y) st3"
    then have 3: "radio_run st st3" using radio_run_trans [OF 1 radio_step_run] by blast
    show "returns (bnd (await_ack n (timer_call acked) cfg b7 st3) (\<lambda>st7. Inr (end_round st7)))
       (\<lambda>(ok, st'). round_result st ok st')"
      by (rule returns_bnd [OF await_ack_total [OF radio_run_up [OF 3] assms(3,4)]])
         (simp add: case_prod_unfold end_round_result radio_run_trans [OF 3])
  qed
qed

lemma load_total:
  assumes "radio_up st" "32 \<le> length payload"
  shows "returns (load_tx_buffer 31 payload st) (\<lambda>x. radio_run st (snd x))"
proof (cases st)
  case (Pair g s)
  show ?thesis unfolding Pair load_tx_buffer_def
  proof (rule returns_bnd [OF get_nrf_register_total])
    show "radio_up (g, s)" using assms Pair by simp
    fix x :: "u8 \<times> radio" assume "case x of (v, st') \<Rightarrow> radio_step (g, s) st'"
    then obtain v g1 s1 where xe: "x = (v, g1, s1)" and 1: "radio_step (g, s) (g1, s1)" by (cases x) auto
    have "returns (nrf_write 0xFF (31 + 1) WTxPayload payload (g1, s1)) (radio_run (g, s))"
      by (rule returns_mono [OF nrf_write_total [OF radio_step_up [OF 1]]])
         (use assms(2) in \<open>auto intro: radio_run_trans [OF radio_step_run [OF 1] radio_step_run]\<close>)
    then have "returns (bnd (nrf_write 0xFF (31 + 1) WTxPayload payload (g1, s1)) (\<lambda>st2. Inr (True, st2)))
       (\<lambda>x. radio_run (g, s) (snd x))"
      by (rule returns_bnd) simp
    then show "returns (case x of (fifo, st1) \<Rightarrow>
       if fifo AND push_bit 5 1 \<noteq> 0 then Inr (False, st1)
       else bnd (nrf_write 0xFF (31 + 1) WTxPayload payload st1) (\<lambda>st2. Inr (True, st2))) (\<lambda>x. radio_run (g, s) (snd x))"
      unfolding xe using radio_step_run [OF 1] by simp
  qed
qed

text \<open>With room in the transmitter's FIFO, the 32 bytes of the buffer go to the radio.\<close>

lemma load_sends:
  assumes "radio_up (g, s)" "32 \<le> length payload" "inputs s (spi ''dr'') = x # v # rest" "ucast v AND (32 :: u8) = 0"
  shows "returns (load_tx_buffer 31 payload (g, s)) (\<lambda>y. radio_run (g, s) (snd y) \<and>
     spi_sent (snd (snd y)) = spi_sent s @ [0x17, ucast (hd (rx_buffer g))] @ map ucast (0xA0 # take 32 payload))"
proof -
  have "spi_ready s" "rx_buffer g \<noteq> []" using assms(1) by (simp_all add: radio_up_def)
  from get_nrf_register_ok [OF this assms(3), of FIFO_STATUS] obtain s1 where
    f: "get_nrf_register FIFO_STATUS (g, s) = Inr (ucast v, g\<lparr>rx_buffer := ucast v # tl (rx_buffer g)\<rparr>, s1)"
    and sn: "spi_sent s1 = spi_sent s @ [0x17, ucast (hd (rx_buffer g))]" by auto
  let ?st1 = "(g\<lparr>rx_buffer := ucast v # tl (rx_buffer g)\<rparr>, s1)"
  have 1: "radio_step (g, s) ?st1" using get_nrf_register_total [OF assms(1), of FIFO_STATUS] f by simp
  from nrf_write_total [OF radio_step_up [OF 1], of "31 + 1" payload WTxPayload "0xFF"] assms(2) obtain st2 where
    w: "nrf_write 0xFF (31 + 1) WTxPayload payload ?st1 = Inr st2" and 2: "radio_step ?st1 st2"
    and sn2: "spi_sent (snd st2) = spi_sent s1 @ map ucast (0xA0 # take 32 payload)"
    by (auto simp: returns_def configure_package_type_def)
  have "load_tx_buffer 31 payload (g, s) = Inr (True, st2)"
    unfolding load_tx_buffer_def f using assms(4) w by simp
  then show ?thesis
    using radio_run_trans [OF radio_step_run [OF 1] radio_step_run [OF 2]] sn sn2 by simp
qed

text \<open>All rounds: they end, acknowledged or with the count of repeats used up.\<close>

definition loop_result :: "u32 \<Rightarrow> radio \<Rightarrow> bool \<Rightarrow> radio \<Rightarrow> bool" where
  "loop_result limit st acked st' \<longleftrightarrow> (case (st, st') of ((g, s), (g', s')) \<Rightarrow>
     (let ob = tx_observe g; ob' = tx_observe g' in
      totalLostPackages ob' = totalLostPackages ob \<and> totalRetransmits ob' = totalRetransmits ob \<and>
      (if acked then retransmitCount ob' < limit \<and> totalPackages ob' = totalPackages ob + 1
       else retransmitCount ob' = limit \<and> totalPackages ob' = totalPackages ob)) \<and>
     (\<exists>w. spi_sent s' = spi_sent s @ w))"

lemma loop_result_after:
  "round_result st False st' \<Longrightarrow> loop_result limit st' acked st'' \<Longrightarrow> loop_result limit st acked st''"
  by (cases st; cases st'; cases st'') (auto simp: round_result_def loop_result_def Let_def)

lemma loop_result_done:
  "round_result st True st' \<Longrightarrow> retransmitCount (tx_observe (fst st)) < limit \<Longrightarrow> loop_result limit st True st'"
  by (cases st; cases st') (auto simp: round_result_def loop_result_def Let_def)

lemma round_total:
  assumes "radio_up st" "32 \<le> length out" "unat (timeToSettle (fst st)) < n" "unat (autoRetransmitDelay cfg) < n"
    "gpio_regs b7 = 0x40020400"
  shows "returns (autoack_round n (timer_call acked) cfg b7 out st) (\<lambda>(ok, st'). round_result st ok st')"
  unfolding autoack_round_split
proof (rule returns_bnd [OF load_total [OF assms(1,2)]])
  fix x :: "bool \<times> radio" assume 1: "radio_run st (snd x)"
  then have "unat (timeToSettle (fst (snd x))) < n"
    using assms(3) by (cases st; cases "snd x") (simp add: radio_run_def)
  from after_load_total [OF radio_run_up [OF 1] this assms(4,5)]
  show "returns (bnd (transmit_single_package n (timer_call acked) True (snd x)) (\<lambda>y.
     bnd (enable_rx_and_listen (snd y)) (\<lambda>st3. bnd (await_ack n (timer_call acked) cfg b7 st3) (\<lambda>st7. Inr (end_round st7)))))
     (\<lambda>(ok, st'). round_result st ok st')"
    by (rule returns_mono) (auto intro: round_result_run [OF 1])
qed

lemma loop_total:
  assumes "radio_up st" "32 \<le> length out" "unat (timeToSettle (fst st)) < n" "unat (autoRetransmitDelay cfg) < n"
    "gpio_regs b7 = 0x40020400"
    "unat (cfg_retransmitCount cfg) < k + unat (retransmitCount (tx_observe (fst st)))"
    "retransmitCount (tx_observe (fst st)) \<le> cfg_retransmitCount cfg"
  shows "returns (autoack_loop k n (timer_call acked) cfg b7 out st)
     (\<lambda>(ok, st'). loop_result (cfg_retransmitCount cfg) st ok st')"
  using assms(1,3,6,7)
proof (induction k arbitrary: st)
  case 0
  then show ?case by (simp add: word_le_nat_alt)
next
  case (Suc k)
  show ?case
  proof (cases "retransmitCount (tx_observe (fst st)) < cfg_retransmitCount cfg")
    case True
    have "returns (bnd (autoack_round n (timer_call acked) cfg b7 out st) (\<lambda>(ok, st1).
        if ok then Inr (True, st1) else autoack_loop k n (timer_call acked) cfg b7 out st1))
       (\<lambda>(ok, st'). loop_result (cfg_retransmitCount cfg) st ok st')"
    proof (rule returns_bnd [OF round_total [OF Suc.prems(1) assms(2) Suc.prems(2) assms(4,5)]])
      fix x :: "bool \<times> radio" assume x: "case x of (ok, st') \<Rightarrow> round_result st ok st'"
      obtain ok st1 where xe: "x = (ok, st1)" by (cases x)
      show "returns (case x of (ok, st1) \<Rightarrow> if ok then Inr (True, st1)
          else autoack_loop k n (timer_call acked) cfg b7 out st1)
         (\<lambda>(ok, st'). loop_result (cfg_retransmitCount cfg) st ok st')"
      proof (cases ok)
        case ok: True
        then show ?thesis using x xe True loop_result_done by simp
      next
        case no: False
        then have r: "round_result st False st1" using x xe by simp
        then have up: "radio_up st1" "timeToSettle (fst st1) = timeToSettle (fst st)"
          and c: "retransmitCount (tx_observe (fst st1)) = retransmitCount (tx_observe (fst st)) + 1"
          by (cases st; cases st1; auto simp: round_result_def Let_def)+
        have u: "unat (retransmitCount (tx_observe (fst st1))) = Suc (unat (retransmitCount (tx_observe (fst st))))"
          unfolding c using True word_nat_bound [of "cfg_retransmitCount cfg"] by (simp add: unat_word_ariths word_less_nat_alt)
        have "returns (autoack_loop k n (timer_call acked) cfg b7 out st1)
           (\<lambda>(ok, st'). loop_result (cfg_retransmitCount cfg) st1 ok st')"
          using Suc.prems True u by (intro Suc.IH) (auto simp: up word_le_nat_alt word_less_nat_alt)
        then have "returns (autoack_loop k n (timer_call acked) cfg b7 out st1)
           (\<lambda>(ok, st'). loop_result (cfg_retransmitCount cfg) st ok st')"
          by (rule returns_mono) (auto intro: loop_result_after [OF r])
        then show ?thesis unfolding xe using no by simp
      qed
    qed
    then show ?thesis using True by simp
  next
    case False
    then have "retransmitCount (tx_observe (fst st)) = cfg_retransmitCount cfg" using Suc.prems(4) by simp
    then show ?thesis using False by (cases st) (simp add: loop_result_def Let_def)
  qed
qed

lemma crc_up:
  assumes "radio_up (g, s)" "crc_regs (drv s) = 0x40023000" "inputs s 0x40023000 = c # cs"
  obtains s3 where "crc_read (crc_feed_bytes bs (crc_reset (snd (init_gpio (b0\<lparr>pin := 7, port := 66\<rparr>) s)))) = (c, s3)"
    "radio_up (g, s3)" "spi_sent s3 = spi_sent s" "inputs s3 (spi ''dr'') = inputs s (spi ''dr'')"
proof -
  let ?s1 = "snd (init_gpio (b0\<lparr>pin := 7, port := 66\<rparr>) s)"
  have fed: "spi_ready (crc_feed_bytes bs t) = spi_ready t \<and> spi_sent (crc_feed_bytes bs t) = spi_sent t \<and>
      drv (crc_feed_bytes bs t) = drv t \<and> inputs (crc_feed_bytes bs t) = inputs t"
    if "crc_regs (drv t) = 0x40023000" for t :: kernel
    using that by (induction bs arbitrary: t) (simp_all add: crc_feed_def crc_dr)
  have i: "radio_up (g, ?s1)" "spi_sent ?s1 = spi_sent s" "drv ?s1 = drv s"
    "inputs ?s1 0x40023000 = c # cs" "inputs ?s1 (spi ''dr'') = inputs s (spi ''dr'')"
    using assms by (simp_all add: init_gpio_def radio_up_def inputs_MODIFY)
  have cr: "reg CrcRegisterMap 0x40023000 ''cr'' = 0x40023008"
    by (simp add: reg_def CrcRegisterMap_def)
  let ?s2 = "crc_feed_bytes bs (crc_reset ?s1)"
  have d2: "crc_regs (drv (crc_reset ?s1)) = 0x40023000" using assms(2) i(3) by (simp add: crc_reset_def)
  have r2: "radio_up (g, crc_reset ?s1)" "spi_sent (crc_reset ?s1) = spi_sent s"
    "inputs (crc_reset ?s1) = inputs ?s1"
    using i assms(2) by (simp_all add: crc_reset_def cr radio_up_def)
  note f = fed [OF d2]
  let ?s3 = "?s2\<lparr>inputs := (inputs ?s2)(0x40023000 := cs)\<rparr>"
  have rd: "crc_read ?s2 = (c, ?s3)"
    using f d2 r2 i(4) by (simp add: crc_read_def crc_dr READ_REGISTER_def)
  have s3: "radio_up (g, ?s3)" "spi_sent ?s3 = spi_sent s" "inputs ?s3 (spi ''dr'') = inputs s (spi ''dr'')"
    using f r2 i(5) by (auto simp: radio_up_def spi_ready_def spi_sent_def)
  from that [OF rd s3] show ?thesis .
qed

lemma loop_sends_first:
  assumes "radio_up (g, s)" "32 \<le> length out" "unat (timeToSettle g) < n" "unat (autoRetransmitDelay cfg) < n"
    "gpio_regs b7 = 0x40020400" "retransmitCount (tx_observe g) = 0" "0 < cfg_retransmitCount cfg"
    "inputs s (spi ''dr'') = x # v # rest" "ucast v AND (32 :: u8) = 0"
  shows "returns (autoack_loop (Suc (unat (cfg_retransmitCount cfg))) n (timer_call acked) cfg b7 out (g, s))
     (\<lambda>(ok, st'). loop_result (cfg_retransmitCount cfg) (g, s) ok st' \<and>
        (\<exists>w. spi_sent (snd st') = spi_sent s @ [0x17, ucast (hd (rx_buffer g))] @ map ucast (0xA0 # take 32 out) @ w))"
proof -
  let ?call = "timer_call acked" and ?lim = "cfg_retransmitCount cfg"
  let ?hd = "spi_sent s @ [0x17, ucast (hd (rx_buffer g))] @ map ucast (0xA0 # take 32 out)"
  from load_sends [OF assms(1,2,8,9)] obtain b st1 where
    l: "load_tx_buffer 31 out (g, s) = Inr (b, st1)" and 1: "radio_run (g, s) st1" and sn: "spi_sent (snd st1) = ?hd"
    by (auto simp: returns_def)
  have "unat (timeToSettle (fst st1)) < n" using 1 assms(3) by (cases st1) (simp add: radio_run_def)
  from after_load_total [OF radio_run_up [OF 1] this assms(4,5), of acked] obtain ok st2 where
    r: "autoack_round n ?call cfg b7 out (g, s) = Inr (ok, st2)" and 2: "round_result st1 ok st2"
    unfolding autoack_round_split l by (auto simp: returns_def)
  have sn2: "\<exists>w. spi_sent (snd st2) = ?hd @ w" using 2 sn by (cases st1; cases st2) (auto simp: round_result_def)
  have rr: "round_result (g, s) ok st2" by (rule round_result_run [OF 1 2])
  have step: "autoack_loop (Suc (unat ?lim)) n ?call cfg b7 out (g, s) =
      (if ok then Inr (True, st2) else autoack_loop (unat ?lim) n ?call cfg b7 out st2)"
    using assms(6,7) r by simp
  show ?thesis
  proof (cases ok)
    case True
    then show ?thesis using rr assms(6,7) sn2 step loop_result_done [of "(g, s)" st2 ?lim] by simp
  next
    case False
    then have up: "radio_up st2" "timeToSettle (fst st2) = timeToSettle g" "retransmitCount (tx_observe (fst st2)) = 1"
      using rr assms(6) by (cases st2; simp add: round_result_def Let_def)+
    have "returns (autoack_loop (unat ?lim) n ?call cfg b7 out st2) (\<lambda>(ok, st'). loop_result ?lim st2 ok st')"
      using assms(3,7) by (intro loop_total [OF up(1) assms(2) _ assms(4,5)]) (auto simp: up word_le_nat_alt word_less_nat_alt)
    then have "returns (autoack_loop (unat ?lim) n ?call cfg b7 out st2) (\<lambda>(ok, st'). loop_result ?lim (g, s) ok st' \<and>
        (\<exists>w. spi_sent (snd st') = ?hd @ w))"
    proof (rule returns_mono, clarify)
      fix ok' g3 s3 assume 3: "loop_result ?lim st2 ok' (g3, s3)"
      then have "\<exists>w. spi_sent s3 = spi_sent (snd st2) @ w" by (cases st2) (auto simp: loop_result_def)
      then show "loop_result ?lim (g, s) ok' (g3, s3) \<and> (\<exists>w. spi_sent (snd (g3, s3)) = ?hd @ w)"
        using loop_result_after [of "(g, s)" st2] rr False 3 sn2 by auto
    qed
    then show ?thesis unfolding step using False by simp
  qed
qed

text \<open>The statistics at the end: the quotient is defined when the two counters do not wrap.\<close>

lemma counters_not_zero:
  assumes "loop_result limit (g, s) ok (g1, s1)" "0 < limit"
    "unat (totalPackages (tx_observe g)) < 2 ^ 32 - 1" "unat (totalRetransmits (tx_observe g)) + unat limit < 2 ^ 32"
  shows "totalPackages (tx_observe g1) \<noteq> 0 \<or> totalRetransmits (tx_observe g1) + retransmitCount (tx_observe g1) \<noteq> 0"
proof (cases ok)
  case True
  then have "totalPackages (tx_observe g1) = totalPackages (tx_observe g) + 1"
    using assms(1) by (simp add: loop_result_def Let_def)
  then have "unat (totalPackages (tx_observe g1)) = unat (totalPackages (tx_observe g)) + 1"
    using assms(3) by (simp add: unat_word_ariths)
  then show ?thesis by auto
next
  case False
  then have "totalRetransmits (tx_observe g1) + retransmitCount (tx_observe g1) = totalRetransmits (tx_observe g) + limit"
    using assms(1) by (simp add: loop_result_def Let_def)
  then have "unat (totalRetransmits (tx_observe g1) + retransmitCount (tx_observe g1)) =
      unat (totalRetransmits (tx_observe g)) + unat limit"
    using assms(4) by (simp add: unat_word_ariths)
  then show ?thesis using assms(2) by (auto simp: word_less_nat_alt)
qed

lemma autoack_epilogue:
  assumes "31 \<le> length outBuffer"
    and "crc_read (crc_feed_bytes (take 27 outBuffer) (crc_reset (snd (init_gpio (b0\<lparr>pin := 7, port := 66\<rparr>) s)))) = (c, s3)"
    and "autoack_loop (Suc (unat (cfg_retransmitCount cfg))) n call cfg (fst (init_gpio (b0\<lparr>pin := 7, port := 66\<rparr>) s))
        (take 27 outBuffer @ big_endian c @ drop 31 outBuffer) (g, s3) = Inr (ok, g1, s4)"
    and "loop_result (cfg_retransmitCount cfg) (g, s3) ok (g1, s4)"
    and "signal_strength (totalPackages (tx_observe g1)) (totalRetransmits (tx_observe g1) + retransmitCount (tx_observe g1)) = Inr strength"
  shows "\<exists>g'. transmit_with_autoack n call b0 cfg outBuffer (g, s) =
       Inr (ok, take 27 outBuffer @ big_endian c @ drop 31 outBuffer, g', s4) \<and>
     totalPackages (tx_observe g') = totalPackages (tx_observe g) + (if ok then 1 else 0) \<and>
     totalLostPackages (tx_observe g') = totalLostPackages (tx_observe g) + (if ok then 0 else 1)"
  using assms(1,4,5)
  by (auto simp: transmit_with_autoack_def split_beta assms(2) assms(3) Let_def loop_result_def split: if_splits simp del: autoack_loop.simps)

section \<open>Reception\<close>

lemma spi_ready_drop: "spi_ready s \<Longrightarrow> gpio_regs t = 0x40020000 \<Longrightarrow> spi_ready (set_pin_off t s)"
  by (simp add: set_pin_off_def)

text \<open>A packet of 31 bytes on pipe 0.\<close>

lemma packet_received:
  assumes "spi_ready s" "rx_buffer g \<noteq> []" "gpio_regs (gpio_pa5_ce g) = 0x40020000" "31 \<le> length buf"
    "inputs s (spi ''dr'') = y # v # z # map ucast p @ rest" "length p = 31"
    "ucast v AND (14 :: u8) = 0" "rx_pw_p0 c = 31"
  shows "\<exists>st'. check_for_received_data c buf (g, s) = Inr (True, p @ drop 31 buf, st')"
proof -
  let ?g = "g\<lparr>rx_buffer := ucast v # tl (rx_buffer g)\<rparr>"
  from get_nrf_register_ok [OF assms(1,2,5), of STATUS] obtain s1 where
    f: "get_nrf_register STATUS (g, s) = Inr (ucast v, ?g, s1)" and r1: "spi_ready s1"
    and i1: "inputs s1 (spi ''dr'') = z # map ucast p @ rest" by auto
  let ?s2 = "set_pin_off (gpio_pa5_ce g) s1"
  have r2: "spi_ready ?s2" using r1 assms(3) by (rule spi_ready_drop)
  have i2: "inputs ?s2 (spi ''dr'') = (z # map ucast p) @ rest"
    using i1 assms(3) by (simp add: set_pin_off_def inputs_MODIFY)
  have n: "unat (31 :: u32) = 31" by simp
  from transfer_read_ok [OF r2, of 31 buf RRxPayload "z # map ucast p" rest "0xFF"] assms(4,6) i2 obtain s3 where
    t: "transfer 0xFF 31 RRxPayload buf ?s2 = Inr (map ucast (map ucast p :: u32 list) @ drop 31 buf, s3)"
    unfolding n by auto
  have "ucast (ucast b :: u32) = b" for b :: u8 by (rule bit_word_eqI) (simp add: bit_simps)
  then have id: "map ucast (map ucast p :: u32 list) = p" by (simp add: o_def)
  have pipe: "drop_bit 1 (ucast v) AND (7 :: u8) = 0"
  proof -
    have "drop_bit 1 (ucast v) AND (7 :: u8) = drop_bit 1 (ucast v AND (14 :: u8))" by simp
    then show ?thesis unfolding assms(7) by simp
  qed
  show ?thesis
    unfolding check_for_received_data_def get_nrf_status_def f
    using t [unfolded id] pipe assms(8)
    by (simp add: Let_def stop_listening_def unset_ce_def nrf_receive_payload_def start_listening_def del: spi_addrs)
qed

section \<open>Properties\<close>

text \<open>
  C31. A packet crosses the link with its checksum.  Sending always returns, whenever and however often
  the acknowledgement arrives: \<open>transmit_with_autoack\<close> leaves in its buffer the caller's 27 bytes, the
  answer \<open>c\<close> of the checksum unit, most significant byte first, and the caller's remaining bytes; what
  it puts on the bus starts with the question for the FIFO's status and then the command 0xA0 with the 32
  bytes of that buffer.  It counts one package more, or one lost package more.  A receiver whose radio
  presents the first 31 of these bytes on pipe 0 stores them (\<open>check_for_received_data\<close>), and
  \<open>received_crc\<close> reads exactly \<open>c\<close> from them.  The conditions: the radio and the checksum unit
  are set up (\<open>radio_up\<close>), the buffer has 32 bytes or more, at least one round is configured, none counted
  yet, the transmitter's FIFO is not full (bit 5 of its first answer \<open>v\<close>), the two counters of the
  statistics do not wrap, and the timer advances by one from read to read, \<open>n\<close> reads being more than
  either delay.
\<close>
theorem packet_roundtrip:
  assumes "radio_up (g, s)" "crc_regs (drv s) = 0x40023000" "inputs s 0x40023000 = c # cs"
    and "inputs s (spi ''dr'') = x # v # rest" "ucast v AND (32 :: u8) = 0"
    and "32 \<le> length outBuffer" "retransmitCount (tx_observe g) = 0" "0 < cfg_retransmitCount cfg"
    and "unat (timeToSettle g) < n" "unat (autoRetransmitDelay cfg) < n"
    and "unat (totalPackages (tx_observe g)) < 2 ^ 32 - 1"
    and "unat (totalRetransmits (tx_observe g)) + unat (cfg_retransmitCount cfg) < 2 ^ 32"
    and "spi_ready s2" "rx_buffer g2 \<noteq> []" "gpio_regs (gpio_pa5_ce g2) = 0x40020000" "31 \<le> length buf"
    and "ucast v2 AND (14 :: u8) = 0" "rx_pw_p0 regs = 31"
  shows "\<exists>ok out g' s' w. transmit_with_autoack n (timer_call acked) b0 cfg outBuffer (g, s) = Inr (ok, out, g', s') \<and>
     out = take 27 outBuffer @ big_endian c @ drop 31 outBuffer \<and>
     spi_sent s' = spi_sent s @ [0x17, ucast (hd (rx_buffer g))] @ map ucast (0xA0 # take 32 out) @ w \<and>
     totalPackages (tx_observe g') = totalPackages (tx_observe g) + (if ok then 1 else 0) \<and>
     totalLostPackages (tx_observe g') = totalLostPackages (tx_observe g) + (if ok then 0 else 1) \<and>
     (inputs s2 (spi ''dr'') = y # v2 # z # map ucast (take 31 out) @ rest2 \<longrightarrow>
        (\<exists>st'. check_for_received_data regs buf (g2, s2) = Inr (True, take 31 out @ drop 31 buf, st')) \<and>
        received_crc (take 31 out @ drop 31 buf) = Inr c)"
proof -
  let ?out = "take 27 outBuffer @ big_endian c @ drop 31 outBuffer" and ?lim = "cfg_retransmitCount cfg"
  obtain s3 where crc: "crc_read (crc_feed_bytes (take 27 outBuffer) (crc_reset (snd (init_gpio (b0\<lparr>pin := 7, port := 66\<rparr>) s)))) = (c, s3)"
    and up: "radio_up (g, s3)" and sn: "spi_sent s3 = spi_sent s" and i: "inputs s3 (spi ''dr'') = x # v # rest"
    using crc_up [OF assms(1-3)] assms(4) by metis
  let ?b7 = "fst (init_gpio (b0\<lparr>pin := 7, port := 66\<rparr>) s)"
  have b7: "gpio_regs ?b7 = 0x40020400" by (simp add: init_gpio_def gpio_set_registermap_def)
  have len: "32 \<le> length ?out" using assms(6) by (simp add: big_endian_def)
  from loop_sends_first [OF up len assms(9,10) b7 assms(7,8) i assms(5), of acked] obtain ok g1 s4 w where
    l: "autoack_loop (Suc (unat ?lim)) n (timer_call acked) cfg ?b7 ?out (g, s3) = Inr (ok, g1, s4)"
    and r: "loop_result ?lim (g, s3) ok (g1, s4)"
    and sent: "spi_sent s4 = spi_sent s @ [0x17, ucast (hd (rx_buffer g))] @ map ucast (0xA0 # take 32 ?out) @ w"
    by (auto simp: returns_def sn)
  obtain strength where st: "signal_strength (totalPackages (tx_observe g1))
      (totalRetransmits (tx_observe g1) + retransmitCount (tx_observe g1)) = Inr strength"
    using counters_not_zero [OF r assms(8,11,12)] by (auto simp: signal_strength_def Let_def)
  from autoack_epilogue [OF _ crc l r st] assms(6) obtain g' where
    t: "transmit_with_autoack n (timer_call acked) b0 cfg outBuffer (g, s) = Inr (ok, ?out, g', s4)"
    and tp: "totalPackages (tx_observe g') = totalPackages (tx_observe g) + (if ok then 1 else 0)"
    and tl: "totalLostPackages (tx_observe g') = totalLostPackages (tx_observe g) + (if ok then 0 else 1)"
    by (elim exE conjE meta_impE) simp_all
  have p: "length (take 31 ?out) = 31" "take 31 ?out = take 27 outBuffer @ big_endian c"
    using assms(6) by (simp_all add: big_endian_def)
  have "received_crc (take 31 ?out @ drop 31 buf) = Inr c"
    unfolding p(2) append_assoc using assms(6) by (intro received_crc_of) simp
  then have recv: "inputs s2 (spi ''dr'') = y # v2 # z # map ucast (take 31 ?out) @ rest2 \<longrightarrow>
        (\<exists>st'. check_for_received_data regs buf (g2, s2) = Inr (True, take 31 ?out @ drop 31 buf, st')) \<and>
        received_crc (take 31 ?out @ drop 31 buf) = Inr c"
    using packet_received [OF assms(13-16) _ p(1) assms(17,18)] by blast
  show ?thesis
    by (rule exI [of _ ok], rule exI [of _ ?out], rule exI [of _ g'], rule exI [of _ s4], rule exI [of _ w])
       (intro conjI t refl sent tp tl recv)
qed

definition linked_radio :: nrf_globals where
  "linked_radio = idle_radio\<lparr>osCoreFunctions := 0x08000101 # replicate 5 0, timeToSettle := 150\<rparr>"

definition link_kernel :: "(addr \<Rightarrow> u32 list) \<Rightarrow> kernel" where
  "link_kernel ins = zero_kernel\<lparr>drv := (drv zero_kernel)\<lparr>crc_regs := 0x40023000\<rparr>, inputs := ins\<rparr>"

theorem packet_roundtrip_witness:
  "\<exists>ok out g' s' w. transmit_with_autoack 10000 (timer_call (\<lambda>v. v = 400)) (gpio_b7 idle_radio)
       \<lparr>autoRetransmitDelay = 9000, cfg_retransmitCount = 7\<rparr> (replicate 32 7)
       (linked_radio, link_kernel (\<lambda>a. if a = 0x40023000 then [0xCAFEF00D] else if a = spi ''dr'' then [0xE, 0x1] else [])) =
       Inr (ok, out, g', s') \<and>
     out = replicate 27 7 @ [0xCA, 0xFE, 0xF0, 0x0D] @ [7] \<and>
     spi_sent s' = [0x17, 0] @ map ucast (0xA0 # out) @ w \<and>
     (\<exists>st'. check_for_received_data (apply_nrf_config zero_registers) (replicate 33 0)
        (linked_radio, link_kernel (\<lambda>a. if a = spi ''dr'' then
            [0xE, 0x40, 0xE] @ map ucast (replicate 27 (7 :: u8) @ [0xCA, 0xFE, 0xF0, 0x0D]) else [])) =
        Inr (True, take 31 out @ [0, 0], st')) \<and>
     received_crc (take 31 out @ [0, 0]) = Inr 0xCAFEF00D"
proof -
  let ?in = "\<lambda>a. if a = 0x40023000 then [0xCAFEF00D] else if a = spi ''dr'' then [0xE, 0x1] else []"
  let ?p = "replicate 27 (7 :: u8) @ [0xCA, 0xFE, 0xF0, 0x0D]"
  let ?in2 = "\<lambda>a. if a = spi ''dr'' then [0xE, 0x40, 0xE] @ map ucast ?p else []"
  let ?s = "link_kernel ?in" and ?s2 = "link_kernel ?in2"
  let ?cfg = "\<lparr>autoRetransmitDelay = 9000, cfg_retransmitCount = 7\<rparr>"
  have be: "big_endian 0xCAFEF00D = [0xCA, 0xFE, 0xF0, 0x0D]" by (simp add: big_endian_def)
  have up: "radio_up (linked_radio, ?s)"
    by (simp add: radio_up_def spi_ready_def link_kernel_def zero_kernel_def linked_radio_def idle_radio_def)
  have c: "crc_regs (drv ?s) = 0x40023000" "inputs ?s 0x40023000 = 0xCAFEF00D # []"
    and f: "inputs ?s (spi ''dr'') = 0xE # 0x1 # []" "ucast (0x1 :: u32) AND (32 :: u8) = 0"
    by (simp_all add: link_kernel_def)
  have g: "retransmitCount (tx_observe linked_radio) = 0" "0 < cfg_retransmitCount ?cfg"
    "unat (timeToSettle linked_radio) < 10000" "unat (autoRetransmitDelay ?cfg) < 10000"
    "unat (totalPackages (tx_observe linked_radio)) < 2 ^ 32 - 1"
    "unat (totalRetransmits (tx_observe linked_radio)) + unat (cfg_retransmitCount ?cfg) < 2 ^ 32"
    by (simp_all add: linked_radio_def idle_radio_def)
  have r: "spi_ready ?s2" "rx_buffer linked_radio \<noteq> []" "gpio_regs (gpio_pa5_ce linked_radio) = 0x40020000"
    "31 \<le> length (replicate 33 (0 :: u8))" "ucast (0x40 :: u32) AND (14 :: u8) = 0"
    "rx_pw_p0 (apply_nrf_config zero_registers) = 31" and l: "32 \<le> length (replicate 32 (7 :: u8))"
    by (simp_all add: spi_ready_def link_kernel_def zero_kernel_def linked_radio_def idle_radio_def apply_nrf_config_def)
  have i2: "inputs ?s2 (spi ''dr'') = 0xE # 0x40 # 0xE # map ucast (take 31 (take 27 (replicate 32 7) @
      big_endian 0xCAFEF00D @ drop 31 (replicate 32 7))) @ []"
    by (simp add: link_kernel_def be)
  have sn: "spi_sent ?s = []" by (simp add: spi_sent_def link_kernel_def zero_kernel_def)
  have h: "hd (rx_buffer linked_radio) = 0" by (simp add: linked_radio_def idle_radio_def)
  have out: "take 27 (replicate 32 7) @ big_endian 0xCAFEF00D @ drop 31 (replicate 32 7) =
      replicate 27 7 @ [0xCA, 0xFE, 0xF0, 0x0D] @ [7]" by (simp add: be)
  have b: "drop 31 (replicate 33 (0 :: u8)) = [0, 0]" by (simp add: numeral_2_eq_2)
  from packet_roundtrip [OF up c f l g(1-6) r, of "\<lambda>v. v = 400" "gpio_b7 idle_radio" "0xE" "0xE" "[]"]
  obtain ok out' g' s' w where t: "transmit_with_autoack 10000 (timer_call (\<lambda>v. v = 400)) (gpio_b7 idle_radio) ?cfg
      (replicate 32 7) (linked_radio, ?s) = Inr (ok, out', g', s')"
    and o: "out' = replicate 27 7 @ [0xCA, 0xFE, 0xF0, 0x0D] @ [7]"
    and se: "spi_sent s' = [] @ [0x17, ucast (0 :: u8)] @ map ucast (0xA0 # take 32 out') @ w"
    and re: "inputs ?s2 (spi ''dr'') = 0xE # 0x40 # 0xE # map ucast (take 31 out') @ [] \<longrightarrow>
        (\<exists>st'. check_for_received_data (apply_nrf_config zero_registers) (replicate 33 0) (linked_radio, ?s2) =
           Inr (True, take 31 out' @ [0, 0], st')) \<and> received_crc (take 31 out' @ [0, 0]) = Inr 0xCAFEF00D"
    unfolding sn h out b by (elim exE conjE) (rule that)
  have "take 32 out' = out'" unfolding o by simp
  then have se': "spi_sent s' = [0x17, 0] @ map ucast (0xA0 # out') @ w" using se by simp
  have "inputs ?s2 (spi ''dr'') = 0xE # 0x40 # 0xE # map ucast (take 31 out') @ []"
    unfolding o using i2 unfolding out .
  note re' = mp [OF re this]
  show ?thesis
    by (rule exI [of _ ok], rule exI [of _ out'], rule exI [of _ g'], rule exI [of _ s'], rule exI [of _ w])
       (intro conjI t o se' conjunct1 [OF re'] conjunct2 [OF re'])
qed

end
