(* ===== verification/Transfers.thy ===== *)
theory Transfers
  imports Upload
begin

text \<open>
  The list of transfers of \<open>uart_isr.c\<close>, through which other parts of the system hand byte ranges to the
  task \<open>transfer_handler\<close>: a bounded stack, which the task serves one element at a time.
\<close>

section \<open>The list\<close>

text \<open>The array has the size the C file declares, and the counter does not exceed it.\<close>

definition transfers_ok :: "kernel \<Rightarrow> bool" where
  "transfers_ok s \<longleftrightarrow> length (transfer_list (io s)) = 5 \<and> unat (num_of_waiting_transfers (io s)) \<le> 5"

text \<open>The transfers that wait, the newest last.\<close>

definition pending :: "kernel \<Rightarrow> TransferInfo list" where
  "pending s = take (unat (num_of_waiting_transfers (io s))) (transfer_list (io s))"

lemma pending_length: "transfers_ok s \<Longrightarrow> length (pending s) = unat (num_of_waiting_transfers (io s))"
  by (simp add: pending_def transfers_ok_def)

lemma pending_full: "transfers_ok s \<Longrightarrow> length (pending s) = 5 \<longleftrightarrow> num_of_waiting_transfers (io s) = 5"
  by (simp add: pending_length word_unat_eq_iff)

lemma pending_empty: "transfers_ok s \<Longrightarrow> pending s = [] \<longleftrightarrow> num_of_waiting_transfers (io s) = 0"
  using pending_length [of s] by (metis length_0_conv unat_eq_0)

lemma rd_uint: "unat i < length xs \<Longrightarrow> rd xs (uint i) = Inr (xs ! unat i)"
  by (simp add: uint_nat del: of_nat_unat)

lemma wr_uint: "unat i < length xs \<Longrightarrow> wr xs (uint i) v = Inr (xs[unat i := v])"
  by (simp add: uint_nat del: of_nat_unat)

lemma init_transfers: "transfers_ok (init_transfer_handler s) \<and> pending (init_transfer_handler s) = []"
  by (simp add: transfers_ok_def pending_def init_transfer_handler_def)

lemma setup_transfer_ok:
  assumes t: "transfers_ok s" and ok: "sched_ok s R W"
  obtains s' R' W' where "setup_transfer a n s = Inr s'" "transfers_ok s'" "sched_ok s' R' W'"
    "pending s' = (if length (pending s) = 5 then pending s else pending s @ [\<lparr>ti_start_adress = a, ti_length = n\<rparr>])"
    "woke (if pending s = [] then waiter (pid_arg (transfer_handler_pid (kernel_pids s))) s W else None) s R W s' R' W'"
proof (cases "num_of_waiting_transfers (io s) = 5")
  case True
  then have "length (pending s) = 5" "pending s \<noteq> []" using pending_full [OF t] pending_empty [OF t] by simp_all
  with t ok show ?thesis by (intro that [of s R W]) (simp_all add: setup_transfer_def True)
next
  case False
  let ?m = "num_of_waiting_transfers (io s)" and ?x = "\<lparr>ti_start_adress = a, ti_length = n\<rparr>"
  have m: "unat ?m < 5" using t False by (metis le_neq_implies_less transfers_ok_def pending_full pending_length)
  let ?q = "if pending s = [] then waiter (pid_arg (transfer_handler_pid (kernel_pids s))) s W else None"
  have "\<exists>s1 R1 W1. (if ?m = 0 then bnd (wakeup_pid (pid_arg (transfer_handler_pid (kernel_pids s))) s) (\<lambda>(q, s1). Inr s1) else Inr s) = Inr s1 \<and>
      sched_ok s1 R1 W1 \<and> woke ?q s R W s1 R1 W1 \<and> wake_frame s s1"
  proof (cases "?m = 0")
    case True
    obtain q s1 where w: "wakeup_pid (pid_arg (transfer_handler_pid (kernel_pids s))) s = Inr (q, s1)"
      using wakeup_returns [OF ok] by blast
    from wakeup_woke [OF ok w] True pending_empty [OF t] show ?thesis by (simp add: w)
  next
    case False
    then have "pending s \<noteq> []" using pending_empty [OF t] by simp
    with False ok show ?thesis by - (rule exI [of _ s], rule exI [of _ R], rule exI [of _ W], simp)
  qed
  then obtain s1 R1 W1 where s1: "(if ?m = 0 then bnd (wakeup_pid (pid_arg (transfer_handler_pid (kernel_pids s))) s) (\<lambda>(q, s1). Inr s1)
      else Inr s) = Inr s1" "sched_ok s1 R1 W1" "woke ?q s R W s1 R1 W1" "wake_frame s s1" by blast
  have i1: "io s1 = io s" by (rule wake_frame_sel [OF s1(4)])
  let ?s' = "s1\<lparr>io := (io s)\<lparr>transfer_list := (transfer_list (io s))[unat ?m := ?x], num_of_waiting_transfers := ?m + 1\<rparr>\<rparr>"
  have w: "wr (transfer_list (io s)) (uint ?m) ?x = Inr ((transfer_list (io s))[unat ?m := ?x])"
    using m t by (intro wr_uint) (simp add: transfers_ok_def)
  have run: "setup_transfer a n s = Inr ?s'"
    unfolding setup_transfer_def if_not_P [OF False] s1(1) bnd_simps i1 w by simp
  have u: "unat (?m + 1) = Suc (unat ?m)" using m by (simp add: unat_word_ariths)
  have t': "transfers_ok ?s'" using m t u by (simp add: transfers_ok_def)
  have p: "pending ?s' = pending s @ [?x]"
    using m t u by (simp add: pending_def transfers_ok_def take_Suc_conv_app_nth)
  have "length (pending s) \<noteq> 5" using pending_length [OF t] m by simp
  moreover have "sched_ok ?s' R1 W1" by (rule sched_ok_tcbs [OF s1(2)]) (simp_all add: same_queues_def)
  moreover have "woke ?q s R W ?s' R1 W1" by (rule woke_cong [OF s1(3)]) simp_all
  ultimately show ?thesis using p by (intro that [OF run t']) simp_all
qed

lemma transfer_turn_ok:
  assumes t: "transfers_ok s" and ok: "sched_ok s (as @ c # bs) W" and c: "currently_running s = c" and r: "transmitter_ready s"
  obtains s' where "transfer_handler_turn s = Inr s'" "transfers_ok s'" "sched_ok s' (as @ bs) (W @ [c])" "tstate (task s' c) = WAITING"
    "pending s' = butlast (pending s)"
    "sent s' = sent s @ (if pending s = [] then []
       else map ucast (mem_bytes (ti_start_adress (last (pending s))) (ti_length (last (pending s))) s))"
proof -
  let ?m = "num_of_waiting_transfers (io s)"
  let ?bytes = "if pending s = [] then [] else map ucast (mem_bytes (ti_start_adress (last (pending s))) (ti_length (last (pending s))) s)"
  have "\<exists>s2. (if ?m \<noteq> 0 then bnd (rd (transfer_list (io s)) (uint (?m - 1))) (\<lambda>t.
            bnd (print (mem_bytes (ti_start_adress t) (ti_length t) s) s) (\<lambda>s1.
            Inr (s1\<lparr>io := (io s1)\<lparr>num_of_waiting_transfers := num_of_waiting_transfers (io s1) - 1\<rparr>\<rparr>)))
          else Inr s) = Inr s2 \<and> transfers_ok s2 \<and> pending s2 = butlast (pending s) \<and> sent s2 = sent s @ ?bytes \<and>
      same_queues s s2 \<and> tcbs s2 = tcbs s \<and> currently_running s2 = currently_running s"
  proof (cases "?m = 0")
    case True
    then have "pending s = []" using pending_empty [OF t] by simp
    with True t show ?thesis by (simp add: same_queues_def)
  next
    case False
    have p: "pending s \<noteq> []" using False pending_empty [OF t] by simp
    have le: "unat ?m \<le> 5" "length (transfer_list (io s)) = 5" using t by (simp_all add: transfers_ok_def)
    have u: "unat (?m - 1) = unat ?m - 1" "0 < unat ?m" using False by (simp_all add: unat_minus_one unat_gt_0)
    have "rd (transfer_list (io s)) (uint (?m - 1)) = Inr (transfer_list (io s) ! (unat ?m - 1))"
      using u le rd_uint [of "?m - 1" "transfer_list (io s)"] by simp
    moreover have "transfer_list (io s) ! (unat ?m - 1) = last (pending s)"
      using p u le by (simp add: last_conv_nth pending_length [OF t]) (simp add: pending_def)
    ultimately have rd: "rd (transfer_list (io s)) (uint (?m - 1)) = Inr (last (pending s))" by simp
    from r obtain s1 where P: "print (mem_bytes (ti_start_adress (last (pending s))) (ti_length (last (pending s))) s) s = Inr s1"
      "sent s1 = sent s @ map ucast (mem_bytes (ti_start_adress (last (pending s))) (ti_length (last (pending s))) s)" "bus_frame s s1"
      by (rule print_when_ready)
    note K = dev_frame_kernel [OF dev_frame_bus [OF P(3)]]
    let ?s2 = "s1\<lparr>io := (io s)\<lparr>num_of_waiting_transfers := ?m - 1\<rparr>\<rparr>"
    have "transfers_ok ?s2" using le u by (simp add: transfers_ok_def)
    moreover have "pending ?s2 = butlast (pending s)" using le u by (simp add: pending_def butlast_take)
    moreover have "sent ?s2 = sent s @ ?bytes" using P(2) p by (simp add: sent_def)
    moreover have "same_queues s ?s2" "tcbs ?s2 = tcbs s" "currently_running ?s2 = currently_running s"
      by (simp_all add: same_queues_def K)
    ultimately show ?thesis using False rd P(1) K(12) by simp
  qed
  then obtain s2 where s2: "(if ?m \<noteq> 0 then bnd (rd (transfer_list (io s)) (uint (?m - 1))) (\<lambda>t.
            bnd (print (mem_bytes (ti_start_adress t) (ti_length t) s) s) (\<lambda>s1.
            Inr (s1\<lparr>io := (io s1)\<lparr>num_of_waiting_transfers := num_of_waiting_transfers (io s1) - 1\<rparr>\<rparr>)))
          else Inr s) = Inr s2" "transfers_ok s2" "pending s2 = butlast (pending s)" "sent s2 = sent s @ ?bytes"
    and q: "same_queues s s2" "tcbs s2 = tcbs s" "currently_running s2 = currently_running s" by blast
  have "sched_ok s2 (as @ c # bs) W" by (rule sched_ok_tcbs [OF ok q(1,2)])
  then obtain s' where B: "block_current_task s2 = Inr s'" "sched_ok s' (as @ bs) (W @ [c])"
    "tcbs s' = (tcbs s2)(tdata (nodes s2 c) := (task s2 c)\<lparr>tstate := WAITING\<rparr>)" "\<forall>n. tdata (nodes s' n) = tdata (nodes s2 n)"
    by (rule block_current_task_ok) (use q(3) c in simp)
  note R = block_rest [OF B(1), unfolded rest_same_def]
  have "transfer_handler_turn s = Inr s'" unfolding transfer_handler_turn_def s2(1) using B(1) by simp
  moreover have "transfers_ok s'" "pending s' = pending s2" "sent s' = sent s2"
    using R s2(2) by (simp_all add: transfers_ok_def pending_def sent_def)
  moreover have "tstate (task s' c) = WAITING" using B(3,4) by (simp add: task_def)
  ultimately show ?thesis using that B(2) s2(3,4) by simp
qed

section \<open>Properties\<close>

text \<open>
  C28. The transfers are a stack of five.  With the list set up (an array of five, the counter at most five), the
  queues in order and a task running: \<open>setup_transfer\<close> returns, puts its request on top and, if none was pending,
  wakes the first waiting task with the pid stored for the handler, if there is one; with five pending the request
  is dropped without a word.  One turn of \<open>transfer_handler\<close> by the running task, with the transmitter ready, returns,
  sends exactly the bytes of the newest request, takes it off, and blocks.  So of two requests made before the task runs
  that turn sends the second only: the first stays pending, and while it does no further request wakes the task.
\<close>
theorem transfer_stack:
  assumes "transfers_ok s" "sched_ok s (as @ c # bs) W" "currently_running s = c"
  shows "(\<exists>s' R' W'. setup_transfer a n s = Inr s' \<and> transfers_ok s' \<and> sched_ok s' R' W' \<and>
      pending s' = (if length (pending s) = 5 then pending s else pending s @ [\<lparr>ti_start_adress = a, ti_length = n\<rparr>]) \<and>
      woke (if pending s = [] then waiter (pid_arg (transfer_handler_pid (kernel_pids s))) s W else None)
        s (as @ c # bs) W s' R' W') \<and>
    (transmitter_ready s \<longrightarrow> (\<exists>s'. transfer_handler_turn s = Inr s' \<and> transfers_ok s' \<and> pending s' = butlast (pending s) \<and>
      sent s' = sent s @ (if pending s = [] then []
        else map ucast (mem_bytes (ti_start_adress (last (pending s))) (ti_length (last (pending s))) s)) \<and>
      sched_ok s' (as @ bs) (W @ [c]) \<and> tstate (task s' c) = WAITING))"
proof (intro conjI impI)
  from assms(1,2) obtain s' R' W' where S: "setup_transfer a n s = Inr s'" "transfers_ok s'" "sched_ok s' R' W'"
    "pending s' = (if length (pending s) = 5 then pending s else pending s @ [\<lparr>ti_start_adress = a, ti_length = n\<rparr>])"
    "woke (if pending s = [] then waiter (pid_arg (transfer_handler_pid (kernel_pids s))) s W else None) s (as @ c # bs) W s' R' W'"
    by (rule setup_transfer_ok [where a = a and n = n])
  show "\<exists>s' R' W'. setup_transfer a n s = Inr s' \<and> transfers_ok s' \<and> sched_ok s' R' W' \<and>
      pending s' = (if length (pending s) = 5 then pending s else pending s @ [\<lparr>ti_start_adress = a, ti_length = n\<rparr>]) \<and>
      woke (if pending s = [] then waiter (pid_arg (transfer_handler_pid (kernel_pids s))) s W else None)
        s (as @ c # bs) W s' R' W'"
    by (intro exI conjI) (rule S)+
next
  assume "transmitter_ready s"
  with assms obtain s' where T: "transfer_handler_turn s = Inr s'" "transfers_ok s'" "sched_ok s' (as @ bs) (W @ [c])"
    "tstate (task s' c) = WAITING" "pending s' = butlast (pending s)"
    "sent s' = sent s @ (if pending s = [] then []
       else map ucast (mem_bytes (ti_start_adress (last (pending s))) (ti_length (last (pending s))) s))" by (rule transfer_turn_ok)
  show "\<exists>s'. transfer_handler_turn s = Inr s' \<and> transfers_ok s' \<and> pending s' = butlast (pending s) \<and>
      sent s' = sent s @ (if pending s = [] then []
        else map ucast (mem_bytes (ti_start_adress (last (pending s))) (ti_length (last (pending s))) s)) \<and>
      sched_ok s' (as @ bs) (W @ [c]) \<and> tstate (task s' c) = WAITING"
    by (intro exI conjI) (rule T)+
qed

text \<open>Two requests are pending; the second is sent, the first stays.\<close>

theorem transfer_stack_witness:
  "\<exists>s s'. pending s = [\<lparr>ti_start_adress = 0x20001000, ti_length = 2\<rparr>, \<lparr>ti_start_adress = 0x20002000, ti_length = 1\<rparr>] \<and>
     transfer_handler_turn s = Inr s' \<and> pending s' = [\<lparr>ti_start_adress = 0x20001000, ti_length = 2\<rparr>] \<and>
     sent s' = sent s @ [ucast (mem s 0x20002000)]"
proof -
  let ?l = "[\<lparr>ti_start_adress = 0x20001000, ti_length = 2\<rparr>, \<lparr>ti_start_adress = 0x20002000, ti_length = 1\<rparr>]"
  let ?s = "demo_kernel\<lparr>mmio := (\<lambda>_. 0xC0), inputs := (\<lambda>_. []), io := (io demo_kernel)\<lparr>num_of_waiting_transfers := 2,
    transfer_list := ?l @ replicate 3 \<lparr>ti_start_adress = 0, ti_length = 0\<rparr>\<rparr>\<rparr>"
  have "sched_ok ?s [0x100, 0x200, 0x300] [0x400]" by (rule sched_ok_tcbs [OF demo_sched_ok]) (simp_all add: same_queues_def)
  then have "sched_ok ?s ([] @ 0x100 # [0x200, 0x300]) [0x400]" by simp
  moreover have "transfers_ok ?s" "currently_running ?s = 0x100" "transmitter_ready ?s" and p: "pending ?s = ?l"
    by (simp_all add: transfers_ok_def demo_kernel_sel transmitter_ready_def shl_def pending_def)
  ultimately obtain s' where "transfer_handler_turn ?s = Inr s'" "pending s' = butlast (pending ?s)"
    "sent s' = sent ?s @ (if pending ?s = [] then []
       else map ucast (mem_bytes (ti_start_adress (last (pending ?s))) (ti_length (last (pending ?s))) ?s))"
    using transfer_stack [of ?s "[]" "0x100" "[0x200, 0x300]" "[0x400]"] by blast
  moreover have "mem_bytes 0x20002000 1 ?s = [mem ?s 0x20002000]" by (simp add: mem_bytes_def)
  ultimately show ?thesis using p by (intro exI [of _ ?s] exI [of _ s']) simp
qed

end
