(* ===== verification/Os_Statistics.thy ===== *)
theory Os_Statistics
  imports Scheduler
begin

text \<open>
  \<open>collect_os_statistics\<close> of \<open>os/src/process/scheduler.c\<close>, which no code calls.  It copies the
  control blocks of all tasks and the process statistic, byte by byte, into a new chunk.  How the
  compiler lays out a control block is not part of the sources, so the byte that a C \<open>char *\<close>
  reads is the parameter \<open>img\<close>, a function of the state and the address, and the address
  the linker gives to \<open>process_stats\<close> is the parameter \<open>p\<close>.  The lemmas say where the copy goes.
\<close>

type_synonym byte_image = "kernel \<Rightarrow> addr \<Rightarrow> u8"

definition store_byte :: "addr \<Rightarrow> u8 \<Rightarrow> kernel \<Rightarrow> kernel" where
  "store_byte a b s = s\<lparr>mem := (mem s)(a := b)\<rparr>"

text \<open>The inner loops; \<open>k\<close> is the value of \<open>i * sizeof(Tcb_t)\<close>, \<open>n\<close> is \<open>sizeof(Tcb_t)\<close>.\<close>

function copy_running_bytes ::
  "byte_image \<Rightarrow> nat \<Rightarrow> u32 \<Rightarrow> addr \<Rightarrow> nat \<Rightarrow> addr \<Rightarrow> kernel \<Rightarrow> addr \<times> kernel" where
  "copy_running_bytes img n k src j statistic s =
     (if j < n then
        copy_running_bytes img n k src (j + 1) (statistic + (of_nat j + k))
          (store_byte statistic (img s (src + of_nat j)) s)
      else (statistic, s))"
  by pat_completeness auto
termination
  by (relation "measure (\<lambda>(img, n, k, src, j, statistic, s). n - j)") auto

function copy_waiting_bytes ::
  "byte_image \<Rightarrow> nat \<Rightarrow> u32 \<Rightarrow> addr \<Rightarrow> nat \<Rightarrow> addr \<Rightarrow> kernel \<Rightarrow> addr \<times> kernel" where
  "copy_waiting_bytes img n k src j statistic s =
     (if j < n then
        (let statistic = statistic + (of_nat j + k) in
         copy_waiting_bytes img n k src (j + 1) statistic
           (store_byte statistic (img s (src + of_nat j)) s))
      else (statistic, s))"
  by pat_completeness auto
termination
  by (relation "measure (\<lambda>(img, n, k, src, j, statistic, s). n - j)") (auto simp: Let_def)

declare copy_running_bytes.simps [simp del] copy_waiting_bytes.simps [simp del]

text \<open>The outer loops, which differ in the inner loop only.\<close>

primrec copy_tasks ::
  "(u32 \<Rightarrow> addr \<Rightarrow> addr \<Rightarrow> kernel \<Rightarrow> addr \<times> kernel) \<Rightarrow> nat \<Rightarrow> u32 \<Rightarrow> addr \<Rightarrow> addr \<Rightarrow> kernel \<Rightarrow>
   (addr \<times> kernel) res" where
  "copy_tasks copy_bytes 0 i q statistic s = Inr (statistic, s)"
| "copy_tasks copy_bytes (Suc m) i q statistic s =
     bnd (node_at q s) (\<lambda>nd.
     if tdata nd = NULL then Inl NullDeref
     else case copy_bytes (i * sizeof_Tcb (DEBUG s)) (tdata nd) statistic s of (statistic1, s1) \<Rightarrow>
       bnd (node_at q s1) (\<lambda>nd1. copy_tasks copy_bytes m (i + 1) (nxt nd1) statistic1 s1))"

fun copy_process_stats :: "byte_image \<Rightarrow> addr \<Rightarrow> nat \<Rightarrow> nat \<Rightarrow> addr \<Rightarrow> kernel \<Rightarrow> kernel" where
  "copy_process_stats img p 0 i statistic s = s"
| "copy_process_stats img p (Suc m) i statistic s =
     (let statistic = statistic + of_nat i in
      copy_process_stats img p m (i + 1) statistic
        (store_byte statistic (img s (p + of_nat i)) s))"

definition collect_os_statistics :: "byte_image \<Rightarrow> addr \<Rightarrow> kernel \<Rightarrow> kernel res" where
  "collect_os_statistics img p s =
     bnd (queue_at (running_tasks s) s) (\<lambda>r.
     bnd (queue_at (waiting_tasks s) s) (\<lambda>w.
     bnd (allocate (sizeof_Tcb (DEBUG s) * (q_size r + q_size w) + sizeof_ProcessStats) s)
       (\<lambda>(statistic, s1).
     let n = unat (sizeof_Tcb (DEBUG s)) in
     if statistic = NULL then Inl NullDeref
     else
     bnd (copy_tasks (\<lambda>k src. copy_running_bytes img n k src 0) (unat (q_size r)) 0 (head r) (statistic + 4)
            (store_byte statistic (ucast (q_size r)) s1)) (\<lambda>(statistic2, s2).
     bnd (copy_tasks (\<lambda>k src. copy_waiting_bytes img n k src 0) (unat (q_size w)) 0 (head w)
            (statistic2 + 4) (store_byte statistic2 (ucast (q_size w)) s2)) (\<lambda>(statistic3, s3).
     Inr (copy_process_stats img p (unat sizeof_ProcessStats) 0 statistic3 s3))))))"

section \<open>Where the bytes go\<close>

text \<open>
  Both inner loops advance the pointer by \<open>j + i * sizeof(Tcb_t)\<close> for byte \<open>j\<close>, instead of by
  one, so the distance to the start grows with the square of the number of bytes.
\<close>

lemma copy_running_bytes_last:
  assumes "j \<le> n"
  shows "copy_running_bytes img (Suc n) k src j st s =
    (case copy_running_bytes img n k src j st s of (st1, s1) \<Rightarrow>
       (st1 + (of_nat n + k), store_byte st1 (img s1 (src + of_nat n)) s1))"
  using assms
proof (induction "n - j" arbitrary: j st s)
  case 0
  then show ?case by (simp add: copy_running_bytes.simps)
next
  case (Suc d)
  then have "j < n" "d = n - (j + 1)" "j + 1 \<le> n" by simp_all
  with Suc.hyps(1) [of "j + 1"] show ?case
    by (simp add: copy_running_bytes.simps [of img _ k src j])
qed

lemma copy_running_bytes_end:
  "fst (copy_running_bytes img n k src 0 st s) = st + of_nat (n * (n - 1) div 2 + n * unat k)"
proof (induction n)
  case 0
  show ?case by (simp add: copy_running_bytes.simps)
next
  case (Suc n)
  have "Suc n * (Suc n - 1) div 2 = n * (n - 1) div 2 + n"
    by (cases n) (simp_all add: algebra_simps)
  then show ?case
    using Suc by (simp add: copy_running_bytes_last case_prod_beta algebra_simps)
qed

text \<open>
  The last byte of the control block of the first running task is stored 741 bytes behind the
  place of its first byte in a build without run time statistics: the chunk of a system with \<open>t\<close> tasks
  has room for \<open>40 * t + 20\<close> bytes, so with fewer than nineteen tasks the store lies outside.
\<close>

lemma first_control_block_overruns:
  obtains s1 where "copy_running_bytes img 40 0 src 0 (statistic + 4) s =
      (statistic + 784, store_byte (statistic + 745) (img s1 (src + 39)) s1)"
proof -
  have "copy_running_bytes img (Suc 39) 0 src 0 (statistic + 4) s =
    (case copy_running_bytes img 39 0 src 0 (statistic + 4) s of (st1, s1) \<Rightarrow>
       (st1 + (of_nat 39 + 0), store_byte st1 (img s1 (src + of_nat 39)) s1))"
    by (rule copy_running_bytes_last) simp
  moreover have "fst (copy_running_bytes img 39 0 src 0 (statistic + 4) s) = statistic + 745"
    by (simp add: copy_running_bytes_end)
  ultimately show thesis
    using that [of "snd (copy_running_bytes img 39 0 src 0 (statistic + 4) s)"]
    by (simp add: case_prod_beta)
qed

text \<open>The first step of the pointer is zero, so the second byte replaces the first.\<close>

lemma first_byte_is_lost:
  assumes "2 \<le> n"
  shows "\<exists>s1. copy_running_bytes img n 0 src 0 st s = copy_running_bytes img n 0 src 2 (st + 1) s1 \<and>
    mem s1 = (mem s)(st := img (store_byte st (img s src) s) (src + 1))"
  using assms
  by (simp add: copy_running_bytes.simps [of img n 0 src 0] copy_running_bytes.simps [of img n 0 src "Suc 0"]
      numeral_2_eq_2) (auto simp: store_byte_def)

end
