(* ===== verification/Library_Properties.thy ===== *)
theory Library_Properties
  imports Kernel_Properties Memory_Ops Task Uart Cpu_Ops Timer
begin

text \<open>
  Properties of the routines the kernel is built on: sorting, the byte operations, the singly
  linked list, the interrupt controller, output over the serial line, the timer's prescaler.
\<close>

section \<open>Sorting\<close>

text \<open>
  C29. \<open>quicksort\<close> terminates on every range inside the array, for every comparator whose answers
  0 and -1 are a total preorder, without an access outside the range: the range is sorted, the
  elements are the same with their multiplicities, and nothing outside the range moves.
\<close>
theorem quicksort_sorts:
  assumes "\<And>x y. cmp_le cmp x y \<or> cmp_le cmp y x"
    and "\<And>x y z. cmp_le cmp x y \<Longrightarrow> cmp_le cmp y z \<Longrightarrow> cmp_le cmp x z"
    and "0 \<le> lo" "hi < int (length A)"
  shows "\<exists>B. quicksort A lo hi cmp = Inr B \<and> mset B = mset A \<and> sorted_range (cmp_le cmp) lo hi B \<and>
    (\<forall>m. 0 \<le> m \<and> (m < lo \<or> hi < m) \<longrightarrow> B ! nat m = A ! nat m)"
proof -
  have "comparator cmp" using assms(1,2) by unfold_locales blast+
  from comparator.quicksort_correct [OF this assms(3,4)] show ?thesis
    by (auto simp: rearranges_def)
qed

theorem quicksort_sorts_witness:
  "\<exists>B. quicksort [0x00100011, 0x00000011, 0x00080011] 0 2 offset_comparator = Inr B \<and>
    mset B = {#0x00000011, 0x00080011, 0x00100011#} \<and> sorted_range (cmp_le offset_comparator) 0 2 B"
  using quicksort_sorts [of offset_comparator 0 2 "[0x00100011, 0x00000011, 0x00080011]"]
    offset_cmp.cmp_total offset_cmp.cmp_trans by auto

section \<open>Bytes\<close>

text \<open>
  \<open>memset_byte\<close> is the function that gives the pattern at the \<open>number_of_bytes\<close> addresses from
  \<open>dest\<close> on, counted modulo the address space, and the old byte elsewhere; nothing else of the
  state changes.
\<close>
theorem memset_byte_equiv:
  "memset_byte dest n p s = s\<lparr>mem := (\<lambda>x. if unat (x - dest) < unat n then p else mem s x)\<rparr>"
proof -
  have "mem (memset_byte dest n p s) = (\<lambda>x. if unat (x - dest) < unat n then p else mem s x)"
    by (rule ext) (rule memset_byte_sel)
  then show ?thesis by (simp add: memset_byte_def)
qed

text \<open>
  \<open>swap\<close> reverses the byte order of a stored word, \<open>swap_endianess\<close> exchanges the bytes of its
  two halves; each of them undoes itself.
\<close>
theorem swap_involution:
  "map (\<lambda>i. swap a m (a + i)) [0, 1, 2, 3] = map (\<lambda>i. m (a + i)) [3, 2, 1, 0] \<and>
   swap a (swap a m) = m \<and> swap_endianess a (swap_endianess a m) = m"
proof -
  have "swap a m = m(a := m (a + 3), a + 3 := m a, a + 1 := m (a + 2), a + 2 := m (a + 1))" for m
    by (simp add: swap_def Let_def)
  moreover have "swap_endianess a m = m(a := m (a + 1), a + 1 := m a, a + 2 := m (a + 3), a + 3 := m (a + 2))" for m
    by (simp add: swap_endianess_def Let_def)
  ultimately show ?thesis by (auto simp: fun_eq_iff)
qed

section \<open>The singly linked list\<close>

text \<open>
  \<open>single_list_push\<close> appends: after a push the list holds the old nodes followed by a fresh
  one with the data, and \<open>single_list_pop\<close> takes the oldest node off and leaves the others.
\<close>
theorem list_push_pop:
  assumes "is_slist s l xs" "owns s (set xs)" "length xs + 1 < 2 ^ 32" "alloc_room s 1 8"
  shows "\<exists>p s1 s2. single_list_push l d s = Inr s1 \<and> is_slist s1 l (xs @ [p]) \<and> p \<notin> fst ` live s \<and>
    s_data (snodes s1 p) = d \<and> (\<forall>x. x \<noteq> p \<longrightarrow> s_data (snodes s1 x) = s_data (snodes s x)) \<and>
    single_list_pop l s1 = Inr (hd (xs @ [p]), s2) \<and> is_slist s2 l (tl (xs @ [p]))"
proof -
  have room: "alloc_room s (Suc 0) (8 + 0)" using assms(4) by simp
  from assms(1-3) room obtain p s1 n where A: "single_list_push l d s = Inr s1" "is_slist s1 l (xs @ [p])"
    "p \<notin> fst ` live s" "s_data (snodes s1 p) = d" "\<forall>x. x \<noteq> p \<longrightarrow> s_data (snodes s1 x) = s_data (snodes s x)"
    by (rule single_list_push_ok)
  obtain s2 where "single_list_pop l s1 = Inr (hd (xs @ [p]), s2)"
    using single_list_pop_ok(1) [OF A(2)] by simp
  moreover from this have "is_slist s2 l (tl (xs @ [p]))" using single_list_pop_ok(2) [OF A(2)] by blast
  ultimately show ?thesis using A by blast
qed

theorem list_push_pop_witness:
  "\<exists>p s1 s2. single_list_push 0x30 0x1234 demo_kernel = Inr s1 \<and> s_data (snodes s1 p) = 0x1234 \<and>
    single_list_pop 0x30 s1 = Inr (p, s2)"
proof -
  have "is_slist demo_kernel 0x30 []" by (simp add: is_slist_def demo_kernel_def start_kernel_sel zero_kernel_def)
  moreover have "alloc_room demo_kernel 1 8" using demo_alloc by (simp add: alloc_room_def total_len_def)
  ultimately show ?thesis
    using list_push_pop [of demo_kernel "0x30" "[]" "0x1234"] by (auto simp: owns_def)
qed

section \<open>Interrupt numbers\<close>

text \<open>
  \<open>enable_nvic_interrupt\<close> enables the requested interrupt and no other: over the eight
  registers, exactly the bit of its number is added.
\<close>
theorem enable_nvic_interrupt_correct:
  assumes "unat n < 240" "m < 240" "\<forall>a. inputs s a = []"
  shows "nvic_enabled m (enable_nvic_interrupt n s) \<longleftrightarrow> m = unat n \<or> nvic_enabled m s"
  using assms by (rule enable_nvic_exact)

theorem enable_nvic_interrupt_correct_witness:
  "nvic_enabled 40 (enable_nvic_interrupt 40 zero_kernel) \<and> \<not> nvic_enabled 8 (enable_nvic_interrupt 40 zero_kernel)"
  using enable_nvic_interrupt_correct [of 40 40 zero_kernel] enable_nvic_interrupt_correct [of 40 8 zero_kernel]
  by (simp add: zero_kernel_def nvic_enabled_def)

section \<open>Output\<close>

text \<open>
  \<open>print\<close> to a ready transmitter returns and has put exactly the bytes on the line, in order.
\<close>
theorem print_correct:
  assumes "inputs s (uart ''sr'') = []" "mmio s (uart ''sr'') AND shl 1 UART_TXE \<noteq> 0"
    and "mmio s (uart ''sr'') AND shl 1 UART_TC \<noteq> 0"
  shows "\<exists>s'. print bs s = Inr s' \<and> sent s' = sent s @ map ucast bs"
proof -
  from print_loop_ready [OF assms(1,2), of bs] obtain s1 where s1: "print_loop bs s = Inr s1"
    "inputs s1 (uart ''sr'') = []" "mmio s1 (uart ''sr'') = mmio s (uart ''sr'')" by blast
  then have "print bs s = Inr s1" using assms(3) by (simp add: print_def poll_ready)
  with print_loop_sent [OF s1(1)] show ?thesis by blast
qed

theorem print_correct_witness:
  "\<exists>s'. print [1, 2, 3] (zero_kernel\<lparr>mmio := (\<lambda>_. 0xC0)\<rparr>) = Inr s' \<and> sent s' = [1, 2, 3]"
proof -
  let ?s = "zero_kernel\<lparr>mmio := (\<lambda>_. 0xC0)\<rparr>"
  have "inputs ?s (uart ''sr'') = []" "mmio ?s (uart ''sr'') AND shl 1 UART_TXE \<noteq> 0"
    "mmio ?s (uart ''sr'') AND shl 1 UART_TC \<noteq> 0"
    by (simp_all add: zero_kernel_def shl_def)
  from print_correct [OF this, of "[1, 2, 3]"] show ?thesis by (simp add: sent_def zero_kernel_def)
qed

section \<open>The prescaler\<close>

text \<open>
  The prescalers \<open>run_scheduler\<close> asks for: one tick a microsecond is exact at 16 MHz, one tick
  a millisecond is not: in single precision \<open>1.0f / 0.001f\<close> is below 1000 and truncates to 999.
\<close>
theorem prescaler_of_the_timers:
  "timer_get_prescaler n 1 = Inr (16 - 1) \<and> timer_get_prescaler n 1000 = Inr (16000000 div 999 - 1)"
  using prescaler_values by simp

end
