(* ===== verification/Mutex.thy ===== *)
theory Mutex
  imports Prelude
begin

text \<open>
  \<open>os/src/mutex.s\<close> instruction by instruction, run by several tasks on the one core.  Between any
  two instructions another task can be switched in.  The exclusive monitor is the core's: LDREX
  sets it, STREX stores only when it is set and clears it, and an exception, hence every switch,
  clears it.  Theory \<open>Allocator\<close> uses the run of \<open>lock_mutex\<close> without interference.
\<close>

section \<open>State and steps\<close>

text \<open>
  Where a task is.  \<open>Outside\<close> is before the call of \<open>lock_mutex\<close>, \<open>Critical\<close> is between the return
  of \<open>lock_mutex\<close> and the call of \<open>release_mutex\<close>.
\<close>

datatype location = Outside | Ldrex | Cmp1 | Strex | Cmp2 | Critical | Ldr | Str

record locks =
  word :: u32
  monitor :: bool
  running :: nat
  at :: "nat \<Rightarrow> location"
  r1 :: "nat \<Rightarrow> u32"
  r2 :: "nat \<Rightarrow> u32"

abbreviation (input) locked :: u32 where "locked \<equiv> 1"
abbreviation (input) unlocked :: u32 where "unlocked \<equiv> 0"

text \<open>
  \<open>lock_mutex\<close> takes the address of the mutex in r0; r1 is what the caller has left there, a value
  that satisfies \<open>P\<close>.
\<close>

inductive mutex_step :: "(u32 \<Rightarrow> bool) \<Rightarrow> locks \<Rightarrow> locks \<Rightarrow> bool" for P where
  enter: "at s t = Outside \<Longrightarrow> t = running s \<Longrightarrow> P v \<Longrightarrow>
    mutex_step P s (s\<lparr>at := (at s)(t := Ldrex), r1 := (r1 s)(t := v)\<rparr>)"
| ldrex: "at s t = Ldrex \<Longrightarrow> t = running s \<Longrightarrow>
    mutex_step P s (s\<lparr>r2 := (r2 s)(t := word s), monitor := True, at := (at s)(t := Cmp1)\<rparr>)"
| cmp1: "at s t = Cmp1 \<Longrightarrow> t = running s \<Longrightarrow>
    mutex_step P s (s\<lparr>at := (at s)(t := if r2 s t = locked then Ldrex else Strex)\<rparr>)"
| strex: "at s t = Strex \<Longrightarrow> t = running s \<Longrightarrow>
    mutex_step P s (if monitor s
      then s\<lparr>word := r1 s t, r2 := (r2 s)(t := 0), monitor := False, at := (at s)(t := Cmp2)\<rparr>
      else s\<lparr>r2 := (r2 s)(t := 1), at := (at s)(t := Cmp2)\<rparr>)"
| cmp2: "at s t = Cmp2 \<Longrightarrow> t = running s \<Longrightarrow>
    mutex_step P s (s\<lparr>at := (at s)(t := if r2 s t = 1 then Ldrex else Critical)\<rparr>)"
| release: "at s t = Critical \<Longrightarrow> t = running s \<Longrightarrow> mutex_step P s (s\<lparr>at := (at s)(t := Ldr)\<rparr>)"
| ldr: "at s t = Ldr \<Longrightarrow> t = running s \<Longrightarrow>
    mutex_step P s (s\<lparr>r1 := (r1 s)(t := unlocked), at := (at s)(t := Str)\<rparr>)"
| str: "at s t = Str \<Longrightarrow> t = running s \<Longrightarrow>
    mutex_step P s (s\<lparr>word := r1 s t, at := (at s)(t := Outside)\<rparr>)"
| switch: "mutex_step P s (s\<lparr>running := u, monitor := False\<rparr>)"

inductive_cases mutex_stepE: "mutex_step P s s'"

definition mutex_start :: "locks \<Rightarrow> bool" where
  "mutex_start s \<longleftrightarrow> word s = unlocked \<and> \<not> monitor s \<and> (\<forall>t. at s t = Outside)"

inductive mutex_reach :: "(u32 \<Rightarrow> bool) \<Rightarrow> locks \<Rightarrow> bool" for P where
  start: "mutex_start s \<Longrightarrow> mutex_reach P s"
| step: "mutex_reach P s \<Longrightarrow> mutex_step P s s' \<Longrightarrow> mutex_reach P s'"

section \<open>The invariant\<close>

text \<open>A task holds the mutex from its successful STREX to its STR.\<close>

definition holds :: "locks \<Rightarrow> nat \<Rightarrow> bool" where
  "holds s t \<longleftrightarrow> at s t \<in> {Critical, Ldr, Str} \<or> (at s t = Cmp2 \<and> r2 s t \<noteq> 1)"

definition owned_by :: "nat option \<Rightarrow> locks \<Rightarrow> bool" where
  "owned_by h s \<longleftrightarrow>
     (\<forall>t. holds s t \<longleftrightarrow> h = Some t) \<and> word s = (if h = None then unlocked else locked) \<and>
     (\<forall>t. at s t \<in> {Ldrex, Cmp1, Strex, Cmp2} \<longrightarrow> r1 s t = locked) \<and> (\<forall>t. at s t = Str \<longrightarrow> r1 s t = unlocked) \<and>
     (monitor s \<and> at s (running s) = Cmp1 \<longrightarrow> r2 s (running s) = word s) \<and>
     (monitor s \<and> at s (running s) = Strex \<longrightarrow> h = None)"

lemma owned_start: "mutex_start s \<Longrightarrow> owned_by None s"
  by (simp add: mutex_start_def owned_by_def holds_def)

lemma owned_step:
  assumes o: "owned_by h s" and st: "mutex_step (\<lambda>v. v = locked) s s'"
  shows "\<exists>h'. owned_by h' s'"
proof -
  have h: "holds s t \<longleftrightarrow> h = Some t" for t using o by (simp add: owned_by_def)
  have nh: "at s t \<in> {Outside, Ldrex, Cmp1, Strex} \<or> at s t = Cmp2 \<and> r2 s t = 1 \<Longrightarrow> h \<noteq> Some t" for t
    using h [of t] by (auto simp: holds_def)
  have same: "owned_by h s'" if "\<And>t. holds s' t = holds s t" "word s' = word s"
    "\<forall>t. at s' t \<in> {Ldrex, Cmp1, Strex, Cmp2} \<longrightarrow> r1 s' t = locked" "\<forall>t. at s' t = Str \<longrightarrow> r1 s' t = unlocked"
    "monitor s' \<and> at s' (running s') = Cmp1 \<longrightarrow> r2 s' (running s') = word s'"
    "monitor s' \<and> at s' (running s') = Strex \<longrightarrow> h = None"
    using o that by (simp add: owned_by_def)
  from st show ?thesis
  proof (cases rule: mutex_step.cases)
    case (enter t v)
    with o nh [of t] have "owned_by h s'" by (intro same) (auto simp: owned_by_def holds_def)
    then show ?thesis ..
  next
    case (ldrex t)
    with o nh [of t] have "owned_by h s'" by (intro same) (auto simp: owned_by_def holds_def)
    then show ?thesis ..
  next
    case (cmp1 t)
    with o nh [of t] have "owned_by h s'" by (intro same) (auto simp: owned_by_def holds_def split: if_splits)
    then show ?thesis ..
  next
    case (strex t)
    show ?thesis
    proof (cases "monitor s")
      case True
      have "h = None" using o strex True by (simp add: owned_by_def)
      then have "owned_by (Some t) s'" using o strex True h by (auto simp: owned_by_def holds_def split: if_splits)
      then show ?thesis ..
    next
      case False
      with o strex nh [of t] have "owned_by h s'" by (intro same) (auto simp: owned_by_def holds_def split: if_splits)
      then show ?thesis ..
    qed
  next
    case (cmp2 t)
    with o nh [of t] have "owned_by h s'" by (intro same) (auto simp: owned_by_def holds_def split: if_splits)
    then show ?thesis ..
  next
    case (release t)
    with o have "owned_by h s'" by (intro same) (auto simp: owned_by_def holds_def split: if_splits)
    then show ?thesis ..
  next
    case (ldr t)
    with o have "owned_by h s'" by (intro same) (auto simp: owned_by_def holds_def split: if_splits)
    then show ?thesis ..
  next
    case (str t)
    have "h = Some t" using h [of t] str by (simp add: holds_def)
    then have "\<not> holds s' u" for u using str h [of u] by (auto simp: holds_def)
    then have "owned_by None s'" using o str by (auto simp: owned_by_def split: if_splits)
    then show ?thesis ..
  next
    case (switch u)
    with o have "owned_by h s'" by (intro same) (auto simp: owned_by_def holds_def split: if_splits)
    then show ?thesis ..
  qed
qed

lemma mutex_reach_owned: "mutex_reach (\<lambda>v. v = locked) s \<Longrightarrow> \<exists>h. owned_by h s"
  by (induction rule: mutex_reach.induct) (auto dest: owned_start owned_step)

section \<open>Properties\<close>

text \<open>
  C21. When every caller of \<open>lock_mutex\<close> has 1 in r1, no two tasks are between the return of
  \<open>lock_mutex\<close> and the call of \<open>release_mutex\<close> at the same time, whatever the order of the switches,
  and while one is there the mutex reads 1.
\<close>
theorem mutual_exclusion:
  assumes "mutex_reach (\<lambda>v. v = locked) s" "at s t = Critical"
  shows "word s = locked \<and> (\<forall>u. at s u = Critical \<longrightarrow> u = t)"
proof -
  obtain h where o: "owned_by h s" using mutex_reach_owned [OF assms(1)] by blast
  have "h = Some u" if "at s u = Critical" for u using o that by (auto simp: owned_by_def holds_def)
  then show ?thesis using o assms(2) by (auto simp: owned_by_def)
qed

definition free_mutex :: locks where
  "free_mutex = \<lparr>word = 0, monitor = False, running = 0, at = (\<lambda>_. Outside), r1 = (\<lambda>_. 0), r2 = (\<lambda>_. 0)\<rparr>"

text \<open>A task that is not switched out walks from its call through \<open>lock_mutex\<close>.\<close>

lemma lock_alone:
  assumes r: "mutex_reach P s" and s: "at s (running s) = Outside" "word s \<noteq> locked" and v: "P v"
  shows "\<exists>s'. mutex_reach P s' \<and> at s' = (at s)(running s := Critical) \<and> running s' = running s \<and>
     word s' = v \<and> r1 s' = (r1 s)(running s := v)"
proof -
  let ?t = "running s"
  define a where "a = s\<lparr>at := (at s)(?t := Ldrex), r1 := (r1 s)(?t := v)\<rparr>"
  define b where "b = a\<lparr>r2 := (r2 a)(?t := word a), monitor := True, at := (at a)(?t := Cmp1)\<rparr>"
  define c where "c = b\<lparr>at := (at b)(?t := if r2 b ?t = locked then Ldrex else Strex)\<rparr>"
  define d where "d = c\<lparr>word := r1 c ?t, r2 := (r2 c)(?t := 0), monitor := False, at := (at c)(?t := Cmp2)\<rparr>"
  define e where "e = d\<lparr>at := (at d)(?t := if r2 d ?t = 1 then Ldrex else Critical)\<rparr>"
  have "mutex_reach P a" unfolding a_def by (rule mutex_reach.step [OF r enter]) (simp_all add: s v)
  then have "mutex_reach P b" unfolding b_def by (rule mutex_reach.step [OF _ ldrex]) (simp_all add: a_def)
  then have "mutex_reach P c" unfolding c_def by (rule mutex_reach.step [OF _ cmp1]) (simp_all add: b_def a_def)
  moreover have "monitor c" "at c ?t = Strex" "?t = running c" using s(2) by (simp_all add: c_def b_def a_def)
  then have "mutex_step P c d" unfolding d_def using strex [of c ?t P] by simp
  ultimately have "mutex_reach P d" by (rule mutex_reach.step)
  then have "mutex_reach P e" unfolding e_def
    by (rule mutex_reach.step [OF _ cmp2]) (simp_all add: d_def c_def b_def a_def)
  then show ?thesis by (intro exI [of _ e]) (simp add: e_def d_def c_def b_def a_def s(2))
qed

theorem mutual_exclusion_witness:
  "\<exists>s. mutex_reach (\<lambda>v. v = locked) s \<and> at s 0 = Critical \<and> word s = 1 \<and> at s 1 \<noteq> Critical"
proof -
  have "mutex_reach (\<lambda>v. v = locked) free_mutex"
    by (rule mutex_reach.start) (simp add: mutex_start_def free_mutex_def)
  from lock_alone [OF this, of locked] obtain s where
    s: "mutex_reach (\<lambda>v. v = locked) s" "at s 0 = Critical"
    by (auto simp: free_mutex_def)
  from mutual_exclusion [OF s] have "word s = locked" "\<forall>u. at s u = Critical \<longrightarrow> u = 0" by simp_all
  then show ?thesis using s by (intro exI [of _ s]) auto
qed

text \<open>
  C37. The assembly stores r1, which it never loads with 1.  A caller that has another value there
  (0, say, which \<open>release_mutex\<close> itself leaves) does not lock: two tasks get past \<open>lock_mutex\<close>.
\<close>
theorem mutex_needs_r1:
  assumes "v \<noteq> locked" "P v"
  shows "\<exists>s. mutex_reach P s \<and> at s 0 = Critical \<and> at s 1 = Critical"
proof -
  have "mutex_reach P free_mutex" by (rule mutex_reach.start) (simp add: mutex_start_def free_mutex_def)
  from lock_alone [OF this _ _ assms(2)] obtain a where
    a: "mutex_reach P a" "at a = (\<lambda>_. Outside)(0 := Critical)" "word a = v"
    by (auto simp: free_mutex_def)
  let ?b = "a\<lparr>running := 1, monitor := False\<rparr>"
  have "mutex_reach P ?b" by (rule mutex_reach.step [OF a(1) switch])
  from lock_alone [OF this _ _ assms(2)] obtain c where
    "mutex_reach P c" "at c = (\<lambda>_. Outside)(0 := Critical, 1 := Critical)"
    using a(2,3) assms(1) by auto
  then show ?thesis by (intro exI [of _ c]) simp
qed

theorem mutex_needs_r1_witness: "\<exists>s. mutex_reach (\<lambda>v. v = 0) s \<and> at s 0 = Critical \<and> at s 1 = Critical"
  by (rule mutex_needs_r1 [of 0]) simp_all

end
