(* ===== verification/Remote.thy ===== *)
theory Remote
  imports Radio_Apps
begin

text \<open>
  The remote control \<open>packages/remote\<close>: it samples a lever with the analog converter, limits the
  reading, adds a checksum and sends it; a switch turns sending off and on.  \<open>nrf_transmit\<close> is
  called but defined nowhere in the repository and is an argument.
\<close>

section \<open>Data\<close>

record TxPayload =
  cmd_type :: u32
  cmd_argument :: u32
  tx_checksum :: u32

datatype OperatingState = Running | Maintenance

record remote_globals =
  current_reading :: i32
  lower_bound :: i32
  upper_bound :: i32
  reading_mutex :: u32
  hyst :: i32
  idx :: u32
  isr_calls :: "u32 list"    \<comment> \<open>5 elements\<close>
  tx_payload :: TxPayload
  mode_switch :: GpioObject
  operating_state :: OperatingState

section \<open>Operations\<close>

definition apply_nrf_config_remote :: "Nrf24l01Registers \<Rightarrow> Nrf24l01Registers" where
  "apply_nrf_config_remote r =
     r\<lparr>en_aa := 0, rf_setup := 6, setup_aw := 3, rf_ch := 2,
       tx_addr := [0x9A, 0x78, 0x56, 0x34, 0x12] @ drop 5 (tx_addr r),
       rx_addr_p0 := replicate 5 0xE7 @ drop 5 (rx_addr_p0 r)\<rparr>"

definition set_lower_bound :: "remote_globals \<Rightarrow> remote_globals" where
  "set_lower_bound r = r\<lparr>lower_bound := 1000\<rparr>"

definition set_upper_bound :: "remote_globals \<Rightarrow> remote_globals" where
  "set_upper_bound r = r\<lparr>upper_bound := 2500\<rparr>"

definition isr_switch_state :: "remote_globals \<times> kernel \<Rightarrow> (remote_globals \<times> kernel) res" where
  "isr_switch_state st =
     (case st of (r, s) \<Rightarrow>
        bnd (rd (isr_calls r) (uint (idx r))) (\<lambda>c.
        bnd (wr (isr_calls r) (uint (idx r)) (c + 1)) (\<lambda>calls.
        let s1 = exti_acknowledge_interrupt (mode_switch r) s;
            i = idx r + 1
        in Inr (r\<lparr>isr_calls := calls,
                  operating_state := (if operating_state r = Running then Maintenance else Running),
                  idx := (if 4 < i then 0 else i)\<rparr>, s1))))"

text \<open>\<open>lock_mutex\<close> and \<open>release_mutex\<close> on the program's own word, in a run without interference.\<close>

definition lock_reading :: "remote_globals \<times> kernel \<Rightarrow> (remote_globals \<times> kernel) res" where
  "lock_reading st = (case st of (r, s) \<Rightarrow>
     if reading_mutex r = 1 then Inl Spin else Inr (r\<lparr>reading_mutex := lock_r1 s\<rparr>, s))"

definition release_reading :: "remote_globals \<Rightarrow> remote_globals" where
  "release_reading r = r\<lparr>reading_mutex := 0\<rparr>"

definition adc_isr :: "remote_globals \<times> kernel \<Rightarrow> (remote_globals \<times> kernel) res" where
  "adc_isr st =
     (case st of (r, s) \<Rightarrow>
        bnd (lock_reading (r, adc_acknowledge_interrupt s)) (\<lambda>(r1, s1).
        let (v, s2) = adc_read_regular_channel s1 in Inr (release_reading (r1\<lparr>current_reading := v\<rparr>), s2)))"

text \<open>\<open>isr\<close> is the address of \<open>adc_isr\<close>, \<open>g0\<close> the uninitialised local object.\<close>

definition init_adc :: "addr \<Rightarrow> GpioObject \<Rightarrow> kernel \<Rightarrow> kernel" where
  "init_adc isr g0 s =
     (let (g, s1) = adc_init (g0\<lparr>pin := 1, port := 65\<rparr>) s
      in adc_start_conv_regular (adc_setbit_cr2_generic 1 (adc_turn_on (link_adc_src isr (adc_enable_interrupts s1)))))"

text \<open>The limits are compared as signed integers.\<close>

definition clamp_reading :: "remote_globals \<Rightarrow> remote_globals" where
  "clamp_reading r =
     (if sint (upper_bound r) < sint (current_reading r) then r\<lparr>current_reading := upper_bound r\<rparr>
      else if sint (current_reading r) < sint (lower_bound r) then r\<lparr>current_reading := lower_bound r\<rparr>
      else r)"

definition TxPayload_bytes :: "TxPayload \<Rightarrow> u8 list" where
  "TxPayload_bytes p = le32 (cmd_type p) @ le32 (cmd_argument p) @ le32 (tx_checksum p)"

text \<open>One round: limit, pack, send, sleep.  The command \<open>AdjustSpeed\<close> is 0.\<close>

definition main_routine ::
  "(u8 list \<Rightarrow> u32 \<Rightarrow> radio \<Rightarrow> radio res) \<Rightarrow> remote_globals \<Rightarrow> radio \<Rightarrow> (remote_globals \<times> radio) res" where
  "main_routine nrf_transmit r st =
     (case st of (g, s) \<Rightarrow>
        bnd (lock_reading (r, adc_disable_interrupts s)) (\<lambda>(r1, s1).
        let r2 = release_reading (clamp_reading r1);
            s2 = crc_feed (current_reading r2) (crc_feed 0 (crc_reset s1));
            (c, s3) = crc_read s2;
            r3 = r2\<lparr>tx_payload := \<lparr>cmd_type = 0, cmd_argument = current_reading r2, tx_checksum = c\<rparr>\<rparr> in
        bnd (nrf_transmit (TxPayload_bytes (tx_payload r3)) 13 (g, s3)) (\<lambda>(g4, s4).
        bnd (task_sleep 50 (adc_enable_interrupts s4)) (\<lambda>s5. Inr (r3, g4, s5)))))"

definition config_remote_controller ::
  "addr \<Rightarrow> addr \<Rightarrow> GpioObject \<Rightarrow> GpioObject \<Rightarrow> GpioObject \<Rightarrow> Nrf24l01Registers \<Rightarrow> Nrf24l01Registers \<Rightarrow>
   remote_globals \<Rightarrow> radio \<Rightarrow> (remote_globals \<times> radio) res" where
  "config_remote_controller isr_adc isr_switch g0 portA0 t0 c0 n0 r st =
     (case st of (g, s) \<Rightarrow>
        bnd (configure_device portA0 t0 c0 (apply_nrf_config_remote n0) MASTER
              (g, init_adc isr_adc g0 (crc_reset (crc_activate s)))) (\<lambda>(configured, g1, s1).
        let (m, s2) = init_gpio ((mode_switch r)\<lparr>pin := 6, port := 65\<rparr>) s1 in
        bnd (link_pin isr_switch m s2) (\<lambda>(m1, s3).
        Inr (r\<lparr>mode_switch := m1\<rparr>, g1, s3))))"

text \<open>\<open>main\<close> after the configuration, and one turn of its endless loop.\<close>

definition remote_main_init :: "remote_globals \<Rightarrow> remote_globals" where
  "remote_main_init r =
     (set_upper_bound (set_lower_bound (r\<lparr>isr_calls := replicate 5 0, idx := 0\<rparr>)))
       \<lparr>tx_payload := \<lparr>cmd_type = 0, cmd_argument = 0, tx_checksum = 0\<rparr>, operating_state := Running,
        reading_mutex := 0, hyst := 0, current_reading := 0\<rparr>"

definition remote_main_turn ::
  "(u8 list \<Rightarrow> u32 \<Rightarrow> radio \<Rightarrow> radio res) \<Rightarrow> remote_globals \<Rightarrow> radio \<Rightarrow> (remote_globals \<times> radio) res" where
  "remote_main_turn nrf_transmit r st =
     (case operating_state r of
        Running \<Rightarrow> main_routine nrf_transmit r st
      | Maintenance \<Rightarrow> (case st of (g, s) \<Rightarrow> Inr (r, g, svcall 2 s)))"

section \<open>The switch\<close>

lemma run_steps_append: "run_steps (fs @ gs) x = bnd (run_steps fs x) (run_steps gs)"
proof (induction fs arbitrary: x)
  case (Cons f fs)
  then show ?case by (cases "f x") simp_all
qed simp

lemma run_steps_Suc: "run_steps (replicate (Suc n) f) x = bnd (run_steps (replicate n f) x) f"
proof -
  have "run_steps (replicate (Suc n) f) x = run_steps (replicate n f @ [f]) x"
    by (simp only: replicate_append_same replicate.simps)
  then show ?thesis by (simp add: run_steps_append bnd_def split: sum.split)
qed

lemma slot_count:
  fixes k m q :: nat
  assumes "k < 5" "m \<le> 5"
  shows "(5 * q + m + 4 - k) div 5 = (if k < m then q + 1 else q)"
proof -
  have "5 * q + m + 4 - k = (m + 4 - k) + q * 5" using assms by simp
  moreover have "(m + 4 - k) div 5 = (if k < m then 1 else 0)" using assms by (auto intro: div_nat_eqI)
  ultimately show ?thesis by simp
qed

text \<open>
  The switch after the n-th press since the start: sending is off after an odd number of presses;
  the presses are counted in five slots used in turn, and the index never leaves the array.
\<close>
theorem switch_presses:
  assumes "isr_calls r = replicate 5 0" "idx r = 0" "operating_state r = Running"
  shows "\<exists>r' s'. run_steps (replicate n isr_switch_state) (r, s) = Inr (r', s') \<and>
    operating_state r' = (if even n then Running else Maintenance) \<and> idx r' = of_nat (n mod 5) \<and>
    isr_calls r' = map (\<lambda>k. of_nat ((n + 4 - k) div 5)) [0..<5]"
proof (induction n)
  case 0
  have "(0 + 4 - k) div 5 = 0" for k :: nat by simp
  then have "map (\<lambda>k. of_nat ((0 + 4 - k) div 5)) [0..<5] = replicate 5 (0 :: u32)"
    by (simp only: of_nat_0 map_replicate_const length_upt) simp
  then show ?case unfolding replicate_0 run_steps.simps using assms by (intro exI conjI) (rule refl, simp_all)
next
  case (Suc n)
  then obtain r' s' where h: "run_steps (replicate n isr_switch_state) (r, s) = Inr (r', s')"
    "operating_state r' = (if even n then Running else Maintenance)" "idx r' = of_nat (n mod 5)"
    "isr_calls r' = map (\<lambda>k. of_nat ((n + 4 - k) div 5)) [0..<5]" by blast
  define m where "m = n mod 5"
  have m: "m < 5" and nd: "n = 5 * (n div 5) + m" by (simp_all add: m_def)
  have u: "uint (idx r') = int m" unfolding h(3) m_def [symmetric] using m by (simp add: unsigned_of_nat take_bit_nat_eq_self)
  have i: "(if 4 < idx r' + 1 then 0 else idx r' + 1) = (of_nat (Suc n mod 5) :: u32)"
  proof -
    consider "m = 0" | "m = 1" | "m = 2" | "m = 3" | "m = 4" using m by linarith
    then show ?thesis unfolding h(3) m_def [symmetric] by cases (simp_all add: mod_Suc m_def [symmetric])
  qed
  have c: "(isr_calls r')[m := isr_calls r' ! m + 1] = map (\<lambda>k. of_nat ((Suc n + 4 - k) div 5)) [0..<5]"
  proof (rule nth_equalityI)
    fix k assume "k < length ((isr_calls r')[m := isr_calls r' ! m + 1])"
    then have k: "k < 5" using h(4) by simp
    define q where "q = n div 5"
    have n: "n = 5 * q + m" using nd by (simp add: q_def)
    have "(n + 4 - k) div 5 = (if k < m then q + 1 else q)" "(Suc n + 4 - k) div 5 = (if k \<le> m then q + 1 else q)"
      using slot_count [of k m q] slot_count [of k "Suc m" q] k m by (simp_all add: n less_Suc_eq_le)
    then show "(isr_calls r')[m := isr_calls r' ! m + 1] ! k = map (\<lambda>k. of_nat ((Suc n + 4 - k) div 5)) [0..<5] ! k"
      using k m h(4) by (cases "k = m") (simp_all del: upt_rec_numeral)
  qed (simp add: h(4))
  have "isr_switch_state (r', s') = Inr (r'\<lparr>isr_calls := (isr_calls r')[m := isr_calls r' ! m + 1],
      operating_state := (if operating_state r' = Running then Maintenance else Running),
      idx := of_nat (Suc n mod 5)\<rparr>, exti_acknowledge_interrupt (mode_switch r') s')"
    unfolding isr_switch_state_def prod.case u Let_def i using m h(4) by simp
  then show ?case unfolding run_steps_Suc h(1) bnd_simps using h(2) c by simp
qed

text \<open>What is sent is within the limits and carries the checksum unit's answer.\<close>

theorem main_routine_sends:
  assumes "main_routine tr r (g, s) = Inr (r', g', s')" "sint (lower_bound r) \<le> sint (upper_bound r)"
  shows "sint (lower_bound r) \<le> sint (current_reading r') \<and> sint (current_reading r') \<le> sint (upper_bound r) \<and>
    cmd_argument (tx_payload r') = current_reading r' \<and> reading_mutex r' = 0 \<and>
    (sint (lower_bound r) \<le> sint (current_reading r) \<and> sint (current_reading r) \<le> sint (upper_bound r) \<longrightarrow>
       current_reading r' = current_reading r)"
proof -
  have m: "reading_mutex r \<noteq> 1" using assms(1) by (auto simp: main_routine_def lock_reading_def)
  define c where "c = clamp_reading (r\<lparr>reading_mutex := lock_r1 (adc_disable_interrupts s)\<rparr>)"
  have r': "current_reading r' = current_reading c" "cmd_argument (tx_payload r') = current_reading c" "reading_mutex r' = 0"
    using assms(1) m by (auto simp: main_routine_def lock_reading_def release_reading_def Let_def bnd_eq_Inr c_def [symmetric]
        split: prod.splits)
  show ?thesis unfolding r' using assms(2) by (simp add: c_def clamp_reading_def)
qed

end
