(* ===== verification/Pwm.thy ===== *)
theory Pwm
  imports Gpio
begin

text \<open>
  Pulse width modulation on timer 2 (\<open>os/arch/f401/src/tim2_5.c\<close>).  \<open>g0\<close> is the uninitialised
  local object of \<open>timer_pwm_init\<close>.
\<close>

definition apply_gpio_pwm_setting :: "GpioObject \<Rightarrow> 'z machine_scheme \<Rightarrow> 'z machine_scheme" where
  "apply_gpio_pwm_setting g s =
     into_af g 1 (set_moder g AlternateFunctionMode (set_pupdr g PullUp (set_otyper g OpenDrain s)))"

text \<open>\<open>for (i = 0; i < 4; i++)\<close> and \<open>for (i = 1; i <= 4; i++)\<close>.\<close>

fun pwm_pins :: "u32 list \<Rightarrow> GpioObject \<Rightarrow> 'z machine_scheme \<Rightarrow> 'z machine_scheme" where
  "pwm_pins [] g s = s"
| "pwm_pins (i # is) g s = pwm_pins is g (apply_gpio_pwm_setting (g\<lparr>pin := i\<rparr>) s)"

fun pwm_ccrs :: "u32 list \<Rightarrow> 'z machine_scheme \<Rightarrow> 'z machine_scheme" where
  "pwm_ccrs [] s = s"
| "pwm_ccrs (i # is) s = pwm_ccrs is (set_ccr 2 4000 i s)"

definition pwm_mode :: "u32 \<Rightarrow> u32" where
  "pwm_mode v = v OR shl 1 3 OR shl 6 4 OR shl 6 12"

text \<open>\<open>ccmr2\<close> is computed from \<open>ccmr1\<close>, and \<open>set_udis(~2)\<close> names no timer.\<close>

definition timer_pwm_init :: "GpioObject \<Rightarrow> u32 \<Rightarrow> 'z machine_scheme \<Rightarrow> 'z machine_scheme" where
  "timer_pwm_init g0 tim_nr s =
     (let s1 = MODIFY_REGISTER (rcc ''apb1enr'') (\<lambda>v. v OR shl 1 (tim_nr - 2)) s;
          (g, s2) = init_gpio (g0\<lparr>port := 65\<rparr>) s1;
          s3 = pwm_pins [0, 1, 2, 3] g s2;
          base = get_timx_base 2;
          s4 = MODIFY_REGISTER (tim base ''ccmr1'') pwm_mode s3;
          (v, s5) = READ_REGISTER (tim base ''ccmr1'') s4;
          s6 = WRITE_REGISTER (tim base ''ccmr2'') (pwm_mode v) s5;
          s7 = MODIFY_REGISTER (tim base ''ccer'') (\<lambda>v. v OR shl 1 12 OR shl 1 8 OR shl 1 4 OR shl 1 0) s6;
          s8 = set_ccr 2 1000 1 (pwm_ccrs [1, 2, 3, 4] (set_prescaler 2 2 s7))
      in set_udis (NOT 2) (timer_set_arr 2 8000 s8))"

end
