(* ===== verification/Spec2Isabelle.thy ===== *)
theory Spec2Isabelle
  imports Task_Life Task_Count Upload User_Tests Drone_Tasks Radio_Fields Radio_Link Transfers Os_Statistics Programs System_Properties Task_Properties Irq_Properties Sleep_Properties Library_Properties Mutex Remote Am2302 Adxl345 I2c Pwm
begin

text \<open>
  NextLevelRTOS, a small operating system for Cortex-M4 boards written in C: a preemptible kernel
  (\<open>src/os\<close>) for the STM32F401, libraries for a radio and a sensor (\<open>src/packages/lib\<close>) and the
  programs that use them (\<open>src/packages\<close>, \<open>src/modules\<close>).  The development
  translates the C functions one by one into HOL functions over an explicit state and proves
  what they do, errors included.

  The program.  \<open>bootstrap\<close> (\<open>startup.c\<close>) clears the memory, prepares the heap
  (\<open>init_allocator\<close>), creates the two task queues and the idle task (\<open>setup_kernel_runtime\<close>),
  sets up the serial port and starts the idle task by a supervisor call.  The idle task creates
  the task that serves commands, cleans up finished tasks and runs kernel subtasks; it blocks
  after every turn.  A task gives up the core by blocking or yielding: \<open>svcall_isr\<close> stores r4 to
  r11 below the task's stack pointer and makes PendSV pending; \<open>pendsv_isr\<close> stores the stack
  pointer in the task's block, selects the next READY task of the ring (\<open>switch_task\<close>) and
  loads its registers.  The serial interrupt collects four bytes and wakes the io task; the
  timer interrupt wakes a sleeping task; the external interrupts call registered functions.
  The radio programs register such a function: it drains the receiver's FIFO, checks the checksum of
  each packet against the checksum unit and acknowledges; the transmitter repeats a packet until
  the acknowledgement arrives.

  The state.  A record \<open>machine\<close> (theory Machine) holds the memory-mapped registers: what they
  hold, the values the hardware will present at the next reads (a parameter of every run), and
  the list of all writes.  \<open>alloc_state\<close> adds the slot table of the heap and its mutex;
  \<open>kernel\<close> (Kernel_State) adds the typed heaps (queue nodes, queues, task control blocks, list
  nodes, lists: one map from addresses for each C type the kernel reaches through pointers), bytes
  of memory (stacks, buffers), the core's registers, and the globals of the C files.  An
  operation returns \<open>Inr\<close> of its result and state, or \<open>Inl\<close> of a \<open>fault\<close>: a null pointer
  followed, an array index outside its array, a busy-wait that never ends, a reset, a division
  by zero, an expression C leaves undefined.  Return codes are ordinary values.  Machine words
  are \<open>32 word\<close> and \<open>8 word\<close>, so that counters wrap where the code's do.  Addresses of
  functions and linker symbols are the record \<open>Symbols\<close>; a function called through a pointer is
  an argument (\<open>call\<close>) of the operation that calls it.

  Theories and sources (under \<open>src/os\<close> unless said otherwise):
  Prelude: outcomes, checked array access.  Machine: \<open>lang.h\<close>, busy-waits, SysTick on and off.
  Quicksort: \<open>data/quicksort.c\<close>.  Allocator, Allocator_Spec, Memory_Ops: \<open>memory.c\<close>,
  \<open>memory.h\<close>.  Mutex: \<open>mutex.s\<close>.  Kernel_State: the data types, \<open>panic.c\<close>, \<open>cpu.h\<close>.
  Queue, Queue_Spec: \<open>data/queue.c\<close>.  SList: \<open>data/list.c\<close>.  Scheduler, Os_Statistics, Scheduler_Spec,
  Scheduler_Props: \<open>process/scheduler.h\<close> and \<open>scheduler.c\<close>.  Task: \<open>process/task.c\<close>.
  Cpu_Ops: \<open>hw/cpu.c\<close>.  Exceptions: \<open>core/exception.c\<close>.  Irq: \<open>irq/*.c\<close>.  Runtime:
  \<open>core/runtime.c\<close>.  Startup, Boot: \<open>startup.c\<close>, \<open>main.c\<close>.  Timer, Pwm, Gpio, Uart, Spi,
  Adc, I2c: the drivers under \<open>arch/f401\<close>.  Nrf: \<open>packages/lib/nrf2401\<close>.  Radio_Apps:
  \<open>modules/nrf2401_receive\<close>, \<open>packages/nrf2401_transmit\<close>.  Remote: \<open>packages/remote\<close>.  Am2302:
  \<open>packages/lib/am2302\<close> and \<open>am2302.h\<close>.  Adxl345: \<open>packages/i2c\<close>.  Programs: \<open>packages/memory_tests\<close>, \<open>dummy\<close>, \<open>memory_benchmark\<close>, \<open>adc\<close>,
  \<open>nrf2401_config\<close>, \<open>nrf2401_receive\<close>, \<open>weathernodeV2\<close>, and the packets of \<open>drone_rpm\<close>.
  User_Tests: \<open>packages/scheduler_join_task\<close>, \<open>cs_validation\<close>, \<open>scheduler_tests\<close>, \<open>scheduler_benchmark\<close>,
  \<open>sleep_benchmark\<close>, \<open>cpu_stress\<close>, \<open>weathernode\<close>, \<open>modules/template2\<close>, \<open>wireless\<close>, \<open>weathernode\<close>.  Radio_Fields: the
  bit-field views of \<open>nrf24l01.h\<close>.  Port_F303: \<open>gpio.c\<close>, \<open>i2c.c\<close>, \<open>uart.c\<close> of \<open>arch/f303\<close> and the serial output of
  \<open>arch/qemu\<close>, their names with the suffix \<open>_f303\<close> and \<open>_qemu\<close>.  Drone_Tasks: \<open>drohnentasks/src\<close>.  Demo holds concrete states at which
  properties are applied.

  What the lemmas show.  Allocator_Spec: the table is laid out without gaps or overlaps
  (\<open>alloc_inv\<close>), \<open>live\<close> abstracts it to the set of chunks handed out, and the locale
  \<open>chunk_allocator\<close> states what a client may rely on; it is interpreted on the model's own
  \<open>allocate\<close> and \<open>deallocate\<close>.  Queue_Spec: \<open>is_queue s q xs\<close> relates the linked nodes
  of a queue to a list; the locale \<open>task_queue\<close> states removal and insertion over lists and is
  interpreted on \<open>isolate_node\<close> and \<open>move_node\<close>.  Scheduler_Spec and Scheduler_Props:
  \<open>sched_ok s R W\<close> is the invariant of the two queues (running tasks \<open>R\<close>, waiting tasks
  \<open>W\<close>, disjoint, each task's state fitting its queue); every operation is described by what it
  does to the lists.  Quicksort: the locale \<open>comparator\<close> (a total preorder) is interpreted on the
  three comparators of the program.  Boot: which part of the state each device operation can
  touch, and that set-up succeeds on a fresh heap.  The properties are the theorems of
  Kernel_Properties (queues, scheduling), Task_Properties (creation, supervisor calls, contexts),
  Irq_Properties, Sleep_Properties, Library_Properties, System_Properties (from reset to the first task), Transfers
  (the list of transfers the task \<open>transfer_handler\<close> serves), Kernel_Run, Kernel_Live, Task_Life and Task_Count, and those
  beside their component in Allocator_Spec, Mutex, Nrf, Radio_Link (a packet from the transmitter's buffer to
  the receiver's), Am2302, Adxl345, Upload, User_Tests and
  Port_F303.  Am2302
  describes a wire as a list of samples and shows, inside the locale \<open>sensor_wire\<close> (a pin whose
  registers are apart from the timer's, interpreted on the pins the programs use), which bits the
  sampling loop extracts.  Radio_Link proves operations total with \<open>returns\<close>, under \<open>radio_up\<close>, and follows the repeats by induction.
  Scheduler_Spec describes a wake-up by \<open>waiter\<close>, the first waiting task with a pid, and \<open>woke\<close>, the
  effect of moving exactly that task.

  Kernel_Inv, Kernel_Serial, Kernel_Run, Kernel_Live, Task_Life and Task_Count are about the kernel as a whole.  A configuration is the mode of
  the core, the addresses the programs have allocated, and the state; \<open>perform\<close> runs one event:
  a call of a task (yield, block, sleep, finish, join, create, allocate, release, clean up, print, the
  supervisor calls that are answered at once and the one that runs a function in handler mode), a fault of a task, the timer interrupt, the
  serial interrupt, SysTick, the set-up of the external lines, the registration of a handler for a line or the
  converter (\<open>InitLines\<close>, \<open>LinkLine\<close>, \<open>LinkConverter\<close>), the interrupts of the DMA stream, the external lines and the
  converter (\<open>Vector\<close>), a change of the devices, any computation of the running task on its registers and memory, or the context switch.
  \<open>enabled\<close> says when an event can come: memory is asked for while the table has room and in sizes the allocator
  can represent, tasks release chunks they own and idle neither ends nor faults, what prints
  finds the transmitter ready, the serial interrupt finds the pointer \<open>internal_rx_state\<close> as start-up has
  set it and does not complete the command REBOOT, which resets the core, and an interrupt of a line or the converter
  comes when a handler is registered for it.  That such an interrupt does not fault is proved, not assumed: of the
  registered function itself, which belongs to a task, \<open>callable\<close> asks that it returns and only drives devices and stores to
  memory that holds no data of the kernel (\<open>harmless\<close>, which the kernel's two functions that
  enable an interrupt are shown to be), the same as of a foreign target of \<open>execPriv\<close>; that the kernel's handler reads its
  table inside its bounds, finds that function and no null pointer (\<open>call_ptr\<close> makes the call of one a fault) is part of the theorem.
  \<open>kernel_inv\<close> joins the invariants of
  queues and heap with the ownership of memory (\<open>owned\<close>, \<open>heap_ok\<close>) and the room in the receive buffer
  (\<open>rx_room\<close>); \<open>steady\<close> is the
  frame every operation but creation, allocation and clean-up satisfies.  Every event keeps the
  invariant and returns, so no run from reset faults, and with yields every READY task is
  selected.  Task_Life states what the kernel promises its tasks as an abstract machine of a few lines, a map from
  tasks to Ready, Waiting or Ended and the task that has the core, and shows by a
  simulation that every event is matched by the abstract steps of its kind (\<open>steps_of\<close>, which the event and the state fix: the end of
  a task wakes the first waiting task with its parent's pid if the parent joined it, the timer the first with the pid stored for the
  sleeper, and nothing else); from it follows
  that a task that has ended is never run again.  Task_Count bounds the number of tasks by the size of the
  heap.  A call is one event there, taken without interruption: the code masks interrupts while it
  moves tasks (\<open>block_current_task\<close>) and switches SysTick off while it creates one, and an interrupt
  inside one of the other calls is outside these theorems.  So are \<open>kill_child_task\<close>, which
  follows NULL, \<open>usage_fault\<close> of irq/usage_fault.c, which spins, and creation with a full table.

  Upload follows a program from the request of the host to its task: the io task allocates the chunk, sends
  its address and arms the DMA stream, and the idle task makes a READY task of it whose first
  switch enters the chunk.  User_Tests shows that the tests of join succeed without any task
  having been joined.  Port_F303 compares the I2C driver of the F303 with the one of \<open>packages/i2c\<close>;
  Radio_Fields shows that the members of each bit-field structure can be written and read back independently,
  and where they lie; Drone_Tasks what one measurement counts and that the ramp ends.

  Bounds and fuel.  Loops over a queue run as often as its size says, which is the bound of the
  C loop.  A busy-wait reads the presented values one after the other and is the fault \<open>Spin\<close>
  when they are used up and the register's own value fails the test, so no fuel is needed.
  The waiting loops of the radio driver, which call a timer function of unknown behaviour, take a
  fuel argument and end in \<open>Spin\<close> when it is used up; Radio_Link shows how much is enough, more than either delay when the timer
  advances with every read.  The sampling loop of the humidity sensor and the
  sending loops of the I2C drivers consume input in every round and need none; so does the loop of \<open>do_measurement\<close>; the receiving loop
  of the latter is given as many rounds as the length it waits for, after which its counter repeats.  The endless loops of the kernel tasks
  are modelled by one turn each.

  Not modelled, and why.  What the core does in hardware: stacking of r0 to r3, r12, lr, pc and
  psr at an exception, priorities, and that \<open>WFI\<close> sleeps.  The
  layout of a control block in bytes, a parameter of \<open>collect_os_statistics\<close> (Os_Statistics).
  The ports to the F407 and to QEMU apart from the serial output: their functions are empty.  The packages
  \<open>various_tests\<close> and \<open>panix\<close>, which use names the repository does not declare, \<open>f401_pwm\<close> and the
  main of \<open>drone_rpm\<close>, which call \<open>timer_pwm_init\<close> with two arguments where the F401 takes one, and
  \<open>am2302_init_peripherials\<close> with what calls it, which passes four arguments to a function of three.
  \<open>nrf_transmit\<close>, defined nowhere, is an argument of the programs that send with it.  The vendored \<open>fdlibm.h\<close>, empty
  programs, headers copied from \<open>packages/lib\<close>, and all scripts.  A store through a typed pointer does not change the bytes of memory and the other way
  round: the development relies on the allocator's theorem that chunks do not overlap, and
  \<open>create_task\<close> pushing the address of its own local variable is kept as it is.
\<close>

end
